(* ===== verification/Prelude.thy ===== *)
theory Prelude
  imports Complex_Main "HOL-Library.Word" "HOL-Library.Char_ord" "HOL-Library.List_Lexorder"
    "HOL-Library.Product_Lexorder" "HOL-Library.Sublist" "HOL-Library.AList"
begin

text \<open>
  What the components share: the Go values the program handles (strings as byte lists, the
  dynamic type \<^verbatim>\<open>any\<close>, times and durations in nanoseconds with their 64-bit wrap-around and
  saturation), the parts of the packages \<^verbatim>\<open>strings\<close>, \<^verbatim>\<open>strconv\<close> and \<^verbatim>\<open>time\<close> the
  sources call, and generic lemmas on them. A Go map is an association list with distinct keys;
  the order of the list stands for the iteration order the runtime happens to choose.
\<close>

named_theorems go_defs \<open>definitions of the Go library operations, for unfolding\<close>
named_theorems cache_inv \<open>preservation of the probe cache's invariant\<close>
named_theorems store_inv \<open>preservation of the local store's invariant\<close>

section \<open>Integers, durations and times\<close>

text \<open>A 64-bit signed operation of Go wraps around: \<open>i64\<close> is the value it leaves.\<close>

definition i64 :: "int \<Rightarrow> int" where
  "i64 x = (x + 2 ^ 63) mod 2 ^ 64 - 2 ^ 63"

text \<open>Integer division of Go truncates towards zero.\<close>

definition go_div :: "int \<Rightarrow> int \<Rightarrow> int" where
  "go_div a b = (if 0 \<le> a then (if 0 \<le> b then a div b else - (a div (- b)))
                 else (if 0 \<le> b then - ((- a) div b) else (- a) div (- b)))"

type_synonym duration = int
type_synonym gotime = int

definition nanosecond :: duration where "nanosecond = 1"
definition millisecond :: duration where "millisecond = 1000000"
definition second :: duration where "second = 1000000000"

text \<open>
  A \<open>gotime\<close> counts nanoseconds since the Unix epoch. The zero \<^verbatim>\<open>time.Time\<close> is midnight of
  January 1 of year 1.
\<close>

definition time_zero :: gotime where
  "time_zero = - 62135596800000000000"

definition IsZero :: "gotime \<Rightarrow> bool" where
  "IsZero t \<longleftrightarrow> t = time_zero"

text \<open>\<^verbatim>\<open>Time.Sub\<close> saturates at the ends of the duration range instead of wrapping.\<close>

definition time_sub :: "gotime \<Rightarrow> gotime \<Rightarrow> duration" where
  "time_sub t u = max (- (2 ^ 63)) (min (2 ^ 63 - 1) (t - u))"

definition time_add :: "gotime \<Rightarrow> duration \<Rightarrow> gotime" where
  "time_add t d = t + d"

definition UnixMilli :: "int \<Rightarrow> gotime" where
  "UnixMilli ms = ms * 1000000"

text \<open>\<^verbatim>\<open>t.UnixMilli()\<close>: \<^verbatim>\<open>time.Time\<close> keeps seconds and a non-negative nanosecond part, so the
  conversion rounds towards minus infinity.\<close>

definition to_UnixMilli :: "gotime \<Rightarrow> int" where
  "to_UnixMilli t = t div 1000000"

section \<open>Dynamic values\<close>

text \<open>
  A \<^verbatim>\<open>float64\<close> is a rational, an infinity or not a number; the rounding of the arithmetic is
  not modelled. \<open>goval\<close> is Go's \<^verbatim>\<open>any\<close> as \<^verbatim>\<open>encoding/json\<close> produces it, plus the integers
  a caller can put there directly.
\<close>

datatype gofloat = Fin rat | PosInf | NegInf | NaN

datatype goval =
    GNil
  | GBool bool
  | GInt int
  | GFloat gofloat
  | GStr string
  | GArr "goval list"
  | GObj "(string \<times> goval) list"

type_synonym gomap = "(string \<times> goval) list"

text \<open>The type assertions of the sources, in the form \<^verbatim>\<open>v, _ := x.(T)\<close>: the zero value of the
  type when the assertion fails.\<close>

fun as_object :: "goval option \<Rightarrow> gomap" where
  "as_object (Some (GObj m)) = m"
| "as_object _ = []"

fun as_array :: "goval option \<Rightarrow> goval list" where
  "as_array (Some (GArr xs)) = xs"
| "as_array _ = []"

fun as_string :: "goval option \<Rightarrow> string" where
  "as_string (Some (GStr s)) = s"
| "as_string _ = ''''"

fun as_bool :: "goval option \<Rightarrow> bool" where
  "as_bool (Some (GBool b)) = b"
| "as_bool _ = False"

section \<open>Strings\<close>

text \<open>Strings are byte lists. Case folding and space trimming are modelled on the ASCII range,
  which is where every literal the sources compare against lives.\<close>

definition lower_char :: "char \<Rightarrow> char" where
  "lower_char c = (let n = of_char c :: nat in if 65 \<le> n \<and> n \<le> 90 then char_of (n + 32) else c)"

definition ToLower :: "string \<Rightarrow> string" where
  "ToLower s = map lower_char s"

definition upper_char :: "char \<Rightarrow> char" where
  "upper_char c = (let n = of_char c :: nat in if 97 \<le> n \<and> n \<le> 122 then char_of (n - 32) else c)"

definition ToUpper :: "string \<Rightarrow> string" where
  "ToUpper s = map upper_char s"

definition is_space :: "char \<Rightarrow> bool" where
  "is_space c = (let n = of_char c :: nat in n = 32 \<or> (9 \<le> n \<and> n \<le> 13))"

definition TrimSpace :: "string \<Rightarrow> string" where
  "TrimSpace s = rev (dropWhile is_space (rev (dropWhile is_space s)))"

definition HasPrefix :: "string \<Rightarrow> string \<Rightarrow> bool" where
  "HasPrefix s p = (take (length p) s = p)"

definition HasSuffix :: "string \<Rightarrow> string \<Rightarrow> bool" where
  "HasSuffix s p = (length p \<le> length s \<and> drop (length s - length p) s = p)"

fun Contains :: "string \<Rightarrow> string \<Rightarrow> bool" where
  "Contains [] p = (p = [])"
| "Contains (c # s) p = (HasPrefix (c # s) p \<or> Contains s p)"

definition TrimPrefix :: "string \<Rightarrow> string \<Rightarrow> string" where
  "TrimPrefix s p = (if HasPrefix s p then drop (length p) s else s)"

definition CutPrefix :: "string \<Rightarrow> string \<Rightarrow> string \<times> bool" where
  "CutPrefix s p = (if HasPrefix s p then (drop (length p) s, True) else (s, False))"

text \<open>\<^verbatim>\<open>strings.Cut\<close> and \<^verbatim>\<open>strings.Split\<close> for a separator of one byte.\<close>

fun Cut :: "string \<Rightarrow> char \<Rightarrow> string \<times> string \<times> bool" where
  "Cut [] c = ([], [], False)"
| "Cut (d # s) c = (if d = c then ([], s, True)
     else (case Cut s c of (a, b, f) \<Rightarrow> (d # a, b, f)))"

fun SplitOn :: "char \<Rightarrow> string \<Rightarrow> string list" where
  "SplitOn c [] = [[]]"
| "SplitOn c (d # s) = (if d = c then [] # SplitOn c s
     else (case SplitOn c s of [] \<Rightarrow> [[d]] | w # ws \<Rightarrow> (d # w) # ws))"

fun Join :: "string list \<Rightarrow> string \<Rightarrow> string" where
  "Join [] sep = []"
| "Join [w] sep = w"
| "Join (w # v # ws) sep = w @ sep @ Join (v # ws) sep"

text \<open>\<^verbatim>\<open>strings.ReplaceAll\<close> for a non-empty pattern: leftmost matches, none overlapping.\<close>

function ReplaceAll :: "string \<Rightarrow> string \<Rightarrow> string \<Rightarrow> string" where
  "ReplaceAll s old new =
     (if old = [] \<or> length s < length old then s
      else if HasPrefix s old then new @ ReplaceAll (drop (length old) s) old new
      else hd s # ReplaceAll (tl s) old new)"
  by pat_completeness auto
termination
  by (relation "measure (\<lambda>(s, _, _). length s)") (auto simp: not_less neq_Nil_conv)

declare ReplaceAll.simps [simp del]

text \<open>\<^verbatim>\<open>strconv.Itoa\<close>.\<close>

definition digit_char :: "nat \<Rightarrow> char" where
  "digit_char n = ''0123456789'' ! n"

fun dec_digits :: "nat \<Rightarrow> string" where
  "dec_digits n = (if n < 10 then [digit_char n]
     else dec_digits (n div 10) @ [digit_char (n mod 10)])"

declare dec_digits.simps [simp del]

definition Itoa :: "int \<Rightarrow> string" where
  "Itoa i = (if i < 0 then CHR ''-'' # dec_digits (nat (- i)) else dec_digits (nat i))"

text \<open>\<^verbatim>\<open>%v\<close> of a dynamic value; the shortest decimal form of a float is \<open>fmt_float\<close>.\<close>

fun fmt_v :: "(gofloat \<Rightarrow> string) \<Rightarrow> goval \<Rightarrow> string" where
  "fmt_v fmt_float GNil = ''<nil>''"
| "fmt_v fmt_float (GBool b) = (if b then ''true'' else ''false'')"
| "fmt_v fmt_float (GInt i) = Itoa i"
| "fmt_v fmt_float (GFloat x) = fmt_float x"
| "fmt_v fmt_float (GStr s) = s"
| "fmt_v fmt_float (GArr vs) = ''['' @ Join (map (fmt_v fmt_float) vs) '' '' @ '']''"
| "fmt_v fmt_float (GObj m) =
     ''map['' @ Join (map (\<lambda>(k, s). k @ '':'' @ s) (sort_key fst (map (\<lambda>(k, v). (k, fmt_v fmt_float v)) m))) '' '' @ '']''"

text \<open>\<^verbatim>\<open>%q\<close> of a string of printable characters.\<close>

definition go_quote :: "string \<Rightarrow> string" where
  "go_quote s = [CHR 0x22] @ concat (map (\<lambda>c. if c = CHR 0x22 \<or> c = CHR 0x5C then [CHR 0x5C, c] else [c]) s) @ [CHR 0x22]"

text \<open>The value of a digit string, the inverse used in the proofs below.\<close>

definition digit_val :: "char \<Rightarrow> nat" where
  "digit_val c = of_char c - 48"

definition dec_value :: "string \<Rightarrow> nat" where
  "dec_value s = foldl (\<lambda>v c. 10 * v + digit_val c) 0 s"

definition is_digit :: "char \<Rightarrow> bool" where
  "is_digit c = (let n = of_char c :: nat in 48 \<le> n \<and> n \<le> 57)"

text \<open>\<^verbatim>\<open>strconv.ParseInt(s, 10, 64)\<close> and \<^verbatim>\<open>strconv.Atoi\<close>: an optional sign, then digits only, in
  the 64-bit range.\<close>

definition ParseInt64 :: "string \<Rightarrow> int option" where
  "ParseInt64 s =
     (let (neg, ds) = (case s of [] \<Rightarrow> (False, [])
                       | c # cs \<Rightarrow> if c = CHR ''-'' then (True, cs)
                                   else if c = CHR ''+'' then (False, cs) else (False, s))
      in if ds = [] \<or> \<not> list_all is_digit ds then None
         else (let v = (if neg then - int (dec_value ds) else int (dec_value ds))
               in if - (2 ^ 63) \<le> v \<and> v < 2 ^ 63 then Some v else None))"

lemmas go_string_defs [go_defs] =
  ToLower_def TrimSpace_def HasPrefix_def HasSuffix_def TrimPrefix_def CutPrefix_def

section \<open>Generic lemmas\<close>

lemma i64_range: "- (2 ^ 63) \<le> i64 x" "i64 x < 2 ^ 63"
  by (simp_all add: i64_def)

lemma i64_id [simp]: "- (2 ^ 63) \<le> x \<Longrightarrow> x < 2 ^ 63 \<Longrightarrow> i64 x = x"
  by (simp add: i64_def)

lemma i64_idem [simp]: "i64 (i64 x) = i64 x"
  by (simp add: i64_def)

lemma go_div_nonneg: "0 \<le> a \<Longrightarrow> 0 < b \<Longrightarrow> go_div a b = a div b"
  by (simp add: go_div_def)

lemma time_sub_id [simp]:
  "- (2 ^ 63) \<le> t - u \<Longrightarrow> t - u < 2 ^ 63 \<Longrightarrow> time_sub t u = t - u"
  by (simp add: time_sub_def)

lemma time_sub_ge_iff: "d < 2 ^ 63 \<Longrightarrow> - (2 ^ 63) < d \<Longrightarrow> d \<le> time_sub t u \<longleftrightarrow> d \<le> t - u"
  by (auto simp: time_sub_def)

lemma digit_val_digit_char: "n < 10 \<Longrightarrow> digit_val (digit_char n) = n"
  by (auto simp: digit_val_def digit_char_def less_Suc_eq numeral_eq_Suc)

lemma is_digit_digit_char: "n < 10 \<Longrightarrow> is_digit (digit_char n)"
  by (auto simp: is_digit_def digit_char_def less_Suc_eq numeral_eq_Suc)

lemma dec_value_snoc: "dec_value (s @ [c]) = 10 * dec_value s + digit_val c"
  by (simp add: dec_value_def)

lemma dec_value_dec_digits [simp]: "dec_value (dec_digits n) = n"
proof (induction n rule: dec_digits.induct)
  case (1 n)
  show ?case
  proof (cases "n < 10")
    case True
    then show ?thesis by (simp add: dec_digits.simps dec_value_def digit_val_digit_char)
  next
    case False
    with 1 show ?thesis
      by (simp add: dec_digits.simps [of n] dec_value_snoc digit_val_digit_char)
  qed
qed

lemma dec_digits_digits: "list_all is_digit (dec_digits n)"
proof (induction n rule: dec_digits.induct)
  case (1 n)
  then show ?case
    by (cases "n < 10") (simp_all add: dec_digits.simps [of n] is_digit_digit_char)
qed

lemma dec_digits_nonempty [simp]: "dec_digits n \<noteq> []"
  by (subst dec_digits.simps) simp

lemma is_digit_minus: "\<not> is_digit (CHR ''-'')"
  by (simp add: is_digit_def)

lemma dec_digits_hd: "is_digit (hd (dec_digits n))"
  using dec_digits_digits [of n] by (cases "dec_digits n") auto

lemma dec_digits_inj: "dec_digits a = dec_digits b \<Longrightarrow> a = b"
  by (metis dec_value_dec_digits)

lemma Itoa_inj: "Itoa a = Itoa b \<Longrightarrow> a = b"
proof -
  assume eq: "Itoa a = Itoa b"
  have neg: "CHR ''-'' # s \<noteq> dec_digits n" for s n
    using dec_digits_hd [of n] is_digit_minus by (cases "dec_digits n") auto
  show "a = b"
  proof (cases "a < 0")
    case True
    with eq neg [of _ "nat b"] have "b < 0" by (auto simp: Itoa_def split: if_splits)
    with True eq dec_digits_inj [of "nat (- a)" "nat (- b)"] show ?thesis
      by (simp add: Itoa_def)
  next
    case False
    with eq neg [of _ "nat a"] have "\<not> b < 0" by (auto simp: Itoa_def split: if_splits)
    with False eq dec_digits_inj [of "nat a" "nat b"] show ?thesis
      by (simp add: Itoa_def)
  qed
qed

lemma Itoa_eq_iff [simp]: "Itoa a = Itoa b \<longleftrightarrow> a = b"
  by (auto dest: Itoa_inj)

lemma Itoa_chars: "c \<in> set (Itoa i) \<Longrightarrow> is_digit c \<or> c = CHR ''-''"
  using dec_digits_digits by (auto simp: Itoa_def list_all_iff split: if_splits)

lemma ParseInt64_Itoa:
  assumes "- (2 ^ 63) \<le> i" "i < 2 ^ 63"
  shows "ParseInt64 (Itoa i) = Some i"
proof (cases "i < 0")
  case True
  with assms show ?thesis by (simp add: ParseInt64_def Itoa_def dec_digits_digits)
next
  case False
  obtain c cs where ds: "dec_digits (nat i) = c # cs" by (cases "dec_digits (nat i)") auto
  with dec_digits_hd [of "nat i"] have "is_digit c" by simp
  then have "c \<noteq> CHR ''-''" "c \<noteq> CHR ''+''" by (auto simp: is_digit_def)
  with False assms ds dec_digits_digits [of "nat i"] dec_value_dec_digits [of "nat i"]
  show ?thesis by (simp add: ParseInt64_def Itoa_def)
qed

lemma Join_Cons: "ws \<noteq> [] \<Longrightarrow> Join (w # ws) sep = w @ sep @ Join ws sep"
  by (cases ws) auto

lemma Join_append:
  "xs \<noteq> [] \<Longrightarrow> ys \<noteq> [] \<Longrightarrow> Join (xs @ ys) sep = Join xs sep @ sep @ Join ys sep"
proof (induction xs)
  case (Cons x xs)
  then show ?case by (cases xs; cases ys) auto
qed simp

lemma dropWhile_idem_rev:
  "dropWhile P (rev (dropWhile P (rev (dropWhile P s)))) = rev (dropWhile P (rev (dropWhile P s)))"
proof (cases "dropWhile P s")
  case Nil
  then show ?thesis unfolding Nil by simp
next
  case (Cons c cs)
  then have nP: "\<not> P c" by (metis hd_dropWhile list.distinct(1) list.sel(1))
  have "dropWhile P (rev (c # cs)) = dropWhile P (rev cs) @ [c]"
    by (simp add: dropWhile_append3 nP)
  with Cons nP show ?thesis by simp
qed

lemma TrimSpace_idem [simp]: "TrimSpace (TrimSpace s) = TrimSpace s"
  by (simp add: TrimSpace_def dropWhile_idem_rev del: rev_rev_ident)
     (simp add: dropWhile_idem_rev)

lemma SplitOn_ne [simp]: "SplitOn c s \<noteq> []"
  by (induction c s rule: SplitOn.induct) (auto split: list.splits)

lemma SplitOn_free: "w \<in> set (SplitOn c s) \<Longrightarrow> c \<notin> set w"
  by (induction c s arbitrary: w rule: SplitOn.induct) (auto split: list.splits if_splits)

lemma Join_SplitOn [simp]: "Join (SplitOn c s) [c] = s"
proof (induction c s rule: SplitOn.induct)
  case (2 c d s)
  show ?case
  proof (cases "d = c")
    case False
    obtain w ws where s: "SplitOn c s = w # ws" by (cases "SplitOn c s") auto
    then show ?thesis using 2 False by (cases ws) auto
  qed (use 2 in \<open>simp add: Join_Cons\<close>)
qed simp

lemma SplitOn_append: "SplitOn c (a @ c # b) = SplitOn c a @ SplitOn c b"
proof (induction c a rule: SplitOn.induct)
  case (2 c d s)
  then show ?case by (cases "SplitOn c s") auto
qed simp

lemma SplitOn_single: "c \<notin> set w \<Longrightarrow> SplitOn c w = [w]"
  by (induction c w rule: SplitOn.induct) auto

lemma SplitOn_Join:
  assumes "ws \<noteq> []" "\<forall>w \<in> set ws. c \<notin> set w"
  shows "SplitOn c (Join ws [c]) = ws"
  using assms
proof (induction ws)
  case (Cons w ws)
  then show ?case by (cases "ws = []") (simp_all add: SplitOn_single Join_Cons SplitOn_append)
qed simp

lemma TrimSpace_id:
  assumes "\<And>c. c \<in> set s \<Longrightarrow> \<not> is_space c"
  shows "TrimSpace s = s"
proof -
  have *: "dropWhile is_space t = t" if "\<And>c. c \<in> set t \<Longrightarrow> \<not> is_space c" for t
    using that by (cases t) auto
  have "dropWhile is_space s = s" "dropWhile is_space (rev s) = rev s" using assms by (auto intro!: *)
  then show ?thesis by (simp add: TrimSpace_def)
qed

lemma HasPrefix_append [simp]: "HasPrefix (p @ s) p"
  by (simp add: HasPrefix_def)

lemma HasPrefix_conv: "HasPrefix s p \<longleftrightarrow> (\<exists>t. s = p @ t)"
  by (metis HasPrefix_append HasPrefix_def append_take_drop_id)

lemma Contains_conv: "Contains s p \<longleftrightarrow> (\<exists>u v. s = u @ p @ v)"
proof (induction s)
  case Nil
  then show ?case by auto
next
  case (Cons c s)
  have "(\<exists>u v. c # s = u @ p @ v) \<longleftrightarrow> (\<exists>v. c # s = p @ v) \<or> (\<exists>u v. s = u @ p @ v)"
    by (metis append_Cons append_Nil list.exhaust list.sel(3))
  then show ?case using Cons by (auto simp: HasPrefix_conv)
qed

lemma Contains_refl_append [simp]: "Contains (a @ p @ b) p"
  by (auto simp: Contains_conv)

text \<open>Association lists as Go maps.\<close>

lemma gomap_distinct_update [simp]:
  "distinct (map fst m) \<Longrightarrow> distinct (map fst (AList.update k v m))"
  by (rule distinct_update)

lemma gomap_distinct_delete [simp]:
  "distinct (map fst m) \<Longrightarrow> distinct (map fst (AList.delete k m))"
  by (rule distinct_delete)

lemma gomap_map_of_update [simp]: "map_of (AList.update k v m) = (map_of m)(k \<mapsto> v)"
  by (simp add: update_conv')

lemma gomap_map_of_delete [simp]: "map_of (AList.delete k m) = (map_of m)(k := None)"
  by (simp add: delete_conv')

end
