(* ===== verification/Netbind.thy ===== *)
theory Netbind
  imports Prelude
begin

unbundle bit_operations_syntax

text \<open>
  The node's outbound binding (\<^verbatim>\<open>internal/netbind/binding.go\<close>): parsing and validating it,
  which socket family it forces, and handing it to module child processes through the
  environment. The textual form of an address (\<^verbatim>\<open>netip.ParseAddr\<close> and \<^verbatim>\<open>Addr.String\<close>) is an
  argument of the definitions that use it; the address classes are defined on the bits.
\<close>

section \<open>Addresses\<close>

datatype addr = IP4 "32 word" | IP6 "128 word" (zone: string)

fun Is4 :: "addr \<Rightarrow> bool" where
  "Is4 (IP4 _) = True"
| "Is4 (IP6 _ _) = False"

fun Is6 :: "addr \<Rightarrow> bool" where
  "Is6 (IP4 _) = False"
| "Is6 (IP6 _ _) = True"

fun Unmap :: "addr \<Rightarrow> addr" where
  "Unmap (IP4 w) = IP4 w"
| "Unmap (IP6 w z) = (if drop_bit 32 w = 0xffff then IP4 (ucast w) else IP6 w z)"

fun IsUnspecified :: "addr \<Rightarrow> bool" where
  "IsUnspecified (IP4 w) = (w = 0)"
| "IsUnspecified (IP6 w z) = (w = 0 \<and> z = [])"

fun IsMulticast :: "addr \<Rightarrow> bool" where
  "IsMulticast (IP4 w) = (drop_bit 28 w = 0xe)"
| "IsMulticast (IP6 w z) = (drop_bit 120 w = 0xff)"

fun IsLinkLocalUnicast :: "addr \<Rightarrow> bool" where
  "IsLinkLocalUnicast (IP4 w) = (drop_bit 16 w = 0xa9fe)"
| "IsLinkLocalUnicast (IP6 w z) = (drop_bit 118 w = 0x3fa)"

fun Zone :: "addr \<Rightarrow> string" where
  "Zone (IP4 _) = []"
| "Zone (IP6 _ z) = z"

fun WithZone :: "addr \<Rightarrow> string \<Rightarrow> addr" where
  "WithZone (IP4 w) z = IP4 w"
| "WithZone (IP6 w _) z = IP6 w z"

section \<open>The binding\<close>

record Binding =
  SourceIP :: "addr option"
  Interface :: string

definition maxInterfaceLen :: nat where "maxInterfaceLen = 64"

datatype bind_error = InvalidSourceIP | NotUnicast | InterfaceTooLong | InterfaceControlChar

definition is_control :: "char \<Rightarrow> bool" where
  "is_control r = (let n = of_char r :: nat in n < 0x20 \<or> n = 0x7f)"

definition parse_source :: "(string \<Rightarrow> addr option) \<Rightarrow> string \<Rightarrow> bind_error + addr option" where
  "parse_source ParseAddr sourceIP =
     (let raw = TrimSpace sourceIP in
      if raw = [] then Inr None
      else (case ParseAddr raw of
              None \<Rightarrow> Inl InvalidSourceIP
            | Some a \<Rightarrow> (let a' = Unmap a in
                if IsUnspecified a' \<or> IsMulticast a' then Inl NotUnicast else Inr (Some a'))))"

definition with_link_zone :: "addr option \<Rightarrow> string \<Rightarrow> addr option" where
  "with_link_zone ip iface =
     (case ip of None \<Rightarrow> None
      | Some a \<Rightarrow> if Is6 a \<and> IsLinkLocalUnicast a \<and> Zone a = [] \<and> iface \<noteq> []
                  then Some (WithZone a iface) else Some a)"

definition Parse :: "(string \<Rightarrow> addr option) \<Rightarrow> string \<Rightarrow> string \<Rightarrow> bind_error + Binding" where
  "Parse ParseAddr sourceIP iface =
     (case parse_source ParseAddr sourceIP of
        Inl e \<Rightarrow> Inl e
      | Inr ip \<Rightarrow>
          (let i = TrimSpace iface in
           if i \<noteq> [] \<and> length i > maxInterfaceLen then Inl InterfaceTooLong
           else if i \<noteq> [] \<and> list_ex is_control i then Inl InterfaceControlChar
           else Inr \<lparr>SourceIP = with_link_zone ip i, Interface = i\<rparr>))"

definition Binding_IsZero :: "Binding \<Rightarrow> bool" where
  "Binding_IsZero b \<longleftrightarrow> SourceIP b = None \<and> Interface b = []"

definition Binding_String :: "(addr \<Rightarrow> string) \<Rightarrow> Binding \<Rightarrow> string" where
  "Binding_String ipstr b =
     Join ((case SourceIP b of None \<Rightarrow> [] | Some a \<Rightarrow> [''source '' @ ipstr a]) @
           (if Interface b \<noteq> [] then [''interface '' @ Interface b] else [])) '', ''"

definition Network :: "Binding \<Rightarrow> string \<Rightarrow> string" where
  "Network b base =
     (case SourceIP b of
        None \<Rightarrow> base
      | Some a \<Rightarrow> if base \<noteq> ''tcp'' \<and> base \<noteq> ''udp'' \<and> base \<noteq> ''ip'' then base
                  else if Is4 a then base @ ''4'' else base @ ''6'')"

definition EnvSourceIP :: string where "EnvSourceIP = ''RADAR_SOURCE_IP''"
definition EnvBindInterface :: string where "EnvBindInterface = ''RADAR_BIND_INTERFACE''"

definition Env :: "(addr \<Rightarrow> string) \<Rightarrow> string list \<Rightarrow> Binding \<Rightarrow> string list" where
  "Env ipstr base b =
     filter (\<lambda>e. \<not> (HasPrefix e (EnvSourceIP @ ''='') \<or> HasPrefix e (EnvBindInterface @ ''=''))) base
     @ (case SourceIP b of None \<Rightarrow> [] | Some a \<Rightarrow> [EnvSourceIP @ ''='' @ ipstr a])
     @ (if Interface b \<noteq> [] then [EnvBindInterface @ ''='' @ Interface b] else [])"

text \<open>\<^verbatim>\<open>os.Getenv\<close> in the process whose environment is the given list.\<close>

fun Getenv :: "string list \<Rightarrow> string \<Rightarrow> string" where
  "Getenv [] key = []"
| "Getenv (e # es) key =
     (if HasPrefix e (key @ ''='') then drop (length key + 1) e else Getenv es key)"

definition FromEnv :: "(string \<Rightarrow> addr option) \<Rightarrow> string list \<Rightarrow> bind_error + Binding" where
  "FromEnv ParseAddr env = Parse ParseAddr (Getenv env EnvSourceIP) (Getenv env EnvBindInterface)"

section \<open>Lemmas\<close>

lemma Unmap_idem [simp]: "Unmap (Unmap a) = Unmap a"
  by (cases a) auto

lemma with_link_zone_idem [simp]:
  "with_link_zone (with_link_zone ip i) i = with_link_zone ip i"
proof (cases ip)
  case None
  then show ?thesis by (simp add: with_link_zone_def)
next
  case (Some a)
  then show ?thesis by (cases a) (auto simp: with_link_zone_def)
qed

lemma IsLinkLocal_WithZone [simp]: "IsLinkLocalUnicast (WithZone a z) = IsLinkLocalUnicast a"
  by (cases a) auto

lemma IsMulticast_WithZone [simp]: "IsMulticast (WithZone a z) = IsMulticast a"
  by (cases a) auto

lemma Unmap_WithZone: "Unmap a = a \<Longrightarrow> Unmap (WithZone a z) = WithZone a z"
  by (cases a) (auto split: if_splits)

lemma IsUnspecified_WithZone: "z \<noteq> [] \<Longrightarrow> \<not> IsUnspecified a \<Longrightarrow> \<not> IsUnspecified (WithZone a z)"
  by (cases a) auto

lemma parse_source_ok:
  assumes "parse_source ParseAddr s = Inr (Some a)"
  shows "Unmap a = a \<and> \<not> IsUnspecified a \<and> \<not> IsMulticast a"
  using assms by (auto simp: parse_source_def Let_def split: if_splits option.splits)

lemma Getenv_skip:
  "(\<And>e. e \<in> set es \<Longrightarrow> \<not> HasPrefix e (key @ ''='')) \<Longrightarrow> Getenv (es @ fs) key = Getenv fs key"
  by (induction es) auto

lemma Getenv_Env_SourceIP:
  "Getenv (Env ipstr base b) EnvSourceIP = (case SourceIP b of None \<Rightarrow> [] | Some a \<Rightarrow> ipstr a)"
proof -
  have k: "length EnvSourceIP = 15" by (simp add: EnvSourceIP_def)
  have p: "HasPrefix (EnvSourceIP @ ''='' @ v) (EnvSourceIP @ ''='')" for v
    by (simp add: HasPrefix_def)
  have q: "\<not> HasPrefix (EnvBindInterface @ ''='' @ v) (EnvSourceIP @ ''='')" for v
    by (simp add: HasPrefix_def EnvSourceIP_def EnvBindInterface_def)
  have d: "drop (length EnvSourceIP + 1) (EnvSourceIP @ ''='' @ v) = v" for v by simp
  show ?thesis
    unfolding Env_def using p q d by (subst Getenv_skip) (auto split: option.splits)
qed

lemma Getenv_Env_Interface:
  "Getenv (Env ipstr base b) EnvBindInterface = Interface b"
proof -
  have p: "HasPrefix (EnvBindInterface @ ''='' @ v) (EnvBindInterface @ ''='')" for v
    by (simp add: HasPrefix_def)
  have q: "\<not> HasPrefix (EnvSourceIP @ ''='' @ v) (EnvBindInterface @ ''='')" for v
    by (simp add: HasPrefix_def EnvSourceIP_def EnvBindInterface_def)
  show ?thesis
    unfolding Env_def using p q by (subst Getenv_skip) (auto split: option.splits)
qed

section \<open>Properties\<close>

text \<open>An accepted binding is usable: its source is a concrete unicast address in unmapped
  form, its interface name is trimmed, at most 64 bytes long and free of control characters, and
  an IPv6 link-local source bound together with an interface always carries a zone.\<close>

theorem Parse_accepts_only_usable:
  assumes "Parse ParseAddr s i = Inr b"
  shows "Interface b = TrimSpace i \<and> length (Interface b) \<le> 64
    \<and> (\<forall>c \<in> set (Interface b). \<not> is_control c)
    \<and> (case SourceIP b of None \<Rightarrow> TrimSpace s = []
       | Some a \<Rightarrow> \<not> IsUnspecified a \<and> \<not> IsMulticast a \<and> Unmap a = a
           \<and> (Is6 a \<and> IsLinkLocalUnicast a \<and> Interface b \<noteq> [] \<longrightarrow> Zone a \<noteq> []))"
proof -
  obtain ip where ip: "parse_source ParseAddr s = Inr ip"
    and b: "b = \<lparr>SourceIP = with_link_zone ip (TrimSpace i), Interface = TrimSpace i\<rparr>"
    and len: "TrimSpace i \<noteq> [] \<longrightarrow> length (TrimSpace i) \<le> 64"
    and ctl: "TrimSpace i \<noteq> [] \<longrightarrow> \<not> list_ex is_control (TrimSpace i)"
    using assms by (auto simp: Parse_def Let_def maxInterfaceLen_def split: sum.splits if_splits)
  have "case SourceIP b of None \<Rightarrow> TrimSpace s = []
       | Some a \<Rightarrow> \<not> IsUnspecified a \<and> \<not> IsMulticast a \<and> Unmap a = a
           \<and> (Is6 a \<and> IsLinkLocalUnicast a \<and> Interface b \<noteq> [] \<longrightarrow> Zone a \<noteq> [])"
  proof (cases ip)
    case None
    with ip b show ?thesis
      by (auto simp: with_link_zone_def parse_source_def Let_def split: if_splits option.splits)
  next
    case (Some a)
    with ip parse_source_ok have "Unmap a = a" "\<not> IsUnspecified a" "\<not> IsMulticast a" by auto
    with Some b show ?thesis
      by (cases a) (auto simp: with_link_zone_def split: if_splits)
  qed
  with b len ctl show ?thesis by (cases "TrimSpace i") (auto simp: list_ex_iff)
qed

theorem Parse_accepts_only_usable_witness:
  "Parse (\<lambda>_. Some (IP6 0xfe800000000000000000000000000001 [])) ''x'' '' eth0''
     = Inr \<lparr>SourceIP = Some (IP6 0xfe800000000000000000000000000001 ''eth0''), Interface = ''eth0''\<rparr>
   \<and> length ''eth0'' \<le> 64"
proof -
  let ?b = "\<lparr>SourceIP = Some (IP6 0xfe800000000000000000000000000001 ''eth0''), Interface = ''eth0''\<rparr>"
  have p: "Parse (\<lambda>_. Some (IP6 0xfe800000000000000000000000000001 [])) ''x'' '' eth0'' = Inr ?b"
    by code_simp
  from Parse_accepts_only_usable [OF p] p show ?thesis by simp
qed

text \<open>A module child process reads back exactly the binding its parent parsed, whatever the
  inherited environment already says, provided the textual form of the source address is one
  \<^verbatim>\<open>netip.ParseAddr\<close> reads back.\<close>

theorem FromEnv_Env_roundtrip:
  assumes "Parse ParseAddr s i = Inr b"
    and "\<And>a. SourceIP b = Some a \<Longrightarrow>
           ParseAddr (ipstr a) = Some a \<and> TrimSpace (ipstr a) = ipstr a \<and> ipstr a \<noteq> []"
  shows "FromEnv ParseAddr (Env ipstr base b) = Inr b"
proof -
  obtain ip where ip: "parse_source ParseAddr s = Inr ip"
    and b: "b = \<lparr>SourceIP = with_link_zone ip (TrimSpace i), Interface = TrimSpace i\<rparr>"
    and ok: "\<not> (TrimSpace i \<noteq> [] \<and> length (TrimSpace i) > maxInterfaceLen)"
      "\<not> (TrimSpace i \<noteq> [] \<and> list_ex is_control (TrimSpace i))"
    using assms(1) by (auto simp: Parse_def Let_def split: sum.splits if_splits)
  have "parse_source ParseAddr (case SourceIP b of None \<Rightarrow> [] | Some a \<Rightarrow> ipstr a) = Inr (SourceIP b)"
  proof (cases "SourceIP b")
    case None
    then show ?thesis by (simp add: parse_source_def TrimSpace_def)
  next
    case (Some a)
    with b obtain a0 where a0: "ip = Some a0" by (auto simp: with_link_zone_def split: option.splits)
    with ip parse_source_ok have "Unmap a0 = a0" "\<not> IsUnspecified a0" "\<not> IsMulticast a0" by auto
    moreover from Some b a0 have "a = a0 \<or> (\<exists>z. z \<noteq> [] \<and> a = WithZone a0 z)"
      by (auto simp: with_link_zone_def split: if_splits)
    ultimately have "Unmap a = a" "\<not> IsUnspecified a" "\<not> IsMulticast a"
      by (auto simp: Unmap_WithZone IsUnspecified_WithZone)
    with assms(2) [OF Some] Some show ?thesis by (simp add: parse_source_def)
  qed
  moreover have "with_link_zone (SourceIP b) (Interface b) = SourceIP b" using b by simp
  ultimately show ?thesis
    using ok b by (simp add: FromEnv_def Getenv_Env_SourceIP Getenv_Env_Interface Parse_def Let_def)
qed

theorem FromEnv_Env_roundtrip_witness:
  "FromEnv (\<lambda>_. Some (IP4 0x0a000001))
     (Env (\<lambda>_. ''10.0.0.1'') [''RADAR_SOURCE_IP=9.9.9.9'', ''PATH=/bin'']
        \<lparr>SourceIP = Some (IP4 0x0a000001), Interface = ''wan''\<rparr>)
   = Inr \<lparr>SourceIP = Some (IP4 0x0a000001), Interface = ''wan''\<rparr>"
proof -
  have p: "Parse (\<lambda>_. Some (IP4 0x0a000001)) ''10.0.0.1'' ''wan''
    = Inr \<lparr>SourceIP = Some (IP4 0x0a000001), Interface = ''wan''\<rparr>"
    by code_simp
  have t: "TrimSpace ''10.0.0.1'' = ''10.0.0.1''" by code_simp
  show ?thesis by (rule FromEnv_Env_roundtrip [OF p]) (simp add: t)
qed

text \<open>A bound source address pins the family-agnostic networks to its own family, and leaves
  every other network name and every unbound node alone.\<close>

theorem Network_family:
  "Network b base =
     (if SourceIP b \<noteq> None \<and> base \<in> {''tcp'', ''udp'', ''ip''}
      then base @ (if Is4 (the (SourceIP b)) then ''4'' else ''6'') else base)"
  by (auto simp: Network_def split: option.splits)

end
