(* ===== verification/Wire.thy ===== *)
theory Wire
  imports Netbind
begin

text \<open>
  The data the node exchanges with \<^verbatim>\<open>radar-api\<close> (\<^verbatim>\<open>internal/wire/wire.go\<close>) and with its own
  checkers (\<^verbatim>\<open>internal/probe/probe.go\<close>): probe snapshots, trigger events, options, results and
  their constructors, acknowledgements and heartbeat messages. Field names carry a prefix of
  their struct, since the field selectors of records share one name space.
\<close>

section \<open>Probe definitions and events\<close>

record ProbeSnapshot =
  ps_ID :: string
  ps_Target :: string
  ps_Prober :: string
  ps_ProbeCount :: int
  ps_TimeoutMs :: int
  ps_ScheduleType :: string
  ps_IntervalSeconds :: int
  ps_StartsAt :: int
  ps_EndsAt :: int
  ps_Params :: gomap
  ps_Status :: string

record Event =
  ev_Seq :: int
  ev_EventType :: string
  ev_Probe :: ProbeSnapshot
  ev_RunID :: string

definition ProbeStatusActive :: string where "ProbeStatusActive = ''active''"
definition NodeStatusActive :: string where "NodeStatusActive = ''active''"

section \<open>Options and results of one check\<close>

record Options =
  o_Target :: string
  o_Timeout :: duration
  o_ProbeID :: string
  o_Destination :: string
  o_Seq :: int
  o_Params :: gomap
  o_Bind :: Binding

definition Param :: "Options \<Rightarrow> string \<Rightarrow> string \<Rightarrow> string" where
  "Param opts key dflt =
     (case map_of (o_Params opts) key of
        Some (GStr s) \<Rightarrow> if s \<noteq> [] then s else dflt
      | _ \<Rightarrow> dflt)"

text \<open>\<open>r_Extra\<close> is \<open>None\<close> for a nil map.\<close>

record Result =
  r_Skip :: bool
  r_Ok :: bool
  r_Type :: string
  r_Target :: string
  r_Seq :: int
  r_LatencyMs :: "gofloat option"
  r_Error :: string
  r_ErrorCode :: string
  r_Extra :: "gomap option"

definition ErrorCodeInvalidParams :: string where
  "ErrorCodeInvalidParams = ''invalid_params''"

definition latency :: "duration \<Rightarrow> gofloat" where
  "latency d = Fin (of_int d / of_int millisecond)"

definition result_Ok :: "string \<Rightarrow> string \<Rightarrow> int \<Rightarrow> duration \<Rightarrow> gomap option \<Rightarrow> Result" where
  "result_Ok checkType target seq elapsed extra =
     \<lparr>r_Skip = False, r_Ok = True, r_Type = checkType, r_Target = target, r_Seq = seq,
      r_LatencyMs = Some (latency elapsed), r_Error = [], r_ErrorCode = [], r_Extra = extra\<rparr>"

definition result_Fail :: "string \<Rightarrow> string \<Rightarrow> int \<Rightarrow> string \<Rightarrow> Result" where
  "result_Fail checkType target seq err =
     \<lparr>r_Skip = False, r_Ok = False, r_Type = checkType, r_Target = target, r_Seq = seq,
      r_LatencyMs = None, r_Error = err, r_ErrorCode = [], r_Extra = None\<rparr>"

definition result_Invalid :: "string \<Rightarrow> string \<Rightarrow> int \<Rightarrow> string \<Rightarrow> Result" where
  "result_Invalid checkType target seq msg =
     \<lparr>r_Skip = False, r_Ok = False, r_Type = checkType, r_Target = target, r_Seq = seq,
      r_LatencyMs = None, r_Error = msg, r_ErrorCode = ErrorCodeInvalidParams, r_Extra = None\<rparr>"

text \<open>The zero value of \<^verbatim>\<open>probe.Result\<close>, what \<^verbatim>\<open>make([]probe.Result, n)\<close> holds.\<close>

definition result_zero :: Result where
  "result_zero =
     \<lparr>r_Skip = False, r_Ok = False, r_Type = [], r_Target = [], r_Seq = 0,
      r_LatencyMs = None, r_Error = [], r_ErrorCode = [], r_Extra = None\<rparr>"

section \<open>Results on the wire\<close>

record WireResult =
  wr_RunID :: string
  wr_ProbeID :: string
  wr_Result :: Result
  wr_ObservedAt :: string

record ResultAck =
  ack_RunID :: string
  ack_Seq :: int
  ack_Accepted :: bool
  ack_Reason :: string

record ResultsResponse =
  rr_SpecVersion :: int
  rr_Accepted :: int
  rr_Rejected :: int
  rr_Results :: "ResultAck list"
  rr_NodeStatus :: string

record ResultsRequest =
  rq_SpecVersion :: int
  rq_NodeID :: string
  rq_BatchID :: string
  rq_SentAt :: string
  rq_Results :: "WireResult list"

section \<open>Heartbeats\<close>

text \<open>A module's own version and address, \<open>None\<close> where it states none.\<close>

record ModuleVersion =
  mv_Version :: "string option"
  mv_URL :: "string option"

record PendingAction =
  pa_ID :: string
  pa_Kind :: string
  pa_Actions :: "string list"

record HeartbeatResponse =
  hb_NodeStatus :: string
  hb_HeartbeatIntervalSecs :: int
  hb_ServerTime :: string
  hb_ProbeHash :: string
  hb_Probes :: "ProbeSnapshot list"
  hb_Events :: "Event list"
  hb_Command :: string
  hb_PendingAction :: "PendingAction option"

record NodeHealth =
  nh_RSSBytes :: int
  nh_MemUsedPct :: rat
  nh_Load1 :: rat
  nh_CPUCount :: int
  nh_CPUStealPct :: rat
  nh_Goroutines :: int
  nh_HeartbeatRTTMs :: rat
  nh_ConsecutiveFailures :: int
  nh_DeferredJobs :: int
  nh_UptimeSeconds :: rat
  nh_Pressure :: string
  nh_Path :: string
  nh_SourceIP :: string
  nh_BindInterface :: string
  nh_BindError :: string

lemmas result_defs = result_Ok_def result_Fail_def result_Invalid_def result_zero_def

lemma result_Fail_simps [simp]:
  "r_Skip (result_Fail t g s e) = False" "r_Ok (result_Fail t g s e) = False"
  "r_Seq (result_Fail t g s e) = s" "r_Target (result_Fail t g s e) = g"
  "r_Error (result_Fail t g s e) = e" "r_ErrorCode (result_Fail t g s e) = []"
  "r_Type (result_Fail t g s e) = t"
  by (simp_all add: result_Fail_def)

lemma result_Invalid_simps [simp]:
  "r_Skip (result_Invalid t g s e) = False" "r_Ok (result_Invalid t g s e) = False"
  "r_Seq (result_Invalid t g s e) = s" "r_Target (result_Invalid t g s e) = g"
  "r_Error (result_Invalid t g s e) = e" "r_ErrorCode (result_Invalid t g s e) = ''invalid_params''"
  "r_Type (result_Invalid t g s e) = t"
  by (simp_all add: result_Invalid_def ErrorCodeInvalidParams_def)

end
