(* ===== verification/Store.thy ===== *)
theory Store
  imports Wire
begin

text \<open>
  The node's local durable state (\<^verbatim>\<open>internal/store\<close>): the SQLite schema as a record of tables,
  and every operation of the package as a transaction on it. A transaction either commits or
  leaves the database as it was, so an operation returns an error or a value with the next
  database. The errors are the ones the statements themselves can raise (a constraint of the
  schema, a value that cannot be encoded); a failing disk behaves like any of them: nothing is
  committed. The current time is an argument.

  A BLOB column holds JSON. It is represented by the value the bytes decode to, so encoding is
  \<open>json_map\<close>: it fails on the floats JSON cannot express and turns every number into a
  \<^verbatim>\<open>float64\<close>, which is what \<^verbatim>\<open>json.Unmarshal\<close> gives back for an \<^verbatim>\<open>any\<close>.
\<close>

section \<open>JSON blobs\<close>

fun json_ok :: "goval \<Rightarrow> bool" where
  "json_ok (GFloat (Fin r)) = True"
| "json_ok (GFloat _) = False"
| "json_ok (GArr xs) = list_all json_ok xs"
| "json_ok (GObj m) = list_all (\<lambda>p. json_ok (snd p)) m"
| "json_ok _ = True"

fun json_norm :: "goval \<Rightarrow> goval" where
  "json_norm (GInt i) = GFloat (Fin (of_int i))"
| "json_norm (GArr xs) = GArr (map json_norm xs)"
| "json_norm (GObj m) = GObj (map (\<lambda>p. (fst p, json_norm (snd p))) m)"
| "json_norm v = v"

definition json_map :: "gomap \<Rightarrow> gomap option" where
  "json_map m = (if list_all (\<lambda>p. json_ok (snd p)) m
                 then Some (map (\<lambda>p. (fst p, json_norm (snd p))) m) else None)"

definition json_snapshot :: "ProbeSnapshot \<Rightarrow> ProbeSnapshot option" where
  "json_snapshot p = map_option (\<lambda>m. p\<lparr>ps_Params := m\<rparr>) (json_map (ps_Params p))"

definition json_snapshots :: "ProbeSnapshot list \<Rightarrow> ProbeSnapshot list option" where
  "json_snapshots ps = those (map json_snapshot ps)"

definition json_event :: "Event \<Rightarrow> Event option" where
  "json_event e = map_option (\<lambda>p. e\<lparr>ev_Probe := p\<rparr>) (json_snapshot (ev_Probe e))"

lemma json_norm_idem [simp]: "json_norm (json_norm v) = json_norm v"
  by (induction v rule: json_norm.induct) auto

lemma json_ok_norm [simp]: "json_ok (json_norm v) = json_ok v"
  by (induction v rule: json_norm.induct) (auto simp: list_all_iff)

lemma json_map_idem: "json_map m = Some n \<Longrightarrow> json_map n = Some n"
  by (force simp: json_map_def list_all_iff comp_def split: if_splits)

lemma json_map_Nil [simp]: "json_map [] = Some []"
  by (simp add: json_map_def)

lemma json_snapshot_idem: "json_snapshot p = Some q \<Longrightarrow> json_snapshot q = Some q"
  by (auto simp: json_snapshot_def dest: json_map_idem)

lemma json_snapshot_ID: "json_snapshot p = Some q \<Longrightarrow> ps_ID q = ps_ID p"
  by (auto simp: json_snapshot_def)

lemma json_event_fields:
  "json_event e = Some f \<Longrightarrow> json_snapshot (ev_Probe e) = Some (ev_Probe f) \<and> ev_RunID f = ev_RunID e"
  by (auto simp: json_event_def)

section \<open>Schema\<close>

datatype journalKind = KResult | KTrigger | KTriggerDone | KAssignment

datatype payload =
    PAssignment string "ProbeSnapshot list"
  | PTrigger Event
  | PDone string string

record journalRow =
  j_seq :: int
  j_kind :: journalKind
  j_origin :: string
  j_origin_seq :: int
  j_at_ms :: int
  j_run_id :: "string option"
  j_probe_id :: "string option"
  j_prober :: "string option"
  j_target :: "string option"
  j_check_seq :: "int option"
  j_ok :: "int option"
  j_latency_us :: "int option"
  j_error_code :: "string option"
  j_error :: "string option"
  j_extra :: "gomap option"
  j_payload :: "payload option"
  j_delivery_state :: int
  j_delivery_reason :: "string option"
  j_delivered_at_ms :: "int option"
  j_attempts :: int

text \<open>The columns of \<^verbatim>\<open>probes\<close> are the fields of the snapshot and the two of the schedule state.\<close>

record probeRow =
  p_snapshot :: ProbeSnapshot
  p_last_run_at_ms :: "int option"
  p_last_trigger_run_id :: "string option"

text \<open>\<open>q_snapshot_json\<close> is \<^const>\<open>None\<close> for bytes that do not decode.\<close>

record pendingRow =
  q_probe_id :: string
  q_run_id :: string
  q_event_seq :: int
  q_created_at_ms :: int
  q_snapshot_json :: "ProbeSnapshot option"

record completedRow =
  c_probe_id :: string
  c_run_id :: string
  c_completed_at_ms :: int

record rollupAgg =
  ra_checks :: int
  ra_ok :: int
  ra_errors :: int
  ra_latencySum :: int
  ra_latencyCount :: int
  ra_latencyMin :: "int option"
  ra_latencyMax :: "int option"

text \<open>Origin, probe and bucket: the primary key of \<^verbatim>\<open>rollups\<close>.\<close>

type_synonym rollupKey = "string \<times> string \<times> int"

text \<open>\<open>db_autoinc\<close> is SQLite's record of the largest rowid the journal ever had. The lists
  are in rowid order.\<close>

record db =
  db_user_version :: int
  db_meta :: "(string \<times> string) list"
  db_sequences :: "(string \<times> int) list"
  db_autoinc :: int
  db_journal :: "journalRow list"
  db_probes :: "probeRow list"
  db_pending :: "pendingRow list"
  db_completed :: "completedRow list"
  db_rollups :: "(rollupKey \<times> rollupAgg) list"

datatype storeError =
    EncodeError
  | SequenceCount
  | ConstraintError
  | DecodeError
  | CursorMoved
  | CursorKeptMoving
  | ParseError
  | PathRequired
  | UnknownSync string
  | OriginRequired
  | OriginMismatch string string
  | SchemaTooNew int
  | OutOfFuel
  | Cancelled

type_synonym 'a tx = "storeError + 'a \<times> db"

definition schemaVersion :: int where "schemaVersion = 2"

definition fresh_db :: db where
  "fresh_db = \<lparr>db_user_version = 0, db_meta = [], db_sequences = [], db_autoinc = 0,
     db_journal = [], db_probes = [], db_pending = [], db_completed = [], db_rollups = []\<rparr>"

definition blank_row :: "journalKind \<Rightarrow> string \<Rightarrow> int \<Rightarrow> int \<Rightarrow> journalRow" where
  "blank_row kind origin oseq atMS =
     \<lparr>j_seq = 0, j_kind = kind, j_origin = origin, j_origin_seq = oseq, j_at_ms = atMS,
      j_run_id = None, j_probe_id = None, j_prober = None, j_target = None, j_check_seq = None,
      j_ok = None, j_latency_us = None, j_error_code = None, j_error = None, j_extra = None,
      j_payload = None, j_delivery_state = 0, j_delivery_reason = None, j_delivered_at_ms = None,
      j_attempts = 0\<rparr>"

text \<open>The two uniqueness constraints of the journal. SQL \<^verbatim>\<open>NULL\<close>s are distinct from each other, but
  the key columns of a result are never \<^verbatim>\<open>NULL\<close>.\<close>

definition result_key :: "journalRow \<Rightarrow> string \<times> string option \<times> string option \<times> int option" where
  "result_key r = (j_origin r, j_run_id r, j_probe_id r, j_check_seq r)"

definition journal_conflict :: "journalRow \<Rightarrow> journalRow list \<Rightarrow> bool" where
  "journal_conflict r rows \<longleftrightarrow>
     list_ex (\<lambda>x. j_origin x = j_origin r \<and> j_origin_seq x = j_origin_seq r) rows \<or>
     j_kind r = KResult \<and> list_ex (\<lambda>x. j_kind x = KResult \<and> result_key x = result_key r) rows"

text \<open>\<^verbatim>\<open>INSERT INTO journal\<close>: the rowid is taken before the constraints are checked, so an ignored
  row leaves a gap.\<close>

definition insert_or_ignore :: "journalRow \<Rightarrow> db \<Rightarrow> int \<times> db" where
  "insert_or_ignore r d =
     (let d' = d\<lparr>db_autoinc := db_autoinc d + 1\<rparr> in
      if journal_conflict r (db_journal d) then (0, d')
      else (1, d'\<lparr>db_journal := db_journal d @ [r\<lparr>j_seq := db_autoinc d + 1\<rparr>]\<rparr>))"

definition insert_journal :: "journalRow \<Rightarrow> db \<Rightarrow> int tx" where
  "insert_journal r d =
     (case insert_or_ignore r d of (affected, d') \<Rightarrow>
        if affected = 0 then Inl ConstraintError else Inr (db_autoinc d', d'))"

definition bind_tx :: "'a tx \<Rightarrow> ('a \<Rightarrow> db \<Rightarrow> 'b tx) \<Rightarrow> 'b tx" where
  "bind_tx m f = (case m of Inl e \<Rightarrow> Inl e | Inr (a, d) \<Rightarrow> f a d)"

definition meta_set :: "string \<Rightarrow> string \<Rightarrow> db \<Rightarrow> db" where
  "meta_set k v d = d\<lparr>db_meta := AList.update k v (db_meta d)\<rparr>"

lemma bind_tx_simps [simp]: "bind_tx (Inl e) f = Inl e" "bind_tx (Inr (a, d)) f = f a d"
  by (simp_all add: bind_tx_def)

lemma bind_tx_Inr: "bind_tx m f = Inr y \<longleftrightarrow> (\<exists>a d. m = Inr (a, d) \<and> f a d = Inr y)"
  by (auto simp: bind_tx_def split: sum.splits)

section \<open>Opening\<close>

definition migrate_pending :: "journalRow list \<Rightarrow> pendingRow \<Rightarrow> pendingRow" where
  "migrate_pending rows p =
     (case filter (\<lambda>j. j_kind j = KTrigger \<and> j_probe_id j = Some (q_probe_id p)
                       \<and> j_run_id j = Some (q_run_id p)) rows of
        [] \<Rightarrow> p
      | js \<Rightarrow> p\<lparr>q_event_seq := j_seq (last js)\<rparr>)"

definition migrateV1ToV2 :: "db \<Rightarrow> db" where
  "migrateV1ToV2 d = d\<lparr>db_pending := map (migrate_pending (db_journal d)) (db_pending d),
     db_user_version := schemaVersion\<rparr>"

definition initSchema :: "db \<Rightarrow> unit tx" where
  "initSchema d =
     (if db_user_version d = schemaVersion then Inr ((), d)
      else if db_user_version d = 1 then Inr ((), migrateV1ToV2 d)
      else if db_user_version d = 0 then Inr ((), d\<lparr>db_user_version := schemaVersion\<rparr>)
      else Inl (SchemaTooNew (db_user_version d)))"

text \<open>The value of \<open>initMeta\<close> is the origin the store handle keeps.\<close>

definition initMeta :: "int \<Rightarrow> string \<Rightarrow> db \<Rightarrow> string tx" where
  "initMeta nowMS requestedOrigin d =
     (case map_of (db_meta d) ''origin'' of
        None \<Rightarrow>
          if requestedOrigin = [] then Inl OriginRequired
          else if map_of (db_meta d) ''created_at_ms'' \<noteq> None then Inl ConstraintError
          else Inr (requestedOrigin,
                 meta_set ''created_at_ms'' (Itoa nowMS) (meta_set ''origin'' requestedOrigin d))
      | Some origin \<Rightarrow>
          if requestedOrigin \<noteq> [] \<and> origin \<noteq> requestedOrigin
          then Inl (OriginMismatch origin requestedOrigin)
          else Inr (origin, d))"

text \<open>\<^verbatim>\<open>Open\<close> on a file with the given contents; an empty or missing file is \<^const>\<open>fresh_db\<close>.\<close>

definition Open :: "int \<Rightarrow> string \<Rightarrow> string \<Rightarrow> string \<Rightarrow> db \<Rightarrow> string tx" where
  "Open nowMS path syncOpt origin d =
     (if TrimSpace path = [] then Inl PathRequired
      else if TrimSpace origin = [] \<and> d = fresh_db then Inl OriginRequired
      else (let syncMode = ToLower (TrimSpace syncOpt);
                syncMode = (if syncMode = [] then ''normal'' else syncMode)
            in if syncMode \<noteq> ''normal'' \<and> syncMode \<noteq> ''full'' then Inl (UnknownSync syncOpt)
               else bind_tx (initSchema d) (\<lambda>_ d. initMeta nowMS origin d)))"

section \<open>Sequences\<close>

definition nextOriginSeq :: "string \<Rightarrow> int \<Rightarrow> db \<Rightarrow> int tx" where
  "nextOriginSeq origin count d =
     (if count < 1 then Inl SequenceCount
      else case map_of (db_sequences d) origin of
        None \<Rightarrow> Inr (1, d\<lparr>db_sequences := AList.update origin (count + 1) (db_sequences d)\<rparr>)
      | Some nxt \<Rightarrow> Inr (nxt, d\<lparr>db_sequences := AList.update origin (nxt + count) (db_sequences d)\<rparr>))"

section \<open>Results\<close>

record RecordSummary =
  su_Inserted :: int
  su_Duplicates :: int
  su_Skipped :: int
  su_InvalidLatency :: int
  su_InvalidExtra :: int

definition zeroSummary :: RecordSummary where
  "zeroSummary = \<lparr>su_Inserted = 0, su_Duplicates = 0, su_Skipped = 0, su_InvalidLatency = 0,
     su_InvalidExtra = 0\<rparr>"

text \<open>\<open>parse\<close> stands for \<^verbatim>\<open>time.Parse(time.RFC3339Nano, raw)\<close>; \<open>format\<close>, below, for the
  formatting with the same layout.\<close>

definition observedAtMS :: "(string \<Rightarrow> gotime option) \<Rightarrow> string \<Rightarrow> int \<Rightarrow> int" where
  "observedAtMS parse raw fallbackMS =
     (case parse raw of
        None \<Rightarrow> fallbackMS
      | Some parsed \<Rightarrow> if IsZero parsed then fallbackMS else to_UnixMilli parsed)"

text \<open>\<^verbatim>\<open>math.Round\<close> on a non-negative value rounds half up.\<close>

definition round_half_up :: "rat \<Rightarrow> int" where
  "round_half_up x = \<lfloor>x + 1 / 2\<rfloor>"

definition latencyMicros :: "gofloat option \<Rightarrow> int option \<times> bool" where
  "latencyMicros ms =
     (case ms of
        None \<Rightarrow> (None, True)
      | Some (Fin r) \<Rightarrow>
          if r < 0 then (None, False)
          else (let v = round_half_up (r * 1000) in
                if v \<ge> 2 ^ 63 then (None, False) else (Some v, True))
      | Some _ \<Rightarrow> (None, False))"

definition extraJSON :: "gomap option \<Rightarrow> gomap option \<times> bool" where
  "extraJSON extra =
     (case extra of
        None \<Rightarrow> (None, True)
      | Some [] \<Rightarrow> (None, True)
      | Some m \<Rightarrow> (case json_map m of None \<Rightarrow> (None, False) | Some n \<Rightarrow> (Some n, True)))"

definition nullableString :: "string \<Rightarrow> string option" where
  "nullableString v = (if v = [] then None else Some v)"

definition clamp_seq :: "int \<Rightarrow> int" where
  "clamp_seq s = (if s < 1 then 1 else s)"

definition result_row :: "(string \<Rightarrow> gotime option) \<Rightarrow> string \<Rightarrow> int \<Rightarrow> int \<Rightarrow> WireResult \<Rightarrow> journalRow" where
  "result_row parse origin nowMS oseq w =
     (blank_row KResult origin oseq (observedAtMS parse (wr_ObservedAt w) nowMS))
       \<lparr>j_run_id := Some (wr_RunID w), j_probe_id := Some (wr_ProbeID w),
        j_prober := Some (r_Type (wr_Result w)), j_target := Some (r_Target (wr_Result w)),
        j_check_seq := Some (clamp_seq (r_Seq (wr_Result w))),
        j_ok := Some (if r_Ok (wr_Result w) then 1 else 0),
        j_latency_us := fst (latencyMicros (r_LatencyMs (wr_Result w))),
        j_error_code := nullableString (r_ErrorCode (wr_Result w)),
        j_error := nullableString (r_Error (wr_Result w)),
        j_extra := fst (extraJSON (r_Extra (wr_Result w)))\<rparr>"

definition record_one ::
  "(string \<Rightarrow> gotime option) \<Rightarrow> string \<Rightarrow> int \<Rightarrow> int \<Rightarrow> WireResult \<Rightarrow> RecordSummary \<times> db \<Rightarrow> RecordSummary \<times> db" where
  "record_one parse origin nowMS oseq w st =
     (case st of (su, d) \<Rightarrow>
        if wr_RunID w = [] \<or> wr_ProbeID w = [] then (su\<lparr>su_Skipped := su_Skipped su + 1\<rparr>, d)
        else (let su = (if snd (latencyMicros (r_LatencyMs (wr_Result w))) then su
                        else su\<lparr>su_InvalidLatency := su_InvalidLatency su + 1\<rparr>);
                  su = (if snd (extraJSON (r_Extra (wr_Result w))) then su
                        else su\<lparr>su_InvalidExtra := su_InvalidExtra su + 1\<rparr>)
              in case insert_or_ignore (result_row parse origin nowMS oseq w) d of
                (affected, d') \<Rightarrow>
                  if affected = 0 then (su\<lparr>su_Duplicates := su_Duplicates su + 1\<rparr>, d')
                  else (su\<lparr>su_Inserted := su_Inserted su + 1\<rparr>, d')))"

fun record_rows ::
  "(string \<Rightarrow> gotime option) \<Rightarrow> string \<Rightarrow> int \<Rightarrow> int \<Rightarrow> WireResult list \<Rightarrow> RecordSummary \<times> db \<Rightarrow> RecordSummary \<times> db" where
  "record_rows parse origin nowMS oseq [] st = st"
| "record_rows parse origin nowMS oseq (w # ws) st =
     record_rows parse origin nowMS (oseq + 1) ws (record_one parse origin nowMS oseq w st)"

definition RecordResults ::
  "(string \<Rightarrow> gotime option) \<Rightarrow> string \<Rightarrow> int \<Rightarrow> WireResult list \<Rightarrow> db \<Rightarrow> RecordSummary tx" where
  "RecordResults parse origin nowMS results d =
     (if results = [] then Inr (zeroSummary, d)
      else bind_tx (nextOriginSeq origin (int (length results)) d) (\<lambda>start d.
        Inr (record_rows parse origin nowMS start results (zeroSummary, d))))"

definition opt_string :: "string option \<Rightarrow> string" where
  "opt_string x = (case x of None \<Rightarrow> [] | Some s \<Rightarrow> s)"

definition opt_int :: "int option \<Rightarrow> int" where
  "opt_int x = (case x of None \<Rightarrow> 0 | Some s \<Rightarrow> s)"

definition resultFromRow :: "(gotime \<Rightarrow> string) \<Rightarrow> journalRow \<Rightarrow> WireResult" where
  "resultFromRow format r =
     \<lparr>wr_RunID = opt_string (j_run_id r), wr_ProbeID = opt_string (j_probe_id r),
      wr_Result = \<lparr>r_Skip = False, r_Ok = (opt_int (j_ok r) \<noteq> 0), r_Type = opt_string (j_prober r),
        r_Target = opt_string (j_target r), r_Seq = opt_int (j_check_seq r),
        r_LatencyMs = map_option (\<lambda>us. Fin (of_int us / 1000)) (j_latency_us r),
        r_Error = opt_string (j_error r), r_ErrorCode = opt_string (j_error_code r),
        r_Extra = j_extra r\<rparr>,
      wr_ObservedAt = format (UnixMilli (j_at_ms r))\<rparr>"

record PendingResult =
  pr_Seq :: int
  pr_Result :: WireResult

definition is_pending :: "string \<Rightarrow> journalRow \<Rightarrow> bool" where
  "is_pending origin r \<longleftrightarrow> j_kind r = KResult \<and> j_origin r = origin \<and> j_delivery_state r = 0"

definition PendingResults :: "(gotime \<Rightarrow> string) \<Rightarrow> string \<Rightarrow> int \<Rightarrow> db \<Rightarrow> PendingResult list" where
  "PendingResults format origin limit d =
     (let limit = (if limit \<le> 0 \<or> limit > 2000 then 500 else limit)
      in map (\<lambda>r. \<lparr>pr_Seq = j_seq r, pr_Result = resultFromRow format r\<rparr>)
           (take (nat limit) (filter (is_pending origin) (db_journal d))))"

record Outcome =
  oc_Seq :: int
  oc_Accepted :: bool
  oc_Reason :: string

definition settle :: "int \<Rightarrow> Outcome \<Rightarrow> journalRow \<Rightarrow> journalRow" where
  "settle nowMS oc r =
     (if j_seq r = oc_Seq oc \<and> j_kind r = KResult \<and> j_delivery_state r = 0
      then if oc_Accepted oc
           then r\<lparr>j_delivery_state := 1, j_delivered_at_ms := Some nowMS, j_delivery_reason := None\<rparr>
           else r\<lparr>j_delivery_state := 2, j_delivered_at_ms := Some nowMS,
                  j_delivery_reason := Some (oc_Reason oc)\<rparr>
      else r)"

definition MarkOutcomes :: "int \<Rightarrow> Outcome list \<Rightarrow> db \<Rightarrow> db" where
  "MarkOutcomes nowMS outcomes d =
     fold (\<lambda>oc d. if oc_Seq oc = 0 then d else d\<lparr>db_journal := map (settle nowMS oc) (db_journal d)\<rparr>)
       outcomes d"

definition attempt_row :: "int list \<Rightarrow> journalRow \<Rightarrow> journalRow" where
  "attempt_row seqs r =
     (if j_kind r = KResult \<and> j_delivery_state r = 0 \<and> j_seq r \<in> set seqs
      then r\<lparr>j_attempts := j_attempts r + 1\<rparr> else r)"

text \<open>The statements of \<^verbatim>\<open>MarkAttempts\<close> and \<^verbatim>\<open>MarkProbesRun\<close> take 500 values at a time.\<close>

fun chunks :: "nat \<Rightarrow> 'a list \<Rightarrow> 'a list list" where
  "chunks n [] = []"
| "chunks n (x # xs) = (if n = 0 then [x # xs] else take n (x # xs) # chunks n (drop n (x # xs)))"

definition MarkAttempts :: "int list \<Rightarrow> db \<Rightarrow> db" where
  "MarkAttempts seqs d =
     fold (\<lambda>chunk d. d\<lparr>db_journal := map (attempt_row chunk) (db_journal d)\<rparr>) (chunks 500 seqs) d"

section \<open>Triggers\<close>

definition triggerAlreadySeenTx :: "string \<Rightarrow> string \<Rightarrow> db \<Rightarrow> bool" where
  "triggerAlreadySeenTx probeID runID d \<longleftrightarrow>
     list_ex (\<lambda>c. c_probe_id c = probeID \<and> c_run_id c = runID) (db_completed d) \<or>
     list_ex (\<lambda>q. q_probe_id q = probeID \<and> q_run_id q = runID) (db_pending d) \<or>
     list_ex (\<lambda>p. ps_ID (p_snapshot p) = probeID \<and> p_last_trigger_run_id p = Some runID) (db_probes d)"

definition queueTriggerTx :: "Event \<Rightarrow> int \<Rightarrow> int \<Rightarrow> db \<Rightarrow> unit tx" where
  "queueTriggerTx event eventSeq atMS d =
     (case json_snapshot (ev_Probe event) of
        None \<Rightarrow> Inl EncodeError
      | Some snapshot \<Rightarrow>
          if list_ex (\<lambda>q. q_probe_id q = ps_ID (ev_Probe event) \<and> q_run_id q = ev_RunID event) (db_pending d)
          then Inr ((), d)
          else Inr ((), d\<lparr>db_pending := db_pending d @
                 [\<lparr>q_probe_id = ps_ID (ev_Probe event), q_run_id = ev_RunID event,
                   q_event_seq = eventSeq, q_created_at_ms = atMS,
                   q_snapshot_json = Some snapshot\<rparr>]\<rparr>))"

definition trigger_row :: "string \<Rightarrow> int \<Rightarrow> int \<Rightarrow> Event \<Rightarrow> journalRow" where
  "trigger_row origin oseq atMS payload =
     (blank_row KTrigger origin oseq atMS)
       \<lparr>j_run_id := Some (ev_RunID payload), j_probe_id := Some (ps_ID (ev_Probe payload)),
        j_payload := Some (PTrigger payload)\<rparr>"

definition RecordTrigger :: "string \<Rightarrow> int \<Rightarrow> Event \<Rightarrow> db \<Rightarrow> bool tx" where
  "RecordTrigger origin atMS event d =
     (if ev_EventType event \<noteq> ''triggered'' \<or> ev_RunID event = [] \<or> ps_ID (ev_Probe event) = []
      then Inr (False, d)
      else case json_event event of
        None \<Rightarrow> Inl EncodeError
      | Some payload \<Rightarrow>
          if triggerAlreadySeenTx (ps_ID (ev_Probe event)) (ev_RunID event) d then Inr (False, d)
          else bind_tx (nextOriginSeq origin 1 d) (\<lambda>originSeq d.
               bind_tx (insert_journal (trigger_row origin originSeq atMS payload) d) (\<lambda>eventSeq d.
               bind_tx (queueTriggerTx event eventSeq atMS d) (\<lambda>_ d. Inr (True, d)))))"

record PendingTrigger =
  tr_ProbeID :: string
  tr_RunID :: string
  tr_EventSeq :: int
  tr_Probe :: "ProbeSnapshot option"

definition drop_pending :: "string \<Rightarrow> string \<Rightarrow> db \<Rightarrow> db" where
  "drop_pending probeID runID d =
     d\<lparr>db_pending := filter (\<lambda>q. \<not> (q_probe_id q = probeID \<and> q_run_id q = runID)) (db_pending d)\<rparr>"

text \<open>The value holds the decoded triggers in the order of their events; rows that do not decode
  are dropped from the queue.\<close>

definition PendingTriggers :: "db \<Rightarrow> PendingTrigger list \<times> db" where
  "PendingTriggers d =
     (let rows = sort_key q_event_seq (db_pending d);
          corrupt = filter (\<lambda>q. q_snapshot_json q = None) rows
      in (map (\<lambda>q. \<lparr>tr_ProbeID = q_probe_id q, tr_RunID = q_run_id q, tr_EventSeq = q_event_seq q,
                    tr_Probe = q_snapshot_json q\<rparr>)
            (filter (\<lambda>q. q_snapshot_json q \<noteq> None) rows),
          fold (\<lambda>q. drop_pending (q_probe_id q) (q_run_id q)) corrupt d))"

definition upsert_completed :: "string \<Rightarrow> string \<Rightarrow> int \<Rightarrow> completedRow list \<Rightarrow> completedRow list" where
  "upsert_completed probeID runID atMS rows =
     (if list_ex (\<lambda>c. c_probe_id c = probeID \<and> c_run_id c = runID) rows
      then map (\<lambda>c. if c_probe_id c = probeID \<and> c_run_id c = runID
                    then c\<lparr>c_completed_at_ms := atMS\<rparr> else c) rows
      else rows @ [\<lparr>c_probe_id = probeID, c_run_id = runID, c_completed_at_ms = atMS\<rparr>])"

definition completeTriggerTx :: "string \<Rightarrow> string \<Rightarrow> int \<Rightarrow> db \<Rightarrow> db" where
  "completeTriggerTx probeID runID atMS d =
     (let d = drop_pending probeID runID d in
      d\<lparr>db_completed := upsert_completed probeID runID atMS (db_completed d),
        db_probes := map (\<lambda>p. if ps_ID (p_snapshot p) = probeID
                              then p\<lparr>p_last_trigger_run_id := Some runID\<rparr> else p) (db_probes d)\<rparr>)"

definition done_row :: "string \<Rightarrow> int \<Rightarrow> int \<Rightarrow> string \<Rightarrow> string \<Rightarrow> journalRow" where
  "done_row origin oseq nowMS probeID runID =
     (blank_row KTriggerDone origin oseq nowMS)
       \<lparr>j_run_id := Some runID, j_probe_id := Some probeID, j_payload := Some (PDone probeID runID)\<rparr>"

definition complete_one :: "string \<Rightarrow> int \<Rightarrow> string \<times> string \<Rightarrow> db \<Rightarrow> unit tx" where
  "complete_one origin nowMS key d =
     (case key of (probeID, runID) \<Rightarrow>
        bind_tx (nextOriginSeq origin 1 (drop_pending probeID runID d)) (\<lambda>seq d.
        bind_tx (insert_journal (done_row origin seq nowMS probeID runID) d) (\<lambda>_ d.
        Inr ((), completeTriggerTx probeID runID nowMS d))))"

fun CompleteTriggers :: "string \<Rightarrow> int \<Rightarrow> (string \<times> string) list \<Rightarrow> db \<Rightarrow> unit tx" where
  "CompleteTriggers origin nowMS [] d = Inr ((), d)"
| "CompleteTriggers origin nowMS (t # ts) d =
     bind_tx (complete_one origin nowMS t d) (\<lambda>_ d. CompleteTriggers origin nowMS ts d)"

section \<open>Assignments\<close>

definition schedule_of :: "bool \<Rightarrow> probeRow list \<Rightarrow> string \<Rightarrow> int option \<times> string option" where
  "schedule_of preserve rows pid =
     (case (if preserve then find (\<lambda>p. ps_ID (p_snapshot p) = pid) rows else None) of
        None \<Rightarrow> (None, None)
      | Some p \<Rightarrow> (p_last_run_at_ms p, p_last_trigger_run_id p))"

definition insert_probe :: "ProbeSnapshot \<Rightarrow> int option \<times> string option \<Rightarrow> db \<Rightarrow> unit tx" where
  "insert_probe snapshot state d =
     (case json_snapshot snapshot of
        None \<Rightarrow> Inl EncodeError
      | Some stored \<Rightarrow>
          if list_ex (\<lambda>p. ps_ID (p_snapshot p) = ps_ID snapshot) (db_probes d) then Inl ConstraintError
          else Inr ((), d\<lparr>db_probes := db_probes d @
                 [\<lparr>p_snapshot = stored, p_last_run_at_ms = fst state,
                   p_last_trigger_run_id = snd state\<rparr>]\<rparr>))"

fun insert_probes :: "bool \<Rightarrow> probeRow list \<Rightarrow> ProbeSnapshot list \<Rightarrow> db \<Rightarrow> unit tx" where
  "insert_probes preserve old [] d = Inr ((), d)"
| "insert_probes preserve old (s # ss) d =
     bind_tx (insert_probe s (schedule_of preserve old (ps_ID s)) d)
       (\<lambda>_ d. insert_probes preserve old ss d)"

definition applyAssignmentTx :: "ProbeSnapshot list \<Rightarrow> bool \<Rightarrow> db \<Rightarrow> unit tx" where
  "applyAssignmentTx probes preserve d =
     insert_probes preserve (db_probes d) probes (d\<lparr>db_probes := []\<rparr>)"

definition assignment_row :: "string \<Rightarrow> int \<Rightarrow> int \<Rightarrow> string \<Rightarrow> ProbeSnapshot list \<Rightarrow> journalRow" where
  "assignment_row origin oseq atMS hash probes =
     (blank_row KAssignment origin oseq atMS)\<lparr>j_payload := Some (PAssignment hash probes)\<rparr>"

definition SaveAssignment :: "string \<Rightarrow> int \<Rightarrow> string \<Rightarrow> ProbeSnapshot list \<Rightarrow> db \<Rightarrow> unit tx" where
  "SaveAssignment origin nowMS hash probes d =
     (if hash = [] then Inr ((), d)
      else case json_snapshots probes of
        None \<Rightarrow> Inl EncodeError
      | Some payload \<Rightarrow>
          bind_tx (nextOriginSeq origin 1 d) (\<lambda>seq d.
          bind_tx (insert_journal (assignment_row origin seq nowMS hash payload) d) (\<lambda>_ d.
          bind_tx (applyAssignmentTx probes True d) (\<lambda>_ d.
          Inr ((), meta_set ''probe_hash'' hash d)))))"

record ProbeState =
  st_Snapshot :: ProbeSnapshot
  st_LastRunAt :: gotime
  st_LastTriggerRunID :: string

definition LoadProbeStates :: "db \<Rightarrow> string \<times> ProbeState list" where
  "LoadProbeStates d =
     (opt_string (map_of (db_meta d) ''probe_hash''),
      map (\<lambda>p. \<lparr>st_Snapshot = p_snapshot p,
                st_LastRunAt = (case p_last_run_at_ms p of None \<Rightarrow> time_zero | Some ms \<Rightarrow> UnixMilli ms),
                st_LastTriggerRunID = opt_string (p_last_trigger_run_id p)\<rparr>)
        (sort_key (\<lambda>p. ps_ID (p_snapshot p)) (db_probes d)))"

definition LoadAssignment :: "db \<Rightarrow> string \<times> ProbeSnapshot list" where
  "LoadAssignment d = (case LoadProbeStates d of (hash, states) \<Rightarrow> (hash, map st_Snapshot states))"

definition mark_run_row :: "int \<Rightarrow> string list \<Rightarrow> probeRow \<Rightarrow> probeRow" where
  "mark_run_row atMS ids p =
     (if ps_ID (p_snapshot p) \<in> set ids then p\<lparr>p_last_run_at_ms := Some atMS\<rparr> else p)"

definition MarkProbesRun :: "string list \<Rightarrow> gotime \<Rightarrow> db \<Rightarrow> db" where
  "MarkProbesRun ids t d =
     fold (\<lambda>chunk d. d\<lparr>db_probes := map (mark_run_row (to_UnixMilli t) chunk) (db_probes d)\<rparr>)
       (chunks 500 ids) d"

section \<open>Rebuild and replay\<close>

definition rebuild_event :: "journalRow \<Rightarrow> db \<Rightarrow> unit tx" where
  "rebuild_event r d =
     (case (j_kind r, j_payload r) of
        (KResult, _) \<Rightarrow> Inr ((), d)
      | (KAssignment, Some (PAssignment hash probes)) \<Rightarrow>
          bind_tx (applyAssignmentTx probes False d) (\<lambda>_ d. Inr ((), meta_set ''probe_hash'' hash d))
      | (KTrigger, Some (PTrigger event)) \<Rightarrow> queueTriggerTx event (j_seq r) (j_at_ms r) d
      | (KTriggerDone, Some (PDone probeID runID)) \<Rightarrow>
          Inr ((), completeTriggerTx probeID runID (j_at_ms r) d)
      | _ \<Rightarrow> Inl DecodeError)"

fun rebuild_events :: "journalRow list \<Rightarrow> db \<Rightarrow> unit tx" where
  "rebuild_events [] d = Inr ((), d)"
| "rebuild_events (r # rs) d = bind_tx (rebuild_event r d) (\<lambda>_ d. rebuild_events rs d)"

definition restore_run_time :: "journalRow list \<Rightarrow> probeRow \<Rightarrow> probeRow" where
  "restore_run_time rows p =
     (case map j_at_ms (filter (\<lambda>j. j_kind j = KResult \<and> j_probe_id j = Some (ps_ID (p_snapshot p))) rows) of
        [] \<Rightarrow> p
      | t # ts \<Rightarrow> p\<lparr>p_last_run_at_ms := Some (fold max ts t)\<rparr>)"

definition clear_projections :: "db \<Rightarrow> db" where
  "clear_projections d =
     d\<lparr>db_probes := [], db_pending := [], db_completed := [],
       db_meta := AList.delete ''probe_hash'' (db_meta d)\<rparr>"

definition Rebuild :: "db \<Rightarrow> unit tx" where
  "Rebuild d =
     bind_tx (rebuild_events (db_journal d) (clear_projections d)) (\<lambda>_ d.
       Inr ((), d\<lparr>db_probes := map (restore_run_time (db_journal d)) (db_probes d)\<rparr>))"

text \<open>\<open>Replay\<close> hands the rows after a cursor to a callback that may fail; its value is the last
  cursor processed, whether the callback failed, and the callback's state.\<close>

fun replay_rows :: "(journalRow \<Rightarrow> 's \<Rightarrow> 's option) \<Rightarrow> journalRow list \<Rightarrow> int \<Rightarrow> 's \<Rightarrow> int \<times> bool \<times> 's" where
  "replay_rows fn [] lst s = (lst, True, s)"
| "replay_rows fn (r # rs) lst s =
     (case fn r s of None \<Rightarrow> (lst, False, s) | Some s' \<Rightarrow> replay_rows fn rs (j_seq r) s')"

definition replay_limit :: "int \<Rightarrow> int" where
  "replay_limit limit = (let limit = (if limit \<le> 0 then 1000 else limit)
                         in if limit > 10000 then 10000 else limit)"

definition Replay :: "(journalRow \<Rightarrow> 's \<Rightarrow> 's option) \<Rightarrow> int \<Rightarrow> int \<Rightarrow> db \<Rightarrow> 's \<Rightarrow> int \<times> bool \<times> 's" where
  "Replay fn afterSeq limit d s =
     replay_rows fn (take (nat (replay_limit limit)) (filter (\<lambda>r. j_seq r > afterSeq) (db_journal d)))
       afterSeq s"

record Stats =
  sx_JournalRows :: int
  sx_Results :: int
  sx_PendingResults :: int
  sx_DeliveredResults :: int
  sx_RejectedResults :: int
  sx_Probes :: int
  sx_PendingTriggers :: int
  sx_Rollups :: int
  sx_OldestAtMS :: int
  sx_NewestAtMS :: int

definition count_if :: "('a \<Rightarrow> bool) \<Rightarrow> 'a list \<Rightarrow> int" where
  "count_if P xs = int (length (filter P xs))"

definition Store_Stats :: "db \<Rightarrow> Stats" where
  "Store_Stats d =
     (let js = db_journal d in
      \<lparr>sx_JournalRows = int (length js),
       sx_Results = count_if (\<lambda>r. j_kind r = KResult) js,
       sx_PendingResults = count_if (\<lambda>r. j_kind r = KResult \<and> j_delivery_state r = 0) js,
       sx_DeliveredResults = count_if (\<lambda>r. j_kind r = KResult \<and> j_delivery_state r = 1) js,
       sx_RejectedResults = count_if (\<lambda>r. j_kind r = KResult \<and> j_delivery_state r = 2) js,
       sx_Probes = int (length (db_probes d)),
       sx_PendingTriggers = int (length (db_pending d)),
       sx_Rollups = int (length (db_rollups d)),
       sx_OldestAtMS = (case map j_at_ms js of [] \<Rightarrow> 0 | t # ts \<Rightarrow> fold min ts t),
       sx_NewestAtMS = (case map j_at_ms js of [] \<Rightarrow> 0 | t # ts \<Rightarrow> fold max ts t)\<rparr>)"

end
