(* ===== verification/Store_Maintenance.thy ===== *)
theory Store_Maintenance
  imports Store
begin

text \<open>
  Hourly rollups (\<^verbatim>\<open>internal/store/rollups.go\<close>) and retention (\<^verbatim>\<open>maintenance.go\<close>) of the local
  store. What SQLite knows about its pages (the live bytes of a database, the length of the free
  list) is an argument.
\<close>

section \<open>Rollups\<close>

definition rollupBucketMS :: int where "rollupBucketMS = 60 * 60 * 1000"
definition rollupChunk :: nat where "rollupChunk = 2000"

definition zeroAgg :: rollupAgg where
  "zeroAgg = \<lparr>ra_checks = 0, ra_ok = 0, ra_errors = 0, ra_latencySum = 0, ra_latencyCount = 0,
     ra_latencyMin = None, ra_latencyMax = None\<rparr>"

definition metaInt :: "string \<Rightarrow> db \<Rightarrow> storeError + int" where
  "metaInt key d =
     (case map_of (db_meta d) key of
        None \<Rightarrow> Inr 0
      | Some raw \<Rightarrow> (case ParseInt64 raw of None \<Rightarrow> Inl ParseError | Some v \<Rightarrow> Inr v))"

definition readRollupChunk :: "int \<Rightarrow> db \<Rightarrow> journalRow list" where
  "readRollupChunk after d =
     take rollupChunk (filter (\<lambda>r. j_kind r = KResult \<and> j_seq r > after) (db_journal d))"

definition rollup_bucket :: "int \<Rightarrow> int" where
  "rollup_bucket atMS =
     (let bucket = go_div atMS rollupBucketMS * rollupBucketMS in if bucket < 0 then 0 else bucket)"

definition rollup_key :: "journalRow \<Rightarrow> rollupKey" where
  "rollup_key r = (j_origin r, opt_string (j_probe_id r), rollup_bucket (j_at_ms r))"

definition agg_note :: "journalRow \<Rightarrow> rollupAgg \<Rightarrow> rollupAgg" where
  "agg_note r agg =
     (let agg = agg\<lparr>ra_checks := ra_checks agg + 1\<rparr>;
          agg = (if opt_int (j_ok r) \<noteq> 0 then agg\<lparr>ra_ok := ra_ok agg + 1\<rparr>
                 else agg\<lparr>ra_errors := ra_errors agg + 1\<rparr>)
      in case j_latency_us r of
           None \<Rightarrow> agg
         | Some value \<Rightarrow>
             agg\<lparr>ra_latencySum := i64 (ra_latencySum agg + value),
                 ra_latencyCount := ra_latencyCount agg + 1,
                 ra_latencyMin := (case ra_latencyMin agg of
                    None \<Rightarrow> Some value | Some m \<Rightarrow> if value < m then Some value else Some m),
                 ra_latencyMax := (case ra_latencyMax agg of
                    None \<Rightarrow> Some value | Some m \<Rightarrow> if value > m then Some value else Some m)\<rparr>)"

definition aggregate_row ::
  "journalRow \<Rightarrow> (rollupKey \<times> rollupAgg) list \<times> int \<Rightarrow> (rollupKey \<times> rollupAgg) list \<times> int" where
  "aggregate_row r st =
     (case st of (aggregated, lastSeq) \<Rightarrow>
        (AList.update (rollup_key r)
           (agg_note r (case map_of aggregated (rollup_key r) of None \<Rightarrow> zeroAgg | Some a \<Rightarrow> a)) aggregated,
         if j_seq r > lastSeq then j_seq r else lastSeq))"

definition aggregate_rows :: "journalRow list \<Rightarrow> int \<Rightarrow> (rollupKey \<times> rollupAgg) list \<times> int" where
  "aggregate_rows rows after = fold aggregate_row rows ([], after)"

text \<open>The upsert. An SQLite addition that leaves the 64-bit range gives a floating-point value,
  which the strict table refuses.\<close>

definition in_i64 :: "int \<Rightarrow> bool" where
  "in_i64 x \<longleftrightarrow> - (2 ^ 63) \<le> x \<and> x < 2 ^ 63"

definition upsert_agg :: "rollupAgg \<Rightarrow> rollupAgg \<Rightarrow> rollupAgg" where
  "upsert_agg old new =
     \<lparr>ra_checks = ra_checks old + ra_checks new, ra_ok = ra_ok old + ra_ok new,
      ra_errors = ra_errors old + ra_errors new,
      ra_latencySum = ra_latencySum old + ra_latencySum new,
      ra_latencyCount = ra_latencyCount old + ra_latencyCount new,
      ra_latencyMin = (if ra_latencyCount new = 0 then ra_latencyMin old
        else case (ra_latencyMin old, ra_latencyMin new) of
               (None, n) \<Rightarrow> n
             | (Some m, Some n) \<Rightarrow> if n < m then Some n else Some m
             | (Some m, None) \<Rightarrow> Some m),
      ra_latencyMax = (if ra_latencyCount new = 0 then ra_latencyMax old
        else case (ra_latencyMax old, ra_latencyMax new) of
               (None, n) \<Rightarrow> n
             | (Some m, Some n) \<Rightarrow> if n > m then Some n else Some m
             | (Some m, None) \<Rightarrow> Some m)\<rparr>"

fun upsert_rollups :: "(rollupKey \<times> rollupAgg) list \<Rightarrow> db \<Rightarrow> unit tx" where
  "upsert_rollups [] d = Inr ((), d)"
| "upsert_rollups ((key, agg) # rest) d =
     (case map_of (db_rollups d) key of
        None \<Rightarrow> upsert_rollups rest (d\<lparr>db_rollups := AList.update key agg (db_rollups d)\<rparr>)
      | Some old \<Rightarrow>
          if \<not> in_i64 (ra_latencySum old + ra_latencySum agg) then Inl ConstraintError
          else upsert_rollups rest (d\<lparr>db_rollups := AList.update key (upsert_agg old agg) (db_rollups d)\<rparr>))"

definition writeRollups :: "(rollupKey \<times> rollupAgg) list \<Rightarrow> int \<Rightarrow> int \<Rightarrow> db \<Rightarrow> unit tx" where
  "writeRollups aggregated expectedCursor nextCursor d =
     (case metaInt ''rollup_seq'' d of
        Inl e \<Rightarrow> Inl e
      | Inr current \<Rightarrow>
          if current \<noteq> expectedCursor then Inl CursorMoved
          else bind_tx (upsert_rollups aggregated d)
                 (\<lambda>_ d. Inr ((), meta_set ''rollup_seq'' (Itoa nextCursor) d)))"

text \<open>The loop of \<open>rollupResults\<close>. \<open>env i\<close> is what another process does to the database
  between the \<open>i\<close>-th read and write. The value is the number of rows folded in, or an error
  with the database as it is by then.\<close>

fun rollup_loop :: "nat \<Rightarrow> (nat \<Rightarrow> db \<Rightarrow> db) \<Rightarrow> nat \<Rightarrow> int \<Rightarrow> int \<Rightarrow> int \<Rightarrow> db \<Rightarrow> (storeError + int) \<times> db" where
  "rollup_loop 0 env i after folded moves d = (Inl OutOfFuel, d)"
| "rollup_loop (Suc fuel) env i after folded moves d =
     (let rows = readRollupChunk after d in
      if rows = [] then (Inr folded, d)
      else (let (aggregated, lastSeq) = aggregate_rows rows after; d = env i d in
            case writeRollups aggregated after lastSeq d of
              Inr (_, d) \<Rightarrow> rollup_loop fuel env (i + 1) lastSeq (folded + int (length rows)) moves d
            | Inl CursorMoved \<Rightarrow>
                if moves + 1 > 5 then (Inl CursorKeptMoving, d)
                else (case metaInt ''rollup_seq'' d of
                        Inl e \<Rightarrow> (Inl e, d)
                      | Inr after \<Rightarrow> rollup_loop fuel env (i + 1) after folded (moves + 1) d)
            | Inl e \<Rightarrow> (Inl e, d)))"

text \<open>Every round consumes at least one row or one of the six moves, so this fuel is enough when
  no other process appends rows (proved below for a quiet environment).\<close>

definition rollupResults :: "(nat \<Rightarrow> db \<Rightarrow> db) \<Rightarrow> db \<Rightarrow> (storeError + int) \<times> db" where
  "rollupResults env d =
     (case metaInt ''rollup_seq'' d of
        Inl e \<Rightarrow> (Inl e, d)
      | Inr after \<Rightarrow> rollup_loop (length (db_journal d) + 7) env 0 after 0 0 d)"

definition Rollups :: "string \<Rightarrow> int \<Rightarrow> int \<Rightarrow> int \<Rightarrow> db \<Rightarrow> (rollupKey \<times> rollupAgg) list" where
  "Rollups probeID fromMS toMS limit d =
     (let limit = replay_limit limit
      in take (nat limit) (sort_key (\<lambda>((orig, pid, bucket), agg). (bucket, pid, orig))
           (filter (\<lambda>((orig, pid, bucket), agg). fromMS \<le> bucket \<and> bucket < toMS
                      \<and> (probeID = [] \<or> pid = probeID)) (db_rollups d))))"

section \<open>Maintenance\<close>

definition pruneChunk :: nat where "pruneChunk = 2000"
definition vacuumChunkPages :: int where "vacuumChunkPages = 512"
definition maxVacuumChunks :: nat where "maxVacuumChunks = 64"

record MaintainOptions =
  mo_Retention :: duration
  mo_MaxBytes :: int

record MaintainStats =
  ms_DeletedRows :: int
  ms_DeletedRollups :: int
  ms_RolledUpResults :: int
  ms_PrunedTriggers :: int
  ms_VacuumedPages :: int
  ms_LiveBytes :: int
  ms_OverBudget :: bool

definition prunable :: "db \<Rightarrow> journalRow \<Rightarrow> bool" where
  "prunable d j \<longleftrightarrow>
     j_kind j = KResult \<and> j_delivery_state j \<noteq> 0 \<or>
     (j_kind j = KTrigger \<or> j_kind j = KTriggerDone) \<and>
     \<not> list_ex (\<lambda>q. q_event_seq q = j_seq j) (db_pending d)"

text \<open>\<^verbatim>\<open>DELETE FROM journal WHERE seq IN (SELECT ... ORDER BY seq LIMIT n)\<close> and the rows it affects.\<close>

definition delete_first :: "nat \<Rightarrow> (journalRow \<Rightarrow> bool) \<Rightarrow> db \<Rightarrow> nat \<times> db" where
  "delete_first n P d =
     (let victims = map j_seq (take n (filter P (db_journal d)));
          keep = filter (\<lambda>j. j_seq j \<notin> set victims) (db_journal d)
      in (length (db_journal d) - length keep, d\<lparr>db_journal := keep\<rparr>))"

function retention_loop :: "int \<Rightarrow> int \<Rightarrow> db \<Rightarrow> int \<times> db" where
  "retention_loop cutoff deleted d =
     (case delete_first pruneChunk (\<lambda>j. prunable d j \<and> j_at_ms j < cutoff) d of
        (affected, d') \<Rightarrow>
          if affected < pruneChunk then (deleted + int affected, d')
          else retention_loop cutoff (deleted + int affected) d')"
  by pat_completeness auto
termination
  by (relation "measure (\<lambda>(_, _, d). length (db_journal d))")
    (auto simp: delete_first_def Let_def pruneChunk_def)

declare retention_loop.simps [simp del]

definition newest_assignments :: "journalRow list \<Rightarrow> int set" where
  "newest_assignments js =
     set (map (\<lambda>j. fold max (map j_seq (filter (\<lambda>i. j_kind i = KAssignment \<and> j_origin i = j_origin j) js)) (j_seq j))
       (filter (\<lambda>j. j_kind j = KAssignment) js))"

definition collapse_assignments :: "db \<Rightarrow> nat \<times> db" where
  "collapse_assignments d =
     (let newest = newest_assignments (db_journal d);
          keep = filter (\<lambda>j. \<not> (j_kind j = KAssignment \<and> j_seq j \<notin> newest)) (db_journal d)
      in (length (db_journal d) - length keep, d\<lparr>db_journal := keep\<rparr>))"

definition drop_oldest_rollups :: "nat \<Rightarrow> db \<Rightarrow> nat \<times> db" where
  "drop_oldest_rollups n d =
     (let victims = map fst (take n (sort_key (\<lambda>((orig, pid, bucket), agg). bucket) (db_rollups d)));
          keep = filter (\<lambda>(k, a). k \<notin> set victims) (db_rollups d)
      in (length (db_rollups d) - length keep, d\<lparr>db_rollups := keep\<rparr>))"

text \<open>\<open>live\<close> gives the live bytes SQLite reports for a database.\<close>

fun size_loop :: "nat \<Rightarrow> (db \<Rightarrow> int) \<Rightarrow> int \<Rightarrow> MaintainStats \<Rightarrow> db \<Rightarrow> MaintainStats \<times> db" where
  "size_loop 0 live maxBytes st d = (st, d)"
| "size_loop (Suc n) live maxBytes st d =
     (if live d \<le> maxBytes then (st, d)
      else (case delete_first pruneChunk (prunable d) d of (affected, d) \<Rightarrow>
        (let st = st\<lparr>ms_DeletedRows := ms_DeletedRows st + int affected\<rparr> in
         if affected = 0
         then (case drop_oldest_rollups pruneChunk d of (rolled, d) \<Rightarrow>
                (let st = st\<lparr>ms_DeletedRollups := ms_DeletedRollups st + int rolled\<rparr> in
                 if rolled = 0 then (st\<lparr>ms_OverBudget := True\<rparr>, d)
                 else size_loop n live maxBytes st d))
         else size_loop n live maxBytes st d)))"

definition liveBytes :: "int \<Rightarrow> int \<Rightarrow> int \<Rightarrow> int" where
  "liveBytes pageSize pageCount freePages =
     (let live = pageCount - freePages in (if live < 0 then 0 else live) * pageSize)"

text \<open>\<open>freelist i\<close> is the length of the free list after \<open>i\<close> incremental vacuums.\<close>

fun vacuum_loop :: "nat \<Rightarrow> (nat \<Rightarrow> int) \<Rightarrow> nat \<Rightarrow> int \<Rightarrow> int" where
  "vacuum_loop 0 freelist i current = current"
| "vacuum_loop (Suc n) freelist i current =
     (if current \<le> 0 then current
      else (let after = freelist (i + 1) in
            if after \<ge> current then current else vacuum_loop n freelist (i + 1) after))"

definition incrementalVacuum :: "(nat \<Rightarrow> int) \<Rightarrow> int" where
  "incrementalVacuum freelist = freelist 0 - vacuum_loop maxVacuumChunks freelist 0 (freelist 0)"

definition zeroMaintainStats :: MaintainStats where
  "zeroMaintainStats = \<lparr>ms_DeletedRows = 0, ms_DeletedRollups = 0, ms_RolledUpResults = 0,
     ms_PrunedTriggers = 0, ms_VacuumedPages = 0, ms_LiveBytes = 0, ms_OverBudget = False\<rparr>"

definition retention_phase :: "gotime \<Rightarrow> duration \<Rightarrow> MaintainStats \<Rightarrow> db \<Rightarrow> MaintainStats \<times> db" where
  "retention_phase now retention st d =
     (if retention > 0
      then (let cutoff = to_UnixMilli (time_add now (- retention)) in
            case retention_loop cutoff 0 d of (deleted, d) \<Rightarrow>
              (let keep = filter (\<lambda>c. \<not> c_completed_at_ms c < cutoff) (db_completed d) in
               (st\<lparr>ms_DeletedRows := ms_DeletedRows st + deleted,
                   ms_PrunedTriggers := int (length (db_completed d) - length keep)\<rparr>,
                d\<lparr>db_completed := keep\<rparr>)))
      else (st, d))"

definition Maintain ::
  "(nat \<Rightarrow> db \<Rightarrow> db) \<Rightarrow> (db \<Rightarrow> int) \<Rightarrow> (nat \<Rightarrow> int) \<Rightarrow> gotime \<Rightarrow> MaintainOptions \<Rightarrow> db
    \<Rightarrow> (storeError + MaintainStats) \<times> db" where
  "Maintain env live freelist now opts d =
     (case rollupResults env d of
        (Inl e, d) \<Rightarrow> (Inl e, d)
      | (Inr rolled, d) \<Rightarrow>
          (case retention_phase now (mo_Retention opts) (zeroMaintainStats\<lparr>ms_RolledUpResults := rolled\<rparr>) d of
             (st, d) \<Rightarrow>
               (case collapse_assignments d of (n, d) \<Rightarrow>
                  (let st = st\<lparr>ms_DeletedRows := ms_DeletedRows st + int n\<rparr> in
                   case (if mo_MaxBytes opts > 0 then size_loop 100 live (mo_MaxBytes opts) st d else (st, d)) of
                     (st, d) \<Rightarrow>
                       (let st = st\<lparr>ms_VacuumedPages := incrementalVacuum freelist, ms_LiveBytes := live d\<rparr>;
                            st = (if mo_MaxBytes opts > 0 \<and> live d > mo_MaxBytes opts
                                  then st\<lparr>ms_OverBudget := True\<rparr> else st)
                        in (Inr st, d))))))"

end
