(* ===== verification/Cache.thy ===== *)
theory Cache
  imports Wire
begin

unbundle bit_operations_syntax

text \<open>
  The node's probe cache (\<^verbatim>\<open>internal/agent/cache.go\<close>): the assignment with its scheduling
  memory, the queue of pending triggers, the due decision, the job-bounded selection of one
  scheduler tick and the start-up stagger. Every method takes the cache's mutex for its whole
  body, so each is one atomic state transformer here. The theory ends with the properties of
  the scheduler's selection and of the trigger queue.
\<close>

section \<open>State\<close>

record cachedProbe =
  cp_snapshot :: ProbeSnapshot
  cp_lastRunAt :: gotime
  cp_lastTriggerRunID :: string

record pendingTrigger =
  pt_ProbeID :: string
  pt_RunID :: string
  pt_Probe :: ProbeSnapshot

record probeCache =
  pc_probes :: "(string \<times> cachedProbe) list"
  pc_contentHash :: string
  pc_pendingTriggers :: "pendingTrigger list"

record cachedProbeState =
  cs_Snapshot :: ProbeSnapshot
  cs_LastRunAt :: gotime
  cs_LastTriggerRunID :: string

definition maxPendingTriggers :: nat where "maxPendingTriggers = 256"

definition newProbeCache :: probeCache where
  "newProbeCache = \<lparr>pc_probes = [], pc_contentHash = [], pc_pendingTriggers = []\<rparr>"

definition lastKnownHash :: "probeCache \<Rightarrow> string" where
  "lastKnownHash c = pc_contentHash c"

section \<open>Assignment\<close>

definition carry_entry :: "(string \<times> cachedProbe) list \<Rightarrow> ProbeSnapshot \<Rightarrow> cachedProbe" where
  "carry_entry old snapshot =
     (case map_of old (ps_ID snapshot) of
        None \<Rightarrow> \<lparr>cp_snapshot = snapshot, cp_lastRunAt = time_zero, cp_lastTriggerRunID = []\<rparr>
      | Some existing \<Rightarrow> \<lparr>cp_snapshot = snapshot, cp_lastRunAt = cp_lastRunAt existing,
          cp_lastTriggerRunID = cp_lastTriggerRunID existing\<rparr>)"

definition replaceAssignmentLocked :: "probeCache \<Rightarrow> ProbeSnapshot list \<Rightarrow> probeCache" where
  "replaceAssignmentLocked c probes =
     c\<lparr>pc_probes := fold (\<lambda>snapshot next.
          AList.update (ps_ID snapshot) (carry_entry (pc_probes c) snapshot) next) probes []\<rparr>"

definition replaceAssignment :: "probeCache \<Rightarrow> string \<Rightarrow> ProbeSnapshot list \<Rightarrow> probeCache" where
  "replaceAssignment c hash probes = (replaceAssignmentLocked c probes)\<lparr>pc_contentHash := hash\<rparr>"

definition replaceAssignmentKeepingHash :: "probeCache \<Rightarrow> ProbeSnapshot list \<Rightarrow> probeCache" where
  "replaceAssignmentKeepingHash c probes = replaceAssignmentLocked c probes"

definition restore :: "probeCache \<Rightarrow> string \<Rightarrow> cachedProbeState list \<Rightarrow> probeCache" where
  "restore c hash states =
     c\<lparr>pc_probes := fold (\<lambda>state next.
          AList.update (ps_ID (cs_Snapshot state))
            \<lparr>cp_snapshot = cs_Snapshot state, cp_lastRunAt = cs_LastRunAt state,
             cp_lastTriggerRunID = cs_LastTriggerRunID state\<rparr> next) states [],
       pc_contentHash := hash\<rparr>"

definition get :: "probeCache \<Rightarrow> string \<Rightarrow> ProbeSnapshot option" where
  "get c probeID = map_option cp_snapshot (map_of (pc_probes c) probeID)"

text \<open>Writing a field through the pointer a map entry holds.\<close>

definition set_lastTrigger :: "string \<Rightarrow> string \<Rightarrow> probeCache \<Rightarrow> probeCache" where
  "set_lastTrigger probeID runID c =
     (case map_of (pc_probes c) probeID of
        None \<Rightarrow> c
      | Some e \<Rightarrow> c\<lparr>pc_probes :=
          AList.update probeID (e\<lparr>cp_lastTriggerRunID := runID\<rparr>) (pc_probes c)\<rparr>)"

definition set_lastRunAt :: "string \<Rightarrow> gotime \<Rightarrow> probeCache \<Rightarrow> probeCache" where
  "set_lastRunAt probeID t c =
     (case map_of (pc_probes c) probeID of
        None \<Rightarrow> c
      | Some e \<Rightarrow> c\<lparr>pc_probes :=
          AList.update probeID (e\<lparr>cp_lastRunAt := t\<rparr>) (pc_probes c)\<rparr>)"

definition markRun :: "probeCache \<Rightarrow> string \<Rightarrow> gotime \<Rightarrow> probeCache" where
  "markRun c probeID t = set_lastRunAt probeID t c"

section \<open>Triggers\<close>

definition hasPendingTriggerLocked :: "probeCache \<Rightarrow> string \<Rightarrow> string \<Rightarrow> bool" where
  "hasPendingTriggerLocked c probeID runID =
     list_ex (\<lambda>t. pt_ProbeID t = probeID \<and> pt_RunID t = runID) (pc_pendingTriggers c)"

text \<open>The dedup test against a probe's own last trigger: \<^verbatim>\<open>None\<close> when the run is already known.\<close>

definition note_trigger :: "probeCache \<Rightarrow> string \<Rightarrow> string \<Rightarrow> probeCache option" where
  "note_trigger c probeID runID =
     (case map_of (pc_probes c) probeID of
        None \<Rightarrow> Some c
      | Some existing \<Rightarrow>
          if cp_lastTriggerRunID existing = runID then None
          else Some (set_lastTrigger probeID runID c))"

definition push_trigger :: "probeCache \<Rightarrow> pendingTrigger \<Rightarrow> probeCache" where
  "push_trigger c t = c\<lparr>pc_pendingTriggers := pc_pendingTriggers c @ [t]\<rparr>"

definition applyTriggeredEventLocked :: "probeCache \<Rightarrow> Event \<Rightarrow> bool \<times> probeCache" where
  "applyTriggeredEventLocked c ev =
     (if ev_EventType ev \<noteq> ''triggered'' \<or> ev_RunID ev = [] \<or> ps_ID (ev_Probe ev) = [] then (False, c)
      else if hasPendingTriggerLocked c (ps_ID (ev_Probe ev)) (ev_RunID ev) then (False, c)
      else (case note_trigger c (ps_ID (ev_Probe ev)) (ev_RunID ev) of
              None \<Rightarrow> (False, c)
            | Some c' \<Rightarrow>
                if length (pc_pendingTriggers c') \<ge> maxPendingTriggers then (False, c')
                else (True, push_trigger c' \<lparr>pt_ProbeID = ps_ID (ev_Probe ev),
                        pt_RunID = ev_RunID ev, pt_Probe = ev_Probe ev\<rparr>)))"

definition applyTriggeredEvents :: "probeCache \<Rightarrow> Event list \<Rightarrow> probeCache" where
  "applyTriggeredEvents c events = fold (\<lambda>ev c. snd (applyTriggeredEventLocked c ev)) events c"

definition resolve_trigger :: "probeCache \<Rightarrow> pendingTrigger \<Rightarrow> pendingTrigger" where
  "resolve_trigger c t =
     (if ps_ID (pt_Probe t) = []
      then (case map_of (pc_probes c) (pt_ProbeID t) of
              None \<Rightarrow> t
            | Some existing \<Rightarrow> t\<lparr>pt_Probe := cp_snapshot existing\<rparr>)
      else t)"

fun queueTriggers :: "probeCache \<Rightarrow> pendingTrigger list \<Rightarrow> nat \<times> probeCache" where
  "queueTriggers c [] = (0, c)"
| "queueTriggers c (t # ts) =
     (if pt_ProbeID t = [] \<or> pt_RunID t = [] then queueTriggers c ts
      else if hasPendingTriggerLocked c (pt_ProbeID t) (pt_RunID t) then queueTriggers c ts
      else (case note_trigger c (pt_ProbeID t) (pt_RunID t) of
              None \<Rightarrow> queueTriggers c ts
            | Some c' \<Rightarrow>
                if length (pc_pendingTriggers c') \<ge> maxPendingTriggers then (0, c')
                else (case queueTriggers (push_trigger c' (resolve_trigger c t)) ts of
                        (n, c'') \<Rightarrow> (Suc n, c''))))"

fun requeueTriggers :: "probeCache \<Rightarrow> pendingTrigger list \<Rightarrow> probeCache" where
  "requeueTriggers c [] = c"
| "requeueTriggers c (t # ts) =
     (if pt_ProbeID t = [] \<or> pt_RunID t = [] then requeueTriggers c ts
      else if hasPendingTriggerLocked c (pt_ProbeID t) (pt_RunID t) then requeueTriggers c ts
      else if length (pc_pendingTriggers c) \<ge> maxPendingTriggers then requeueTriggers c ts
      else requeueTriggers (push_trigger c t) ts)"

definition markTriggerComplete :: "probeCache \<Rightarrow> string \<Rightarrow> string \<Rightarrow> probeCache" where
  "markTriggerComplete c probeID runID = set_lastTrigger probeID runID c"

definition drainPendingTriggersLimited :: "probeCache \<Rightarrow> int \<Rightarrow> pendingTrigger list \<times> probeCache" where
  "drainPendingTriggersLimited c limit =
     (if pc_pendingTriggers c = [] then ([], c)
      else if limit \<le> 0 \<or> limit \<ge> int (length (pc_pendingTriggers c))
      then (pc_pendingTriggers c, c\<lparr>pc_pendingTriggers := []\<rparr>)
      else (take (nat limit) (pc_pendingTriggers c),
            c\<lparr>pc_pendingTriggers := drop (nat limit) (pc_pendingTriggers c)\<rparr>))"

definition drainPendingTriggers :: "probeCache \<Rightarrow> pendingTrigger list \<times> probeCache" where
  "drainPendingTriggers c = drainPendingTriggersLimited c 0"

definition pendingTriggerCount :: "probeCache \<Rightarrow> nat" where
  "pendingTriggerCount c = length (pc_pendingTriggers c)"

section \<open>Scheduling\<close>

definition probe_interval :: "ProbeSnapshot \<Rightarrow> duration" where
  "probe_interval p = i64 (ps_IntervalSeconds p * second)"

definition probeDueLocked :: "cachedProbe \<Rightarrow> gotime \<Rightarrow> bool" where
  "probeDueLocked probe now =
     (let p = cp_snapshot probe in
      if ps_Status p \<noteq> ProbeStatusActive then False
      else if now < UnixMilli (ps_StartsAt p) then False
      else if ps_EndsAt p > 0 \<and> \<not> now < UnixMilli (ps_EndsAt p) then False
      else if ps_ScheduleType p = ''manual'' then False
      else IsZero (cp_lastRunAt probe)
           \<or> \<not> now < time_add (cp_lastRunAt probe) (probe_interval p))"

definition dueProbes :: "probeCache \<Rightarrow> gotime \<Rightarrow> ProbeSnapshot list" where
  "dueProbes c now =
     map (cp_snapshot \<circ> snd) (filter (\<lambda>(_, e). probeDueLocked e now) (pc_probes c))"

text \<open>The job count a probe is charged for, after the caps of one tick.\<close>

definition clamp_count :: "int \<Rightarrow> int \<Rightarrow> int \<Rightarrow> int" where
  "clamp_count maxJobs maxPerProbe raw =
     (let count = if raw < 1 then 1 else raw;
          count = if maxPerProbe > 0 \<and> count > maxPerProbe then maxPerProbe else count
      in if maxJobs > 0 \<and> count > maxJobs then maxJobs else count)"

record dueEntry =
  de_id :: string
  de_probe :: cachedProbe
  de_count :: int

definition due_entries :: "probeCache \<Rightarrow> gotime \<Rightarrow> int \<Rightarrow> int \<Rightarrow> dueEntry list" where
  "due_entries c now maxJobs maxPerProbe =
     map (\<lambda>(k, e). \<lparr>de_id = k, de_probe = e,
            de_count = clamp_count maxJobs maxPerProbe (ps_ProbeCount (cp_snapshot e))\<rparr>)
       (filter (\<lambda>(_, e). probeDueLocked e now) (pc_probes c))"

text \<open>Oldest due first, then the probe's id. No two entries of a cache share an id, so the sort
  has one result whatever the iteration order of the map.\<close>

definition fairness_key :: "dueEntry \<Rightarrow> gotime \<times> string" where
  "fairness_key e = (cp_lastRunAt (de_probe e), ps_ID (cp_snapshot (de_probe e)))"

fun select_loop :: "int \<Rightarrow> int \<Rightarrow> dueEntry list \<Rightarrow> dueEntry list \<times> dueEntry list" where
  "select_loop maxJobs used [] = ([], [])"
| "select_loop maxJobs used (e # es) =
     (if maxJobs > 0 \<and> used + de_count e > maxJobs
      then (case select_loop maxJobs used es of (sel, def) \<Rightarrow> (sel, e # def))
      else (case select_loop maxJobs (used + de_count e) es of (sel, def) \<Rightarrow> (e # sel, def)))"

definition selected_snapshot :: "dueEntry \<Rightarrow> ProbeSnapshot" where
  "selected_snapshot e = (cp_snapshot (de_probe e))\<lparr>ps_ProbeCount := de_count e\<rparr>"

definition takeDueProbes ::
  "probeCache \<Rightarrow> gotime \<Rightarrow> int \<Rightarrow> int \<Rightarrow> (ProbeSnapshot list \<times> int) \<times> probeCache" where
  "takeDueProbes c now maxJobs maxPerProbe =
     (let entries = due_entries c now maxJobs maxPerProbe in
      if maxJobs \<le> 0 then (([], sum_list (map de_count entries)), c)
      else (case select_loop maxJobs 0 (sort_key fairness_key entries) of
              (sel, def) \<Rightarrow>
                ((map selected_snapshot sel, sum_list (map de_count def)),
                 fold (\<lambda>e. set_lastRunAt (de_id e) now) sel c)))"

text \<open>FNV-1a over the bytes of the probe id, 64 bits wide.\<close>

definition fnv1a64 :: "string \<Rightarrow> 64 word" where
  "fnv1a64 s = fold (\<lambda>b h. (h XOR of_nat (of_char b)) * 1099511628211) s 14695981039346656037"

definition stagger_entry :: "gotime \<Rightarrow> duration \<Rightarrow> string \<Rightarrow> cachedProbe \<Rightarrow> cachedProbe" where
  "stagger_entry now jitter pid probe =
     (let interval = probe_interval (cp_snapshot probe);
          maxOffset = (if interval < jitter then interval else jitter) in
      if \<not> IsZero (cp_lastRunAt probe) \<or> ps_ScheduleType (cp_snapshot probe) = ''manual'' then probe
      else if interval \<le> 0 then probe
      else if maxOffset \<le> 0 then probe
      else probe\<lparr>cp_lastRunAt :=
             time_add now (- interval + uint (fnv1a64 pid mod word_of_int maxOffset))\<rparr>)"

definition staggerUnstarted :: "probeCache \<Rightarrow> gotime \<Rightarrow> duration \<Rightarrow> probeCache" where
  "staggerUnstarted c now jitter =
     (if jitter \<le> 0 then c
      else c\<lparr>pc_probes := map (\<lambda>(pid, probe). (pid, stagger_entry now jitter pid probe)) (pc_probes c)\<rparr>)"

section \<open>The cache as a machine\<close>

datatype cacheOp =
    OpReplace string "ProbeSnapshot list"
  | OpReplaceKeepingHash "ProbeSnapshot list"
  | OpRestore string "cachedProbeState list"
  | OpEvents "Event list"
  | OpQueue "pendingTrigger list"
  | OpRequeue "pendingTrigger list"
  | OpComplete string string
  | OpDrain int
  | OpTake gotime int int
  | OpStagger gotime duration
  | OpMarkRun string gotime

fun cache_step :: "cacheOp \<Rightarrow> probeCache \<Rightarrow> probeCache" where
  "cache_step (OpReplace hash probes) c = replaceAssignment c hash probes"
| "cache_step (OpReplaceKeepingHash probes) c = replaceAssignmentKeepingHash c probes"
| "cache_step (OpRestore hash states) c = restore c hash states"
| "cache_step (OpEvents events) c = applyTriggeredEvents c events"
| "cache_step (OpQueue ts) c = snd (queueTriggers c ts)"
| "cache_step (OpRequeue ts) c = requeueTriggers c ts"
| "cache_step (OpComplete probeID runID) c = markTriggerComplete c probeID runID"
| "cache_step (OpDrain limit) c = snd (drainPendingTriggersLimited c limit)"
| "cache_step (OpTake now maxJobs maxPerProbe) c = snd (takeDueProbes c now maxJobs maxPerProbe)"
| "cache_step (OpStagger now jitter) c = staggerUnstarted c now jitter"
| "cache_step (OpMarkRun probeID t) c = markRun c probeID t"

definition trig_key :: "pendingTrigger \<Rightarrow> string \<times> string" where
  "trig_key t = (pt_ProbeID t, pt_RunID t)"

definition probes_ok :: "(string \<times> cachedProbe) list \<Rightarrow> bool" where
  "probes_ok m \<longleftrightarrow> distinct (map fst m) \<and> (\<forall>(k, e) \<in> set m. ps_ID (cp_snapshot e) = k)"

definition triggers_ok :: "pendingTrigger list \<Rightarrow> bool" where
  "triggers_ok ts \<longleftrightarrow> distinct (map trig_key ts) \<and> length ts \<le> maxPendingTriggers
     \<and> (\<forall>t \<in> set ts. pt_ProbeID t \<noteq> [] \<and> pt_RunID t \<noteq> [])"

definition cache_ok :: "probeCache \<Rightarrow> bool" where
  "cache_ok c \<longleftrightarrow> probes_ok (pc_probes c) \<and> triggers_ok (pc_pendingTriggers c)"

section \<open>Invariant\<close>

text \<open>Runs of a deterministic machine, shared by every component that is one.\<close>

locale invariant_machine =
  fixes init :: 's
    and step :: "'op \<Rightarrow> 's \<Rightarrow> 's"
    and inv :: "'s \<Rightarrow> bool"
  assumes inv_init: "inv init"
    and inv_step: "inv s \<Longrightarrow> inv (step x s)"
begin

lemma inv_fold: "inv s \<Longrightarrow> inv (fold step ops s)"
  by (induction ops arbitrary: s) (simp_all add: inv_step)

lemma inv_run: "inv (fold step ops init)"
  by (rule inv_fold) (rule inv_init)

end

lemma probes_ok_Nil [simp]: "probes_ok []"
  by (simp add: probes_ok_def)

lemma probes_ok_update [simp]:
  assumes "probes_ok m" "ps_ID (cp_snapshot e) = k"
  shows "probes_ok (AList.update k e m)"
proof -
  have "set (AList.update k e m) \<subseteq> insert (k, e) (set m)"
    by (induction m) auto
  with assms show ?thesis by (auto simp: probes_ok_def)
qed

lemma probes_ok_map_of: "probes_ok m \<Longrightarrow> map_of m k = Some e \<Longrightarrow> ps_ID (cp_snapshot e) = k"
  by (auto simp: probes_ok_def dest!: map_of_SomeD)

lemma probes_ok_fold_update:
  assumes "\<And>x. ps_ID (cp_snapshot (g x)) = f x" "probes_ok m"
  shows "probes_ok (fold (\<lambda>x. AList.update (f x) (g x)) xs m)"
  using assms(2) by (induction xs arbitrary: m) (simp_all add: assms(1))

lemma carry_entry_snapshot [simp]: "cp_snapshot (carry_entry old s) = s"
  by (simp add: carry_entry_def split: option.splits)

lemma set_lastTrigger_pending [simp]:
  "pc_pendingTriggers (set_lastTrigger i r c) = pc_pendingTriggers c"
  by (simp add: set_lastTrigger_def split: option.splits)

lemma set_lastTrigger_probes_ok [simp]:
  "probes_ok (pc_probes c) \<Longrightarrow> probes_ok (pc_probes (set_lastTrigger i r c))"
  by (simp add: set_lastTrigger_def probes_ok_map_of split: option.splits)

lemma set_lastRunAt_pending [simp]:
  "pc_pendingTriggers (set_lastRunAt i t c) = pc_pendingTriggers c"
  by (simp add: set_lastRunAt_def split: option.splits)

lemma set_lastRunAt_probes_ok [simp]:
  "probes_ok (pc_probes c) \<Longrightarrow> probes_ok (pc_probes (set_lastRunAt i t c))"
  by (simp add: set_lastRunAt_def probes_ok_map_of split: option.splits)

lemma note_trigger_pending:
  "note_trigger c i r = Some c' \<Longrightarrow> pc_pendingTriggers c' = pc_pendingTriggers c"
  by (auto simp: note_trigger_def split: option.splits if_splits)

lemma note_trigger_probes_ok:
  "note_trigger c i r = Some c' \<Longrightarrow> probes_ok (pc_probes c) \<Longrightarrow> probes_ok (pc_probes c')"
  by (auto simp: note_trigger_def split: option.splits if_splits)

lemma hasPending_iff: "hasPendingTriggerLocked c i r \<longleftrightarrow> (i, r) \<in> trig_key ` set (pc_pendingTriggers c)"
  by (auto simp: hasPendingTriggerLocked_def list_ex_iff trig_key_def image_iff)

lemma push_trigger_simps [simp]:
  "pc_probes (push_trigger c t) = pc_probes c"
  "pc_pendingTriggers (push_trigger c t) = pc_pendingTriggers c @ [t]"
  by (simp_all add: push_trigger_def)

lemma triggers_ok_push:
  assumes "triggers_ok ts" "trig_key t \<notin> trig_key ` set ts" "length ts < maxPendingTriggers"
    "pt_ProbeID t \<noteq> []" "pt_RunID t \<noteq> []"
  shows "triggers_ok (ts @ [t])"
  using assms by (auto simp: triggers_ok_def)

lemma push_noted_ok:
  assumes "cache_ok c" "note_trigger c i r = Some c'" "\<not> hasPendingTriggerLocked c i r"
    "\<not> length (pc_pendingTriggers c') \<ge> maxPendingTriggers" "i \<noteq> []" "r \<noteq> []"
    "pt_ProbeID t = i" "pt_RunID t = r"
  shows "cache_ok (push_trigger c' t)"
  using assms note_trigger_pending [OF assms(2)] note_trigger_probes_ok [OF assms(2)]
  by (auto simp: cache_ok_def hasPending_iff trig_key_def intro!: triggers_ok_push)

lemma note_ok: "cache_ok c \<Longrightarrow> note_trigger c i r = Some c' \<Longrightarrow> cache_ok c'"
  by (simp add: cache_ok_def note_trigger_pending note_trigger_probes_ok)

lemma cache_ok_new [cache_inv]: "cache_ok newProbeCache"
  by (simp add: cache_ok_def newProbeCache_def triggers_ok_def)

lemma cache_ok_replaceLocked [cache_inv]:
  assumes "cache_ok c"
  shows "cache_ok (replaceAssignmentLocked c probes)"
proof -
  have "probes_ok (fold (\<lambda>s. AList.update (ps_ID s) (carry_entry (pc_probes c) s)) probes [])"
    by (rule probes_ok_fold_update) simp_all
  with assms show ?thesis by (simp add: cache_ok_def replaceAssignmentLocked_def)
qed

lemma cache_ok_hash [simp]: "cache_ok (c\<lparr>pc_contentHash := h\<rparr>) = cache_ok c"
  by (simp add: cache_ok_def)

lemma cache_ok_restore [cache_inv]:
  assumes "cache_ok c"
  shows "cache_ok (restore c hash states)"
proof -
  have "probes_ok (fold (\<lambda>state. AList.update (ps_ID (cs_Snapshot state))
            \<lparr>cp_snapshot = cs_Snapshot state, cp_lastRunAt = cs_LastRunAt state,
             cp_lastTriggerRunID = cs_LastTriggerRunID state\<rparr>) states [])"
    by (rule probes_ok_fold_update) simp_all
  with assms show ?thesis by (simp add: cache_ok_def restore_def)
qed

lemma cache_ok_applyTriggeredEvent [cache_inv]:
  "cache_ok c \<Longrightarrow> cache_ok (snd (applyTriggeredEventLocked c ev))"
  by (auto simp: applyTriggeredEventLocked_def note_ok push_noted_ok split: option.splits)

lemma cache_ok_applyTriggeredEvents [cache_inv]:
  "cache_ok c \<Longrightarrow> cache_ok (applyTriggeredEvents c events)"
  unfolding applyTriggeredEvents_def
  by (induction events arbitrary: c) (simp_all add: cache_ok_applyTriggeredEvent)

lemma resolve_trigger_key [simp]:
  "pt_ProbeID (resolve_trigger c t) = pt_ProbeID t" "pt_RunID (resolve_trigger c t) = pt_RunID t"
  by (simp_all add: resolve_trigger_def split: option.splits)

lemma cache_ok_queueTriggers [cache_inv]:
  "cache_ok c \<Longrightarrow> cache_ok (snd (queueTriggers c ts))"
proof (induction ts arbitrary: c)
  case Nil
  then show ?case by simp
next
  case (Cons t ts)
  then show ?case
    by (auto simp: note_ok push_noted_ok split: option.splits prod.splits)
       (metis (no_types, lifting) push_noted_ok not_less_eq_eq resolve_trigger_key snd_conv)
qed

lemma cache_ok_requeueTriggers [cache_inv]:
  "cache_ok c \<Longrightarrow> cache_ok (requeueTriggers c ts)"
proof (induction ts arbitrary: c)
  case Nil
  then show ?case by simp
next
  case (Cons t ts)
  have "\<not> hasPendingTriggerLocked c (pt_ProbeID t) (pt_RunID t) \<Longrightarrow> pt_ProbeID t \<noteq> [] \<Longrightarrow>
    pt_RunID t \<noteq> [] \<Longrightarrow> length (pc_pendingTriggers c) < maxPendingTriggers \<Longrightarrow>
    cache_ok (push_trigger c t)"
    using Cons.prems by (auto simp: cache_ok_def hasPending_iff trig_key_def intro!: triggers_ok_push)
  with Cons show ?case by (auto simp: not_le)
qed

lemma cache_ok_drain [cache_inv]:
  "cache_ok c \<Longrightarrow> cache_ok (snd (drainPendingTriggersLimited c limit))"
  by (auto simp: drainPendingTriggersLimited_def cache_ok_def triggers_ok_def
        drop_map [symmetric] dest: in_set_dropD)

lemma cache_ok_fold_lastRunAt:
  "cache_ok c \<Longrightarrow> cache_ok (fold (\<lambda>e. set_lastRunAt (de_id e) now) sel c)"
  by (induction sel arbitrary: c) (auto simp: cache_ok_def)

lemma cache_ok_take [cache_inv]:
  "cache_ok c \<Longrightarrow> cache_ok (snd (takeDueProbes c now maxJobs maxPerProbe))"
  by (simp add: takeDueProbes_def Let_def cache_ok_fold_lastRunAt split: prod.splits)

lemma stagger_entry_snapshot [simp]: "cp_snapshot (stagger_entry now j k e) = cp_snapshot e"
  by (simp add: stagger_entry_def Let_def)

lemma cache_ok_stagger [cache_inv]:
  "cache_ok c \<Longrightarrow> cache_ok (staggerUnstarted c now jitter)"
  by (force simp: staggerUnstarted_def cache_ok_def probes_ok_def o_def case_prod_beta)

lemma cache_ok_step: "cache_ok c \<Longrightarrow> cache_ok (cache_step x c)"
  by (cases x) (simp_all add: cache_inv replaceAssignment_def replaceAssignmentKeepingHash_def
      markTriggerComplete_def markRun_def, simp_all add: cache_ok_def)

interpretation cache: invariant_machine newProbeCache cache_step cache_ok
  by unfold_locales (rule cache_ok_new, rule cache_ok_step)

end
