(* ===== verification/Store_Invariant.thy ===== *)
theory Store_Invariant
  imports Store_Maintenance Cache
begin

text \<open>
  The invariant of the local store: the uniqueness constraints of the schema, the meaning of the
  rows, the sequence counters and the protection of queued triggers, kept by every operation of
  \<^verbatim>\<open>internal/store\<close>. The lemmas on the row operations carry the proofs of the transactions.
\<close>

section \<open>The invariant\<close>

definition row_ok :: "journalRow \<Rightarrow> bool" where
  "row_ok r \<longleftrightarrow>
     (case j_kind r of
        KResult \<Rightarrow> j_run_id r \<noteq> None \<and> j_probe_id r \<noteq> None \<and> j_check_seq r \<noteq> None \<and> j_ok r \<noteq> None
                  \<and> j_delivery_state r \<in> {0, 1, 2}
      | KTrigger \<Rightarrow> (\<exists>e. j_payload r = Some (PTrigger e) \<and> j_probe_id r = Some (ps_ID (ev_Probe e))
                  \<and> j_run_id r = Some (ev_RunID e) \<and> json_snapshot (ev_Probe e) = Some (ev_Probe e))
      | KTriggerDone \<Rightarrow> (\<exists>p x. j_payload r = Some (PDone p x) \<and> j_probe_id r = Some p \<and> j_run_id r = Some x)
      | KAssignment \<Rightarrow> (\<exists>h ps. j_payload r = Some (PAssignment h ps) \<and> distinct (map ps_ID ps)
                  \<and> (\<forall>p\<in>set ps. json_snapshot p = Some p)))"

definition origin_key :: "journalRow \<Rightarrow> string \<times> int" where
  "origin_key r = (j_origin r, j_origin_seq r)"

definition is_result :: "journalRow \<Rightarrow> bool" where
  "is_result r \<longleftrightarrow> j_kind r = KResult"

definition seq_below :: "db \<Rightarrow> journalRow \<Rightarrow> bool" where
  "seq_below d r \<longleftrightarrow> (\<exists>n. map_of (db_sequences d) (j_origin r) = Some n \<and> j_origin_seq r < n)"

definition journal_ok :: "db \<Rightarrow> bool" where
  "journal_ok d \<longleftrightarrow>
     sorted_wrt (<) (map j_seq (db_journal d)) \<and> 0 \<le> db_autoinc d \<and>
     (\<forall>r\<in>set (db_journal d). 0 < j_seq r \<and> j_seq r \<le> db_autoinc d \<and> seq_below d r \<and> row_ok r) \<and>
     distinct (map origin_key (db_journal d)) \<and>
     distinct (map result_key (filter is_result (db_journal d)))"

definition pending_key :: "pendingRow \<Rightarrow> string \<times> string" where
  "pending_key q = (q_probe_id q, q_run_id q)"

definition completed_key :: "completedRow \<Rightarrow> string \<times> string" where
  "completed_key c = (c_probe_id c, c_run_id c)"

definition tables_ok :: "db \<Rightarrow> bool" where
  "tables_ok d \<longleftrightarrow>
     distinct (map pending_key (db_pending d)) \<and> distinct (map completed_key (db_completed d)) \<and>
     distinct (map (\<lambda>p. ps_ID (p_snapshot p)) (db_probes d)) \<and> distinct (map fst (db_rollups d)) \<and>
     distinct (map fst (db_meta d)) \<and> distinct (map fst (db_sequences d))"

text \<open>The event of a queued trigger is in the journal.\<close>

definition trigger_event :: "pendingRow \<Rightarrow> journalRow \<Rightarrow> bool" where
  "trigger_event q r \<longleftrightarrow> j_seq r = q_event_seq q \<and> j_kind r = KTrigger
     \<and> j_probe_id r = Some (q_probe_id q) \<and> j_run_id r = Some (q_run_id q)"

definition backed :: "db \<Rightarrow> bool" where
  "backed d \<longleftrightarrow> (\<forall>q\<in>set (db_pending d). \<exists>r\<in>set (db_journal d). trigger_event q r)"

definition store_ok :: "db \<Rightarrow> bool" where
  "store_ok d \<longleftrightarrow> journal_ok d \<and> tables_ok d \<and> backed d"

lemma store_okI: "journal_ok d \<Longrightarrow> tables_ok d \<Longrightarrow> backed d \<Longrightarrow> store_ok d"
  by (simp add: store_ok_def)

lemma store_okD: "store_ok d \<Longrightarrow> journal_ok d" "store_ok d \<Longrightarrow> tables_ok d" "store_ok d \<Longrightarrow> backed d"
  by (simp_all add: store_ok_def)

section \<open>Row operations\<close>

text \<open>An update in place that keeps what the constraints look at.\<close>

lemma journal_ok_map:
  assumes "journal_ok d"
    and "\<And>r. j_seq (f r) = j_seq r" "\<And>r. j_kind (f r) = j_kind r" "\<And>r. origin_key (f r) = origin_key r"
    and "\<And>r. result_key (f r) = result_key r" "\<And>r. row_ok r \<Longrightarrow> row_ok (f r)"
  shows "journal_ok (d\<lparr>db_journal := map f (db_journal d)\<rparr>)"
proof -
  have "filter is_result (map f xs) = map f (filter is_result xs)" for xs
    by (induction xs) (simp_all add: is_result_def assms(3))
  moreover have "seq_below d (f r) = seq_below d r" for r
    using assms(4) [of r] by (simp add: seq_below_def origin_key_def)
  ultimately show ?thesis
    using assms by (auto simp: journal_ok_def comp_def seq_below_def)
qed

lemma journal_ok_filter:
  assumes "journal_ok d"
  shows "journal_ok (d\<lparr>db_journal := filter P (db_journal d)\<rparr>)"
proof -
  have "distinct (map result_key (filter is_result (filter P (db_journal d))))"
    using assms distinct_map_filter [of result_key "filter is_result (db_journal d)" P]
    by (simp add: journal_ok_def conj_commute)
  then show ?thesis
    using assms by (auto simp: journal_ok_def seq_below_def distinct_map_filter sorted_wrt_filter sorted_wrt_map)
qed

lemma journal_ok_cong:
  "db_journal d' = db_journal d \<Longrightarrow> db_autoinc d' = db_autoinc d \<Longrightarrow> db_sequences d' = db_sequences d
    \<Longrightarrow> journal_ok d' = journal_ok d"
  by (simp add: journal_ok_def seq_below_def)

lemma tables_ok_cong:
  "db_pending d' = db_pending d \<Longrightarrow> db_completed d' = db_completed d \<Longrightarrow> db_probes d' = db_probes d
    \<Longrightarrow> db_rollups d' = db_rollups d \<Longrightarrow> db_meta d' = db_meta d \<Longrightarrow> db_sequences d' = db_sequences d
    \<Longrightarrow> tables_ok d' = tables_ok d"
  by (simp add: tables_ok_def)

lemma nextOriginSeq_total: "0 < n \<Longrightarrow> \<exists>s d'. nextOriginSeq origin n d = Inr (s, d')"
  by (auto simp: nextOriginSeq_def split: option.splits)

text \<open>What a reservation gives: every row of the origin is below it, the counter is past it.\<close>

lemma nextOriginSeq_ok:
  assumes "nextOriginSeq origin n d = Inr (s, d')" "journal_ok d"
  shows "journal_ok d'" "db_journal d' = db_journal d"
    "\<forall>r\<in>set (db_journal d). j_origin r = origin \<longrightarrow> j_origin_seq r < s"
    "map_of (db_sequences d') origin = Some (s + n)" "0 < n"
    "\<exists>v. d' = d\<lparr>db_sequences := AList.update origin v (db_sequences d)\<rparr>"
proof -
  show n: "0 < n" using assms(1) by (auto simp: nextOriginSeq_def split: if_splits)
  show d': "\<exists>v. d' = d\<lparr>db_sequences := AList.update origin v (db_sequences d)\<rparr>"
    using assms(1) by (auto simp: nextOriginSeq_def split: if_splits option.splits)
  then show "db_journal d' = db_journal d" by auto
  show s: "map_of (db_sequences d') origin = Some (s + n)"
    using assms(1) by (auto simp: nextOriginSeq_def split: if_splits option.splits)
  show b: "\<forall>r\<in>set (db_journal d). j_origin r = origin \<longrightarrow> j_origin_seq r < s"
    using assms n by (fastforce simp: nextOriginSeq_def journal_ok_def seq_below_def split: if_splits option.splits)
  have "seq_below d' r" if "r \<in> set (db_journal d)" for r
  proof (cases "j_origin r = origin")
    case True
    with b s n that show ?thesis by (force simp: seq_below_def)
  next
    case False
    with that assms(2) d' show ?thesis by (auto simp: seq_below_def journal_ok_def)
  qed
  with assms(2) d' show "journal_ok d'" by (auto simp: journal_ok_def)
qed

text \<open>Inserting a row with a reserved sequence number, and what its constraint check finds.\<close>

lemma insert_or_ignore_ok:
  assumes "journal_ok d" "\<forall>x\<in>set (db_journal d). j_origin x = j_origin r \<longrightarrow> j_origin_seq x < j_origin_seq r"
    and "seq_below d r" "\<And>s. row_ok (r\<lparr>j_seq := s\<rparr>)"
    and "insert_or_ignore r d = (a, d')"
  shows "journal_ok d'"
    "\<forall>x\<in>set (db_journal d'). j_origin x = j_origin r \<longrightarrow> j_origin_seq x < j_origin_seq r + 1"
    "db_sequences d' = db_sequences d"
    "a = 0 \<longleftrightarrow> is_result r \<and> result_key r \<in> result_key ` set (filter is_result (db_journal d))"
    "d' = d\<lparr>db_autoinc := db_autoinc d', db_journal := db_journal d'\<rparr>"
    "db_journal d' = db_journal d @ (if a = 0 then [] else [r\<lparr>j_seq := db_autoinc d + 1\<rparr>])"
    "a \<noteq> 0 \<longrightarrow> db_autoinc d' = db_autoinc d + 1"
proof -
  have c: "journal_conflict r (db_journal d) \<longleftrightarrow>
      is_result r \<and> result_key r \<in> result_key ` set (filter is_result (db_journal d))"
  proof -
    have "\<not> list_ex (\<lambda>x. j_origin x = j_origin r \<and> j_origin_seq x = j_origin_seq r) (db_journal d)"
      using assms(2) by (auto simp: list_ex_iff)
    moreover have "list_ex (\<lambda>x. j_kind x = KResult \<and> result_key x = result_key r) (db_journal d) \<longleftrightarrow>
        result_key r \<in> result_key ` set (filter is_result (db_journal d))"
      by (simp add: list_ex_iff is_result_def image_iff) metis
    ultimately show ?thesis by (simp add: journal_conflict_def is_result_def)
  qed
  have a: "a = 0 \<longleftrightarrow> journal_conflict r (db_journal d)"
    using assms(5) by (auto simp: insert_or_ignore_def Let_def split: if_splits)
  with c show "a = 0 \<longleftrightarrow> is_result r \<and> result_key r \<in> result_key ` set (filter is_result (db_journal d))"
    by simp
  show j: "db_journal d' = db_journal d @ (if a = 0 then [] else [r\<lparr>j_seq := db_autoinc d + 1\<rparr>])"
    using assms(5) a by (auto simp: insert_or_ignore_def Let_def split: if_splits)
  show "d' = d\<lparr>db_autoinc := db_autoinc d', db_journal := db_journal d'\<rparr>"
    using assms(5) by (cases d) (auto simp: insert_or_ignore_def Let_def split: if_splits)
  show sq: "db_sequences d' = db_sequences d"
    using assms(5) by (auto simp: insert_or_ignore_def Let_def split: if_splits)
  have n: "db_autoinc d' = db_autoinc d + 1"
    using assms(5) by (auto simp: insert_or_ignore_def Let_def split: if_splits)
  then show "a \<noteq> 0 \<longrightarrow> db_autoinc d' = db_autoinc d + 1" by simp
  show "\<forall>x\<in>set (db_journal d'). j_origin x = j_origin r \<longrightarrow> j_origin_seq x < j_origin_seq r + 1"
    using assms(2) j by (auto split: if_splits)
  let ?r = "r\<lparr>j_seq := db_autoinc d + 1\<rparr>"
  have keys: "origin_key ?r = origin_key r" "result_key ?r = result_key r" "is_result ?r = is_result r"
    by (simp_all add: origin_key_def result_key_def is_result_def)
  have "origin_key r \<notin> origin_key ` set (db_journal d)"
    using assms(2) by (force simp: origin_key_def)
  then have o: "distinct (map origin_key (db_journal d'))"
    using assms(1) j keys by (simp add: journal_ok_def)
  have q: "distinct (map result_key (filter is_result (db_journal d')))"
    using assms(1) j a c keys by (auto simp: journal_ok_def)
  have sb: "seq_below d' x = seq_below d x" "seq_below d ?r = seq_below d r" for x
    using sq by (simp_all add: seq_below_def)
  have w: "sorted_wrt (<) (map j_seq (db_journal d'))"
    using assms(1) j by (auto simp: journal_ok_def sorted_wrt_append)
  have "0 < j_seq x \<and> j_seq x \<le> db_autoinc d' \<and> seq_below d' x \<and> row_ok x"
    if "x \<in> set (db_journal d')" for x
  proof (cases "x \<in> set (db_journal d)")
    case True
    with assms(1) n sb(1) [of x] show ?thesis by (auto simp: journal_ok_def)
  next
    case False
    with that j have "x = ?r" by (auto split: if_splits)
    with assms(1,3) assms(4) [of "db_autoinc d + 1"] n sb show ?thesis by (simp add: journal_ok_def)
  qed
  with w o q n assms(1) show "journal_ok d'" by (simp add: journal_ok_def)
qed

text \<open>A control row (one that is not a result) with a number just reserved goes in.\<close>

lemma insert_control:
  assumes "store_ok d" "nextOriginSeq origin 1 d = Inr (s, d1)"
    and "j_origin r = origin" "j_origin_seq r = s" "\<not> is_result r" "\<And>k. row_ok (r\<lparr>j_seq := k\<rparr>)"
  obtains d2 where "insert_journal r d1 = Inr (db_autoinc d + 1, d2)"
    "store_ok d2" "db_journal d2 = db_journal d @ [r\<lparr>j_seq := db_autoinc d + 1\<rparr>]"
    "db_pending d2 = db_pending d" "db_completed d2 = db_completed d" "db_probes d2 = db_probes d"
    "db_meta d2 = db_meta d" "db_rollups d2 = db_rollups d"
proof -
  note n = nextOriginSeq_ok [OF assms(2) store_okD(1) [OF assms(1)]]
  obtain v where d1: "d1 = d\<lparr>db_sequences := AList.update origin v (db_sequences d)\<rparr>" using n(6) by auto
  obtain a d2 where i: "insert_or_ignore r d1 = (a, d2)" by fastforce
  have "seq_below d1 r" using n(4,5) assms(3,4) by (simp add: seq_below_def)
  note ins = insert_or_ignore_ok [OF n(1) _ this assms(6) i]
  have lt: "\<forall>x\<in>set (db_journal d1). j_origin x = j_origin r \<longrightarrow> j_origin_seq x < j_origin_seq r"
    using n(2,3) assms(3,4) by simp
  have a: "a \<noteq> 0" using ins(4) [OF lt] assms(5) by simp
  have d2: "d2 = d1\<lparr>db_autoinc := db_autoinc d2, db_journal := db_journal d2\<rparr>" by (rule ins(5) [OF lt])
  have j: "db_journal d2 = db_journal d @ [r\<lparr>j_seq := db_autoinc d + 1\<rparr>]"
    using ins(6) [OF lt] a d1 by simp
  have au: "db_autoinc d2 = db_autoinc d + 1" using ins(7) [OF lt] a d1 by simp
  have same: "db_pending d2 = db_pending d" "db_completed d2 = db_completed d" "db_probes d2 = db_probes d"
    "db_meta d2 = db_meta d" "db_rollups d2 = db_rollups d"
    "db_sequences d2 = AList.update origin v (db_sequences d)"
    by (subst d2, simp add: d1)+
  have "tables_ok d2" using store_okD(2) [OF assms(1)] same by (simp add: tables_ok_def)
  moreover have "backed d2" using store_okD(3) [OF assms(1)] same j by (auto simp: backed_def)
  ultimately have "store_ok d2" using ins(1) [OF lt] by (simp add: store_ok_def)
  moreover have "insert_journal r d1 = Inr (db_autoinc d + 1, d2)"
    using i a au by (simp add: insert_journal_def)
  ultimately show thesis using that j same(1-5) by blast
qed

section \<open>Results\<close>

lemma row_ok_result_row: "row_ok ((result_row parse origin nowMS oseq w)\<lparr>j_seq := k\<rparr>)"
  by (simp add: row_ok_def result_row_def blank_row_def)

lemma result_row_fields [simp]:
  "j_origin (result_row parse origin nowMS oseq w) = origin"
  "j_origin_seq (result_row parse origin nowMS oseq w) = oseq"
  "j_kind (result_row parse origin nowMS oseq w) = KResult"
  "j_delivery_state (result_row parse origin nowMS oseq w) = 0"
  "result_key (result_row parse origin nowMS oseq w) =
     (origin, Some (wr_RunID w), Some (wr_ProbeID w), Some (clamp_seq (r_Seq (wr_Result w))))"
  by (simp_all add: result_row_def blank_row_def result_key_def)

text \<open>The state between two rows of a batch: the invariant, and the next number is free.\<close>

definition batch_ok :: "string \<Rightarrow> int \<Rightarrow> int \<Rightarrow> db \<Rightarrow> bool" where
  "batch_ok origin oseq upto_seq d \<longleftrightarrow> journal_ok d \<and> map_of (db_sequences d) origin = Some upto_seq \<and>
     (\<forall>x\<in>set (db_journal d). j_origin x = origin \<longrightarrow> j_origin_seq x < oseq)"

definition usable :: "WireResult \<Rightarrow> bool" where
  "usable w \<longleftrightarrow> wr_RunID w \<noteq> [] \<and> wr_ProbeID w \<noteq> []"

definition wire_key :: "string \<Rightarrow> WireResult \<Rightarrow> string \<times> string option \<times> string option \<times> int option" where
  "wire_key origin w =
     (origin, Some (wr_RunID w), Some (wr_ProbeID w), Some (clamp_seq (r_Seq (wr_Result w))))"

definition known :: "db \<Rightarrow> (string \<times> string option \<times> string option \<times> int option) set" where
  "known d = result_key ` set (filter is_result (db_journal d))"

text \<open>One row of a batch, on every branch.\<close>

lemma record_one_ok:
  assumes "batch_ok origin oseq upto_seq d" "oseq < upto_seq"
    and "record_one parse origin nowMS oseq w (su, d) = (su', d')"
  shows "batch_ok origin (oseq + 1) upto_seq d'"
    "db_journal d' = db_journal d @
       (if usable w \<and> wire_key origin w \<notin> known d
        then [(result_row parse origin nowMS oseq w)\<lparr>j_seq := db_autoinc d + 1\<rparr>] else [])"
    "d' = d\<lparr>db_autoinc := db_autoinc d', db_journal := db_journal d'\<rparr>"
    "su_Skipped su' = su_Skipped su + (if usable w then 0 else 1)"
    "su_Inserted su' = su_Inserted su + (if usable w \<and> wire_key origin w \<notin> known d then 1 else 0)"
    "su_Duplicates su' = su_Duplicates su + (if usable w \<and> wire_key origin w \<in> known d then 1 else 0)"
proof -
  let ?r = "result_row parse origin nowMS oseq w"
  obtain a e where i: "insert_or_ignore ?r d = (a, e)" by fastforce
  have "seq_below d ?r" using assms(1,2) by (simp add: batch_ok_def seq_below_def)
  note ins = insert_or_ignore_ok [OF _ _ this row_ok_result_row i]
  have j: "journal_ok d" "\<forall>x\<in>set (db_journal d). j_origin x = j_origin ?r \<longrightarrow> j_origin_seq x < j_origin_seq ?r"
    using assms(1) by (simp_all add: batch_ok_def)
  have a: "a = 0 \<longleftrightarrow> wire_key origin w \<in> known d"
    using ins(4) [OF j] by (simp add: wire_key_def known_def is_result_def)
  have b: "batch_ok origin (oseq + 1) upto_seq e"
    using ins(1-3) [OF j] assms(1) by (simp add: batch_ok_def)
  have u: "\<not> usable w \<longrightarrow> d' = d \<and> su' = su\<lparr>su_Skipped := su_Skipped su + 1\<rparr>"
    and v: "usable w \<longrightarrow> d' = e \<and> su_Skipped su' = su_Skipped su
      \<and> su_Inserted su' = su_Inserted su + (if a = 0 then 0 else 1)
      \<and> su_Duplicates su' = su_Duplicates su + (if a = 0 then 1 else 0)"
    using assms(3) i by (auto simp: record_one_def usable_def Let_def split: if_splits)
  show "batch_ok origin (oseq + 1) upto_seq d'"
    using u v b assms(1) by (cases "usable w") (auto simp: batch_ok_def)
  show "d' = d\<lparr>db_autoinc := db_autoinc d', db_journal := db_journal d'\<rparr>"
    using u v ins(5) [OF j] by (cases "usable w") auto
  show "db_journal d' = db_journal d @
       (if usable w \<and> wire_key origin w \<notin> known d then [?r\<lparr>j_seq := db_autoinc d + 1\<rparr>] else [])"
    using u v ins(6) [OF j] a by (cases "usable w") auto
  show "su_Skipped su' = su_Skipped su + (if usable w then 0 else 1)"
    "su_Inserted su' = su_Inserted su + (if usable w \<and> wire_key origin w \<notin> known d then 1 else 0)"
    "su_Duplicates su' = su_Duplicates su + (if usable w \<and> wire_key origin w \<in> known d then 1 else 0)"
    using u v a by (cases "usable w"; simp)+
qed

lemma record_rows_ok:
  assumes "batch_ok origin oseq upto_seq d" "oseq + int (length ws) \<le> upto_seq"
    and "record_rows parse origin nowMS oseq ws (su, d) = (su', d')"
  shows "journal_ok d' \<and> d' = d\<lparr>db_autoinc := db_autoinc d', db_journal := db_journal d'\<rparr>
    \<and> (\<exists>new. db_journal d' = db_journal d @ new \<and> list_all is_result new
          \<and> result_key ` set new = wire_key origin ` {w \<in> set ws. usable w} - known d)
    \<and> su_Inserted su' + su_Duplicates su' + su_Skipped su'
        = su_Inserted su + su_Duplicates su + su_Skipped su + int (length ws)
    \<and> su_Skipped su' = su_Skipped su + int (length (filter (\<lambda>w. \<not> usable w) ws))
    \<and> su_Inserted su' = su_Inserted su + int (length (db_journal d') - length (db_journal d))"
  using assms
proof (induction ws arbitrary: oseq su d)
  case Nil
  then show ?case by (auto simp: batch_ok_def)
next
  case (Cons w ws)
  obtain su1 d1 where one: "record_one parse origin nowMS oseq w (su, d) = (su1, d1)" by fastforce
  from Cons.prems(2) have "oseq < upto_seq" by simp
  note o = record_one_ok [OF Cons.prems(1) this one]
  have rest: "record_rows parse origin nowMS (oseq + 1) ws (su1, d1) = (su', d')"
    using Cons.prems(3) one by simp
  have upto_seq: "oseq + 1 + int (length ws) \<le> upto_seq" using Cons.prems(2) by simp
  note ih = Cons.IH [OF o(1) upto_seq rest]
  obtain new where new: "db_journal d' = db_journal d1 @ new" "list_all is_result new"
    "result_key ` set new = wire_key origin ` {w \<in> set ws. usable w} - known d1"
    using ih by auto
  let ?fresh = "usable w \<and> wire_key origin w \<notin> known d"
  let ?r = "(result_row parse origin nowMS oseq w)\<lparr>j_seq := db_autoinc d + 1\<rparr>"
  have rk: "result_key ?r = wire_key origin w" "is_result ?r"
    by (simp_all add: result_key_def wire_key_def is_result_def result_row_def blank_row_def)
  have k1: "known d1 = known d \<union> (if ?fresh then {wire_key origin w} else {})"
    using o(2) rk by (auto simp: known_def)
  let ?new = "(if ?fresh then [?r] else []) @ new"
  have "db_journal d' = db_journal d @ ?new" using o(2) new(1) by simp
  moreover have "list_all is_result ?new" using new(2) rk by simp
  moreover have "result_key ` set ?new = wire_key origin ` {x \<in> set (w # ws). usable x} - known d"
    using new(3) k1 rk(1) by (auto split: if_splits)
  moreover have "journal_ok d'" using ih by simp
  moreover have "d' = d\<lparr>db_autoinc := db_autoinc d', db_journal := db_journal d'\<rparr>"
  proof -
    have "d' = d1\<lparr>db_autoinc := db_autoinc d', db_journal := db_journal d'\<rparr>" using ih by simp
    also have "\<dots> = d\<lparr>db_autoinc := db_autoinc d', db_journal := db_journal d'\<rparr>"
      by (subst o(3)) simp
    finally show ?thesis .
  qed
  moreover have "length (db_journal d1) = length (db_journal d) + (if ?fresh then 1 else 0)"
    using o(2) by simp
  ultimately show ?case using ih o(4-6) new(1) by (cases "usable w"; cases "wire_key origin w \<in> known d") auto
qed

lemma RecordResults_cases:
  assumes "store_ok d" "results \<noteq> []"
  obtains start d1 su d' where
    "RecordResults parse origin nowMS results d = Inr (su, d')"
    "nextOriginSeq origin (int (length results)) d = Inr (start, d1)"
    "record_rows parse origin nowMS start results (zeroSummary, d1) = (su, d')"
    "batch_ok origin start (start + int (length results)) d1" "db_journal d1 = db_journal d"
proof -
  from assms(2) have "0 < int (length results)" by simp
  from nextOriginSeq_total [OF this] obtain start d1
    where n: "nextOriginSeq origin (int (length results)) d = Inr (start, d1)" by blast
  note nn = nextOriginSeq_ok [OF n store_okD(1) [OF assms(1)]]
  obtain su d' where r: "record_rows parse origin nowMS start results (zeroSummary, d1) = (su, d')" by fastforce
  have "batch_ok origin start (start + int (length results)) d1"
    using nn by (auto simp: batch_ok_def)
  moreover have "RecordResults parse origin nowMS results d = Inr (su, d')"
    using assms(2) n r by (simp add: RecordResults_def)
  ultimately show thesis using that n r nn(2) by blast
qed

lemma RecordResults_ok [store_inv]:
  assumes "store_ok d" "RecordResults parse origin nowMS results d = Inr (su, d')"
  shows "store_ok d'"
proof (cases "results = []")
  case True
  with assms show ?thesis by (simp add: RecordResults_def)
next
  case False
  obtain start d1 su1 e where r: "RecordResults parse origin nowMS results d = Inr (su1, e)"
    "nextOriginSeq origin (int (length results)) d = Inr (start, d1)"
    "record_rows parse origin nowMS start results (zeroSummary, d1) = (su1, e)"
    "batch_ok origin start (start + int (length results)) d1" "db_journal d1 = db_journal d"
    by (rule RecordResults_cases [OF assms(1) False, of parse origin nowMS])
  have e: "e = d'" using r(1) assms(2) by simp
  note rr = record_rows_ok [OF r(4) order_refl r(3)]
  obtain v where d1: "d1 = d\<lparr>db_sequences := AList.update origin v (db_sequences d)\<rparr>"
    using nextOriginSeq_ok(6) [OF r(2) store_okD(1) [OF assms(1)]] by auto
  have d': "d' = d1\<lparr>db_autoinc := db_autoinc d', db_journal := db_journal d'\<rparr>" using rr e by simp
  have same: "db_pending d' = db_pending d" "db_completed d' = db_completed d" "db_probes d' = db_probes d"
    "db_meta d' = db_meta d" "db_rollups d' = db_rollups d"
    "db_sequences d' = AList.update origin v (db_sequences d)"
    by (subst d', simp add: d1)+
  have "tables_ok d'" using store_okD(2) [OF assms(1)] same by (simp add: tables_ok_def)
  moreover have "backed d'"
    using store_okD(3) [OF assms(1)] same(1) rr r(5) e by (fastforce simp: backed_def)
  ultimately show ?thesis using rr e by (simp add: store_ok_def)
qed

lemma store_ok_map:
  assumes "store_ok d"
    and "\<And>r. j_seq (f r) = j_seq r" "\<And>r. j_kind (f r) = j_kind r" "\<And>r. origin_key (f r) = origin_key r"
    and "\<And>r. result_key (f r) = result_key r" "\<And>r. row_ok r \<Longrightarrow> row_ok (f r)"
  shows "store_ok (d\<lparr>db_journal := map f (db_journal d)\<rparr>)"
proof -
  have "trigger_event q (f r) = trigger_event q r" for q r
    using assms(2,3,5) [of r] by (simp add: trigger_event_def result_key_def)
  then have "backed (d\<lparr>db_journal := map f (db_journal d)\<rparr>)"
    using store_okD(3) [OF assms(1)] by (simp add: backed_def)
  moreover have "tables_ok (d\<lparr>db_journal := map f (db_journal d)\<rparr>)"
    using store_okD(2) [OF assms(1)] by (simp add: tables_ok_def)
  ultimately show ?thesis
    using journal_ok_map [OF store_okD(1) [OF assms(1)] assms(2-6)] by (simp add: store_ok_def)
qed

lemma settle_fields [simp]:
  "j_seq (settle nowMS oc r) = j_seq r" "j_kind (settle nowMS oc r) = j_kind r"
  "origin_key (settle nowMS oc r) = origin_key r" "result_key (settle nowMS oc r) = result_key r"
  by (simp_all add: settle_def origin_key_def result_key_def)

lemma row_ok_settle: "row_ok r \<Longrightarrow> row_ok (settle nowMS oc r)"
  by (simp add: settle_def row_ok_def split: journalKind.splits)

lemma MarkOutcomes_ok [store_inv]: "store_ok d \<Longrightarrow> store_ok (MarkOutcomes nowMS outcomes d)"
proof (induction outcomes arbitrary: d)
  case Nil
  then show ?case by (simp add: MarkOutcomes_def)
next
  case (Cons oc outcomes)
  have "store_ok (d\<lparr>db_journal := map (settle nowMS oc) (db_journal d)\<rparr>)"
    by (rule store_ok_map [OF Cons.prems]) (simp_all add: row_ok_settle)
  with Cons show ?case by (simp add: MarkOutcomes_def)
qed

lemma MarkAttempts_ok [store_inv]: "store_ok d \<Longrightarrow> store_ok (MarkAttempts seqs d)"
proof -
  have "store_ok (d\<lparr>db_journal := map (attempt_row xs) (db_journal d)\<rparr>)" if "store_ok d" for xs d
    by (rule store_ok_map [OF that])
      (simp_all add: attempt_row_def origin_key_def result_key_def row_ok_def split: journalKind.splits)
  then have "store_ok d \<Longrightarrow> store_ok (fold (\<lambda>c d. d\<lparr>db_journal := map (attempt_row c) (db_journal d)\<rparr>) cs d)" for cs d
    by (induction cs arbitrary: d) simp_all
  then show "store_ok d \<Longrightarrow> store_ok (MarkAttempts seqs d)" by (simp add: MarkAttempts_def)
qed

section \<open>Triggers\<close>

lemma drop_pending_ok [store_inv]: "store_ok d \<Longrightarrow> store_ok (drop_pending p x d)"
  by (auto simp: store_ok_def drop_pending_def journal_ok_def seq_below_def tables_ok_def backed_def
      distinct_map_filter)

lemma queueTriggerTx_ok:
  assumes "store_ok d" "queueTriggerTx e s t d = Inr (u, d')"
    and "\<exists>r\<in>set (db_journal d). j_seq r = s \<and> j_kind r = KTrigger
           \<and> j_probe_id r = Some (ps_ID (ev_Probe e)) \<and> j_run_id r = Some (ev_RunID e)"
  shows "store_ok d'"
proof (cases "list_ex (\<lambda>q. q_probe_id q = ps_ID (ev_Probe e) \<and> q_run_id q = ev_RunID e) (db_pending d)")
  case True
  with assms show ?thesis by (auto simp: queueTriggerTx_def split: option.splits)
next
  case False
  then obtain sn where d': "d' = d\<lparr>db_pending := db_pending d @ [\<lparr>q_probe_id = ps_ID (ev_Probe e),
      q_run_id = ev_RunID e, q_event_seq = s, q_created_at_ms = t, q_snapshot_json = Some sn\<rparr>]\<rparr>"
    using assms(2) by (auto simp: queueTriggerTx_def split: option.splits)
  have "journal_ok d' = journal_ok d" by (rule journal_ok_cong) (simp_all add: d')
  moreover have "tables_ok d'"
    using False store_okD(2) [OF assms(1)] by (auto simp: d' tables_ok_def pending_key_def list_ex_iff)
  moreover have "backed d'"
    using store_okD(3) [OF assms(1)] assms(3) by (auto simp: d' backed_def trigger_event_def)
  ultimately show ?thesis using store_okD(1) [OF assms(1)] by (simp add: store_ok_def)
qed

lemma trigger_row_fields [simp]:
  "j_origin (trigger_row origin oseq t e) = origin" "j_origin_seq (trigger_row origin oseq t e) = oseq"
  "j_kind (trigger_row origin oseq t e) = KTrigger" "j_seq (trigger_row origin oseq t e) = 0"
  "j_probe_id (trigger_row origin oseq t e) = Some (ps_ID (ev_Probe e))"
  "j_run_id (trigger_row origin oseq t e) = Some (ev_RunID e)"
  "j_payload (trigger_row origin oseq t e) = Some (PTrigger e)"
  "j_at_ms (trigger_row origin oseq t e) = t"
  by (simp_all add: trigger_row_def blank_row_def)

lemma row_ok_trigger_row:
  "json_snapshot (ev_Probe e) = Some (ev_Probe e) \<Longrightarrow> row_ok ((trigger_row origin oseq t e)\<lparr>j_seq := k\<rparr>)"
  by (simp add: row_ok_def trigger_row_def blank_row_def)

text \<open>A trigger that is well formed, encodable and not seen before is always accepted; the row it
  appends is its event and the queue grows by its entry.\<close>

lemma RecordTrigger_fresh:
  assumes "store_ok d" "ev_EventType e = ''triggered''" "ev_RunID e \<noteq> []" "ps_ID (ev_Probe e) \<noteq> []"
    and "json_event e = Some f" "\<not> triggerAlreadySeenTx (ps_ID (ev_Probe e)) (ev_RunID e) d"
  obtains s d' where "RecordTrigger origin t e d = Inr (True, d')" "store_ok d'"
    "db_journal d' = db_journal d @ [(trigger_row origin s t f)\<lparr>j_seq := db_autoinc d + 1\<rparr>]"
    "db_pending d' = db_pending d @ [\<lparr>q_probe_id = ps_ID (ev_Probe e), q_run_id = ev_RunID e,
       q_event_seq = db_autoinc d + 1, q_created_at_ms = t, q_snapshot_json = Some (ev_Probe f)\<rparr>]"
    "db_completed d' = db_completed d" "db_probes d' = db_probes d" "db_meta d' = db_meta d"
    "db_rollups d' = db_rollups d"
proof -
  obtain s d1 where n: "nextOriginSeq origin 1 d = Inr (s, d1)"
    using nextOriginSeq_total [of 1 origin d] by auto
  have f: "json_snapshot (ev_Probe e) = Some (ev_Probe f)" "ev_RunID f = ev_RunID e"
    "ps_ID (ev_Probe f) = ps_ID (ev_Probe e)"
    using json_event_fields [OF assms(5)] json_snapshot_ID by auto
  have ok: "\<And>k. row_ok ((trigger_row origin s t f)\<lparr>j_seq := k\<rparr>)"
    by (rule row_ok_trigger_row) (rule json_snapshot_idem [OF f(1)])
  obtain d2 where i: "insert_journal (trigger_row origin s t f) d1 = Inr (db_autoinc d + 1, d2)"
    and d2: "store_ok d2" "db_journal d2 = db_journal d @ [(trigger_row origin s t f)\<lparr>j_seq := db_autoinc d + 1\<rparr>]"
      "db_pending d2 = db_pending d" "db_completed d2 = db_completed d" "db_probes d2 = db_probes d"
      "db_meta d2 = db_meta d" "db_rollups d2 = db_rollups d"
    by (rule insert_control [OF assms(1) n, of "trigger_row origin s t f"])
      (auto simp: ok is_result_def)
  have np: "\<not> list_ex (\<lambda>q. q_probe_id q = ps_ID (ev_Probe e) \<and> q_run_id q = ev_RunID e) (db_pending d2)"
    using assms(6) d2(3) by (simp add: triggerAlreadySeenTx_def)
  define d3 where "d3 = d2\<lparr>db_pending := db_pending d2 @ [\<lparr>q_probe_id = ps_ID (ev_Probe e),
    q_run_id = ev_RunID e, q_event_seq = db_autoinc d + 1, q_created_at_ms = t,
    q_snapshot_json = Some (ev_Probe f)\<rparr>]\<rparr>"
  have q: "queueTriggerTx e (db_autoinc d + 1) t d2 = Inr ((), d3)"
    unfolding queueTriggerTx_def d3_def using np f(1) by simp
  have "store_ok d3" by (rule queueTriggerTx_ok [OF d2(1) q]) (use d2(2) f in auto)
  moreover have "RecordTrigger origin t e d = Inr (True, d3)"
    using assms(2-6) n i q by (simp add: RecordTrigger_def)
  ultimately show thesis using that d2 by (simp add: d3_def)
qed

lemma RecordTrigger_seen:
  assumes "ev_EventType e \<noteq> ''triggered'' \<or> ev_RunID e = [] \<or> ps_ID (ev_Probe e) = []
     \<or> json_event e \<noteq> None \<and> triggerAlreadySeenTx (ps_ID (ev_Probe e)) (ev_RunID e) d"
  shows "RecordTrigger origin t e d = Inr (False, d)"
  using assms by (auto simp: RecordTrigger_def split: option.splits)

lemma RecordTrigger_ok [store_inv]:
  assumes "store_ok d" "RecordTrigger origin t e d = Inr (b, d')"
  shows "store_ok d'"
proof (cases "ev_EventType e \<noteq> ''triggered'' \<or> ev_RunID e = [] \<or> ps_ID (ev_Probe e) = []
     \<or> json_event e = None \<or> triggerAlreadySeenTx (ps_ID (ev_Probe e)) (ev_RunID e) d")
  case True
  with assms show ?thesis by (auto simp: RecordTrigger_def split: if_splits option.splits)
next
  case False
  then obtain f where f: "json_event e = Some f" by auto
  show ?thesis
    by (rule RecordTrigger_fresh [OF assms(1) _ _ _ f, of origin t]) (use False assms in auto)
qed

lemma probe_ids_triggered:
  "map ((\<lambda>p. ps_ID (p_snapshot p)) \<circ>
      (\<lambda>pa. if ps_ID (p_snapshot pa) = p then pa\<lparr>p_last_trigger_run_id := x\<rparr> else pa)) rows
    = map (\<lambda>p. ps_ID (p_snapshot p)) rows"
  by (rule map_cong) auto

lemma completeTriggerTx_ok: "store_ok d \<Longrightarrow> store_ok (completeTriggerTx p x t d)"
proof -
  assume "store_ok d"
  then have d: "store_ok (drop_pending p x d)" by (rule drop_pending_ok)
  have "distinct (map completed_key (upsert_completed p x t cs))"
    if "distinct (map completed_key cs)" for cs
  proof (cases "list_ex (\<lambda>c. c_probe_id c = p \<and> c_run_id c = x) cs")
    case True
    have "completed_key (if c_probe_id c = p \<and> c_run_id c = x then c\<lparr>c_completed_at_ms := t\<rparr> else c)
        = completed_key c" for c by (simp add: completed_key_def)
    with True that show ?thesis by (simp add: upsert_completed_def comp_def)
  next
    case False
    with that show ?thesis by (auto simp: upsert_completed_def completed_key_def list_ex_iff)
  qed
  then have "tables_ok (completeTriggerTx p x t d)"
    using store_okD(2) [OF d] by (simp add: completeTriggerTx_def Let_def tables_ok_def probe_ids_triggered)
  moreover have "journal_ok (completeTriggerTx p x t d) = journal_ok (drop_pending p x d)"
    by (rule journal_ok_cong) (simp_all add: completeTriggerTx_def Let_def)
  moreover have "backed (completeTriggerTx p x t d)"
    using store_okD(3) [OF d] by (simp add: completeTriggerTx_def backed_def Let_def)
  ultimately show ?thesis using store_okD(1) [OF d] by (simp add: store_ok_def)
qed

lemma done_row_fields [simp]:
  "j_origin (done_row origin s t p x) = origin" "j_origin_seq (done_row origin s t p x) = s"
  "j_kind (done_row origin s t p x) = KTriggerDone" "j_payload (done_row origin s t p x) = Some (PDone p x)"
  "j_at_ms (done_row origin s t p x) = t"
  by (simp_all add: done_row_def blank_row_def)

lemma row_ok_done_row: "row_ok ((done_row origin s t p x)\<lparr>j_seq := k\<rparr>)"
  by (simp add: row_ok_def done_row_def blank_row_def)

lemma complete_one_total:
  assumes "store_ok d"
  obtains s d1 where "complete_one origin t (p, x) d = Inr ((), completeTriggerTx p x t d1)"
    "store_ok d1" "db_journal d1 = db_journal d @ [(done_row origin s t p x)\<lparr>j_seq := db_autoinc d + 1\<rparr>]"
    "db_pending d1 = db_pending (drop_pending p x d)" "db_completed d1 = db_completed d"
    "db_probes d1 = db_probes d" "db_meta d1 = db_meta d" "db_rollups d1 = db_rollups d"
proof -
  let ?d = "drop_pending p x d"
  have ok: "store_ok ?d" by (rule drop_pending_ok [OF assms])
  have same: "db_autoinc ?d = db_autoinc d" "db_journal ?d = db_journal d" "db_completed ?d = db_completed d"
    "db_probes ?d = db_probes d" "db_meta ?d = db_meta d" "db_rollups ?d = db_rollups d"
    by (simp_all add: drop_pending_def)
  obtain s d0 where n: "nextOriginSeq origin 1 ?d = Inr (s, d0)"
    using nextOriginSeq_total [of 1 origin ?d] by auto
  obtain d1 where i: "insert_journal (done_row origin s t p x) d0 = Inr (db_autoinc ?d + 1, d1)"
    and d1: "store_ok d1" "db_journal d1 = db_journal ?d @ [(done_row origin s t p x)\<lparr>j_seq := db_autoinc ?d + 1\<rparr>]"
      "db_pending d1 = db_pending ?d" "db_completed d1 = db_completed ?d" "db_probes d1 = db_probes ?d"
      "db_meta d1 = db_meta ?d" "db_rollups d1 = db_rollups ?d"
    by (rule insert_control [OF ok n, of "done_row origin s t p x"]) (auto simp: row_ok_done_row is_result_def)
  have "complete_one origin t (p, x) d = Inr ((), completeTriggerTx p x t d1)"
    using n i by (simp add: complete_one_def)
  from that [OF this d1(1) d1(2) [unfolded same] d1(3) d1(4-7) [unfolded same]] show thesis .
qed

lemma CompleteTriggers_ok [store_inv]:
  "store_ok d \<Longrightarrow> \<exists>d'. CompleteTriggers origin t ks d = Inr ((), d') \<and> store_ok d'"
proof (induction ks arbitrary: d)
  case Nil
  then show ?case by simp
next
  case (Cons k ks)
  obtain p x where k: "k = (p, x)" by (cases k)
  obtain s d1 where "complete_one origin t (p, x) d = Inr ((), completeTriggerTx p x t d1)" "store_ok d1"
    by (rule complete_one_total [OF Cons.prems])
  with Cons.IH [OF completeTriggerTx_ok] k show ?case by simp
qed

lemma PendingTriggers_ok [store_inv]: "store_ok d \<Longrightarrow> store_ok (snd (PendingTriggers d))"
proof -
  have "store_ok d \<Longrightarrow> store_ok (fold (\<lambda>q. drop_pending (q_probe_id q) (q_run_id q)) qs d)"
    for qs :: "pendingRow list" and d
    by (induction qs arbitrary: d) (simp_all add: drop_pending_ok)
  then show "store_ok d \<Longrightarrow> store_ok (snd (PendingTriggers d))"
    by (simp add: PendingTriggers_def Let_def)
qed

section \<open>Assignments\<close>

text \<open>The projection tables do not touch the journal.\<close>

lemma store_ok_probes:
  assumes "store_ok d" "distinct (map (\<lambda>p. ps_ID (p_snapshot p)) ps)"
  shows "store_ok (d\<lparr>db_probes := ps\<rparr>)"
proof -
  have "journal_ok (d\<lparr>db_probes := ps\<rparr>) = journal_ok d" by (rule journal_ok_cong) simp_all
  then show ?thesis using assms by (simp add: store_ok_def tables_ok_def backed_def)
qed

lemma store_ok_probes_map:
  assumes "store_ok d" "\<And>r. ps_ID (p_snapshot (f r)) = ps_ID (p_snapshot r)"
  shows "store_ok (d\<lparr>db_probes := map f (db_probes d)\<rparr>)"
proof -
  have "map (\<lambda>p. ps_ID (p_snapshot p)) (map f rows) = map (\<lambda>p. ps_ID (p_snapshot p)) rows" for rows
    by (simp add: assms(2))
  then show ?thesis
    using store_okD(2) [OF assms(1)] by (intro store_ok_probes [OF assms(1)]) (simp only: tables_ok_def)
qed

lemma meta_set_fields [simp]:
  "db_journal (meta_set k v d) = db_journal d" "db_autoinc (meta_set k v d) = db_autoinc d"
  "db_sequences (meta_set k v d) = db_sequences d" "db_probes (meta_set k v d) = db_probes d"
  "db_pending (meta_set k v d) = db_pending d" "db_completed (meta_set k v d) = db_completed d"
  "db_rollups (meta_set k v d) = db_rollups d" "map_of (db_meta (meta_set k v d)) = (map_of (db_meta d))(k \<mapsto> v)"
  by (simp_all add: meta_set_def)

lemma meta_set_ok [store_inv]: "store_ok d \<Longrightarrow> store_ok (meta_set k v d)"
proof -
  assume d: "store_ok d"
  have "journal_ok (meta_set k v d) = journal_ok d" by (rule journal_ok_cong) (simp_all add: meta_set_def)
  with d show ?thesis by (simp add: store_ok_def tables_ok_def backed_def meta_set_def)
qed

text \<open>Inserting probes succeeds exactly when the snapshots encode and their ids are new and
  distinct; the rows are the stored forms in order.\<close>

definition probe_rows :: "bool \<Rightarrow> probeRow list \<Rightarrow> ProbeSnapshot list \<Rightarrow> probeRow list" where
  "probe_rows preserve old stored =
     map (\<lambda>q. \<lparr>p_snapshot = q, p_last_run_at_ms = fst (schedule_of preserve old (ps_ID q)),
              p_last_trigger_run_id = snd (schedule_of preserve old (ps_ID q))\<rparr>) stored"

lemma json_snapshots_Cons:
  "json_snapshots (p # ps) = Some qs \<longleftrightarrow>
     (\<exists>q qs'. qs = q # qs' \<and> json_snapshot p = Some q \<and> json_snapshots ps = Some qs')"
  by (auto simp: json_snapshots_def split: option.splits)

lemma json_snapshots_Nil [simp]: "json_snapshots [] = Some []"
  by (simp add: json_snapshots_def)

lemma json_snapshots_props:
  "json_snapshots ps = Some qs \<Longrightarrow> map ps_ID qs = map ps_ID ps \<and> (\<forall>q\<in>set qs. json_snapshot q = Some q)"
  by (induction ps arbitrary: qs) (auto simp: json_snapshots_Cons json_snapshot_ID json_snapshot_idem)

lemma json_snapshots_id: "(\<forall>p\<in>set ps. json_snapshot p = Some p) \<Longrightarrow> json_snapshots ps = Some ps"
  by (induction ps) (auto simp: json_snapshots_Cons)

lemma insert_probes_total:
  assumes "json_snapshots ps = Some qs" "distinct (map ps_ID ps)"
    and "(\<lambda>p. ps_ID (p_snapshot p)) ` set (db_probes d) \<inter> ps_ID ` set ps = {}"
  shows "insert_probes preserve old ps d
     = Inr ((), d\<lparr>db_probes := db_probes d @ probe_rows preserve old qs\<rparr>)"
  using assms
proof (induction ps arbitrary: qs d)
  case Nil
  then show ?case by (simp add: probe_rows_def)
next
  case (Cons p ps)
  obtain q qs' where q: "qs = q # qs'" "json_snapshot p = Some q" "json_snapshots ps = Some qs'"
    using Cons.prems(1) by (auto simp: json_snapshots_Cons)
  have "\<not> list_ex (\<lambda>r. ps_ID (p_snapshot r) = ps_ID p) (db_probes d)"
    using Cons.prems(3) by (force simp: list_ex_iff)
  moreover have "ps_ID q = ps_ID p" by (rule json_snapshot_ID [OF q(2)])
  ultimately show ?case
    using Cons.prems q Cons.IH [OF q(3)]
    by (auto simp: insert_probe_def probe_rows_def)
qed

lemma insert_probes_Inr:
  "insert_probes preserve old ps d = Inr (u, d') \<Longrightarrow>
     json_snapshots ps \<noteq> None \<and> distinct (map ps_ID ps)
     \<and> (\<lambda>p. ps_ID (p_snapshot p)) ` set (db_probes d) \<inter> ps_ID ` set ps = {}"
proof (induction ps arbitrary: d)
  case Nil
  then show ?case by simp
next
  case (Cons p ps)
  obtain q where q: "json_snapshot p = Some q"
    and n: "\<not> list_ex (\<lambda>r. ps_ID (p_snapshot r) = ps_ID p) (db_probes d)"
    and r: "insert_probes preserve old ps (d\<lparr>db_probes := db_probes d @ [\<lparr>p_snapshot = q,
        p_last_run_at_ms = fst (schedule_of preserve old (ps_ID p)),
        p_last_trigger_run_id = snd (schedule_of preserve old (ps_ID p))\<rparr>]\<rparr>) = Inr (u, d')"
    using Cons.prems by (auto simp: insert_probe_def split: option.splits if_splits)
  from Cons.IH [OF r] json_snapshot_ID [OF q] n show ?case
    by (cases "json_snapshots ps") (auto simp: list_ex_iff json_snapshots_def q)
qed

lemma probe_rows_ids [simp]: "map (\<lambda>p. ps_ID (p_snapshot p)) (probe_rows preserve old qs) = map ps_ID qs"
  by (simp add: probe_rows_def comp_def)

lemma probe_rows_snapshots [simp]: "map p_snapshot (probe_rows preserve old qs) = qs"
  by (simp add: probe_rows_def comp_def)

lemma applyAssignmentTx_total:
  "json_snapshots ps = Some qs \<Longrightarrow> distinct (map ps_ID ps) \<Longrightarrow>
     applyAssignmentTx ps preserve d = Inr ((), d\<lparr>db_probes := probe_rows preserve (db_probes d) qs\<rparr>)"
  by (simp add: applyAssignmentTx_def insert_probes_total)

lemma assignment_row_fields [simp]:
  "j_origin (assignment_row origin s t h ps) = origin" "j_origin_seq (assignment_row origin s t h ps) = s"
  "j_kind (assignment_row origin s t h ps) = KAssignment"
  "j_payload (assignment_row origin s t h ps) = Some (PAssignment h ps)"
  "j_at_ms (assignment_row origin s t h ps) = t"
  by (simp_all add: assignment_row_def blank_row_def)

lemma SaveAssignment_total:
  assumes "store_ok d" "hash \<noteq> []" "json_snapshots ps = Some qs" "distinct (map ps_ID ps)"
  obtains s d1 where
    "SaveAssignment origin t hash ps d =
       Inr ((), meta_set ''probe_hash'' hash (d1\<lparr>db_probes := probe_rows True (db_probes d) qs\<rparr>))"
    "store_ok d1" "db_journal d1 = db_journal d @ [(assignment_row origin s t hash qs)\<lparr>j_seq := db_autoinc d + 1\<rparr>]"
    "db_pending d1 = db_pending d" "db_completed d1 = db_completed d" "db_meta d1 = db_meta d"
proof -
  obtain s d0 where n: "nextOriginSeq origin 1 d = Inr (s, d0)"
    using nextOriginSeq_total [of 1 origin d] by auto
  have ok: "row_ok ((assignment_row origin s t hash qs)\<lparr>j_seq := k\<rparr>)" for k
    using json_snapshots_props [OF assms(3)] assms(4)
    by (simp add: row_ok_def assignment_row_def blank_row_def)
  obtain d1 where i: "insert_journal (assignment_row origin s t hash qs) d0 = Inr (db_autoinc d + 1, d1)"
    and d1: "store_ok d1" "db_journal d1 = db_journal d @ [(assignment_row origin s t hash qs)\<lparr>j_seq := db_autoinc d + 1\<rparr>]"
      "db_pending d1 = db_pending d" "db_completed d1 = db_completed d" "db_probes d1 = db_probes d"
      "db_meta d1 = db_meta d" "db_rollups d1 = db_rollups d"
    by (rule insert_control [OF assms(1) n, of "assignment_row origin s t hash qs"]) (auto simp: ok is_result_def)
  have "SaveAssignment origin t hash ps d =
       Inr ((), meta_set ''probe_hash'' hash (d1\<lparr>db_probes := probe_rows True (db_probes d) qs\<rparr>))"
    using assms(2,3) n i applyAssignmentTx_total [OF assms(3,4), of True d1] d1(5)
    by (simp add: SaveAssignment_def)
  from that [OF this d1(1-4,6)] show thesis .
qed

lemma SaveAssignment_Inr:
  "SaveAssignment origin t hash ps d = Inr (u, d') \<Longrightarrow>
     hash = [] \<and> d' = d \<or> hash \<noteq> [] \<and> json_snapshots ps \<noteq> None \<and> distinct (map ps_ID ps)"
  by (auto simp: SaveAssignment_def bind_tx_Inr applyAssignmentTx_def dest: insert_probes_Inr
      split: if_splits option.splits)

lemma SaveAssignment_ok [store_inv]:
  assumes "store_ok d" "SaveAssignment origin t hash ps d = Inr (u, d')"
  shows "store_ok d'"
proof (cases "hash = []")
  case True
  with assms show ?thesis by (simp add: SaveAssignment_def)
next
  case False
  with SaveAssignment_Inr [OF assms(2)] obtain qs
    where q: "json_snapshots ps = Some qs" "distinct (map ps_ID ps)" by auto
  obtain s d1 where s: "SaveAssignment origin t hash ps d =
       Inr ((), meta_set ''probe_hash'' hash (d1\<lparr>db_probes := probe_rows True (db_probes d) qs\<rparr>))"
    and d1: "store_ok d1"
    by (rule SaveAssignment_total [OF assms(1) False q])
  have "distinct (map ps_ID qs)" using q json_snapshots_props by metis
  then have "store_ok (d1\<lparr>db_probes := probe_rows True (db_probes d) qs\<rparr>)"
    by (intro store_ok_probes [OF d1]) simp
  with s assms(2) show ?thesis by (auto intro: meta_set_ok)
qed

lemma MarkProbesRun_ok [store_inv]: "store_ok d \<Longrightarrow> store_ok (MarkProbesRun ids t d)"
proof -
  have "store_ok d \<Longrightarrow> store_ok (fold (\<lambda>c d. d\<lparr>db_probes := map (mark_run_row ms c) (db_probes d)\<rparr>) cs d)" for ms cs d
    by (induction cs arbitrary: d) (simp_all add: store_ok_probes_map mark_run_row_def)
  then show "store_ok d \<Longrightarrow> store_ok (MarkProbesRun ids t d)" by (simp add: MarkProbesRun_def)
qed

section \<open>Rebuilding\<close>

text \<open>One event of a rebuild on a database whose journal already is the full one.\<close>

lemma rebuild_event_total:
  assumes "store_ok d" "r \<in> set (db_journal d)"
  shows "\<exists>d'. rebuild_event r d = Inr ((), d') \<and> store_ok d' \<and> db_journal d' = db_journal d"
proof -
  have ok: "row_ok r" using assms by (simp add: store_ok_def journal_ok_def)
  show ?thesis
  proof (cases "j_kind r")
    case KResult
    with assms show ?thesis by (simp add: rebuild_event_def)
  next
    case KTrigger
    with ok obtain e where e: "j_payload r = Some (PTrigger e)" "j_probe_id r = Some (ps_ID (ev_Probe e))"
      "j_run_id r = Some (ev_RunID e)" "json_snapshot (ev_Probe e) = Some (ev_Probe e)"
      by (auto simp: row_ok_def)
    obtain d' where q: "queueTriggerTx e (j_seq r) (j_at_ms r) d = Inr ((), d')" "db_journal d' = db_journal d"
      using e(4) by (cases "list_ex (\<lambda>q. q_probe_id q = ps_ID (ev_Probe e) \<and> q_run_id q = ev_RunID e) (db_pending d)")
        (auto simp: queueTriggerTx_def)
    have "store_ok d'" by (rule queueTriggerTx_ok [OF assms(1) q(1)]) (use assms(2) KTrigger e in blast)
    with KTrigger e q show ?thesis by (simp add: rebuild_event_def)
  next
    case KTriggerDone
    with ok obtain p x where e: "j_payload r = Some (PDone p x)" by (auto simp: row_ok_def)
    have "db_journal (completeTriggerTx p x (j_at_ms r) d) = db_journal d"
      by (simp add: completeTriggerTx_def drop_pending_def Let_def)
    with KTriggerDone e assms completeTriggerTx_ok show ?thesis by (simp add: rebuild_event_def)
  next
    case KAssignment
    with ok obtain h ps where e: "j_payload r = Some (PAssignment h ps)" "distinct (map ps_ID ps)"
      "\<forall>p\<in>set ps. json_snapshot p = Some p"
      by (auto simp: row_ok_def)
    have a: "applyAssignmentTx ps False d = Inr ((), d\<lparr>db_probes := probe_rows False (db_probes d) ps\<rparr>)"
      by (rule applyAssignmentTx_total [OF json_snapshots_id [OF e(3)] e(2)])
    have "store_ok (d\<lparr>db_probes := probe_rows False (db_probes d) ps\<rparr>)"
      by (rule store_ok_probes [OF assms(1)]) (simp add: e(2))
    with KAssignment e a meta_set_ok show ?thesis by (simp add: rebuild_event_def)
  qed
qed

lemma rebuild_events_total:
  "store_ok d \<Longrightarrow> set rs \<subseteq> set (db_journal d) \<Longrightarrow>
     \<exists>d'. rebuild_events rs d = Inr ((), d') \<and> store_ok d' \<and> db_journal d' = db_journal d"
proof (induction rs arbitrary: d)
  case Nil
  then show ?case by simp
next
  case (Cons r rs)
  then obtain d1 where d1: "rebuild_event r d = Inr ((), d1)" "store_ok d1" "db_journal d1 = db_journal d"
    using rebuild_event_total [of d r] by auto
  with Cons.IH [of d1] Cons.prems(2) show ?case by auto
qed

lemma clear_projections_ok: "store_ok d \<Longrightarrow> store_ok (clear_projections d)"
proof -
  assume d: "store_ok d"
  have "journal_ok (clear_projections d) = journal_ok d"
    by (rule journal_ok_cong) (simp_all add: clear_projections_def)
  with d show ?thesis by (simp add: store_ok_def tables_ok_def backed_def clear_projections_def)
qed

lemma Rebuild_ok [store_inv]: "store_ok d \<Longrightarrow> \<exists>d'. Rebuild d = Inr ((), d') \<and> store_ok d'"
proof -
  assume d: "store_ok d"
  obtain d1 where d1: "rebuild_events (db_journal d) (clear_projections d) = Inr ((), d1)" "store_ok d1"
    using rebuild_events_total [OF clear_projections_ok [OF d], of "db_journal d"]
    by (auto simp: clear_projections_def)
  have "store_ok (d1\<lparr>db_probes := map (restore_run_time (db_journal d1)) (db_probes d1)\<rparr>)"
    by (rule store_ok_probes_map [OF d1(2)]) (auto simp: restore_run_time_def split: list.splits)
  with d1 show ?thesis by (simp add: Rebuild_def)
qed

section \<open>Maintenance\<close>

text \<open>What maintenance leaves alone: everything but the journal, the rollups, the completion
  memory and the rollup cursor; and of the journal every row that is neither prunable nor an
  assignment superseded by a later one of its origin.\<close>

definition newest :: "db \<Rightarrow> journalRow \<Rightarrow> bool" where
  "newest d r \<longleftrightarrow> (\<forall>x\<in>set (db_journal d). j_kind x = KAssignment \<and> j_origin x = j_origin r \<longrightarrow> j_seq x \<le> j_seq r)"

definition keeps :: "db \<Rightarrow> db \<Rightarrow> bool" where
  "keeps d d' \<longleftrightarrow> store_ok d' \<and> db_pending d' = db_pending d \<and> db_probes d' = db_probes d
     \<and> db_sequences d' = db_sequences d \<and> db_autoinc d' = db_autoinc d
     \<and> set (db_journal d') \<subseteq> set (db_journal d)
     \<and> (\<forall>r\<in>set (db_journal d). \<not> prunable d r \<and> (j_kind r = KAssignment \<longrightarrow> newest d r) \<longrightarrow>
          r \<in> set (db_journal d'))"

lemma prunable_cong: "db_pending d' = db_pending d \<Longrightarrow> prunable d' = prunable d"
  by (simp add: prunable_def fun_eq_iff)

lemma keeps_refl: "store_ok d \<Longrightarrow> keeps d d"
  by (simp add: keeps_def)

lemma keeps_trans:
  assumes "keeps a b" "keeps b c"
  shows "keeps a c"
proof -
  have "prunable b = prunable a" using assms(1) by (intro prunable_cong) (simp add: keeps_def)
  moreover have "newest a r \<Longrightarrow> newest b r" for r using assms(1) by (auto simp: keeps_def newest_def)
  ultimately show ?thesis using assms unfolding keeps_def by (metis subset_trans)
qed

lemma keeps_ok: "keeps d d' \<Longrightarrow> store_ok d'"
  by (simp add: keeps_def)

lemma journal_seq_inj:
  assumes "journal_ok d" "r \<in> set (db_journal d)" "x \<in> set (db_journal d)" "j_seq r = j_seq x"
  shows "r = x"
proof -
  have "distinct (map j_seq (db_journal d))"
    using assms(1) strict_sorted_iff by (auto simp: journal_ok_def)
  with assms(2-4) show ?thesis by (auto simp: distinct_map dest: inj_onD)
qed

text \<open>The rows a chunked delete leaves.\<close>

lemma delete_first_rows:
  assumes "journal_ok d"
  shows "set (db_journal (snd (delete_first n P d)))
    = set (db_journal d) - set (take n (filter P (db_journal d)))"
  using journal_seq_inj [OF assms] set_take_subset [of n "filter P (db_journal d)"]
  by (auto simp: delete_first_def Let_def)

lemma store_ok_filter:
  assumes "store_ok d" "\<And>q r. q \<in> set (db_pending d) \<Longrightarrow> r \<in> set (db_journal d) \<Longrightarrow> trigger_event q r \<Longrightarrow> P r"
  shows "store_ok (d\<lparr>db_journal := filter P (db_journal d)\<rparr>)"
proof -
  have "backed (d\<lparr>db_journal := filter P (db_journal d)\<rparr>)"
    using store_okD(3) [OF assms(1)] assms(2) by (fastforce simp: backed_def)
  then show ?thesis
    using assms(1) journal_ok_filter by (simp add: store_ok_def tables_ok_def)
qed

lemma event_not_prunable: "q \<in> set (db_pending d) \<Longrightarrow> trigger_event q r \<Longrightarrow> \<not> prunable d r"
  by (auto simp: prunable_def trigger_event_def list_ex_iff)

lemma delete_first_keeps:
  assumes "store_ok d" "\<And>r. P r \<Longrightarrow> prunable d r"
  shows "keeps d (snd (delete_first n P d))"
proof -
  let ?v = "set (map j_seq (take n (filter P (db_journal d))))"
  have e: "snd (delete_first n P d) = d\<lparr>db_journal := filter (\<lambda>j. j_seq j \<notin> ?v) (db_journal d)\<rparr>"
    by (simp add: delete_first_def Let_def)
  have keep: "j_seq r \<notin> ?v" if "r \<in> set (db_journal d)" "\<not> prunable d r" for r
  proof
    assume "j_seq r \<in> ?v"
    then obtain x where x: "x \<in> set (take n (filter P (db_journal d)))" "j_seq r = j_seq x" by auto
    then have "x \<in> set (db_journal d)" "P x" using set_take_subset [of n "filter P (db_journal d)"] by auto
    moreover from this x(2) have "r = x"
      using journal_seq_inj [OF store_okD(1) [OF assms(1)] that(1)] by simp
    ultimately show False using that(2) assms(2) by simp
  qed
  have "store_ok (snd (delete_first n P d))"
    unfolding e using keep event_not_prunable by (intro store_ok_filter [OF assms(1)]) blast
  with keep show ?thesis by (simp add: keeps_def e)
qed

lemma retention_loop_keeps: "store_ok d \<Longrightarrow> keeps d (snd (retention_loop cutoff n d))"
proof (induction cutoff n d rule: retention_loop.induct)
  case (1 cutoff n d)
  let ?P = "\<lambda>j. prunable d j \<and> j_at_ms j < cutoff"
  obtain a d' where e: "delete_first pruneChunk ?P d = (a, d')" by fastforce
  have k: "keeps d d'" using delete_first_keeps [OF "1.prems", of ?P pruneChunk] e by simp
  show ?case
  proof (cases "a < pruneChunk")
    case True
    with e k show ?thesis by (simp add: retention_loop.simps [of cutoff n d])
  next
    case False
    with "1.IH" [OF e [symmetric] False keeps_ok [OF k]] e keeps_trans [OF k] show ?thesis
      by (simp add: retention_loop.simps [of cutoff n d])
  qed
qed

lemma keeps_completed: "store_ok d \<Longrightarrow> keeps d (d\<lparr>db_completed := filter P (db_completed d)\<rparr>)"
proof -
  assume d: "store_ok d"
  have "journal_ok (d\<lparr>db_completed := filter P (db_completed d)\<rparr>) = journal_ok d"
    by (rule journal_ok_cong) simp_all
  with d show ?thesis
    by (simp add: keeps_def store_ok_def tables_ok_def backed_def distinct_map_filter)
qed

lemma retention_phase_keeps: "store_ok d \<Longrightarrow> keeps d (snd (retention_phase now ret st d))"
  using retention_loop_keeps [of d] keeps_trans keeps_completed keeps_ok keeps_refl
  by (auto simp: retention_phase_def Let_def split: prod.splits) (metis snd_conv)

lemma fold_max_id: "(\<forall>y\<in>set ys. y \<le> a) \<Longrightarrow> fold max ys (a::int) = a"
  by (induction ys) (auto simp: max_def)

lemma newest_in:
  "r \<in> set (db_journal d) \<Longrightarrow> j_kind r = KAssignment \<Longrightarrow> newest d r \<Longrightarrow> j_seq r \<in> newest_assignments (db_journal d)"
proof -
  assume r: "r \<in> set (db_journal d)" "j_kind r = KAssignment" "newest d r"
  have "fold max (map j_seq (filter (\<lambda>i. j_kind i = KAssignment \<and> j_origin i = j_origin r) (db_journal d))) (j_seq r) = j_seq r"
    using r(3) by (intro fold_max_id) (auto simp: newest_def)
  with r(1,2) show ?thesis unfolding newest_assignments_def by force
qed

lemma collapse_assignments_keeps: "store_ok d \<Longrightarrow> keeps d (snd (collapse_assignments d))"
proof -
  assume d: "store_ok d"
  have "store_ok (snd (collapse_assignments d))"
    unfolding collapse_assignments_def Let_def snd_conv
    by (rule store_ok_filter [OF d]) (auto simp: trigger_event_def)
  then show ?thesis using newest_in [of _ d] by (auto simp: keeps_def collapse_assignments_def Let_def)
qed

lemma drop_oldest_rollups_keeps: "store_ok d \<Longrightarrow> keeps d (snd (drop_oldest_rollups n d))"
proof -
  assume d: "store_ok d"
  have "journal_ok (snd (drop_oldest_rollups n d)) = journal_ok d"
    by (rule journal_ok_cong) (simp_all add: drop_oldest_rollups_def Let_def)
  with d show ?thesis
    by (simp add: keeps_def store_ok_def tables_ok_def backed_def drop_oldest_rollups_def Let_def
        distinct_map_filter)
qed

lemma size_loop_keeps: "store_ok d \<Longrightarrow> keeps d (snd (size_loop n live maxBytes st d))"
proof (induction n arbitrary: st d)
  case 0
  then show ?case by (simp add: keeps_refl)
next
  case (Suc n)
  obtain a d1 where e: "delete_first pruneChunk (prunable d) d = (a, d1)" by fastforce
  have k1: "keeps d d1" using delete_first_keeps [OF Suc.prems, of "prunable d" pruneChunk] e by simp
  obtain b d2 where f: "drop_oldest_rollups pruneChunk d1 = (b, d2)" by fastforce
  have k2: "keeps d d2" using drop_oldest_rollups_keeps [OF keeps_ok [OF k1], of pruneChunk] f keeps_trans [OF k1] by simp
  show ?case
    using Suc.IH [OF keeps_ok [OF k1]] Suc.IH [OF keeps_ok [OF k2]] keeps_trans [OF k1] keeps_trans [OF k2]
      keeps_refl [OF Suc.prems] k2
    by (simp add: e f Let_def)
qed

lemma upsert_rollups_keeps:
  "store_ok d \<Longrightarrow> upsert_rollups ags d = Inr (u, d') \<Longrightarrow>
     keeps d d' \<and> db_meta d' = db_meta d \<and> db_journal d' = db_journal d \<and> db_completed d' = db_completed d"
proof (induction ags d rule: upsert_rollups.induct)
  case (1 d)
  then show ?case by (simp add: keeps_refl)
next
  case (2 key agg rest d)
  have up: "keeps d (d\<lparr>db_rollups := AList.update key v (db_rollups d)\<rparr>)" for v
  proof -
    have "journal_ok (d\<lparr>db_rollups := AList.update key v (db_rollups d)\<rparr>) = journal_ok d"
      by (rule journal_ok_cong) simp_all
    with "2.prems"(1) show ?thesis by (simp add: keeps_def store_ok_def tables_ok_def backed_def)
  qed
  show ?case
  proof (cases "map_of (db_rollups d) key")
    case None
    with "2.IH"(1) [OF None keeps_ok [OF up]] "2.prems"(2) keeps_trans [OF up] show ?thesis by auto
  next
    case (Some old)
    with "2.IH"(2) [OF Some _ keeps_ok [OF up]] "2.prems"(2) keeps_trans [OF up] show ?thesis
      by (auto split: if_splits)
  qed
qed

lemma keeps_meta_set: "store_ok d \<Longrightarrow> keeps d (meta_set k v d)"
  using meta_set_ok by (simp add: keeps_def)

lemma writeRollups_keeps:
  assumes "store_ok d" "writeRollups ags expected nxt d = Inr (u, d')"
  shows "keeps d d'" "db_journal d' = db_journal d" "db_completed d' = db_completed d"
    "map_of (db_meta d') = (map_of (db_meta d))(''rollup_seq'' \<mapsto> Itoa nxt)"
    "metaInt ''rollup_seq'' d = Inr expected"
proof -
  obtain e where e: "upsert_rollups ags d = Inr ((), e)" "d' = meta_set ''rollup_seq'' (Itoa nxt) e"
    and m: "metaInt ''rollup_seq'' d = Inr expected"
    using assms(2) by (auto simp: writeRollups_def bind_tx_Inr split: sum.splits if_splits)
  note u = upsert_rollups_keeps [OF assms(1) e(1)]
  show "keeps d d'" using u e(2) keeps_meta_set [OF keeps_ok] keeps_trans by blast
  show "db_journal d' = db_journal d" "db_completed d' = db_completed d"
    "map_of (db_meta d') = (map_of (db_meta d))(''rollup_seq'' \<mapsto> Itoa nxt)"
    using u e(2) by simp_all
  show "metaInt ''rollup_seq'' d = Inr expected" by (rule m)
qed

text \<open>No other process at work.\<close>

definition quiet :: "nat \<Rightarrow> db \<Rightarrow> db" where
  "quiet i d = d"

lemma rollup_loop_keeps: "store_ok d \<Longrightarrow> keeps d (snd (rollup_loop fuel quiet i after n moves d))"
proof (induction fuel arbitrary: i after n moves d)
  case 0
  then show ?case by (simp add: keeps_refl)
next
  case (Suc fuel)
  obtain ags lst where a: "aggregate_rows (readRollupChunk after d) after = (ags, lst)" by fastforce
  show ?case
  proof (cases "writeRollups ags after lst d")
    case (Inl e)
    with Suc a keeps_refl [OF Suc.prems] show ?thesis
      by (cases e) (auto simp: quiet_def Let_def split: sum.splits)
  next
    case (Inr ud)
    obtain u d1 where ud: "ud = (u, d1)" by (cases ud)
    have k: "keeps d d1" using Inr ud by (intro writeRollups_keeps(1) [OF Suc.prems]) simp
    from Inr ud a Suc.IH [OF keeps_ok [OF k]] keeps_trans [OF k] keeps_refl [OF Suc.prems] show ?thesis
      by (simp add: quiet_def Let_def)
  qed
qed

lemma rollupResults_keeps: "store_ok d \<Longrightarrow> keeps d (snd (rollupResults quiet d))"
  by (simp add: rollupResults_def rollup_loop_keeps keeps_refl split: sum.splits)

lemma Maintain_keeps: "store_ok d \<Longrightarrow> keeps d (snd (Maintain quiet live freelist now opts d))"
proof -
  assume d: "store_ok d"
  obtain x d1 where 1: "rollupResults quiet d = (x, d1)" by fastforce
  have k1: "keeps d d1" using rollupResults_keeps [OF d] 1 by simp
  show ?thesis
  proof (cases x)
    case (Inl e)
    with 1 k1 show ?thesis by (simp add: Maintain_def)
  next
    case (Inr rolled)
    obtain st2 d2 where 2: "retention_phase now (mo_Retention opts)
        (zeroMaintainStats\<lparr>ms_RolledUpResults := rolled\<rparr>) d1 = (st2, d2)" by fastforce
    have k2: "keeps d d2"
      using retention_phase_keeps [OF keeps_ok [OF k1]] 2 keeps_trans [OF k1] by (metis snd_conv)
    obtain n d3 where 3: "collapse_assignments d2 = (n, d3)" by fastforce
    have k3: "keeps d d3"
      using collapse_assignments_keeps [OF keeps_ok [OF k2]] 3 keeps_trans [OF k2] by (metis snd_conv)
    have k4: "keeps d (snd (size_loop m live b st d3))" for m b st
      using size_loop_keeps [OF keeps_ok [OF k3]] keeps_trans [OF k3] by blast
    show ?thesis
      using 1 2 3 Inr k3 k4 by (auto simp: Maintain_def Let_def split: prod.splits) (metis snd_conv)+
  qed
qed

section \<open>The store as a machine\<close>

text \<open>One call of the package's interface. A call that fails leaves the database as it was.\<close>

datatype storeOp =
    OpRecordResults "string \<Rightarrow> gotime option" int "WireResult list"
  | OpMarkOutcomes int "Outcome list"
  | OpMarkAttempts "int list"
  | OpRecordTrigger int Event
  | OpPendingTriggers
  | OpCompleteTriggers int "(string \<times> string) list"
  | OpSaveAssignment int string "ProbeSnapshot list"
  | OpMarkProbesRun "string list" gotime
  | OpRebuild
  | OpMaintain "db \<Rightarrow> int" "nat \<Rightarrow> int" gotime MaintainOptions

definition commit :: "'a tx \<Rightarrow> db \<Rightarrow> db" where
  "commit t d = (case t of Inl e \<Rightarrow> d | Inr (a, d') \<Rightarrow> d')"

definition store_step :: "string \<Rightarrow> storeOp \<Rightarrow> db \<Rightarrow> db" where
  "store_step origin op d =
     (case op of
        OpRecordResults parse nowMS ws \<Rightarrow> commit (RecordResults parse origin nowMS ws d) d
      | OpMarkOutcomes nowMS ocs \<Rightarrow> MarkOutcomes nowMS ocs d
      | OpMarkAttempts seqs \<Rightarrow> MarkAttempts seqs d
      | OpRecordTrigger nowMS e \<Rightarrow> commit (RecordTrigger origin nowMS e d) d
      | OpPendingTriggers \<Rightarrow> snd (PendingTriggers d)
      | OpCompleteTriggers nowMS ks \<Rightarrow> commit (CompleteTriggers origin nowMS ks d) d
      | OpSaveAssignment nowMS h ps \<Rightarrow> commit (SaveAssignment origin nowMS h ps d) d
      | OpMarkProbesRun ids t \<Rightarrow> MarkProbesRun ids t d
      | OpRebuild \<Rightarrow> commit (Rebuild d) d
      | OpMaintain live freelist now opts \<Rightarrow> snd (Maintain quiet live freelist now opts d))"

lemma commit_ok: "store_ok d \<Longrightarrow> (\<And>a d'. t = Inr (a, d') \<Longrightarrow> store_ok d') \<Longrightarrow> store_ok (commit t d)"
  by (auto simp: commit_def split: sum.splits)

lemma fresh_db_ok: "store_ok fresh_db"
  by (simp add: fresh_db_def store_ok_def journal_ok_def tables_ok_def backed_def)

lemma store_step_ok: "store_ok d \<Longrightarrow> store_ok (store_step origin op d)"
proof (cases op)
  case (OpCompleteTriggers nowMS ks)
  assume "store_ok d"
  from CompleteTriggers_ok [OF this, of origin nowMS ks] OpCompleteTriggers show ?thesis
    by (auto simp: store_step_def commit_def)
next
  case OpRebuild
  assume "store_ok d"
  from Rebuild_ok [OF this] OpRebuild show ?thesis by (auto simp: store_step_def commit_def)
qed (auto simp: store_step_def Maintain_keeps [THEN keeps_ok] MarkOutcomes_ok MarkAttempts_ok
      PendingTriggers_ok MarkProbesRun_ok intro: commit_ok RecordResults_ok RecordTrigger_ok SaveAssignment_ok)

interpretation store: invariant_machine fresh_db "store_step origin" store_ok for origin
  by unfold_locales (simp_all add: fresh_db_ok store_step_ok)

end
