(* ===== verification/Store_Results.thy ===== *)
theory Store_Results
  imports Store_Invariant
begin

text \<open>
  Properties of the local store that concern results and assignments: the invariant of every
  reachable database, idempotence of recording, the round trip from a recorded result to the
  delivery queue, settling of outcomes, the round trip of assignments, and the binding of a
  database file to its origin.
\<close>

section \<open>Reachable databases\<close>

text \<open>C19. Whatever calls the node makes, in whatever order and with whatever arguments, the
  database keeps its invariant: rowids strictly increase and are never reused, sequence numbers
  of an origin are unique and below its counter, no result is stored twice, primary keys are
  unique, every payload decodes, and the event of every queued trigger is still in the journal.\<close>

theorem store_always_ok: "store_ok (fold (store_step origin) ops fresh_db)"
  by (rule store.inv_run)

section \<open>Recording\<close>

lemma known_mono: "db_journal d' = db_journal d @ new \<Longrightarrow> known d \<subseteq> known d'"
  by (auto simp: known_def)

lemma record_all_known:
  assumes "store_ok d" "RecordResults parse origin nowMS results d = Inr (su, d')" "results \<noteq> []"
  shows "\<exists>new. db_journal d' = db_journal d @ new \<and> list_all is_result new
      \<and> result_key ` set new = wire_key origin ` {w \<in> set results. usable w} - known d"
    "su_Inserted su + su_Duplicates su + su_Skipped su = int (length results)"
    "su_Skipped su = int (length (filter (\<lambda>w. \<not> usable w) results))"
    "su_Inserted su = int (length (db_journal d') - length (db_journal d))"
proof -
  obtain start d1 su1 e where r: "RecordResults parse origin nowMS results d = Inr (su1, e)"
    "nextOriginSeq origin (int (length results)) d = Inr (start, d1)"
    "record_rows parse origin nowMS start results (zeroSummary, d1) = (su1, e)"
    "batch_ok origin start (start + int (length results)) d1" "db_journal d1 = db_journal d"
    by (rule RecordResults_cases [OF assms(1,3), of parse origin nowMS])
  have e: "su1 = su" "e = d'" using r(1) assms(2) by simp_all
  note rr = record_rows_ok [OF r(4) order_refl r(3)]
  have k: "known d1 = known d" using r(5) by (simp add: known_def)
  show "\<exists>new. db_journal d' = db_journal d @ new \<and> list_all is_result new
      \<and> result_key ` set new = wire_key origin ` {w \<in> set results. usable w} - known d"
    using rr r(5) e k by auto
  show "su_Inserted su + su_Duplicates su + su_Skipped su = int (length results)"
    "su_Skipped su = int (length (filter (\<lambda>w. \<not> usable w) results))"
    "su_Inserted su = int (length (db_journal d') - length (db_journal d))"
    using rr e r(5) by (auto simp: zeroSummary_def)
qed

text \<open>Recording is idempotent: replaying a batch, at any later time, commits, inserts nothing,
  reports every usable result of it as a duplicate and leaves the journal as it was. The counts
  of the first call add up to the batch.\<close>

theorem RecordResults_idempotent:
  assumes "store_ok d" "RecordResults parse origin nowMS results d = Inr (su, d')"
  shows "su_Inserted su + su_Duplicates su + su_Skipped su = int (length results) \<and>
    (\<exists>su' d''. RecordResults parse' origin nowMS' results d' = Inr (su', d'') \<and>
       su_Inserted su' = 0 \<and> su_Duplicates su' = int (length (filter usable results)) \<and>
       db_journal d'' = db_journal d')"
proof (cases "results = []")
  case True
  with assms(2) show ?thesis by (auto simp: RecordResults_def zeroSummary_def)
next
  case False
  note a = record_all_known [OF assms False]
  have ok: "store_ok d'" by (rule RecordResults_ok [OF assms])
  obtain su' d'' where r: "RecordResults parse' origin nowMS' results d' = Inr (su', d'')"
    by (rule RecordResults_cases [OF ok False, of parse' origin nowMS'])
  note b = record_all_known [OF ok r False]
  obtain new where new: "db_journal d' = db_journal d @ new" "list_all is_result new"
    "result_key ` set new = wire_key origin ` {w \<in> set results. usable w} - known d"
    using a(1) by auto
  have "result_key ` set new \<subseteq> known d'"
    using new(1,2) by (auto simp: known_def list_all_iff)
  then have sub: "wire_key origin ` {w \<in> set results. usable w} \<subseteq> known d'"
    using new(3) known_mono [OF new(1)] by blast
  obtain new' where new': "db_journal d'' = db_journal d' @ new'"
    "result_key ` set new' = wire_key origin ` {w \<in> set results. usable w} - known d'"
    using b(1) by auto
  have "result_key ` set new' = {}" unfolding new'(2) using sub by (simp only: Diff_eq_empty_iff)
  with new'(1) have j: "db_journal d'' = db_journal d'" by simp
  then have "su_Inserted su' = 0" using b(4) by simp
  moreover have "length (filter usable results) + length (filter (\<lambda>w. \<not> usable w) results) = length results"
    by (rule sum_length_filter_compl)
  ultimately have "su_Duplicates su' = int (length (filter usable results))" using b(2,3) by linarith
  with a(2) r j \<open>su_Inserted su' = 0\<close> show ?thesis by blast
qed

definition demo_result :: WireResult where
  "demo_result = \<lparr>wr_RunID = ''run-1'', wr_ProbeID = ''p1'',
     wr_Result = result_Ok ''tcp'' ''example.org:443'' 1 1500000 None, wr_ObservedAt = ''''\<rparr>"

definition no_time :: "string \<Rightarrow> gotime option" where
  "no_time s = None"

theorem RecordResults_idempotent_witness:
  "\<exists>su d'. RecordResults no_time ''n1'' 1000 [demo_result, demo_result] fresh_db = Inr (su, d') \<and>
     su_Inserted su = 1 \<and> su_Duplicates su = 1 \<and>
     (\<exists>su' d''. RecordResults no_time ''n1'' 2000 [demo_result, demo_result] d' = Inr (su', d'') \<and>
       su_Inserted su' = 0 \<and> db_journal d'' = db_journal d')"
proof -
  obtain su d' where r: "RecordResults no_time ''n1'' 1000 [demo_result, demo_result] fresh_db = Inr (su, d')"
    by (rule RecordResults_cases [OF fresh_db_ok, of "[demo_result, demo_result]" no_time "''n1''" 1000]) simp_all
  have "map_sum id (\<lambda>(su, d). (su_Inserted su, su_Duplicates su))
      (RecordResults no_time ''n1'' 1000 [demo_result, demo_result] fresh_db) = Inr (1, 1)"
    by code_simp
  with r RecordResults_idempotent [OF fresh_db_ok r, of no_time 2000] show ?thesis by auto
qed

section \<open>From recording to the delivery queue\<close>

text \<open>What a recorded result looks like when it is read back for delivery: the check number is at
  least one, the latency is rounded to microseconds (and absent when it was not a finite
  non-negative number that fits), empty and unencodable extras are absent, other extras are
  JSON values, and the instant is the observed one to the millisecond.\<close>

definition delivery_form ::
  "(string \<Rightarrow> gotime option) \<Rightarrow> (gotime \<Rightarrow> string) \<Rightarrow> int \<Rightarrow> WireResult \<Rightarrow> WireResult" where
  "delivery_form parse format nowMS w =
     w\<lparr>wr_Result := (wr_Result w)\<lparr>r_Skip := False, r_Seq := clamp_seq (r_Seq (wr_Result w)),
         r_LatencyMs := map_option (\<lambda>us. Fin (of_int us / 1000)) (fst (latencyMicros (r_LatencyMs (wr_Result w)))),
         r_Extra := fst (extraJSON (r_Extra (wr_Result w)))\<rparr>,
       wr_ObservedAt := format (UnixMilli (observedAtMS parse (wr_ObservedAt w) nowMS))\<rparr>"

lemma resultFromRow_result_row:
  "resultFromRow format ((result_row parse origin nowMS oseq w)\<lparr>j_seq := k\<rparr>) = delivery_form parse format nowMS w"
  by (cases w, cases "wr_Result w")
    (auto simp: resultFromRow_def result_row_def blank_row_def delivery_form_def opt_string_def opt_int_def
      nullableString_def)

text \<open>The results of a batch that are new: the first occurrence of each unknown key.\<close>

fun fresh_results ::
  "string \<Rightarrow> (string \<times> string option \<times> string option \<times> int option) set \<Rightarrow> WireResult list \<Rightarrow> WireResult list" where
  "fresh_results origin seen [] = []"
| "fresh_results origin seen (w # ws) =
     (if usable w \<and> wire_key origin w \<notin> seen
      then w # fresh_results origin (insert (wire_key origin w) seen) ws
      else fresh_results origin seen ws)"

definition pending_queue :: "(gotime \<Rightarrow> string) \<Rightarrow> string \<Rightarrow> db \<Rightarrow> WireResult list" where
  "pending_queue format origin d = map (resultFromRow format) (filter (is_pending origin) (db_journal d))"

lemma record_rows_queue:
  assumes "batch_ok origin oseq hi d" "oseq + int (length ws) \<le> hi"
    and "record_rows parse origin nowMS oseq ws (su, d) = (su', d')"
  shows "pending_queue format origin d' =
     pending_queue format origin d @ map (delivery_form parse format nowMS) (fresh_results origin (known d) ws)"
  using assms
proof (induction ws arbitrary: oseq su d)
  case Nil
  then show ?case by simp
next
  case (Cons w ws)
  obtain su1 d1 where one: "record_one parse origin nowMS oseq w (su, d) = (su1, d1)" by fastforce
  from Cons.prems(2) have "oseq < hi" by simp
  note o = record_one_ok [OF Cons.prems(1) this one]
  have rest: "record_rows parse origin nowMS (oseq + 1) ws (su1, d1) = (su', d')"
    using Cons.prems(3) one by simp
  have hi: "oseq + 1 + int (length ws) \<le> hi" using Cons.prems(2) by simp
  note ih = Cons.IH [OF o(1) hi rest]
  let ?r = "(result_row parse origin nowMS oseq w)\<lparr>j_seq := db_autoinc d + 1\<rparr>"
  have rk: "result_key ?r = wire_key origin w" "is_result ?r" "is_pending origin ?r"
    by (simp_all add: result_key_def wire_key_def is_result_def is_pending_def result_row_def blank_row_def)
  show ?case
  proof (cases "usable w \<and> wire_key origin w \<notin> known d")
    case True
    have "known d1 = insert (wire_key origin w) (known d)" using o(2) rk True by (simp add: known_def)
    moreover have "pending_queue format origin d1 = pending_queue format origin d @ [delivery_form parse format nowMS w]"
      using o(2) rk(3) True resultFromRow_result_row by (simp add: pending_queue_def)
    ultimately show ?thesis using ih True by simp
  next
    case False
    then have "db_journal d1 = db_journal d" using o(2) by (simp only: if_False append_Nil2 simp_thms)
    then have "known d1 = known d" "pending_queue format origin d1 = pending_queue format origin d"
      by (simp_all add: known_def pending_queue_def)
    with ih False show ?thesis by auto
  qed
qed

text \<open>Nothing that is recorded is lost, reordered or invented on the way to delivery: the
  delivery queue after recording is the queue before followed by the new results of the batch in
  order, each in its delivery form, and \<open>PendingResults\<close> reads that queue from the front.\<close>

theorem RecordResults_PendingResults:
  assumes "store_ok d" "RecordResults parse origin nowMS results d = Inr (su, d')"
    and "0 < limit" "limit \<le> 2000"
  shows "map pr_Result (PendingResults format origin limit d') =
     take (nat limit) (pending_queue format origin d @
       map (delivery_form parse format nowMS) (fresh_results origin (known d) results))"
proof -
  have "pending_queue format origin d' = pending_queue format origin d @
      map (delivery_form parse format nowMS) (fresh_results origin (known d) results)"
  proof (cases "results = []")
    case True
    with assms(2) show ?thesis by (auto simp: RecordResults_def)
  next
    case False
    obtain start d1 su1 e where r: "RecordResults parse origin nowMS results d = Inr (su1, e)"
      "record_rows parse origin nowMS start results (zeroSummary, d1) = (su1, e)"
      "batch_ok origin start (start + int (length results)) d1" "db_journal d1 = db_journal d"
      by (rule RecordResults_cases [OF assms(1) False, of parse origin nowMS])
    have "known d1 = known d" "pending_queue format origin d1 = pending_queue format origin d"
      using r(4) by (simp_all add: known_def pending_queue_def)
    with record_rows_queue [OF r(3) order_refl r(2), of format] r(1) assms(2) show ?thesis by simp
  qed
  moreover have "map pr_Result (PendingResults format origin limit d') = take (nat limit) (pending_queue format origin d')"
    using assms(3,4) by (simp add: PendingResults_def pending_queue_def Let_def take_map comp_def)
  ultimately show ?thesis by simp
qed

theorem RecordResults_PendingResults_witness:
  "\<exists>su d'. RecordResults no_time ''n1'' 1000 [demo_result, demo_result] fresh_db = Inr (su, d') \<and>
     map pr_Result (PendingResults (\<lambda>_. ''T'') ''n1'' 500 d') = [demo_result\<lparr>wr_ObservedAt := ''T''\<rparr>]"
proof -
  obtain su d' where r: "RecordResults no_time ''n1'' 1000 [demo_result, demo_result] fresh_db = Inr (su, d')"
    by (rule RecordResults_cases [OF fresh_db_ok, of "[demo_result, demo_result]" no_time "''n1''" 1000]) simp_all
  have "usable demo_result" "known fresh_db = {}" "pending_queue (\<lambda>_. ''T'') ''n1'' fresh_db = []"
    by (simp_all add: usable_def known_def pending_queue_def fresh_db_def demo_result_def)
  moreover have "delivery_form no_time (\<lambda>_. ''T'') 1000 demo_result = demo_result\<lparr>wr_ObservedAt := ''T''\<rparr>"
    by code_simp
  ultimately show ?thesis using r RecordResults_PendingResults [OF fresh_db_ok r, of 500 "\<lambda>_. ''T''"] by simp
qed

text \<open>A latency that is stored is a non-negative 64-bit number of microseconds and loses at most
  half a microsecond: read back in milliseconds it differs from the measured one by no more than
  1/2000.\<close>

theorem latencyMicros_precise:
  assumes "latencyMicros (Some (Fin r)) = (Some us, okay)"
  shows "okay \<and> 0 \<le> us \<and> us < 2 ^ 63 \<and> \<bar>of_int us / 1000 - r\<bar> \<le> 1 / 2000"
proof -
  have r: "0 \<le> r" and us: "us = \<lfloor>r * 1000 + 1 / 2\<rfloor>" and b: "us < 2 ^ 63" "okay"
    using assms by (auto simp: latencyMicros_def Let_def round_half_up_def split: if_splits)
  have "of_int us \<le> r * 1000 + 1 / 2" "r * 1000 + 1 / 2 < of_int us + 1"
    unfolding us by linarith+
  moreover have "0 \<le> us" using r unfolding us by simp
  ultimately show ?thesis using b by (auto simp: abs_if field_simps)
qed

theorem latencyMicros_precise_witness:
  "True \<and> 0 \<le> (1235 :: int) \<and> (1235 :: int) < 2 ^ 63 \<and> \<bar>of_int 1235 / 1000 - (1.2345 :: rat)\<bar> \<le> 1 / 2000"
proof -
  have "latencyMicros (Some (Fin 1.2345)) = (Some 1235, True)"
    by (simp add: latencyMicros_def Let_def round_half_up_def)
  from latencyMicros_precise [OF this] show ?thesis .
qed

section \<open>Settling\<close>

definition outcome_for :: "Outcome list \<Rightarrow> journalRow \<Rightarrow> Outcome option" where
  "outcome_for ocs r = find (\<lambda>oc. oc_Seq oc \<noteq> 0 \<and> oc_Seq oc = j_seq r) ocs"

definition settled_by :: "int \<Rightarrow> Outcome list \<Rightarrow> journalRow \<Rightarrow> journalRow" where
  "settled_by nowMS ocs r = (case outcome_for ocs r of None \<Rightarrow> r | Some oc \<Rightarrow> settle nowMS oc r)"

lemma settle_other: "oc_Seq oc \<noteq> j_seq r \<Longrightarrow> settle nowMS oc r = r"
  by (simp add: settle_def)

lemma settle_settled: "oc_Seq oc = oc_Seq oc' \<Longrightarrow> settle nowMS oc (settle nowMS oc' r) = settle nowMS oc' r"
  by (simp add: settle_def)

lemma settled_by_Cons:
  "oc_Seq oc \<noteq> 0 \<Longrightarrow> settled_by nowMS ocs (settle nowMS oc r) = settled_by nowMS (oc # ocs) r"
proof (cases "oc_Seq oc = j_seq r")
  case True
  assume "oc_Seq oc \<noteq> 0"
  moreover have "settle nowMS x (settle nowMS oc r) = settle nowMS oc r"
    if "find (\<lambda>oc. oc_Seq oc \<noteq> 0 \<and> oc_Seq oc = j_seq r) ocs = Some x" for x
    using that True by (intro settle_settled) (auto simp: find_Some_iff)
  ultimately show ?thesis using True by (auto simp: settled_by_def outcome_for_def split: option.splits)
next
  case False
  then show ?thesis by (simp add: settled_by_def outcome_for_def settle_other)
qed

lemma MarkOutcomes_journal: "db_journal (MarkOutcomes nowMS ocs d) = map (settled_by nowMS ocs) (db_journal d)"
proof (induction ocs arbitrary: d)
  case Nil
  then show ?case by (simp add: MarkOutcomes_def settled_by_def outcome_for_def)
next
  case (Cons oc ocs)
  show ?case
  proof (cases "oc_Seq oc = 0")
    case True
    then have "settled_by nowMS (oc # ocs) = settled_by nowMS ocs"
      by (simp add: settled_by_def outcome_for_def fun_eq_iff)
    with True Cons.IH [of d] show ?thesis by (simp add: MarkOutcomes_def)
  next
    case False
    with Cons.IH [of "d\<lparr>db_journal := map (settle nowMS oc) (db_journal d)\<rparr>"] settled_by_Cons [OF False]
    show ?thesis by (simp add: MarkOutcomes_def)
  qed
qed

lemma is_pending_settled_by:
  "is_pending origin (settled_by nowMS ocs r) \<longleftrightarrow> is_pending origin r \<and> outcome_for ocs r = None"
  by (auto simp: settled_by_def outcome_for_def is_pending_def settle_def find_Some_iff split: option.splits)

lemma MarkOutcomes_pending_rows:
  "filter (is_pending origin) (db_journal (MarkOutcomes nowMS ocs d)) =
     filter (\<lambda>r. is_pending origin r \<and> outcome_for ocs r = None) (db_journal d)"
proof -
  have "outcome_for ocs r = None \<Longrightarrow> settled_by nowMS ocs r = r" for r by (simp add: settled_by_def)
  then have "filter (is_pending origin) (map (settled_by nowMS ocs) js) =
      filter (\<lambda>r. is_pending origin r \<and> outcome_for ocs r = None) js" for js
    by (induction js) (auto simp: is_pending_settled_by)
  then show ?thesis by (simp add: MarkOutcomes_journal)
qed

text \<open>Settling a posted batch touches exactly the pending results it names, each by the first
  outcome that names it: accepted rows become delivered, rejected rows keep the server's reason,
  a row settled before is never changed again, and the delivery queue afterwards is the queue
  before without the named rows.\<close>

theorem MarkOutcomes_settles:
  "db_journal (MarkOutcomes nowMS ocs d) = map (settled_by nowMS ocs) (db_journal d) \<and>
   (\<forall>r. is_pending origin (settled_by nowMS ocs r) \<longleftrightarrow> is_pending origin r \<and> outcome_for ocs r = None) \<and>
   (\<forall>r. j_delivery_state r \<noteq> 0 \<longrightarrow> settled_by nowMS ocs r = r) \<and>
   pending_queue format origin (MarkOutcomes nowMS ocs d) =
     map (resultFromRow format)
       (filter (\<lambda>r. is_pending origin r \<and> outcome_for ocs r = None) (db_journal d))"
proof -
  have "j_delivery_state r \<noteq> 0 \<Longrightarrow> settled_by nowMS ocs r = r" for r
    by (simp add: settled_by_def settle_def split: option.splits)
  then show ?thesis
    using MarkOutcomes_journal [of nowMS ocs d] MarkOutcomes_pending_rows [of origin nowMS ocs d]
    by (simp add: pending_queue_def is_pending_settled_by)
qed

theorem MarkOutcomes_settles_witness:
  "pending_queue (\<lambda>_. ''T'') ''n1''
     (MarkOutcomes 9 [\<lparr>oc_Seq = 1, oc_Accepted = True, oc_Reason = ''''\<rparr>]
       (fresh_db\<lparr>db_journal := [(result_row no_time ''n1'' 5 1 demo_result)\<lparr>j_seq := 1\<rparr>]\<rparr>)) = []"
  by (subst MarkOutcomes_settles [THEN conjunct2, THEN conjunct2, THEN conjunct2])
    (simp add: outcome_for_def fresh_db_def)

section \<open>Assignments\<close>

lemma sort_key_map: "sort_key f (map g xs) = map g (sort_key (\<lambda>x. f (g x)) xs)"
proof (induction xs)
  case (Cons x xs)
  have "insort_key f (g x) (map g ys) = map g (insort_key (\<lambda>x. f (g x)) x ys)" for ys
    by (induction ys) auto
  with Cons show ?case by simp
qed simp

lemma find_probe_rows:
  "distinct (map ps_ID qs) \<Longrightarrow> q \<in> set qs \<Longrightarrow>
     find (\<lambda>p. ps_ID (p_snapshot p) = ps_ID q) (probe_rows preserve old qs) =
       Some \<lparr>p_snapshot = q, p_last_run_at_ms = fst (schedule_of preserve old (ps_ID q)),
         p_last_trigger_run_id = snd (schedule_of preserve old (ps_ID q))\<rparr>"
  by (induction qs) (auto simp: probe_rows_def image_iff)

text \<open>An assignment survives a restart: after \<open>SaveAssignment\<close> commits, \<open>LoadAssignment\<close> returns
  its hash and its probes in the order of their ids (as decoded from JSON), and every probe that
  was assigned before keeps its last run and its last trigger. The save commits whenever the
  probes encode and have distinct ids.\<close>

theorem SaveAssignment_LoadAssignment:
  assumes "store_ok d" "hash \<noteq> []" "json_snapshots ps = Some qs" "distinct (map ps_ID ps)"
  shows "\<exists>d'. SaveAssignment origin nowMS hash ps d = Inr ((), d') \<and>
     LoadAssignment d' = (hash, sort_key ps_ID qs) \<and>
     (\<forall>i \<in> ps_ID ` set ps. schedule_of True (db_probes d') i = schedule_of True (db_probes d) i)"
proof -
  obtain s d1 where s: "SaveAssignment origin nowMS hash ps d =
      Inr ((), meta_set ''probe_hash'' hash (d1\<lparr>db_probes := probe_rows True (db_probes d) qs\<rparr>))"
    by (rule SaveAssignment_total [OF assms])
  let ?d = "meta_set ''probe_hash'' hash (d1\<lparr>db_probes := probe_rows True (db_probes d) qs\<rparr>)"
  have ids: "map ps_ID qs = map ps_ID ps" using json_snapshots_props [OF assms(3)] by simp
  have "sort_key ps_ID (map p_snapshot (probe_rows True (db_probes d) qs)) =
      map p_snapshot (sort_key (\<lambda>p. ps_ID (p_snapshot p)) (probe_rows True (db_probes d) qs))"
    by (rule sort_key_map)
  then have "LoadAssignment ?d = (hash, sort_key ps_ID qs)"
    by (simp add: LoadAssignment_def LoadProbeStates_def comp_def opt_string_def)
  moreover have "schedule_of True (db_probes ?d) i = schedule_of True (db_probes d) i"
    if i: "i \<in> ps_ID ` set ps" for i
  proof -
    have "ps_ID ` set ps = ps_ID ` set qs" using ids by (metis set_map)
    with i obtain q where q: "q \<in> set qs" "i = ps_ID q" by auto
    have "distinct (map ps_ID qs)" using ids assms(4) by simp
    from find_probe_rows [OF this q(1), of True "db_probes d"] q(2)
    show ?thesis by (simp add: schedule_of_def [of True "probe_rows _ _ _"])
  qed
  ultimately show ?thesis using s by blast
qed

definition store_probe :: "string \<Rightarrow> ProbeSnapshot" where
  "store_probe i = \<lparr>ps_ID = i, ps_Target = ''t'', ps_Prober = ''tcp'', ps_ProbeCount = 1, ps_TimeoutMs = 1000,
     ps_ScheduleType = ''interval'', ps_IntervalSeconds = 60, ps_StartsAt = 0, ps_EndsAt = 0,
     ps_Params = [(''port'', GInt 443)], ps_Status = ''active''\<rparr>"

theorem SaveAssignment_LoadAssignment_witness:
  "\<exists>d'. SaveAssignment ''n1'' 5 ''h1'' [store_probe ''b'', store_probe ''a''] fresh_db = Inr ((), d') \<and>
     fst (LoadAssignment d') = ''h1'' \<and> map ps_ID (snd (LoadAssignment d')) = [''a'', ''b'']"
proof -
  let ?q = "\<lambda>i. (store_probe i)\<lparr>ps_Params := [(''port'', GFloat (Fin 443))]\<rparr>"
  have j: "json_snapshots [store_probe ''b'', store_probe ''a''] = Some [?q ''b'', ?q ''a'']"
    by (simp add: json_snapshots_def json_snapshot_def json_map_def store_probe_def)
  have "map ps_ID (sort_key ps_ID [?q ''b'', ?q ''a'']) = [''a'', ''b'']"
    by (simp add: store_probe_def)
  with SaveAssignment_LoadAssignment [OF fresh_db_ok _ j, of "''h1''" "''n1''" 5] show ?thesis
    by (auto simp: store_probe_def)
qed

section \<open>Opening\<close>

text \<open>A database file belongs to one node: once opened for an origin, opening it again for that
  origin (or for none) succeeds with the same origin and changes nothing, and opening it for
  any other origin is refused.\<close>

theorem Open_binds_origin:
  assumes "Open nowMS path sync origin d = Inr (o1, d')" "TrimSpace path \<noteq> []"
    "syn = ''normal'' \<or> syn = ''full''"
  shows "Open nowMS' path syn [] d' = Inr (o1, d') \<and> Open nowMS' path syn o1 d' = Inr (o1, d') \<and>
    (\<forall>other. other \<noteq> [] \<and> other \<noteq> o1 \<longrightarrow> Open nowMS' path syn other d' = Inl (OriginMismatch o1 other))"
proof -
  obtain d1 where i: "initSchema d = Inr ((), d1)" and m: "initMeta nowMS origin d1 = Inr (o1, d')"
    using assms(1) by (auto simp: Open_def Let_def bind_tx_Inr split: if_splits)
  have v: "db_user_version d1 = schemaVersion"
    using i by (auto simp: initSchema_def migrateV1ToV2_def split: if_splits)
  have d': "db_user_version d' = schemaVersion" "map_of (db_meta d') ''origin'' = Some o1"
    using m v by (auto simp: initMeta_def meta_set_def split: option.splits if_splits)
  have syn: "ToLower (TrimSpace syn) = syn" "syn \<noteq> []"
    using assms(3) by (auto simp: ToLower_def lower_char_def TrimSpace_def is_space_def)
  have "d' \<noteq> fresh_db" using d'(2) by (auto simp: fresh_db_def)
  then have "Open nowMS' path syn other d' = initMeta nowMS' other d'" for other
    using assms(2,3) syn d'(1) by (auto simp: Open_def Let_def initSchema_def)
  with d'(2) show ?thesis by (simp add: initMeta_def)
qed

theorem Open_binds_origin_witness:
  "\<exists>d'. Open 1 ''/var/db'' '''' ''n1'' fresh_db = Inr (''n1'', d') \<and>
     Open 2 ''/var/db'' ''full'' ''n2'' d' = Inl (OriginMismatch ''n1'' ''n2'')"
proof -
  obtain d' where o: "Open 1 ''/var/db'' '''' ''n1'' fresh_db = Inr (''n1'', d')"
    by (auto simp: Open_def Let_def initSchema_def fresh_db_def schemaVersion_def initMeta_def meta_set_def
        TrimSpace_def is_space_def ToLower_def lower_char_def)
  have p: "TrimSpace ''/var/db'' \<noteq> []" by code_simp
  have "Open 2 ''/var/db'' ''full'' ''n2'' d' = Inl (OriginMismatch ''n1'' ''n2'')"
    using Open_binds_origin [OF o p, of "''full''" 2] by simp
  with o show ?thesis by blast
qed

end
