(* ===== verification/Node_Health.thy ===== *)
theory Node_Health
  imports Wire
begin

text \<open>
  What the agent knows about itself: the server clock estimate (\<^verbatim>\<open>clock.go\<close>), the rolling path
  health window (\<^verbatim>\<open>pathhealth.go\<close>), resource sampling with its hysteresis (\<^verbatim>\<open>health.go\<close>), the
  memory-derived defaults (\<^verbatim>\<open>resources.go\<close>), the cached binding self-test (\<^verbatim>\<open>bindmonitor.go\<close>)
  and the spelling of the domain strategy (\<^verbatim>\<open>domain.go\<close>). Readings of the operating system
  (files, counters, the wall clock) are arguments.
\<close>

section \<open>Clock\<close>

record clockSync =
  ck_offset :: duration

definition clock_update :: "clockSync \<Rightarrow> gotime \<Rightarrow> gotime \<Rightarrow> gotime \<Rightarrow> clockSync" where
  "clock_update s serverTime sentAt receivedAt =
     (let midpoint = time_add sentAt (go_div (time_sub receivedAt sentAt) 2)
      in s\<lparr>ck_offset := time_sub serverTime midpoint\<rparr>)"

definition clock_now :: "clockSync \<Rightarrow> gotime \<Rightarrow> gotime" where
  "clock_now s localNow = time_add localNow (ck_offset s)"

section \<open>Path health\<close>

definition pathHealthWindow :: duration where "pathHealthWindow = 60 * second"
definition pathMinTargets :: nat where "pathMinTargets = 5"
definition pathNetworkRatio :: rat where "pathNetworkRatio = 7 / 10"
definition pathMaxTrackedHosts :: nat where "pathMaxTrackedHosts = 4096"

record pathHealth =
  ph_windowStart :: gotime
  ph_total :: int
  ph_networkErrors :: int
  ph_targets :: "string list"

definition newPathHealth :: pathHealth where
  "newPathHealth = \<lparr>ph_windowStart = time_zero, ph_total = 0, ph_networkErrors = 0, ph_targets = []\<rparr>"

definition resetLocked :: "pathHealth \<Rightarrow> gotime \<Rightarrow> pathHealth" where
  "resetLocked p now =
     (if IsZero (ph_windowStart p) \<or> time_sub now (ph_windowStart p) \<ge> pathHealthWindow
      then \<lparr>ph_windowStart = now, ph_total = 0, ph_networkErrors = 0, ph_targets = []\<rparr> else p)"

definition network_markers :: "string list" where
  "network_markers = [''timeout'', ''deadline exceeded'', ''connection refused'',
     ''connection reset'', ''no such host'', ''network is unreachable'', ''network is down'',
     ''i/o timeout'', ''dial tcp'', ''dial udp'', ''connect: '', ''read: '', ''write: '', ''eof'']"

definition isNetworkError :: "string \<Rightarrow> string \<Rightarrow> bool" where
  "isNetworkError errText errCode =
     (if errCode = ''invalid_params'' \<or> errText = [] then False
      else list_ex (Contains (ToLower errText)) network_markers)"

definition path_record :: "pathHealth \<Rightarrow> string \<Rightarrow> string \<Rightarrow> string \<Rightarrow> gotime \<Rightarrow> pathHealth" where
  "path_record p target errText errCode t =
     (if errCode = ''invalid_params'' then p
      else (let p = resetLocked p t;
                p = p\<lparr>ph_total := ph_total p + 1\<rparr>;
                p = (if target \<noteq> [] \<and> length (ph_targets p) < pathMaxTrackedHosts
                     then p\<lparr>ph_targets := List.insert target (ph_targets p)\<rparr> else p)
            in if isNetworkError errText errCode
               then p\<lparr>ph_networkErrors := ph_networkErrors p + 1\<rparr> else p))"

definition path_state :: "pathHealth \<Rightarrow> gotime \<Rightarrow> string \<times> pathHealth" where
  "path_state p now =
     (let p = resetLocked p now in
      if length (ph_targets p) \<ge> pathMinTargets \<and> ph_total p > 0
         \<and> of_int (ph_networkErrors p) / of_int (ph_total p) \<ge> pathNetworkRatio
      then (''degraded'', p) else (''ok'', p))"

section \<open>Resource sampling\<close>

text \<open>\<open>hysteresis active streak high low\<close>\<close>

definition hysteresis :: "bool \<Rightarrow> int \<Rightarrow> bool \<Rightarrow> bool \<Rightarrow> bool \<times> int" where
  "hysteresis active streak high low =
     (if high then (let streak = (if streak < 0 then 1 else streak + 1)
                    in (active \<or> streak \<ge> 2, streak))
      else if low then (let streak = (if streak > 0 then -1 else streak - 1)
                        in if streak \<le> -2 then (False, 0) else (active, streak))
      else (active, streak))"

text \<open>One reading of the operating system; \<^const>\<open>None\<close> where the query failed.\<close>

record cpuTimes =
  ct_User :: rat
  ct_System :: rat
  ct_Idle :: rat
  ct_Nice :: rat
  ct_Iowait :: rat
  ct_Irq :: rat
  ct_Softirq :: rat
  ct_Steal :: rat

record osReading =
  os_NumCPU :: int
  os_NumGoroutine :: int
  os_UsedPercent :: "rat option"
  os_Load1 :: "rat option"
  os_RSS :: "int option"
  os_Times :: "cpuTimes list option"

record healthSampler =
  hs_started :: gotime
  hs_lastSample :: gotime
  hs_resource :: NodeHealth
  hs_prevCPUTotal :: rat
  hs_prevCPUSteal :: rat
  hs_lastRTT :: duration
  hs_failures :: int
  hs_memHot :: bool
  hs_loadHot :: bool
  hs_stealHot :: bool
  hs_memStreak :: int
  hs_loadStreak :: int
  hs_stealStreak :: int

definition zeroHealth :: NodeHealth where
  "zeroHealth = \<lparr>nh_RSSBytes = 0, nh_MemUsedPct = 0, nh_Load1 = 0, nh_CPUCount = 0,
     nh_CPUStealPct = 0, nh_Goroutines = 0, nh_HeartbeatRTTMs = 0, nh_ConsecutiveFailures = 0,
     nh_DeferredJobs = 0, nh_UptimeSeconds = 0, nh_Pressure = [], nh_Path = [], nh_SourceIP = [],
     nh_BindInterface = [], nh_BindError = []\<rparr>"

definition newHealthSampler :: "gotime \<Rightarrow> healthSampler" where
  "newHealthSampler now = \<lparr>hs_started = now, hs_lastSample = time_zero, hs_resource = zeroHealth,
     hs_prevCPUTotal = 0, hs_prevCPUSteal = 0, hs_lastRTT = 0, hs_failures = 0,
     hs_memHot = False, hs_loadHot = False, hs_stealHot = False,
     hs_memStreak = 0, hs_loadStreak = 0, hs_stealStreak = 0\<rparr>"

definition noteHeartbeat :: "healthSampler \<Rightarrow> duration \<Rightarrow> bool \<Rightarrow> healthSampler" where
  "noteHeartbeat s d ok =
     (if ok then s\<lparr>hs_lastRTT := d, hs_failures := 0\<rparr>
      else s\<lparr>hs_failures := hs_failures s + 1\<rparr>)"

definition opt_set :: "('a \<Rightarrow> 'b \<Rightarrow> 'b) \<Rightarrow> 'a option \<Rightarrow> 'b \<Rightarrow> 'b" where
  "opt_set f x s = (case x of None \<Rightarrow> s | Some v \<Rightarrow> f v s)"

definition sample_steal :: "cpuTimes list option \<Rightarrow> healthSampler \<Rightarrow> healthSampler" where
  "sample_steal ts s =
     (case ts of
        Some (t # _) \<Rightarrow>
          (let total = ct_User t + ct_System t + ct_Idle t + ct_Nice t + ct_Iowait t + ct_Irq t
                       + ct_Softirq t + ct_Steal t;
               totalDelta = total - hs_prevCPUTotal s;
               stealDelta = ct_Steal t - hs_prevCPUSteal s;
               pct = stealDelta / totalDelta * 100;
               pct = (if pct < 0 then 0 else pct);
               pct = (if pct > 100 then 100 else pct);
               s = (if hs_prevCPUTotal s > 0 \<and> totalDelta > 0
                    then s\<lparr>hs_resource := (hs_resource s)\<lparr>nh_CPUStealPct := pct\<rparr>\<rparr> else s)
           in s\<lparr>hs_prevCPUTotal := total, hs_prevCPUSteal := ct_Steal t\<rparr>)
      | _ \<Rightarrow> s)"

definition pressure_of :: "bool \<Rightarrow> bool \<Rightarrow> bool \<Rightarrow> string" where
  "pressure_of memHot loadHot stealHot =
     (if memHot \<and> (loadHot \<or> stealHot) \<or> loadHot \<and> stealHot then ''mixed''
      else if memHot then ''memory''
      else if loadHot then ''load''
      else if stealHot then ''steal''
      else ''ok'')"

definition sampleLocked :: "healthSampler \<Rightarrow> osReading \<Rightarrow> gotime \<Rightarrow> healthSampler" where
  "sampleLocked s r now =
     (let s = s\<lparr>hs_lastSample := now, hs_resource := (hs_resource s)
                 \<lparr>nh_CPUCount := os_NumCPU r, nh_Goroutines := os_NumGoroutine r\<rparr>\<rparr>;
          s = opt_set (\<lambda>v s. s\<lparr>hs_resource := (hs_resource s)\<lparr>nh_MemUsedPct := v\<rparr>\<rparr>) (os_UsedPercent r) s;
          s = opt_set (\<lambda>v s. s\<lparr>hs_resource := (hs_resource s)\<lparr>nh_Load1 := v\<rparr>\<rparr>) (os_Load1 r) s;
          s = opt_set (\<lambda>v s. s\<lparr>hs_resource := (hs_resource s)\<lparr>nh_RSSBytes := v\<rparr>\<rparr>) (os_RSS r) s;
          s = sample_steal (os_Times r) s;
          cpuCount = (if of_int (nh_CPUCount (hs_resource s)) < (1::rat) then 1
                      else of_int (nh_CPUCount (hs_resource s)));
          mem = nh_MemUsedPct (hs_resource s);
          load = nh_Load1 (hs_resource s);
          steal = nh_CPUStealPct (hs_resource s);
          (memHot, memStreak) = hysteresis (hs_memHot s) (hs_memStreak s) (mem \<ge> 92) (mem \<le> 85);
          (loadHot, loadStreak) = hysteresis (hs_loadHot s) (hs_loadStreak s)
             (load > cpuCount * 2) (load \<le> cpuCount * (3 / 2));
          (stealHot, stealStreak) = hysteresis (hs_stealHot s) (hs_stealStreak s)
             (steal \<ge> 30) (steal \<le> 15)
      in s\<lparr>hs_memHot := memHot, hs_memStreak := memStreak, hs_loadHot := loadHot,
           hs_loadStreak := loadStreak, hs_stealHot := stealHot, hs_stealStreak := stealStreak,
           hs_resource := (hs_resource s)\<lparr>nh_Pressure := pressure_of memHot loadHot stealHot\<rparr>\<rparr>)"

definition healthSampleInterval :: duration where "healthSampleInterval = 30 * second"

definition health_snapshot ::
  "healthSampler \<Rightarrow> osReading \<Rightarrow> gotime \<Rightarrow> string \<Rightarrow> int \<Rightarrow> NodeHealth \<times> healthSampler" where
  "health_snapshot s r now pathState deferredJobs =
     (let s = (if IsZero (hs_lastSample s) \<or> time_sub now (hs_lastSample s) \<ge> healthSampleInterval
               then sampleLocked s r now else s);
          rtt = of_int (hs_lastRTT s) / of_int millisecond;
          up = of_int (time_sub now (hs_started s)) / of_int second
      in ((hs_resource s)\<lparr>
            nh_HeartbeatRTTMs := (if rtt > 600000 then 600000 else rtt),
            nh_ConsecutiveFailures := (if hs_failures s > 1000000 then 1000000 else hs_failures s),
            nh_DeferredJobs := (if deferredJobs > 1000000 then 1000000 else deferredJobs),
            nh_Path := pathState,
            nh_UptimeSeconds := (if up < 0 then 0 else up)\<rparr>, s))"

section \<open>Memory-derived defaults\<close>

definition mib32 :: int where "mib32 = 32 * 1048576"

definition autoConcurrency :: "int \<Rightarrow> int" where
  "autoConcurrency available =
     (if available \<le> 0 then 8
      else (let mb = go_div available mib32 in
            if mb < 4 then 4 else if mb > 64 then 64 else mb))"

definition autoMemoryLimit :: "int \<Rightarrow> int" where
  "autoMemoryLimit available =
     (if available \<le> 0 then 0
      else (let limit = go_div (i64 (available * 65)) 100;
                limit = (if limit < mib32 then mib32 else limit)
            in if limit > available then available else limit))"

text \<open>The files the memory probes read are a function from paths to contents.\<close>

definition readCgroupInt :: "(string \<Rightarrow> string option) \<Rightarrow> string \<Rightarrow> int option" where
  "readCgroupInt fs path =
     (case fs path of
        None \<Rightarrow> None
      | Some data \<Rightarrow> (let value = TrimSpace data in
          if value = ''max'' then Some 0 else ParseInt64 value))"

text \<open>\<^verbatim>\<open>strings.SplitN(line, ":", 3)\<close> with exactly three parts.\<close>

definition split3 :: "string \<Rightarrow> (string \<times> string \<times> string) option" where
  "split3 line = (case Cut line (CHR '':'') of
      (a, rest, True) \<Rightarrow> (case Cut rest (CHR '':'') of
          (b, c, True) \<Rightarrow> Some (a, b, c)
        | _ \<Rightarrow> None)
    | _ \<Rightarrow> None)"

fun cgroup_scan :: "(string \<Rightarrow> string option) \<Rightarrow> string list \<Rightarrow> (int \<times> int) option" where
  "cgroup_scan fs [] = None"
| "cgroup_scan fs (line # ls) =
     (case split3 line of
        Some (a, b, c) \<Rightarrow>
          if a \<noteq> ''0'' \<or> b \<noteq> [] then cgroup_scan fs ls
          else (let base = ''/sys/fs/cgroup'' @ TrimSpace c in
                case (readCgroupInt fs (base @ ''/memory.max''),
                      readCgroupInt fs (base @ ''/memory.current'')) of
                  (Some maxBytes, Some currentBytes) \<Rightarrow>
                    if maxBytes \<le> 0 then None else Some (maxBytes, currentBytes)
                | _ \<Rightarrow> None)
      | None \<Rightarrow> cgroup_scan fs ls)"

definition cgroupMemoryV2 :: "(string \<Rightarrow> string option) \<Rightarrow> (int \<times> int) option" where
  "cgroupMemoryV2 fs =
     (case fs ''/proc/self/cgroup'' of
        None \<Rightarrow> None
      | Some data \<Rightarrow> cgroup_scan fs (SplitOn (CHR ''\<newline>'') data))"

text \<open>\<^verbatim>\<open>strings.Fields\<close>: the maximal runs of non-space bytes.\<close>

definition Fields :: "string \<Rightarrow> string list" where
  "Fields s = filter (\<lambda>w. w \<noteq> []) (SplitOn (CHR '' '') (map (\<lambda>c. if is_space c then CHR '' '' else c) s))"

fun meminfo_scan :: "string list \<Rightarrow> int option" where
  "meminfo_scan [] = None"
| "meminfo_scan (line # ls) =
     (case Fields line of
        f0 # f1 # _ \<Rightarrow>
          if f0 \<noteq> ''MemAvailable:'' then meminfo_scan ls
          else (case ParseInt64 f1 of
                  Some kb \<Rightarrow> if kb > 0 then Some (i64 (kb * 1024)) else meminfo_scan ls
                | None \<Rightarrow> meminfo_scan ls)
      | _ \<Rightarrow> meminfo_scan ls)"

definition procMemAvailable :: "(string \<Rightarrow> string option) \<Rightarrow> int option" where
  "procMemAvailable fs =
     (case fs ''/proc/meminfo'' of
        None \<Rightarrow> None
      | Some data \<Rightarrow> meminfo_scan (SplitOn (CHR ''\<newline>'') data))"

definition availableMemoryBytes :: "(string \<Rightarrow> string option) \<Rightarrow> int option \<Rightarrow> int" where
  "availableMemoryBytes fs vmAvailable =
     (case cgroupMemoryV2 fs of
        Some (limit, current) \<Rightarrow> if limit > current then i64 (limit - current) else limit
      | None \<Rightarrow>
          (case procMemAvailable fs of
             Some available \<Rightarrow> available
           | None \<Rightarrow> (case vmAvailable of
               Some v \<Rightarrow> if v > 0 then i64 v else 0
             | None \<Rightarrow> 0)))"

section \<open>Binding monitor\<close>

definition bindCheckInterval :: duration where "bindCheckInterval = 30 * second"
definition maxBindErrorLength :: nat where "maxBindErrorLength = 512"

definition trimBindError :: "string \<Rightarrow> string" where
  "trimBindError text = (if length text > maxBindErrorLength then take maxBindErrorLength text else text)"

record bindMonitor =
  bm_binding :: Binding
  bm_checkedAt :: gotime
  bm_initialized :: bool
  bm_errText :: string

definition newBindMonitor :: "Binding \<Rightarrow> bindMonitor" where
  "newBindMonitor b = \<lparr>bm_binding = b, bm_checkedAt = time_zero, bm_initialized = False, bm_errText = []\<rparr>"

text \<open>\<open>selfTest\<close> is the outcome the socket self-test has if it runs: an error text or none.\<close>

definition bind_check ::
  "bindMonitor \<Rightarrow> string option \<Rightarrow> gotime \<Rightarrow> (string \<times> bool) \<times> bindMonitor" where
  "bind_check m selfTest now =
     (if Binding_IsZero (bm_binding m) then (([], False), m)
      else (let age = time_sub now (bm_checkedAt m) in
            if bm_initialized m \<and> age \<ge> 0 \<and> age < bindCheckInterval then ((bm_errText m, False), m)
            else (let text = (case selfTest of None \<Rightarrow> [] | Some e \<Rightarrow> trimBindError e);
                      changed = (\<not> bm_initialized m \<or> text \<noteq> bm_errText m)
                  in ((text, changed),
                      m\<lparr>bm_initialized := True, bm_checkedAt := now, bm_errText := text\<rparr>))))"

section \<open>Domain strategy\<close>

definition normalizeDomainStrategy :: "string \<Rightarrow> string option" where
  "normalizeDomainStrategy value =
     (let v = ToLower (TrimSpace value) in
      if v = [] then Some []
      else if v = ''as_is'' \<or> v = ''asis'' then Some ''AsIs''
      else if v = ''use_ipv4'' \<or> v = ''useipv4'' then Some ''UseIPv4''
      else if v = ''use_ip'' \<or> v = ''useip'' then Some ''UseIP''
      else if v = ''use_ipv6'' \<or> v = ''useipv6'' then Some ''UseIPv6''
      else None)"

section \<open>Properties of the clock estimate\<close>

text \<open>The server's clock runs a constant \<open>theta\<close> ahead of the local one and was read at some
  local instant \<open>m\<close> between sending the heartbeat and receiving the answer. After the update,
  the node's estimate of server time is off by at most half the round trip (plus the half
  nanosecond the integer division drops), at every later local instant.\<close>

theorem clock_error_bounded:
  fixes sent recv m theta t :: int
  assumes "sent \<le> m" "m \<le> recv" "recv - sent < 2 ^ 62" "\<bar>theta\<bar> < 2 ^ 62"
  shows "2 * \<bar>clock_now (clock_update s (m + theta) sent recv) t - (t + theta)\<bar> \<le> recv - sent + 1"
proof -
  let ?h = "(recv - sent) div 2"
  have "clock_now (clock_update s (m + theta) sent recv) t = t + (m + theta - (sent + ?h))"
    using assms by (simp add: clock_now_def clock_update_def time_add_def go_div_nonneg Let_def)
  moreover have "2 * ?h \<le> recv - sent" "recv - sent \<le> 2 * ?h + 1" by presburger+
  ultimately show ?thesis using assms(1,2) by (simp add: abs_le_iff abs_if)
qed

theorem clock_error_bounded_witness:
  "2 * \<bar>clock_now (clock_update \<lparr>ck_offset = 0\<rparr> (130 + 5000) 100 200) 700 - (700 + 5000)\<bar>
     \<le> (200 - 100 + 1 :: int)"
  using clock_error_bounded [of 100 130 200 5000 "\<lparr>ck_offset = 0\<rparr>" 700] by simp

section \<open>Properties of the path verdict\<close>

text \<open>An outcome is target, error text, error code and instant. Outcomes with the code of a
  misconfigured probe do not count.\<close>

type_synonym check_outcome = "string \<times> string \<times> string \<times> gotime"

definition record_all :: "check_outcome list \<Rightarrow> pathHealth \<Rightarrow> pathHealth" where
  "record_all os p = fold (\<lambda>(target, et, ec, t) p. path_record p target et ec t) os p"

definition counted :: "check_outcome list \<Rightarrow> check_outcome list" where
  "counted os = filter (\<lambda>(target, et, ec, t). ec \<noteq> ''invalid_params'') os"

definition network_failures :: "check_outcome list \<Rightarrow> check_outcome list" where
  "network_failures os = filter (\<lambda>(target, et, ec, t). isNetworkError et ec) os"

definition targets_of :: "check_outcome list \<Rightarrow> string set" where
  "targets_of os = fst ` set os - {[]}"

definition tracks :: "string list \<Rightarrow> string set \<Rightarrow> bool" where
  "tracks xs T \<longleftrightarrow> distinct xs \<and> set xs \<subseteq> T \<and> finite T \<and> (set xs = T \<or> pathMaxTrackedHosts \<le> length xs)"

lemma record_all_counted: "record_all os p = record_all (counted os) p"
  by (induction os arbitrary: p) (auto simp: record_all_def counted_def path_record_def)

lemma tracks_min_targets: "tracks xs T \<Longrightarrow> pathMinTargets \<le> length xs \<longleftrightarrow> pathMinTargets \<le> card T"
proof -
  assume "tracks xs T"
  then have d: "distinct xs" "set xs \<subseteq> T" "finite T"
    and c: "set xs = T \<or> pathMaxTrackedHosts \<le> length xs" by (auto simp: tracks_def)
  from d have "length xs \<le> card T" using distinct_card [of xs] card_mono by metis
  with c d show ?thesis
    using distinct_card [of xs] by (auto simp: pathMinTargets_def pathMaxTrackedHosts_def)
qed

lemma tracks_step:
  assumes "tracks xs T"
  shows "tracks (if tg \<noteq> [] \<and> length xs < pathMaxTrackedHosts then List.insert tg xs else xs)
           (T \<union> ({tg} - {[]}))"
  using assms by (auto simp: tracks_def)

lemma resetLocked_within:
  "\<not> IsZero (ph_windowStart p) \<Longrightarrow> t - ph_windowStart p < pathHealthWindow \<Longrightarrow> resetLocked p t = p"
  by (simp add: resetLocked_def time_sub_def pathHealthWindow_def second_def)

lemma record_all_window:
  assumes "\<not> IsZero (ph_windowStart p)" "tracks (ph_targets p) T"
    and "\<And>tg et ec t. (tg, et, ec, t) \<in> set os \<Longrightarrow>
           ec \<noteq> ''invalid_params'' \<and> t - ph_windowStart p < pathHealthWindow"
  shows "ph_windowStart (record_all os p) = ph_windowStart p
    \<and> ph_total (record_all os p) = ph_total p + int (length os)
    \<and> ph_networkErrors (record_all os p) = ph_networkErrors p + int (length (network_failures os))
    \<and> tracks (ph_targets (record_all os p)) (T \<union> targets_of os)"
  using assms
proof (induction os arbitrary: p T)
  case Nil
  then show ?case by (simp add: record_all_def network_failures_def targets_of_def)
next
  case (Cons a os)
  obtain tg et ec t where a: "a = (tg, et, ec, t)" by (cases a)
  let ?p = "path_record p tg et ec t"
  have r: "resetLocked p t = p" "ec \<noteq> ''invalid_params''"
    using Cons.prems a by (auto intro!: resetLocked_within)
  then have p: "ph_windowStart ?p = ph_windowStart p" "ph_total ?p = ph_total p + 1"
    "ph_networkErrors ?p = ph_networkErrors p + (if isNetworkError et ec then 1 else 0)"
    "tracks (ph_targets ?p) (T \<union> ({tg} - {[]}))"
    using tracks_step [OF Cons.prems(2), of tg] by (auto simp: path_record_def Let_def)
  have T: "T \<union> ({tg} - {[]}) \<union> targets_of os = T \<union> targets_of (a # os)"
    by (auto simp: targets_of_def a)
  have "ph_windowStart (record_all os ?p) = ph_windowStart ?p
    \<and> ph_total (record_all os ?p) = ph_total ?p + int (length os)
    \<and> ph_networkErrors (record_all os ?p) = ph_networkErrors ?p + int (length (network_failures os))
    \<and> tracks (ph_targets (record_all os ?p)) (T \<union> ({tg} - {[]}) \<union> targets_of os)"
    using Cons.prems by (intro Cons.IH) (auto simp: p)
  moreover have "record_all (a # os) p = record_all os ?p" by (simp add: record_all_def a)
  moreover have "length (network_failures (a # os))
      = (if isNetworkError et ec then 1 else 0) + length (network_failures os)"
    by (simp add: network_failures_def a)
  ultimately show ?case by (simp add: p T)
qed

lemma ratio_iff: "0 < n \<Longrightarrow> pathNetworkRatio \<le> rat_of_int m / rat_of_int n \<longleftrightarrow> 7 * n \<le> 10 * m"
proof -
  assume "0 < n"
  then have "pathNetworkRatio \<le> rat_of_int m / rat_of_int n \<longleftrightarrow> rat_of_int (7 * n) \<le> rat_of_int (10 * m)"
    by (simp add: pathNetworkRatio_def field_simps)
  then show ?thesis by (simp only: of_int_le_iff)
qed

text \<open>The verdict on the vantage's network path is the documented one: within one window,
  \<open>degraded\<close> exactly when at least five distinct targets were checked and at least 70% of the
  counted checks failed with a network error, whatever the order of the outcomes, however many
  misconfigured probes are interleaved and although only 4096 targets are remembered.\<close>

theorem path_state_is_degraded_iff:
  assumes "counted os = (tg, et, ec, t0) # rest" "\<not> IsZero t0"
    and "\<And>tg et ec t. (tg, et, ec, t) \<in> set rest \<Longrightarrow> t - t0 < pathHealthWindow"
    and "now - t0 < pathHealthWindow"
  shows "fst (path_state (record_all os newPathHealth) now) = ''degraded'' \<longleftrightarrow>
     5 \<le> card (targets_of (counted os)) \<and>
     7 * length (counted os) \<le> 10 * length (network_failures (counted os))"
proof -
  let ?p = "path_record newPathHealth tg et ec t0"
  let ?q = "record_all rest ?p"
  have ec: "(x, y, c, t) \<in> set (counted os) \<Longrightarrow> c \<noteq> ''invalid_params''" for x y c t
    by (auto simp: counted_def)
  have "ec \<noteq> ''invalid_params''" using ec assms(1) by force
  then have p: "ph_windowStart ?p = t0" "ph_total ?p = 1"
    "ph_networkErrors ?p = (if isNetworkError et ec then 1 else 0)"
    "tracks (ph_targets ?p) ({tg} - {[]})"
    by (auto simp: path_record_def newPathHealth_def resetLocked_def IsZero_def tracks_def
        pathMaxTrackedHosts_def Let_def)
  have q: "ph_windowStart ?q = t0 \<and> ph_total ?q = 1 + int (length rest)
    \<and> ph_networkErrors ?q = ph_networkErrors ?p + int (length (network_failures rest))
    \<and> tracks (ph_targets ?q) (({tg} - {[]}) \<union> targets_of rest)"
  proof -
    have "x \<in> set rest \<Longrightarrow> fst (snd (snd x)) \<noteq> ''invalid_params''" for x
      using ec assms(1) by (cases x) auto
    then have "(tg', et', ec', t') \<in> set rest \<Longrightarrow>
        ec' \<noteq> ''invalid_params'' \<and> t' - ph_windowStart ?p < pathHealthWindow" for tg' et' ec' t'
      using assms(3) p(1) by fastforce
    from record_all_window [OF _ p(4) this] show ?thesis using assms(2) p(1,2) by simp
  qed
  have T: "({tg} - {[]}) \<union> targets_of rest = targets_of (counted os)"
    by (auto simp: assms(1) targets_of_def)
  have N: "ph_networkErrors ?q = int (length (network_failures (counted os)))"
    using q p by (simp add: assms(1) network_failures_def)
  have "record_all os newPathHealth = ?q"
    using record_all_counted [of os newPathHealth] by (simp add: assms(1) record_all_def)
  moreover have "resetLocked ?q now = ?q" using q assms(2,4) by (auto intro: resetLocked_within)
  ultimately have "fst (path_state (record_all os newPathHealth) now) = ''degraded'' \<longleftrightarrow>
      pathMinTargets \<le> length (ph_targets ?q)
      \<and> pathNetworkRatio \<le> rat_of_int (ph_networkErrors ?q) / rat_of_int (ph_total ?q)"
    using q by (simp add: path_state_def Let_def)
  also have "pathMinTargets \<le> length (ph_targets ?q) \<longleftrightarrow> pathMinTargets \<le> card (targets_of (counted os))"
    using q T tracks_min_targets by metis
  also have "pathNetworkRatio \<le> rat_of_int (ph_networkErrors ?q) / rat_of_int (ph_total ?q)
      \<longleftrightarrow> 7 * length (counted os) \<le> 10 * length (network_failures (counted os))"
  proof -
    have "ph_total ?q = int (length (counted os))" using q by (simp add: assms(1))
    moreover have "0 < length (counted os)" by (simp add: assms(1))
    ultimately show ?thesis
      using ratio_iff [of "ph_total ?q" "ph_networkErrors ?q"] unfolding N by linarith
  qed
  finally show ?thesis by (simp add: pathMinTargets_def)
qed

theorem path_state_is_degraded_iff_witness:
  "fst (path_state (record_all
      [(''skipped'', ''bad'', ''invalid_params'', 0), (''a'', ''dial tcp: timeout'', '''', 1),
       (''b'', ''unexpected eof'', '''', 2), (''c'', ''connection refused'', '''', 3),
       (''d'', ''no such host'', '''', 4), (''e'', '''', '''', 5)] newPathHealth) 6) = ''degraded''"
  by (subst path_state_is_degraded_iff [where tg = "''a''" and et = "''dial tcp: timeout''" and ec = "''''"
        and ?t0.0 = 1 and rest = "[(''b'', ''unexpected eof'', '''', 2), (''c'', ''connection refused'', '''', 3),
       (''d'', ''no such host'', '''', 4), (''e'', '''', '''', 5)]"])
    (auto simp: counted_def IsZero_def time_zero_def pathHealthWindow_def second_def targets_of_def
      network_failures_def isNetworkError_def network_markers_def ToLower_def lower_char_def HasPrefix_def)

section \<open>Properties of the pressure state\<close>

text \<open>Feeding a sequence of samples, each a pair of \<open>high\<close> and \<open>low\<close>, to the hysteresis.\<close>

definition feed :: "(bool \<times> bool) list \<Rightarrow> bool \<times> int \<Rightarrow> bool \<times> int" where
  "feed samples st = fold (\<lambda>(high, low) (active, streak). hysteresis active streak high low) samples st"

lemma feed_simps [simp]:
  "feed [] st = st"
  "feed ((h, l) # xs) (a, k) = feed xs (hysteresis a k h l)"
  "feed (xs @ ys) st = feed ys (feed xs st)"
  by (simp_all add: feed_def)

lemma feed_neutral: "(\<forall>x\<in>set xs. x = (False, False)) \<Longrightarrow> feed xs st = st"
  by (induction xs arbitrary: st) (auto simp: hysteresis_def feed_def)

text \<open>The samples that carry information, newest first, decide the state: two highs in a row
  enter it, two lows in a row leave it. \<open>pressure_spec\<close> reads that off the history.\<close>

fun pressure_spec :: "bool list \<Rightarrow> bool" where
  "pressure_spec [] = False"
| "pressure_spec [b] = False"
| "pressure_spec (b # c # bs) = (if b = c then b else pressure_spec (c # bs))"

text \<open>The streak's meaning: positive after a high, never positive after a low, and zero or one low
  short of leaving otherwise.\<close>

fun streak_ok :: "bool list \<Rightarrow> bool \<times> int \<Rightarrow> bool" where
  "streak_ok [] (a, k) = (\<not> a \<and> k = 0)"
| "streak_ok (True # bs) (a, k) = (0 < k \<and> a = pressure_spec (True # bs))"
| "streak_ok (False # bs) (a, k) = ((k = -1 \<or> k = 0 \<and> \<not> a) \<and> a = pressure_spec (False # bs))"

lemma streak_ok_high: "streak_ok bs (a, k) \<Longrightarrow> streak_ok (True # bs) (hysteresis a k True low)"
  by (cases bs rule: pressure_spec.cases) (auto simp: hysteresis_def Let_def split: bool.splits elim: streak_ok.elims)

lemma streak_ok_low: "streak_ok bs (a, k) \<Longrightarrow> streak_ok (False # bs) (hysteresis a k False True)"
  by (cases bs rule: pressure_spec.cases) (auto simp: hysteresis_def Let_def split: bool.splits elim: streak_ok.elims)

definition informative :: "(bool \<times> bool) list \<Rightarrow> bool list" where
  "informative samples = map fst (filter (\<lambda>(high, low). high \<or> low) samples)"

lemma streak_ok_feed:
  "streak_ok bs st \<Longrightarrow> streak_ok (rev (informative samples) @ bs) (feed samples st)"
proof (induction samples arbitrary: bs st)
  case Nil
  then show ?case by (simp add: informative_def)
next
  case (Cons x samples)
  obtain h l a k where x: "x = (h, l)" and st: "st = (a, k)" by (cases x, cases st)
  consider "h" | "\<not> h" "l" | "\<not> h" "\<not> l" by blast
  then show ?case
  proof cases
    case 1
    with Cons.IH [OF streak_ok_high [of bs a k l]] Cons.prems x st show ?thesis
      by (simp add: informative_def)
  next
    case 2
    with Cons.IH [OF streak_ok_low [of bs a k]] Cons.prems x st show ?thesis
      by (simp add: informative_def)
  next
    case 3
    with Cons.IH [of bs st] Cons.prems x st show ?thesis
      by (simp add: informative_def hysteresis_def)
  qed
qed

lemma streak_ok_spec: "streak_ok bs st \<Longrightarrow> fst st = pressure_spec bs"
  by (cases "(bs, st)" rule: streak_ok.cases) auto

text \<open>The hysteresis is two-in-a-row over the samples that are high or low: for every history
  the pressure flag is the value of the last two equal consecutive informative samples. A sample
  between the thresholds is skipped and does not interrupt a streak.\<close>

theorem hysteresis_two_in_a_row:
  "fst (feed samples (False, 0)) = pressure_spec (rev (informative samples))"
  using streak_ok_feed [of "[]" "(False, 0)" samples] by (simp add: streak_ok_spec)

text \<open>Whatever the counters of the operating system say and however the sampler got to its
  state, the health report stays within the limits of the wire schema: round trip at most ten
  minutes, counters at most a million, uptime never negative, and the pressure word of a fresh
  sample is one of the five known ones.\<close>

theorem health_snapshot_bounded:
  "case health_snapshot s r now path jobs of (h, s') \<Rightarrow>
     nh_HeartbeatRTTMs h \<le> 600000 \<and> nh_ConsecutiveFailures h \<le> 1000000 \<and>
     nh_DeferredJobs h \<le> 1000000 \<and> 0 \<le> nh_UptimeSeconds h \<and> nh_Path h = path \<and>
     (hs_lastSample s' \<noteq> hs_lastSample s \<longrightarrow>
        nh_Pressure h \<in> {''ok'', ''memory'', ''load'', ''steal'', ''mixed''})"
proof -
  have press: "nh_Pressure (hs_resource (sampleLocked s r now)) \<in> {''ok'', ''memory'', ''load'', ''steal'', ''mixed''}"
    by (simp add: sampleLocked_def Let_def pressure_of_def split: prod.splits)
  show ?thesis
    using press by (simp add: health_snapshot_def Let_def)
qed

section \<open>Properties of the defaults\<close>

text \<open>The automatic limits are sane for every 64-bit memory reading, overflow of the
  multiplication included: the concurrency is between 4 and 64, and the memory limit is never
  negative and never above what is available.\<close>

theorem auto_limits_bounded:
  assumes "- (2 ^ 63) \<le> available" "available < 2 ^ 63"
  shows "4 \<le> autoConcurrency available \<and> autoConcurrency available \<le> 64 \<and>
         0 \<le> autoMemoryLimit available \<and> autoMemoryLimit available \<le> max 0 available"
  using assms
  by (auto simp: autoConcurrency_def autoMemoryLimit_def mib32_def Let_def)

theorem auto_limits_bounded_witness:
  "4 \<le> autoConcurrency (2 ^ 62) \<and> autoConcurrency (2 ^ 62) \<le> 64 \<and>
   0 \<le> autoMemoryLimit (2 ^ 62) \<and> autoMemoryLimit (2 ^ 62) \<le> max 0 (2 ^ 62)"
  by (rule auto_limits_bounded) simp_all

text \<open>The binding self-test runs at most once per interval: after a check that ran the test at
  \<open>t\<close>, every check of the next thirty seconds repeats its verdict from the cache, reports no
  change and leaves the monitor as it is, whatever the socket would say now.\<close>

theorem bind_check_cached:
  assumes "\<not> Binding_IsZero (bm_binding m)" "0 \<le> d" "d < bindCheckInterval"
    and "\<not> (bm_initialized m \<and> 0 \<le> time_sub t (bm_checkedAt m) \<and> time_sub t (bm_checkedAt m) < bindCheckInterval)"
  shows "case bind_check m res t of ((text, changed), m') \<Rightarrow>
           text = (case res of None \<Rightarrow> [] | Some e \<Rightarrow> trimBindError e) \<and>
           bind_check m' res' (t + d) = ((text, False), m')"
  using assms by (auto simp: bind_check_def Let_def bindCheckInterval_def second_def)

theorem bind_check_cached_witness:
  "case bind_check (newBindMonitor \<lparr>SourceIP = None, Interface = ''eth0''\<rparr>) (Some ''no such device'') 7 of
     ((text, changed), m') \<Rightarrow>
        text = ''no such device'' \<and> bind_check m' None (7 + 1000) = ((text, False), m')"
  using bind_check_cached [of "newBindMonitor \<lparr>SourceIP = None, Interface = ''eth0''\<rparr>" 1000 7
      "Some ''no such device''" None]
  by (simp add: newBindMonitor_def Binding_IsZero_def bindCheckInterval_def second_def
      trimBindError_def maxBindErrorLength_def)

text \<open>The normalised domain strategy is a fixed point: normalising what the agent exports to
  its children gives the same value again.\<close>

theorem normalizeDomainStrategy_stable:
  "normalizeDomainStrategy v = Some w \<Longrightarrow> normalizeDomainStrategy w = Some w"
proof -
  assume "normalizeDomainStrategy v = Some w"
  then have "w \<in> {'''', ''AsIs'', ''UseIPv4'', ''UseIP'', ''UseIPv6''}"
    by (auto simp: normalizeDomainStrategy_def Let_def split: if_splits)
  moreover have "\<forall>w\<in>{'''', ''AsIs'', ''UseIPv4'', ''UseIP'', ''UseIPv6''}. normalizeDomainStrategy w = Some w"
    by code_simp
  ultimately show ?thesis by blast
qed

theorem normalizeDomainStrategy_stable_witness:
  "normalizeDomainStrategy ''UseIPv4'' = Some ''UseIPv4''"
proof -
  have "normalizeDomainStrategy '' Use_IPv4 '' = Some ''UseIPv4''" by code_simp
  then show ?thesis by (rule normalizeDomainStrategy_stable)
qed

end
