(* ===== verification/Delivery.thy ===== *)
theory Delivery
  imports Store_Results Node_Health
begin

text \<open>
  Delivery of results to the server: the file spool (\<^verbatim>\<open>internal/agent/spool.go\<close>) and the drain of
  the local store (\<^verbatim>\<open>internal/agent/store_delivery.go\<close>), with the retry backoff they share.

  The server is an argument: \<open>post i results\<close> is the answer to the \<open>i\<close>-th POST of a drain, or
  \<^const>\<open>None\<close> when the request failed or the response was empty. \<open>alive i\<close> says whether the drain's
  twenty-second context still holds at round \<open>i\<close>, and \<open>db_ok i\<close> whether the local database
  could settle that round. Each drain also returns the results whose POST succeeded and that were
  taken off the queue.
\<close>

section \<open>Backoff\<close>

definition defaultSpoolMaxBytes :: int where "defaultSpoolMaxBytes = 16 * 1048576"
definition deliveryRetryInitial :: duration where "deliveryRetryInitial = 5 * second"
definition deliveryRetryMax :: duration where "deliveryRetryMax = 60 * second"

definition nextDeliveryBackoff :: "duration \<Rightarrow> duration" where
  "nextDeliveryBackoff previous =
     (if previous \<le> 0 then deliveryRetryInitial
      else (let nxt = i64 (previous * 2) in if nxt > deliveryRetryMax then deliveryRetryMax else nxt))"

record deliveryState =
  dl_backoff :: duration
  dl_nextAttempt :: gotime

definition backoffDelivery :: "gotime \<Rightarrow> deliveryState \<Rightarrow> deliveryState" where
  "backoffDelivery now dl =
     (let b = nextDeliveryBackoff (dl_backoff dl) in \<lparr>dl_backoff = b, dl_nextAttempt = time_add now b\<rparr>)"

definition clearDeliveryBackoff :: "deliveryState \<Rightarrow> deliveryState" where
  "clearDeliveryBackoff dl = \<lparr>dl_backoff = 0, dl_nextAttempt = time_zero\<rparr>"

definition delivery_init :: deliveryState where
  "delivery_init = \<lparr>dl_backoff = 0, dl_nextAttempt = time_zero\<rparr>"

definition delivery_gated :: "gotime \<Rightarrow> deliveryState \<Rightarrow> bool" where
  "delivery_gated now dl \<longleftrightarrow> \<not> IsZero (dl_nextAttempt dl) \<and> now < dl_nextAttempt dl"

record drainOutcome =
  do_delivered :: int
  do_accepted :: int
  do_rejected :: int
  do_err :: bool
  do_acked :: "WireResult list"

definition drain_zero :: drainOutcome where
  "drain_zero = \<lparr>do_delivered = 0, do_accepted = 0, do_rejected = 0, do_err = False, do_acked = []\<rparr>"

definition note_posted :: "WireResult list \<Rightarrow> ResultsResponse \<Rightarrow> drainOutcome \<Rightarrow> drainOutcome" where
  "note_posted results resp st =
     st\<lparr>do_delivered := do_delivered st + int (length results), do_accepted := do_accepted st + rr_Accepted resp,
        do_rejected := do_rejected st + rr_Rejected resp, do_acked := do_acked st @ results\<rparr>"

section \<open>The file spool\<close>

record spoolBatch =
  sb_Version :: int
  sb_SentAt :: string
  sb_Results :: "WireResult list"

text \<open>A directory entry: its name, whether it is a directory, its size, and the batch its contents
  decode to, if any.\<close>

record spoolFile =
  sf_name :: string
  sf_isDir :: bool
  sf_size :: int
  sf_batch :: "spoolBatch option"

record resultSpool =
  sp_files :: "spoolFile list"
  sp_maxBytes :: int

definition newResultSpool :: "string \<Rightarrow> int \<Rightarrow> spoolFile list \<Rightarrow> resultSpool option" where
  "newResultSpool dir maxBytes files =
     (if dir = [] then None
      else Some \<lparr>sp_files = files, sp_maxBytes = (if maxBytes \<le> 0 then defaultSpoolMaxBytes else maxBytes)\<rparr>)"

text \<open>\<^verbatim>\<open>fmt.Sprintf("batch-%020d-%s.json", ...)\<close> for a non-negative clock.\<close>

definition pad20 :: "int \<Rightarrow> string" where
  "pad20 n = (let s = dec_digits (nat n) in replicate (20 - length s) (CHR ''0'') @ s)"

definition spool_name :: "int \<Rightarrow> string \<Rightarrow> string" where
  "spool_name nanos hex = ''batch-'' @ pad20 nanos @ ''-'' @ hex @ ''.json''"

definition spool_pending :: "resultSpool \<Rightarrow> spoolFile list" where
  "spool_pending s = sort_key sf_name (filter (\<lambda>f. \<not> sf_isDir f \<and> HasSuffix (sf_name f) ''.json'') (sp_files s))"

definition spool_read :: "spoolFile \<Rightarrow> spoolBatch option" where
  "spool_read f = (case sf_batch f of
      None \<Rightarrow> None
    | Some b \<Rightarrow> if sb_Version b \<noteq> 1 \<or> sb_Results b = [] then None else Some b)"

definition spool_remove :: "string \<Rightarrow> resultSpool \<Rightarrow> resultSpool" where
  "spool_remove name s = s\<lparr>sp_files := filter (\<lambda>f. sf_name f \<noteq> name) (sp_files s)\<rparr>"

text \<open>The eviction loop; \<open>n\<close> is the number of entries at its start.\<close>

fun prune_loop :: "nat \<Rightarrow> spoolFile list \<Rightarrow> int \<Rightarrow> nat \<Rightarrow> resultSpool \<Rightarrow> nat \<times> resultSpool" where
  "prune_loop n [] bytes removed s = (removed, s)"
| "prune_loop n (e # es) bytes removed s =
     (if bytes \<le> sp_maxBytes s \<or> n - removed \<le> 1 then (removed, s)
      else prune_loop n es (bytes - sf_size e) (removed + 1) (spool_remove (sf_name e) s))"

definition spool_prune :: "resultSpool \<Rightarrow> nat \<times> resultSpool" where
  "spool_prune s =
     (let entries = spool_pending s
      in prune_loop (length entries) entries (sum_list (map sf_size entries)) 0 s)"

text \<open>JSON refuses the floats it cannot express.\<close>

definition json_result :: "WireResult \<Rightarrow> WireResult option" where
  "json_result w =
     (case r_LatencyMs (wr_Result w) of
        Some PosInf \<Rightarrow> None | Some NegInf \<Rightarrow> None | Some NaN \<Rightarrow> None
      | _ \<Rightarrow> (case r_Extra (wr_Result w) of
               None \<Rightarrow> Some (w\<lparr>wr_Result := (wr_Result w)\<lparr>r_Skip := False\<rparr>\<rparr>)
             | Some m \<Rightarrow> (case json_map m of
                 None \<Rightarrow> None
               | Some n \<Rightarrow> Some (w\<lparr>wr_Result := (wr_Result w)
                    \<lparr>r_Skip := False, r_Extra := (if n = [] then None else Some n)\<rparr>\<rparr>))))"

text \<open>\<open>wrote\<close> says whether the file operations succeed, \<open>bytes_of\<close> gives the bytes of an encoded batch.
  The value is the new file's name (empty for an empty batch).\<close>

definition enqueue ::
  "(spoolBatch \<Rightarrow> int) \<Rightarrow> bool \<Rightarrow> int \<Rightarrow> string \<Rightarrow> WireResult list \<Rightarrow> string \<Rightarrow> resultSpool
    \<Rightarrow> (string \<times> resultSpool) option" where
  "enqueue bytes_of wrote nanos hex results sentAt s =
     (if results = [] then Some ([], s)
      else case those (map json_result results) of
        None \<Rightarrow> None
      | Some rs \<Rightarrow>
          if \<not> wrote then None
          else (let b = \<lparr>sb_Version = 1, sb_SentAt = sentAt, sb_Results = rs\<rparr>;
                    name = spool_name nanos hex;
                    f = \<lparr>sf_name = name, sf_isDir = False, sf_size = bytes_of b, sf_batch = Some b\<rparr>
                in Some (name, snd (spool_prune (s\<lparr>sp_files := filter (\<lambda>g. sf_name g \<noteq> name) (sp_files s) @ [f]\<rparr>)))))"

fun drain_spool_loop ::
  "(nat \<Rightarrow> WireResult list \<Rightarrow> ResultsResponse option) \<Rightarrow> (nat \<Rightarrow> bool) \<Rightarrow> gotime \<Rightarrow> nat \<Rightarrow> spoolFile list
    \<Rightarrow> drainOutcome \<times> resultSpool \<times> deliveryState \<Rightarrow> drainOutcome \<times> resultSpool \<times> deliveryState" where
  "drain_spool_loop post alive now i [] st = st"
| "drain_spool_loop post alive now i (f # fs) (out, s, dl) =
     (if \<not> alive i then (out, s, dl)
      else (case spool_read f of
              None \<Rightarrow> drain_spool_loop post alive now (i + 1) fs (out, spool_remove (sf_name f) s, dl)
            | Some b \<Rightarrow>
                (case post i (sb_Results b) of
                   None \<Rightarrow> (out\<lparr>do_err := True\<rparr>, s, backoffDelivery now dl)
                 | Some resp \<Rightarrow>
                     drain_spool_loop post alive now (i + 1) fs
                       (note_posted (sb_Results b) resp out, spool_remove (sf_name f) s, clearDeliveryBackoff dl))))"

definition drainSpool ::
  "(nat \<Rightarrow> WireResult list \<Rightarrow> ResultsResponse option) \<Rightarrow> (nat \<Rightarrow> bool) \<Rightarrow> gotime
    \<Rightarrow> resultSpool \<times> deliveryState \<Rightarrow> drainOutcome \<times> resultSpool \<times> deliveryState" where
  "drainSpool post alive now sd =
     (case sd of (s, dl) \<Rightarrow>
        if delivery_gated now dl then (drain_zero, s, dl)
        else drain_spool_loop post alive now 0 (spool_pending s) (drain_zero, s, dl))"

section \<open>The store drain\<close>

definition ackKey :: "string \<Rightarrow> int \<Rightarrow> string" where
  "ackKey runID seq = runID @ [char_of (0::nat)] @ Itoa seq"

definition outcomesFor :: "PendingResult list \<Rightarrow> ResultsResponse option \<Rightarrow> Outcome list" where
  "outcomesFor batch resp =
     (case resp of
        None \<Rightarrow> map (\<lambda>it. \<lparr>oc_Seq = pr_Seq it, oc_Accepted = True, oc_Reason = []\<rparr>) batch
      | Some resp \<Rightarrow>
          (let acks = fold (\<lambda>ack m. AList.update (ackKey (ack_RunID ack) (ack_Seq ack)) ack m) (rr_Results resp) []
           in map (\<lambda>it. case map_of acks (ackKey (wr_RunID (pr_Result it)) (r_Seq (wr_Result (pr_Result it)))) of
                     None \<Rightarrow> \<lparr>oc_Seq = pr_Seq it, oc_Accepted = True, oc_Reason = []\<rparr>
                   | Some ack \<Rightarrow> \<lparr>oc_Seq = pr_Seq it, oc_Accepted = ack_Accepted ack, oc_Reason = ack_Reason ack\<rparr>)
                batch))"

text \<open>Every settled round of the loop takes rows off the queue, so the length of the journal is enough
  fuel.\<close>

fun drain_store_loop ::
  "nat \<Rightarrow> (gotime \<Rightarrow> string) \<Rightarrow> string \<Rightarrow> (nat \<Rightarrow> WireResult list \<Rightarrow> ResultsResponse option) \<Rightarrow> (nat \<Rightarrow> bool)
    \<Rightarrow> (nat \<Rightarrow> bool) \<Rightarrow> gotime \<Rightarrow> nat \<Rightarrow> drainOutcome \<times> db \<times> deliveryState \<Rightarrow> drainOutcome \<times> db \<times> deliveryState" where
  "drain_store_loop 0 format origin post alive db_ok now i st = st"
| "drain_store_loop (Suc fuel) format origin post alive db_ok now i (out, d, dl) =
     (if \<not> alive i then (out, d, dl)
      else (let batch = PendingResults format origin 500 d in
            if batch = [] then (out, d, dl)
            else (let results = map pr_Result batch; d = MarkAttempts (map pr_Seq batch) d in
                  case post i results of
                    None \<Rightarrow> (out\<lparr>do_err := True\<rparr>, d, backoffDelivery now dl)
                  | Some resp \<Rightarrow>
                      if \<not> db_ok i then (out\<lparr>do_err := True\<rparr>, d, backoffDelivery now dl)
                      else (let d = MarkOutcomes (to_UnixMilli now) (outcomesFor batch (Some resp)) d;
                                out = note_posted results resp out;
                                dl = clearDeliveryBackoff dl
                            in if length batch < 500 then (out, d, dl)
                               else drain_store_loop fuel format origin post alive db_ok now (i + 1) (out, d, dl)))))"

definition drainStore ::
  "(gotime \<Rightarrow> string) \<Rightarrow> string \<Rightarrow> (nat \<Rightarrow> WireResult list \<Rightarrow> ResultsResponse option) \<Rightarrow> (nat \<Rightarrow> bool)
    \<Rightarrow> (nat \<Rightarrow> bool) \<Rightarrow> gotime \<Rightarrow> db \<times> deliveryState \<Rightarrow> drainOutcome \<times> db \<times> deliveryState" where
  "drainStore format origin post alive db_ok now sd =
     (case sd of (d, dl) \<Rightarrow>
        if delivery_gated now dl then (drain_zero, d, dl)
        else drain_store_loop (length (db_journal d) + 1) format origin post alive db_ok now 0 (drain_zero, d, dl))"

section \<open>Properties of the backoff\<close>

text \<open>However many deliveries fail in a row, the pause before the next attempt doubles from five
  seconds and never exceeds one minute: after \<open>n\<close> failures it is \<open>min (5 * 2 ^ (n - 1)) 60\<close> seconds.\<close>

theorem backoff_schedule:
  "dl_backoff ((backoffDelivery now ^^ n) delivery_init) =
     (if n = 0 then 0 else min (5 * 2 ^ (n - 1)) 60) * second"
proof -
  have eq: "dl_backoff ((backoffDelivery now ^^ n) delivery_init) = (nextDeliveryBackoff ^^ n) 0"
    by (induction n) (simp_all add: delivery_init_def backoffDelivery_def Let_def)
  have step: "nextDeliveryBackoff (k * second) = min (2 * k) 60 * second" if "0 < k" "k \<le> 60" for k
    using that by (auto simp: nextDeliveryBackoff_def Let_def second_def deliveryRetryMax_def min_def)
  have "(nextDeliveryBackoff ^^ Suc m) 0 = min (5 * 2 ^ m) 60 * second" for m
  proof (induction m)
    case 0
    then show ?case by (simp add: nextDeliveryBackoff_def deliveryRetryInitial_def)
  next
    case (Suc m)
    have "(5::int) \<le> 5 * 2 ^ m" by simp
    with Suc step [of "min (5 * 2 ^ m) 60"] show ?case by (simp add: min_def split: if_splits)
  qed
  then show ?thesis using eq by (cases n) simp_all
qed

section \<open>Properties of the store drain\<close>

lemma outcomesFor_seqs: "map oc_Seq (outcomesFor batch resp) = map pr_Seq batch"
  by (auto simp: outcomesFor_def Let_def split: option.splits)

lemma attempt_row_delivery [simp]:
  "j_seq (attempt_row c r) = j_seq r" "is_pending origin (attempt_row c r) = is_pending origin r"
  "resultFromRow format (attempt_row c r) = resultFromRow format r"
  by (simp_all add: attempt_row_def is_pending_def resultFromRow_def)

text \<open>The delivery queue with its cursors.\<close>

definition queue_rows :: "(gotime \<Rightarrow> string) \<Rightarrow> string \<Rightarrow> db \<Rightarrow> (int \<times> WireResult) list" where
  "queue_rows format origin d =
     map (\<lambda>r. (j_seq r, resultFromRow format r)) (filter (is_pending origin) (db_journal d))"

lemma queue_rows_results: "map snd (queue_rows format origin d) = pending_queue format origin d"
  by (simp add: queue_rows_def pending_queue_def)

lemma PendingResults_rows:
  "map (\<lambda>b. (pr_Seq b, pr_Result b)) (PendingResults format origin 500 d) = take 500 (queue_rows format origin d)"
  by (simp add: PendingResults_def queue_rows_def take_map comp_def)

lemma queue_rows_MarkAttempts: "queue_rows format origin (MarkAttempts seqs d) = queue_rows format origin d"
proof -
  have "queue_rows format origin (d\<lparr>db_journal := map (attempt_row c) (db_journal d)\<rparr>) = queue_rows format origin d" for c d
    by (simp add: queue_rows_def filter_map comp_def)
  then have "queue_rows format origin (fold (\<lambda>c d. d\<lparr>db_journal := map (attempt_row c) (db_journal d)\<rparr>) cs d)
      = queue_rows format origin d" for cs d
    by (induction cs arbitrary: d) simp_all
  then show ?thesis by (simp add: MarkAttempts_def)
qed

lemma queue_rows_MarkOutcomes:
  "queue_rows format origin (MarkOutcomes nowMS ocs d) =
     filter (\<lambda>(k, w). \<not> (k \<noteq> 0 \<and> k \<in> oc_Seq ` set ocs)) (queue_rows format origin d)"
proof -
  have "outcome_for ocs r = None \<longleftrightarrow> \<not> (j_seq r \<noteq> 0 \<and> j_seq r \<in> oc_Seq ` set ocs)" for r
    by (auto simp: outcome_for_def find_None_iff image_iff)
  then show ?thesis
    unfolding queue_rows_def MarkOutcomes_pending_rows
    by (auto simp: filter_map comp_def intro!: map_cong filter_cong)
qed

lemma filter_not_first:
  assumes "distinct (map fst xs)"
  shows "filter (\<lambda>(k, w). k \<notin> fst ` set (take n xs)) xs = drop n xs"
proof -
  have "fst ` set (take n xs) \<inter> fst ` set (drop n xs) = {}"
    using assms by (metis append_take_drop_id distinct_append map_append set_map)
  then have "filter (\<lambda>(k, w). k \<notin> fst ` set (take n xs)) (drop n xs) = drop n xs"
    by (intro filter_True) force
  moreover have "filter (\<lambda>(k, w). k \<notin> fst ` set (take n xs)) (take n xs) = []"
    by (force simp: filter_empty_conv)
  ultimately show ?thesis by (metis append_Nil append_take_drop_id filter_append)
qed

lemma queue_rows_keys:
  assumes "store_ok d"
  shows "distinct (map fst (queue_rows format origin d))" "0 \<notin> fst ` set (queue_rows format origin d)"
proof -
  have "sorted_wrt (<) (map j_seq (db_journal d))" "\<forall>r\<in>set (db_journal d). 0 < j_seq r"
    using assms by (auto simp: store_ok_def journal_ok_def)
  then show "distinct (map fst (queue_rows format origin d))" "0 \<notin> fst ` set (queue_rows format origin d)"
    using strict_sorted_iff by (auto simp: queue_rows_def comp_def intro!: distinct_map_filter)
qed

text \<open>One settled round takes the front of the queue.\<close>

lemma drain_round:
  assumes "store_ok d" "batch = PendingResults format origin 500 d"
    and "d' = MarkOutcomes nowMS (outcomesFor batch resp) (MarkAttempts (map pr_Seq batch) d)"
  shows "queue_rows format origin d' = drop 500 (queue_rows format origin d)"
    "map pr_Result batch = map snd (take 500 (queue_rows format origin d))"
    "store_ok d'" "length (db_journal d') = length (db_journal d)"
    "length batch = min 500 (length (queue_rows format origin d))"
proof -
  let ?q = "queue_rows format origin d"
  have b: "map (\<lambda>b. (pr_Seq b, pr_Result b)) batch = take 500 ?q" using PendingResults_rows assms(2) by simp
  then have k: "map pr_Seq batch = map fst (take 500 ?q)" and
    r: "map pr_Result batch = map snd (take 500 ?q)" by (simp_all flip: b add: comp_def)
  show "map pr_Result batch = map snd (take 500 ?q)" by (rule r)
  show "length batch = min 500 (length ?q)" using arg_cong [OF b, of length] by simp
  have s: "oc_Seq ` set (outcomesFor batch resp) = fst ` set (take 500 ?q)"
    using arg_cong [OF outcomesFor_seqs [of batch resp], of set] arg_cong [OF k, of set] by simp
  have "queue_rows format origin d' = filter (\<lambda>(k, w). \<not> (k \<noteq> 0 \<and> k \<in> fst ` set (take 500 ?q))) ?q"
    by (simp add: assms(3) queue_rows_MarkOutcomes queue_rows_MarkAttempts s)
  also have "\<dots> = filter (\<lambda>(k, w). k \<notin> fst ` set (take 500 ?q)) ?q"
    using queue_rows_keys(2) [OF assms(1), of format origin] by (intro filter_cong) (force)+
  also have "\<dots> = drop 500 ?q" by (rule filter_not_first [OF queue_rows_keys(1) [OF assms(1)]])
  finally show "queue_rows format origin d' = drop 500 ?q" .
  show "store_ok d'" by (simp add: assms(1,3) MarkOutcomes_ok MarkAttempts_ok)
  have "length (db_journal (MarkAttempts seqs d)) = length (db_journal d)" for seqs
  proof -
    have "length (db_journal (fold (\<lambda>c d. d\<lparr>db_journal := map (attempt_row c) (db_journal d)\<rparr>) cs d)) = length (db_journal d)" for cs d
      by (induction cs arbitrary: d) simp_all
    then show ?thesis by (simp add: MarkAttempts_def)
  qed
  then show "length (db_journal d') = length (db_journal d)" by (simp add: assms(3) MarkOutcomes_journal)
qed

lemma drain_store_loop_conserves:
  assumes "store_ok d" "length (queue_rows format origin d) < fuel"
    and "drain_store_loop fuel format origin post alive db_ok now i (out, d, dl) = (out', d', dl')"
  shows "store_ok d' \<and> (\<exists>taken. do_acked out' = do_acked out @ taken \<and>
        pending_queue format origin d = taken @ pending_queue format origin d' \<and>
        do_delivered out' = do_delivered out + int (length taken)) \<and>
     (do_err out' \<or> (\<exists>k. \<not> alive k) \<or> pending_queue format origin d' = [])"
  using assms
proof (induction fuel arbitrary: i out d dl)
  case 0
  then show ?case by simp
next
  case (Suc fuel)
  let ?b = "PendingResults format origin 500 d"
  let ?q = "queue_rows format origin d"
  define d1 where "d1 = MarkAttempts (map pr_Seq ?b) d"
  have len: "length ?b = min 500 (length ?q)"
    using arg_cong [OF PendingResults_rows [of format origin d], of length] by simp
  have q1: "queue_rows format origin d1 = ?q" by (simp add: d1_def queue_rows_MarkAttempts)
  have p1: "pending_queue format origin d1 = pending_queue format origin d"
    using q1 by (simp flip: queue_rows_results)
  have ok1: "store_ok d1" by (simp add: d1_def MarkAttempts_ok Suc.prems(1))
  show ?case
  proof (cases "\<not> alive i \<or> ?b = []")
    case True
    then have e: "out' = out" "d' = d" using Suc.prems(3) by (auto simp: Let_def split: if_splits)
    have "?b = [] \<Longrightarrow> pending_queue format origin d = []"
      using len by (auto simp flip: queue_rows_results simp: min_def split: if_splits)
    with e True Suc.prems(1) show ?thesis by auto
  next
    case False
    show ?thesis
    proof (cases "post i (map pr_Result ?b) = None \<or> \<not> db_ok i")
      case True
      then have "out' = out\<lparr>do_err := True\<rparr>" "d' = d1"
        using Suc.prems(3) False by (auto simp: Let_def d1_def split: if_splits option.splits)
      with ok1 p1 show ?thesis by simp
    next
      case ok: False
      then obtain resp where resp: "post i (map pr_Result ?b) = Some resp" "db_ok i" by auto
      define d2 where "d2 = MarkOutcomes (to_UnixMilli now) (outcomesFor ?b (Some resp)) d1"
      note r = drain_round [OF Suc.prems(1) refl d2_def [unfolded d1_def]]
      have p2: "pending_queue format origin d = map pr_Result ?b @ pending_queue format origin d2"
        using r(1,2) by (simp flip: queue_rows_results add: map_append [symmetric] del: map_append)
      let ?out = "note_posted (map pr_Result ?b) resp out"
      show ?thesis
      proof (cases "length ?b < 500")
        case True
        then have e: "out' = ?out" "d' = d2"
          using Suc.prems(3) False resp by (auto simp: Let_def d1_def d2_def)
        have "queue_rows format origin d2 = []" using r(1) len True by auto
        then have "pending_queue format origin d2 = []" by (simp flip: queue_rows_results)
        with e p2 r(3) show ?thesis by (simp add: note_posted_def)
      next
        case full: False
        then have e: "drain_store_loop fuel format origin post alive db_ok now (i + 1)
            (?out, d2, clearDeliveryBackoff dl) = (out', d', dl')"
          using Suc.prems(3) False resp by (auto simp: Let_def d1_def d2_def)
        have "length (queue_rows format origin d2) < fuel"
          using r(1) Suc.prems(2) full len by simp
        from Suc.IH [OF r(3) this e] p2 show ?thesis by (auto simp: note_posted_def)
      qed
    qed
  qed
qed

lemma drainStore_spec:
  assumes "store_ok d" "drainStore format origin post alive db_ok now (d, dl) = (out, d', dl')"
  shows "store_ok d' \<and> pending_queue format origin d = do_acked out @ pending_queue format origin d' \<and>
     do_delivered out = int (length (do_acked out)) \<and>
     (delivery_gated now dl \<or> do_err out \<or> (\<exists>k. \<not> alive k) \<or> pending_queue format origin d' = [])"
proof (cases "delivery_gated now dl")
  case True
  with assms show ?thesis by (auto simp: drainStore_def drain_zero_def)
next
  case False
  have "length (queue_rows format origin d) < length (db_journal d) + 1"
    unfolding queue_rows_def length_map by (rule le_less_trans [OF length_filter_le]) simp
  moreover have "drain_store_loop (length (db_journal d) + 1) format origin post alive db_ok now 0 (drain_zero, d, dl)
      = (out, d', dl')" using assms(2) False by (simp add: drainStore_def)
  ultimately show ?thesis
    using drain_store_loop_conserves [OF assms(1)] by (fastforce simp: drain_zero_def)
qed

text \<open>Draining the store neither loses, repeats nor reorders results: what was acknowledged, in
  the order it was sent, followed by what is still queued is exactly the queue before the drain,
  whatever requests fail and wherever the time budget ends; and when nothing fails, the budget
  lasts and no backoff is running, the queue is empty afterwards.\<close>

theorem drainStore_conserves:
  assumes "store_ok d" "drainStore format origin post alive db_ok now (d, dl) = (out, d', dl')"
  shows "pending_queue format origin d = do_acked out @ pending_queue format origin d' \<and>
     do_delivered out = int (length (do_acked out)) \<and>
     (\<not> delivery_gated now dl \<and> \<not> do_err out \<and> (\<forall>k. alive k) \<longrightarrow> pending_queue format origin d' = [])"
  using drainStore_spec [OF assms] by blast

definition all_accepted :: "nat \<Rightarrow> WireResult list \<Rightarrow> ResultsResponse option" where
  "all_accepted i ws = Some \<lparr>rr_SpecVersion = 2, rr_Accepted = int (length ws), rr_Rejected = 0,
     rr_Results = map (\<lambda>w. \<lparr>ack_RunID = wr_RunID w, ack_Seq = r_Seq (wr_Result w), ack_Accepted = True,
       ack_Reason = []\<rparr>) ws, rr_NodeStatus = ''active''\<rparr>"

definition drained_demo :: db where
  "drained_demo = snd (projr (RecordResults no_time ''n1'' 1000 [demo_result] fresh_db))"

lemma drained_demo_ok: "store_ok drained_demo"
proof -
  obtain su d' where r: "RecordResults no_time ''n1'' 1000 [demo_result] fresh_db = Inr (su, d')"
    by (rule RecordResults_cases [OF fresh_db_ok, of "[demo_result]" no_time "''n1''" 1000]) simp_all
  with RecordResults_ok [OF fresh_db_ok r] show ?thesis by (simp add: drained_demo_def)
qed

theorem drainStore_conserves_witness:
  "case drainStore (\<lambda>_. ''T'') ''n1'' all_accepted (\<lambda>_. True) (\<lambda>_. True) 5 (drained_demo, delivery_init) of
     (out, d', dl') \<Rightarrow> pending_queue (\<lambda>_. ''T'') ''n1'' drained_demo = do_acked out @ pending_queue (\<lambda>_. ''T'') ''n1'' d'
        \<and> do_delivered out = 1"
proof -
  obtain out d' dl' where e: "drainStore (\<lambda>_. ''T'') ''n1'' all_accepted (\<lambda>_. True) (\<lambda>_. True) 5
      (drained_demo, delivery_init) = (out, d', dl')" by (cases rule: prod_cases3)
  have "do_delivered (fst (drainStore (\<lambda>_. ''T'') ''n1'' all_accepted (\<lambda>_. True) (\<lambda>_. True) 5
      (drained_demo, delivery_init))) = 1" by code_simp
  with e drainStore_conserves [OF drained_demo_ok e] show ?thesis by simp
qed

section \<open>Properties of the spool\<close>

definition spool_ok :: "resultSpool \<Rightarrow> bool" where
  "spool_ok s \<longleftrightarrow> distinct (map sf_name (sp_files s))"

definition file_results :: "spoolFile \<Rightarrow> WireResult list" where
  "file_results f = (case spool_read f of None \<Rightarrow> [] | Some b \<Rightarrow> sb_Results b)"

definition spool_queue :: "resultSpool \<Rightarrow> WireResult list" where
  "spool_queue s = concat (map file_results (spool_pending s))"

lemma spool_pending_remove:
  "spool_pending (spool_remove name s) = filter (\<lambda>f. sf_name f \<noteq> name) (spool_pending s)"
  by (simp add: spool_pending_def spool_remove_def filter_sort conj_commute)

lemma spool_pending_distinct: "spool_ok s \<Longrightarrow> distinct (map sf_name (spool_pending s))"
proof -
  assume "spool_ok s"
  then have "distinct (map sf_name (filter P (sp_files s)))" for P
    by (simp add: spool_ok_def distinct_map_filter)
  then show ?thesis unfolding spool_pending_def distinct_map by simp
qed

lemma spool_ok_remove: "spool_ok s \<Longrightarrow> spool_ok (spool_remove name s)"
  by (simp add: spool_ok_def spool_remove_def distinct_map_filter)

lemma spool_remove_head:
  assumes "spool_ok s" "spool_pending s = f # fs"
  shows "spool_pending (spool_remove (sf_name f) s) = fs"
proof -
  have "distinct (map sf_name (f # fs))" using spool_pending_distinct [OF assms(1)] assms(2) by simp
  then have "sf_name f \<notin> sf_name ` set fs" by simp
  then have "filter (\<lambda>g. sf_name g \<noteq> sf_name f) fs = fs" by (intro filter_True ballI) (metis imageI)
  then show ?thesis by (simp add: spool_pending_remove assms(2))
qed

lemma drain_spool_loop_conserves:
  assumes "spool_ok s" "spool_pending s = fs"
    and "drain_spool_loop post alive now i fs (out, s, dl) = (out', s', dl')"
  shows "spool_ok s' \<and> (\<exists>taken. do_acked out' = do_acked out @ taken \<and> spool_queue s = taken @ spool_queue s')
    \<and> (do_err out' \<or> (\<exists>k. \<not> alive k) \<or> spool_pending s' = [])"
  using assms
proof (induction fs arbitrary: i out s dl)
  case Nil
  then show ?case by simp
next
  case (Cons f fs)
  let ?s = "spool_remove (sf_name f) s"
  have ok: "spool_ok ?s" "spool_pending ?s = fs"
    using Cons.prems(1,2) by (simp_all add: spool_ok_remove spool_remove_head)
  have q: "spool_queue s = file_results f @ spool_queue ?s"
    using Cons.prems(2) ok(2) by (simp add: spool_queue_def)
  show ?case
  proof (cases "alive i")
    case False
    with Cons.prems show ?thesis by auto
  next
    case True
    show ?thesis
    proof (cases "spool_read f")
      case None
      with True Cons.prems(3) have "drain_spool_loop post alive now (i + 1) fs (out, ?s, dl) = (out', s', dl')" by simp
      from Cons.IH [OF ok this] q None show ?thesis by (simp add: file_results_def)
    next
      case (Some b)
      show ?thesis
      proof (cases "post i (sb_Results b)")
        case None
        with True Some Cons.prems show ?thesis by auto
      next
        case (Some resp)
        with \<open>spool_read f = Some b\<close> True Cons.prems(3)
        have "drain_spool_loop post alive now (i + 1) fs
            (note_posted (sb_Results b) resp out, ?s, clearDeliveryBackoff dl) = (out', s', dl')" by simp
        from Cons.IH [OF ok this] q \<open>spool_read f = Some b\<close> show ?thesis
          by (auto simp: file_results_def note_posted_def)
      qed
    qed
  qed
qed

lemma drainSpool_spec:
  assumes "spool_ok s" "drainSpool post alive now (s, dl) = (out, s', dl')"
  shows "spool_ok s' \<and> spool_queue s = do_acked out @ spool_queue s'"
proof (cases "delivery_gated now dl")
  case True
  with assms show ?thesis by (auto simp: drainSpool_def drain_zero_def)
next
  case False
  with assms(2) have "drain_spool_loop post alive now 0 (spool_pending s) (drain_zero, s, dl) = (out, s', dl')"
    by (simp add: drainSpool_def)
  from drain_spool_loop_conserves [OF assms(1) refl this] show ?thesis by (auto simp: drain_zero_def)
qed

text \<open>Eviction removes files from the front of the queue.\<close>

lemma prune_loop_spec:
  assumes "spool_ok s" "spool_pending s = es" "n = removed + length es" "bytes = sum_list (map sf_size es)"
    and "prune_loop n es bytes removed s = (removed', s')"
  shows "spool_ok s' \<and> sp_maxBytes s' = sp_maxBytes s \<and>
     (\<exists>k. removed' = removed + k \<and> spool_pending s' = drop k es \<and> (es \<noteq> [] \<longrightarrow> k < length es) \<and>
       (sum_list (map sf_size (drop k es)) \<le> sp_maxBytes s \<or> length (drop k es) \<le> 1) \<and>
       (\<forall>j<k. sp_maxBytes s < sum_list (map sf_size (drop j es))))"
  using assms
proof (induction es arbitrary: bytes removed s)
  case Nil
  then show ?case by simp
next
  case (Cons e es)
  show ?case
  proof (cases "bytes \<le> sp_maxBytes s \<or> n - removed \<le> 1")
    case True
    then have "removed' = removed" "s' = s" using Cons.prems(5) by auto
    with True Cons.prems show ?thesis by (intro conjI exI [of _ 0]) auto
  next
    case False
    let ?s = "spool_remove (sf_name e) s"
    have ok: "spool_ok ?s" "spool_pending ?s = es" "sp_maxBytes ?s = sp_maxBytes s"
      using Cons.prems(1,2) by (simp_all add: spool_ok_remove spool_remove_head) (simp add: spool_remove_def)
    have p: "prune_loop n es (bytes - sf_size e) (removed + 1) ?s = (removed', s')"
      using Cons.prems(5) False by simp
    have ne: "es \<noteq> []" using False Cons.prems(3) by (cases es) auto
    obtain k where k: "spool_ok s'" "sp_maxBytes s' = sp_maxBytes s" "removed' = removed + 1 + k"
      "spool_pending s' = drop k es" "k < length es"
      "sum_list (map sf_size (drop k es)) \<le> sp_maxBytes s \<or> length (drop k es) \<le> 1"
      "\<forall>j<k. sp_maxBytes s < sum_list (map sf_size (drop j es))"
      using Cons.IH [OF ok(1,2) _ _ p] Cons.prems(3,4) ok(3) ne by auto
    have "\<forall>j<Suc k. sp_maxBytes s < sum_list (map sf_size (drop j (e # es)))"
      using k(7) False Cons.prems(4) by (auto simp: less_Suc_eq_0_disj)
    with k show ?thesis by (intro conjI exI [of _ "Suc k"]) auto
  qed
qed

lemma spool_prune_spec:
  assumes "spool_ok s"
  obtains k where "spool_ok (snd (spool_prune s))" "fst (spool_prune s) = k"
    "spool_pending (snd (spool_prune s)) = drop k (spool_pending s)"
    "spool_pending s \<noteq> [] \<Longrightarrow> k < length (spool_pending s)"
    "sum_list (map sf_size (drop k (spool_pending s))) \<le> sp_maxBytes s \<or> length (drop k (spool_pending s)) \<le> 1"
    "\<forall>j<k. sp_maxBytes s < sum_list (map sf_size (drop j (spool_pending s)))"
    "sp_maxBytes (snd (spool_prune s)) = sp_maxBytes s"
proof -
  obtain r s' where p: "prune_loop (length (spool_pending s)) (spool_pending s)
      (sum_list (map sf_size (spool_pending s))) 0 s = (r, s')" by fastforce
  then have e: "spool_prune s = (r, s')" by (simp add: spool_prune_def Let_def)
  from prune_loop_spec [OF assms refl _ refl p] e that show thesis by auto
qed

text \<open>The spool stays within its byte budget by giving up its oldest batches only, as few as
  possible, and never its newest: after pruning, the files left are the youngest of those before,
  their sizes fit the budget or only one is left, and one file more would not have fitted.\<close>

theorem spool_prune_keeps_newest:
  assumes "spool_ok s" "spool_pending s \<noteq> []"
  shows "\<exists>k. spool_pending (snd (spool_prune s)) = drop k (spool_pending s) \<and>
     last (spool_pending (snd (spool_prune s))) = last (spool_pending s) \<and>
     (sum_list (map sf_size (spool_pending (snd (spool_prune s)))) \<le> sp_maxBytes s \<or>
        length (spool_pending (snd (spool_prune s))) = 1) \<and>
     (0 < k \<longrightarrow> sp_maxBytes s < sum_list (map sf_size (drop (k - 1) (spool_pending s))))"
  using assms(2) by (rule_tac spool_prune_spec [OF assms(1)]) (auto simp: last_drop)

theorem spool_prune_keeps_newest_witness:
  "let f = (\<lambda>n k. \<lparr>sf_name = n @ ''.json'', sf_isDir = False, sf_size = k, sf_batch = None\<rparr>);
       s = \<lparr>sp_files = [f ''b'' 6, f ''c'' 9, f ''a'' 4], sp_maxBytes = 10\<rparr>
   in spool_pending (snd (spool_prune s)) = [f ''c'' 9] \<and>
      (\<exists>k. spool_pending (snd (spool_prune s)) = drop k (spool_pending s) \<and>
        last (spool_pending (snd (spool_prune s))) = last (spool_pending s))"
proof -
  let ?f = "\<lambda>n k. \<lparr>sf_name = n @ ''.json'', sf_isDir = False, sf_size = k, sf_batch = None\<rparr>"
  let ?s = "\<lparr>sp_files = [?f ''b'' 6, ?f ''c'' 9, ?f ''a'' 4], sp_maxBytes = 10\<rparr>"
  have ok: "spool_ok ?s" "spool_pending ?s \<noteq> []" by code_simp+
  have "spool_pending (snd (spool_prune ?s)) = [?f ''c'' 9]" by code_simp
  with spool_prune_keeps_newest [OF ok] show ?thesis by (auto simp: Let_def)
qed

end
