(* ===== verification/Delivery_Queue.thy ===== *)
theory Delivery_Queue
  imports Delivery
begin

text \<open>
  What the agent relies on when it hands results over for delivery, as an interface: a durable
  queue. Both back ends, the local store and the file spool, provide it, and the statement that
  results are delivered in order and exactly once over any history of enqueues and drains is
  proved once for the interface.
\<close>

section \<open>The interface\<close>

datatype ('a, 'e) queueOp = Put 'a | Drain 'e

text \<open>A history: what left the queue, what entered it, and the state.\<close>

fun queue_step :: "('a \<Rightarrow> 's \<Rightarrow> 's) \<Rightarrow> ('a \<Rightarrow> 's \<Rightarrow> 'r list) \<Rightarrow> ('a \<Rightarrow> 's \<Rightarrow> 'r list) \<Rightarrow> ('e \<Rightarrow> 's \<Rightarrow> 'r list \<times> 's)
    \<Rightarrow> ('a, 'e) queueOp \<Rightarrow> 'r list \<times> 'r list \<times> 's \<Rightarrow> 'r list \<times> 'r list \<times> 's" where
  "queue_step put added evicted drain (Put a) (gone, entered, s) =
     (gone @ evicted a s, entered @ added a s, put a s)"
| "queue_step put added evicted drain (Drain e) (gone, entered, s) =
     (gone @ fst (drain e s), entered, snd (drain e s))"

fun admissible :: "('a \<Rightarrow> 's \<Rightarrow> bool) \<Rightarrow> ('a \<Rightarrow> 's \<Rightarrow> 's) \<Rightarrow> ('e \<Rightarrow> 's \<Rightarrow> 'r list \<times> 's) \<Rightarrow> ('a, 'e) queueOp list \<Rightarrow> 's \<Rightarrow> bool" where
  "admissible pre put drain [] s = True"
| "admissible pre put drain (Put a # ops) s = (pre a s \<and> admissible pre put drain ops (put a s))"
| "admissible pre put drain (Drain e # ops) s = admissible pre put drain ops (snd (drain e s))"

locale durable_queue =
  fixes contents :: "'s \<Rightarrow> 'r list"
    and ok :: "'s \<Rightarrow> bool"
    and pre :: "'a \<Rightarrow> 's \<Rightarrow> bool"
    and put :: "'a \<Rightarrow> 's \<Rightarrow> 's"
    and added :: "'a \<Rightarrow> 's \<Rightarrow> 'r list"
    and evicted :: "'a \<Rightarrow> 's \<Rightarrow> 'r list"
    and drain :: "'e \<Rightarrow> 's \<Rightarrow> 'r list \<times> 's"
  assumes ok_put: "ok s \<Longrightarrow> pre a s \<Longrightarrow> ok (put a s)"
    and ok_drain: "ok s \<Longrightarrow> ok (snd (drain e s))"
    and put_law: "ok s \<Longrightarrow> pre a s \<Longrightarrow> evicted a s @ contents (put a s) = contents s @ added a s"
    and drain_law: "ok s \<Longrightarrow> fst (drain e s) @ contents (snd (drain e s)) = contents s"
begin

lemma history:
  assumes "ok s" "admissible pre put drain ops s" "fold (queue_step put added evicted drain) ops (gone, entered, s) = (gone', entered', s')"
    and "gone @ contents s = start @ entered"
  shows "ok s' \<and> gone' @ contents s' = start @ entered'"
  using assms
proof (induction ops arbitrary: gone entered s)
  case Nil
  then show ?case by simp
next
  case (Cons x ops)
  show ?case
  proof (cases x)
    case (Put a)
    have p: "pre a s" "admissible pre put drain ops (put a s)" using Cons.prems(2) Put by simp_all
    have "(gone @ evicted a s) @ contents (put a s) = start @ entered @ added a s"
      using put_law [OF Cons.prems(1) p(1)] Cons.prems(4) by (metis append.assoc)
    with Cons.IH [OF ok_put [OF Cons.prems(1) p(1)] p(2)] Cons.prems(3) Put show ?thesis by simp
  next
    case (Drain e)
    have "(gone @ fst (drain e s)) @ contents (snd (drain e s)) = start @ entered"
      using drain_law [OF Cons.prems(1)] Cons.prems(4) by simp
    with Cons.IH [OF ok_drain [OF Cons.prems(1)]] Cons.prems(2,3) Drain show ?thesis by simp
  qed
qed

end

section \<open>The store as a queue\<close>

type_synonym store_drain =
  "(nat \<Rightarrow> WireResult list \<Rightarrow> ResultsResponse option) \<times> (nat \<Rightarrow> bool) \<times> (nat \<Rightarrow> bool) \<times> gotime"

type_synonym store_put = "(string \<Rightarrow> gotime option) \<times> int \<times> WireResult list"

definition store_put :: "string \<Rightarrow> store_put \<Rightarrow> db \<times> deliveryState \<Rightarrow> db \<times> deliveryState" where
  "store_put origin a s = (case a of (parse, nowMS, ws) \<Rightarrow> case s of (d, dl) \<Rightarrow>
     (commit (RecordResults parse origin nowMS ws d) d, dl))"

definition store_added :: "(gotime \<Rightarrow> string) \<Rightarrow> string \<Rightarrow> store_put \<Rightarrow> db \<times> deliveryState \<Rightarrow> WireResult list" where
  "store_added format origin a s = (case a of (parse, nowMS, ws) \<Rightarrow>
     map (delivery_form parse format nowMS) (fresh_results origin (known (fst s)) ws))"

definition store_drain ::
  "(gotime \<Rightarrow> string) \<Rightarrow> string \<Rightarrow> store_drain \<Rightarrow> db \<times> deliveryState \<Rightarrow> WireResult list \<times> db \<times> deliveryState" where
  "store_drain format origin e s = (case e of (post, alive, db_ok, now) \<Rightarrow>
     case drainStore format origin post alive db_ok now s of (out, d, dl) \<Rightarrow> (do_acked out, d, dl))"

definition store_contents :: "(gotime \<Rightarrow> string) \<Rightarrow> string \<Rightarrow> db \<times> deliveryState \<Rightarrow> WireResult list" where
  "store_contents format origin s = pending_queue format origin (fst s)"

definition always :: "store_put \<Rightarrow> db \<times> deliveryState \<Rightarrow> bool" where "always a s = True"
definition never_evicts :: "store_put \<Rightarrow> db \<times> deliveryState \<Rightarrow> WireResult list" where "never_evicts a s = []"

lemma RecordResults_queue:
  assumes "store_ok d"
  shows "\<exists>su d'. RecordResults parse origin nowMS ws d = Inr (su, d') \<and> store_ok d' \<and>
    pending_queue format origin d' = pending_queue format origin d @
      map (delivery_form parse format nowMS) (fresh_results origin (known d) ws)"
proof (cases "ws = []")
  case True
  with assms show ?thesis by (simp add: RecordResults_def)
next
  case False
  obtain start d1 su e where r: "RecordResults parse origin nowMS ws d = Inr (su, e)"
    "record_rows parse origin nowMS start ws (zeroSummary, d1) = (su, e)"
    "batch_ok origin start (start + int (length ws)) d1" "db_journal d1 = db_journal d"
    by (rule RecordResults_cases [OF assms(1) False, of parse origin nowMS])
  have "known d1 = known d" "pending_queue format origin d1 = pending_queue format origin d"
    using r(4) by (simp_all add: known_def pending_queue_def)
  with record_rows_queue [OF r(3) order_refl r(2), of format] r(1) RecordResults_ok [OF assms r(1)]
  show ?thesis by simp
qed

interpretation store_queue: durable_queue
  "store_contents format origin" "\<lambda>s. store_ok (fst s)" always "store_put origin" "store_added format origin"
  never_evicts "store_drain format origin"
  for format origin
proof
  fix s :: "db \<times> deliveryState" and a :: store_put and e :: store_drain
  assume ok: "store_ok (fst s)"
  obtain d dl where s: "s = (d, dl)" by (cases s)
  obtain parse nowMS ws where a: "a = (parse, nowMS, ws)" by (cases a)
  obtain su d' where r: "RecordResults parse origin nowMS ws d = Inr (su, d')" "store_ok d'"
    "pending_queue format origin d' = pending_queue format origin d @
       map (delivery_form parse format nowMS) (fresh_results origin (known d) ws)"
    using RecordResults_queue [of d parse origin nowMS ws format] ok s by auto
  then show "store_ok (fst (store_put origin a s))"
    by (simp add: store_put_def commit_def s a)
  show "never_evicts a s @ store_contents format origin (store_put origin a s) =
      store_contents format origin s @ store_added format origin a s"
    using r by (simp add: never_evicts_def store_contents_def store_put_def store_added_def commit_def s a)
  obtain post alive db_ok now where e: "e = (post, alive, db_ok, now)" by (cases e)
  obtain out d2 dl2 where dr: "drainStore format origin post alive db_ok now (d, dl) = (out, d2, dl2)"
    by (cases "drainStore format origin post alive db_ok now (d, dl)") auto
  note sp = drainStore_spec [OF _ dr]
  show "store_ok (fst (snd (store_drain format origin e s)))"
    and "fst (store_drain format origin e s) @ store_contents format origin (snd (store_drain format origin e s))
      = store_contents format origin s"
    using sp ok by (simp_all add: store_drain_def store_contents_def s e dr)
qed

text \<open>C5. Delivery from the local store is exactly once and in order, over any history: for every
  sequence of recorded batches and drains, with any failures, the acknowledged results followed by
  those still queued are the new results of all batches in the order they were recorded (each in
  its delivery form, duplicates recorded once).\<close>

theorem store_delivery_exactly_once:
  "case fold (queue_step (store_put origin) (store_added format origin) never_evicts (store_drain format origin)) ops
      ([], [], fresh_db, delivery_init) of
     (acked, recorded, d, dl) \<Rightarrow> acked @ pending_queue format origin d = recorded"
proof -
  obtain g n d dl where f: "fold (queue_step (store_put origin) (store_added format origin) never_evicts (store_drain format origin)) ops
      ([], [], fresh_db, delivery_init) = (g, n, d, dl)"
    by (cases rule: prod_cases4)
  have ad: "admissible always (store_put origin) (store_drain format origin) ops s" for s
    by (induction always "store_put origin" "store_drain format origin" ops s rule: admissible.induct)
      (simp_all add: always_def)
  from store_queue.history [OF _ ad f, of "[]"] show ?thesis
    by (simp add: f fresh_db_ok store_contents_def) (simp add: pending_queue_def fresh_db_def)
qed

section \<open>File names in time order\<close>

lemma dec_value_Cons: "dec_value (c # s) = digit_val c * 10 ^ length s + dec_value s"
proof -
  have "foldl (\<lambda>v c. 10 * v + digit_val c) a s = a * 10 ^ length s + foldl (\<lambda>v c. 10 * v + digit_val c) 0 s" for a
  proof (induction s arbitrary: a)
    case (Cons d s)
    from Cons [of "10 * a + digit_val d"] Cons [of "digit_val d"] show ?case by (simp add: algebra_simps)
  qed simp
  from this [of "digit_val c"] show ?thesis by (simp add: dec_value_def)
qed

lemma digit_val_le: "is_digit c \<Longrightarrow> digit_val c \<le> 9"
  by (auto simp: is_digit_def digit_val_def Let_def)

lemma dec_value_bound: "list_all is_digit s \<Longrightarrow> dec_value s < 10 ^ length s"
proof (induction s)
  case Nil
  then show ?case by (simp add: dec_value_def)
next
  case (Cons c s)
  have "digit_val c \<le> 9" using Cons.prems digit_val_le by simp
  then have "digit_val c * 10 ^ length s \<le> 9 * 10 ^ length s" by (rule mult_right_mono) simp
  moreover have "dec_value s < 10 ^ length s" using Cons by simp
  ultimately show ?case unfolding dec_value_Cons list.size(4) One_nat_def add_Suc_right add_0_right power_Suc by linarith
qed

lemma digit_val_less: "is_digit c \<Longrightarrow> is_digit d \<Longrightarrow> c < d \<longleftrightarrow> digit_val c < digit_val d"
  by (auto simp: less_char_def is_digit_def digit_val_def Let_def)

lemma digit_val_inj: "is_digit c \<Longrightarrow> is_digit d \<Longrightarrow> digit_val c = digit_val d \<Longrightarrow> c = d"
  using digit_val_less [of c d] digit_val_less [of d c] by (metis less_irrefl not_less_iff_gr_or_eq)

lemma digits_lex:
  "length s = length t \<Longrightarrow> list_all is_digit s \<Longrightarrow> list_all is_digit t \<Longrightarrow> dec_value s < dec_value t \<Longrightarrow>
     s @ u < t @ v"
proof (induction s t rule: list_induct2)
  case Nil
  then show ?case by (simp add: dec_value_def)
next
  case (Cons c s d t)
  have cd: "is_digit c" "is_digit d" using Cons.prems by simp_all
  have b: "dec_value s < 10 ^ length t" "dec_value t < 10 ^ length t"
    using dec_value_bound [of s] dec_value_bound [of t] Cons.hyps Cons.prems by simp_all
  have v: "digit_val c * 10 ^ length t + dec_value s < digit_val d * 10 ^ length t + dec_value t"
    using Cons.prems(3) Cons.hyps by (simp add: dec_value_Cons)
  have "\<not> digit_val d < digit_val c"
  proof
    assume "digit_val d < digit_val c"
    then have "(digit_val d + 1) * 10 ^ length t \<le> digit_val c * 10 ^ length t" by (intro mult_right_mono) auto
    with v b(2) show False by simp
  qed
  then consider "digit_val c < digit_val d" | "digit_val c = digit_val d" by linarith
  then show ?case
  proof cases
    case 1
    with cd show ?thesis by (simp add: digit_val_less)
  next
    case 2
    with cd have "c = d" by (simp add: digit_val_inj)
    with v Cons.IH Cons.prems show ?thesis by simp
  qed
qed

lemma dec_digits_length: "n < 10 ^ k \<Longrightarrow> 0 < k \<Longrightarrow> length (dec_digits n) \<le> k"
proof (induction k arbitrary: n)
  case (Suc k)
  show ?case
  proof (cases "n < 10")
    case False
    then have "0 < k" using Suc.prems(1) by (cases k) auto
    moreover have "n div 10 < 10 ^ k" using Suc.prems(1) by (simp add: div_less_iff_less_mult mult.commute)
    ultimately show ?thesis using Suc.IH [of "n div 10"] False by (simp add: dec_digits.simps [of n])
  qed (simp add: dec_digits.simps)
qed simp

lemma dec_value_zeros: "dec_value (replicate k (CHR ''0'') @ s) = dec_value s"
proof (induction k)
  case (Suc k)
  have "digit_val (CHR ''0'') = 0" by (simp add: digit_val_def)
  with Suc show ?case by (simp add: dec_value_Cons)
qed simp

lemma pad20_props:
  assumes "0 \<le> n" "n < 10 ^ 20"
  shows "length (pad20 n) = 20" "list_all is_digit (pad20 n)" "dec_value (pad20 n) = nat n"
proof -
  have "nat n < 10 ^ 20" using assms nat_less_iff by fastforce
  then have "length (dec_digits (nat n)) \<le> 20" by (rule dec_digits_length) simp
  then show "length (pad20 n) = 20" by (simp add: pad20_def Let_def)
  show "list_all is_digit (pad20 n)"
    using dec_digits_digits by (auto simp: pad20_def Let_def list_all_iff is_digit_def)
  show "dec_value (pad20 n) = nat n" by (simp add: pad20_def Let_def dec_value_zeros)
qed

lemma spool_name_less:
  assumes "0 \<le> n" "n < m" "m < 10 ^ 20"
  shows "spool_name n h < spool_name m h'"
proof -
  have n: "n < 10 ^ 20" and m: "0 \<le> m" using assms by simp_all
  have "pad20 n @ x < pad20 m @ y" for x y
    using pad20_props [OF assms(1) n] pad20_props [OF m assms(3)] assms(1,2) by (intro digits_lex) simp_all
  then show ?thesis by (simp add: spool_name_def)
qed

section \<open>The spool as a queue\<close>

type_synonym spool_put = "(spoolBatch \<Rightarrow> int) \<times> bool \<times> int \<times> string \<times> WireResult list \<times> string"
type_synonym spool_drain = "(nat \<Rightarrow> WireResult list \<Rightarrow> ResultsResponse option) \<times> (nat \<Rightarrow> bool) \<times> gotime"

definition spool_put :: "spool_put \<Rightarrow> resultSpool \<times> deliveryState \<Rightarrow> resultSpool \<times> deliveryState" where
  "spool_put a s = (case a of (bytes_of, wrote, nanos, hex, ws, sentAt) \<Rightarrow> case s of (sp, dl) \<Rightarrow>
     (case enqueue bytes_of wrote nanos hex ws sentAt sp of None \<Rightarrow> sp | Some (name, sp') \<Rightarrow> sp', dl))"

text \<open>The clock moves forward: every file in the spool was named at an earlier instant.\<close>

definition spool_pre :: "spool_put \<Rightarrow> resultSpool \<times> deliveryState \<Rightarrow> bool" where
  "spool_pre a s = (case a of (bytes_of, wrote, nanos, hex, ws, sentAt) \<Rightarrow>
     0 \<le> nanos \<and> nanos < 10 ^ 20 \<and>
     (\<forall>f\<in>set (spool_pending (fst s)). \<exists>n h. 0 \<le> n \<and> n < nanos \<and> sf_name f = spool_name n h))"

definition spool_added :: "spool_put \<Rightarrow> resultSpool \<times> deliveryState \<Rightarrow> WireResult list" where
  "spool_added a s = (case a of (bytes_of, wrote, nanos, hex, ws, sentAt) \<Rightarrow>
     (case those (map json_result ws) of Some rs \<Rightarrow> if wrote then rs else [] | None \<Rightarrow> []))"

text \<open>What eviction gives up: the batches at the front of the queue that are gone afterwards.\<close>

definition spool_evicted :: "spool_put \<Rightarrow> resultSpool \<times> deliveryState \<Rightarrow> WireResult list" where
  "spool_evicted a s =
     (let q = spool_queue (fst s) @ spool_added a s
      in take (length q - length (spool_queue (fst (spool_put a s)))) q)"

definition spool_drain :: "spool_drain \<Rightarrow> resultSpool \<times> deliveryState \<Rightarrow> WireResult list \<times> resultSpool \<times> deliveryState" where
  "spool_drain e s = (case e of (post, alive, now) \<Rightarrow>
     case drainSpool post alive now s of (out, sp, dl) \<Rightarrow> (do_acked out, sp, dl))"

lemma sort_key_append_max:
  assumes "\<forall>x\<in>set xs. key x \<le> key y"
  shows "sort_key key (xs @ [y]) = sort_key key xs @ [y]"
  using assms
proof (induction xs)
  case (Cons x xs)
  have "insort_key key x (zs @ [y]) = insort_key key x zs @ [y]" if "key x \<le> key y" for zs
    using that by (induction zs) auto
  with Cons show ?case by simp
qed simp

lemma enqueue_files:
  assumes "spool_ok s" "\<forall>f\<in>set (spool_pending s). sf_name f < name"
    and "f = \<lparr>sf_name = name, sf_isDir = False, sf_size = k, sf_batch = b\<rparr>" "HasSuffix name ''.json''"
    and "t = s\<lparr>sp_files := filter (\<lambda>g. sf_name g \<noteq> name) (sp_files s) @ [f]\<rparr>"
  shows "spool_ok t" "spool_pending t = spool_pending s @ [f]"
proof -
  show "spool_ok t" using assms(1) by (auto simp: spool_ok_def assms(3,5) distinct_map_filter)
  let ?P = "\<lambda>f. \<not> sf_isDir f \<and> HasSuffix (sf_name f) ''.json''"
  have "filter ?P (filter (\<lambda>g. sf_name g \<noteq> name) (sp_files s)) = filter ?P (sp_files s)"
    using assms(2) by (auto simp: spool_pending_def intro!: filter_cong)
  then have "filter ?P (sp_files t) = filter ?P (sp_files s) @ [f]" using assms(3,4) by (simp add: assms(5))
  moreover have "\<forall>x\<in>set (filter ?P (sp_files s)). sf_name x \<le> sf_name f"
    using assms(2) by (auto simp: spool_pending_def assms(3) less_imp_le)
  ultimately show "spool_pending t = spool_pending s @ [f]"
    unfolding spool_pending_def by (simp only: sort_key_append_max)
qed

lemma spool_name_json: "HasSuffix (spool_name n h) ''.json''"
  by (simp add: spool_name_def HasSuffix_def)

lemma map_singletonD: "map f xs = [v] \<Longrightarrow> \<forall>x\<in>set xs. f x = v"
  by auto

lemma drop_rest: "drop (length q - length (drop k q)) q = drop k q"
  by (cases "k \<le> length q") auto

lemma spool_put_spec:
  assumes "spool_ok sp" "spool_pre a (sp, dl)"
  shows "spool_ok (fst (spool_put a (sp, dl)))
    \<and> (\<exists>k. spool_queue (fst (spool_put a (sp, dl))) = drop k (spool_queue sp @ spool_added a (sp, dl)))"
proof -
  obtain bytes_of wrote nanos hex ws sentAt where a: "a = (bytes_of, wrote, nanos, hex, ws, sentAt)" by (cases a)
  show ?thesis
  proof (cases "ws = [] \<or> those (map json_result ws) = None \<or> \<not> wrote")
    case True
    with assms(1) show ?thesis
      by (auto simp: a spool_put_def enqueue_def spool_added_def split: option.splits intro!: exI [of _ 0])
  next
    case False
    then obtain rs where rs: "those (map json_result ws) = Some rs" by auto
    have ne: "rs \<noteq> []" using rs False by (cases ws) (auto split: option.splits)
    define f where "f = \<lparr>sf_name = spool_name nanos hex, sf_isDir = False,
      sf_size = bytes_of \<lparr>sb_Version = 1, sb_SentAt = sentAt, sb_Results = rs\<rparr>,
      sf_batch = Some \<lparr>sb_Version = 1, sb_SentAt = sentAt, sb_Results = rs\<rparr>\<rparr>"
    define t where "t = sp\<lparr>sp_files := filter (\<lambda>g. sf_name g \<noteq> spool_name nanos hex) (sp_files sp) @ [f]\<rparr>"
    have "\<forall>g\<in>set (spool_pending sp). sf_name g < spool_name nanos hex"
      using assms(2) spool_name_less by (fastforce simp: spool_pre_def a)
    note t = enqueue_files [OF assms(1) this f_def spool_name_json t_def]
    have put: "fst (spool_put a (sp, dl)) = snd (spool_prune t)"
      using False rs by (simp add: a spool_put_def enqueue_def Let_def t_def f_def)
    have "file_results f = rs" using ne by (simp add: file_results_def spool_read_def f_def)
    then have q: "spool_queue t = spool_queue sp @ spool_added a (sp, dl)"
      using t(2) rs False by (simp add: spool_queue_def spool_added_def a)
    obtain k where k: "spool_ok (snd (spool_prune t))" "spool_pending (snd (spool_prune t)) = drop k (spool_pending t)"
      by (rule spool_prune_spec [OF t(1)])
    have "concat (map file_results (spool_pending t)) =
        concat (map file_results (take k (spool_pending t))) @ concat (map file_results (drop k (spool_pending t)))"
      by (metis append_take_drop_id concat_append map_append)
    then have "spool_queue (snd (spool_prune t)) =
        drop (length (concat (map file_results (take k (spool_pending t))))) (spool_queue t)"
      by (simp add: spool_queue_def k(2))
    with put k(1) q show ?thesis by auto
  qed
qed

interpretation spool_queue: durable_queue
  "\<lambda>s. spool_queue (fst s)" "\<lambda>s. spool_ok (fst s)" spool_pre spool_put spool_added spool_evicted spool_drain
proof
  fix s :: "resultSpool \<times> deliveryState" and a :: spool_put and e :: spool_drain
  assume ok: "spool_ok (fst s)"
  obtain sp dl where s: "s = (sp, dl)" by (cases s)
  {
    assume "spool_pre a s"
    then obtain k where k: "spool_ok (fst (spool_put a s))"
      "spool_queue (fst (spool_put a s)) = drop k (spool_queue sp @ spool_added a s)"
      using spool_put_spec [of sp a dl] ok s by auto
    show "spool_ok (fst (spool_put a s))" by (rule k(1))
    have "take (length q - length (drop k q)) q @ drop k q = q" for q :: "WireResult list"
      using append_take_drop_id [of "length q - length (drop k q)" q] unfolding drop_rest .
    then show "spool_evicted a s @ spool_queue (fst (spool_put a s)) = spool_queue (fst s) @ spool_added a s"
      by (simp only: spool_evicted_def Let_def k(2)) (simp only: s fst_conv)
  }
  obtain post alive now where e: "e = (post, alive, now)" by (cases e)
  obtain out sp2 dl2 where dr: "drainSpool post alive now (sp, dl) = (out, sp2, dl2)"
    by (cases "drainSpool post alive now (sp, dl)") auto
  note d = drainSpool_spec [OF _ dr]
  show "spool_ok (fst (snd (spool_drain e s)))"
    "fst (spool_drain e s) @ spool_queue (fst (snd (spool_drain e s))) = spool_queue (fst s)"
    using d ok by (simp_all add: spool_drain_def s e dr)
qed



end
