(* ===== verification/Dispatch.thy ===== *)
theory Dispatch
  imports Cache "HOL-Library.Multiset"
begin

text \<open>
  How one scheduler tick turns due probes and triggers into checks and their results
  (\<^verbatim>\<open>internal/agent/agent.go\<close>, from \<^verbatim>\<open>executeTriggers\<close> to \<^verbatim>\<open>xrayDestination\<close>). The checkers of the
  registry, the outcome of the destination gate and the order in which goroutines finish are
  arguments: a goroutine is known by its number, and every answer of the environment may depend
  on it. An index that Go would panic on makes the value \<open>None\<close>.
\<close>

section \<open>Jobs\<close>

record checkJob =
  cj_pr :: ProbeSnapshot
  cj_runID :: string
  cj_seq :: int

definition probeJobCount :: "int \<Rightarrow> int \<Rightarrow> int" where
  "probeJobCount maxJobsPerProbe raw =
     (if raw < 1 then 1
      else if maxJobsPerProbe > 0 \<and> raw > maxJobsPerProbe then maxJobsPerProbe
      else raw)"

definition jobs_of :: "int \<Rightarrow> ProbeSnapshot \<Rightarrow> string \<Rightarrow> checkJob list" where
  "jobs_of maxJobsPerProbe pr runID =
     map (\<lambda>seq. \<lparr>cj_pr = pr, cj_runID = runID, cj_seq = seq\<rparr>)
       [1..probeJobCount maxJobsPerProbe (ps_ProbeCount pr)]"

definition trigger_probe :: "probeCache \<Rightarrow> pendingTrigger \<Rightarrow> ProbeSnapshot option" where
  "trigger_probe c t = (if ps_ID (pt_Probe t) = [] then get c (pt_ProbeID t) else Some (pt_Probe t))"

definition trigger_jobs :: "int \<Rightarrow> probeCache \<Rightarrow> pendingTrigger list \<Rightarrow> checkJob list" where
  "trigger_jobs maxJobsPerProbe c triggers =
     concat (map (\<lambda>t. case trigger_probe c t of
                        None \<Rightarrow> []
                      | Some pr \<Rightarrow> jobs_of maxJobsPerProbe pr (pt_RunID t)) triggers)"

text \<open>\<open>newRunID i\<close> is the run id drawn for the \<open>i\<close>-th due probe.\<close>

definition probe_jobs :: "int \<Rightarrow> (nat \<Rightarrow> string) \<Rightarrow> ProbeSnapshot list \<Rightarrow> checkJob list" where
  "probe_jobs maxJobsPerProbe newRunID due =
     concat (map (\<lambda>(i, pr). jobs_of maxJobsPerProbe pr (newRunID i)) (enumerate 0 due))"

section \<open>Options and destinations\<close>

fun head_object :: "goval list \<Rightarrow> gomap" where
  "head_object [] = []"
| "head_object (v # vs) = as_object (Some v)"

definition xrayDestination :: "(gofloat \<Rightarrow> string) \<Rightarrow> gomap \<Rightarrow> string option" where
  "xrayDestination fmt_float params =
     (let config = as_object (map_of params ''config'');
          outbounds = as_array (map_of config ''outbounds'') in
      if outbounds = [] then None
      else (let settings = as_object (map_of (head_object outbounds) ''settings'');
                endpoints = as_array (map_of settings ''vnext'');
                endpoints = (if endpoints = [] then as_array (map_of settings ''servers'') else endpoints) in
            if endpoints = [] then None
            else (let endpoint = head_object endpoints;
                      address = as_string (map_of endpoint ''address'') in
                  if address = [] then None
                  else Some (address @ '':'' @ fmt_v fmt_float
                         (case map_of endpoint ''port'' of None \<Rightarrow> GNil | Some p \<Rightarrow> p)))))"

definition destinationFor :: "(gofloat \<Rightarrow> string) \<Rightarrow> ProbeSnapshot \<Rightarrow> string" where
  "destinationFor fmt_float pr =
     (if ps_Prober pr = ''xray''
      then (case xrayDestination fmt_float (ps_Params pr) of Some d \<Rightarrow> d | None \<Rightarrow> ps_Target pr)
      else ps_Target pr)"

definition optionsFor :: "(gofloat \<Rightarrow> string) \<Rightarrow> Binding \<Rightarrow> ProbeSnapshot \<Rightarrow> int \<Rightarrow> Options" where
  "optionsFor fmt_float bind pr seq =
     (let timeout = i64 (ps_TimeoutMs pr * millisecond);
          timeout = (if timeout \<le> 0 then 5 * second else timeout)
      in \<lparr>o_Target = ps_Target pr, o_Timeout = timeout, o_ProbeID = ps_ID pr,
          o_Destination = destinationFor fmt_float pr, o_Seq = seq, o_Params = ps_Params pr, o_Bind = bind\<rparr>)"

section \<open>Running checks\<close>

text \<open>A checker of the registry, and its batch method when it is a \<^verbatim>\<open>probe.BatchChecker\<close>.\<close>

record checker =
  ck_Check :: "nat \<Rightarrow> Options \<Rightarrow> Result"
  ck_CheckBatch :: "(nat \<Rightarrow> Options list \<Rightarrow> Result list) option"

text \<open>What a tick takes from its environment.\<close>

record checkEnv =
  ce_fmt_float :: "gofloat \<Rightarrow> string"
  ce_reg :: "string \<Rightarrow> checker option"
  ce_wait :: "nat \<Rightarrow> string \<Rightarrow> bool"
  ce_stamp :: "nat \<Rightarrow> string"
  ce_order :: "nat \<Rightarrow> nat list"

definition wire_result :: "checkJob \<Rightarrow> Result \<Rightarrow> string \<Rightarrow> WireResult" where
  "wire_result j r stamp =
     \<lparr>wr_RunID = cj_runID j, wr_ProbeID = ps_ID (cj_pr j), wr_Result = r, wr_ObservedAt = stamp\<rparr>"

text \<open>\<open>None\<close>: the destination never cleared, nothing is reported.\<close>

definition runCheck :: "checkEnv \<Rightarrow> Binding \<Rightarrow> nat \<Rightarrow> checkJob \<Rightarrow> WireResult option" where
  "runCheck env bind i j =
     (let pr = cj_pr j; opts = optionsFor (ce_fmt_float env) bind pr (cj_seq j) in
      case ce_reg env (ps_Prober pr) of
        None \<Rightarrow> Some (wire_result j
                  (result_Fail (ps_Prober pr) (ps_Target pr) (cj_seq j) (''unknown prober '' @ go_quote (ps_Prober pr)))
                  (ce_stamp env i))
      | Some checker \<Rightarrow>
          if \<not> ce_wait env i (o_Destination opts) then None
          else Some (wire_result j (ck_Check checker i opts) (ce_stamp env i)))"

fun batch_results :: "string \<Rightarrow> checkJob list \<Rightarrow> Result list \<Rightarrow> WireResult list option" where
  "batch_results stamp [] rs = Some []"
| "batch_results stamp (j # js) [] = None"
| "batch_results stamp (j # js) (r # rs) =
     (if r_Skip r then batch_results stamp js rs
      else map_option ((#) (wire_result j r stamp)) (batch_results stamp js rs))"

definition runCheckBatch :: "checkEnv \<Rightarrow> Binding \<Rightarrow> nat \<Rightarrow> string \<Rightarrow> checkJob list \<Rightarrow> WireResult list option" where
  "runCheckBatch env bind i prober batchJobs =
     (case ce_reg env prober of
        None \<Rightarrow> None
      | Some checker \<Rightarrow>
          (case ck_CheckBatch checker of
             None \<Rightarrow> None
           | Some CheckBatch \<Rightarrow>
               batch_results (ce_stamp env i) batchJobs
                 (CheckBatch i (map (\<lambda>j. optionsFor (ce_fmt_float env) bind (cj_pr j) (cj_seq j)) batchJobs))))"

definition is_batched :: "checkEnv \<Rightarrow> checkJob \<Rightarrow> bool" where
  "is_batched env j = (case ce_reg env (ps_Prober (cj_pr j)) of
     None \<Rightarrow> False | Some checker \<Rightarrow> ck_CheckBatch checker \<noteq> None)"

definition add_batch :: "string \<Rightarrow> checkJob \<Rightarrow> (string \<times> checkJob list) list \<Rightarrow> (string \<times> checkJob list) list" where
  "add_batch prober j m =
     AList.update prober ((case map_of m prober of None \<Rightarrow> [] | Some js \<Rightarrow> js) @ [j]) m"

definition split_jobs :: "checkEnv \<Rightarrow> checkJob list \<Rightarrow> (string \<times> checkJob list) list \<times> checkJob list" where
  "split_jobs env jobs =
     (fold (\<lambda>j. add_batch (ps_Prober (cj_pr j)) j) (filter (is_batched env) jobs) [],
      filter (\<lambda>j. \<not> is_batched env j) jobs)"

text \<open>The pieces appended to the results, one per goroutine, in the order they finish.\<close>

definition pieces :: "checkEnv \<Rightarrow> Binding \<Rightarrow> (string \<times> checkJob list) list \<Rightarrow> checkJob list \<Rightarrow> WireResult list option list" where
  "pieces env bind batches singles =
     map (\<lambda>(i, (prober, js)). runCheckBatch env bind i prober js) (enumerate 0 batches) @
     map (\<lambda>(i, j). Some (case runCheck env bind i j of None \<Rightarrow> [] | Some r \<Rightarrow> [r])) (enumerate (length batches) singles)"

definition in_order :: "nat list \<Rightarrow> 'a list list \<Rightarrow> 'a list" where
  "in_order order ps = concat (map (\<lambda>i. if i < length ps then ps ! i else []) order)"

definition runChecks :: "checkEnv \<Rightarrow> Binding \<Rightarrow> checkJob list \<Rightarrow> WireResult list option" where
  "runChecks env bind jobs =
     (case split_jobs env jobs of (batches, singles) \<Rightarrow>
        map_option (\<lambda>ps. in_order (ce_order env (length ps)) ps) (those (pieces env bind batches singles)))"

section \<open>Every job is reported at most once, under its own run\<close>

definition job_tag :: "checkJob \<Rightarrow> string \<times> string \<times> int" where
  "job_tag j = (cj_runID j, ps_ID (cj_pr j), cj_seq j)"

definition result_tag :: "WireResult \<Rightarrow> string \<times> string \<times> int" where
  "result_tag w = (wr_RunID w, wr_ProbeID w, r_Seq (wr_Result w))"

text \<open>A checker answers for the checks it is asked for: the sequence numbers come back in place.\<close>

definition checkers_answer :: "checkEnv \<Rightarrow> bool" where
  "checkers_answer env \<longleftrightarrow>
     (\<forall>p c. ce_reg env p = Some c \<longrightarrow>
        (\<forall>i opts. r_Seq (ck_Check c i opts) = o_Seq opts) \<and>
        (\<forall>f i os. ck_CheckBatch c = Some f \<longrightarrow> map r_Seq (f i os) = map o_Seq os))"

text \<open>No check is given up for its destination.\<close>

definition nothing_skipped :: "checkEnv \<Rightarrow> bool" where
  "nothing_skipped env \<longleftrightarrow>
     (\<forall>i d. ce_wait env i d) \<and>
     (\<forall>p c f i os. ce_reg env p = Some c \<longrightarrow> ck_CheckBatch c = Some f \<longrightarrow> (\<forall>r\<in>set (f i os). \<not> r_Skip r))"

text \<open>All goroutines finish, each once.\<close>

definition all_finish :: "checkEnv \<Rightarrow> bool" where
  "all_finish env \<longleftrightarrow> (\<forall>n. mset (ce_order env n) = mset [0..<n])"

lemma optionsFor_seq [simp]: "o_Seq (optionsFor f b pr seq) = seq"
  by (simp add: optionsFor_def Let_def)

lemma result_tag_wire: "r_Seq r = cj_seq j \<Longrightarrow> result_tag (wire_result j r s) = job_tag j"
  by (simp add: result_tag_def wire_result_def job_tag_def)

lemma subseteq_add_mset: "A \<subseteq># B \<Longrightarrow> A \<subseteq># add_mset x B"
  by (metis add_mset_add_single mset_subset_eq_add_left subset_mset.order_trans)

lemma batch_results_tags:
  assumes "map r_Seq rs = map cj_seq js"
  shows "\<exists>out. batch_results stamp js rs = Some out
    \<and> mset (map result_tag out) \<subseteq># mset (map job_tag js)
    \<and> ((\<forall>r\<in>set rs. \<not> r_Skip r) \<longrightarrow> map result_tag out = map job_tag js)"
  using assms
proof (induction stamp js rs rule: batch_results.induct)
  case (3 stamp j js r rs)
  then obtain out where out: "batch_results stamp js rs = Some out"
    "mset (map result_tag out) \<subseteq># mset (map job_tag js)"
    "(\<forall>r\<in>set rs. \<not> r_Skip r) \<longrightarrow> map result_tag out = map job_tag js" by (cases "r_Skip r") auto
  have t: "result_tag (wire_result j r stamp) = job_tag j" using 3 by (simp add: result_tag_wire)
  show ?case
  proof (cases "r_Skip r")
    case True
    with out show ?thesis by (auto simp: subseteq_add_mset)
  next
    case False
    with out t show ?thesis by auto
  qed
qed auto

lemma runCheck_tags:
  assumes "checkers_answer env"
  shows "runCheck env bind i j = Some w \<Longrightarrow> result_tag w = job_tag j"
    and "nothing_skipped env \<Longrightarrow> runCheck env bind i j \<noteq> None"
  using assms
  by (auto simp: runCheck_def Let_def checkers_answer_def nothing_skipped_def result_tag_wire
      split: option.splits if_splits)

lemma runCheckBatch_tags:
  assumes "checkers_answer env" "ce_reg env prober = Some c" "ck_CheckBatch c = Some f"
  shows "\<exists>out. runCheckBatch env bind i prober js = Some out
    \<and> mset (map result_tag out) \<subseteq># mset (map job_tag js)
    \<and> (nothing_skipped env \<longrightarrow> map result_tag out = map job_tag js)"
proof -
  let ?os = "map (\<lambda>j. optionsFor (ce_fmt_float env) bind (cj_pr j) (cj_seq j)) js"
  have "map r_Seq (f i ?os) = map o_Seq ?os" using assms by (auto simp: checkers_answer_def)
  then have "map r_Seq (f i ?os) = map cj_seq js" by (simp add: o_def)
  from batch_results_tags [OF this, of "ce_stamp env i"] show ?thesis
    using assms(2,3) unfolding runCheckBatch_def nothing_skipped_def by (simp only: option.case) blast
qed

subsection \<open>Grouping loses nothing\<close>

lemma add_batch_jobs:
  assumes "distinct (map fst m)"
  shows "mset (concat (map snd (add_batch p j m))) = add_mset j (mset (concat (map snd m)))"
proof -
  have "mset (concat (map snd (AList.update p (js @ [j]) m))) = add_mset j (mset (concat (map snd m)))"
    if "map_of m p = (if js = [] then None else Some js) \<or> map_of m p = Some js" for js
    using assms that
  proof (induction m)
    case (Cons a m)
    then show ?case by (cases a) (auto split: if_splits)
  qed (auto split: if_splits)
  from this [of "[]"] this show ?thesis by (cases "map_of m p") (auto simp: add_batch_def)
qed

lemma add_batch_distinct: "distinct (map fst m) \<Longrightarrow> distinct (map fst (add_batch p j m))"
  by (simp add: add_batch_def)

lemma add_batch_keys: "fst ` set (add_batch p j m) = insert p (fst ` set m)"
  by (simp add: add_batch_def dom_update)

lemma fold_add_batch:
  assumes "distinct (map fst m)"
  shows "mset (concat (map snd (fold (\<lambda>j. add_batch (ps_Prober (cj_pr j)) j) js m))) = mset js + mset (concat (map snd m))
    \<and> fst ` set (fold (\<lambda>j. add_batch (ps_Prober (cj_pr j)) j) js m) = (\<lambda>j. ps_Prober (cj_pr j)) ` set js \<union> fst ` set m"
  using assms
proof (induction js arbitrary: m)
  case (Cons j js)
  from Cons.IH [OF add_batch_distinct [OF Cons.prems], of "ps_Prober (cj_pr j)" j] show ?case
    by (simp add: add_batch_jobs [OF Cons.prems] add_batch_keys)
qed simp

lemma split_jobs_conserve:
  assumes "split_jobs env jobs = (batches, singles)"
  shows "mset (concat (map snd batches)) + mset singles = mset jobs"
    and "(p, js) \<in> set batches \<Longrightarrow> \<exists>c f. ce_reg env p = Some c \<and> ck_CheckBatch c = Some f"
proof -
  have b: "batches = fold (\<lambda>j. add_batch (ps_Prober (cj_pr j)) j) (filter (is_batched env) jobs) []"
    "singles = filter (\<lambda>j. \<not> is_batched env j) jobs" using assms by (simp_all add: split_jobs_def)
  have f: "mset (concat (map snd batches)) = mset (filter (is_batched env) jobs)"
    "fst ` set batches = (\<lambda>j. ps_Prober (cj_pr j)) ` set (filter (is_batched env) jobs)"
    using fold_add_batch [of "[]" "filter (is_batched env) jobs"] b by simp_all
  then show "mset (concat (map snd batches)) + mset singles = mset jobs"
    by (simp add: b multiset_partition [symmetric])
  assume "(p, js) \<in> set batches"
  then have "p \<in> (\<lambda>j. ps_Prober (cj_pr j)) ` set (filter (is_batched env) jobs)" using f(2) by force
  then show "\<exists>c f. ce_reg env p = Some c \<and> ck_CheckBatch c = Some f"
    by (auto simp: is_batched_def split: option.splits)
qed

lemma in_order_mset:
  assumes "mset order = mset [0..<length ps]"
  shows "mset (in_order order ps) = mset (concat ps)"
proof -
  have m: "mset (concat (map f xs)) = (\<Sum>x\<in>#mset xs. mset (f x))" for f :: "nat \<Rightarrow> 'a list" and xs
    by (induction xs) auto
  have "mset (in_order order ps) = mset (concat (map (\<lambda>i. if i < length ps then ps ! i else []) [0..<length ps]))"
    unfolding in_order_def m using assms by simp
  also have "map (\<lambda>i. if i < length ps then ps ! i else []) [0..<length ps] = ps"
    by (rule nth_equalityI) auto
  finally show ?thesis .
qed


lemma those_tags:
  assumes "\<forall>(x, js)\<in>set xs. \<exists>out. x = Some out \<and> mset (map result_tag out) \<subseteq># mset (map job_tag js)
      \<and> (N \<longrightarrow> map result_tag out = map job_tag js)"
  shows "\<exists>ps. those (map fst xs) = Some ps
    \<and> mset (map result_tag (concat ps)) \<subseteq># mset (map job_tag (concat (map snd xs)))
    \<and> (N \<longrightarrow> map result_tag (concat ps) = map job_tag (concat (map snd xs)))"
  using assms
proof (induction xs)
  case (Cons a xs)
  obtain x js where a: "a = (x, js)" by (cases a)
  from Cons.prems a obtain out where out: "x = Some out" "mset (map result_tag out) \<subseteq># mset (map job_tag js)"
    "N \<longrightarrow> map result_tag out = map job_tag js" by auto
  from Cons obtain ps where ps: "those (map fst xs) = Some ps"
    "mset (map result_tag (concat ps)) \<subseteq># mset (map job_tag (concat (map snd xs)))"
    "N \<longrightarrow> map result_tag (concat ps) = map job_tag (concat (map snd xs))" by auto
  have "mset (map result_tag (concat (out # ps))) \<subseteq># mset (map job_tag (concat (map snd (a # xs))))"
    using subset_mset.add_mono [OF out(2) ps(2)] by (simp add: a)
  with out ps show ?case by (intro exI [of _ "out # ps"]) (simp add: a)
qed simp

lemma map_enumerate_snd: "map (\<lambda>(i, x). g x) (enumerate n xs) = map g xs"
  by (induction xs arbitrary: n) auto

lemma runChecks_tags:
  assumes "checkers_answer env" "all_finish env"
  shows "\<exists>rs. runChecks env bind jobs = Some rs
    \<and> mset (map result_tag rs) \<subseteq># mset (map job_tag jobs)
    \<and> (nothing_skipped env \<longrightarrow> mset (map result_tag rs) = mset (map job_tag jobs))"
proof -
  obtain batches singles where sp: "split_jobs env jobs = (batches, singles)" by (cases "split_jobs env jobs")
  let ?xs = "map (\<lambda>(i, (p, js)). (runCheckBatch env bind i p js, js)) (enumerate 0 batches) @
    map (\<lambda>(i, j). (Some (case runCheck env bind i j of None \<Rightarrow> [] | Some r \<Rightarrow> [r]), [j])) (enumerate (length batches) singles)"
  have batch: "\<exists>out. runCheckBatch env bind i p js = Some out \<and> mset (map result_tag out) \<subseteq># mset (map job_tag js)
      \<and> (nothing_skipped env \<longrightarrow> map result_tag out = map job_tag js)" if "(p, js) \<in> set batches" for i p js
    using split_jobs_conserve(2) [OF sp that] runCheckBatch_tags [OF assms(1)] by blast
  have single: "\<exists>out. Some (case runCheck env bind i j of None \<Rightarrow> [] | Some r \<Rightarrow> [r]) = Some out
      \<and> mset (map result_tag out) \<subseteq># mset (map job_tag [j])
      \<and> (nothing_skipped env \<longrightarrow> map result_tag out = map job_tag [j])" for i j
    using runCheck_tags [OF assms(1), of bind i j] by (cases "runCheck env bind i j") auto
  have "\<forall>(x, js)\<in>set ?xs. \<exists>out. x = Some out \<and> mset (map result_tag out) \<subseteq># mset (map job_tag js)
      \<and> (nothing_skipped env \<longrightarrow> map result_tag out = map job_tag js)"
    using batch single by (auto dest!: set_zip_rightD simp: enumerate_eq_zip)
  from those_tags [OF this] obtain ps where ps: "those (map fst ?xs) = Some ps"
    "mset (map result_tag (concat ps)) \<subseteq># mset (map job_tag (concat (map snd ?xs)))"
    "nothing_skipped env \<longrightarrow> map result_tag (concat ps) = map job_tag (concat (map snd ?xs))" by blast
  have fst: "map fst ?xs = pieces env bind batches singles"
    by (auto simp: pieces_def o_def split_def)
  have "map snd ?xs = map (\<lambda>(i, b). snd b) (enumerate 0 batches) @ map (\<lambda>(i, j). [j]) (enumerate (length batches) singles)"
    by (auto simp: o_def split_def)
  then have "concat (map snd ?xs) = concat (map snd batches) @ singles"
    by (simp only: map_enumerate_snd) simp
  then have jobs: "mset (map job_tag (concat (map snd ?xs))) = mset (map job_tag jobs)"
    using split_jobs_conserve(1) [OF sp] by (metis mset_append mset_map)
  have ord: "mset (in_order (ce_order env (length ps)) ps) = mset (concat ps)"
    using assms(2) by (intro in_order_mset) (simp add: all_finish_def)
  have run: "runChecks env bind jobs = Some (in_order (ce_order env (length ps)) ps)"
    using ps(1) unfolding fst by (simp add: runChecks_def sp)
  have eq: "mset (map result_tag (in_order (ce_order env (length ps)) ps)) = mset (map result_tag (concat ps))"
    using ord by (simp only: mset_map)
  show ?thesis
  proof (intro exI conjI impI)
    show "runChecks env bind jobs = Some (in_order (ce_order env (length ps)) ps)" by (rule run)
    show "mset (map result_tag (in_order (ce_order env (length ps)) ps)) \<subseteq># mset (map job_tag jobs)"
      using ps(2) unfolding eq jobs .
    assume "nothing_skipped env"
    with ps(3) show "mset (map result_tag (in_order (ce_order env (length ps)) ps)) = mset (map job_tag jobs)"
      unfolding eq jobs [symmetric] by simp
  qed
qed


text \<open>Whatever the split into batches and single checks and whatever the order the goroutines
  finish in, a tick panics nowhere and reports every check it was asked for at most once, under the
  run, the probe and the sequence number of its job; when no destination keeps a check waiting too
  long, it reports every check exactly once.\<close>

theorem runChecks_reports_once:
  assumes "checkers_answer env" "all_finish env"
  shows "\<exists>rs. runChecks env bind jobs = Some rs
    \<and> mset (map result_tag rs) \<subseteq># mset (map job_tag jobs)
    \<and> (nothing_skipped env \<longrightarrow> mset (map result_tag rs) = mset (map job_tag jobs))"
  by (rule runChecks_tags [OF assms])

definition demo_checker :: "bool \<Rightarrow> checker" where
  "demo_checker batched =
     \<lparr>ck_Check = \<lambda>i opts. result_Ok ''tcp'' (o_Target opts) (o_Seq opts) 5 None,
      ck_CheckBatch = (if batched
        then Some (\<lambda>i os. map (\<lambda>opts. result_Ok ''xray'' (o_Target opts) (o_Seq opts) 7 None) os) else None)\<rparr>"

definition demo_env :: checkEnv where
  "demo_env = \<lparr>ce_fmt_float = \<lambda>_. ''443'',
     ce_reg = (\<lambda>p. if p = ''tcp'' then Some (demo_checker False) else if p = ''xray'' then Some (demo_checker True) else None),
     ce_wait = \<lambda>_ _. True, ce_stamp = \<lambda>_. ''T'', ce_order = \<lambda>n. rev [0..<n]\<rparr>"

definition demo_snapshot :: "string \<Rightarrow> string \<Rightarrow> int \<Rightarrow> ProbeSnapshot" where
  "demo_snapshot pid prober n = \<lparr>ps_ID = pid, ps_Target = ''t'', ps_Prober = prober, ps_ProbeCount = n,
     ps_TimeoutMs = 1000, ps_ScheduleType = ''interval'', ps_IntervalSeconds = 60, ps_StartsAt = 0,
     ps_EndsAt = 0, ps_Params = [], ps_Status = ''active''\<rparr>"

definition demo_jobs :: "checkJob list" where
  "demo_jobs = probe_jobs 4 (\<lambda>i. ''r'' @ Itoa (int i))
     [demo_snapshot ''a'' ''tcp'' 2, demo_snapshot ''b'' ''xray'' 2, demo_snapshot ''c'' ''gone'' 1]"

lemma demo_env_ok: "checkers_answer demo_env" "all_finish demo_env" "nothing_skipped demo_env"
  by (auto simp: checkers_answer_def all_finish_def nothing_skipped_def demo_env_def demo_checker_def
      result_Ok_def o_def split: if_splits)

theorem runChecks_reports_once_witness:
  "mset (map result_tag (the (runChecks demo_env \<lparr>SourceIP = None, Interface = []\<rparr> demo_jobs))) = mset (map job_tag demo_jobs)
   \<and> length demo_jobs = 5"
proof
  show "mset (map result_tag (the (runChecks demo_env \<lparr>SourceIP = None, Interface = []\<rparr> demo_jobs))) = mset (map job_tag demo_jobs)"
    using runChecks_reports_once [OF demo_env_ok(1,2), of "\<lparr>SourceIP = None, Interface = []\<rparr>" demo_jobs] demo_env_ok(3)
    by auto
  show "length demo_jobs = 5" by code_simp
qed

lemma probeJobCount_bounds:
  "1 \<le> probeJobCount m raw" "0 < m \<Longrightarrow> probeJobCount m raw \<le> m" "probeJobCount m raw \<le> max 1 raw"
  by (auto simp: probeJobCount_def)

lemma length_jobs_of: "int (length (jobs_of m pr r)) = probeJobCount m (ps_ProbeCount pr)"
  using probeJobCount_bounds(1) [of m "ps_ProbeCount pr"] by (simp add: jobs_of_def)

lemma length_probe_jobs:
  "int (length (probe_jobs m newRunID due)) = sum_list (map (\<lambda>pr. probeJobCount m (ps_ProbeCount pr)) due)"
proof -
  have "int (length (concat (map (\<lambda>(i, pr). jobs_of m pr (newRunID i)) (enumerate n due)))) =
      sum_list (map (\<lambda>pr. probeJobCount m (ps_ProbeCount pr)) due)" for n
    by (induction due arbitrary: n) (simp_all add: length_jobs_of)
  then show ?thesis by (simp add: probe_jobs_def)
qed

lemma length_trigger_jobs:
  assumes "0 < m"
  shows "int (length (trigger_jobs m c ts)) \<le> int (length ts) * m"
proof (induction ts)
  case (Cons t ts)
  have "int (length (case trigger_probe c t of None \<Rightarrow> [] | Some pr \<Rightarrow> jobs_of m pr (pt_RunID t))) \<le> m"
    using assms probeJobCount_bounds(2) [OF assms] by (auto simp: length_jobs_of split: option.splits)
  with Cons show ?case by (simp add: trigger_jobs_def algebra_simps)
qed (simp add: trigger_jobs_def)

section \<open>Destinations\<close>

lemma destinationFor_direct: "ps_Prober pr \<noteq> ''xray'' \<Longrightarrow> destinationFor f pr = ps_Target pr"
  by (simp add: destinationFor_def)

text \<open>The timeout a check runs under is never zero or negative, overflow of the conversion included.\<close>

lemma optionsFor_timeout_pos: "0 < o_Timeout (optionsFor f b pr seq)"
  by (simp add: optionsFor_def Let_def second_def)


end
