(* ===== verification/Destgate.thy ===== *)
theory Destgate
  imports Cache
begin

text \<open>
  The node-wide spacing of attempts to one destination (\<^verbatim>\<open>internal/destgate/destgate.go\<close>): the
  table of last grants with its eviction, one pass of \<open>Wait\<close> through the mutex, and the loop of
  \<open>Wait\<close> around it. Goroutines interleave between passes, so a run of the process is a sequence
  of passes, each with the time it read.
\<close>

section \<open>State and operations\<close>

definition maxDestinations :: nat where "maxDestinations = 4096"

record gate =
  g_last :: "(string \<times> gotime) list"
  g_floor :: duration
  g_maxWait :: duration

definition gate_init :: gate where
  "gate_init = \<lparr>g_last = [], g_floor = 0, g_maxWait = 0\<rparr>"

definition Configure :: "duration \<Rightarrow> duration \<Rightarrow> gate \<Rightarrow> gate" where
  "Configure floorD maxWaitD g = g\<lparr>g_floor := floorD, g_maxWait := maxWaitD\<rparr>"

definition evictOldestLocked :: "gate \<Rightarrow> gate" where
  "evictOldestLocked g =
     (let entries = sort_key snd (g_last g);
          remove = length entries div 4;
          remove = (if remove < 1 then 1 else remove)
      in g\<lparr>g_last := fold (\<lambda>(dest, t). AList.delete dest) (take remove entries) (g_last g)\<rparr>)"

text \<open>One pass: granted, or the time to sleep before the next one.\<close>

datatype passResult = Granted | Sleep duration

definition wait_pass :: "string \<Rightarrow> gotime \<Rightarrow> gate \<Rightarrow> passResult \<times> gate" where
  "wait_pass dest now g =
     (if dest = [] \<or> g_floor g \<le> 0 then (Granted, g)
      else (case map_of (g_last g) dest of
              None \<Rightarrow> (let g = (if length (g_last g) \<ge> maxDestinations then evictOldestLocked g else g)
                      in (Granted, g\<lparr>g_last := AList.update dest now (g_last g)\<rparr>))
            | Some prev \<Rightarrow>
                if time_sub now prev \<ge> g_floor g
                then (Granted, g\<lparr>g_last := AList.update dest now (g_last g)\<rparr>)
                else (Sleep (g_floor g - time_sub now prev), g)))"

text \<open>The loop. \<open>wakes\<close> says how each sleep ends: at an instant, after other goroutines changed the
  gate, or (\<^const>\<open>None\<close>) by the context, whose deadline is the lesser of the caller's and the
  configured maximum. The result is \<^const>\<open>None\<close> while the caller still sleeps.\<close>

fun wait_loop :: "string \<Rightarrow> (gotime \<times> (gate \<Rightarrow> gate)) option list \<Rightarrow> gate \<Rightarrow> bool option \<times> gate" where
  "wait_loop dest [] g = (None, g)"
| "wait_loop dest (None # ws) g = (Some False, g)"
| "wait_loop dest (Some (now, others) # ws) g =
     (case wait_pass dest now (others g) of
        (Granted, g) \<Rightarrow> (Some True, g)
      | (Sleep d, g) \<Rightarrow> wait_loop dest ws g)"

section \<open>The process as a machine\<close>

text \<open>The calls of \<open>Configure\<close> and the passes of all waiting goroutines, in the order they get the
  mutex.\<close>

datatype gateOp = OpConfigure duration duration | OpPass string gotime

definition gate_step :: "gateOp \<Rightarrow> gate \<Rightarrow> gate" where
  "gate_step op g = (case op of
      OpConfigure f m \<Rightarrow> Configure f m g
    | OpPass dest now \<Rightarrow> snd (wait_pass dest now g))"

definition gate_ok :: "gate \<Rightarrow> bool" where
  "gate_ok g \<longleftrightarrow> distinct (map fst (g_last g)) \<and> length (g_last g) \<le> maxDestinations"

lemma length_update_le: "length (AList.update k v m) = (if k \<in> fst ` set m then length m else Suc (length m))"
  by (induction m) auto

lemma length_delete_mem: "x \<in> set m \<Longrightarrow> length (AList.delete (fst x) m) < length m"
  unfolding AList.delete_eq by (rule length_filter_less) auto

lemma fold_delete_le:
  "distinct (map fst m) \<Longrightarrow> distinct (map fst (fold (\<lambda>(d, t). AList.delete d) es m))
     \<and> length (fold (\<lambda>(d, t). AList.delete d) es m) \<le> length m"
proof (induction es arbitrary: m)
  case (Cons e es)
  have "distinct (map fst (AList.delete (fst e) m))" using Cons.prems by simp
  moreover have "length (AList.delete (fst e) m) \<le> length m" by (simp add: AList.delete_eq)
  ultimately show ?case using Cons.IH [of "AList.delete (fst e) m"] by (auto split: prod.splits)
qed simp

text \<open>An eviction frees at least one entry of a non-empty table.\<close>

lemma evictOldestLocked_less:
  assumes "distinct (map fst (g_last g))" "g_last g \<noteq> []"
  shows "length (g_last (evictOldestLocked g)) < length (g_last g)"
    "distinct (map fst (g_last (evictOldestLocked g)))"
proof -
  let ?es = "sort_key snd (g_last g)"
  define n where "n = (if length ?es div 4 < 1 then 1 else length ?es div 4)"
  obtain e es where s: "?es = e # es" using assms(2) by (cases ?es) (auto dest: arg_cong [of _ _ length])
  have n: "0 < n" by (simp add: n_def)
  then have t: "take n ?es = e # take (n - 1) es" using s by (cases n) auto
  have "e \<in> set (g_last g)" using s by (metis list.set_intros(1) set_sort)
  then have "length (AList.delete (fst e) (g_last g)) < length (g_last g)"
    by (rule length_delete_mem)
  moreover have "distinct (map fst (AList.delete (fst e) (g_last g)))" using assms(1) by simp
  ultimately have "length (fold (\<lambda>(d, t). AList.delete d) (take n ?es) (g_last g)) < length (g_last g)
      \<and> distinct (map fst (fold (\<lambda>(d, t). AList.delete d) (take n ?es) (g_last g)))"
    using fold_delete_le [of "AList.delete (fst e) (g_last g)" "take (n - 1) es"] t
    by (auto split: prod.splits)
  moreover have "g_last (evictOldestLocked g) = fold (\<lambda>(d, t). AList.delete d) (take n ?es) (g_last g)"
    by (simp add: evictOldestLocked_def n_def Let_def)
  ultimately show "length (g_last (evictOldestLocked g)) < length (g_last g)"
    "distinct (map fst (g_last (evictOldestLocked g)))" by simp_all
qed

lemma wait_pass_ok: "gate_ok g \<Longrightarrow> gate_ok (snd (wait_pass dest now g))"
proof -
  assume g: "gate_ok g"
  let ?e = "if length (g_last g) \<ge> maxDestinations then evictOldestLocked g else g"
  have e: "distinct (map fst (g_last ?e))" "length (g_last ?e) < maxDestinations"
  proof (atomize (full), cases "length (g_last g) \<ge> maxDestinations")
    case True
    then have "g_last g \<noteq> []" by (auto simp: maxDestinations_def)
    with True g evictOldestLocked_less [of g]
    show "distinct (map fst (g_last ?e)) \<and> length (g_last ?e) < maxDestinations" by (simp add: gate_ok_def)
  qed (use g in \<open>simp add: gate_ok_def\<close>)
  have "length (AList.update dest now (g_last ?e)) \<le> maxDestinations" using e(2) by (simp add: length_update_le)
  with e(1) have n: "gate_ok (?e\<lparr>g_last := AList.update dest now (g_last ?e)\<rparr>)" by (simp add: gate_ok_def)
  have "gate_ok (g\<lparr>g_last := AList.update dest now (g_last g)\<rparr>)" if "map_of (g_last g) dest = Some p" for p
  proof -
    have "dest \<in> fst ` set (g_last g)" using that map_of_eq_None_iff [of "g_last g" dest] by auto
    with g show ?thesis by (simp add: gate_ok_def length_update_le)
  qed
  with g n show ?thesis by (auto simp: wait_pass_def Let_def split: option.splits)
qed

lemma Configure_ok: "gate_ok g \<Longrightarrow> gate_ok (Configure f m g)"
  by (simp add: gate_ok_def Configure_def)

interpretation gate: invariant_machine gate_init gate_step gate_ok
proof
  show "gate_ok gate_init" by (simp add: gate_ok_def gate_init_def)
  show "gate_ok g \<Longrightarrow> gate_ok (gate_step op g)" for g op
    by (cases op) (simp_all add: gate_step_def wait_pass_ok Configure_ok)
qed

text \<open>The table of destinations is bounded whatever the node is asked to check: after any
  sequence of calls it holds at most 4096 destinations, each once.\<close>

theorem gate_bounded:
  "length (g_last (fold gate_step ops gate_init)) \<le> 4096 \<and>
   distinct (map fst (g_last (fold gate_step ops gate_init)))"
  using gate.inv_run [of ops] by (simp add: gate_ok_def maxDestinations_def)

section \<open>Spacing\<close>

text \<open>The instants at which a destination was granted along a sequence of passes.\<close>

fun grants :: "string \<Rightarrow> (string \<times> gotime) list \<Rightarrow> gate \<Rightarrow> gotime list" where
  "grants dest [] g = []"
| "grants dest ((d, now) # ps) g =
     (case wait_pass d now g of
        (Granted, g') \<Rightarrow> (if d = dest then [now] else []) @ grants dest ps g'
      | (Sleep _, g') \<Rightarrow> grants dest ps g')"

fun spaced :: "duration \<Rightarrow> gotime list \<Rightarrow> bool" where
  "spaced f (t # u # ts) = (f \<le> u - t \<and> spaced f (u # ts))"
| "spaced f ts = True"

lemma wait_pass_cases:
  assumes "dest \<noteq> []" "0 < g_floor g" "map_of (g_last g) dest = None \<Longrightarrow> length (g_last g) < maxDestinations"
  shows "wait_pass dest now g =
     (case map_of (g_last g) dest of
        None \<Rightarrow> (Granted, g\<lparr>g_last := AList.update dest now (g_last g)\<rparr>)
      | Some prev \<Rightarrow> if time_sub now prev \<ge> g_floor g
          then (Granted, g\<lparr>g_last := AList.update dest now (g_last g)\<rparr>)
          else (Sleep (g_floor g - time_sub now prev), g))"
  using assms by (cases "map_of (g_last g) dest") (auto simp: wait_pass_def Let_def)

lemma grants_spaced:
  assumes "0 < g_floor g" "g_floor g < 2 ^ 63" "distinct (map fst (g_last g))"
    and "card (fst ` set (g_last g) \<union> fst ` set ps) \<le> maxDestinations" "dest \<noteq> []"
  shows "spaced (g_floor g) (case map_of (g_last g) dest of None \<Rightarrow> grants dest ps g | Some t \<Rightarrow> t # grants dest ps g)"
  using assms
proof (induction ps arbitrary: g)
  case Nil
  then show ?case by (simp split: option.splits)
next
  case (Cons p ps)
  obtain d now where p: "p = (d, now)" by (cases p)
  let ?u = "g\<lparr>g_last := AList.update d now (g_last g)\<rparr>"
  have u: "0 < g_floor ?u" "g_floor ?u < 2 ^ 63" "distinct (map fst (g_last ?u))"
    "card (fst ` set (g_last ?u) \<union> fst ` set ps) \<le> maxDestinations"
  proof -
    have "fst ` set (g_last ?u) \<union> fst ` set ps = fst ` set (g_last g) \<union> fst ` set (p # ps)"
      using dom_map_of_conv_image_fst [of "AList.update d now (g_last g)"] dom_map_of_conv_image_fst [of "g_last g"]
      by (auto simp: p)
    with Cons.prems(4) show "card (fst ` set (g_last ?u) \<union> fst ` set ps) \<le> maxDestinations" by simp
  qed (use Cons.prems in simp_all)
  have l: "card (fst ` set (g_last g) \<union> fst ` set ps) \<le> maxDestinations"
    using Cons.prems(4) by (rule order_trans [OF card_mono, rotated -1]) auto
  note ihu = Cons.IH [OF u Cons.prems(5)] and ihg = Cons.IH [OF Cons.prems(1-3) l Cons.prems(5)]
  show ?case
  proof (cases "d = []")
    case True
    then have "wait_pass d now g = (Granted, g)" by (simp add: wait_pass_def)
    then have "grants dest (p # ps) g = grants dest ps g" using True Cons.prems(5) by (simp add: p)
    with ihg show ?thesis by (simp only:)
  next
    case False
    have room: "length (g_last g) < maxDestinations" if "map_of (g_last g) d = None"
    proof -
      have "d \<notin> fst ` set (g_last g)" using that by (simp add: map_of_eq_None_iff)
      then have "Suc (card (fst ` set (g_last g))) \<le> maxDestinations"
        using order_trans [OF card_mono Cons.prems(4), of "insert d (fst ` set (g_last g))"]
        by (simp add: p subset_insertI2)
      moreover have "card (fst ` set (g_last g)) = length (g_last g)"
        using Cons.prems(3) distinct_card by fastforce
      ultimately show ?thesis by simp
    qed
    note w = wait_pass_cases [OF False Cons.prems(1) room, of now]
    have gap: "g_floor g \<le> time_sub now prev \<longleftrightarrow> g_floor g \<le> now - prev" for prev
      using Cons.prems(1,2) by (intro time_sub_ge_iff) auto
    show ?thesis
    proof (cases "\<exists>prev. map_of (g_last g) d = Some prev \<and> \<not> g_floor g \<le> time_sub now prev")
      case True
      then have "grants dest (p # ps) g = grants dest ps g" using w by (auto simp: p)
      with ihg show ?thesis by (simp only:)
    next
      case False
      then have "wait_pass d now g = (Granted, ?u)" using w by (auto split: option.splits)
      then have gr: "grants dest (p # ps) g = (if d = dest then [now] else []) @ grants dest ps ?u" by (simp add: p)
      show ?thesis
      proof (cases "d = dest")
        case True
        then have sp: "spaced (g_floor g) (now # grants dest ps ?u)" using ihu by simp
        with False gap True gr show ?thesis by (auto split: option.splits)
      next
        case False
        with ihu gr show ?thesis by (simp split: option.splits)
      qed
    qed
  qed
qed

text \<open>C38. Two attempts at one destination are never closer than the configured floor: along any
  interleaving of the passes of all goroutines over at most 4096 destinations, consecutive grants
  of the same destination are at least the floor apart.\<close>

theorem wait_spacing:
  assumes "0 < floorD" "floorD < 2 ^ 63" "card (fst ` set passes) \<le> 4096" "dest \<noteq> []"
  shows "spaced floorD (grants dest passes (Configure floorD maxWaitD gate_init))"
  using grants_spaced [of "Configure floorD maxWaitD gate_init" passes dest] assms
  by (simp add: Configure_def gate_init_def maxDestinations_def)

theorem wait_spacing_witness:
  "spaced 10 (grants ''h'' [(''h'', 0), (''k'', 1), (''h'', 5), (''h'', 10), (''k'', 12), (''h'', 21)]
     (Configure 10 60 gate_init)) \<and>
   grants ''h'' [(''h'', 0), (''k'', 1), (''h'', 5), (''h'', 10), (''k'', 12), (''h'', 21)]
     (Configure 10 60 gate_init) = [0, 10, 21]"
proof -
  have "card (fst ` set [(''h'', 0::int), (''k'', 1), (''h'', 5), (''h'', 10), (''k'', 12), (''h'', 21)]) \<le> 4096"
    by (rule order_trans [OF card_image_le]) (auto intro: order_trans [OF card_length])
  moreover have "grants ''h'' [(''h'', 0), (''k'', 1), (''h'', 5), (''h'', 10), (''k'', 12), (''h'', 21)]
     (Configure 10 60 gate_init) = [0, 10, 21]"
    by code_simp
  ultimately show ?thesis using wait_spacing [of 10 "[(''h'', 0), (''k'', 1), (''h'', 5), (''h'', 10), (''k'', 12), (''h'', 21)]" "''h''" 60]
    by simp
qed

text \<open>A caller that sleeps is not starved by its own timer: if nothing else takes the destination
  meanwhile, the pass after the sleep it was told to take is granted, so with no competition
  \<open>Wait\<close> returns after at most one sleep.\<close>

theorem wait_once_is_enough:
  assumes "wait_pass dest now g = (Sleep d, g')" "now + d \<le> later" "\<bar>later - now\<bar> < 2 ^ 62" "g_floor g < 2 ^ 62"
    and "\<And>prev. map_of (g_last g) dest = Some prev \<Longrightarrow> \<bar>now - prev\<bar> < 2 ^ 62"
  shows "fst (wait_loop dest [Some (now, id), Some (later, id)] g) = Some True \<and> 0 < d"
proof -
  have a: "dest \<noteq> []" "0 < g_floor g"
    using assms(1) by (cases "dest = [] \<or> g_floor g \<le> 0"; simp add: wait_pass_def)+
  obtain p where m: "map_of (g_last g) dest = Some p"
    using assms(1) a by (cases "map_of (g_last g) dest") (simp_all add: wait_pass_def Let_def)
  have p: "map_of (g_last g) dest = Some p" "time_sub now p < g_floor g" "d = g_floor g - time_sub now p" "g' = g"
    using assms(1) a m by (cases "time_sub now p \<ge> g_floor g"; simp add: wait_pass_def)+
  have s: "time_sub now p = now - p" using assms(5) [OF p(1)] by simp
  have "time_sub later p = later - p" using assms(3) assms(5) [OF p(1)] by simp
  with p s a assms(2) have "wait_pass dest later g = (Granted, g\<lparr>g_last := AList.update dest later (g_last g)\<rparr>)"
    by (simp add: wait_pass_def)
  with assms(1) p(2-4) show ?thesis by simp
qed

theorem wait_once_is_enough_witness:
  "fst (wait_loop ''h'' [Some (4, id), Some (10, id)] \<lparr>g_last = [(''h'', 0)], g_floor = 10, g_maxWait = 0\<rparr>) = Some True"
proof -
  have "wait_pass ''h'' 4 \<lparr>g_last = [(''h'', 0)], g_floor = 10, g_maxWait = 0\<rparr>
      = (Sleep 6, \<lparr>g_last = [(''h'', 0)], g_floor = 10, g_maxWait = 0\<rparr>)"
    by (simp add: wait_pass_def)
  from wait_once_is_enough [OF this, of 10] show ?thesis by simp
qed

end
