(* ===== verification/Installer.thy ===== *)
theory Installer
  imports Wire
begin

text \<open>
  How the agent hands itself over to its installer (\<^verbatim>\<open>internal/agent/agent.go\<close>): the flags of a
  batch of module actions, the quoting of values for POSIX \<^verbatim>\<open>sh\<close>, the generated script and the
  wrapper it is launched with. The last section reads the generated command back with a word
  splitter for the quoting rules of \<^verbatim>\<open>sh\<close>.
\<close>

section \<open>Flags and quoting\<close>

fun moduleActionFlags :: "string list \<Rightarrow> string list" where
  "moduleActionFlags [] = []"
| "moduleActionFlags (action # actions) =
     (case CutPrefix action ''install_'' of
        (flag, True) \<Rightarrow> (''--install-module='' @ flag) # moduleActionFlags actions
      | (_, False) \<Rightarrow>
          (case CutPrefix action ''remove_'' of
             (flag, True) \<Rightarrow> (''--remove-module='' @ flag) # moduleActionFlags actions
           | (_, False) \<Rightarrow> moduleActionFlags actions))"

definition quote_char :: char where "quote_char = CHR 0x27"
definition backslash_char :: char where "backslash_char = CHR 0x5C"

definition shellQuote :: "string \<Rightarrow> string" where
  "shellQuote v =
     [quote_char] @ ReplaceAll v [quote_char] [quote_char, backslash_char, quote_char, quote_char] @ [quote_char]"

definition installScriptURL :: string where
  "installScriptURL = ''https://radar.mehrnet.com/install/node.sh''"

definition installFetchMaxAttempts :: int where "installFetchMaxAttempts = 5"

definition install_args :: "string \<Rightarrow> string \<Rightarrow> string \<Rightarrow> string \<Rightarrow> string list \<Rightarrow> string list" where
  "install_args nodeID apiKey apiURL proxyURL extraFlags =
     [''--node_id='' @ shellQuote nodeID, ''--api_key='' @ shellQuote apiKey, ''--api_url='' @ shellQuote apiURL] @
     (if proxyURL \<noteq> [] then [''--proxy='' @ shellQuote proxyURL] else []) @
     map shellQuote extraFlags"

definition curl_proxy_flag :: "string \<Rightarrow> string" where
  "curl_proxy_flag proxyURL = (if proxyURL \<noteq> [] then ''--proxy '' @ shellQuote proxyURL @ '' '' else [])"

definition newline :: string where "newline = [CHR 0x0A]"

text \<open>The fixed text of the script up to the fetch, with the recovery trap.\<close>

definition recover_lines :: "string list" where
  \<open>recover_lines =
    [''_recover_service() {'',
     ''  if command -v pidof >/dev/null 2>&1 && pidof radar-node >/dev/null 2>&1; then'',
     ''    return 0'',
     ''  fi'',
     ''  if [ -x /etc/init.d/radar-node ]; then'',
     ''    /etc/init.d/radar-node start >/dev/null 2>&1 && return 0'',
     ''  fi'',
     ''  if command -v systemctl >/dev/null 2>&1; then'',
     ''    systemctl start radar-node >/dev/null 2>&1 && return 0'',
     ''    systemctl --user start radar-node >/dev/null 2>&1 && return 0'',
     ''  fi'',
     ''  if command -v launchctl >/dev/null 2>&1; then'',
     ''    launchctl load -w /Library/LaunchDaemons/com.mehrnet.radar-node.plist >/dev/null 2>&1 && return 0'',
     ''    launchctl load -w "$HOME/Library/LaunchAgents/com.mehrnet.radar-node.plist" >/dev/null 2>&1 && return 0'',
     ''  fi'',
     ''  return 1'',
     ''}'',
     ''_script=""'',
     ''trap 'status=$?; if [ "$status" -ne 0 ]; then _recover_service || true; fi; if [ -n "$_script" ]; then rm -f "$_script"; fi; exit "$status"' EXIT'',
     ''set -e'',
     ''_script=$(mktemp)'',
     ''_attempt=1'',
     ''while :; do'']\<close>

definition fetch_lines :: "string \<Rightarrow> string list" where
  \<open>fetch_lines curlProxyFlag =
    (let n = Itoa installFetchMaxAttempts in
    [''  if curl -fsSL --connect-timeout 10 --max-time 120 '' @ curlProxyFlag @ installScriptURL @ '' -o "$_script"; then'',
     ''    break'',
     ''  fi'',
     ''  if [ "$_attempt" -ge '' @ n @ '' ]; then'',
     ''    echo "radar-node: failed to fetch install.sh after '' @ n @ '' attempts" >&2'',
     ''    exit 1'',
     ''  fi'',
     ''  echo "radar-node: install.sh fetch failed (attempt $_attempt/'' @ n @ '') -- retrying in $((_attempt * 2))s..." >&2'',
     ''  sleep $((_attempt * 2))'',
     ''  _attempt=$((_attempt + 1))'',
     ''done''])\<close>

definition run_lines :: "string list \<Rightarrow> string list" where
  \<open>run_lines args =
    [''sh "$_script" '' @ Join args '' '',
     ''_status=$?'',
     ''rm -f "$_script"'',
     ''_script=""'',
     ''exit $_status'']\<close>

definition buildInstallCommand :: "string \<Rightarrow> string \<Rightarrow> string \<Rightarrow> string \<Rightarrow> string list \<Rightarrow> string" where
  "buildInstallCommand nodeID apiKey apiURL proxyURL extraFlags =
     Join (recover_lines @ fetch_lines (curl_proxy_flag proxyURL) @
           run_lines (install_args nodeID apiKey apiURL proxyURL extraFlags)) newline"

section \<open>Launching\<close>

definition procdRespawnWindowSeconds :: int where "procdRespawnWindowSeconds = 6"
definition procdSettleSeconds :: int where "procdSettleSeconds = 1"
definition procdUpdateWatchdogSeconds :: int where "procdUpdateWatchdogSeconds = 600"
definition procdInitScript :: string where "procdInitScript = ''/etc/init.d/radar-node''"
definition selfUpdateExitCode :: int where "selfUpdateExitCode = 42"

record selfUpdateLaunch =
  su_path :: string
  su_args :: "string list"
  su_detached :: bool

definition procdManaged :: "bool \<Rightarrow> (bool \<times> nat) option \<Rightarrow> bool" where
  "procdManaged procd_exists script =
     (procd_exists \<and> (case script of None \<Rightarrow> False
       | Some (isDir, mode) \<Rightarrow> \<not> isDir \<and> and mode 73 \<noteq> 0))"

definition procd_script :: "string \<Rightarrow> string" where
  \<open>procd_script installCmd =
     Join [''( sleep '' @ Itoa procdUpdateWatchdogSeconds @
             ''; if ! command -v pidof >/dev/null 2>&1 || ! pidof radar-node >/dev/null 2>&1; then '' @
             procdInitScript @ '' start >/dev/null 2>&1 || true; fi ) &'',
           ''_watchdog=$!'',
           ''sleep '' @ Itoa procdRespawnWindowSeconds,
           procdInitScript @ '' stop >/dev/null 2>&1 || true'',
           ''sleep '' @ Itoa procdSettleSeconds,
           ''( '' @ installCmd @ '' )'',
           ''_status=$?'',
           ''kill $_watchdog >/dev/null 2>&1 || true'',
           ''exit $_status''] newline\<close>

definition selfUpdateCommandFor ::
  "string \<Rightarrow> int \<Rightarrow> int \<Rightarrow> (string \<Rightarrow> string option) \<Rightarrow> bool \<Rightarrow> string \<Rightarrow> selfUpdateLaunch" where
  "selfUpdateCommandFor goos euid pid lookPath procd installCmd =
     (if goos = ''linux'' \<and> procd
      then \<lparr>su_path = ''sh'', su_args = [''-c'', procd_script installCmd], su_detached = True\<rparr>
      else case (if goos = ''linux'' then lookPath ''systemd-run'' else None) of
        Some path \<Rightarrow>
          \<lparr>su_path = path,
           su_args = [''--unit='' @ (''radar-node-selfupdate-'' @ Itoa pid), ''--quiet'', ''--collect''] @
             (if euid \<noteq> 0 then [''--user''] else []) @ [''sh'', ''-c'', installCmd],
           su_detached = False\<rparr>
      | None \<Rightarrow> \<lparr>su_path = ''sh'', su_args = [''-c'', installCmd], su_detached = False\<rparr>)"

text \<open>What an attempt to hand over does to the process: it exits with a code, or stays. \<open>started\<close> says
  whether the child could be launched (\<^verbatim>\<open>cmd.Start\<close> or \<^verbatim>\<open>cmd.Run\<close>).\<close>

datatype processFate = Stays | Exits int

definition reinstall_fate :: "bool \<Rightarrow> processFate" where
  "reinstall_fate started = (if started then Exits selfUpdateExitCode else Stays)"

definition reinstall_command :: "string \<Rightarrow> string \<Rightarrow> string \<Rightarrow> string \<Rightarrow> string list \<Rightarrow> string" where
  "reinstall_command nodeID apiKey apiURL proxyURL extraFlags =
     buildInstallCommand nodeID (TrimPrefix apiKey (nodeID @ '':'')) apiURL proxyURL extraFlags"

text \<open>The action of one heartbeat: acknowledged first, then carried out. The value is the flags the
  installer is run with, if it is run.\<close>

definition applyModuleActions :: "string list \<Rightarrow> string list option" where
  "applyModuleActions actions = (let flags = moduleActionFlags actions in if flags = [] then None else Some flags)"

definition handlePendingAction :: "bool \<Rightarrow> PendingAction \<Rightarrow> string list option" where
  "handlePendingAction acked action =
     (if \<not> acked then None
      else if pa_Kind action = ''update'' then Some []
      else if pa_Kind action = ''module_actions'' then applyModuleActions (pa_Actions action)
      else None)"

text \<open>\<open>RawYAML\<close> is the registry's: source, file hash and manifest of a loaded module.\<close>

definition modules_to_upload :: "(string \<Rightarrow> 'a option) \<Rightarrow> string list \<Rightarrow> (string \<times> 'a) list" where
  "modules_to_upload RawYAML proberIDs =
     List.map_filter (\<lambda>pid. map_option (Pair pid) (RawYAML pid)) proberIDs"

section \<open>Word splitting of POSIX sh\<close>

text \<open>
  The part of the shell's token recognition that a command line of literal words needs: blanks
  separate words, single quotes keep everything up to the next one, a backslash keeps the next
  character, and an unquoted character with a meaning of its own (expansion, redirection, control,
  globbing, comment) is outside the fragment, so the splitter gives \<open>None\<close> for it.
\<close>

definition sh_special :: "char \<Rightarrow> bool" where
  "sh_special c = (c \<in> set ([CHR 0x0A, CHR 0x22, CHR 0x60] @ ''!#$&()*;<>?[]^{|}~''))"

definition sh_blank :: "char \<Rightarrow> bool" where
  "sh_blank c = (c = CHR '' '' \<or> c = CHR 0x09)"

text \<open>\<open>cur\<close> is the word being read (\<open>None\<close> between words), the flag says whether inside quotes.\<close>

fun sh_split :: "bool \<Rightarrow> string option \<Rightarrow> string \<Rightarrow> string list option" where
  "sh_split True cur [] = None"
| "sh_split False None [] = Some []"
| "sh_split False (Some w) [] = Some [w]"
| "sh_split True cur (c # s) =
     (if c = quote_char then sh_split False cur s
      else sh_split True (Some (case cur of None \<Rightarrow> [c] | Some w \<Rightarrow> w @ [c])) s)"
| "sh_split False cur (c # s) =
     (let w = (case cur of None \<Rightarrow> [] | Some w \<Rightarrow> w) in
      if c = quote_char then sh_split True (Some w) s
      else if c = backslash_char then (case s of [] \<Rightarrow> None | d # t \<Rightarrow> sh_split False (Some (w @ [d])) t)
      else if sh_blank c then
        (case cur of None \<Rightarrow> sh_split False None s
         | Some w \<Rightarrow> map_option ((#) w) (sh_split False None s))
      else if sh_special c then None
      else sh_split False (Some (w @ [c])) s)"

section \<open>The quoting is exact\<close>

lemma ReplaceAll_char: "ReplaceAll s [q] r = concat (map (\<lambda>c. if c = q then r else [c]) s)"
proof (induction s)
  case Nil
  then show ?case by (simp add: ReplaceAll.simps)
next
  case (Cons c s)
  then show ?case by (simp add: ReplaceAll.simps [of "c # s"] HasPrefix_def)
qed

lemma quote_neq [simp]: "backslash_char \<noteq> quote_char" "\<not> sh_blank quote_char" "\<not> sh_blank backslash_char"
  by (simp_all add: quote_char_def backslash_char_def sh_blank_def)

lemma sh_split_quoted_body:
  "sh_split True (Some w)
     (concat (map (\<lambda>c. if c = quote_char then [quote_char, backslash_char, quote_char, quote_char] else [c]) v) @
      quote_char # rest) = sh_split False (Some (w @ v)) rest"
  by (induction v arbitrary: w) (simp_all add: Let_def)

lemma sh_split_quoted:
  "sh_split False cur (shellQuote v @ rest) =
     sh_split False (Some ((case cur of None \<Rightarrow> [] | Some w \<Rightarrow> w) @ v)) rest"
  by (simp add: shellQuote_def ReplaceAll_char sh_split_quoted_body Let_def)

text \<open>Characters that stand for themselves outside quotes.\<close>

definition sh_literal :: "char \<Rightarrow> bool" where
  "sh_literal c \<longleftrightarrow> \<not> sh_special c \<and> \<not> sh_blank c \<and> c \<noteq> quote_char \<and> c \<noteq> backslash_char"

lemma sh_split_literal:
  "list_all sh_literal p \<Longrightarrow> p \<noteq> [] \<Longrightarrow>
     sh_split False cur (p @ rest) = sh_split False (Some ((case cur of None \<Rightarrow> [] | Some w \<Rightarrow> w) @ p)) rest"
proof (induction p arbitrary: cur)
  case (Cons c p)
  then show ?case by (cases "p = []") (auto simp: sh_literal_def Let_def)
qed simp

text \<open>An argument of the generated command: a literal prefix, then a quoted value.\<close>

definition quoted_arg :: "string \<times> string \<Rightarrow> string" where
  "quoted_arg = (\<lambda>(p, v). p @ shellQuote v)"

lemma sh_split_arg:
  assumes "list_all sh_literal p"
  shows "sh_split False None (quoted_arg (p, v) @ rest) = sh_split False (Some (p @ v)) rest"
  using assms by (cases "p = []") (simp_all add: quoted_arg_def sh_split_quoted sh_split_literal)

lemma sh_split_space: "sh_split False (Some w) (CHR '' '' # s) = map_option ((#) w) (sh_split False None s)"
  by (simp add: Let_def sh_blank_def sh_special_def quote_char_def backslash_char_def)

lemma sh_split_join:
  "list_all (\<lambda>(p, v). list_all sh_literal p) pvs \<Longrightarrow>
     sh_split False None (Join (map quoted_arg pvs) '' '') = Some (map (\<lambda>(p, v). p @ v) pvs)"
proof (induction pvs)
  case (Cons a pvs)
  obtain p v where a: "a = (p, v)" by (cases a)
  have p: "list_all sh_literal p" using Cons.prems a by simp
  show ?case
  proof (cases pvs)
    case Nil
    then show ?thesis using sh_split_arg [OF p, of v "[]"] a by simp
  next
    case (Cons b bs)
    then have j: "Join (map quoted_arg (a # pvs)) '' '' = quoted_arg (p, v) @ CHR '' '' # Join (map quoted_arg pvs) '' ''"
      using a by simp
    have "sh_split False None (Join (map quoted_arg pvs) '' '') = Some (map (\<lambda>(p, v). p @ v) pvs)"
      using Cons.IH Cons.prems by simp
    then show ?thesis unfolding j using a by (simp only: sh_split_arg [OF p] sh_split_space) simp
  qed
qed simp

text \<open>C31. No value the server or the operator supplies can reach the shell as code: read with the
  quoting rules of \<^verbatim>\<open>sh\<close>, the installer line of the generated script is one command whose words are
  exactly the intended arguments, byte for byte, for every node id, key, URL, proxy and list of
  flags, and the words of the proxy option of \<^verbatim>\<open>curl\<close> are the option, the proxy and the fixed URL.\<close>

theorem buildInstallCommand_words:
  "\<exists>args. buildInstallCommand nodeID apiKey apiURL proxyURL flags =
       Join (recover_lines @ fetch_lines (curl_proxy_flag proxyURL)) newline @ newline @
       ''sh \"$_script\" '' @ args @ newline @ Join (tl (run_lines [])) newline
     \<and> sh_split False None args =
         Some ([''--node_id='' @ nodeID, ''--api_key='' @ apiKey, ''--api_url='' @ apiURL] @
               (if proxyURL \<noteq> [] then [''--proxy='' @ proxyURL] else []) @ flags)
     \<and> sh_split False None (curl_proxy_flag proxyURL @ installScriptURL) =
         Some ((if proxyURL \<noteq> [] then [''--proxy'', proxyURL] else []) @ [installScriptURL])"
proof (intro exI conjI)
  let ?args = "Join (install_args nodeID apiKey apiURL proxyURL flags) '' ''"
  have run: "Join (run_lines as) newline = ''sh \"$_script\" '' @ Join as '' '' @ newline @ Join (tl (run_lines [])) newline" for as
    by (simp add: run_lines_def)
  have ne: "recover_lines @ fetch_lines f \<noteq> []" "run_lines as \<noteq> []" for f as
    by (simp_all add: recover_lines_def run_lines_def)
  show "buildInstallCommand nodeID apiKey apiURL proxyURL flags =
       Join (recover_lines @ fetch_lines (curl_proxy_flag proxyURL)) newline @ newline @
       ''sh \"$_script\" '' @ ?args @ newline @ Join (tl (run_lines [])) newline"
    unfolding buildInstallCommand_def append_assoc [symmetric, of recover_lines]
    by (simp only: Join_append [OF ne] run)
  let ?pvs = "[(''--node_id='', nodeID), (''--api_key='', apiKey), (''--api_url='', apiURL)] @
     (if proxyURL \<noteq> [] then [(''--proxy='', proxyURL)] else []) @ map (Pair []) flags"
  have lit: "list_all (\<lambda>(p, v). list_all sh_literal p) ?pvs"
    by (auto simp: sh_literal_def sh_special_def sh_blank_def quote_char_def backslash_char_def list_all_iff)
  have "install_args nodeID apiKey apiURL proxyURL flags = map quoted_arg ?pvs"
    by (simp add: install_args_def quoted_arg_def o_def)
  then show "sh_split False None ?args =
      Some ([''--node_id='' @ nodeID, ''--api_key='' @ apiKey, ''--api_url='' @ apiURL] @
            (if proxyURL \<noteq> [] then [''--proxy='' @ proxyURL] else []) @ flags)"
    using sh_split_join [OF lit] by (simp add: o_def)
  have url: "list_all sh_literal installScriptURL" "installScriptURL \<noteq> []" "list_all sh_literal ''--proxy''"
    by (simp_all add: installScriptURL_def sh_literal_def sh_special_def sh_blank_def quote_char_def backslash_char_def)
  have one: "sh_split False None installScriptURL = Some [installScriptURL]"
    using sh_split_literal [OF url(1,2), of None "[]"] by simp
  have "sh_split False None (''--proxy'' @ '' '' @ shellQuote proxyURL @ '' '' @ installScriptURL) =
      sh_split False (Some ''--proxy'') ('' '' @ shellQuote proxyURL @ '' '' @ installScriptURL)"
    using sh_split_literal [OF url(3), of None] by simp
  also have "\<dots> = Some [''--proxy'', proxyURL, installScriptURL]"
    by (simp add: sh_split_space sh_split_quoted one del: sh_split.simps)
  finally have "sh_split False None (''--proxy'' @ '' '' @ shellQuote proxyURL @ '' '' @ installScriptURL) =
      Some [''--proxy'', proxyURL, installScriptURL]" .
  with one show "sh_split False None (curl_proxy_flag proxyURL @ installScriptURL) =
      Some ((if proxyURL \<noteq> [] then [''--proxy'', proxyURL] else []) @ [installScriptURL])"
    by (simp add: curl_proxy_flag_def)
qed


section \<open>When the installer runs\<close>

lemma moduleActionFlags_empty_iff:
  "moduleActionFlags actions = [] \<longleftrightarrow>
     \<not> (\<exists>a\<in>set actions. HasPrefix a ''install_'' \<or> HasPrefix a ''remove_'')"
  by (induction actions) (auto simp: CutPrefix_def)

lemma flag_prefixes:
  "f \<in> set (moduleActionFlags actions) \<Longrightarrow>
     \<exists>m. (f = ''--install-module='' @ m \<and> ''install_'' @ m \<in> set actions)
       \<or> (f = ''--remove-module='' @ m \<and> ''remove_'' @ m \<in> set actions)"
proof (induction actions)
  case (Cons a actions)
  show ?case
  proof (cases "HasPrefix a ''install_'' \<or> HasPrefix a ''remove_''")
    case True
    then obtain m where "a = ''install_'' @ m \<or> a = ''remove_'' @ m" by (auto simp: HasPrefix_conv)
    with Cons show ?thesis by (auto simp: CutPrefix_def HasPrefix_def)
  next
    case False
    with Cons show ?thesis by (auto simp: CutPrefix_def)
  qed
qed simp

text \<open>The process replaces itself only on a request the server has confirmed: the installer runs
  exactly when the acknowledgement was accepted and the action is an update, or a batch with at least
  one install or removal it knows; then every flag it is given names a module of that batch.\<close>

theorem handlePendingAction_runs_iff:
  "(handlePendingAction acked action \<noteq> None \<longleftrightarrow>
      acked \<and> (pa_Kind action = ''update'' \<or> pa_Kind action = ''module_actions'' \<and>
        (\<exists>a\<in>set (pa_Actions action). HasPrefix a ''install_'' \<or> HasPrefix a ''remove_'')))
   \<and> (case handlePendingAction acked action of None \<Rightarrow> True
      | Some flags \<Rightarrow> \<forall>f\<in>set flags. \<exists>m.
          (f = ''--install-module='' @ m \<and> ''install_'' @ m \<in> set (pa_Actions action))
        \<or> (f = ''--remove-module='' @ m \<and> ''remove_'' @ m \<in> set (pa_Actions action)))"
proof
  show "handlePendingAction acked action \<noteq> None \<longleftrightarrow>
      acked \<and> (pa_Kind action = ''update'' \<or> pa_Kind action = ''module_actions'' \<and>
        (\<exists>a\<in>set (pa_Actions action). HasPrefix a ''install_'' \<or> HasPrefix a ''remove_''))"
    by (simp add: handlePendingAction_def applyModuleActions_def Let_def moduleActionFlags_empty_iff)
  show "case handlePendingAction acked action of None \<Rightarrow> True
      | Some flags \<Rightarrow> \<forall>f\<in>set flags. \<exists>m.
          (f = ''--install-module='' @ m \<and> ''install_'' @ m \<in> set (pa_Actions action))
        \<or> (f = ''--remove-module='' @ m \<and> ''remove_'' @ m \<in> set (pa_Actions action))"
    using flag_prefixes by (auto simp: handlePendingAction_def applyModuleActions_def Let_def)
qed

theorem handlePendingAction_runs_iff_witness:
  "handlePendingAction True \<lparr>pa_ID = ''1'', pa_Kind = ''module_actions'', pa_Actions = [''install_xray'']\<rparr> \<noteq> None"
  using handlePendingAction_runs_iff [of True "\<lparr>pa_ID = ''1'', pa_Kind = ''module_actions'', pa_Actions = [''install_xray'']\<rparr>"]
  by (simp add: HasPrefix_def)

lemma selfUpdateCommandFor_runs_script:
  "su_args (selfUpdateCommandFor goos euid pid lookPath procd cmd) \<noteq> [] \<and>
   (\<not> su_detached (selfUpdateCommandFor goos euid pid lookPath procd cmd) \<longrightarrow>
      last (su_args (selfUpdateCommandFor goos euid pid lookPath procd cmd)) = cmd)"
  by (auto simp: selfUpdateCommandFor_def split: option.splits)


end
