(* ===== verification/Store_Triggers.thy ===== *)
theory Store_Triggers
  imports Store_Results
begin

text \<open>
  Properties of the durable trigger queue: a server trigger is accepted once, a completed one never
  again, and \<open>Rebuild\<close> reproduces the queue, the completion memory and the assignment from the
  journal alone.
\<close>

section \<open>At most once\<close>

lemma completed_iff:
  "list_ex (\<lambda>c. c_probe_id c = p \<and> c_run_id c = x) cs \<longleftrightarrow> (p, x) \<in> completed_key ` set cs"
  by (auto simp: list_ex_iff completed_key_def image_iff)

lemma upsert_completed_keys:
  "completed_key ` set (upsert_completed p x t cs) = insert (p, x) (completed_key ` set cs)"
proof (cases "list_ex (\<lambda>c. c_probe_id c = p \<and> c_run_id c = x) cs")
  case True
  have "completed_key ` (\<lambda>c. if c_probe_id c = p \<and> c_run_id c = x then c\<lparr>c_completed_at_ms := t\<rparr> else c) ` set cs
      = completed_key ` set cs"
    unfolding image_image by (rule image_cong) (auto simp: completed_key_def)
  with True completed_iff [of p x cs] show ?thesis
    unfolding upsert_completed_def by (simp only: if_True set_map insert_absorb)
next
  case False
  then show ?thesis unfolding upsert_completed_def by (simp add: completed_key_def)
qed

lemma completeTriggerTx_completed:
  "list_ex (\<lambda>c. c_probe_id c = p \<and> c_run_id c = x) (db_completed (completeTriggerTx p' x' t d)) \<longleftrightarrow>
     (p, x) = (p', x') \<or> list_ex (\<lambda>c. c_probe_id c = p \<and> c_run_id c = x) (db_completed d)"
  by (simp add: completed_iff completeTriggerTx_def drop_pending_def Let_def upsert_completed_keys)

lemma CompleteTriggers_completed:
  assumes "store_ok d" "CompleteTriggers origin t ks d = Inr (u, d')"
    and "(p, x) \<in> set ks \<or> list_ex (\<lambda>c. c_probe_id c = p \<and> c_run_id c = x) (db_completed d)"
  shows "list_ex (\<lambda>c. c_probe_id c = p \<and> c_run_id c = x) (db_completed d')"
  using assms
proof (induction ks arbitrary: d)
  case Nil
  then show ?case by simp
next
  case (Cons k ks)
  obtain p' x' where k: "k = (p', x')" by (cases k)
  obtain s d1 where one: "complete_one origin t (p', x') d = Inr ((), completeTriggerTx p' x' t d1)"
    and d1: "store_ok d1" "db_completed d1 = db_completed d"
    by (rule complete_one_total [OF Cons.prems(1)])
  have "CompleteTriggers origin t ks (completeTriggerTx p' x' t d1) = Inr (u, d')"
    using Cons.prems(2) one k by simp
  moreover have "(p, x) \<in> set ks \<or>
      list_ex (\<lambda>c. c_probe_id c = p \<and> c_run_id c = x) (db_completed (completeTriggerTx p' x' t d1))"
    using Cons.prems(3) k completeTriggerTx_completed d1(2) by auto
  ultimately show ?case by (rule Cons.IH [OF completeTriggerTx_ok [OF d1(1)]])
qed


definition store_event :: Event where
  "store_event = \<lparr>ev_Seq = 7, ev_EventType = ''triggered'', ev_Probe = store_probe ''a'', ev_RunID = ''run-9''\<rparr>"


section \<open>Rebuild\<close>

text \<open>The state that \<open>Rebuild\<close> derives from the journal, without the local schedule state.\<close>

definition projections :: "db \<Rightarrow> pendingRow list \<times> completedRow list \<times> ProbeSnapshot list \<times> string option" where
  "projections d = (db_pending d, db_completed d, map p_snapshot (db_probes d), map_of (db_meta d) ''probe_hash'')"

lemma applyAssignmentTx_cong:
  assumes "applyAssignmentTx ps preserve d = Inr (u, d')"
  shows "\<exists>qs. json_snapshots ps = Some qs \<and> (\<forall>pr e. applyAssignmentTx ps pr e =
      Inr ((), e\<lparr>db_probes := probe_rows pr (db_probes e) qs\<rparr>)) \<and>
      d' = d\<lparr>db_probes := probe_rows preserve (db_probes d) qs\<rparr>"
proof -
  have "json_snapshots ps \<noteq> None" "distinct (map ps_ID ps)"
    using assms insert_probes_Inr by (auto simp: applyAssignmentTx_def)
  then obtain qs where "json_snapshots ps = Some qs" "distinct (map ps_ID ps)" by auto
  from applyAssignmentTx_total [OF this] this(1) assms show ?thesis by auto
qed

lemma completeTriggerTx_projections:
  "projections d = projections e \<Longrightarrow>
     projections (completeTriggerTx p x t d) = projections (completeTriggerTx p x t e)"
proof -
  have "map p_snapshot (db_probes (completeTriggerTx p x t d)) = map p_snapshot (db_probes d)" for d
    by (simp add: completeTriggerTx_def drop_pending_def Let_def)
  moreover have "db_pending (completeTriggerTx p x t d) = db_pending (drop_pending p x d)"
    "db_completed (completeTriggerTx p x t d) = upsert_completed p x t (db_completed d)"
    "db_meta (completeTriggerTx p x t d) = db_meta d" for d
    by (simp_all add: completeTriggerTx_def drop_pending_def Let_def)
  ultimately show "projections d = projections e \<Longrightarrow> ?thesis"
    by (simp add: projections_def drop_pending_def)
qed

text \<open>An event of the journal acts on the projections alone.\<close>

lemma rebuild_event_cong:
  assumes "projections d = projections e" "rebuild_event r d = Inr (u, d')"
  shows "\<exists>e'. rebuild_event r e = Inr ((), e') \<and> projections e' = projections d'"
proof -
  have p: "db_pending e = db_pending d" "db_completed e = db_completed d"
    "map p_snapshot (db_probes e) = map p_snapshot (db_probes d)"
    "map_of (db_meta e) ''probe_hash'' = map_of (db_meta d) ''probe_hash''"
    using assms(1) by (simp_all add: projections_def)
  consider (res) "j_kind r = KResult"
    | (asg) h ps where "j_kind r = KAssignment" "j_payload r = Some (PAssignment h ps)"
    | (trg) ev where "j_kind r = KTrigger" "j_payload r = Some (PTrigger ev)"
    | (don) a b where "j_kind r = KTriggerDone" "j_payload r = Some (PDone a b)"
    using assms(2) by (cases "j_kind r") (auto simp: rebuild_event_def split: option.splits payload.splits)
  then show ?thesis
  proof cases
    case res
    with assms show ?thesis by (simp add: rebuild_event_def)
  next
    case asg
    obtain d1 where a: "applyAssignmentTx ps False d = Inr ((), d1)" "d' = meta_set ''probe_hash'' h d1"
      using asg assms(2) by (auto simp: rebuild_event_def bind_tx_Inr)
    obtain qs where q: "\<forall>pr e. applyAssignmentTx ps pr e = Inr ((), e\<lparr>db_probes := probe_rows pr (db_probes e) qs\<rparr>)"
      "d1 = d\<lparr>db_probes := probe_rows False (db_probes d) qs\<rparr>"
      using applyAssignmentTx_cong [OF a(1)] by blast
    with asg a(2) p show ?thesis by (simp add: rebuild_event_def projections_def)
  next
    case trg
    with assms(2) p show ?thesis
      by (auto simp: rebuild_event_def queueTriggerTx_def projections_def split: option.splits if_splits)
  next
    case don
    with assms(2) completeTriggerTx_projections [OF assms(1)] show ?thesis by (auto simp: rebuild_event_def)
  qed
qed

lemma rebuild_events_cong:
  "projections d = projections e \<Longrightarrow> rebuild_events rs d = Inr (u, d') \<Longrightarrow>
     \<exists>e'. rebuild_events rs e = Inr ((), e') \<and> projections e' = projections d'"
proof (induction rs arbitrary: d e)
  case Nil
  then show ?case by simp
next
  case (Cons r rs)
  obtain d1 where d1: "rebuild_event r d = Inr ((), d1)" "rebuild_events rs d1 = Inr (u, d')"
    using Cons.prems(2) by (auto simp: bind_tx_Inr)
  obtain e1 where e1: "rebuild_event r e = Inr ((), e1)" "projections e1 = projections d1"
    using rebuild_event_cong [OF Cons.prems(1) d1(1)] by auto
  from Cons.IH [OF e1(2) [symmetric] d1(2)] e1(1) show ?case by simp
qed

lemma rebuild_events_append: "rebuild_events (xs @ ys) d = bind_tx (rebuild_events xs d) (\<lambda>_ d. rebuild_events ys d)"
  by (induction xs arbitrary: d) (auto simp: bind_tx_def split: sum.splits)

definition faithful :: "db \<Rightarrow> bool" where
  "faithful d \<longleftrightarrow> (\<exists>d1. rebuild_events (db_journal d) (clear_projections d) = Inr ((), d1)
     \<and> projections d1 = projections d)"

lemma clear_projections_projections [simp]: "projections (clear_projections d) = ([], [], [], None)"
  by (simp add: projections_def clear_projections_def)

text \<open>A transaction that appends rows keeps the store faithful if the rows, replayed, have the effect
  of the transaction.\<close>

lemma faithful_append:
  assumes "faithful d" "db_journal d' = db_journal d @ rs"
    and "rebuild_events rs d = Inr (u, d2)" "projections d2 = projections d'"
  shows "faithful d'"
proof -
  obtain d1 where d1: "rebuild_events (db_journal d) (clear_projections d) = Inr ((), d1)"
    "projections d1 = projections d" using assms(1) by (auto simp: faithful_def)
  obtain e1 where e1: "rebuild_events (db_journal d) (clear_projections d') = Inr ((), e1)"
    "projections e1 = projections d1"
    using rebuild_events_cong [OF _ d1(1), of "clear_projections d'"] by auto
  obtain e2 where e2: "rebuild_events rs e1 = Inr ((), e2)" "projections e2 = projections d2"
    using rebuild_events_cong [OF _ assms(3), of e1] e1(2) d1(2) by auto
  with e1(1) assms(2,4) show ?thesis by (auto simp: faithful_def rebuild_events_append)
qed

lemma faithful_RecordTrigger:
  assumes "store_ok d" "faithful d" "RecordTrigger origin t e d = Inr (b, d')"
  shows "faithful d'"
proof (cases "ev_EventType e \<noteq> ''triggered'' \<or> ev_RunID e = [] \<or> ps_ID (ev_Probe e) = []
     \<or> json_event e = None \<or> triggerAlreadySeenTx (ps_ID (ev_Probe e)) (ev_RunID e) d")
  case True
  with assms show ?thesis by (auto simp: RecordTrigger_def split: if_splits option.splits)
next
  case False
  then have wf: "ev_EventType e = ''triggered''" "ev_RunID e \<noteq> []" "ps_ID (ev_Probe e) \<noteq> []"
    "\<not> triggerAlreadySeenTx (ps_ID (ev_Probe e)) (ev_RunID e) d" by auto
  obtain f where f: "json_event e = Some f" using False by auto
  obtain s d1 where d1: "RecordTrigger origin t e d = Inr (True, d1)"
    "db_journal d1 = db_journal d @ [(trigger_row origin s t f)\<lparr>j_seq := db_autoinc d + 1\<rparr>]"
    "db_pending d1 = db_pending d @ [\<lparr>q_probe_id = ps_ID (ev_Probe e), q_run_id = ev_RunID e,
       q_event_seq = db_autoinc d + 1, q_created_at_ms = t, q_snapshot_json = Some (ev_Probe f)\<rparr>]"
    "db_completed d1 = db_completed d" "db_probes d1 = db_probes d" "db_meta d1 = db_meta d"
    by (rule RecordTrigger_fresh [OF assms(1) wf(1-3) f wf(4), of origin t])
  have ff: "json_snapshot (ev_Probe f) = Some (ev_Probe f)" "ev_RunID f = ev_RunID e"
    "ps_ID (ev_Probe f) = ps_ID (ev_Probe e)"
    using json_event_fields [OF f] json_snapshot_idem json_snapshot_ID by auto
  have np: "\<not> list_ex (\<lambda>q. q_probe_id q = ps_ID (ev_Probe e) \<and> q_run_id q = ev_RunID e) (db_pending d)"
    using wf(4) by (simp add: triggerAlreadySeenTx_def)
  have "rebuild_events [(trigger_row origin s t f)\<lparr>j_seq := db_autoinc d + 1\<rparr>] d =
      Inr ((), d\<lparr>db_pending := db_pending d @ [\<lparr>q_probe_id = ps_ID (ev_Probe e), q_run_id = ev_RunID e,
       q_event_seq = db_autoinc d + 1, q_created_at_ms = t, q_snapshot_json = Some (ev_Probe f)\<rparr>]\<rparr>)"
    unfolding queueTriggerTx_def rebuild_events.simps rebuild_event_def using np ff by simp
  from faithful_append [OF assms(2) d1(2) this] d1(3-6) have "faithful d1"
    by (simp add: projections_def)
  with d1(1) assms(3) show ?thesis by simp
qed

lemma drop_pending_idem: "db_pending (drop_pending p x (d\<lparr>db_pending := db_pending (drop_pending p x e)\<rparr>)) = db_pending (drop_pending p x e)"
  by (simp add: drop_pending_def)

lemma faithful_CompleteTriggers:
  "store_ok d \<Longrightarrow> faithful d \<Longrightarrow> CompleteTriggers origin t ks d = Inr (u, d') \<Longrightarrow> faithful d'"
proof (induction ks arbitrary: d)
  case Nil
  then show ?case by simp
next
  case (Cons k ks)
  obtain p x where k: "k = (p, x)" by (cases k)
  obtain s d1 where one: "complete_one origin t (p, x) d = Inr ((), completeTriggerTx p x t d1)"
    and d1: "store_ok d1" "db_journal d1 = db_journal d @ [(done_row origin s t p x)\<lparr>j_seq := db_autoinc d + 1\<rparr>]"
      "db_pending d1 = db_pending (drop_pending p x d)" "db_completed d1 = db_completed d"
      "db_probes d1 = db_probes d" "db_meta d1 = db_meta d"
    by (rule complete_one_total [OF Cons.prems(1)])
  let ?d2 = "completeTriggerTx p x t d1"
  have j: "db_journal ?d2 = db_journal d @ [(done_row origin s t p x)\<lparr>j_seq := db_autoinc d + 1\<rparr>]"
    using d1(2) by (simp add: completeTriggerTx_def drop_pending_def Let_def)
  have r: "rebuild_events [(done_row origin s t p x)\<lparr>j_seq := db_autoinc d + 1\<rparr>] d = Inr ((), completeTriggerTx p x t d)"
    by (simp add: rebuild_event_def)
  have pr: "projections (completeTriggerTx p x t d) = projections ?d2"
    using d1(3-6) by (simp add: projections_def completeTriggerTx_def drop_pending_def Let_def)
  have "faithful ?d2" by (rule faithful_append [OF Cons.prems(2) j r pr])
  moreover have "CompleteTriggers origin t ks ?d2 = Inr (u, d')" using Cons.prems(3) one k by simp
  ultimately show ?case by (intro Cons.IH [OF completeTriggerTx_ok [OF d1(1)]])
qed

lemma faithful_SaveAssignment:
  assumes "store_ok d" "faithful d" "SaveAssignment origin t hash ps d = Inr (u, d')"
  shows "faithful d'"
proof (cases "hash = []")
  case True
  with assms show ?thesis by (simp add: SaveAssignment_def)
next
  case False
  with SaveAssignment_Inr [OF assms(3)] obtain qs
    where q: "json_snapshots ps = Some qs" "distinct (map ps_ID ps)" by auto
  obtain s d1 where s: "SaveAssignment origin t hash ps d =
       Inr ((), meta_set ''probe_hash'' hash (d1\<lparr>db_probes := probe_rows True (db_probes d) qs\<rparr>))"
    and d1: "db_journal d1 = db_journal d @ [(assignment_row origin s t hash qs)\<lparr>j_seq := db_autoinc d + 1\<rparr>]"
      "db_pending d1 = db_pending d" "db_completed d1 = db_completed d" "db_meta d1 = db_meta d"
    by (rule SaveAssignment_total [OF assms(1) False q])
  let ?d2 = "meta_set ''probe_hash'' hash (d1\<lparr>db_probes := probe_rows True (db_probes d) qs\<rparr>)"
  have j: "db_journal ?d2 = db_journal d @ [(assignment_row origin s t hash qs)\<lparr>j_seq := db_autoinc d + 1\<rparr>]"
    using d1(1) by simp
  have qs: "json_snapshots qs = Some qs" "distinct (map ps_ID qs)"
    using json_snapshots_props [OF q(1)] q(2) json_snapshots_id by auto
  have r: "rebuild_events [(assignment_row origin s t hash qs)\<lparr>j_seq := db_autoinc d + 1\<rparr>] d =
      Inr ((), meta_set ''probe_hash'' hash (d\<lparr>db_probes := probe_rows False (db_probes d) qs\<rparr>))"
    using applyAssignmentTx_total [OF qs, of False d] by (simp add: rebuild_event_def)
  have "faithful ?d2"
    by (rule faithful_append [OF assms(2) j r]) (simp add: projections_def d1)
  with s assms(3) show ?thesis by simp
qed

lemma rebuild_events_results: "list_all is_result rs \<Longrightarrow> rebuild_events rs d = Inr ((), d)"
  by (induction rs) (auto simp: is_result_def rebuild_event_def)

lemma faithful_RecordResults:
  assumes "store_ok d" "faithful d" "RecordResults parse origin nowMS ws d = Inr (su, d')"
  shows "faithful d'"
proof (cases "ws = []")
  case True
  with assms show ?thesis by (simp add: RecordResults_def)
next
  case False
  obtain start d1 su1 e where r: "RecordResults parse origin nowMS ws d = Inr (su1, e)"
    "nextOriginSeq origin (int (length ws)) d = Inr (start, d1)"
    "record_rows parse origin nowMS start ws (zeroSummary, d1) = (su1, e)"
    "batch_ok origin start (start + int (length ws)) d1" "db_journal d1 = db_journal d"
    by (rule RecordResults_cases [OF assms(1) False, of parse origin nowMS])
  have e: "e = d'" using r(1) assms(3) by simp
  note rr = record_rows_ok [OF r(4) order_refl r(3)]
  obtain new where new: "db_journal d' = db_journal d @ new" "list_all is_result new"
    using rr r(5) e by auto
  obtain v where d1: "d1 = d\<lparr>db_sequences := AList.update origin v (db_sequences d)\<rparr>"
    using nextOriginSeq_ok(6) [OF r(2) store_okD(1) [OF assms(1)]] by auto
  have "d' = d1\<lparr>db_autoinc := db_autoinc d', db_journal := db_journal d'\<rparr>" using rr e by simp
  then have "projections d' = projections (d1\<lparr>db_autoinc := db_autoinc d', db_journal := db_journal d'\<rparr>)" by metis
  also have "\<dots> = projections d" by (simp add: projections_def d1)
  finally show ?thesis
    by (intro faithful_append [OF assms(2) new(1) rebuild_events_results [OF new(2)]]) simp
qed

lemma faithful_map:
  assumes "faithful d" "\<And>r e. rebuild_event (f r) e = rebuild_event r e"
  shows "faithful (d\<lparr>db_journal := map f (db_journal d)\<rparr>)"
proof -
  have m: "rebuild_events (map f rs) e = rebuild_events rs e" for rs e
    by (induction rs arbitrary: e) (auto simp: assms(2) bind_tx_def split: sum.splits)
  obtain d1 where d1: "rebuild_events (db_journal d) (clear_projections d) = Inr ((), d1)"
    "projections d1 = projections d" using assms(1) by (auto simp: faithful_def)
  obtain e1 where "rebuild_events (db_journal d) (clear_projections (d\<lparr>db_journal := map f (db_journal d)\<rparr>)) = Inr ((), e1)"
    "projections e1 = projections d1"
    using rebuild_events_cong [OF _ d1(1)] by (metis clear_projections_projections)
  with d1(2) show ?thesis by (simp add: faithful_def m projections_def)
qed

lemma rebuild_event_fields:
  "j_kind r = j_kind s \<Longrightarrow> j_payload r = j_payload s \<Longrightarrow> j_seq r = j_seq s \<Longrightarrow> j_at_ms r = j_at_ms s
    \<Longrightarrow> rebuild_event r e = rebuild_event s e"
  unfolding rebuild_event_def by (simp only:)

lemma faithful_MarkOutcomes: "faithful d \<Longrightarrow> faithful (MarkOutcomes nowMS ocs d)"
proof (induction ocs arbitrary: d)
  case Nil
  then show ?case by (simp add: MarkOutcomes_def)
next
  case (Cons oc ocs)
  have "faithful (d\<lparr>db_journal := map (settle nowMS oc) (db_journal d)\<rparr>)"
    by (rule faithful_map [OF Cons.prems], rule rebuild_event_fields) (simp_all add: settle_def)
  with Cons show ?case by (simp add: MarkOutcomes_def)
qed

lemma faithful_MarkAttempts: "faithful d \<Longrightarrow> faithful (MarkAttempts seqs d)"
proof -
  have "faithful (d\<lparr>db_journal := map (attempt_row c) (db_journal d)\<rparr>)" if "faithful d" for c d
    by (rule faithful_map [OF that], rule rebuild_event_fields) (simp_all add: attempt_row_def)
  then have "faithful d \<Longrightarrow> faithful (fold (\<lambda>c d. d\<lparr>db_journal := map (attempt_row c) (db_journal d)\<rparr>) cs d)" for cs d
    by (induction cs arbitrary: d) simp_all
  then show "faithful d \<Longrightarrow> faithful (MarkAttempts seqs d)" by (simp add: MarkAttempts_def)
qed

lemma faithful_cong:
  assumes "faithful d" "db_journal d' = db_journal d" "projections d' = projections d"
  shows "faithful d'"
  by (rule faithful_append [OF assms(1), of d' "[]" "()" d]) (simp_all add: assms)

lemma faithful_MarkProbesRun: "faithful d \<Longrightarrow> faithful (MarkProbesRun ids t d)"
proof -
  have "faithful (d\<lparr>db_probes := map (mark_run_row ms c) (db_probes d)\<rparr>)" if "faithful d" for ms c d
    by (rule faithful_cong [OF that]) (simp_all add: projections_def mark_run_row_def)
  then have "faithful d \<Longrightarrow> faithful (fold (\<lambda>c d. d\<lparr>db_probes := map (mark_run_row ms c) (db_probes d)\<rparr>) cs d)" for ms cs d
    by (induction cs arbitrary: d) simp_all
  then show "faithful d \<Longrightarrow> faithful (MarkProbesRun ids t d)" by (simp add: MarkProbesRun_def)
qed

lemma Rebuild_projections:
  assumes "faithful d"
  obtains d' where "Rebuild d = Inr ((), d')" "projections d' = projections d"
proof -
  obtain d1 where d1: "rebuild_events (db_journal d) (clear_projections d) = Inr ((), d1)"
    "projections d1 = projections d" using assms by (auto simp: faithful_def)
  have "p_snapshot (restore_run_time js p) = p_snapshot p" for js p
    by (simp add: restore_run_time_def split: list.splits)
  then show thesis using that d1 by (simp add: Rebuild_def projections_def comp_def)
qed

lemma faithful_Rebuild:
  assumes "store_ok d" "faithful d" "Rebuild d = Inr (u, d')"
  shows "faithful d'"
proof -
  obtain d1 where d1: "rebuild_events (db_journal d) (clear_projections d) = Inr ((), d1)"
    "db_journal d1 = db_journal d"
    using rebuild_events_total [OF clear_projections_ok [OF assms(1)], of "db_journal d"]
    by (auto simp: clear_projections_def)
  have "projections d' = projections d" using Rebuild_projections [OF assms(2)] assms(3) by (metis Inr_inject prod.inject)
  moreover have "db_journal d' = db_journal d" using assms(3) d1 by (auto simp: Rebuild_def)
  ultimately show ?thesis by (rule faithful_cong [OF assms(2), rotated -1])
qed

text \<open>The calls the agent makes between two maintenance runs.\<close>

definition journaled :: "storeOp \<Rightarrow> bool" where
  "journaled op \<longleftrightarrow> (case op of OpMaintain _ _ _ _ \<Rightarrow> False | OpPendingTriggers \<Rightarrow> False | _ \<Rightarrow> True)"

lemma faithful_step:
  assumes "store_ok d" "faithful d" "journaled op"
  shows "faithful (store_step origin op d)"
  using assms
  by (cases op) (auto simp: store_step_def journaled_def commit_def faithful_MarkOutcomes faithful_MarkAttempts
      faithful_MarkProbesRun split: sum.splits
      intro: faithful_RecordResults faithful_RecordTrigger faithful_CompleteTriggers faithful_SaveAssignment
        faithful_Rebuild)

lemma faithful_run: "store_ok d \<Longrightarrow> faithful d \<Longrightarrow> list_all journaled ops \<Longrightarrow> faithful (fold (store_step origin) ops d)"
  by (induction ops arbitrary: d) (simp_all add: store_step_ok faithful_step)

lemma faithful_fresh: "faithful fresh_db"
  by (simp add: faithful_def fresh_db_def clear_projections_def projections_def)


definition rebuild_demo :: "storeOp list" where
  "rebuild_demo = [OpSaveAssignment 1 ''h1'' [store_probe ''a'', store_probe ''b''],
     OpRecordTrigger 2 store_event, OpRecordTrigger 3 (store_event\<lparr>ev_RunID := ''run-10''\<rparr>),
     OpCompleteTriggers 4 [(''a'', ''run-9'')], OpSaveAssignment 5 ''h2'' [store_probe ''a'']]"


text \<open>What a rebuild does not give back is the last trigger a probe ran when an assignment was saved
  after it: the live table carries it over, the replayed one does not.\<close>

lemma Rebuild_forgets_last_trigger:
  "map p_last_trigger_run_id (db_probes (fold (store_step ''n1'') rebuild_demo fresh_db)) = [Some ''run-9''] \<and>
   map p_last_trigger_run_id (db_probes (store_step ''n1'' OpRebuild (fold (store_step ''n1'') rebuild_demo fresh_db))) = [None]"
  by code_simp

end
