(* ===== verification/Cache_Selection.thy ===== *)
theory Cache_Selection
  imports Cache "HOL-Library.Multiset"
begin

text \<open>
  What one scheduler tick selects (\<^verbatim>\<open>takeDueProbes\<close>) and why no probe starves under it. The
  selection is a partition of the due entries; the oldest due entry always fits the budget; and a
  selected probe moves behind every probe that was passed over, so the number of probes ahead of
  a waiting one falls with every tick.
\<close>

section \<open>The selection loop\<close>

lemma select_loop_mset:
  "select_loop maxJobs used es = (sel, def) \<Longrightarrow> mset sel + mset def = mset es"
  by (induction es arbitrary: used sel def) (auto split: if_splits prod.splits)

lemma select_loop_budget:
  "select_loop maxJobs used es = (sel, def) \<Longrightarrow> 0 < maxJobs \<Longrightarrow> used \<le> maxJobs \<Longrightarrow>
   used + sum_list (map de_count sel) \<le> maxJobs"
proof (induction es arbitrary: used sel def)
  case Nil
  then show ?case by simp
next
  case (Cons e es)
  show ?case
  proof (cases "used + de_count e > maxJobs")
    case True
    with Cons show ?thesis by (auto split: prod.splits)
  next
    case False
    with Cons.prems obtain sel' where s: "select_loop maxJobs (used + de_count e) es = (sel', def)"
      "sel = e # sel'" by (auto split: prod.splits)
    from Cons.IH [OF s(1)] False Cons.prems s(2) show ?thesis by simp
  qed
qed

lemma select_loop_head:
  "select_loop maxJobs 0 (e # es) = (sel, def) \<Longrightarrow> de_count e \<le> maxJobs \<Longrightarrow> e \<in> set sel"
  by (auto split: if_splits prod.splits)

lemma clamp_count_bounds:
  "1 \<le> clamp_count maxJobs mp raw"
  "0 < mp \<Longrightarrow> clamp_count maxJobs mp raw \<le> mp"
  "0 < maxJobs \<Longrightarrow> clamp_count maxJobs mp raw \<le> maxJobs"
  by (auto simp: clamp_count_def Let_def)

section \<open>Due entries\<close>

lemma due_entries_iff:
  assumes "cache_ok c"
  shows "e \<in> set (due_entries c now mj mp) \<longleftrightarrow>
    map_of (pc_probes c) (de_id e) = Some (de_probe e) \<and> probeDueLocked (de_probe e) now
    \<and> de_count e = clamp_count mj mp (ps_ProbeCount (cp_snapshot (de_probe e)))"
    (is "?l \<longleftrightarrow> ?r")
proof
  assume ?l
  with assms show ?r
    by (auto simp: due_entries_def cache_ok_def probes_ok_def)
next
  assume ?r
  then have "(de_id e, de_probe e) \<in> set (filter (\<lambda>(_, e). probeDueLocked e now) (pc_probes c))"
    by (auto dest!: map_of_SomeD)
  then have "(\<lambda>(k, e). \<lparr>de_id = k, de_probe = e,
      de_count = clamp_count mj mp (ps_ProbeCount (cp_snapshot e))\<rparr>) (de_id e, de_probe e)
      \<in> set (due_entries c now mj mp)"
    unfolding due_entries_def set_map by (rule imageI)
  with \<open>?r\<close> show ?l by (cases e) simp
qed

lemma due_entries_ids: "map de_id (due_entries c now mj mp)
    = map fst (filter (\<lambda>(_, e). probeDueLocked e now) (pc_probes c))"
  by (auto simp: due_entries_def case_prod_beta)

lemma due_entries_distinct: "cache_ok c \<Longrightarrow> distinct (map de_id (due_entries c now mj mp))"
  by (simp add: due_entries_ids cache_ok_def probes_ok_def distinct_map_filter)

lemma due_entries_de_id:
  "cache_ok c \<Longrightarrow> e \<in> set (due_entries c now mj mp) \<Longrightarrow> ps_ID (cp_snapshot (de_probe e)) = de_id e"
  by (auto simp: due_entries_iff cache_ok_def dest: probes_ok_map_of)

section \<open>The cache after a selection\<close>

lemma map_of_set_lastRunAt:
  "map_of (pc_probes (set_lastRunAt i t c)) k
   = map_option (\<lambda>e. if k = i then e\<lparr>cp_lastRunAt := t\<rparr> else e) (map_of (pc_probes c) k)"
  by (cases "map_of (pc_probes c) k") (auto simp: set_lastRunAt_def split: option.splits)

lemma map_of_fold_lastRunAt:
  "map_of (pc_probes (fold (\<lambda>e. set_lastRunAt (de_id e) t) sel c)) k
   = map_option (\<lambda>e. if k \<in> de_id ` set sel then e\<lparr>cp_lastRunAt := t\<rparr> else e) (map_of (pc_probes c) k)"
proof (induction sel arbitrary: c)
  case Nil
  then show ?case by (simp add: option.map_id [unfolded id_def])
next
  case (Cons e sel)
  then show ?case by (cases "map_of (pc_probes c) k") (auto simp: map_of_set_lastRunAt)
qed

lemma pending_fold_lastRunAt [simp]:
  "pc_pendingTriggers (fold (\<lambda>e. set_lastRunAt (de_id e) t) sel c) = pc_pendingTriggers c"
  by (induction sel arbitrary: c) simp_all

lemma fst_set_lastRunAt: "map fst (pc_probes (set_lastRunAt i t c)) = map fst (pc_probes c)"
proof (cases "map_of (pc_probes c) i")
  case None
  then show ?thesis by (simp add: set_lastRunAt_def)
next
  case (Some e)
  then have "i \<in> fst ` set (pc_probes c)" by (auto dest!: map_of_SomeD simp: rev_image_eqI)
  with Some show ?thesis by (simp add: set_lastRunAt_def update_keys)
qed

lemma fst_fold_lastRunAt:
  "map fst (pc_probes (fold (\<lambda>e. set_lastRunAt (de_id e) t) sel c)) = map fst (pc_probes c)"
  by (induction sel arbitrary: c) (simp_all add: fst_set_lastRunAt)

text \<open>The facts of one tick with a positive budget, in terms of the two halves of the loop.\<close>

lemma takeDueProbes_unfold:
  assumes "cache_ok c" "0 < maxJobs" "takeDueProbes c now maxJobs mp = ((sel, deferred), c')"
  obtains xs ys where
    "select_loop maxJobs 0 (sort_key fairness_key (due_entries c now maxJobs mp)) = (xs, ys)"
    "sel = map selected_snapshot xs" "deferred = sum_list (map de_count ys)"
    "c' = fold (\<lambda>e. set_lastRunAt (de_id e) now) xs c"
    "mset xs + mset ys = mset (due_entries c now maxJobs mp)"
    "distinct (map de_id xs @ map de_id ys)"
    "map ps_ID sel = map de_id xs"
proof -
  obtain xs ys where l: "select_loop maxJobs 0
      (sort_key fairness_key (due_entries c now maxJobs mp)) = (xs, ys)"
    by (cases "select_loop maxJobs 0 (sort_key fairness_key (due_entries c now maxJobs mp))")
  with assms have r: "sel = map selected_snapshot xs" "deferred = sum_list (map de_count ys)"
    "c' = fold (\<lambda>e. set_lastRunAt (de_id e) now) xs c"
    by (auto simp: takeDueProbes_def Let_def)
  from select_loop_mset [OF l] have m: "mset xs + mset ys = mset (due_entries c now maxJobs mp)"
    by simp
  have "mset (map de_id xs @ map de_id ys) = mset (map de_id (due_entries c now maxJobs mp))"
    by (simp flip: m)
  then have d: "distinct (map de_id xs @ map de_id ys)"
    using due_entries_distinct [OF assms(1)] mset_eq_imp_distinct_iff by blast
  have "set xs \<subseteq> set (due_entries c now maxJobs mp)"
    using m by (metis set_mset_mset set_mset_union sup_ge1)
  then have "map ps_ID sel = map de_id xs"
    using due_entries_de_id [OF assms(1)] by (auto simp: r selected_snapshot_def)
  with l r m d that show thesis by blast
qed

section \<open>Fairness\<close>

text \<open>Every probe of the cache has a place in the order the selection uses.\<close>

definition probe_key :: "cachedProbe \<Rightarrow> gotime \<times> string" where
  "probe_key e = (cp_lastRunAt e, ps_ID (cp_snapshot e))"

text \<open>The probes ahead of \<open>k\<close>.\<close>

definition ahead :: "probeCache \<Rightarrow> string \<Rightarrow> string set" where
  "ahead c k = {q. \<exists>e f. map_of (pc_probes c) q = Some e \<and> map_of (pc_probes c) k = Some f
                     \<and> probe_key e < probe_key f}"

lemma finite_ahead: "finite (ahead c k)"
proof -
  have "ahead c k \<subseteq> dom (map_of (pc_probes c))" by (auto simp: ahead_def)
  then show ?thesis using finite_dom_map_of finite_subset by blast
qed

lemma card_ahead_less:
  assumes "map_of (pc_probes c) k = Some e"
  shows "card (ahead c k) < length (pc_probes c)"
proof -
  have "k \<notin> ahead c k" by (auto simp: ahead_def)
  moreover have "ahead c k \<subseteq> fst ` set (pc_probes c)"
    by (auto simp: ahead_def dest!: map_of_SomeD simp: rev_image_eqI)
  ultimately have "ahead c k \<subseteq> fst ` set (pc_probes c) - {k}" by blast
  moreover from assms have "k \<in> fst ` set (pc_probes c)" by (auto dest!: map_of_SomeD simp: rev_image_eqI)
  ultimately have "ahead c k \<subset> fst ` set (pc_probes c)" by blast
  then have "card (ahead c k) < card (fst ` set (pc_probes c))"
    by (simp add: psubset_card_mono)
  also have "\<dots> \<le> length (pc_probes c)"
    by (metis card_length length_map list.set_map)
  finally show ?thesis .
qed

lemma oldest_selected:
  assumes "cache_ok c" "0 < maxJobs" "takeDueProbes c now maxJobs mp = ((sel, deferred), c')"
    and "map_of (pc_probes c) k = Some e" "probeDueLocked e now"
  obtains m f where "m \<in> set (map ps_ID sel)" "map_of (pc_probes c) m = Some f"
    "probe_key f \<le> probe_key e"
proof -
  obtain xs ys where
    l: "select_loop maxJobs 0 (sort_key fairness_key (due_entries c now maxJobs mp)) = (xs, ys)"
    and ids: "map ps_ID sel = map de_id xs"
    by (rule takeDueProbes_unfold [OF assms(1-3)]) blast
  define d where "d = \<lparr>de_id = k, de_probe = e,
    de_count = clamp_count maxJobs mp (ps_ProbeCount (cp_snapshot e))\<rparr>"
  have din: "d \<in> set (due_entries c now maxJobs mp)"
    using assms by (simp add: due_entries_iff d_def)
  then obtain h hs where h: "sort_key fairness_key (due_entries c now maxJobs mp) = h # hs"
    by (cases "sort_key fairness_key (due_entries c now maxJobs mp)")
       (auto dest: arg_cong [of _ _ set])
  have hin: "h \<in> set (due_entries c now maxJobs mp)"
    using h by (metis list.set_intros(1) set_sort)
  from hin assms(1,2) have "de_count h \<le> maxJobs" by (simp add: due_entries_iff clamp_count_bounds)
  with l h have "h \<in> set xs" using select_loop_head by metis
  moreover have "fairness_key h \<le> fairness_key d"
  proof -
    have "sorted (map fairness_key (h # hs))" by (metis h sorted_sort_key)
    moreover have "d \<in> set (h # hs)" by (metis din h set_sort)
    ultimately show ?thesis by auto
  qed
  moreover from hin assms(1) have "map_of (pc_probes c) (de_id h) = Some (de_probe h)"
    by (simp add: due_entries_iff)
  ultimately show thesis
    using that [of "de_id h" "de_probe h"] ids
    by (auto simp: fairness_key_def probe_key_def d_def)
qed

text \<open>One tick that passes \<open>k\<close> over leaves fewer probes ahead of it and its own entry alone.\<close>

lemma tick_passed_over:
  assumes "cache_ok c" "0 < maxJobs" "takeDueProbes c now maxJobs mp = ((sel, deferred), c')"
    and "map_of (pc_probes c) k = Some e" "probeDueLocked e now" "cp_lastRunAt e < now"
    and "k \<notin> set (map ps_ID sel)"
  shows "map_of (pc_probes c') k = Some e \<and> card (ahead c' k) < card (ahead c k)"
proof -
  obtain xs :: "dueEntry list" where c': "c' = fold (\<lambda>e. set_lastRunAt (de_id e) now) xs c"
    and ids: "map ps_ID sel = map de_id xs"
    by (rule takeDueProbes_unfold [OF assms(1-3)]) blast
  have lookup: "map_of (pc_probes c') q = map_option
      (\<lambda>e. if q \<in> set (map ps_ID sel) then e\<lparr>cp_lastRunAt := now\<rparr> else e) (map_of (pc_probes c) q)" for q
    using map_of_fold_lastRunAt [of now xs c q] by (simp add: c' ids)
  then have k': "map_of (pc_probes c') k = Some e" using assms by simp
  obtain m f where m: "m \<in> set (map ps_ID sel)" "map_of (pc_probes c) m = Some f"
    "probe_key f \<le> probe_key e"
    using oldest_selected [OF assms(1-5)] by blast
  have "m \<noteq> k" using m(1) assms(7) by blast
  have ok: "probes_ok (pc_probes c)" using assms(1) by (simp add: cache_ok_def)
  have "probe_key f \<noteq> probe_key e"
    using \<open>m \<noteq> k\<close> probes_ok_map_of [OF ok] m(2) assms(4) by (auto simp: probe_key_def)
  with m have "m \<in> ahead c k" using assms(4) by (auto simp: ahead_def)
  moreover have "ahead c' k \<subseteq> ahead c k - {m}"
  proof
    fix q assume "q \<in> ahead c' k"
    then obtain g where g: "map_of (pc_probes c') q = Some g" "probe_key g < probe_key e"
      using k' by (auto simp: ahead_def)
    then have "q \<notin> set (map ps_ID sel)"
      using assms(6) by (auto simp: lookup probe_key_def)
    with g lookup [of q] m(1) assms(4) show "q \<in> ahead c k - {m}"
      by (auto simp: ahead_def)
  qed
  ultimately have "ahead c' k \<subset> ahead c k" by blast
  with k' finite_ahead show ?thesis by (simp add: psubset_card_mono)
qed

text \<open>Successive ticks, each with its own time and budget, and what each selected.\<close>

fun ticks :: "probeCache \<Rightarrow> (gotime \<times> int \<times> int) list \<Rightarrow> string list list" where
  "ticks c [] = []"
| "ticks c ((now, maxJobs, maxPerProbe) # ts) =
     (case takeDueProbes c now maxJobs maxPerProbe of
        ((sel, _), c') \<Rightarrow> map ps_ID sel # ticks c' ts)"

lemma ticks_select:
  assumes "cache_ok c" "map_of (pc_probes c) k = Some e"
    and "\<And>now mj mp. (now, mj, mp) \<in> set ts \<Longrightarrow>
           0 < mj \<and> probeDueLocked e now \<and> cp_lastRunAt e < now"
    and "card (ahead c k) < length ts"
  shows "\<exists>ids \<in> set (ticks c ts). k \<in> set ids"
  using assms
proof (induction ts arbitrary: c)
  case Nil
  then show ?case by simp
next
  case (Cons t ts)
  obtain now mj mp where t: "t = (now, mj, mp)" by (cases t)
  obtain sel d c' where tk: "takeDueProbes c now mj mp = ((sel, d), c')"
    by (cases "takeDueProbes c now mj mp") auto
  from Cons.prems(3) t have h: "0 < mj" "probeDueLocked e now" "cp_lastRunAt e < now" by auto
  show ?case
  proof (cases "k \<in> set (map ps_ID sel)")
    case True
    then show ?thesis by (simp add: t tk)
  next
    case False
    from tick_passed_over [OF Cons.prems(1) h(1) tk Cons.prems(2) h(2,3) False]
    have "map_of (pc_probes c') k = Some e" "card (ahead c' k) < card (ahead c k)" by auto
    moreover have "cache_ok c'" using cache_ok_take [OF Cons.prems(1), of now mj mp] tk by simp
    ultimately have "\<exists>ids \<in> set (ticks c' ts). k \<in> set ids"
      using Cons.prems(3,4) by (intro Cons.IH) auto
    then show ?thesis by (auto simp: t tk)
  qed
qed

section \<open>Properties\<close>

lemma takeDueProbes_counts:
  assumes "0 < maxJobs" "takeDueProbes c now maxJobs maxPerProbe = ((sel, deferred), c')"
  shows "sum_list (map ps_ProbeCount sel) \<le> maxJobs
    \<and> (\<forall>s \<in> set sel. 1 \<le> ps_ProbeCount s \<and> (0 < maxPerProbe \<longrightarrow> ps_ProbeCount s \<le> maxPerProbe))"
proof -
  obtain xs ys where
    l: "select_loop maxJobs 0 (sort_key fairness_key (due_entries c now maxJobs maxPerProbe)) = (xs, ys)"
    and sel: "sel = map selected_snapshot xs"
    using assms by (auto simp: takeDueProbes_def Let_def split: prod.splits)
  have count: "ps_ProbeCount (selected_snapshot e) = de_count e" for e
    by (simp add: selected_snapshot_def)
  have "set xs \<subseteq> set (due_entries c now maxJobs maxPerProbe)"
    using select_loop_mset [OF l] by (metis mset_sort set_mset_mset set_mset_union sup_ge1)
  then have "\<forall>e \<in> set xs. 1 \<le> de_count e \<and> (0 < maxPerProbe \<longrightarrow> de_count e \<le> maxPerProbe)"
    by (auto simp: due_entries_def clamp_count_bounds dest!: subsetD)
  moreover from select_loop_budget [OF l assms(1)] assms(1)
  have "sum_list (map de_count xs) \<le> maxJobs" by simp
  ultimately show ?thesis by (simp add: sel count o_def)
qed

text \<open>One tick never selects more jobs than its budget: the counts of the selected snapshots
  sum to at most \<open>maxJobs\<close>, and each lies between one and the per-probe cap.\<close>

theorem takeDueProbes_within_budget:
  assumes "0 < maxJobs" "takeDueProbes c now maxJobs maxPerProbe = ((sel, deferred), c')"
  shows "sum_list (map ps_ProbeCount sel) \<le> maxJobs
    \<and> (\<forall>s \<in> set sel. 1 \<le> ps_ProbeCount s \<and> (0 < maxPerProbe \<longrightarrow> ps_ProbeCount s \<le> maxPerProbe))"
  by (rule takeDueProbes_counts [OF assms])

definition demo_probe :: "string \<Rightarrow> int \<Rightarrow> ProbeSnapshot" where
  "demo_probe pid n = \<lparr>ps_ID = pid, ps_Target = ''t'', ps_Prober = ''tcp'', ps_ProbeCount = n,
     ps_TimeoutMs = 1000, ps_ScheduleType = ''interval'', ps_IntervalSeconds = 60, ps_StartsAt = 0,
     ps_EndsAt = 0, ps_Params = [], ps_Status = ''active''\<rparr>"

definition demo_cache :: probeCache where
  "demo_cache = \<lparr>pc_probes =
      [(''a'', \<lparr>cp_snapshot = demo_probe ''a'' 3, cp_lastRunAt = 5, cp_lastTriggerRunID = []\<rparr>),
       (''b'', \<lparr>cp_snapshot = demo_probe ''b'' 2, cp_lastRunAt = 4, cp_lastTriggerRunID = []\<rparr>)],
     pc_contentHash = ''h'', pc_pendingTriggers = []\<rparr>"

definition demo_now :: gotime where "demo_now = 100000000000"

lemma demo_cache_ok: "cache_ok demo_cache"
  by (simp add: cache_ok_def demo_cache_def probes_ok_def triggers_ok_def demo_probe_def)

lemma demo_take:
  "takeDueProbes demo_cache demo_now 4 3 =
    (([(demo_probe ''b'' 2)], 3), set_lastRunAt ''b'' demo_now demo_cache)"
  by code_simp

theorem takeDueProbes_within_budget_witness:
  "sum_list (map ps_ProbeCount [demo_probe ''b'' 2]) \<le> 4
   \<and> 1 \<le> ps_ProbeCount (demo_probe ''b'' 2) \<and> ps_ProbeCount (demo_probe ''b'' 2) \<le> 3"
  using takeDueProbes_within_budget [OF _ demo_take] by simp

text \<open>A tick with a positive budget splits the due probes in two. The selected ones are due,
  distinct, carry their clamped job count and get this tick's time as their last run; every other
  probe keeps its entry, so a deferred probe stays due, and the reported number of deferred jobs
  is exactly the jobs of the due probes left out. The trigger queue is not touched.\<close>

theorem takeDueProbes_partitions:
  assumes "cache_ok c" "0 < maxJobs" "takeDueProbes c now maxJobs maxPerProbe = ((sel, deferred), c')"
  shows "distinct (map ps_ID sel)
    \<and> (\<forall>s \<in> set sel. \<exists>e. map_of (pc_probes c) (ps_ID s) = Some e \<and> probeDueLocked e now
         \<and> s = (cp_snapshot e)\<lparr>ps_ProbeCount :=
                 clamp_count maxJobs maxPerProbe (ps_ProbeCount (cp_snapshot e))\<rparr>)
    \<and> (\<forall>k. map_of (pc_probes c') k = map_option
         (\<lambda>e. if k \<in> ps_ID ` set sel then e\<lparr>cp_lastRunAt := now\<rparr> else e) (map_of (pc_probes c) k))
    \<and> pc_pendingTriggers c' = pc_pendingTriggers c
    \<and> deferred = sum_list (map de_count (filter (\<lambda>d. de_id d \<notin> ps_ID ` set sel)
         (due_entries c now maxJobs maxPerProbe)))"
proof -
  obtain xs ys :: "dueEntry list" where sel: "sel = map selected_snapshot xs" and d: "deferred = sum_list (map de_count ys)"
    and c': "c' = fold (\<lambda>e. set_lastRunAt (de_id e) now) xs c"
    and m: "mset xs + mset ys = mset (due_entries c now maxJobs maxPerProbe)"
    and dist: "distinct (map de_id xs @ map de_id ys)"
    and ids: "map ps_ID sel = map de_id xs"
    by (rule takeDueProbes_unfold [OF assms]) blast
  have ids_set: "ps_ID ` set sel = de_id ` set xs" by (metis ids list.set_map)
  have sub: "set xs \<subseteq> set (due_entries c now maxJobs maxPerProbe)"
    using m by (metis set_mset_mset set_mset_union sup_ge1)
  have in_xs: "\<exists>e. map_of (pc_probes c) (de_id x) = Some e \<and> probeDueLocked e now
      \<and> selected_snapshot x = (cp_snapshot e)\<lparr>ps_ProbeCount :=
          clamp_count maxJobs maxPerProbe (ps_ProbeCount (cp_snapshot e))\<rparr>" if "x \<in> set xs" for x
    using that sub assms(1) by (auto simp: due_entries_iff selected_snapshot_def dest!: subsetD)
  have "ps_ID (selected_snapshot x) = de_id x" if "x \<in> set xs" for x
    using ids that by (auto simp: sel)
  then have elems: "\<forall>s \<in> set sel. \<exists>e. map_of (pc_probes c) (ps_ID s) = Some e \<and> probeDueLocked e now
         \<and> s = (cp_snapshot e)\<lparr>ps_ProbeCount :=
                 clamp_count maxJobs maxPerProbe (ps_ProbeCount (cp_snapshot e))\<rparr>"
    using in_xs by (auto simp: sel)
  have part: "filter (\<lambda>d. de_id d \<notin> de_id ` set xs) xs = []"
    "filter (\<lambda>d. de_id d \<notin> de_id ` set xs) ys = ys"
    using dist by (auto simp: filter_empty_conv filter_id_conv)
  have "mset ys = mset (filter (\<lambda>d. de_id d \<notin> de_id ` set xs) (due_entries c now maxJobs maxPerProbe))"
    by (metis (no_types, lifting) m mset_append mset_filter filter_append part append_Nil)
  then have "sum_list (map de_count ys) = sum_list (map de_count
      (filter (\<lambda>d. de_id d \<notin> de_id ` set xs) (due_entries c now maxJobs maxPerProbe)))"
    unfolding sum_mset_sum_list [symmetric] mset_map by (simp only:)
  moreover have "distinct (map ps_ID sel)" using dist ids by simp
  ultimately show ?thesis
    using elems d by (simp add: ids_set c' map_of_fold_lastRunAt)
qed

theorem takeDueProbes_partitions_witness:
  "distinct (map ps_ID [demo_probe ''b'' 2])
   \<and> pc_pendingTriggers (set_lastRunAt ''b'' demo_now demo_cache) = pc_pendingTriggers demo_cache"
  using takeDueProbes_partitions [OF demo_cache_ok _ demo_take] by simp

text \<open>C30. No probe starves: a probe that stays due is selected within as many ticks as the cache
  has probes, whatever the (positive) budgets of those ticks and whatever the other probes ask
  for.\<close>

theorem takeDueProbes_no_starvation:
  assumes "cache_ok c" "map_of (pc_probes c) k = Some e"
    and "\<forall>(now, maxJobs, maxPerProbe) \<in> set ts.
           0 < maxJobs \<and> probeDueLocked e now \<and> cp_lastRunAt e < now"
    and "length (pc_probes c) \<le> length ts"
  shows "\<exists>ids \<in> set (ticks c ts). k \<in> set ids"
  using assms card_ahead_less [OF assms(2)] by (intro ticks_select) auto

theorem takeDueProbes_no_starvation_witness:
  "\<exists>ids \<in> set (ticks demo_cache [(demo_now, 1, 1), (demo_now + 1, 1, 1)]). ''a'' \<in> set ids"
  by (rule takeDueProbes_no_starvation [OF demo_cache_ok, of _
        "\<lparr>cp_snapshot = demo_probe ''a'' 3, cp_lastRunAt = 5, cp_lastTriggerRunID = []\<rparr>"])
     (simp_all add: demo_cache_def demo_probe_def demo_now_def probeDueLocked_def Let_def
        ProbeStatusActive_def UnixMilli_def IsZero_def time_zero_def time_add_def
        probe_interval_def second_def)

text \<open>A brand-new probe is spread over the start-up window: after the stagger it falls due for
  the first time at an instant between now and the jitter (or its own interval, when that is
  shorter), and every probe that has already run, is manual or has no interval is left alone.\<close>

theorem staggerUnstarted_spreads:
  assumes "0 < jitter" "jitter < 2 ^ 63"
  shows "map fst (pc_probes (staggerUnstarted c now jitter)) = map fst (pc_probes c)
    \<and> (\<forall>i < length (pc_probes c).
         let (k, e) = pc_probes c ! i; e' = snd (pc_probes (staggerUnstarted c now jitter) ! i);
             iv = probe_interval (cp_snapshot e) in
         if IsZero (cp_lastRunAt e) \<and> ps_ScheduleType (cp_snapshot e) \<noteq> ''manual'' \<and> 0 < iv
         then cp_snapshot e' = cp_snapshot e
              \<and> now \<le> time_add (cp_lastRunAt e') iv
              \<and> time_add (cp_lastRunAt e') iv < now + min iv jitter
         else e' = e)"
proof -
  have bound: "0 \<le> uint (w mod word_of_int m :: 64 word) \<and> uint (w mod word_of_int m :: 64 word) < m"
    if "0 < m" "m < 2 ^ 63" for m w
  proof -
    have "uint (word_of_int m :: 64 word) = m" using that by (simp add: uint_word_of_int)
    then show ?thesis using that by (simp add: uint_mod)
  qed
  have iv: "probe_interval p < 2 ^ 63" for p
    unfolding probe_interval_def by (rule i64_range)
  have entry: "let e' = stagger_entry now jitter k e; iv = probe_interval (cp_snapshot e) in
         if IsZero (cp_lastRunAt e) \<and> ps_ScheduleType (cp_snapshot e) \<noteq> ''manual'' \<and> 0 < iv
         then cp_snapshot e' = cp_snapshot e
              \<and> now \<le> time_add (cp_lastRunAt e') iv
              \<and> time_add (cp_lastRunAt e') iv < now + min iv jitter
         else e' = e" for k e
    using assms bound [of "probe_interval (cp_snapshot e)" "fnv1a64 k"] bound [of jitter "fnv1a64 k"]
      iv [of "cp_snapshot e"]
    by (auto simp: stagger_entry_def Let_def time_add_def min_def not_less not_le)
  show ?thesis
    using assms entry by (auto simp: staggerUnstarted_def o_def case_prod_beta Let_def)
qed

theorem staggerUnstarted_spreads_witness:
  "(0::int) < 30 * second \<and> 30 * second < 2 ^ 63
   \<and> map fst (pc_probes (staggerUnstarted demo_cache 7 (30 * second))) = [''a'', ''b'']"
proof -
  have h: "(0::int) < 30 * second" "30 * second < 2 ^ 63" by (simp_all add: second_def)
  show ?thesis using staggerUnstarted_spreads [OF h, of demo_cache 7] h by (simp add: demo_cache_def)
qed

end
