(* ===== verification/Agent.thy ===== *)
theory Agent
  imports Delivery_Queue Dispatch Destgate Installer Store_Triggers Cache_Selection
begin

text \<open>
  The agent (\<^verbatim>\<open>internal/agent/agent.go\<close>, \<^verbatim>\<open>store_delivery.go\<close>, \<^verbatim>\<open>bindmonitor.go\<close>): the state its
  loops share, one scheduler tick, one heartbeat, and the start of the process. A loop's iteration is
  one state transformer; clocks, network answers, random ids and the success of local input and
  output are fields of an environment record, one environment per iteration. Logging and
  cancellation are not modelled.
\<close>

section \<open>State\<close>

record agent =
  a_nodeID :: string
  a_apiKey :: string
  a_apiURL :: string
  a_proxyURL :: string
  a_version :: string
  a_cache :: probeCache
  a_clock :: clockSync
  a_concurrency :: int
  a_spool :: "resultSpool option"
  a_store :: "db option"
  a_delivery :: deliveryState
  a_dbRetention :: duration
  a_dbMaxBytes :: int
  a_health :: healthSampler
  a_path :: pathHealth
  a_deferredJobs :: int
  a_bind :: Binding
  a_bindMonitor :: bindMonitor
  a_maxJobsPerTick :: int
  a_maxJobsPerProbe :: int
  a_maxTriggersPerTick :: int
  a_startupJitter :: duration
  a_ready :: bool
  a_triggersRestored :: bool
  a_status :: string
  a_interval :: duration

text \<open>A local database call that can also fail for reasons outside the model of the store.\<close>

definition attempt :: "bool \<Rightarrow> 'a tx \<Rightarrow> 'a tx" where
  "attempt io_ok t = (if io_ok then t else Inl DecodeError)"

section \<open>Conversions between the store and the cache\<close>

definition cachedStates :: "ProbeState list \<Rightarrow> cachedProbeState list" where
  "cachedStates states = map (\<lambda>s. \<lparr>cs_Snapshot = st_Snapshot s, cs_LastRunAt = st_LastRunAt s,
     cs_LastTriggerRunID = st_LastTriggerRunID s\<rparr>) states"

definition zeroSnapshot :: ProbeSnapshot where
  "zeroSnapshot = \<lparr>ps_ID = [], ps_Target = [], ps_Prober = [], ps_ProbeCount = 0, ps_TimeoutMs = 0,
     ps_ScheduleType = [], ps_IntervalSeconds = 0, ps_StartsAt = 0, ps_EndsAt = 0, ps_Params = [], ps_Status = []\<rparr>"

definition agentTriggers :: "PendingTrigger list \<Rightarrow> pendingTrigger list" where
  "agentTriggers triggers = map (\<lambda>t. \<lparr>pt_ProbeID = tr_ProbeID t, pt_RunID = tr_RunID t,
     pt_Probe = (case tr_Probe t of Some p \<Rightarrow> p | None \<Rightarrow> zeroSnapshot)\<rparr>) triggers"

definition storeTriggers :: "pendingTrigger list \<Rightarrow> (string \<times> string) list" where
  "storeTriggers triggers = map (\<lambda>t. (pt_ProbeID t, pt_RunID t)) triggers"

section \<open>Triggers\<close>

text \<open>\<open>read_ok\<close>: the durable queue could be read.\<close>

definition restorePendingTriggers :: "bool \<Rightarrow> agent \<Rightarrow> agent" where
  "restorePendingTriggers read_ok a =
     (case a_store a of
        None \<Rightarrow> a
      | Some d \<Rightarrow>
          if \<not> read_ok then a
          else (case PendingTriggers d of (triggers, d') \<Rightarrow>
                  a\<lparr>a_store := Some d', a_cache := snd (queueTriggers (a_cache a) (agentTriggers triggers)),
                    a_triggersRestored := True\<rparr>))"

text \<open>\<open>event_ok i\<close>: the database accepts the \<open>i\<close>-th call.\<close>

definition apply_event :: "(nat \<Rightarrow> bool) \<Rightarrow> int \<Rightarrow> string \<Rightarrow> nat \<times> Event \<Rightarrow> db \<times> probeCache \<Rightarrow> db \<times> probeCache" where
  "apply_event event_ok nowMS origin = (\<lambda>(i, event) (d, c).
     case attempt (event_ok i) (RecordTrigger origin nowMS event d) of
       Inl e \<Rightarrow> (d, snd (applyTriggeredEventLocked c event))
     | Inr (inserted, d') \<Rightarrow> (d', if inserted then snd (applyTriggeredEventLocked c event) else c))"

definition agent_applyTriggeredEvents :: "(nat \<Rightarrow> bool) \<Rightarrow> int \<Rightarrow> Event list \<Rightarrow> agent \<Rightarrow> agent" where
  "agent_applyTriggeredEvents event_ok nowMS events a =
     (case a_store a of
        None \<Rightarrow> a\<lparr>a_cache := applyTriggeredEvents (a_cache a) events\<rparr>
      | Some d \<Rightarrow>
          (case fold (apply_event event_ok nowMS (a_nodeID a)) (enumerate 0 events) (d, a_cache a) of
             (d', c') \<Rightarrow> a\<lparr>a_store := Some d', a_cache := c'\<rparr>))"

definition finishTriggers :: "bool \<Rightarrow> int \<Rightarrow> pendingTrigger list \<Rightarrow> bool \<Rightarrow> agent \<Rightarrow> agent" where
  "finishTriggers complete_ok nowMS triggers durable a =
     (if triggers = [] then a
      else if \<not> durable then a\<lparr>a_cache := requeueTriggers (a_cache a) triggers\<rparr>
      else (let a = (case a_store a of
                       None \<Rightarrow> a
                     | Some d \<Rightarrow> a\<lparr>a_store := Some (commit
                         (attempt complete_ok (CompleteTriggers (a_nodeID a) nowMS (storeTriggers triggers) d)) d)\<rparr>)
            in a\<lparr>a_cache := fold (\<lambda>t c. markTriggerComplete c (pt_ProbeID t) (pt_RunID t)) triggers (a_cache a)\<rparr>))"

section \<open>Reporting\<close>

record tickEnv =
  te_now :: gotime
  te_selfTest :: "string option"
  te_newRunID :: "nat \<Rightarrow> string"
  te_probe_env :: checkEnv
  te_trigger_env :: checkEnv
  te_recordedAt :: gotime
  te_sentAt :: string
  te_parse :: "string \<Rightarrow> gotime option"
  te_format :: "gotime \<Rightarrow> string"
  te_mark_ok :: bool
  te_record_ok :: bool
  te_complete_ok :: bool
  te_direct :: "WireResult list \<Rightarrow> ResultsResponse option"
  te_post :: "nat \<Rightarrow> WireResult list \<Rightarrow> ResultsResponse option"
  te_alive :: "nat \<Rightarrow> bool"
  te_db_ok :: "nat \<Rightarrow> bool"
  te_drainNow :: gotime
  te_bytes_of :: "spoolBatch \<Rightarrow> int"
  te_wrote :: bool
  te_nanos :: int
  te_hex :: string

definition drain_store :: "tickEnv \<Rightarrow> agent \<Rightarrow> agent" where
  "drain_store env a =
     (case a_store a of
        None \<Rightarrow> a
      | Some d \<Rightarrow>
          (case drainStore (te_format env) (a_nodeID a) (te_post env) (te_alive env) (te_db_ok env) (te_drainNow env)
                  (d, a_delivery a) of
             (out, d', dl) \<Rightarrow> a\<lparr>a_store := Some d', a_delivery := dl\<rparr>))"

definition drain_spool :: "tickEnv \<Rightarrow> agent \<Rightarrow> agent" where
  "drain_spool env a =
     (case a_spool a of
        None \<Rightarrow> a
      | Some sp \<Rightarrow>
          (case drainSpool (te_post env) (te_alive env) (te_drainNow env) (sp, a_delivery a) of
             (out, sp', dl) \<Rightarrow> a\<lparr>a_spool := Some sp', a_delivery := dl\<rparr>))"

definition drainDelivery :: "tickEnv \<Rightarrow> agent \<Rightarrow> agent" where
  "drainDelivery env a = (if a_store a \<noteq> None then drain_store env a else drain_spool env a)"

definition reportFallback :: "tickEnv \<Rightarrow> WireResult list \<Rightarrow> agent \<Rightarrow> bool \<times> agent" where
  "reportFallback env results a =
     (case a_spool a of
        None \<Rightarrow> (te_direct env results \<noteq> None, a)
      | Some sp \<Rightarrow>
          (case enqueue (te_bytes_of env) (te_wrote env) (te_nanos env) (te_hex env) results (te_sentAt env) sp of
             None \<Rightarrow> (te_direct env results \<noteq> None, a)
           | Some (name, sp') \<Rightarrow> (True, drain_spool env (a\<lparr>a_spool := Some sp'\<rparr>))))"

definition reportResults :: "tickEnv \<Rightarrow> WireResult list \<Rightarrow> agent \<Rightarrow> bool \<times> agent" where
  "reportResults env results a =
     (case a_store a of
        None \<Rightarrow> reportFallback env results a
      | Some d \<Rightarrow>
          (case attempt (te_record_ok env)
                  (RecordResults (te_parse env) (a_nodeID a) (to_UnixMilli (te_drainNow env)) results d) of
             Inl e \<Rightarrow> reportFallback env results a
           | Inr (summary, d') \<Rightarrow> (True, drain_store env (a\<lparr>a_store := Some d'\<rparr>))))"

section \<open>The scheduler\<close>

definition bindError :: "string option \<Rightarrow> gotime \<Rightarrow> agent \<Rightarrow> string \<times> agent" where
  "bindError selfTest now a =
     (case bind_check (a_bindMonitor a) selfTest now of
        ((text, changed), m) \<Rightarrow> (text, a\<lparr>a_bindMonitor := m\<rparr>))"

definition noteBindingPause :: "gotime \<Rightarrow> agent \<Rightarrow> agent" where
  "noteBindingPause now a =
     a\<lparr>a_deferredJobs :=
         sum_list (map (\<lambda>pr. probeJobCount (a_maxJobsPerProbe a) (ps_ProbeCount pr)) (dueProbes (a_cache a) now))
         + int (pendingTriggerCount (a_cache a))\<rparr>"

text \<open>What one tick takes: triggers first, then due probes for the rest of the budget.\<close>

record tickPlan =
  tp_triggers :: "pendingTrigger list"
  tp_due :: "ProbeSnapshot list"
  tp_deferred :: int
  tp_cache :: probeCache

definition trigger_slots :: "int \<Rightarrow> int \<Rightarrow> int \<Rightarrow> int" where
  "trigger_slots maxJobs perProbe slots =
     (if i64 (slots * perProbe) > maxJobs
      then (let s = go_div maxJobs perProbe in if s < 1 then 1 else s)
      else slots)"

definition tick_plan :: "agent \<Rightarrow> gotime \<Rightarrow> tickPlan" where
  "tick_plan a now =
     (let maxJobs = (if a_maxJobsPerTick a < 1 then 2 ^ 30 else a_maxJobsPerTick a);
          perProbe = (if a_maxJobsPerProbe a < 1 then 1 else a_maxJobsPerProbe a);
          slots = (if a_maxTriggersPerTick a < 1 then 16 else a_maxTriggersPerTick a)
      in case drainPendingTriggersLimited (a_cache a) (trigger_slots maxJobs perProbe slots) of
           (triggers, c) \<Rightarrow>
             (let triggerBudget = i64 (int (length triggers) * perProbe);
                  triggerBudget = (if triggerBudget > maxJobs then maxJobs else triggerBudget)
              in case takeDueProbes c now (maxJobs - triggerBudget) (a_maxJobsPerProbe a) of
                   ((due, deferred), c) \<Rightarrow>
                     \<lparr>tp_triggers = triggers, tp_due = due,
                      tp_deferred = deferred + int (pendingTriggerCount c), tp_cache = c\<rparr>))"

definition record_path :: "gotime \<Rightarrow> WireResult list \<Rightarrow> pathHealth \<Rightarrow> pathHealth" where
  "record_path t results p =
     fold (\<lambda>w p. path_record p (r_Target (wr_Result w)) (r_Error (wr_Result w)) (r_ErrorCode (wr_Result w)) t) results p"

definition mark_due :: "bool \<Rightarrow> ProbeSnapshot list \<Rightarrow> gotime \<Rightarrow> agent \<Rightarrow> agent" where
  "mark_due mark_ok due now a =
     (if due = [] \<or> \<not> mark_ok then a
      else a\<lparr>a_store := map_option (MarkProbesRun (map ps_ID due) now) (a_store a)\<rparr>)"

text \<open>The jobs a tick runs and the results they give; \<open>None\<close> is a panic.\<close>

definition plan_jobs :: "tickEnv \<Rightarrow> agent \<Rightarrow> tickPlan \<Rightarrow> checkJob list \<times> checkJob list" where
  "plan_jobs env a p =
     (probe_jobs (a_maxJobsPerProbe a) (te_newRunID env) (tp_due p),
      trigger_jobs (a_maxJobsPerProbe a) (tp_cache p) (tp_triggers p))"

definition execute_plan :: "tickEnv \<Rightarrow> agent \<Rightarrow> tickPlan \<Rightarrow> WireResult list option" where
  "execute_plan env a p =
     (case plan_jobs env a p of (probes, triggers) \<Rightarrow>
        (case runChecks (te_probe_env env) (a_bind a) probes of
           None \<Rightarrow> None
         | Some rs \<Rightarrow> map_option ((@) rs) (runChecks (te_trigger_env env) (a_bind a) triggers)))"

definition finish_tick :: "tickEnv \<Rightarrow> gotime \<Rightarrow> tickPlan \<Rightarrow> WireResult list \<Rightarrow> agent \<Rightarrow> agent" where
  "finish_tick env now p results a =
     (let a = a\<lparr>a_path := record_path (te_recordedAt env) results (a_path a)\<rparr>;
          a = mark_due (te_mark_ok env) (tp_due p) now a
      in case (if results = [] then (True, a) else reportResults env results a) of
           (durable, a) \<Rightarrow>
             finishTriggers (te_complete_ok env) (to_UnixMilli (te_drainNow env)) (tp_triggers p) durable a)"

definition binding_paused :: "tickEnv \<Rightarrow> agent \<Rightarrow> bool \<times> agent" where
  "binding_paused env a =
     (if Binding_IsZero (a_bind a) then (False, a)
      else (case bindError (te_selfTest env) (clock_now (a_clock a) (te_now env)) a of (t, a) \<Rightarrow> (t \<noteq> [], a)))"

definition runDueProbes :: "tickEnv \<Rightarrow> agent \<Rightarrow> agent option" where
  "runDueProbes env a =
     (let now = clock_now (a_clock a) (te_now env) in
      case binding_paused env a of
        (True, a) \<Rightarrow> Some (drainDelivery env (noteBindingPause now a))
      | (False, a) \<Rightarrow>
          (let p = tick_plan a now;
               a = a\<lparr>a_cache := tp_cache p, a_deferredJobs := tp_deferred p\<rparr>
           in if tp_due p = [] \<and> tp_triggers p = [] then Some (drainDelivery env a)
              else map_option (\<lambda>results. finish_tick env now p results a) (execute_plan env a p)))"

text \<open>One tick of the scheduler loop.\<close>

definition scheduler_tick :: "tickEnv \<Rightarrow> agent \<Rightarrow> agent option" where
  "scheduler_tick env a =
     (if \<not> a_ready a then Some a
      else if a_status a \<noteq> NodeStatusActive then Some a
      else runDueProbes env a)"

section \<open>The heartbeat\<close>

text \<open>The version of the protocol is set by the client.\<close>

record HeartbeatRequest =
  hr_SpecVersion :: int
  hr_NodeID :: string
  hr_AgentVersion :: string
  hr_OS :: string
  hr_Arch :: string
  hr_Probers :: "string list"
  hr_Modules :: "(string \<times> ModuleVersion) list"
  hr_ProbeHash :: string
  hr_Health :: NodeHealth
  hr_SentAt :: string

datatype sendOutcome = SendFailed | SendRejected "string list" | SendOk HeartbeatResponse

record sendEnv =
  se_sentAt :: gotime
  se_receivedAt :: gotime
  se_reading :: osReading
  se_selfTest :: "string option"
  se_ipstr :: "addr \<Rightarrow> string"
  se_goos :: string
  se_goarch :: string
  se_modules :: "(string \<times> ModuleVersion) list"
  se_format :: "gotime \<Rightarrow> string"
  se_outcome :: "HeartbeatRequest \<Rightarrow> sendOutcome"

definition with_binding :: "sendEnv \<Rightarrow> NodeHealth \<Rightarrow> agent \<Rightarrow> NodeHealth \<times> agent" where
  "with_binding env h a =
     (if Binding_IsZero (a_bind a) then (h, a)
      else (case bindError (se_selfTest env) (se_sentAt env) a of
              (text, a) \<Rightarrow>
                (h\<lparr>nh_SourceIP := (case SourceIP (a_bind a) of None \<Rightarrow> nh_SourceIP h | Some ip \<Rightarrow> se_ipstr env ip),
                   nh_BindInterface := Interface (a_bind a), nh_BindError := text\<rparr>, a)))"

definition heartbeat_request :: "string list \<Rightarrow> sendEnv \<Rightarrow> agent \<Rightarrow> HeartbeatRequest \<times> agent" where
  "heartbeat_request probers env a =
     (case path_state (a_path a) (se_sentAt env) of
        (pathState, p) \<Rightarrow>
          (case health_snapshot (a_health a) (se_reading env) (se_sentAt env) pathState (a_deferredJobs a) of
             (h, hs) \<Rightarrow>
               (case with_binding env h (a\<lparr>a_path := p, a_health := hs\<rparr>) of
                  (h, a) \<Rightarrow>
                    (\<lparr>hr_SpecVersion = 0, hr_NodeID = a_nodeID a, hr_AgentVersion = a_version a, hr_OS = se_goos env,
                      hr_Arch = se_goarch env, hr_Probers = probers, hr_Modules = se_modules env,
                      hr_ProbeHash = lastKnownHash (a_cache a), hr_Health = h, hr_SentAt = se_format env (se_sentAt env)\<rparr>, a))))"

definition send :: "string list \<Rightarrow> sendEnv \<Rightarrow> agent \<Rightarrow> sendOutcome \<times> agent" where
  "send probers env a =
     (case heartbeat_request probers env a of
        (req, a) \<Rightarrow>
          (let out = se_outcome env req
           in (out, a\<lparr>a_health := noteHeartbeat (a_health a) (time_sub (se_receivedAt env) (se_sentAt env))
                        (case out of SendOk _ \<Rightarrow> True | _ \<Rightarrow> False)\<rparr>)))"

record beatEnv =
  be_restore_ok :: bool
  be_probers :: "string list"
  be_first :: sendEnv
  be_upload_ok :: bool
  be_second :: sendEnv
  be_parse :: "string \<Rightarrow> gotime option"
  be_save_ok :: bool
  be_event_ok :: "nat \<Rightarrow> bool"
  be_nowMS :: int
  be_localNow :: gotime
  be_ack_ok :: bool
  be_started :: bool

text \<open>A heartbeat, repeated once after the modules the server misses were uploaded. The value is the
  response, with the times of the request it answers.\<close>

definition exchange :: "beatEnv \<Rightarrow> agent \<Rightarrow> (HeartbeatResponse \<times> gotime \<times> gotime) option \<times> agent" where
  "exchange env a =
     (case send (be_probers env) (be_first env) a of
        (SendOk resp, a) \<Rightarrow> (Some (resp, se_sentAt (be_first env), se_receivedAt (be_first env)), a)
      | (SendFailed, a) \<Rightarrow> (None, a)
      | (SendRejected missing, a) \<Rightarrow>
          if \<not> be_upload_ok env then (None, a)
          else (case send (be_probers env) (be_second env) a of
                  (SendOk resp, a) \<Rightarrow> (Some (resp, se_sentAt (be_second env), se_receivedAt (be_second env)), a)
                | (_, a) \<Rightarrow> (None, a)))"

definition sync_clock :: "beatEnv \<Rightarrow> HeartbeatResponse \<Rightarrow> gotime \<Rightarrow> gotime \<Rightarrow> agent \<Rightarrow> agent" where
  "sync_clock env resp sentAt receivedAt a =
     (case be_parse env (hb_ServerTime resp) of
        None \<Rightarrow> a
      | Some serverTime \<Rightarrow> a\<lparr>a_clock := clock_update (a_clock a) serverTime sentAt receivedAt\<rparr>)"

definition persist_assignment :: "beatEnv \<Rightarrow> string \<Rightarrow> ProbeSnapshot list \<Rightarrow> agent \<Rightarrow> bool \<times> agent" where
  "persist_assignment env hash probes a =
     (case a_store a of
        None \<Rightarrow> (True, a)
      | Some d \<Rightarrow>
          (case attempt (be_save_ok env) (SaveAssignment (a_nodeID a) (be_nowMS env) hash probes d) of
             Inl e \<Rightarrow> (False, a)
           | Inr (_, d') \<Rightarrow> (True, a\<lparr>a_store := Some d'\<rparr>)))"

definition sync_assignment :: "beatEnv \<Rightarrow> HeartbeatResponse \<Rightarrow> agent \<Rightarrow> agent" where
  "sync_assignment env resp a =
     (if hb_ProbeHash resp = [] then a
      else (case persist_assignment env (hb_ProbeHash resp) (hb_Probes resp) a of
              (persisted, a) \<Rightarrow>
                (let c = (if persisted then replaceAssignment (a_cache a) (hb_ProbeHash resp) (hb_Probes resp)
                          else replaceAssignmentKeepingHash (a_cache a) (hb_Probes resp))
                 in a\<lparr>a_cache := staggerUnstarted c (clock_now (a_clock a) (be_localNow env)) (a_startupJitter a)\<rparr>)))"

text \<open>The state after a response, up to the commands.\<close>

definition apply_response :: "beatEnv \<Rightarrow> HeartbeatResponse \<Rightarrow> gotime \<Rightarrow> gotime \<Rightarrow> agent \<Rightarrow> agent" where
  "apply_response env resp sentAt receivedAt a =
     (let confirmed = hb_NodeStatus resp \<noteq> [];
          a = (if confirmed then a\<lparr>a_status := hb_NodeStatus resp\<rparr> else a);
          a = (if hb_HeartbeatIntervalSecs resp > 0
               then a\<lparr>a_interval := i64 (hb_HeartbeatIntervalSecs resp * second)\<rparr> else a);
          a = sync_clock env resp sentAt receivedAt a;
          a = sync_assignment env resp a;
          a = (if hb_Events resp \<noteq> []
               then agent_applyTriggeredEvents (be_event_ok env) (be_nowMS env) (hb_Events resp) a else a)
      in if confirmed then a\<lparr>a_ready := True\<rparr> else a)"

definition command_fate :: "beatEnv \<Rightarrow> HeartbeatResponse \<Rightarrow> processFate" where
  "command_fate env resp =
     (if hb_Command resp = ''delete'' then Exits 0
      else (case hb_PendingAction resp of
              None \<Rightarrow> Stays
            | Some action \<Rightarrow>
                (case handlePendingAction (be_ack_ok env) action of
                   None \<Rightarrow> Stays
                 | Some flags \<Rightarrow> reinstall_fate (be_started env))))"

definition restore_again :: "beatEnv \<Rightarrow> agent \<Rightarrow> agent" where
  "restore_again env a =
     (if a_store a \<noteq> None \<and> \<not> a_triggersRestored a then restorePendingTriggers (be_restore_ok env) a else a)"

definition beat :: "beatEnv \<Rightarrow> agent \<Rightarrow> processFate \<times> agent" where
  "beat env a =
     (case exchange env (restore_again env a) of
        (None, a) \<Rightarrow> (Stays, a)
      | (Some (resp, sentAt, receivedAt), a) \<Rightarrow>
          (command_fate env resp, apply_response env resp sentAt receivedAt a))"

section \<open>Maintenance\<close>

text \<open>One round of the maintenance loop and the pause after it. The store serializes its transactions;
  what the other loops may do between them is the subject of the rollup theory.\<close>

record maintainEnv =
  me_live :: "db \<Rightarrow> int"
  me_freelist :: "nat \<Rightarrow> int"
  me_now :: gotime

definition dbMaintenanceInterval :: duration where "dbMaintenanceInterval = 3600 * second"
definition dbMaintenanceRetry :: duration where "dbMaintenanceRetry = 300 * second"
definition dbMaintenanceBudgetRetry :: duration where "dbMaintenanceBudgetRetry = 900 * second"

definition maintenance_round :: "maintainEnv \<Rightarrow> agent \<Rightarrow> duration \<times> agent" where
  "maintenance_round env a =
     (case a_store a of
        None \<Rightarrow> (dbMaintenanceInterval, a)
      | Some d \<Rightarrow>
          (case Maintain quiet (me_live env) (me_freelist env) (me_now env)
                  \<lparr>mo_Retention = a_dbRetention a, mo_MaxBytes = a_dbMaxBytes a\<rparr> d of
             (r, d') \<Rightarrow>
               ((case r of Inl e \<Rightarrow> dbMaintenanceRetry
                 | Inr st \<Rightarrow> if ms_OverBudget st then dbMaintenanceBudgetRetry else dbMaintenanceInterval),
                a\<lparr>a_store := Some d'\<rparr>)))"

section \<open>Start of the process\<close>

text \<open>What \<^verbatim>\<open>Run\<close> does with the local store before the loops start.\<close>

definition restore_local :: "bool \<Rightarrow> bool \<Rightarrow> agent \<Rightarrow> agent" where
  "restore_local load_ok read_ok a =
     (case a_store a of
        None \<Rightarrow> a
      | Some d \<Rightarrow>
          (case LoadProbeStates d of (hash, states) \<Rightarrow>
             restorePendingTriggers read_ok
               (if load_ok \<and> hash \<noteq> [] then a\<lparr>a_cache := restore (a_cache a) hash (cachedStates states)\<rparr> else a)))"

definition start_agent :: "bool \<Rightarrow> bool \<Rightarrow> gotime \<Rightarrow> agent \<Rightarrow> agent" where
  "start_agent load_ok read_ok localNow a =
     (let a = restore_local load_ok read_ok (a\<lparr>a_status := NodeStatusActive\<rparr>)
      in a\<lparr>a_cache := staggerUnstarted (a_cache a) (clock_now (a_clock a) localNow) (a_startupJitter a)\<rparr>)"


text \<open>The process as it comes up. The database is one any earlier history of calls may have left, the
  spool directory holds one entry per name, and without either results are posted directly.\<close>

datatype storage = Direct | Spool "spoolFile list" int | Database "storeOp list"

definition dir_listing :: "spoolFile list \<Rightarrow> spoolFile list" where
  "dir_listing files = map snd (AList.clearjunk (map (\<lambda>f. (sf_name f, f)) files))"

definition booted :: "agent \<Rightarrow> storage \<Rightarrow> bool \<Rightarrow> bool \<Rightarrow> gotime \<Rightarrow> agent" where
  "booted base s load_ok read_ok localNow =
     (let a = base\<lparr>a_cache := newProbeCache, a_store := None, a_spool := None, a_delivery := delivery_init,
                a_ready := False, a_triggersRestored := False\<rparr>
      in start_agent load_ok read_ok localNow
           (case s of
              Direct \<Rightarrow> a
            | Spool files maxBytes \<Rightarrow> a\<lparr>a_spool := newResultSpool ''spool'' maxBytes (dir_listing files)\<rparr>
            | Database ops \<Rightarrow> a\<lparr>a_store := Some (fold (store_step (a_nodeID a)) ops fresh_db)\<rparr>))"

section \<open>The agent as a machine\<close>

datatype agentEvent = ETick tickEnv | EBeat beatEnv | EMaintain maintainEnv

text \<open>One iteration of one of the loops. A panic or an exit ends the process; the state is then the
  last one and no further event happens.\<close>

fun agent_step :: "agentEvent \<Rightarrow> agent \<Rightarrow> agent" where
  "agent_step (ETick env) a = (case scheduler_tick env a of None \<Rightarrow> a | Some a' \<Rightarrow> a')"
| "agent_step (EBeat env) a = snd (beat env a)"
| "agent_step (EMaintain env) a = snd (maintenance_round env a)"

end
