(* ===== verification/Cache_Triggers.thy ===== *)
theory Cache_Triggers
  imports Cache_Selection
begin

text \<open>
  Assignment replacement and the life of a trigger in the cache: what a resync keeps, when a
  trigger is queued, how the queue is drained and refilled, and two situations in which the
  in-memory dedup does not do what the surrounding comments say.
\<close>

section \<open>Assignments\<close>

lemma map_of_fold_update:
  "map_of (fold (\<lambda>x. AList.update (f x) (g x)) xs m) k
   = (case map_of (rev (map (\<lambda>x. (f x, g x)) xs)) k of None \<Rightarrow> map_of m k | Some v \<Rightarrow> Some v)"
proof (induction xs arbitrary: m)
  case Nil
  then show ?case by simp
next
  case (Cons x xs)
  then show ?case by (auto simp: map_add_def split: option.splits)
qed

lemma map_of_rev_map_snd:
  "map_of (rev (map (\<lambda>x. (f x, h x)) xs)) k = map_option h (map_of (rev (map (\<lambda>x. (f x, x)) xs)) k)"
  by (induction xs) (auto simp: map_add_def split: option.splits)

lemma map_of_key: "map_of (rev (map (\<lambda>x. (f x, x)) xs)) k = Some s \<Longrightarrow> f s = k"
  by (induction xs) (auto simp: map_add_def split: option.splits if_splits)

section \<open>The queue\<close>

lemma set_lastTrigger_lookup:
  "map_of (pc_probes (set_lastTrigger i r c)) k
   = map_option (\<lambda>e. if k = i then e\<lparr>cp_lastTriggerRunID := r\<rparr> else e) (map_of (pc_probes c) k)"
  by (cases "map_of (pc_probes c) k") (auto simp: set_lastTrigger_def split: option.splits)

lemma note_trigger_again:
  assumes "note_trigger c i r = Some c'" "map_of (pc_probes c) i = Some e"
  shows "note_trigger c' i r = None"
  using assms
  by (auto simp: note_trigger_def set_lastTrigger_lookup split: if_splits)

lemma note_trigger_unassigned: "map_of (pc_probes c) i = None \<Longrightarrow> note_trigger c i r = Some c"
  by (simp add: note_trigger_def)

lemma requeue_keeps_prefix: "\<exists>us. pc_pendingTriggers (requeueTriggers c ts) = pc_pendingTriggers c @ us
    \<and> length us \<le> length ts"
proof (induction ts arbitrary: c)
  case Nil
  then show ?case by simp
next
  case (Cons t ts)
  show ?case
  proof (cases "pt_ProbeID t = [] \<or> pt_RunID t = []
      \<or> hasPendingTriggerLocked c (pt_ProbeID t) (pt_RunID t)
      \<or> length (pc_pendingTriggers c) \<ge> maxPendingTriggers")
    case True
    then have "requeueTriggers c (t # ts) = requeueTriggers c ts" by auto
    with Cons.IH [of c] show ?thesis by (auto simp: le_SucI)
  next
    case False
    with Cons.IH [of "push_trigger c t"] show ?thesis by (auto simp: not_le)
  qed
qed

lemma requeue_all:
  assumes "length (pc_pendingTriggers c) + length ts \<le> maxPendingTriggers"
    and "\<forall>t \<in> set ts. pt_ProbeID t \<noteq> [] \<and> pt_RunID t \<noteq> []"
  shows "trig_key ` set ts \<subseteq> trig_key ` set (pc_pendingTriggers (requeueTriggers c ts))"
  using assms
proof (induction ts arbitrary: c)
  case Nil
  then show ?case by simp
next
  case (Cons t ts)
  let ?k = "(pt_ProbeID t, pt_RunID t)"
  show ?case
  proof (cases "hasPendingTriggerLocked c (pt_ProbeID t) (pt_RunID t)")
    case True
    then have "trig_key t \<in> trig_key ` set (pc_pendingTriggers (requeueTriggers c ts))"
      using requeue_keeps_prefix [of c ts] by (auto simp: hasPending_iff trig_key_def)
    with True Cons show ?thesis by auto
  next
    case False
    then have step: "requeueTriggers c (t # ts) = requeueTriggers (push_trigger c t) ts"
      using Cons.prems by auto
    have "trig_key t \<in> trig_key ` set (pc_pendingTriggers (requeueTriggers (push_trigger c t) ts))"
      using requeue_keeps_prefix [of "push_trigger c t" ts] by auto
    with Cons.IH [of "push_trigger c t"] Cons.prems show ?thesis unfolding step by auto
  qed
qed

section \<open>Properties\<close>

text \<open>Whatever sequence of operations the heartbeat, the scheduler and the restart path
  perform on the cache, it stays well formed: one entry per probe id, filed under that id, and a
  trigger queue of at most 256 entries in which no (probe, run) pair occurs twice or is empty.\<close>

theorem cache_always_ok:
  "cache_ok (fold cache_step ops newProbeCache)"
  by (rule cache.inv_run)

text \<open>A resync replaces the assignment wholesale: exactly the probes of the new snapshot list
  are present (the last one listed, should an id repeat), a probe known before keeps its last run
  time and last trigger, a new one starts with none, and pending triggers are untouched.\<close>

theorem replaceAssignment_carries_schedule:
  "map_of (pc_probes (replaceAssignment c hash probes)) k
     = map_option (\<lambda>s. \<lparr>cp_snapshot = s,
          cp_lastRunAt = (case map_of (pc_probes c) k of
             None \<Rightarrow> time_zero | Some e \<Rightarrow> cp_lastRunAt e),
          cp_lastTriggerRunID = (case map_of (pc_probes c) k of
             None \<Rightarrow> [] | Some e \<Rightarrow> cp_lastTriggerRunID e)\<rparr>)
        (map_of (rev (map (\<lambda>s. (ps_ID s, s)) probes)) k)
   \<and> lastKnownHash (replaceAssignment c hash probes) = hash
   \<and> pc_pendingTriggers (replaceAssignment c hash probes) = pc_pendingTriggers c"
proof -
  have "map_of (pc_probes (replaceAssignment c hash probes)) k
      = map_option (carry_entry (pc_probes c)) (map_of (rev (map (\<lambda>s. (ps_ID s, s)) probes)) k)"
    unfolding replaceAssignment_def replaceAssignmentLocked_def
    by (simp add: map_of_fold_update map_of_rev_map_snd [of ps_ID "carry_entry (pc_probes c)"]
          split: option.splits)
  also have "\<dots> = map_option (\<lambda>s. \<lparr>cp_snapshot = s,
          cp_lastRunAt = (case map_of (pc_probes c) k of
             None \<Rightarrow> time_zero | Some e \<Rightarrow> cp_lastRunAt e),
          cp_lastTriggerRunID = (case map_of (pc_probes c) k of
             None \<Rightarrow> [] | Some e \<Rightarrow> cp_lastTriggerRunID e)\<rparr>)
        (map_of (rev (map (\<lambda>s. (ps_ID s, s)) probes)) k)"
    by (cases "map_of (rev (map (\<lambda>s. (ps_ID s, s)) probes)) k")
       (auto simp: carry_entry_def dest!: map_of_key split: option.splits)
  finally show ?thesis
    by (simp add: lastKnownHash_def replaceAssignment_def replaceAssignmentLocked_def)
qed

text \<open>Delivering the same trigger event again right away changes nothing and queues nothing,
  whatever the first delivery did.\<close>

theorem applyTriggeredEvent_idempotent:
  "applyTriggeredEventLocked (snd (applyTriggeredEventLocked c ev)) ev
   = (False, snd (applyTriggeredEventLocked c ev))"
proof (cases "ev_EventType ev \<noteq> ''triggered'' \<or> ev_RunID ev = [] \<or> ps_ID (ev_Probe ev) = []
    \<or> hasPendingTriggerLocked c (ps_ID (ev_Probe ev)) (ev_RunID ev)
    \<or> note_trigger c (ps_ID (ev_Probe ev)) (ev_RunID ev) = None")
  case True
  then show ?thesis by (auto simp: applyTriggeredEventLocked_def)
next
  case False
  let ?i = "ps_ID (ev_Probe ev)" and ?r = "ev_RunID ev"
  from False obtain c' where n: "note_trigger c ?i ?r = Some c'" by auto
  show ?thesis
  proof (cases "length (pc_pendingTriggers c') \<ge> maxPendingTriggers")
    case True
    with False n have s: "applyTriggeredEventLocked c ev = (False, c')"
      by (auto simp: applyTriggeredEventLocked_def)
    show ?thesis
    proof (cases "map_of (pc_probes c) ?i")
      case None
      with n have "c' = c" by (simp add: note_trigger_def)
      with s show ?thesis by simp
    next
      case (Some e)
      with n note_trigger_again have "note_trigger c' ?i ?r = None" by blast
      with False s show ?thesis by (auto simp: applyTriggeredEventLocked_def)
    qed
  next
    case False2: False
    with False n show ?thesis
      by (auto simp: applyTriggeredEventLocked_def hasPending_iff trig_key_def)
  qed
qed

text \<open>A drain hands out the oldest triggers in order and keeps the rest: what is drained
  followed by what stays is the queue, and a positive limit is respected.\<close>

theorem drain_is_fifo:
  "fst (drainPendingTriggersLimited c limit)
     @ pc_pendingTriggers (snd (drainPendingTriggersLimited c limit)) = pc_pendingTriggers c
   \<and> (0 < limit \<longrightarrow> int (length (fst (drainPendingTriggersLimited c limit))) \<le> limit)
   \<and> (0 < limit \<or> limit \<le> 0 \<and> pc_pendingTriggers (snd (drainPendingTriggersLimited c limit)) = [])
   \<and> pc_probes (snd (drainPendingTriggersLimited c limit)) = pc_probes c"
  by (auto simp: drainPendingTriggersLimited_def)

theorem drain_is_fifo_witness:
  "fst (drainPendingTriggersLimited demo_cache 3)
     @ pc_pendingTriggers (snd (drainPendingTriggersLimited demo_cache 3)) = []
   \<and> int (length (fst (drainPendingTriggersLimited demo_cache 3))) \<le> 3"
  using drain_is_fifo [of demo_cache 3] by (simp add: demo_cache_def)

text \<open>Triggers whose results could not be made durable come back: as long as the queue has
  room for them, every requeued trigger is pending again afterwards, behind the ones that
  arrived in the meantime, which keep their order.\<close>

theorem requeueTriggers_restores:
  assumes "length (pc_pendingTriggers c) + length ts \<le> maxPendingTriggers"
    and "\<forall>t \<in> set ts. pt_ProbeID t \<noteq> [] \<and> pt_RunID t \<noteq> []"
  shows "(\<forall>t \<in> set ts. hasPendingTriggerLocked (requeueTriggers c ts) (pt_ProbeID t) (pt_RunID t))
    \<and> take (length (pc_pendingTriggers c)) (pc_pendingTriggers (requeueTriggers c ts))
        = pc_pendingTriggers c"
  using requeue_all [OF assms] requeue_keeps_prefix [of c ts]
  by (auto simp: hasPending_iff trig_key_def subset_iff)

theorem requeueTriggers_restores_witness:
  "hasPendingTriggerLocked (requeueTriggers demo_cache
      [\<lparr>pt_ProbeID = ''a'', pt_RunID = ''r'', pt_Probe = demo_probe ''a'' 1\<rparr>]) ''a'' ''r''"
  using requeueTriggers_restores [of demo_cache
      "[\<lparr>pt_ProbeID = ''a'', pt_RunID = ''r'', pt_Probe = demo_probe ''a'' 1\<rparr>]"]
  by (simp add: demo_cache_def maxPendingTriggers_def)

text \<open>The in-memory dedup remembers one run per probe. Two triggers of the same probe that are
  queued, drained, run and marked complete are both queued a second time when the server
  redelivers them, so each runs again.\<close>

theorem two_triggers_defeat_dedup:
  assumes "map_of (pc_probes c) p = Some e" "pc_pendingTriggers c = []"
    and "ps_ID (ev_Probe ev1) = p" "ev_EventType ev1 = ''triggered''" "ev_RunID ev1 = r1"
    and "ps_ID (ev_Probe ev2) = p" "ev_EventType ev2 = ''triggered''" "ev_RunID ev2 = r2"
    and "p \<noteq> []" "r1 \<noteq> []" "r2 \<noteq> []" "r1 \<noteq> r2" "cp_lastTriggerRunID e \<noteq> r1"
  shows "case drainPendingTriggers (applyTriggeredEvents c [ev1, ev2]) of (run, c2) \<Rightarrow>
           map trig_key run = [(p, r1), (p, r2)]
           \<and> map trig_key (pc_pendingTriggers (applyTriggeredEvents
               (markTriggerComplete (markTriggerComplete c2 p r1) p r2) [ev1, ev2]))
             = [(p, r1), (p, r2)]"
proof -
  have app: "applyTriggeredEvents d [ev1, ev2]
      = push_trigger (set_lastTrigger p r2
          (push_trigger (set_lastTrigger p r1 d) \<lparr>pt_ProbeID = p, pt_RunID = r1, pt_Probe = ev_Probe ev1\<rparr>))
          \<lparr>pt_ProbeID = p, pt_RunID = r2, pt_Probe = ev_Probe ev2\<rparr>"
    if "map_of (pc_probes d) p = Some f" "cp_lastTriggerRunID f \<noteq> r1" "pc_pendingTriggers d = []"
    for d f
    using assms that
    by (simp add: applyTriggeredEvents_def applyTriggeredEventLocked_def note_trigger_def
          hasPendingTriggerLocked_def set_lastTrigger_lookup maxPendingTriggers_def)
  let ?c1 = "applyTriggeredEvents c [ev1, ev2]"
  have c1: "map trig_key (pc_pendingTriggers ?c1) = [(p, r1), (p, r2)]"
    using app [OF assms(1,13,2)] assms(2) by (simp add: trig_key_def)
  have look: "\<exists>f. map_of (pc_probes ?c1) p = Some f"
    using app [OF assms(1,13,2)] assms(1) by (simp add: set_lastTrigger_lookup)
  define c2 where "c2 = ?c1\<lparr>pc_pendingTriggers := []\<rparr>"
  have drain: "drainPendingTriggers ?c1 = (pc_pendingTriggers ?c1, c2)"
    using c1 by (auto simp: drainPendingTriggers_def drainPendingTriggersLimited_def c2_def)
  define c3 where "c3 = markTriggerComplete (markTriggerComplete c2 p r1) p r2"
  from look obtain f where f: "map_of (pc_probes c3) p = Some f" "cp_lastTriggerRunID f = r2"
    by (auto simp: c3_def c2_def markTriggerComplete_def set_lastTrigger_lookup)
  have "pc_pendingTriggers c3 = []" by (simp add: c3_def markTriggerComplete_def c2_def)
  with app [OF f(1)] f(2) assms(12)
  have "map trig_key (pc_pendingTriggers (applyTriggeredEvents c3 [ev1, ev2])) = [(p, r1), (p, r2)]"
    by (simp add: trig_key_def)
  with drain c1 show ?thesis by (simp add: c3_def)
qed

definition demo_event :: "string \<Rightarrow> string \<Rightarrow> Event" where
  "demo_event p r = \<lparr>ev_Seq = 1, ev_EventType = ''triggered'', ev_Probe = demo_probe p 1, ev_RunID = r\<rparr>"

theorem two_triggers_defeat_dedup_witness:
  "case drainPendingTriggers (applyTriggeredEvents demo_cache [demo_event ''a'' ''r1'', demo_event ''a'' ''r2''])
     of (run, c2) \<Rightarrow> map trig_key run = [(''a'', ''r1''), (''a'', ''r2'')]
       \<and> map trig_key (pc_pendingTriggers (applyTriggeredEvents
           (markTriggerComplete (markTriggerComplete c2 ''a'' ''r1'') ''a'' ''r2'')
           [demo_event ''a'' ''r1'', demo_event ''a'' ''r2''])) = [(''a'', ''r1''), (''a'', ''r2'')]"
  by (rule two_triggers_defeat_dedup [where e =
        "\<lparr>cp_snapshot = demo_probe ''a'' 3, cp_lastRunAt = 5, cp_lastTriggerRunID = []\<rparr>"])
     (simp_all add: demo_cache_def demo_event_def demo_probe_def)

text \<open>A trigger that meets a full queue is lost to the in-memory path: it is refused, but its
  run is already recorded as the probe's last trigger, so every later redelivery is refused too,
  even once the queue has room.\<close>

theorem full_queue_loses_trigger:
  assumes "map_of (pc_probes c) (ps_ID (ev_Probe ev)) = Some e"
    and "cp_lastTriggerRunID e \<noteq> ev_RunID ev"
    and "length (pc_pendingTriggers c) \<ge> maxPendingTriggers"
  shows "\<not> fst (applyTriggeredEventLocked c ev)
    \<and> (\<not> hasPendingTriggerLocked c (ps_ID (ev_Probe ev)) (ev_RunID ev)
        \<and> ev_EventType ev = ''triggered'' \<and> ev_RunID ev \<noteq> [] \<and> ps_ID (ev_Probe ev) \<noteq> [] \<longrightarrow>
       (\<forall>q. applyTriggeredEventLocked
              ((snd (applyTriggeredEventLocked c ev))\<lparr>pc_pendingTriggers := q\<rparr>) ev
            = (False, (snd (applyTriggeredEventLocked c ev))\<lparr>pc_pendingTriggers := q\<rparr>)))"
  using assms
  by (auto simp: applyTriggeredEventLocked_def note_trigger_def set_lastTrigger_lookup)

theorem full_queue_loses_trigger_witness:
  "applyTriggeredEventLocked ((snd (applyTriggeredEventLocked
        (demo_cache\<lparr>pc_pendingTriggers := replicate 256
           \<lparr>pt_ProbeID = ''b'', pt_RunID = ''x'', pt_Probe = demo_probe ''b'' 1\<rparr>\<rparr>)
        (demo_event ''a'' ''r'')))\<lparr>pc_pendingTriggers := []\<rparr>) (demo_event ''a'' ''r'')
   = (False, (snd (applyTriggeredEventLocked
        (demo_cache\<lparr>pc_pendingTriggers := replicate 256
           \<lparr>pt_ProbeID = ''b'', pt_RunID = ''x'', pt_Probe = demo_probe ''b'' 1\<rparr>\<rparr>)
        (demo_event ''a'' ''r'')))\<lparr>pc_pendingTriggers := []\<rparr>)"
proof -
  let ?c = "demo_cache\<lparr>pc_pendingTriggers := replicate 256
     \<lparr>pt_ProbeID = ''b'', pt_RunID = ''x'', pt_Probe = demo_probe ''b'' 1\<rparr>\<rparr>"
  have a: "map_of (pc_probes ?c) (ps_ID (ev_Probe (demo_event ''a'' ''r''))) = Some
      \<lparr>cp_snapshot = demo_probe ''a'' 3, cp_lastRunAt = 5, cp_lastTriggerRunID = []\<rparr>"
    by (simp add: demo_cache_def demo_event_def demo_probe_def)
  have n: "\<not> hasPendingTriggerLocked ?c (ps_ID (ev_Probe (demo_event ''a'' ''r'')))
      (ev_RunID (demo_event ''a'' ''r''))"
    by (auto simp: hasPending_iff trig_key_def demo_event_def demo_probe_def)
  show ?thesis
    using full_queue_loses_trigger [OF a] n
    by (simp add: maxPendingTriggers_def demo_event_def demo_probe_def)
qed

end
