(* ===== verification/Agent_Invariant.thy ===== *)
theory Agent_Invariant
  imports Agent Cache_Triggers
begin

text \<open>
  The invariant of the agent over every history of ticks, heartbeats and maintenance rounds, what a
  tick may run, and which triggers a tick retires.
\<close>

section \<open>What the store operations of the agent leave of the assignment's hash\<close>

definition stored_hash :: "db \<Rightarrow> string" where
  "stored_hash d = opt_string (map_of (db_meta d) ''probe_hash'')"

lemma stored_hash_cong: "db_meta d' = db_meta d \<Longrightarrow> stored_hash d' = stored_hash d"
  by (simp add: stored_hash_def)

lemma fold_same: "(\<And>x s. f (g x s) = f s) \<Longrightarrow> f (fold g xs s) = f s"
  by (induction xs arbitrary: s) auto

lemma nextOriginSeq_meta: "nextOriginSeq origin n d = Inr (s, d') \<Longrightarrow> db_meta d' = db_meta d"
  by (auto simp: nextOriginSeq_def Let_def split: if_splits option.splits)

lemma record_one_meta: "db_meta (snd (record_one parse origin nowMS oseq w st)) = db_meta (snd st)"
  by (auto simp: record_one_def insert_or_ignore_def Let_def split: prod.splits)

lemma record_rows_meta: "db_meta (snd (record_rows parse origin nowMS start ws st)) = db_meta (snd st)"
  by (induction parse origin nowMS start ws st rule: record_rows.induct) (simp_all add: record_one_meta)

lemma RecordResults_meta: 
  assumes "RecordResults parse origin nowMS ws d = Inr (sm, d')"
  shows "db_meta d' = db_meta d"
proof (cases "ws = []")
  case False
  with assms obtain s d1 where n: "nextOriginSeq origin (int (length ws)) d = Inr (s, d1)"
    "record_rows parse origin nowMS s ws (zeroSummary, d1) = (sm, d')"
    by (auto simp: RecordResults_def bind_tx_Inr)
  from record_rows_meta [of parse origin nowMS s ws "(zeroSummary, d1)"] nextOriginSeq_meta [OF n(1)] n(2)
  show ?thesis by simp
qed (use assms in \<open>simp add: RecordResults_def\<close>)

lemma MarkOutcomes_meta [simp]: "db_meta (MarkOutcomes nowMS ocs d) = db_meta d"
  by (induction ocs arbitrary: d) (auto simp: MarkOutcomes_def)

lemma MarkAttempts_meta [simp]: "db_meta (MarkAttempts seqs d) = db_meta d"
  unfolding MarkAttempts_def by (rule fold_same) simp

lemma MarkProbesRun_meta [simp]: "db_meta (MarkProbesRun ids t d) = db_meta d"
  unfolding MarkProbesRun_def by (rule fold_same) simp

lemma PendingTriggers_meta [simp]: "db_meta (snd (PendingTriggers d)) = db_meta d"
  unfolding PendingTriggers_def Let_def snd_conv by (rule fold_same) (simp add: drop_pending_def)

lemma RecordTrigger_meta:
  assumes "store_ok d" "RecordTrigger origin t e d = Inr (b, d')"
  shows "db_meta d' = db_meta d"
proof (cases "b")
  case True
  with assms(2) obtain f where f: "ev_EventType e = ''triggered''" "ev_RunID e \<noteq> []" "ps_ID (ev_Probe e) \<noteq> []"
    "json_event e = Some f" "\<not> triggerAlreadySeenTx (ps_ID (ev_Probe e)) (ev_RunID e) d"
    by (auto simp: RecordTrigger_def split: if_splits option.splits)
  obtain s d2 where "RecordTrigger origin t e d = Inr (True, d2)" "db_meta d2 = db_meta d"
    by (rule RecordTrigger_fresh [OF assms(1) f])
  with assms(2) show ?thesis by simp
next
  case False
  with assms(2) show ?thesis by (auto simp: RecordTrigger_def bind_tx_Inr split: if_splits option.splits)
qed

lemma completeTriggerTx_meta [simp]: "db_meta (completeTriggerTx p x t d) = db_meta d"
  by (simp add: completeTriggerTx_def drop_pending_def Let_def)

lemma CompleteTriggers_meta:
  "store_ok d \<Longrightarrow> CompleteTriggers origin t ks d = Inr (u, d') \<Longrightarrow> db_meta d' = db_meta d"
proof (induction ks arbitrary: d)
  case (Cons k ks)
  obtain p x where k: "k = (p, x)" by (cases k)
  obtain s d1 where c: "complete_one origin t (p, x) d = Inr ((), completeTriggerTx p x t d1)" "store_ok d1"
    "db_meta d1 = db_meta d"
    by (rule complete_one_total [OF Cons.prems(1)])
  have "store_ok (completeTriggerTx p x t d1)" by (rule completeTriggerTx_ok [OF c(2)])
  from Cons.IH [OF this] Cons.prems(2) c k show ?case by simp
qed simp

lemma delete_first_meta: "delete_first n P d = (k, d') \<Longrightarrow> db_meta d' = db_meta d"
  by (auto simp: delete_first_def Let_def)

lemma retention_loop_meta: "db_meta (snd (retention_loop cutoff n d)) = db_meta d"
proof (induction cutoff n d rule: retention_loop.induct)
  case (1 cutoff n d)
  obtain k d' where d': "delete_first pruneChunk (\<lambda>j. prunable d j \<and> j_at_ms j < cutoff) d = (k, d')"
    by (cases "delete_first pruneChunk (\<lambda>j. prunable d j \<and> j_at_ms j < cutoff) d")
  from 1 [OF d' [symmetric]] delete_first_meta [OF d'] show ?case
    by (simp add: retention_loop.simps [of cutoff n d] d')
qed

lemma size_loop_meta: "db_meta (snd (size_loop n live mx st d)) = db_meta d"
proof (induction n arbitrary: st d)
  case (Suc n)
  have r: "drop_oldest_rollups m e = (k, e') \<Longrightarrow> db_meta e' = db_meta e" for m e k e'
    by (auto simp: drop_oldest_rollups_def Let_def)
  show ?case by (auto simp: Let_def Suc.IH split: prod.split dest!: delete_first_meta r)
qed simp

lemma upsert_rollups_meta: "upsert_rollups aggs d = Inr (u, d') \<Longrightarrow> db_meta d' = db_meta d"
  by (induction aggs d rule: upsert_rollups.induct) (auto split: option.splits if_splits)

lemma writeRollups_hash: "writeRollups aggs a b d = Inr (u, d') \<Longrightarrow> stored_hash d' = stored_hash d"
  by (auto simp: writeRollups_def bind_tx_Inr stored_hash_def split: sum.splits if_splits dest!: upsert_rollups_meta)

lemma rollup_loop_hash: "stored_hash (snd (rollup_loop fuel quiet i after n moves d)) = stored_hash d"
proof (induction fuel arbitrary: i after n moves d)
  case (Suc fuel)
  have q: "quiet i d = d" by (simp add: quiet_def)
  show ?case
    by (auto simp: Let_def q Suc.IH split: prod.split sum.split storeError.split dest: writeRollups_hash)
qed simp

lemma Maintain_hash: "stored_hash (snd (Maintain quiet live freelist now opts d)) = stored_hash d"
proof -
  have r: "rollupResults quiet d = (x, d') \<Longrightarrow> stored_hash d' = stored_hash d" for x d d'
    using rollup_loop_hash unfolding rollupResults_def by (auto split: sum.splits dest: sym) (metis snd_conv)
  have p: "retention_phase now ret st d = (x, d') \<Longrightarrow> stored_hash d' = stored_hash d" for ret st x d d'
    using retention_loop_meta
    by (auto simp: retention_phase_def Let_def stored_hash_def split: if_splits prod.splits) (metis snd_conv)
  have c: "collapse_assignments d = (x, d') \<Longrightarrow> stored_hash d' = stored_hash d" for x d d'
    by (auto simp: collapse_assignments_def Let_def stored_hash_def)
  have s: "size_loop m live mx st d = (x, d') \<Longrightarrow> stored_hash d' = stored_hash d" for m mx st x d d'
    using size_loop_meta [of m live mx st d] by (simp add: stored_hash_def)
  show ?thesis
    by (auto simp: Maintain_def Let_def split: prod.split sum.split dest!: r p c s)
qed

lemma drain_store_loop_meta:
  "db_meta (fst (snd (drain_store_loop fuel format origin post alive db_ok now i (out, d, dl)))) = db_meta d"
  by (induction fuel arbitrary: i out d dl) (auto simp: Let_def split: option.split)

lemma drainStore_meta: "db_meta (fst (snd (drainStore format origin post alive db_ok now (d, dl)))) = db_meta d"
  by (simp add: drainStore_def drain_store_loop_meta del: drain_store_loop.simps)

lemma SaveAssignment_hash:
  assumes "store_ok d" "hash \<noteq> []" "SaveAssignment origin t hash ps d = Inr (u, d')"
  shows "stored_hash d' = hash"
proof -
  from SaveAssignment_Inr [OF assms(3)] assms(2) obtain qs
    where q: "json_snapshots ps = Some qs" "distinct (map ps_ID ps)" by auto
  obtain s d1 where "SaveAssignment origin t hash ps d =
       Inr ((), meta_set ''probe_hash'' hash (d1\<lparr>db_probes := probe_rows True (db_probes d) qs\<rparr>))"
    by (rule SaveAssignment_total [OF assms(1,2) q])
  with assms(3) show ?thesis by (auto simp: stored_hash_def opt_string_def)
qed

section \<open>The hash of the cache\<close>

named_theorems cache_hash \<open>operations that leave the assignment's hash alone\<close>

lemma set_fields_hash [cache_hash]:
  "pc_contentHash (set_lastTrigger p r c) = pc_contentHash c"
  "pc_contentHash (set_lastRunAt p t c) = pc_contentHash c"
  "pc_contentHash (push_trigger c q) = pc_contentHash c"
  by (simp_all add: set_lastTrigger_def set_lastRunAt_def push_trigger_def split: option.split)

lemma note_trigger_hash: "note_trigger c p r = Some c' \<Longrightarrow> pc_contentHash c' = pc_contentHash c"
  by (auto simp: note_trigger_def cache_hash split: option.splits if_splits)

lemma applyTriggeredEventLocked_hash [cache_hash]:
  "pc_contentHash (snd (applyTriggeredEventLocked c ev)) = pc_contentHash c"
  by (auto simp: applyTriggeredEventLocked_def cache_hash note_trigger_hash split: option.split)

lemma applyTriggeredEvents_hash [cache_hash]: "pc_contentHash (applyTriggeredEvents c evs) = pc_contentHash c"
  unfolding applyTriggeredEvents_def by (rule fold_same) (rule cache_hash)

lemma queueTriggers_hash [cache_hash]: "pc_contentHash (snd (queueTriggers c ts)) = pc_contentHash c"
  by (induction c ts rule: queueTriggers.induct)
    (auto simp: cache_hash note_trigger_hash split: option.split prod.splits)

lemma requeueTriggers_hash [cache_hash]: "pc_contentHash (requeueTriggers c ts) = pc_contentHash c"
  by (induction c ts rule: requeueTriggers.induct) (simp_all add: cache_hash)

lemma complete_fold_hash [cache_hash]:
  "pc_contentHash (fold (\<lambda>t c. markTriggerComplete c (pt_ProbeID t) (pt_RunID t)) ts c) = pc_contentHash c"
  by (rule fold_same) (simp add: markTriggerComplete_def cache_hash)

lemma drain_hash [cache_hash]: "pc_contentHash (snd (drainPendingTriggersLimited c n)) = pc_contentHash c"
  by (simp add: drainPendingTriggersLimited_def)

lemma take_hash [cache_hash]: "pc_contentHash (snd (takeDueProbes c now m k)) = pc_contentHash c"
proof -
  have f: "pc_contentHash (fold (\<lambda>e. set_lastRunAt (de_id e) now) es c) = pc_contentHash c" for es
    by (rule fold_same) (rule cache_hash)
  show ?thesis by (auto simp: takeDueProbes_def Let_def f split: prod.split)
qed

lemma stagger_hash [cache_hash]: "pc_contentHash (staggerUnstarted c now j) = pc_contentHash c"
  by (simp add: staggerUnstarted_def)

lemma replace_hash [cache_hash]:
  "pc_contentHash (replaceAssignment c h ps) = h" "pc_contentHash (replaceAssignmentKeepingHash c ps) = pc_contentHash c"
  "pc_contentHash (restore c h ss) = h"
  by (simp_all add: replaceAssignment_def replaceAssignmentKeepingHash_def replaceAssignmentLocked_def restore_def)

lemma cache_ok_replace [cache_inv]:
  "cache_ok c \<Longrightarrow> cache_ok (replaceAssignment c h ps)" "cache_ok c \<Longrightarrow> cache_ok (replaceAssignmentKeepingHash c ps)"
  using cache_ok_replaceLocked [of c ps]
  by (simp_all add: replaceAssignment_def replaceAssignmentKeepingHash_def cache_ok_def)

lemma cache_ok_complete_fold [cache_inv]:
  "cache_ok c \<Longrightarrow> cache_ok (fold (\<lambda>t c. markTriggerComplete c (pt_ProbeID t) (pt_RunID t)) ts c)"
proof (induction ts arbitrary: c)
  case (Cons t ts)
  then show ?case using cache.inv_step [of c "OpComplete (pt_ProbeID t) (pt_RunID t)"] by simp
qed simp

section \<open>The invariant\<close>

text \<open>
  The cache and the store or the spool are well formed, never both of the latter are in use, and the
  hash the node reports is empty or the one its database holds.
\<close>

definition store_agrees :: "db option \<Rightarrow> string \<Rightarrow> bool" where
  "store_agrees s h \<longleftrightarrow> (case s of None \<Rightarrow> True | Some d \<Rightarrow> store_ok d \<and> (h = [] \<or> h = stored_hash d))"

definition spool_fine :: "resultSpool option \<Rightarrow> bool" where
  "spool_fine s \<longleftrightarrow> (case s of None \<Rightarrow> True | Some sp \<Rightarrow> spool_ok sp)"

definition agent_ok :: "agent \<Rightarrow> bool" where
  "agent_ok a \<longleftrightarrow> cache_ok (a_cache a) \<and> store_agrees (a_store a) (pc_contentHash (a_cache a))
     \<and> spool_fine (a_spool a) \<and> (a_store a = None \<or> a_spool a = None)"

text \<open>The fields the invariant looks at.\<close>

lemma agent_ok_cong:
  "a_cache a' = a_cache a \<Longrightarrow> a_store a' = a_store a \<Longrightarrow> a_spool a' = a_spool a \<Longrightarrow> agent_ok a' = agent_ok a"
  by (simp add: agent_ok_def)

lemma agent_ok_cache:
  "agent_ok a \<Longrightarrow> cache_ok c \<Longrightarrow> pc_contentHash c = pc_contentHash (a_cache a) \<Longrightarrow> agent_ok (a\<lparr>a_cache := c\<rparr>)"
  by (simp add: agent_ok_def)

lemma agent_ok_store:
  assumes "agent_ok a" "a_store a = Some d" "store_ok d'" "stored_hash d' = stored_hash d"
  shows "agent_ok (a\<lparr>a_store := Some d'\<rparr>)"
  using assms by (auto simp: agent_ok_def store_agrees_def)

lemma agent_okD:
  "agent_ok a \<Longrightarrow> cache_ok (a_cache a)" "agent_ok a \<Longrightarrow> a_store a = Some d \<Longrightarrow> store_ok d"
  "agent_ok a \<Longrightarrow> a_spool a = Some sp \<Longrightarrow> spool_ok sp"
  by (simp_all add: agent_ok_def store_agrees_def spool_fine_def)

lemma attempt_Inr: "attempt b t = Inr x \<longleftrightarrow> b \<and> t = Inr x"
  by (simp add: attempt_def)

lemma restorePendingTriggers_ok: "agent_ok a \<Longrightarrow> agent_ok (restorePendingTriggers r a)"
  using PendingTriggers_ok
  by (auto simp: restorePendingTriggers_def agent_ok_def store_agrees_def cache_hash cache_inv stored_hash_def
      split: option.split prod.split) (metis PendingTriggers_meta snd_conv)+

lemma apply_event_ok:
  assumes "store_ok d" "cache_ok c"
  shows "case apply_event e t origin x (d, c) of (d', c') \<Rightarrow> store_ok d' \<and> cache_ok c' \<and> stored_hash d' = stored_hash d
    \<and> pc_contentHash c' = pc_contentHash c"
  using assms RecordTrigger_ok RecordTrigger_meta
  by (auto simp: apply_event_def attempt_Inr cache_inv cache_hash stored_hash_def split: prod.split sum.split)

lemma apply_events_ok:
  "store_ok d \<Longrightarrow> cache_ok c \<Longrightarrow> case fold (apply_event e t origin) xs (d, c) of (d', c') \<Rightarrow>
     store_ok d' \<and> cache_ok c' \<and> stored_hash d' = stored_hash d \<and> pc_contentHash c' = pc_contentHash c"
proof (induction xs arbitrary: d c)
  case (Cons x xs)
  obtain d1 c1 where x: "apply_event e t origin x (d, c) = (d1, c1)" by (cases "apply_event e t origin x (d, c)")
  from apply_event_ok [OF Cons.prems, of e t origin x] Cons.IH [of d1 c1] show ?case by (auto simp: x)
qed simp

lemma agent_applyTriggeredEvents_ok: "agent_ok a \<Longrightarrow> agent_ok (agent_applyTriggeredEvents e t evs a)"
  using apply_events_ok [of _ "a_cache a" e t "a_nodeID a" "enumerate 0 evs"]
  by (fastforce simp: agent_applyTriggeredEvents_def agent_ok_def store_agrees_def cache_hash cache_inv
      split: option.split prod.split)

lemma complete_commit_ok:
  assumes "store_ok d"
  shows "store_ok (commit (attempt b (CompleteTriggers origin t ks d)) d)"
    "stored_hash (commit (attempt b (CompleteTriggers origin t ks d)) d) = stored_hash d"
proof -
  obtain d' where "CompleteTriggers origin t ks d = Inr ((), d')" "store_ok d'"
    using CompleteTriggers_ok [OF assms] by blast
  moreover from this have "stored_hash d' = stored_hash d"
    by (intro stored_hash_cong CompleteTriggers_meta [OF assms])
  ultimately show "store_ok (commit (attempt b (CompleteTriggers origin t ks d)) d)"
    "stored_hash (commit (attempt b (CompleteTriggers origin t ks d)) d) = stored_hash d"
    using assms by (auto simp: attempt_def commit_def)
qed

lemma finishTriggers_ok: "agent_ok a \<Longrightarrow> agent_ok (finishTriggers b t ts dur a)"
  by (auto simp: finishTriggers_def Let_def agent_ok_def store_agrees_def cache_inv cache_hash complete_commit_ok
      split: option.split)

lemma drain_store_ok: "agent_ok a \<Longrightarrow> agent_ok (drain_store env a)"
proof -
  assume ok: "agent_ok a"
  show ?thesis
  proof (cases "a_store a")
    case (Some d)
    obtain out d' dl where dr: "drainStore (te_format env) (a_nodeID a) (te_post env) (te_alive env) (te_db_ok env)
        (te_drainNow env) (d, a_delivery a) = (out, d', dl)" by (cases rule: prod_cases3)
    have "store_ok d'" using drainStore_spec [OF agent_okD(2) [OF ok Some] dr] by simp
    moreover have "stored_hash d' = stored_hash d"
      using drainStore_meta [of "te_format env" "a_nodeID a" "te_post env" "te_alive env" "te_db_ok env" "te_drainNow env" d "a_delivery a"]
      by (simp add: dr stored_hash_def)
    ultimately have "agent_ok (a\<lparr>a_store := Some d'\<rparr>)" by (rule agent_ok_store [OF ok Some])
    then show ?thesis by (auto simp: drain_store_def Some dr agent_ok_def)
  qed (use ok in \<open>simp add: drain_store_def\<close>)
qed

lemma drain_spool_ok: "agent_ok a \<Longrightarrow> agent_ok (drain_spool env a)"
  using drainSpool_spec
  by (fastforce simp: drain_spool_def agent_ok_def spool_fine_def split: option.split prod.split)

lemma drainDelivery_ok: "agent_ok a \<Longrightarrow> agent_ok (drainDelivery env a)"
  by (simp add: drainDelivery_def drain_store_ok drain_spool_ok)

lemma enqueue_ok:
  assumes "spool_ok sp" "enqueue bytes_of wrote nanos hex rs sentAt sp = Some (name, sp')"
  shows "spool_ok sp'"
proof (cases "rs = []")
  case True
  with assms show ?thesis by (simp add: enqueue_def)
next
  case False
  with assms(2) obtain f where "sf_name f = spool_name nanos hex"
    and e: "sp' = snd (spool_prune (sp\<lparr>sp_files := filter (\<lambda>g. sf_name g \<noteq> spool_name nanos hex) (sp_files sp) @ [f]\<rparr>))"
    by (force simp: enqueue_def Let_def split: option.splits if_splits)
  then have "spool_ok (sp\<lparr>sp_files := filter (\<lambda>g. sf_name g \<noteq> spool_name nanos hex) (sp_files sp) @ [f]\<rparr>)"
    using assms(1) by (auto simp: spool_ok_def distinct_map_filter)
  then show ?thesis unfolding e by (rule spool_prune_spec)
qed

lemma reportFallback_ok: "agent_ok a \<Longrightarrow> agent_ok (snd (reportFallback env rs a))"
proof -
  assume ok: "agent_ok a"
  have "agent_ok (a\<lparr>a_spool := Some sp'\<rparr>)"
    if "a_spool a = Some sp" "enqueue (te_bytes_of env) (te_wrote env) (te_nanos env) (te_hex env) rs (te_sentAt env) sp = Some (n, sp')"
    for sp n sp'
    using ok enqueue_ok [OF agent_okD(3) [OF ok that(1)] that(2)] that(1)
    by (auto simp: agent_ok_def spool_fine_def)
  then show ?thesis using ok by (auto simp: reportFallback_def drain_spool_ok split: option.split)
qed

lemma reportResults_ok: "agent_ok a \<Longrightarrow> agent_ok (snd (reportResults env rs a))"
proof -
  assume ok: "agent_ok a"
  have "agent_ok (a\<lparr>a_store := Some d'\<rparr>)"
    if "a_store a = Some d" "RecordResults parse origin nowMS rs d = Inr (sm, d')" for d parse origin nowMS sm d'
    using RecordResults_ok [OF agent_okD(2) [OF ok that(1)], of parse origin nowMS rs] that(2)
      stored_hash_cong [OF RecordResults_meta [OF that(2)]]
    by (intro agent_ok_store [OF ok that(1)]) auto
  then show ?thesis using ok
    by (auto simp: reportResults_def attempt_Inr reportFallback_ok drain_store_ok split: option.split sum.split)
qed

lemma mark_due_ok: "agent_ok a \<Longrightarrow> agent_ok (mark_due b due now a)"
  by (auto simp: mark_due_def agent_ok_def store_agrees_def MarkProbesRun_ok stored_hash_def split: option.split)

lemma finish_tick_ok: "agent_ok a \<Longrightarrow> agent_ok (finish_tick env now p rs a)"
proof -
  assume "agent_ok a"
  then have "agent_ok (mark_due (te_mark_ok env) (tp_due p) now (a\<lparr>a_path := record_path (te_recordedAt env) rs (a_path a)\<rparr>))"
    by (intro mark_due_ok) (simp add: agent_ok_def)
  then show ?thesis using reportResults_ok
    by (auto simp: finish_tick_def Let_def split: prod.split intro!: finishTriggers_ok) (metis snd_conv)
qed

lemma tick_plan_cache:
  assumes "cache_ok (a_cache a)"
  shows "cache_ok (tp_cache (tick_plan a now)) \<and> pc_contentHash (tp_cache (tick_plan a now)) = pc_contentHash (a_cache a)"
proof -
  have "cache_ok (snd (takeDueProbes (snd (drainPendingTriggersLimited (a_cache a) n)) now m k)) \<and>
    pc_contentHash (snd (takeDueProbes (snd (drainPendingTriggersLimited (a_cache a) n)) now m k)) = pc_contentHash (a_cache a)" for n m k
    using assms by (simp add: cache_inv cache_hash)
  then show ?thesis by (simp add: tick_plan_def Let_def case_prod_beta)
qed

lemma bindError_fields [simp]:
  "a_cache (snd (bindError s now a)) = a_cache a" "a_store (snd (bindError s now a)) = a_store a"
  "a_spool (snd (bindError s now a)) = a_spool a" "a_ready (snd (bindError s now a)) = a_ready a"
  "a_status (snd (bindError s now a)) = a_status a" "a_nodeID (snd (bindError s now a)) = a_nodeID a"
  by (simp_all add: bindError_def case_prod_beta)

lemma binding_paused_fields [simp]:
  "a_cache (snd (binding_paused env a)) = a_cache a" "a_store (snd (binding_paused env a)) = a_store a"
  "a_spool (snd (binding_paused env a)) = a_spool a" "a_ready (snd (binding_paused env a)) = a_ready a"
  "a_status (snd (binding_paused env a)) = a_status a" "a_nodeID (snd (binding_paused env a)) = a_nodeID a"
  by (simp_all add: binding_paused_def case_prod_beta)

lemma runDueProbes_ok:
  assumes "agent_ok a" "runDueProbes env a = Some a'"
  shows "agent_ok a'"
proof -
  let ?now = "clock_now (a_clock a) (te_now env)"
  obtain b a1 where p: "binding_paused env a = (b, a1)" by (cases "binding_paused env a")
  have ok1: "agent_ok a1" using assms(1) binding_paused_fields(1-3) [of env a] by (simp add: p agent_ok_def)
  let ?a2 = "a1\<lparr>a_cache := tp_cache (tick_plan a1 ?now), a_deferredJobs := tp_deferred (tick_plan a1 ?now)\<rparr>"
  have ok2: "agent_ok ?a2" using ok1 tick_plan_cache [OF agent_okD(1) [OF ok1], of ?now] by (simp add: agent_ok_def)
  have pause: "agent_ok (noteBindingPause ?now a1)" using ok1 by (simp add: noteBindingPause_def agent_ok_def)
  show ?thesis
  proof (cases b)
    case True
    with assms(2) pause show ?thesis by (auto simp: runDueProbes_def Let_def p intro: drainDelivery_ok)
  next
    case False
    with assms(2) ok2 show ?thesis
      by (auto simp: runDueProbes_def Let_def p drainDelivery_ok finish_tick_ok split: if_splits)
  qed
qed

lemma scheduler_tick_ok: "agent_ok a \<Longrightarrow> scheduler_tick env a = Some a' \<Longrightarrow> agent_ok a'"
  by (auto simp: scheduler_tick_def runDueProbes_ok split: if_splits)

subsection \<open>Heartbeats\<close>

lemma with_binding_fields [simp]:
  "a_cache (snd (with_binding env h a)) = a_cache a" "a_store (snd (with_binding env h a)) = a_store a"
  "a_spool (snd (with_binding env h a)) = a_spool a" "a_ready (snd (with_binding env h a)) = a_ready a"
  "a_status (snd (with_binding env h a)) = a_status a" "a_nodeID (snd (with_binding env h a)) = a_nodeID a"
  by (simp_all add: with_binding_def case_prod_beta)

lemma request_fields [simp]:
  "a_cache (snd (heartbeat_request ps env a)) = a_cache a" "a_store (snd (heartbeat_request ps env a)) = a_store a"
  "a_spool (snd (heartbeat_request ps env a)) = a_spool a" "a_ready (snd (heartbeat_request ps env a)) = a_ready a"
  "a_status (snd (heartbeat_request ps env a)) = a_status a" "a_nodeID (snd (heartbeat_request ps env a)) = a_nodeID a"
  "hr_ProbeHash (fst (heartbeat_request ps env a)) = pc_contentHash (a_cache a)"
  by (simp_all add: heartbeat_request_def case_prod_beta lastKnownHash_def)

lemma send_fields [simp]:
  "a_cache (snd (send ps env a)) = a_cache a" "a_store (snd (send ps env a)) = a_store a"
  "a_spool (snd (send ps env a)) = a_spool a" "a_ready (snd (send ps env a)) = a_ready a"
  "a_status (snd (send ps env a)) = a_status a" "a_nodeID (snd (send ps env a)) = a_nodeID a"
  by (simp_all add: send_def case_prod_beta Let_def)

lemma exchange_fields [simp]:
  "a_cache (snd (exchange env a)) = a_cache a" "a_store (snd (exchange env a)) = a_store a"
  "a_spool (snd (exchange env a)) = a_spool a" "a_ready (snd (exchange env a)) = a_ready a"
  "a_status (snd (exchange env a)) = a_status a" "a_nodeID (snd (exchange env a)) = a_nodeID a"
  using send_fields [of "be_probers env"]
  by (auto simp: exchange_def case_prod_beta split: sendOutcome.split prod.split dest: arg_cong [of _ _ snd])

lemma spool_fine_None [simp]: "spool_fine None"
  by (simp add: spool_fine_def)

lemma sync_clock_fields [simp]:
  "a_cache (sync_clock env r s t a) = a_cache a" "a_store (sync_clock env r s t a) = a_store a"
  "a_spool (sync_clock env r s t a) = a_spool a" "a_ready (sync_clock env r s t a) = a_ready a"
  "a_status (sync_clock env r s t a) = a_status a" "a_nodeID (sync_clock env r s t a) = a_nodeID a"
  by (simp_all add: sync_clock_def split: option.split)

lemma sync_assignment_ok: "agent_ok a \<Longrightarrow> agent_ok (sync_assignment env resp a)"
proof -
  assume ok: "agent_ok a"
  show ?thesis
  proof (cases "a_store a")
    case None
    with ok show ?thesis
      by (auto simp: sync_assignment_def persist_assignment_def Let_def agent_ok_def store_agrees_def cache_inv)
  next
    case (Some d)
    have d: "store_ok d" by (rule agent_okD(2) [OF ok Some])
    show ?thesis
    proof (cases "hb_ProbeHash resp = [] \<or> (\<forall>u d'. attempt (be_save_ok env)
        (SaveAssignment (a_nodeID a) (be_nowMS env) (hb_ProbeHash resp) (hb_Probes resp) d) \<noteq> Inr (u, d'))")
      case True
      with ok Some show ?thesis
        by (auto simp: sync_assignment_def persist_assignment_def Let_def agent_ok_def store_agrees_def
            cache_inv cache_hash split: sum.split)
    next
      case False
      then obtain u d' where s: "be_save_ok env" "SaveAssignment (a_nodeID a) (be_nowMS env) (hb_ProbeHash resp) (hb_Probes resp) d = Inr (u, d')"
        and h: "hb_ProbeHash resp \<noteq> []" by (auto simp: attempt_Inr)
      have "store_ok d'" "stored_hash d' = hb_ProbeHash resp"
        using SaveAssignment_ok [OF d s(2)] SaveAssignment_hash [OF d h s(2)] .
      with ok s h Some show ?thesis
        by (auto simp: sync_assignment_def persist_assignment_def attempt_def Let_def agent_ok_def store_agrees_def
            cache_inv cache_hash)
    qed
  qed
qed

lemma apply_response_ok: "agent_ok a \<Longrightarrow> agent_ok (apply_response env resp s t a)"
proof -
  assume ok: "agent_ok a"
  let ?a1 = "if hb_NodeStatus resp \<noteq> [] then a\<lparr>a_status := hb_NodeStatus resp\<rparr> else a"
  let ?a2 = "if hb_HeartbeatIntervalSecs resp > 0
    then ?a1\<lparr>a_interval := i64 (hb_HeartbeatIntervalSecs resp * second)\<rparr> else ?a1"
  have "agent_ok (sync_clock env resp s t ?a2)" using ok by (simp add: agent_ok_def)
  then have "agent_ok (sync_assignment env resp (sync_clock env resp s t ?a2))" by (rule sync_assignment_ok)
  then have "agent_ok (if hb_Events resp \<noteq> []
      then agent_applyTriggeredEvents (be_event_ok env) (be_nowMS env) (hb_Events resp)
             (sync_assignment env resp (sync_clock env resp s t ?a2))
      else sync_assignment env resp (sync_clock env resp s t ?a2))"
    by (simp add: agent_applyTriggeredEvents_ok)
  then show ?thesis by (simp add: apply_response_def Let_def agent_ok_def)
qed

lemma restore_again_ok: "agent_ok a \<Longrightarrow> agent_ok (restore_again env a)"
  by (simp add: restore_again_def restorePendingTriggers_ok)

lemma exchange_ok: "agent_ok a \<Longrightarrow> agent_ok (snd (exchange env a))"
  by (simp add: agent_ok_def)

lemma beat_ok: "agent_ok a \<Longrightarrow> agent_ok (snd (beat env a))"
proof -
  assume "agent_ok a"
  then have "agent_ok (snd (exchange env (restore_again env a)))" by (intro exchange_ok restore_again_ok)
  then show ?thesis by (auto simp: beat_def apply_response_ok split: prod.split option.split)
qed

lemma maintenance_ok: "agent_ok a \<Longrightarrow> agent_ok (snd (maintenance_round env a))"
proof -
  assume ok: "agent_ok a"
  show ?thesis
  proof (cases "a_store a")
    case (Some d)
    let ?m = "snd (Maintain quiet (me_live env) (me_freelist env) (me_now env)
      \<lparr>mo_Retention = a_dbRetention a, mo_MaxBytes = a_dbMaxBytes a\<rparr> d)"
    have "agent_ok (a\<lparr>a_store := Some ?m\<rparr>)"
      using agent_okD(2) [OF ok Some] by (intro agent_ok_store [OF ok Some] keeps_ok [OF Maintain_keeps] Maintain_hash)
    then show ?thesis by (simp add: maintenance_round_def Some case_prod_beta)
  qed (use ok in \<open>simp add: maintenance_round_def\<close>)
qed

lemma clearjunk_set: "set (AList.clearjunk al) \<subseteq> set al"
proof (induction al rule: clearjunk.induct)
  case (2 p ps)
  then show ?case by (auto simp: AList.delete_eq)
qed simp

lemma dir_listing_distinct: "distinct (map sf_name (dir_listing files))"
proof -
  have "\<forall>x\<in>set (AList.clearjunk (map (\<lambda>f. (sf_name f, f)) files)). fst x = sf_name (snd x)"
    using clearjunk_set [of "map (\<lambda>f. (sf_name f, f)) files"] by auto
  then have "map sf_name (dir_listing files) = map fst (AList.clearjunk (map (\<lambda>f. (sf_name f, f)) files))"
    by (simp add: dir_listing_def)
  then show ?thesis by (simp add: distinct_clearjunk)
qed

lemma restore_local_ok: "agent_ok a \<Longrightarrow> agent_ok (restore_local load_ok read_ok a)"
proof -
  assume ok: "agent_ok a"
  show ?thesis
  proof (cases "a_store a")
    case (Some d)
    obtain h ss where l: "LoadProbeStates d = (h, ss)" by (cases "LoadProbeStates d")
    then have "h = stored_hash d" by (simp add: LoadProbeStates_def stored_hash_def)
    then have "agent_ok (a\<lparr>a_cache := restore (a_cache a) h (cachedStates ss)\<rparr>)"
      using ok Some by (simp add: agent_ok_def store_agrees_def cache_inv cache_hash)
    with ok show ?thesis by (simp add: restore_local_def Some l restorePendingTriggers_ok)
  qed (use ok in \<open>simp add: restore_local_def\<close>)
qed

lemma booted_ok: "agent_ok (booted base s load_ok read_ok now)"
proof -
  have start: "agent_ok a \<Longrightarrow> agent_ok (start_agent load_ok read_ok now a)" for a
  proof -
    assume ok: "agent_ok a"
    have "agent_ok (a\<lparr>a_status := NodeStatusActive\<rparr>)" using ok by (simp add: agent_ok_def)
    then have "agent_ok (restore_local load_ok read_ok (a\<lparr>a_status := NodeStatusActive\<rparr>))" by (rule restore_local_ok)
    then show ?thesis by (simp add: start_agent_def Let_def agent_ok_def cache_inv cache_hash)
  qed
  have "store_ok (fold (store_step origin) ops fresh_db)" for origin ops by (rule store.inv_run)
  then show ?thesis
    unfolding booted_def Let_def
    by (intro start)
      (auto simp: agent_ok_def store_agrees_def spool_fine_def cache_inv newProbeCache_def newResultSpool_def
        spool_ok_def dir_listing_distinct cache_ok_def triggers_ok_def split: storage.split)
qed

interpretation agent: invariant_machine "booted base s load_ok read_ok now" agent_step agent_ok
  for base s load_ok read_ok now
proof
  show "agent_ok (booted base s load_ok read_ok now)" by (rule booted_ok)
  fix a x
  assume "agent_ok a"
  then show "agent_ok (agent_step x a)"
    by (cases x) (auto simp: beat_ok maintenance_ok scheduler_tick_ok split: option.split)
qed

section \<open>The tick budget\<close>

lemma drain_limited_length:
  assumes "drainPendingTriggersLimited c limit = (ts, c')" "0 < limit"
  shows "int (length ts) \<le> limit"
  using assms by (auto simp: drainPendingTriggersLimited_def split: if_splits)

lemma trigger_slots_bound:
  assumes "1 \<le> perProbe" "perProbe \<le> maxJobs" "1 \<le> slots" "slots * perProbe < 2 ^ 63"
  shows "1 \<le> trigger_slots maxJobs perProbe slots" "trigger_slots maxJobs perProbe slots * perProbe \<le> maxJobs"
    "trigger_slots maxJobs perProbe slots \<le> slots \<or> trigger_slots maxJobs perProbe slots * perProbe \<le> maxJobs"
proof -
  have p: "0 < slots * perProbe" using assms by simp
  have i: "i64 (slots * perProbe) = slots * perProbe" using p assms(4) by (intro i64_id) auto
  have d: "go_div maxJobs perProbe = maxJobs div perProbe" using assms by (intro go_div_nonneg) auto
  have "perProbe div perProbe \<le> maxJobs div perProbe" using assms by (intro zdiv_mono1) auto
  then have "1 \<le> maxJobs div perProbe" using assms by simp
  moreover have "maxJobs div perProbe * perProbe \<le> maxJobs" using assms by (simp add: minus_mod_eq_div_mult [symmetric])
  ultimately show "1 \<le> trigger_slots maxJobs perProbe slots" "trigger_slots maxJobs perProbe slots * perProbe \<le> maxJobs"
    "trigger_slots maxJobs perProbe slots \<le> slots \<or> trigger_slots maxJobs perProbe slots * perProbe \<le> maxJobs"
    using assms by (simp_all add: trigger_slots_def i d Let_def not_less)
qed

definition limits_ok :: "agent \<Rightarrow> bool" where
  "limits_ok a \<longleftrightarrow> 1 \<le> a_maxJobsPerProbe a \<and> a_maxJobsPerProbe a \<le> a_maxJobsPerTick a
     \<and> 1 \<le> a_maxTriggersPerTick a \<and> a_maxTriggersPerTick a * a_maxJobsPerProbe a < 2 ^ 63
     \<and> a_maxJobsPerTick a < 2 ^ 63"

lemma take_due_jobs:
  assumes "0 \<le> budget" "0 < m" "takeDueProbes c now budget m = ((due, deferred), c')"
  shows "int (length (probe_jobs m newRunID due)) \<le> budget"
proof (cases "budget = 0")
  case True
  then show ?thesis using assms by (auto simp: takeDueProbes_def Let_def probe_jobs_def)
next
  case False
  then have "0 < budget" using assms by simp
  from takeDueProbes_counts [OF this assms(3)]
  have s: "sum_list (map ps_ProbeCount due) \<le> budget" and one: "\<forall>s\<in>set due. 1 \<le> ps_ProbeCount s" by auto
  have "sum_list (map (\<lambda>pr. probeJobCount m (ps_ProbeCount pr)) due) \<le> sum_list (map ps_ProbeCount due)"
    by (rule sum_list_mono) (use one probeJobCount_bounds(3) in \<open>fastforce simp: max_def split: if_splits\<close>)
  with s show ?thesis by (simp add: length_probe_jobs)
qed

lemma tick_plan_jobs:
  assumes "limits_ok a" "plan_jobs env a (tick_plan a now) = (probes, triggers)"
  shows "int (length probes) + int (length triggers) \<le> a_maxJobsPerTick a"
    "int (length triggers) \<le> int (length (tp_triggers (tick_plan a now))) * a_maxJobsPerProbe a"
proof -
  let ?n = "a_maxJobsPerTick a" and ?m = "a_maxJobsPerProbe a" and ?s = "a_maxTriggersPerTick a"
  note l = assms(1) [unfolded limits_ok_def]
  obtain ts c where dr: "drainPendingTriggersLimited (a_cache a) (trigger_slots ?n ?m ?s) = (ts, c)"
    by (cases "drainPendingTriggersLimited (a_cache a) (trigger_slots ?n ?m ?s)")
  have sl: "1 \<le> trigger_slots ?n ?m ?s" "trigger_slots ?n ?m ?s * ?m \<le> ?n"
    using trigger_slots_bound [of ?m ?n ?s] l by simp_all
  have "int (length ts) \<le> trigger_slots ?n ?m ?s" using drain_limited_length [OF dr] sl by simp
  then have "int (length ts) * ?m \<le> trigger_slots ?n ?m ?s * ?m" using l by (intro mult_right_mono) auto
  then have tm: "int (length ts) * ?m \<le> ?n" using sl by simp
  have b: "i64 (int (length ts) * ?m) = int (length ts) * ?m"
    using tm l by (intro i64_id) (auto intro: order_trans [of _ 0])
  obtain due deferred c' where tk: "takeDueProbes c now (?n - int (length ts) * ?m) ?m = ((due, deferred), c')"
    by (metis prod.exhaust_sel)
  have plan: "tick_plan a now = \<lparr>tp_triggers = ts, tp_due = due, tp_deferred = deferred + int (pendingTriggerCount c'), tp_cache = c'\<rparr>"
    using l tm dr tk by (simp add: tick_plan_def Let_def b not_less)
  have pr: "probes = probe_jobs ?m (te_newRunID env) due" "triggers = trigger_jobs ?m c' ts"
    using assms(2) by (simp_all add: plan_jobs_def plan)
  have "int (length probes) \<le> ?n - int (length ts) * ?m"
    unfolding pr by (rule take_due_jobs [OF _ _ tk]) (use tm l in auto)
  moreover have t: "int (length triggers) \<le> int (length ts) * ?m"
    unfolding pr by (rule length_trigger_jobs) (use l in simp)
  ultimately show "int (length probes) + int (length triggers) \<le> ?n" by simp
  show "int (length triggers) \<le> int (length (tp_triggers (tick_plan a now))) * ?m" using t by (simp add: plan)
qed

end
