(* ===== verification/Agent_Config.thy ===== *)
theory Agent_Config
  imports Agent_Invariant
begin

text \<open>
  The validation of the configuration and the start of the process: the part of \<^verbatim>\<open>Run\<close> in
  \<^verbatim>\<open>internal/agent/agent.go\<close> that comes before the loops.
\<close>

section \<open>Configuration\<close>

record Config =
  cf_APIURL :: string
  cf_APIKey :: string
  cf_ProxyURL :: string
  cf_Version :: string
  cf_SchedulerTick :: duration
  cf_Concurrency :: int
  cf_MaxJobsPerTick :: int
  cf_MaxJobsPerProbe :: int
  cf_MaxTriggersPerTick :: int
  cf_StartupJitter :: duration
  cf_MemoryLimitBytes :: int
  cf_PoolConcurrency :: int
  cf_PoolMaxJobs :: int
  cf_PoolPortBase :: int
  cf_PoolPortSpan :: int
  cf_DomainStrategy :: string
  cf_SourceIP :: string
  cf_BindInterface :: string
  cf_SpoolDir :: string
  cf_SpoolMaxBytes :: int
  cf_DBPath :: string
  cf_DBMaxBytes :: int
  cf_DBRetention :: duration
  cf_DBSync :: string
  cf_DestinationInterval :: duration
  cf_DestinationMaxWait :: duration

datatype runError =
    BadAPIKey
  | BadSchedulerTick
  | BadConcurrency
  | BadJobLimits
  | BadStartupJitter
  | BadMemLimit
  | BadBinding bind_error
  | BadPoolConcurrency
  | BadPoolMaxJobs
  | BadPortRange
  | PortsNotTogether
  | PortRangeTooHigh
  | BadSpoolMaxBytes
  | BadDBMaxBytes
  | BadDBRetention
  | SpoolUnavailable
  | BadDomainStrategy
  | BadClient
  | BadRegistry

record limits =
  li_concurrency :: int
  li_maxJobsPerTick :: int
  li_maxJobsPerProbe :: int
  li_maxTriggersPerTick :: int
  li_memoryLimit :: int
  li_binding :: Binding

text \<open>The outside of \<^verbatim>\<open>Run\<close>: the memory probe, the environment, the address parser, the files and the
  packages it calls.\<close>

record runEnv =
  re_available :: int
  re_GOMEMLIMIT :: string
  re_ParseAddr :: "string \<Rightarrow> addr option"
  re_now :: gotime
  re_db :: "db option"
  re_spool :: "spoolFile list option"
  re_client_ok :: bool
  re_registry_ok :: bool
  re_load_ok :: bool
  re_read_ok :: bool

definition effective_concurrency :: "runEnv \<Rightarrow> Config \<Rightarrow> int" where
  "effective_concurrency env cfg =
     (if cf_Concurrency cfg = 0 then autoConcurrency (re_available env) else cf_Concurrency cfg)"

definition effective_limits :: "runEnv \<Rightarrow> Config \<Rightarrow> Binding \<Rightarrow> limits" where
  "effective_limits env cfg binding =
     (let perTick = (if cf_MaxJobsPerTick cfg = 0 then 512 else cf_MaxJobsPerTick cfg);
          perProbe = (if cf_MaxJobsPerProbe cfg = 0 then 32 else cf_MaxJobsPerProbe cfg)
      in \<lparr>li_concurrency = effective_concurrency env cfg, li_maxJobsPerTick = perTick,
          li_maxJobsPerProbe = (if perProbe > perTick then perTick else perProbe),
          li_maxTriggersPerTick = (if cf_MaxTriggersPerTick cfg = 0 then 16 else cf_MaxTriggersPerTick cfg),
          li_memoryLimit = (if cf_MemoryLimitBytes cfg = 0 \<and> re_GOMEMLIMIT env = []
             then autoMemoryLimit (re_available env) else cf_MemoryLimitBytes cfg),
          li_binding = binding\<rparr>)"

text \<open>The checks of \<^verbatim>\<open>Run\<close> in its order.\<close>

definition config_limits :: "runEnv \<Rightarrow> Config \<Rightarrow> runError + limits" where
  "config_limits env cfg =
     (case Cut (cf_APIKey cfg) (CHR '':'') of (nodeID, _, ok) \<Rightarrow>
      if \<not> ok \<or> nodeID = [] then Inl BadAPIKey
      else if cf_SchedulerTick cfg \<le> 0 then Inl BadSchedulerTick
      else if cf_Concurrency cfg < 0 then Inl BadConcurrency
      else if effective_concurrency env cfg < 1 then Inl BadConcurrency
      else if cf_MaxJobsPerTick cfg < 0 \<or> cf_MaxJobsPerProbe cfg < 0 \<or> cf_MaxTriggersPerTick cfg < 0 then Inl BadJobLimits
      else if cf_StartupJitter cfg < 0 then Inl BadStartupJitter
      else if cf_MemoryLimitBytes cfg < 0 then Inl BadMemLimit
      else case Parse (re_ParseAddr env) (cf_SourceIP cfg) (cf_BindInterface cfg) of
        Inl e \<Rightarrow> Inl (BadBinding e)
      | Inr binding \<Rightarrow>
          if cf_PoolConcurrency cfg < 0 then Inl BadPoolConcurrency
          else if cf_PoolMaxJobs cfg < 0 then Inl BadPoolMaxJobs
          else if cf_PoolPortBase cfg < 0 \<or> cf_PoolPortSpan cfg < 0 then Inl BadPortRange
          else if (cf_PoolPortBase cfg = 0) \<noteq> (cf_PoolPortSpan cfg = 0) then Inl PortsNotTogether
          else if cf_PoolPortBase cfg > 0 \<and> i64 (cf_PoolPortBase cfg + cf_PoolPortSpan cfg) > 65536 then Inl PortRangeTooHigh
          else if cf_SpoolMaxBytes cfg < 0 then Inl BadSpoolMaxBytes
          else if cf_DBMaxBytes cfg < 0 then Inl BadDBMaxBytes
          else if cf_DBRetention cfg < 0 then Inl BadDBRetention
          else Inr (effective_limits env cfg binding))"

definition DefaultRetention :: duration where "DefaultRetention = 30 * 24 * 3600 * second"
definition DefaultMaxBytes :: int where "DefaultMaxBytes = 32 * 1048576"

text \<open>The local store wins over the spool; if it cannot be opened the spool is the fallback. \<open>re_db\<close> is
  the contents of the database file, \<open>None\<close> if it cannot be used at all.\<close>

definition open_storage :: "runEnv \<Rightarrow> Config \<Rightarrow> string \<Rightarrow> runError + db option \<times> resultSpool option" where
  "open_storage env cfg nodeID =
     (let opened = (if cf_DBPath cfg = [] then None
                    else (case re_db env of
                            None \<Rightarrow> None
                          | Some d \<Rightarrow> (case Open (to_UnixMilli (re_now env)) (cf_DBPath cfg) (cf_DBSync cfg) nodeID d of
                              Inl e \<Rightarrow> None | Inr (_, d') \<Rightarrow> Some d')))
      in case opened of
           Some d \<Rightarrow> Inr (Some d, None)
         | None \<Rightarrow>
             if cf_SpoolDir cfg = [] then Inr (None, None)
             else (case re_spool env of
                     None \<Rightarrow> Inl SpoolUnavailable
                   | Some files \<Rightarrow> Inr (None, newResultSpool (cf_SpoolDir cfg) (cf_SpoolMaxBytes cfg) (dir_listing files))))"

definition Run :: "runEnv \<Rightarrow> Config \<Rightarrow> runError + agent" where
  "Run env cfg =
     (case config_limits env cfg of
        Inl e \<Rightarrow> Inl e
      | Inr li \<Rightarrow>
          (let nodeID = fst (Cut (cf_APIKey cfg) (CHR '':'')) in
           case open_storage env cfg nodeID of
             Inl e \<Rightarrow> Inl e
           | Inr (store, spool) \<Rightarrow>
               if normalizeDomainStrategy (cf_DomainStrategy cfg) = None then Inl BadDomainStrategy
               else if \<not> re_client_ok env then Inl BadClient
               else if \<not> re_registry_ok env then Inl BadRegistry
               else Inr (start_agent (re_load_ok env) (re_read_ok env) (re_now env)
                 \<lparr>a_nodeID = nodeID, a_apiKey = cf_APIKey cfg, a_apiURL = cf_APIURL cfg, a_proxyURL = cf_ProxyURL cfg,
                  a_version = (if cf_Version cfg = [] then ''dev'' else cf_Version cfg),
                  a_cache = newProbeCache, a_clock = \<lparr>ck_offset = 0\<rparr>, a_concurrency = li_concurrency li,
                  a_spool = spool, a_store = store, a_delivery = delivery_init,
                  a_dbRetention = (if cf_DBRetention cfg = 0 then DefaultRetention else cf_DBRetention cfg),
                  a_dbMaxBytes = (if cf_DBMaxBytes cfg = 0 then DefaultMaxBytes else cf_DBMaxBytes cfg),
                  a_health = newHealthSampler (re_now env), a_path = newPathHealth, a_deferredJobs = 0,
                  a_bind = li_binding li, a_bindMonitor = newBindMonitor (li_binding li),
                  a_maxJobsPerTick = li_maxJobsPerTick li, a_maxJobsPerProbe = li_maxJobsPerProbe li,
                  a_maxTriggersPerTick = li_maxTriggersPerTick li, a_startupJitter = cf_StartupJitter cfg,
                  a_ready = False, a_triggersRestored = False, a_status = NodeStatusActive,
                  a_interval = 30 * second\<rparr>)))"

section \<open>What an accepted configuration guarantees\<close>

lemma start_agent_fields [simp]:
  "a_maxJobsPerTick (start_agent l r t a) = a_maxJobsPerTick a" "a_maxJobsPerProbe (start_agent l r t a) = a_maxJobsPerProbe a"
  "a_maxTriggersPerTick (start_agent l r t a) = a_maxTriggersPerTick a" "a_concurrency (start_agent l r t a) = a_concurrency a"
  "a_nodeID (start_agent l r t a) = a_nodeID a" "a_ready (start_agent l r t a) = a_ready a"
  "a_spool (start_agent l r t a) = a_spool a" "(a_store (start_agent l r t a) = None) = (a_store a = None)"
  "a_bind (start_agent l r t a) = a_bind a"
  by (simp_all add: start_agent_def restore_local_def restorePendingTriggers_def Let_def case_prod_beta split: option.split)

lemma config_limits_Inr:
  assumes "config_limits env cfg = Inr li"
  obtains binding where "li = effective_limits env cfg binding" "1 \<le> effective_concurrency env cfg"
    "0 \<le> cf_MaxJobsPerTick cfg" "0 \<le> cf_MaxJobsPerProbe cfg" "0 \<le> cf_MaxTriggersPerTick cfg"
    "fst (Cut (cf_APIKey cfg) (CHR '':'')) \<noteq> []"
    "Parse (re_ParseAddr env) (cf_SourceIP cfg) (cf_BindInterface cfg) = Inr binding"
  using assms unfolding config_limits_def by (fastforce split: prod.splits if_split_asm sum.splits)

lemma config_limits_bounds:
  assumes "config_limits env cfg = Inr li"
  shows "1 \<le> li_concurrency li" "1 \<le> li_maxJobsPerProbe li" "li_maxJobsPerProbe li \<le> li_maxJobsPerTick li"
    "1 \<le> li_maxTriggersPerTick li" "fst (Cut (cf_APIKey cfg) (CHR '':'')) \<noteq> []"
    "li_maxTriggersPerTick li = (if cf_MaxTriggersPerTick cfg = 0 then 16 else cf_MaxTriggersPerTick cfg)"
    "li_maxJobsPerTick li = (if cf_MaxJobsPerTick cfg = 0 then 512 else cf_MaxJobsPerTick cfg)"
    "Parse (re_ParseAddr env) (cf_SourceIP cfg) (cf_BindInterface cfg) = Inr (li_binding li)"
  using assms by (auto elim!: config_limits_Inr simp: effective_limits_def Let_def)

lemma Run_Inr:
  assumes "Run env cfg = Inr a"
  obtains li store spool where "config_limits env cfg = Inr li"
    "open_storage env cfg (fst (Cut (cf_APIKey cfg) (CHR '':''))) = Inr (store, spool)"
    "a_maxJobsPerTick a = li_maxJobsPerTick li" "a_maxJobsPerProbe a = li_maxJobsPerProbe li"
    "a_maxTriggersPerTick a = li_maxTriggersPerTick li" "a_concurrency a = li_concurrency li"
    "a_nodeID a = fst (Cut (cf_APIKey cfg) (CHR '':''))" "\<not> a_ready a" "a_spool a = spool"
    "(a_store a = None) = (store = None)" "a_bind a = li_binding li"
proof -
  obtain li where li: "config_limits env cfg = Inr li" using assms by (auto simp: Run_def split: sum.splits)
  obtain store spool where st: "open_storage env cfg (fst (Cut (cf_APIKey cfg) (CHR '':''))) = Inr (store, spool)"
    using assms li by (auto simp: Run_def Let_def split: sum.splits)
  show thesis
    by (rule that [OF li st]) (use assms li st in \<open>auto simp: Run_def Let_def split: if_splits\<close>)
qed

text \<open>The storage the process opens is well formed when the database file is one this program wrote.\<close>

lemma open_storage_exclusive: "open_storage env cfg n = Inr (store, spool) \<Longrightarrow> store = None \<or> spool = None"
  by (auto simp: open_storage_def Let_def split: option.splits if_splits)

text \<open>A configuration that is accepted is usable: the node has an id, at least one check can run at a
  time, a tick has room for at least one probe's checks, one probe never outweighs a tick, triggers are
  not starved, the store and the spool are never both in use, nothing runs before the first heartbeat,
  and the binding is one the parser accepts.\<close>

theorem Run_accepts_usable:
  assumes "Run env cfg = Inr a"
  shows "a_nodeID a \<noteq> [] \<and> 1 \<le> a_concurrency a \<and> 1 \<le> a_maxJobsPerProbe a
    \<and> a_maxJobsPerProbe a \<le> a_maxJobsPerTick a \<and> 1 \<le> a_maxTriggersPerTick a \<and> \<not> a_ready a
    \<and> (a_store a = None \<or> a_spool a = None)
    \<and> Parse (re_ParseAddr env) (cf_SourceIP cfg) (cf_BindInterface cfg) = Inr (a_bind a)"
proof -
  obtain li store spool where r: "config_limits env cfg = Inr li"
    "open_storage env cfg (fst (Cut (cf_APIKey cfg) (CHR '':''))) = Inr (store, spool)"
    "a_maxJobsPerTick a = li_maxJobsPerTick li" "a_maxJobsPerProbe a = li_maxJobsPerProbe li"
    "a_maxTriggersPerTick a = li_maxTriggersPerTick li" "a_concurrency a = li_concurrency li"
    "a_nodeID a = fst (Cut (cf_APIKey cfg) (CHR '':''))" "\<not> a_ready a" "a_spool a = spool"
    "(a_store a = None) = (store = None)" "a_bind a = li_binding li"
    by (rule Run_Inr [OF assms])
  show ?thesis
    using config_limits_bounds [OF r(1)] open_storage_exclusive [OF r(2)] r(3-11) by simp
qed

definition demo_config :: Config where
  "demo_config = \<lparr>cf_APIURL = ''https://api'', cf_APIKey = ''n1:secret'', cf_ProxyURL = [], cf_Version = [],
     cf_SchedulerTick = second, cf_Concurrency = 0, cf_MaxJobsPerTick = 8, cf_MaxJobsPerProbe = 3,
     cf_MaxTriggersPerTick = 0, cf_StartupJitter = 0, cf_MemoryLimitBytes = 0, cf_PoolConcurrency = 0,
     cf_PoolMaxJobs = 0, cf_PoolPortBase = 0, cf_PoolPortSpan = 0, cf_DomainStrategy = [], cf_SourceIP = [],
     cf_BindInterface = ''eth0'', cf_SpoolDir = [], cf_SpoolMaxBytes = 0, cf_DBPath = ''/var/db'', cf_DBMaxBytes = 0,
     cf_DBRetention = 0, cf_DBSync = [], cf_DestinationInterval = 0, cf_DestinationMaxWait = 0\<rparr>"

definition demo_runEnv :: runEnv where
  "demo_runEnv = \<lparr>re_available = 0, re_GOMEMLIMIT = [], re_ParseAddr = \<lambda>_. None, re_now = 5, re_db = Some fresh_db,
     re_spool = None, re_client_ok = True, re_registry_ok = True, re_load_ok = True, re_read_ok = True\<rparr>"

definition demo_agent :: agent where
  "demo_agent = projr (Run demo_runEnv demo_config)"

lemma demo_run: "Run demo_runEnv demo_config = Inr demo_agent"
proof -
  have "isl (Run demo_runEnv demo_config) = False" by code_simp
  then show ?thesis by (simp add: demo_agent_def)
qed

theorem Run_accepts_usable_witness:
  "a_nodeID demo_agent \<noteq> [] \<and> 1 \<le> a_concurrency demo_agent \<and> 1 \<le> a_maxJobsPerProbe demo_agent
    \<and> a_maxJobsPerProbe demo_agent \<le> a_maxJobsPerTick demo_agent \<and> 1 \<le> a_maxTriggersPerTick demo_agent
    \<and> \<not> a_ready demo_agent \<and> (a_store demo_agent = None \<or> a_spool demo_agent = None)
    \<and> Parse (re_ParseAddr demo_runEnv) (cf_SourceIP demo_config) (cf_BindInterface demo_config) = Inr (a_bind demo_agent)"
  by (rule Run_accepts_usable [OF demo_run])

text \<open>The sum of the port range is computed in 64 bits, so a huge span passes the check.\<close>

lemma port_check_overflows:
  "\<exists>li. config_limits demo_runEnv (demo_config\<lparr>cf_PoolPortBase := 1, cf_PoolPortSpan := 2 ^ 63 - 1\<rparr>) = Inr li"
proof -
  have "isl (config_limits demo_runEnv (demo_config\<lparr>cf_PoolPortBase := 1, cf_PoolPortSpan := 2 ^ 63 - 1\<rparr>)) = False"
    by code_simp
  then show ?thesis
    by (cases "config_limits demo_runEnv (demo_config\<lparr>cf_PoolPortBase := 1, cf_PoolPortSpan := 2 ^ 63 - 1\<rparr>)") auto
qed


end
