(* ===== verification/Agent_Guarantees.thy ===== *)
theory Agent_Guarantees
  imports Agent_Config Cache_Triggers
begin

text \<open>
  What the loops of the agent guarantee together: the job budget of a tick, that triggers are retired
  only with durable results, that nothing runs without the server's confirmation, that the reported
  hash is a durable one, and that a restart resumes the unfinished triggers.
\<close>

section \<open>The budget of a tick\<close>

text \<open>C8. A tick never runs more checks than its budget, triggers included: under any accepted
  configuration whose limits multiply without overflow, the jobs of the due probes and of the triggers
  one tick takes are at most \<^verbatim>\<open>max_jobs_per_tick\<close>, whatever the cache holds.\<close>

theorem tick_jobs_within_budget:
  assumes "Run env cfg = Inr a0" "a_maxTriggersPerTick a0 * a_maxJobsPerProbe a0 < 2 ^ 63" "a_maxJobsPerTick a0 < 2 ^ 63"
    and "a_maxJobsPerTick a = a_maxJobsPerTick a0" "a_maxJobsPerProbe a = a_maxJobsPerProbe a0"
    "a_maxTriggersPerTick a = a_maxTriggersPerTick a0"
    and "plan_jobs tick a (tick_plan a now) = (probes, triggers)"
  shows "int (length probes) + int (length triggers) \<le> a_maxJobsPerTick a"
proof -
  obtain li store spool where r: "config_limits env cfg = Inr li"
    "a_maxJobsPerTick a0 = li_maxJobsPerTick li" "a_maxJobsPerProbe a0 = li_maxJobsPerProbe li"
    "a_maxTriggersPerTick a0 = li_maxTriggersPerTick li"
    by (rule Run_Inr [OF assms(1)])
  have "limits_ok a" using config_limits_bounds [OF r(1)] r(2-4) assms(2-6) by (simp add: limits_ok_def)
  then show ?thesis by (rule tick_plan_jobs(1) [OF _ assms(7)])
qed

definition demo_tick :: tickEnv where
  "demo_tick = \<lparr>te_now = demo_now, te_selfTest = None, te_newRunID = (\<lambda>i. ''r'' @ Itoa (int i)), te_probe_env = demo_env,
     te_trigger_env = demo_env, te_recordedAt = demo_now, te_sentAt = ''T'', te_parse = \<lambda>_. None, te_format = \<lambda>_. ''T'',
     te_mark_ok = True, te_record_ok = True, te_complete_ok = True, te_direct = \<lambda>_. None, te_post = \<lambda>_ _. None,
     te_alive = \<lambda>_. True, te_db_ok = \<lambda>_. True, te_drainNow = demo_now, te_bytes_of = \<lambda>_. 1, te_wrote = False,
     te_nanos = 1, te_hex = ''ab''\<rparr>"

definition plain_agent :: agent where
  "plain_agent = \<lparr>a_nodeID = ''n1'', a_apiKey = ''n1:secret'', a_apiURL = ''https://api'', a_proxyURL = [], a_version = ''dev'',
     a_cache = newProbeCache, a_clock = \<lparr>ck_offset = 0\<rparr>, a_concurrency = 8, a_spool = None, a_store = None,
     a_delivery = delivery_init, a_dbRetention = DefaultRetention, a_dbMaxBytes = DefaultMaxBytes,
     a_health = newHealthSampler 0, a_path = newPathHealth, a_deferredJobs = 0, a_bind = \<lparr>SourceIP = None, Interface = []\<rparr>,
     a_bindMonitor = newBindMonitor \<lparr>SourceIP = None, Interface = []\<rparr>, a_maxJobsPerTick = 8, a_maxJobsPerProbe = 3,
     a_maxTriggersPerTick = 16, a_startupJitter = 0, a_ready = False, a_triggersRestored = False,
     a_status = NodeStatusActive, a_interval = 30 * second\<rparr>"

lemma demo_agent_limits:
  "a_maxJobsPerTick demo_agent = 8" "a_maxJobsPerProbe demo_agent = 3" "a_maxTriggersPerTick demo_agent = 16"
  by code_simp+

definition busy_agent :: agent where
  "busy_agent = (booted plain_agent (Database []) True True demo_now)\<lparr>a_cache := demo_cache\<lparr>pc_contentHash := [],
     pc_pendingTriggers := [\<lparr>pt_ProbeID = ''a'', pt_RunID = ''x'', pt_Probe = demo_probe ''a'' 9\<rparr>]\<rparr>\<rparr>"

lemma busy_agent_ok: "agent_ok busy_agent"
  unfolding busy_agent_def
proof (rule agent_ok_cache [OF booted_ok])
  show "cache_ok (demo_cache\<lparr>pc_contentHash := [],
      pc_pendingTriggers := [\<lparr>pt_ProbeID = ''a'', pt_RunID = ''x'', pt_Probe = demo_probe ''a'' 9\<rparr>]\<rparr>)"
    using demo_cache_ok by (simp add: cache_ok_def triggers_ok_def maxPendingTriggers_def)
qed code_simp

lemma busy_jobs:
  "map (\<lambda>j. (cj_runID j, cj_seq j)) (fst (plan_jobs demo_tick busy_agent (tick_plan busy_agent demo_now))) =
     [(''r0'', 1), (''r0'', 2), (''r1'', 1), (''r1'', 2), (''r1'', 3)]"
  "map (\<lambda>j. (cj_runID j, cj_seq j)) (snd (plan_jobs demo_tick busy_agent (tick_plan busy_agent demo_now))) =
     [(''x'', 1), (''x'', 2), (''x'', 3)]"
  by code_simp+

theorem tick_jobs_within_budget_witness:
  "int (length (fst (plan_jobs demo_tick busy_agent (tick_plan busy_agent demo_now)))) +
   int (length (snd (plan_jobs demo_tick busy_agent (tick_plan busy_agent demo_now)))) \<le> a_maxJobsPerTick busy_agent"
proof (rule tick_jobs_within_budget [OF demo_run])
  show "a_maxTriggersPerTick demo_agent * a_maxJobsPerProbe demo_agent < 2 ^ 63" "a_maxJobsPerTick demo_agent < 2 ^ 63"
    by (simp_all add: demo_agent_limits)
  show "plan_jobs demo_tick busy_agent (tick_plan busy_agent demo_now) =
    (fst (plan_jobs demo_tick busy_agent (tick_plan busy_agent demo_now)),
     snd (plan_jobs demo_tick busy_agent (tick_plan busy_agent demo_now)))" by simp
  show "a_maxJobsPerTick busy_agent = a_maxJobsPerTick demo_agent" "a_maxJobsPerProbe busy_agent = a_maxJobsPerProbe demo_agent"
    "a_maxTriggersPerTick busy_agent = a_maxTriggersPerTick demo_agent"
    by (simp_all add: busy_agent_def booted_def Let_def plain_agent_def demo_agent_limits)
qed

section \<open>Triggers leave the queue only with durable results\<close>

lemma take_pending [simp]: "pc_pendingTriggers (snd (takeDueProbes c now m k)) = pc_pendingTriggers c"
proof -
  have f: "pc_pendingTriggers (fold (\<lambda>e. set_lastRunAt (de_id e) now) es c) = pc_pendingTriggers c" for es
    by (rule fold_same) (simp add: set_lastRunAt_def split: option.split)
  show ?thesis by (auto simp: takeDueProbes_def Let_def f split: prod.split)
qed

lemma complete_pending [simp]:
  "pc_pendingTriggers (fold (\<lambda>t c. markTriggerComplete c (pt_ProbeID t) (pt_RunID t)) ts c) = pc_pendingTriggers c"
  by (rule fold_same) (simp add: markTriggerComplete_def set_lastTrigger_def split: option.split)

lemma tick_plan_queue:
  "tp_triggers (tick_plan a now) @ pc_pendingTriggers (tp_cache (tick_plan a now)) = pc_pendingTriggers (a_cache a)"
proof -
  have "fst (drainPendingTriggersLimited c n) @ pc_pendingTriggers (snd (drainPendingTriggersLimited c n)) = pc_pendingTriggers c" for c n
    by (simp add: drainPendingTriggersLimited_def)
  then show ?thesis by (simp add: tick_plan_def Let_def case_prod_beta)
qed

lemma delivery_cache [simp]:
  "a_cache (drain_store env a) = a_cache a" "a_cache (drain_spool env a) = a_cache a"
  "a_cache (drainDelivery env a) = a_cache a" "a_cache (snd (reportFallback env rs a)) = a_cache a"
  "a_cache (snd (reportResults env rs a)) = a_cache a" "a_cache (mark_due b due now a) = a_cache a"
  by (auto simp: drain_store_def drain_spool_def drainDelivery_def reportFallback_def reportResults_def mark_due_def
      case_prod_beta split: option.split sum.split)

text \<open>The batch of a tick is safe: committed to the store, written to the spool, or accepted by the server.\<close>

definition durably_reported :: "tickEnv \<Rightarrow> agent \<Rightarrow> WireResult list \<Rightarrow> bool" where
  "durably_reported env a rs \<longleftrightarrow>
     (\<exists>d sm d'. a_store a = Some d \<and> te_record_ok env \<and>
        RecordResults (te_parse env) (a_nodeID a) (to_UnixMilli (te_drainNow env)) rs d = Inr (sm, d')) \<or>
     (\<exists>sp name sp'. a_spool a = Some sp \<and>
        enqueue (te_bytes_of env) (te_wrote env) (te_nanos env) (te_hex env) rs (te_sentAt env) sp = Some (name, sp')) \<or>
     te_direct env rs \<noteq> None"

lemma reportResults_durable: "fst (reportResults env rs a) \<Longrightarrow> durably_reported env a rs"
  by (fastforce simp: reportResults_def reportFallback_def attempt_Inr durably_reported_def split: option.splits sum.splits)

lemma reportResults_nondurable: "\<not> fst (reportResults env rs a) \<Longrightarrow> te_direct env rs = None"
  by (auto simp: reportResults_def reportFallback_def split: option.splits sum.splits)

lemma durably_reported_cong:
  "a_nodeID a = a_nodeID b \<Longrightarrow> a_spool a = a_spool b \<Longrightarrow> a_store a = a_store b \<Longrightarrow> durably_reported env a rs = durably_reported env b rs"
  by (simp add: durably_reported_def)

lemma finishTriggers_queue:
  assumes "length (pc_pendingTriggers (a_cache a)) + length ts \<le> maxPendingTriggers"
    and "\<forall>t\<in>set ts. pt_ProbeID t \<noteq> [] \<and> pt_RunID t \<noteq> []"
  shows "trig_key ` set (pc_pendingTriggers (a_cache a)) \<subseteq> trig_key ` set (pc_pendingTriggers (a_cache (finishTriggers b t ts dur a)))"
    "\<not> dur \<Longrightarrow> trig_key ` set ts \<subseteq> trig_key ` set (pc_pendingTriggers (a_cache (finishTriggers b t ts dur a)))"
  using requeue_keeps_prefix [of "a_cache a" ts] requeue_all [OF assms]
  by (auto simp: finishTriggers_def Let_def split: option.splits)

lemma finish_tick_queue:
  assumes "length (pc_pendingTriggers (a_cache a)) + length (tp_triggers p) \<le> maxPendingTriggers"
    and "\<forall>t\<in>set (tp_triggers p). pt_ProbeID t \<noteq> [] \<and> pt_RunID t \<noteq> []"
    and "\<not> hasPendingTriggerLocked (a_cache (finish_tick env now p rs a)) pid rid"
    and "(pid, rid) \<in> trig_key ` (set (tp_triggers p) \<union> set (pc_pendingTriggers (a_cache a)))"
  shows "(pid, rid) \<in> trig_key ` set (tp_triggers p)
    \<and> (rs \<noteq> [] \<longrightarrow> durably_reported env (mark_due (te_mark_ok env) (tp_due p) now a) rs)"
proof -
  let ?m = "mark_due (te_mark_ok env) (tp_due p) now (a\<lparr>a_path := record_path (te_recordedAt env) rs (a_path a)\<rparr>)"
  obtain dur a1 where r: "(if rs = [] then (True, ?m) else reportResults env rs ?m) = (dur, a1)"
    by (cases "if rs = [] then (True, ?m) else reportResults env rs ?m") 
  have "a1 = snd (if rs = [] then (True, ?m) else reportResults env rs ?m)" by (simp only: r snd_conv)
  then have c: "a_cache a1 = a_cache a" by simp
  have f: "finish_tick env now p rs a =
      finishTriggers (te_complete_ok env) (to_UnixMilli (te_drainNow env)) (tp_triggers p) dur a1"
    using r by (simp add: finish_tick_def Let_def)
  note q = finishTriggers_queue [where a = a1 and ts = "tp_triggers p" and b = "te_complete_ok env"
    and t = "to_UnixMilli (te_drainNow env)" and dur = dur, folded f]
  have gone: "(pid, rid) \<notin> trig_key ` set (pc_pendingTriggers (a_cache (finish_tick env now p rs a)))"
    using assms(3) by (auto simp: hasPending_iff trig_key_def)
  have "dur" using q(2) assms(1,2) gone assms(4) q(1) by (auto simp: c)
  moreover have "durably_reported env ?m rs = durably_reported env (mark_due (te_mark_ok env) (tp_due p) now a) rs"
    by (rule durably_reported_cong) (simp_all add: mark_due_def)
  ultimately show ?thesis
    using r q(1) assms(1,2,4) gone reportResults_durable [of env rs ?m] by (auto simp: c split: if_splits)
qed

text \<open>The plan of a tick and the state it is executed in.\<close>

definition tick_now :: "tickEnv \<Rightarrow> agent \<Rightarrow> gotime" where
  "tick_now env a = clock_now (a_clock a) (te_now env)"

definition planned :: "tickEnv \<Rightarrow> agent \<Rightarrow> tickPlan \<times> agent" where
  "planned env a =
     (let a1 = snd (binding_paused env a); p = tick_plan a1 (tick_now env a)
      in (p, a1\<lparr>a_cache := tp_cache p, a_deferredJobs := tp_deferred p\<rparr>))"

text \<open>C6. A queued trigger is retired only once its results are safe: if a tick of a well-formed agent
  ends without a trigger that was queued, then the tick took that trigger, and either its checks gave
  nothing to report or the batch of the tick was committed to the store, written to the spool or
  accepted by the server.\<close>

theorem trigger_retired_only_if_durable:
  assumes "agent_ok a" "runDueProbes env a = Some a'"
    and "hasPendingTriggerLocked (a_cache a) pid rid" "\<not> hasPendingTriggerLocked (a_cache a') pid rid"
  shows "case planned env a of (p, a2) \<Rightarrow>
    (pid, rid) \<in> trig_key ` set (tp_triggers p) \<and>
    (\<exists>rs. execute_plan env a2 p = Some rs \<and>
      (rs \<noteq> [] \<longrightarrow> durably_reported env (mark_due (te_mark_ok env) (tp_due p) (tick_now env a) a2) rs))"
proof -
  obtain b a1 where bp: "binding_paused env a = (b, a1)" by (cases "binding_paused env a")
  have c1: "a_cache a1 = a_cache a" using binding_paused_fields(1) [of env a] by (simp add: bp)
  let ?p = "tick_plan a1 (tick_now env a)"
  let ?a2 = "a1\<lparr>a_cache := tp_cache ?p, a_deferredJobs := tp_deferred ?p\<rparr>"
  have queue: "tp_triggers ?p @ pc_pendingTriggers (a_cache ?a2) = pc_pendingTriggers (a_cache a)"
    using tick_plan_queue [of a1 "tick_now env a"] c1 by simp
  have len: "length (pc_pendingTriggers (a_cache ?a2)) + length (tp_triggers ?p) \<le> maxPendingTriggers"
    using agent_okD(1) [OF assms(1)] queue [symmetric] by (simp add: cache_ok_def triggers_ok_def)
  have ne: "\<forall>t\<in>set (tp_triggers ?p). pt_ProbeID t \<noteq> [] \<and> pt_RunID t \<noteq> []"
    using agent_okD(1) [OF assms(1)] queue [symmetric] by (simp add: cache_ok_def triggers_ok_def)
  have key: "(pid, rid) \<in> trig_key ` (set (tp_triggers ?p) \<union> set (pc_pendingTriggers (a_cache ?a2)))"
    using assms(3) unfolding hasPending_iff queue [symmetric] set_append [symmetric] by (auto simp: trig_key_def)
  note run = assms(2) [unfolded runDueProbes_def tick_now_def [symmetric] Let_def bp]
  have "\<not> b" using run assms(3,4) c1 by (auto simp: noteBindingPause_def)
  moreover have "\<not> (tp_due ?p = [] \<and> tp_triggers ?p = [])"
    using run assms(4) key \<open>\<not> b\<close> by (auto simp: hasPending_iff trig_key_def)
  ultimately obtain rs where rs: "execute_plan env ?a2 ?p = Some rs" "a' = finish_tick env (tick_now env a) ?p rs ?a2"
    using run by auto
  from finish_tick_queue [OF len ne _ key, of env "tick_now env a" rs] assms(4) rs show ?thesis
    by (simp add: planned_def Let_def bp)
qed

definition retired_agent :: agent where
  "retired_agent = the (runDueProbes demo_tick busy_agent)"

lemma busy_tick:
  "runDueProbes demo_tick busy_agent = Some retired_agent"
  "hasPendingTriggerLocked (a_cache busy_agent) ''a'' ''x''"
  "\<not> hasPendingTriggerLocked (a_cache retired_agent) ''a'' ''x''"
proof -
  have "case runDueProbes demo_tick busy_agent of None \<Rightarrow> False | Some a \<Rightarrow> \<not> hasPendingTriggerLocked (a_cache a) ''a'' ''x''"
    by code_simp
  then show "runDueProbes demo_tick busy_agent = Some retired_agent"
    "\<not> hasPendingTriggerLocked (a_cache retired_agent) ''a'' ''x''"
    by (auto simp: retired_agent_def split: option.splits)
  show "hasPendingTriggerLocked (a_cache busy_agent) ''a'' ''x''"
    by (simp add: busy_agent_def hasPendingTriggerLocked_def)
qed

theorem trigger_retired_only_if_durable_witness:
  "(''a'', ''x'') \<in> trig_key ` set (tp_triggers (fst (planned demo_tick busy_agent)))
   \<and> execute_plan demo_tick (snd (planned demo_tick busy_agent)) (fst (planned demo_tick busy_agent)) \<noteq> None"
  using trigger_retired_only_if_durable [OF busy_agent_ok busy_tick] by (auto simp: case_prod_beta)

section \<open>Nothing runs without a confirmed, active status\<close>

text \<open>The statuses the server has confirmed along a history, oldest first.\<close>

fun confirmed_status :: "agentEvent \<Rightarrow> agent \<Rightarrow> string list" where
  "confirmed_status (EBeat env) a =
     (case fst (exchange env (restore_again env a)) of
        None \<Rightarrow> []
      | Some (resp, _, _) \<Rightarrow> if hb_NodeStatus resp \<noteq> [] then [hb_NodeStatus resp] else [])"
| "confirmed_status e a = []"

definition trace_step :: "agentEvent \<Rightarrow> string list \<times> agent \<Rightarrow> string list \<times> agent" where
  "trace_step e = (\<lambda>(seen, a). (seen @ confirmed_status e a, agent_step e a))"

lemma gate_fields [simp]:
  "a_ready (drain_store env a) = a_ready a" "a_status (drain_store env a) = a_status a"
  "a_ready (drain_spool env a) = a_ready a" "a_status (drain_spool env a) = a_status a"
  by (simp_all add: drain_store_def drain_spool_def case_prod_beta split: option.split)

lemma report_gate [simp]:
  "a_ready (snd (reportFallback env rs a)) = a_ready a" "a_status (snd (reportFallback env rs a)) = a_status a"
  "a_ready (snd (reportResults env rs a)) = a_ready a" "a_status (snd (reportResults env rs a)) = a_status a"
  "a_ready (finishTriggers b t ts dur a) = a_ready a" "a_status (finishTriggers b t ts dur a) = a_status a"
  "a_ready (mark_due b2 due now a) = a_ready a" "a_status (mark_due b2 due now a) = a_status a"
  "a_ready (restorePendingTriggers r a) = a_ready a" "a_status (restorePendingTriggers r a) = a_status a"
  "a_ready (restore_again be a) = a_ready a" "a_status (restore_again be a) = a_status a"
  "a_ready (agent_applyTriggeredEvents eo t evs a) = a_ready a" "a_status (agent_applyTriggeredEvents eo t evs a) = a_status a"
  by (simp_all add: reportFallback_def reportResults_def finishTriggers_def mark_due_def restorePendingTriggers_def
      restore_again_def agent_applyTriggeredEvents_def case_prod_beta Let_def split: option.split sum.split)

lemma finish_tick_gate [simp]:
  "a_ready (finish_tick env now p rs a) = a_ready a" "a_status (finish_tick env now p rs a) = a_status a"
  by (simp_all add: finish_tick_def Let_def case_prod_beta)

lemma tick_gate: "scheduler_tick env a = Some a' \<Longrightarrow> a_ready a' = a_ready a \<and> a_status a' = a_status a"
proof -
  assume t: "scheduler_tick env a = Some a'"
  obtain b a1 where p: "binding_paused env a = (b, a1)" by (cases "binding_paused env a")
  have "a_ready a1 = a_ready a" "a_status a1 = a_status a" using binding_paused_fields(4,5) [of env a] by (simp_all add: p)
  with t show ?thesis
    by (cases b) (auto simp: scheduler_tick_def runDueProbes_def Let_def p drainDelivery_def noteBindingPause_def split: if_splits)
qed

lemma sync_assignment_gate [simp]:
  "a_ready (sync_assignment env resp a) = a_ready a" "a_status (sync_assignment env resp a) = a_status a"
  by (simp_all add: sync_assignment_def persist_assignment_def Let_def case_prod_beta split: option.split sum.split)

lemma beat_gate:
  "a_ready (snd (beat env a)) \<longleftrightarrow> a_ready a \<or> confirmed_status (EBeat env) a \<noteq> []"
  "a_status (snd (beat env a)) = last (a_status a # confirmed_status (EBeat env) a)"
proof -
  obtain r a1 where e: "exchange env (restore_again env a) = (r, a1)" by (cases "exchange env (restore_again env a)")
  have "a_ready a1 = a_ready a" "a_status a1 = a_status a"
    using exchange_fields(4,5) [of env "restore_again env a"] by (simp_all add: e)
  then show "a_ready (snd (beat env a)) \<longleftrightarrow> a_ready a \<or> confirmed_status (EBeat env) a \<noteq> []"
    "a_status (snd (beat env a)) = last (a_status a # confirmed_status (EBeat env) a)"
    by (auto simp: beat_def e apply_response_def Let_def split: option.split)
qed

lemma maintenance_gate [simp]:
  "a_ready (snd (maintenance_round env a)) = a_ready a" "a_status (snd (maintenance_round env a)) = a_status a"
  by (simp_all add: maintenance_round_def case_prod_beta split: option.split)

definition gate_agrees :: "string list \<times> agent \<Rightarrow> bool" where
  "gate_agrees = (\<lambda>(seen, a). (a_ready a \<longleftrightarrow> seen \<noteq> []) \<and> (seen \<noteq> [] \<longrightarrow> a_status a = last seen))"

lemma trace_step_agrees: "gate_agrees s \<Longrightarrow> gate_agrees (trace_step e s)"
proof -
  assume g: "gate_agrees s"
  obtain seen a where s: "s = (seen, a)" by (cases s)
  show ?thesis
  proof (cases e)
    case (ETick env)
    with g show ?thesis using tick_gate [of env a] by (auto simp: gate_agrees_def trace_step_def s split: option.split)
  next
    case (EBeat env)
    have "last (x # ys) = last (zs @ ys)" if "ys \<noteq> []" for x :: string and ys zs using that by simp
    with g EBeat show ?thesis using beat_gate [of env a]
      by (cases "confirmed_status (EBeat env) a = []") (auto simp: gate_agrees_def trace_step_def s)
  next
    case (EMaintain env)
    with g show ?thesis by (simp add: gate_agrees_def trace_step_def s)
  qed
qed

interpretation gated: invariant_machine "([], booted base s load_ok read_ok now)" trace_step gate_agrees
  for base s load_ok read_ok now
proof
  have "\<not> a_ready (booted base s load_ok read_ok now)"
    by (simp add: booted_def Let_def split: storage.split)
  then show "gate_agrees ([], booted base s load_ok read_ok now)" by (simp add: gate_agrees_def)
qed (rule trace_step_agrees)


section \<open>The reported hash\<close>

text \<open>C20. Over any history the cache, the store and the spool stay well formed, and the hash of the
  assignment a heartbeat reports is empty or the one the database holds: after a crash the node comes
  back with the assignment the server believes it has, even if a save failed in between.\<close>

theorem reported_hash_is_durable:
  "agent_ok (fold agent_step evs (booted base s load_ok read_ok now)) \<and>
   (case a_store (fold agent_step evs (booted base s load_ok read_ok now)) of
      None \<Rightarrow> True
    | Some d \<Rightarrow> hr_ProbeHash (fst (heartbeat_request ps env (fold agent_step evs (booted base s load_ok read_ok now))))
        \<in> {[], fst (LoadAssignment d)})"
proof
  show ok: "agent_ok (fold agent_step evs (booted base s load_ok read_ok now))" by (rule agent.inv_run)
  have "fst (LoadAssignment d) = stored_hash d" for d
    by (simp add: LoadAssignment_def LoadProbeStates_def stored_hash_def)
  with ok show "case a_store (fold agent_step evs (booted base s load_ok read_ok now)) of
      None \<Rightarrow> True
    | Some d \<Rightarrow> hr_ProbeHash (fst (heartbeat_request ps env (fold agent_step evs (booted base s load_ok read_ok now))))
        \<in> {[], fst (LoadAssignment d)}"
    by (auto simp: agent_ok_def store_agrees_def split: option.split)
qed

section \<open>A restart resumes every durable trigger\<close>

text \<open>What the queue of the store satisfies without a rebuild: its rows decode, name a probe and a run,
  and are not the run their probe has completed last.\<close>

definition queue_ok :: "db \<Rightarrow> bool" where
  "queue_ok d \<longleftrightarrow> (\<forall>q\<in>set (db_pending d).
     q_probe_id q \<noteq> [] \<and> q_run_id q \<noteq> [] \<and> (\<exists>s. q_snapshot_json q = Some s \<and> ps_ID s = q_probe_id q) \<and>
     (\<forall>p\<in>set (db_probes d). ps_ID (p_snapshot p) = q_probe_id q \<longrightarrow> p_last_trigger_run_id p \<noteq> Some (q_run_id q)))"

lemma queue_ok_cong: "queue_ok d \<Longrightarrow> db_pending d' = db_pending d \<Longrightarrow> db_probes d' = db_probes d \<Longrightarrow> queue_ok d'"
  by (simp add: queue_ok_def)

lemma queue_ok_RecordTrigger:
  assumes "store_ok d" "queue_ok d" "RecordTrigger origin t e d = Inr (b, d')"
  shows "queue_ok d'"
proof (cases b)
  case True
  with assms(3) obtain f where f: "ev_EventType e = ''triggered''" "ev_RunID e \<noteq> []" "ps_ID (ev_Probe e) \<noteq> []"
    "json_event e = Some f" "\<not> triggerAlreadySeenTx (ps_ID (ev_Probe e)) (ev_RunID e) d"
    by (auto simp: RecordTrigger_def split: if_splits option.splits)
  obtain s d2 where r: "RecordTrigger origin t e d = Inr (True, d2)"
    "db_pending d2 = db_pending d @ [\<lparr>q_probe_id = ps_ID (ev_Probe e), q_run_id = ev_RunID e,
       q_event_seq = db_autoinc d + 1, q_created_at_ms = t, q_snapshot_json = Some (ev_Probe f)\<rparr>]"
    "db_probes d2 = db_probes d"
    by (rule RecordTrigger_fresh [OF assms(1) f])
  have "ps_ID (ev_Probe f) = ps_ID (ev_Probe e)"
    using json_event_fields [OF f(4)] json_snapshot_ID by auto
  then show ?thesis using r assms(2,3) f by (auto simp: queue_ok_def triggerAlreadySeenTx_def list_ex_iff)
next
  case False
  then have "d' = d" using assms(3) by (auto simp: RecordTrigger_def bind_tx_Inr split: if_splits option.splits)
  then show ?thesis using assms(2) by simp
qed

lemma queue_ok_complete:
  "queue_ok d \<Longrightarrow> db_pending d1 = db_pending (drop_pending p x d) \<Longrightarrow> db_probes d1 = db_probes d \<Longrightarrow>
     queue_ok (completeTriggerTx p x t d1)"
  by (auto simp: queue_ok_def completeTriggerTx_def drop_pending_def Let_def)

lemma queue_ok_CompleteTriggers:
  "store_ok d \<Longrightarrow> queue_ok d \<Longrightarrow> CompleteTriggers origin t ks d = Inr (u, d') \<Longrightarrow> queue_ok d'"
proof (induction ks arbitrary: d)
  case (Cons k ks)
  obtain p x where k: "k = (p, x)" by (cases k)
  obtain s d1 where c: "complete_one origin t (p, x) d = Inr ((), completeTriggerTx p x t d1)" "store_ok d1"
    "db_pending d1 = db_pending (drop_pending p x d)" "db_probes d1 = db_probes d"
    by (rule complete_one_total [OF Cons.prems(1)])
  have "store_ok (completeTriggerTx p x t d1)" by (rule completeTriggerTx_ok [OF c(2)])
  from Cons.IH [OF this queue_ok_complete [OF Cons.prems(2) c(3,4)]] Cons.prems(3) c(1) k show ?case by simp
qed simp

lemma probe_rows_last:
  "r \<in> set (probe_rows True old qs) \<Longrightarrow> p_last_trigger_run_id r = Some x \<Longrightarrow>
     \<exists>p\<in>set old. ps_ID (p_snapshot p) = ps_ID (p_snapshot r) \<and> p_last_trigger_run_id p = Some x"
  by (auto simp: probe_rows_def schedule_of_def find_Some_iff split: option.splits) (metis nth_mem)+

lemma record_one_tables:
  "db_pending (snd (record_one parse origin nowMS oseq w st)) = db_pending (snd st)"
  "db_probes (snd (record_one parse origin nowMS oseq w st)) = db_probes (snd st)"
  by (auto simp: record_one_def insert_or_ignore_def Let_def split: prod.splits)

lemma record_rows_tables:
  "db_pending (snd (record_rows parse origin nowMS oseq ws st)) = db_pending (snd st)"
  "db_probes (snd (record_rows parse origin nowMS oseq ws st)) = db_probes (snd st)"
  by (induction parse origin nowMS oseq ws st rule: record_rows.induct) (simp_all add: record_one_tables)

lemma RecordResults_tables:
  assumes "RecordResults parse origin nowMS ws d = Inr (sm, d')"
  shows "db_pending d' = db_pending d \<and> db_probes d' = db_probes d"
proof (cases "ws = []")
  case False
  with assms obtain s d1 where n: "nextOriginSeq origin (int (length ws)) d = Inr (s, d1)"
    "record_rows parse origin nowMS s ws (zeroSummary, d1) = (sm, d')"
    by (auto simp: RecordResults_def bind_tx_Inr)
  have "db_pending d1 = db_pending d" "db_probes d1 = db_probes d"
    using n(1) by (auto simp: nextOriginSeq_def split: if_splits option.splits)
  with record_rows_tables [of parse origin nowMS s ws "(zeroSummary, d1)"] n(2) show ?thesis by simp
qed (use assms in \<open>simp add: RecordResults_def\<close>)

lemma queue_ok_SaveAssignment:
  assumes "store_ok d" "queue_ok d" "SaveAssignment origin t h ps d = Inr (u, d')"
  shows "queue_ok d'"
proof (cases "h = []")
  case True
  with assms(2,3) show ?thesis by (simp add: SaveAssignment_def)
next
  case False
  with SaveAssignment_Inr [OF assms(3)] obtain qs
    where q: "json_snapshots ps = Some qs" "distinct (map ps_ID ps)" by auto
  obtain s d1 where s: "SaveAssignment origin t h ps d =
       Inr ((), meta_set ''probe_hash'' h (d1\<lparr>db_probes := probe_rows True (db_probes d) qs\<rparr>))"
    "db_pending d1 = db_pending d"
    by (rule SaveAssignment_total [OF assms(1) False q])
  have d': "db_pending d' = db_pending d" "db_probes d' = probe_rows True (db_probes d) qs"
    using s assms(3) by (auto simp: meta_set_def)
  show ?thesis
    using assms(2) probe_rows_last [of _ "db_probes d" qs] unfolding queue_ok_def d' by metis
qed

lemma fold_keeps: "(\<And>x s. P s \<Longrightarrow> P (g x s)) \<Longrightarrow> P s \<Longrightarrow> P (fold g xs s)"
  by (induction xs arbitrary: s) auto

lemma queue_ok_marked: "queue_ok d \<Longrightarrow> queue_ok (d\<lparr>db_probes := map (mark_run_row m chunk) (db_probes d)\<rparr>)"
proof -
  have "ps_ID (p_snapshot (mark_run_row m chunk p)) = ps_ID (p_snapshot p)"
    "p_last_trigger_run_id (mark_run_row m chunk p) = p_last_trigger_run_id p" for p
    by (simp_all add: mark_run_row_def)
  then show "queue_ok d \<Longrightarrow> ?thesis" by (simp add: queue_ok_def)
qed

lemma queue_ok_MarkProbesRun: "queue_ok d \<Longrightarrow> queue_ok (MarkProbesRun ids t d)"
  unfolding MarkProbesRun_def by (rule fold_keeps [where P = queue_ok]) (rule queue_ok_marked)

lemma queue_ok_PendingTriggers: "queue_ok d \<Longrightarrow> queue_ok (snd (PendingTriggers d))"
  unfolding PendingTriggers_def Let_def snd_conv
  by (rule fold_keeps [where P = queue_ok]) (simp_all add: queue_ok_def drop_pending_def)

lemma mark_tables [simp]:
  "db_pending (MarkOutcomes t ocs d) = db_pending d" "db_probes (MarkOutcomes t ocs d) = db_probes d"
  "db_pending (MarkAttempts seqs d) = db_pending d" "db_probes (MarkAttempts seqs d) = db_probes d"
proof -
  show "db_pending (MarkOutcomes t ocs d) = db_pending d" "db_probes (MarkOutcomes t ocs d) = db_probes d"
    by (induction ocs arbitrary: d) (auto simp: MarkOutcomes_def)
  show "db_pending (MarkAttempts seqs d) = db_pending d" "db_probes (MarkAttempts seqs d) = db_probes d"
    unfolding MarkAttempts_def by (rule fold_same, simp)+
qed

lemma commit_cases: "(\<And>a d'. t = Inr (a, d') \<Longrightarrow> P d') \<Longrightarrow> P d \<Longrightarrow> P (commit t d)"
  by (cases t) (auto simp: commit_def)

lemma queue_ok_step:
  assumes "store_ok d" "queue_ok d" "op \<noteq> OpRebuild"
  shows "queue_ok (store_step origin op d)"
proof (cases op)
  case (OpRecordResults parse nowMS ws)
  have "queue_ok (commit (RecordResults parse origin nowMS ws d) d)"
    by (rule commit_cases) (use assms(2) RecordResults_tables queue_ok_cong in blast)+
  then show ?thesis by (simp add: store_step_def OpRecordResults)
next
  case (OpRecordTrigger nowMS e)
  have "queue_ok (commit (RecordTrigger origin nowMS e d) d)"
    by (rule commit_cases) (use assms(1,2) queue_ok_RecordTrigger in blast)+
  then show ?thesis by (simp add: store_step_def OpRecordTrigger)
next
  case (OpCompleteTriggers nowMS ks)
  have "queue_ok (commit (CompleteTriggers origin nowMS ks d) d)"
    by (rule commit_cases) (use assms(1,2) queue_ok_CompleteTriggers in blast)+
  then show ?thesis by (simp add: store_step_def OpCompleteTriggers)
next
  case (OpSaveAssignment nowMS h ps)
  have "queue_ok (commit (SaveAssignment origin nowMS h ps d) d)"
    by (rule commit_cases) (use assms(1,2) queue_ok_SaveAssignment in blast)+
  then show ?thesis by (simp add: store_step_def OpSaveAssignment)
next
  case (OpMaintain live freelist now opts)
  with Maintain_keeps [OF assms(1), of live freelist now opts] show ?thesis
    by (simp add: store_step_def keeps_def queue_ok_cong [OF assms(2)])
qed (use assms in \<open>simp_all add: store_step_def queue_ok_MarkProbesRun queue_ok_PendingTriggers queue_ok_cong [OF assms(2)]\<close>)

lemma queue_ok_run:
  "store_ok d \<Longrightarrow> queue_ok d \<Longrightarrow> list_all (\<lambda>op. op \<noteq> OpRebuild) ops \<Longrightarrow> queue_ok (fold (store_step origin) ops d)"
  by (induction ops arbitrary: d) (auto simp: queue_ok_step store_step_ok)

lemma queueTriggers_all:
  assumes "distinct (map trig_key ts)" "\<forall>t\<in>set ts. pt_ProbeID t \<noteq> [] \<and> pt_RunID t \<noteq> []"
    and "trig_key ` set ts \<inter> trig_key ` set (pc_pendingTriggers c) = {}"
    and "\<forall>t\<in>set ts. \<forall>e. map_of (pc_probes c) (pt_ProbeID t) = Some e \<longrightarrow> cp_lastTriggerRunID e \<noteq> pt_RunID t"
    and "length (pc_pendingTriggers c) + length ts \<le> maxPendingTriggers"
  shows "map trig_key (pc_pendingTriggers (snd (queueTriggers c ts))) = map trig_key (pc_pendingTriggers c) @ map trig_key ts"
  using assms
proof (induction ts arbitrary: c)
  case (Cons t ts)
  have fresh: "\<not> hasPendingTriggerLocked c (pt_ProbeID t) (pt_RunID t)"
    using Cons.prems(3) by (auto simp: hasPending_iff trig_key_def)
  define c' where "c' = set_lastTrigger (pt_ProbeID t) (pt_RunID t) c"
  have nt: "note_trigger c (pt_ProbeID t) (pt_RunID t) = Some c'"
    using Cons.prems(4) by (auto simp: note_trigger_def c'_def set_lastTrigger_def split: option.split)
  have pend: "pc_pendingTriggers c' = pc_pendingTriggers c"
    by (simp add: c'_def set_lastTrigger_def split: option.split)
  define r where "r = resolve_trigger c t"
  have key: "trig_key r = trig_key t" by (auto simp: r_def resolve_trigger_def trig_key_def split: option.split)
  have probes: "map_of (pc_probes (push_trigger c' r)) k = Some e \<Longrightarrow>
      (if k = pt_ProbeID t then cp_lastTriggerRunID e = pt_RunID t else map_of (pc_probes c) k = Some e)" for k e
    by (auto simp: c'_def push_trigger_def set_lastTrigger_def split: option.splits if_splits)
  have "map trig_key (pc_pendingTriggers (snd (queueTriggers (push_trigger c' r) ts))) =
      map trig_key (pc_pendingTriggers (push_trigger c' r)) @ map trig_key ts"
  proof (rule Cons.IH)
    show "\<forall>u\<in>set ts. \<forall>e. map_of (pc_probes (push_trigger c' r)) (pt_ProbeID u) = Some e \<longrightarrow> cp_lastTriggerRunID e \<noteq> pt_RunID u"
    proof (intro ballI allI impI)
      fix u e
      assume u: "u \<in> set ts" "map_of (pc_probes (push_trigger c' r)) (pt_ProbeID u) = Some e"
      have "trig_key u \<noteq> trig_key t" using Cons.prems(1) u(1) by (metis distinct.simps(2) image_eqI list.map(2) list.set_map)
      with probes [OF u(2)] u(1) Cons.prems(4) show "cp_lastTriggerRunID e \<noteq> pt_RunID u"
        by (auto simp: trig_key_def split: if_splits)
    qed
  qed (use Cons.prems pend key in \<open>auto simp: push_trigger_def\<close>)
  then show ?case
    using Cons.prems(2,5) fresh nt pend key
    by (auto simp: push_trigger_def r_def case_prod_beta not_le)
qed simp

lemma restored_lookup:
  assumes "map_of (pc_probes (restore newProbeCache h (cachedStates (snd (LoadProbeStates d))))) k = Some e"
  shows "\<exists>p\<in>set (db_probes d). ps_ID (p_snapshot p) = k \<and> cp_lastTriggerRunID e = opt_string (p_last_trigger_run_id p)"
proof -
  let ?ss = "cachedStates (snd (LoadProbeStates d))"
  let ?g = "\<lambda>s. \<lparr>cp_snapshot = cs_Snapshot s, cp_lastRunAt = cs_LastRunAt s, cp_lastTriggerRunID = cs_LastTriggerRunID s\<rparr>"
  have "map_of (fold (\<lambda>s. AList.update (ps_ID (cs_Snapshot s)) (?g s)) ?ss []) k = Some e"
    using assms by (simp add: restore_def)
  then have "map_of (rev (map (\<lambda>s. (ps_ID (cs_Snapshot s), ?g s)) ?ss)) k = Some e"
    unfolding map_of_fold_update by (simp split: option.splits)
  from map_of_SomeD [OF this] obtain s where "s \<in> set ?ss" "ps_ID (cs_Snapshot s) = k" "e = ?g s" by auto
  then show ?thesis by (auto simp: cachedStates_def LoadProbeStates_def)
qed

lemma PendingTriggers_decoded:
  assumes "\<forall>q\<in>set (db_pending d). q_snapshot_json q \<noteq> None"
  shows "map trig_key (agentTriggers (fst (PendingTriggers d))) = map pending_key (sort_key q_event_seq (db_pending d))"
proof -
  have "filter (\<lambda>q. q_snapshot_json q \<noteq> None) (sort_key q_event_seq (db_pending d)) = sort_key q_event_seq (db_pending d)"
    using assms by (simp add: filter_id_conv)
  then show ?thesis by (simp add: PendingTriggers_def Let_def agentTriggers_def trig_key_def pending_key_def o_def)
qed

lemma restart_queue:
  assumes "store_ok d" "queue_ok d" "length (db_pending d) \<le> maxPendingTriggers"
    and "c = newProbeCache \<or> c = restore newProbeCache h (cachedStates (snd (LoadProbeStates d)))"
  shows "map trig_key (pc_pendingTriggers (snd (queueTriggers c (agentTriggers (fst (PendingTriggers d)))))) =
    map pending_key (sort_key q_event_seq (db_pending d))"
proof -
  let ?ts = "agentTriggers (fst (PendingTriggers d))"
  have keys: "map trig_key ?ts = map pending_key (sort_key q_event_seq (db_pending d))"
    using assms(2) by (intro PendingTriggers_decoded) (auto simp: queue_ok_def)
  have keyset: "trig_key ` set ?ts = pending_key ` set (db_pending d)"
    using arg_cong [OF keys, of set] by simp
  have of_row: "\<exists>q\<in>set (db_pending d). pt_ProbeID t = q_probe_id q \<and> pt_RunID t = q_run_id q" if "t \<in> set ?ts" for t
    using imageI [OF that, of trig_key] unfolding keyset by (auto simp: trig_key_def pending_key_def)
  have empty: "pc_pendingTriggers c = []" using assms(4) by (auto simp: newProbeCache_def restore_def)
  have "map trig_key (pc_pendingTriggers (snd (queueTriggers c ?ts))) = map trig_key (pc_pendingTriggers c) @ map trig_key ?ts"
  proof (rule queueTriggers_all)
    show "distinct (map trig_key ?ts)"
      unfolding keys using store_okD(2) [OF assms(1)] by (simp add: tables_ok_def distinct_map)
    show "\<forall>t\<in>set ?ts. pt_ProbeID t \<noteq> [] \<and> pt_RunID t \<noteq> []"
      using assms(2) of_row by (fastforce simp: queue_ok_def)
    show "length (pc_pendingTriggers c) + length ?ts \<le> maxPendingTriggers"
      using assms(3) arg_cong [OF keys, of length] by (simp add: empty)
    show "\<forall>t\<in>set ?ts. \<forall>e. map_of (pc_probes c) (pt_ProbeID t) = Some e \<longrightarrow> cp_lastTriggerRunID e \<noteq> pt_RunID t"
    proof (intro ballI allI impI)
      fix t e
      assume t: "t \<in> set ?ts" and e: "map_of (pc_probes c) (pt_ProbeID t) = Some e"
      then have "c = restore newProbeCache h (cachedStates (snd (LoadProbeStates d)))"
        using assms(4) by (auto simp: newProbeCache_def)
      then obtain p where p: "p \<in> set (db_probes d)" "ps_ID (p_snapshot p) = pt_ProbeID t"
        "cp_lastTriggerRunID e = opt_string (p_last_trigger_run_id p)"
        using e restored_lookup by blast
      obtain q where "q \<in> set (db_pending d)" "pt_ProbeID t = q_probe_id q" "pt_RunID t = q_run_id q"
        using of_row [OF t] by blast
      with assms(2) p show "cp_lastTriggerRunID e \<noteq> pt_RunID t"
        by (auto simp: queue_ok_def opt_string_def split: option.splits)
    qed
  qed (simp add: empty)
  then show ?thesis by (simp add: empty keys)
qed

text \<open>C7. A restart resumes every trigger that was recorded and not finished: whatever calls left the
  database (rebuilds aside), a process that comes up and can read it has exactly the unfinished triggers
  in its queue, in the order they arrived, as long as they fit the queue.\<close>

theorem restart_resumes_triggers:
  assumes "list_all (\<lambda>op. op \<noteq> OpRebuild) ops"
    and "d = fold (store_step (a_nodeID base)) ops fresh_db" "length (db_pending d) \<le> maxPendingTriggers"
  shows "map trig_key (pc_pendingTriggers (a_cache (booted base (Database ops) load_ok True now))) =
    map pending_key (sort_key q_event_seq (db_pending d))"
proof -
  have ok: "store_ok d" "queue_ok d"
    using queue_ok_run [OF fresh_db_ok _ assms(1), of "a_nodeID base"] store.inv_run [of "a_nodeID base" ops]
    by (simp_all add: assms(2) queue_ok_def fresh_db_def)
  obtain h ss where l: "LoadProbeStates d = (h, ss)" by (cases "LoadProbeStates d")
  define c where "c = (if load_ok \<and> h \<noteq> [] then restore newProbeCache h (cachedStates ss) else newProbeCache)"
  have "pc_pendingTriggers (a_cache (booted base (Database ops) load_ok True now)) =
      pc_pendingTriggers (snd (queueTriggers c (agentTriggers (fst (PendingTriggers d)))))"
    using l by (simp add: booted_def start_agent_def restore_local_def restorePendingTriggers_def Let_def
        assms(2) [symmetric] case_prod_beta c_def staggerUnstarted_def)
  with restart_queue [OF ok assms(3), of c h] l show ?thesis by (simp add: c_def)
qed

definition restart_ops :: "storeOp list" where
  "restart_ops =
     [OpSaveAssignment 1 ''h'' [demo_probe ''a'' 1, demo_probe ''b'' 1],
      OpRecordTrigger 2 \<lparr>ev_Seq = 1, ev_EventType = ''triggered'', ev_Probe = demo_probe ''a'' 1, ev_RunID = ''r1''\<rparr>,
      OpRecordTrigger 3 \<lparr>ev_Seq = 1, ev_EventType = ''triggered'', ev_Probe = demo_probe ''b'' 1, ev_RunID = ''r2''\<rparr>,
      OpRecordTrigger 4 \<lparr>ev_Seq = 1, ev_EventType = ''triggered'', ev_Probe = demo_probe ''a'' 1, ev_RunID = ''r3''\<rparr>,
      OpCompleteTriggers 5 [(''a'', ''r1'')]]"

lemma restart_pending:
  "map pending_key (sort_key q_event_seq (db_pending (fold (store_step ''n1'') restart_ops fresh_db))) =
     [(''b'', ''r2''), (''a'', ''r3'')]"
  "length (db_pending (fold (store_step ''n1'') restart_ops fresh_db)) \<le> maxPendingTriggers"
  by code_simp+

theorem restart_resumes_triggers_witness:
  "map trig_key (pc_pendingTriggers (a_cache (booted plain_agent (Database restart_ops) True True demo_now))) =
     [(''b'', ''r2''), (''a'', ''r3'')]"
proof -
  have n: "a_nodeID plain_agent = ''n1''" by (simp add: plain_agent_def)
  have "list_all (\<lambda>op. op \<noteq> OpRebuild) restart_ops" by (simp add: restart_ops_def)
  from restart_resumes_triggers [OF this refl, of plain_agent True demo_now] restart_pending show ?thesis by (simp add: n)
qed

section \<open>The heartbeat interval\<close>

lemma apply_response_interval:
  "a_interval (apply_response env resp s t a) =
     (if hb_HeartbeatIntervalSecs resp > 0 then i64 (hb_HeartbeatIntervalSecs resp * second) else a_interval a)"
  by (auto simp: apply_response_def Let_def sync_assignment_def persist_assignment_def sync_clock_def
      agent_applyTriggeredEvents_def case_prod_beta split: option.split sum.split)

text \<open>The interval the server sends is multiplied in 64 bits: beyond 292 years it turns negative, and the
  next reset of the ticker panics.\<close>

lemma heartbeat_interval_overflows:
  "hb_HeartbeatIntervalSecs resp = 9223372037 \<Longrightarrow> a_interval (apply_response env resp s t a) < 0"
  by (simp add: apply_response_interval second_def i64_def)

lemma heartbeat_interval_positive:
  "0 < a_interval a \<Longrightarrow> hb_HeartbeatIntervalSecs resp \<le> 9223372036 \<Longrightarrow> 0 < a_interval (apply_response env resp s t a)"
  by (simp add: apply_response_interval second_def)

end
