(* ===== verification/Store_Rollups.thy ===== *)
theory Store_Rollups
  imports Store_Results
begin

text \<open>
  Properties of maintenance: what retention may never delete and what it always deletes, and that
  the hourly rollups count every result exactly once, however the rows fall into chunks.
\<close>

section \<open>Rollups against their specification\<close>

text \<open>What a bucket should hold for a list of result rows. Latencies are summed in 64 bits.\<close>

definition latencies :: "journalRow list \<Rightarrow> int list" where
  "latencies rs = List.map_filter j_latency_us rs"

definition lmin :: "int list \<Rightarrow> int option" where
  "lmin xs = (if xs = [] then None else Some (Min (set xs)))"

definition lmax :: "int list \<Rightarrow> int option" where
  "lmax xs = (if xs = [] then None else Some (Max (set xs)))"

definition summary :: "journalRow list \<Rightarrow> rollupAgg" where
  "summary rs =
     \<lparr>ra_checks = int (length rs),
      ra_ok = int (length (filter (\<lambda>r. opt_int (j_ok r) \<noteq> 0) rs)),
      ra_errors = int (length (filter (\<lambda>r. opt_int (j_ok r) = 0) rs)),
      ra_latencySum = i64 (sum_list (latencies rs)),
      ra_latencyCount = int (length (latencies rs)),
      ra_latencyMin = lmin (latencies rs), ra_latencyMax = lmax (latencies rs)\<rparr>"

lemma lmin_append: "lmin (xs @ ys) = (case (lmin xs, lmin ys) of
    (None, n) \<Rightarrow> n | (Some m, Some n) \<Rightarrow> if n < m then Some n else Some m | (Some m, None) \<Rightarrow> Some m)"
proof (cases "xs = [] \<or> ys = []")
  case True
  then show ?thesis by (auto simp: lmin_def)
next
  case False
  define a b where "a = Min (set xs)" and "b = Min (set ys)"
  have "Min (set xs \<union> set ys) = min a b" using False by (auto simp: a_def b_def intro: Min_Un)
  then show ?thesis
    using False by (simp add: lmin_def min_def flip: a_def b_def)
qed

lemma lmax_append: "lmax (xs @ ys) = (case (lmax xs, lmax ys) of
    (None, n) \<Rightarrow> n | (Some m, Some n) \<Rightarrow> if n > m then Some n else Some m | (Some m, None) \<Rightarrow> Some m)"
proof (cases "xs = [] \<or> ys = []")
  case True
  then show ?thesis by (auto simp: lmax_def)
next
  case False
  define a b where "a = Max (set xs)" and "b = Max (set ys)"
  have "Max (set xs \<union> set ys) = max a b" using False by (auto simp: a_def b_def intro: Max_Un)
  then show ?thesis
    using False by (simp add: lmax_def max_def flip: a_def b_def)
qed

lemma lminmax_simps [simp]: "lmin [] = None" "lmax [] = None" "lmin [v] = Some v" "lmax [v] = Some v"
  by (simp_all add: lmin_def lmax_def)

lemma lminmax_None [simp]: "lmin xs = None \<longleftrightarrow> xs = []" "lmax xs = None \<longleftrightarrow> xs = []"
  by (simp_all add: lmin_def lmax_def)

lemma latencies_simps [simp]:
  "latencies [] = []" "latencies (xs @ ys) = latencies xs @ latencies ys"
  "latencies (r # rs) = (case j_latency_us r of None \<Rightarrow> [] | Some v \<Rightarrow> [v]) @ latencies rs"
  by (simp_all add: latencies_def map_filter_def split: option.splits)

lemma i64_add_left: "i64 (i64 a + b) = i64 (a + b)"
  by (simp add: i64_def algebra_simps mod_simps)

lemma in_i64_add: "in_i64 (i64 a + i64 b) \<Longrightarrow> i64 a + i64 b = i64 (a + b)"
proof -
  assume "in_i64 (i64 a + i64 b)"
  then have "i64 (i64 a + i64 b) = i64 a + i64 b" by (simp add: in_i64_def)
  moreover have "i64 (i64 a + i64 b) = i64 (a + b)"
    using i64_add_left [of a "i64 b"] i64_add_left [of b a] by (simp add: add.commute)
  ultimately show ?thesis by simp
qed

lemma summary_snoc: "agg_note r (summary rs) = summary (rs @ [r])"
proof (cases "j_latency_us r")
  case None
  then show ?thesis by (simp add: agg_note_def summary_def Let_def)
next
  case (Some v)
  with Some show ?thesis
    by (simp add: agg_note_def summary_def Let_def i64_add_left lmin_append lmax_append split: option.splits)
qed

lemma summary_fold: "fold agg_note rs zeroAgg = summary rs"
proof (induction rs rule: rev_induct)
  case Nil
  then show ?case by (simp add: zeroAgg_def summary_def i64_def)
next
  case (snoc r rs)
  then show ?case by (simp add: summary_snoc)
qed

text \<open>Merging a chunk into the table is the summary of both.\<close>

lemma upsert_summary:
  assumes "in_i64 (ra_latencySum (summary xs) + ra_latencySum (summary ys))"
  shows "upsert_agg (summary xs) (summary ys) = summary (xs @ ys)"
proof -
  have s: "i64 (sum_list (latencies xs)) + i64 (sum_list (latencies ys))
      = i64 (sum_list (latencies xs) + sum_list (latencies ys))"
    using assms by (intro in_i64_add) (simp add: summary_def)
  show ?thesis
    using s by (cases "latencies ys = []")
      (auto simp: upsert_agg_def summary_def lmin_append lmax_append split: option.splits)
qed

definition in_bucket :: "rollupKey \<Rightarrow> journalRow list \<Rightarrow> journalRow list" where
  "in_bucket k rs = filter (\<lambda>r. rollup_key r = k) rs"

definition bucket_of :: "journalRow list \<Rightarrow> rollupKey \<Rightarrow> rollupAgg option" where
  "bucket_of rs k = (if in_bucket k rs = [] then None else Some (summary (in_bucket k rs)))"

lemma summary_single: "agg_note r zeroAgg = summary [r]"
  using summary_fold [of "[r]"] by simp

lemma aggregate_rows_snoc:
  "aggregate_rows (rs @ [r]) after = aggregate_row r (aggregate_rows rs after)"
  by (simp add: aggregate_rows_def)

lemma aggregate_rows_spec:
  "map_of (fst (aggregate_rows rs after)) = bucket_of rs
    \<and> snd (aggregate_rows rs after) = fold max (map j_seq rs) after
    \<and> distinct (map fst (fst (aggregate_rows rs after)))"
proof (induction rs rule: rev_induct)
  case Nil
  then show ?case by (simp add: aggregate_rows_def bucket_of_def in_bucket_def fun_eq_iff)
next
  case (snoc r rs)
  obtain ags l where a: "aggregate_rows rs after = (ags, l)" by fastforce
  have "map_of ags (rollup_key r) = bucket_of rs (rollup_key r)" using snoc a by simp
  then have "agg_note r (case map_of ags (rollup_key r) of None \<Rightarrow> zeroAgg | Some x \<Rightarrow> x)
      = summary (in_bucket (rollup_key r) rs @ [r])"
    by (auto simp: bucket_of_def summary_snoc summary_single)
  then have "map_of (fst (aggregate_rows (rs @ [r]) after)) = (bucket_of rs)(rollup_key r \<mapsto>
      summary (in_bucket (rollup_key r) rs @ [r]))"
    using snoc a by (simp add: aggregate_rows_snoc aggregate_row_def)
  also have "\<dots> = bucket_of (rs @ [r])"
    by (auto simp: bucket_of_def in_bucket_def fun_eq_iff)
  finally show ?case using snoc a by (simp add: aggregate_rows_snoc aggregate_row_def max_def)
qed

text \<open>Upserting the aggregates of one chunk.\<close>

lemma upsert_rollups_lookup:
  "upsert_rollups ags d = Inr (u, d') \<Longrightarrow> distinct (map fst ags) \<Longrightarrow>
     map_of (db_rollups d') k = (case (map_of (db_rollups d) k, map_of ags k) of
        (None, x) \<Rightarrow> x | (Some old, None) \<Rightarrow> Some old | (Some old, Some a) \<Rightarrow> Some (upsert_agg old a))
     \<and> (\<forall>old a. map_of (db_rollups d) k = Some old \<and> map_of ags k = Some a \<longrightarrow>
          in_i64 (ra_latencySum old + ra_latencySum a))"
proof (induction ags d rule: upsert_rollups.induct)
  case (1 d)
  then show ?case by (auto split: option.splits)
next
  case (2 key agg rest d)
  have nr: "map_of rest key = None" using "2.prems"(2) by (simp add: map_of_eq_None_iff)
  show ?case
  proof (cases "map_of (db_rollups d) key")
    case None
    with "2.IH"(1) [OF None] "2.prems" nr show ?thesis by (cases "k = key") (auto split: option.splits)
  next
    case (Some old)
    with "2.IH"(2) [OF Some] "2.prems" nr show ?thesis
      by (cases "k = key") (auto split: option.splits if_splits)
  qed
qed

text \<open>The table is right for a list of rows.\<close>

definition rolled_up :: "journalRow list \<Rightarrow> db \<Rightarrow> bool" where
  "rolled_up hist d \<longleftrightarrow> (\<forall>k. map_of (db_rollups d) k = bucket_of hist k)"

lemma writeRollups_step:
  assumes "rolled_up hist d" "writeRollups (fst (aggregate_rows rs after)) expected nxt d = Inr (u, d')"
  shows "rolled_up (hist @ rs) d'"
proof -
  obtain e where e: "upsert_rollups (fst (aggregate_rows rs after)) d = Inr ((), e)"
    "d' = meta_set ''rollup_seq'' (Itoa nxt) e"
    using assms(2) by (auto simp: writeRollups_def bind_tx_Inr split: sum.splits if_splits)
  note a = aggregate_rows_spec [of rs after]
  have "map_of (db_rollups d') k = bucket_of (hist @ rs) k" for k
  proof -
    note u = upsert_rollups_lookup [OF e(1), of k]
    have h: "map_of (db_rollups d) k = bucket_of hist k" using assms(1) unfolding rolled_up_def by blast
    show ?thesis
      using u a h e(2) upsert_summary [of "in_bucket k hist" "in_bucket k rs"]
      by (auto simp: bucket_of_def in_bucket_def split: if_splits)
  qed
  then show ?thesis by (simp add: rolled_up_def)
qed

section \<open>The rollup loop\<close>

definition unrolled :: "int \<Rightarrow> db \<Rightarrow> journalRow list" where
  "unrolled after d = filter (\<lambda>r. j_kind r = KResult \<and> j_seq r > after) (db_journal d)"

lemma fold_max_ge: "(a::int) \<le> fold max ys a" "y \<in> set ys \<Longrightarrow> y \<le> fold max ys a"
  by (induction ys arbitrary: a) (auto intro: order_trans [OF max.cobounded2] order_trans [OF max.cobounded1])

lemma fold_max_in: "fold max ys (a::int) \<in> insert a (set ys)"
  by (induction ys arbitrary: a) (auto simp: max_def)

lemma filter_past_chunk:
  assumes "sorted_wrt (\<lambda>x y. j_seq x < j_seq y) xs" "\<forall>x\<in>set xs. after < j_seq x"
    and "take n xs \<noteq> []" "lst = fold max (map j_seq (take n xs)) after"
  shows "filter (\<lambda>r. j_seq r > lst) xs = drop n xs"
proof -
  have t: "\<forall>x\<in>set (take n xs). j_seq x \<le> lst" using fold_max_ge(2) assms(4) by auto
  have "lst \<in> insert after (j_seq ` set (take n xs))" using fold_max_in assms(4) by (metis set_map)
  moreover have "lst \<noteq> after"
    using t assms(2,3) set_take_subset [of n xs] by (cases "take n xs") fastforce+
  ultimately obtain y where y: "y \<in> set (take n xs)" "j_seq y = lst" by auto
  have "sorted_wrt (\<lambda>x y. j_seq x < j_seq y) (take n xs @ drop n xs)" using assms(1) by simp
  then have "\<forall>x\<in>set (drop n xs). lst < j_seq x"
    using y unfolding sorted_wrt_append by auto
  with t have "filter (\<lambda>r. j_seq r > lst) (take n xs @ drop n xs) = drop n xs"
    by (auto simp: filter_empty_conv filter_id_conv simp del: append_take_drop_id)
  then show ?thesis by simp
qed

lemma unrolled_sorted:
  "store_ok d \<Longrightarrow> sorted_wrt (\<lambda>x y. j_seq x < j_seq y) (unrolled after d)"
  by (auto simp: unrolled_def store_ok_def journal_ok_def sorted_wrt_map intro: sorted_wrt_filter)

lemma unrolled_next:
  assumes "store_ok d" "readRollupChunk after d \<noteq> []"
    and "snd (aggregate_rows (readRollupChunk after d) after) = lst" "db_journal d' = db_journal d"
  shows "unrolled after d = readRollupChunk after d @ unrolled lst d'"
    "lst \<in> j_seq ` set (db_journal d)"
proof -
  have r: "readRollupChunk after d = take rollupChunk (unrolled after d)"
    by (simp add: readRollupChunk_def unrolled_def)
  have l: "lst = fold max (map j_seq (take rollupChunk (unrolled after d))) after"
    using assms(3) aggregate_rows_spec r by metis
  have f: "filter (\<lambda>r. j_seq r > lst) (unrolled after d) = drop rollupChunk (unrolled after d)"
    by (rule filter_past_chunk [OF unrolled_sorted [OF assms(1)] _ _ l])
      (use assms(2) r in \<open>auto simp: unrolled_def\<close>)
  have "after \<le> lst" using fold_max_ge(1) l by simp
  then have "unrolled lst d' = filter (\<lambda>r. j_seq r > lst) (unrolled after d)"
    using assms(4) by (auto simp: unrolled_def intro!: filter_cong)
  with f r show "unrolled after d = readRollupChunk after d @ unrolled lst d'" by simp
  have "lst \<in> insert after (j_seq ` set (take rollupChunk (unrolled after d)))"
    using fold_max_in l by (metis set_map)
  moreover have "lst \<noteq> after"
  proof -
    obtain x where "x \<in> set (take rollupChunk (unrolled after d))"
      using assms(2) r by (metis last_in_set)
    moreover from this have "after < j_seq x" using set_take_subset by (fastforce simp: unrolled_def)
    ultimately show ?thesis
      using fold_max_ge(2) [of "j_seq x" "map j_seq (take rollupChunk (unrolled after d))" after] l by simp
  qed
  ultimately show "lst \<in> j_seq ` set (db_journal d)"
    using set_take_subset by (fastforce simp: unrolled_def)
qed

lemma writeRollups_Inl:
  "metaInt ''rollup_seq'' d = Inr after \<Longrightarrow> writeRollups ags after nxt d = Inl e \<Longrightarrow> e = ConstraintError"
proof -
  have "upsert_rollups ags d = Inl e \<Longrightarrow> e = ConstraintError" for ags d
    by (induction ags d rule: upsert_rollups.induct) (auto split: option.splits if_splits)
  then show "metaInt ''rollup_seq'' d = Inr after \<Longrightarrow> writeRollups ags after nxt d = Inl e \<Longrightarrow> e = ConstraintError"
    by (auto simp: writeRollups_def bind_tx_def split: sum.splits)
qed

lemma rollup_loop_correct:
  assumes "store_ok d" "metaInt ''rollup_seq'' d = Inr after" "db_autoinc d < 2 ^ 63"
    and "rolled_up hist d" "length (unrolled after d) < fuel"
  shows "case rollup_loop fuel quiet i after n moves d of
      (Inl e, d') \<Rightarrow> e = ConstraintError
    | (Inr m, d') \<Rightarrow> m = n + int (length (unrolled after d)) \<and> rolled_up (hist @ unrolled after d) d'
        \<and> (\<exists>cur. metaInt ''rollup_seq'' d' = Inr cur \<and> unrolled cur d' = [])"
  using assms
proof (induction fuel arbitrary: i after n moves d hist)
  case 0
  then show ?case by simp
next
  case (Suc fuel)
  let ?rows = "readRollupChunk after d"
  show ?case
  proof (cases "?rows = []")
    case True
    then have "unrolled after d = []" by (simp add: readRollupChunk_def unrolled_def rollupChunk_def)
    with True Suc.prems show ?thesis by simp
  next
    case False
    obtain ags lst where a: "aggregate_rows ?rows after = (ags, lst)" by fastforce
    show ?thesis
    proof (cases "writeRollups ags after lst d")
      case (Inl e)
      then have "e = ConstraintError" by (rule writeRollups_Inl [OF Suc.prems(2)])
      with Inl False a show ?thesis by (simp add: quiet_def Let_def)
    next
      case (Inr ud)
      obtain u d1 where w: "writeRollups ags after lst d = Inr (u, d1)" using Inr by (cases ud) auto
      note wk = writeRollups_keeps [OF Suc.prems(1) w]
      have nx: "unrolled after d = ?rows @ unrolled lst d1" "lst \<in> j_seq ` set (db_journal d)"
        using unrolled_next [OF Suc.prems(1) False, of lst d1] a wk(2) by simp_all
      have rng: "0 < lst" "lst < 2 ^ 63"
        using nx(2) Suc.prems(1,3) by (auto simp: store_ok_def journal_ok_def)
      have m: "metaInt ''rollup_seq'' d1 = Inr lst"
        using wk(4) rng by (simp add: metaInt_def ParseInt64_Itoa)
      have au: "db_autoinc d1 = db_autoinc d" using wk(1) by (simp add: keeps_def)
      have ru: "rolled_up (hist @ ?rows) d1"
        using writeRollups_step [OF Suc.prems(4), of ?rows after after lst u d1] w a by simp
      have fu: "length (unrolled lst d1) < fuel" using Suc.prems(5) nx(1) False by (cases ?rows) auto
      have st: "rollup_loop (Suc fuel) quiet i after n moves d =
          rollup_loop fuel quiet (i + 1) lst (n + int (length ?rows)) moves d1"
        using False a w by (simp add: quiet_def Let_def)
      have "db_autoinc d1 < 2 ^ 63" using Suc.prems(3) au by simp
      from Suc.IH [OF keeps_ok [OF wk(1)] m this ru fu, where i = "i + 1" and n = "n + int (length ?rows)" and moves = moves]
      show ?thesis unfolding st nx(1) by (auto split: prod.splits sum.splits)
    qed
  qed
qed

text \<open>C35. Every result is counted in its hourly bucket exactly once. If the table is right for the
  rows rolled up so far, a run ends (never for want of fuel), reports the number of new rows, and
  leaves the table right for the old and the new rows together, whatever the number of chunks;
  a second run finds nothing to do. The only failure is a 64-bit overflow of a latency sum,
  which the strict table refuses.\<close>

theorem rollupResults_exactly_once:
  assumes "store_ok d" "metaInt ''rollup_seq'' d = Inr after" "db_autoinc d < 2 ^ 63" "rolled_up hist d"
  shows "case rollupResults quiet d of
      (Inl e, d') \<Rightarrow> e = ConstraintError
    | (Inr n, d') \<Rightarrow> n = int (length (unrolled after d)) \<and> rolled_up (hist @ unrolled after d) d'
        \<and> rollupResults quiet d' = (Inr 0, d')"
proof -
  have "length (unrolled after d) < length (db_journal d) + 7"
    unfolding unrolled_def
    by (rule le_less_trans [OF length_filter_le]) simp
  note c = rollup_loop_correct [OF assms this, of 0 0 0]
  have again: "rollupResults quiet d' = (Inr 0, d')"
    if "metaInt ''rollup_seq'' d' = Inr cur" "unrolled cur d' = []" for d' cur
  proof -
    have "readRollupChunk cur d' = []" using that(2) by (simp add: readRollupChunk_def unrolled_def)
    with that(1) show ?thesis by (simp add: rollupResults_def numeral_eq_Suc)
  qed
  show ?thesis
    using c again assms(2) by (auto simp: rollupResults_def split: prod.splits sum.splits)
qed

definition rolled_demo :: db where
  "rolled_demo = snd (projr (RecordResults no_time ''n1'' 1000 [demo_result] fresh_db))"

lemma rolled_demo_ok: "store_ok rolled_demo"
proof -
  obtain su d' where r: "RecordResults no_time ''n1'' 1000 [demo_result] fresh_db = Inr (su, d')"
    by (rule RecordResults_cases [OF fresh_db_ok, of "[demo_result]" no_time "''n1''" 1000]) simp_all
  with RecordResults_ok [OF fresh_db_ok r] show ?thesis by (simp add: rolled_demo_def)
qed

theorem rollupResults_exactly_once_witness:
  "case rollupResults quiet rolled_demo of
      (Inl e, d') \<Rightarrow> e = ConstraintError
    | (Inr n, d') \<Rightarrow> n = 1 \<and> rolled_up (unrolled 0 rolled_demo) d' \<and> rollupResults quiet d' = (Inr 0, d')"
proof -
  have "metaInt ''rollup_seq'' rolled_demo = Inr 0" "db_autoinc rolled_demo < 2 ^ 63"
    "db_rollups rolled_demo = []" "length (unrolled 0 rolled_demo) = 1"
    by code_simp+
  moreover from this have "rolled_up [] rolled_demo"
    by (simp add: rolled_up_def bucket_of_def in_bucket_def)
  ultimately show ?thesis using rollupResults_exactly_once [OF rolled_demo_ok, of 0 "[]"]
    by (auto split: prod.splits sum.splits)
qed

section \<open>Retention\<close>

text \<open>C40. Maintenance never loses what the node still needs, on success and on failure alike: an
  undelivered result, the event of a queued trigger and the newest assignment of each origin stay
  in the journal whatever the retention and the byte budget, the trigger queue, the probes and
  the sequence counters are untouched, and no row is invented.\<close>

theorem Maintain_keeps_needed:
  assumes "store_ok d" "Maintain quiet live freelist now opts d = (res, d')"
  shows "db_pending d' = db_pending d \<and> db_probes d' = db_probes d \<and> db_sequences d' = db_sequences d
    \<and> set (db_journal d') \<subseteq> set (db_journal d)
    \<and> (\<forall>r\<in>set (db_journal d). j_kind r = KResult \<and> j_delivery_state r = 0 \<longrightarrow> r \<in> set (db_journal d'))
    \<and> (\<forall>r\<in>set (db_journal d). \<forall>q\<in>set (db_pending d). trigger_event q r \<longrightarrow> r \<in> set (db_journal d'))
    \<and> (\<forall>r\<in>set (db_journal d). j_kind r = KAssignment \<and> newest d r \<longrightarrow> r \<in> set (db_journal d'))"
proof -
  have k: "keeps d d'" using Maintain_keeps [OF assms(1)] assms(2) by (metis snd_conv)
  have "trigger_event q r \<Longrightarrow> q \<in> set (db_pending d) \<Longrightarrow> \<not> prunable d r \<and> j_kind r \<noteq> KAssignment" for q r
    using event_not_prunable by (auto simp: trigger_event_def)
  with k show ?thesis by (auto simp: keeps_def prunable_def)
qed

theorem Maintain_keeps_needed_witness:
  "hd (db_journal rolled_demo)
     \<in> set (db_journal (snd (Maintain quiet (\<lambda>_. 10) (\<lambda>_. 0) (2000000 * second)
        \<lparr>mo_Retention = second, mo_MaxBytes = 1\<rparr> rolled_demo)))"
proof -
  have row: "hd (db_journal rolled_demo) \<in> set (db_journal rolled_demo)"
    "j_kind (hd (db_journal rolled_demo)) = KResult" "j_delivery_state (hd (db_journal rolled_demo)) = 0"
    by code_simp+
  from Maintain_keeps_needed [OF rolled_demo_ok surjective_pairing] row show ?thesis by blast
qed

end
