(* ===== verification/Placeholder.thy ===== *)
theory Placeholder
  imports Wire
begin

text \<open>
  The argument templates of a module (\<^verbatim>\<open>internal/module/placeholder.go\<close>): the tokens
  \<^verbatim>\<open>{{name}}\<close> of an argument, the names a module may use, and their substitution by the
  values of one execution. The regular expression \<^verbatim>\<open>placeholderRe\<close> is written as a scanner: its
  three character classes are disjoint, so greedy matching never backtracks.
\<close>

section \<open>Tokens\<close>

definition is_alnum :: "char \<Rightarrow> bool" where
  "is_alnum c = (let n = of_char c :: nat in 97 \<le> n \<and> n \<le> 122 \<or> 65 \<le> n \<and> n \<le> 90 \<or> 48 \<le> n \<and> n \<le> 57)"

definition token_char :: "char \<Rightarrow> bool" where
  "token_char c \<longleftrightarrow> is_alnum c \<or> c = CHR ''_'' \<or> c = CHR ''.''"

definition re_space :: "char \<Rightarrow> bool" where
  "re_space c = (let n = of_char c :: nat in n = 9 \<or> n = 10 \<or> n = 12 \<or> n = 13 \<or> n = 32)"

text \<open>A match at the front of a string: the name and what follows the token.\<close>

definition match_token :: "string \<Rightarrow> (string \<times> string) option" where
  "match_token s =
     (if HasPrefix s ''{{'' then
        (let a = dropWhile re_space (drop 2 s);
             name = takeWhile token_char a;
             b = dropWhile re_space (dropWhile token_char a)
         in if name \<noteq> [] \<and> HasPrefix b ''}}'' then Some (name, drop 2 b) else None)
      else None)"

datatype piece = Lit char | Token (token_name: string) (token_text: string)

lemma match_token_shorter: "match_token s = Some (name, rest) \<Longrightarrow> length rest + 4 \<le> length s"
proof -
  assume m: "match_token s = Some (name, rest)"
  define a where "a = dropWhile re_space (drop 2 s)"
  define b where "b = dropWhile re_space (dropWhile token_char a)"
  from m have r: "rest = drop 2 b" "HasPrefix b ''}}''" "HasPrefix s ''{{''"
    by (auto simp: match_token_def a_def b_def Let_def split: if_splits)
  have "length b \<le> length a" unfolding b_def
    using length_dropWhile_le [of re_space "dropWhile token_char a"] length_dropWhile_le [of token_char a] by linarith
  moreover have "length a \<le> length s - 2" unfolding a_def
    using length_dropWhile_le [of re_space "drop 2 s"] by simp
  ultimately show ?thesis using r by (auto simp: HasPrefix_conv)
qed

text \<open>All matches, leftmost first and none overlapping, with the text between them.\<close>

function scan :: "string \<Rightarrow> piece list" where
  "scan [] = []"
| "scan (c # s) =
     (case match_token (c # s) of
        None \<Rightarrow> Lit c # scan s
      | Some (name, rest) \<Rightarrow> Token name (take (length (c # s) - length rest) (c # s)) # scan rest)"
  by pat_completeness auto
termination
  by (relation "measure length") (auto dest: match_token_shorter)

declare scan.simps(2) [simp del]

section \<open>Names\<close>

definition fixedPlaceholders :: "string list" where
  "fixedPlaceholders =
     [''target'', ''timeout_ms'', ''params_json'', ''alloc_port'', ''source_ip'', ''bind_interface'',
      ''jobs_json'', ''config_path'']"

definition is_param :: "string \<Rightarrow> bool" where
  "is_param name \<longleftrightarrow> HasPrefix name ''param.'' \<and> drop 6 name \<noteq> [] \<and>
     list_all (\<lambda>c. is_alnum c \<or> c = CHR ''_'' \<or> c = CHR ''-'') (drop 6 name)"

definition known_name :: "string \<Rightarrow> bool" where
  "known_name name \<longleftrightarrow> name \<in> set fixedPlaceholders \<or> is_param name"

fun token_names :: "piece list \<Rightarrow> string list" where
  "token_names [] = []"
| "token_names (Lit c # ps) = token_names ps"
| "token_names (Token n t # ps) = n # token_names ps"

text \<open>\<open>Some name\<close>: the first unrecognised placeholder of the argument.\<close>

definition validatePlaceholders :: "string \<Rightarrow> string option" where
  "validatePlaceholders arg = List.find (\<lambda>name. \<not> known_name name) (token_names (scan arg))"

section \<open>Substitution\<close>

record execContext =
  ec_Target :: string
  ec_TimeoutMs :: int
  ec_Params :: gomap
  ec_ParamsJSONPath :: string
  ec_AllocPort :: int
  ec_JobsJSONPath :: string
  ec_ConfigPath :: string
  ec_Bind :: Binding

text \<open>The printed forms of an address and of a float.\<close>

record printers =
  pr_addr :: "addr \<Rightarrow> string"
  pr_float :: "gofloat \<Rightarrow> string"

definition stringifyParam :: "printers \<Rightarrow> goval option \<Rightarrow> string" where
  "stringifyParam pr v =
     (case v of None \<Rightarrow> [] | Some GNil \<Rightarrow> [] | Some (GStr s) \<Rightarrow> s | Some w \<Rightarrow> fmt_v (pr_float pr) w)"

definition token_value :: "printers \<Rightarrow> execContext \<Rightarrow> string \<Rightarrow> string \<Rightarrow> string" where
  "token_value pr ec name token =
     (if name = ''target'' then ec_Target ec
      else if name = ''timeout_ms'' then Itoa (ec_TimeoutMs ec)
      else if name = ''params_json'' then ec_ParamsJSONPath ec
      else if name = ''alloc_port'' then Itoa (ec_AllocPort ec)
      else if name = ''source_ip'' then (case SourceIP (ec_Bind ec) of Some a \<Rightarrow> pr_addr pr a | None \<Rightarrow> [])
      else if name = ''bind_interface'' then Interface (ec_Bind ec)
      else if name = ''jobs_json'' then ec_JobsJSONPath ec
      else if name = ''config_path'' then ec_ConfigPath ec
      else if is_param name then stringifyParam pr (map_of (ec_Params ec) (drop 6 name))
      else token)"

fun render :: "printers \<Rightarrow> execContext \<Rightarrow> piece \<Rightarrow> string" where
  "render pr ec (Lit c) = [c]"
| "render pr ec (Token name token) = token_value pr ec name token"

definition resolve_arg :: "printers \<Rightarrow> execContext \<Rightarrow> string \<Rightarrow> string" where
  "resolve_arg pr ec arg = concat (map (render pr ec) (scan arg))"

definition resolve :: "printers \<Rightarrow> execContext \<Rightarrow> string list \<Rightarrow> string list" where
  "resolve pr ec argv = map (resolve_arg pr ec) argv"

section \<open>The scanner\<close>

fun piece_text :: "piece \<Rightarrow> string" where
  "piece_text (Lit c) = [c]"
| "piece_text (Token name token) = token"

lemma match_token_split:
  assumes "match_token s = Some (name, rest)"
  shows "\<exists>t. s = t @ rest"
proof -
  define a where "a = dropWhile re_space (drop 2 s)"
  define b where "b = dropWhile re_space (dropWhile token_char a)"
  have suf: "suffix (drop n xs) xs" "suffix (dropWhile P xs) xs" for n P and xs :: string
    by (simp_all add: suffix_drop suffix_dropWhile)
  from assms have "rest = drop 2 b" by (auto simp: match_token_def a_def b_def Let_def split: if_splits)
  moreover have "suffix b s" unfolding b_def a_def using suf suffix_order.trans by blast
  ultimately have "suffix rest s" using suf suffix_order.trans by blast
  then show ?thesis by (auto simp: suffix_def)
qed

lemma scan_step:
  assumes "match_token s = Some (name, rest)" "s = t @ rest"
  shows "scan s = Token name t # scan rest"
proof -
  obtain c cs where "s = c # cs" using match_token_shorter [OF assms(1)] by (cases s) auto
  moreover have "take (length s - length rest) s = t" using assms(2) by simp
  ultimately show ?thesis using assms(1) by (simp add: scan.simps)
qed

lemma scan_lossless: "concat (map piece_text (scan s)) = s"
proof (induction s rule: scan.induct)
  case (2 c s)
  show ?case
  proof (cases "match_token (c # s)")
    case None
    with 2 show ?thesis by (simp add: scan.simps)
  next
    case (Some m)
    then obtain name rest where m: "match_token (c # s) = Some (name, rest)" by (cases m) auto
    from match_token_split [OF m] obtain t where "c # s = t @ rest" by blast
    moreover from m 2 have "concat (map piece_text (scan rest)) = rest" by blast
    ultimately show ?thesis using scan_step [OF m] by simp
  qed
qed simp

lemma match_token_brace: "c \<noteq> CHR ''{'' \<Longrightarrow> match_token (c # s) = None"
  by (auto simp: match_token_def HasPrefix_conv)

lemma scan_plain: "CHR ''{'' \<notin> set u \<Longrightarrow> scan (u @ s) = map Lit u @ scan s"
  by (induction u) (auto simp: scan.simps match_token_brace)

lemma re_space_braces: "\<not> re_space (CHR ''}'')" "\<not> token_char (CHR ''}'')"
  by (simp_all add: re_space_def token_char_def is_alnum_def)

lemma span_append:
  assumes "list_all P xs" "ys = [] \<or> \<not> P (hd ys)"
  shows "takeWhile P (xs @ ys) = xs" "dropWhile P (xs @ ys) = ys"
  using assms by (induction xs) (auto simp: takeWhile_eq_Nil_iff dropWhile_eq_self_iff)

lemma token_char_not_space: "token_char c \<Longrightarrow> \<not> re_space c"
  by (auto simp: token_char_def re_space_def is_alnum_def Let_def)

text \<open>The shape of a placeholder, the way the expression is written.\<close>

definition token_of :: "string \<Rightarrow> string \<Rightarrow> string \<Rightarrow> string" where
  "token_of sp name sp' = ''{{'' @ sp @ name @ sp' @ ''}}''"

definition token_shape :: "string \<Rightarrow> string \<Rightarrow> string \<Rightarrow> bool" where
  "token_shape sp name sp' \<longleftrightarrow> list_all re_space sp \<and> list_all re_space sp' \<and> name \<noteq> [] \<and> list_all token_char name"

lemma match_token_of:
  assumes "token_shape sp name sp'"
  shows "match_token (token_of sp name sp' @ v) = Some (name, v)"
proof -
  from assms obtain c cs where n: "name = c # cs" "token_char c" by (cases name) (auto simp: token_shape_def)
  have *: "sp' @ ''}}'' @ v = [] \<or> \<not> token_char (hd (sp' @ ''}}'' @ v))"
    using assms token_char_not_space re_space_braces
    by (cases sp') (auto simp: token_shape_def)
  have a: "dropWhile re_space (sp @ name @ sp' @ ''}}'' @ v) = name @ sp' @ ''}}'' @ v"
    using assms n token_char_not_space by (intro span_append) (auto simp: token_shape_def)
  have t: "takeWhile token_char (name @ sp' @ ''}}'' @ v) = name"
    "dropWhile token_char (name @ sp' @ ''}}'' @ v) = sp' @ ''}}'' @ v"
    using assms * span_append [of token_char name] unfolding token_shape_def by blast+
  have b: "dropWhile re_space (sp' @ ''}}'' @ v) = ''}}'' @ v"
    using assms re_space_braces by (intro span_append) (auto simp: token_shape_def)
  from a t b n show ?thesis by (simp add: match_token_def token_of_def Let_def HasPrefix_conv)
qed

lemma scan_token_of:
  "token_shape sp name sp' \<Longrightarrow> scan (token_of sp name sp' @ v) = Token name (token_of sp name sp') # scan v"
  by (rule scan_step [OF match_token_of]) simp_all

section \<open>Substitution is one pass over the template\<close>

lemma resolve_arg_plain: "CHR ''{'' \<notin> set u \<Longrightarrow> resolve_arg pr ec (u @ s) = u @ resolve_arg pr ec s"
  by (simp add: resolve_arg_def scan_plain o_def)

lemma resolve_arg_token:
  "token_shape sp name sp' \<Longrightarrow>
     resolve_arg pr ec (token_of sp name sp' @ v) = token_value pr ec name (token_of sp name sp') @ resolve_arg pr ec v"
  by (simp add: resolve_arg_def scan_token_of)

lemma scan_tokens:
  "Token name t \<in> set (scan s) \<Longrightarrow> \<exists>sp sp'. token_shape sp name sp' \<and> t = token_of sp name sp'"
proof (induction s rule: scan.induct)
  case (2 c s)
  show ?case
  proof (cases "match_token (c # s)")
    case None
    with 2 show ?thesis by (simp add: scan.simps)
  next
    case (Some m)
    then obtain name' rest where m: "match_token (c # s) = Some (name', rest)" by (cases m) auto
    define a where "a = dropWhile re_space (drop 2 (c # s))"
    define b where "b = dropWhile token_char a"
    let ?sp = "takeWhile re_space (drop 2 (c # s))" and ?sp' = "takeWhile re_space b"
    from m have pre: "HasPrefix (c # s) ''{{''" "name' = takeWhile token_char a" "name' \<noteq> []"
      "HasPrefix (dropWhile re_space b) ''}}''" "rest = drop 2 (dropWhile re_space b)"
      by (auto simp: match_token_def a_def b_def Let_def split: if_splits)
    have "c # s = ''{{'' @ drop 2 (c # s)" using pre(1) by (auto simp: HasPrefix_conv)
    moreover have "drop 2 (c # s) = ?sp @ a" by (simp add: a_def)
    moreover have "a = name' @ b" by (simp add: pre(2) b_def)
    moreover have "b = ?sp' @ dropWhile re_space b" by simp
    moreover have "dropWhile re_space b = ''}}'' @ rest" using pre(4,5) by (auto simp: HasPrefix_conv)
    ultimately have split: "c # s = token_of ?sp name' ?sp' @ rest"
      by (metis append_assoc token_of_def)
    have shape: "token_shape ?sp name' ?sp'"
      using pre(2,3) by (auto simp: token_shape_def list_all_iff dest: set_takeWhileD)
    from m 2 have "Token name t \<in> set (scan rest) \<Longrightarrow> ?thesis" by blast
    with 2(3) scan_step [OF m split] shape show ?thesis by auto
  qed
qed simp

lemma known_value: "known_name name \<Longrightarrow> token_value pr ec name t = token_value pr ec name t'"
  by (auto simp: known_name_def fixedPlaceholders_def token_value_def)

lemma token_names_append [simp]: "token_names (ps @ qs) = token_names ps @ token_names qs"
  by (induction ps rule: token_names.induct) auto

lemma token_names_Lit [simp]: "token_names (map Lit u) = []"
  by (induction u) auto

lemma set_token_names: "name \<in> set (token_names ps) \<longleftrightarrow> (\<exists>t. Token name t \<in> set ps)"
  by (induction ps rule: token_names.induct) auto

lemma validatePlaceholders_None:
  "validatePlaceholders arg = None \<longleftrightarrow> (\<forall>name t. Token name t \<in> set (scan arg) \<longrightarrow> known_name name)"
  by (auto simp: validatePlaceholders_def find_None_iff set_token_names)

lemma length_resolve [simp]: "length (resolve pr ec argv) = length argv"
  by (simp add: resolve_def)


definition demo_printers :: printers where
  "demo_printers = \<lparr>pr_addr = \<lambda>_. ''10.0.0.1'', pr_float = \<lambda>_. ''1.5''\<rparr>"

definition demo_context :: execContext where
  "demo_context = \<lparr>ec_Target = ''{{alloc_port}}'', ec_TimeoutMs = 5000, ec_Params = [(''sni'', GStr ''{{target}}'')],
     ec_ParamsJSONPath = ''/tmp/p'', ec_AllocPort = 1080, ec_JobsJSONPath = [], ec_ConfigPath = [],
     ec_Bind = \<lparr>SourceIP = None, Interface = ''eth0''\<rparr>\<rparr>"


text \<open>The fallback of the switch is never taken for a template that was validated: what a token
  resolves to does not depend on its own text.\<close>

lemma validated_token_value:
  assumes "validatePlaceholders arg = None" "Token name t \<in> set (scan arg)"
  shows "token_value pr ec name t = token_value pr ec name t'"
  using assms by (intro known_value) (auto simp: validatePlaceholders_None)

text \<open>A parameter whose name contains a hyphen is a well-formed reference by
  \<^verbatim>\<open>paramPlaceholderRe\<close>, yet \<^verbatim>\<open>placeholderRe\<close> does not match it: the template is accepted at
  load time and the command runs with the token left in place.\<close>

theorem hyphen_param_ignored:
  "is_param ''param.my-key'' \<and> validatePlaceholders ''{{param.my-key}}'' = None
   \<and> resolve_arg pr ec ''{{param.my-key}}'' = ''{{param.my-key}}''"
proof -
  have "scan ''{{param.my-key}}'' = map Lit ''{{param.my-key}}''" by code_simp
  moreover have "is_param ''param.my-key''" by code_simp
  ultimately show ?thesis by (simp add: validatePlaceholders_def resolve_arg_def)
qed

end
