(* ===== verification/Schema.thy ===== *)
theory Schema
  imports Wire
begin

text \<open>
  The data forms of a module (\<^verbatim>\<open>internal/module/schema.go\<close>): well-formedness of the declared
  request and response fields, and the check of a probe's parameters against the request form.
  \<^verbatim>\<open>strconv.ParseFloat\<close> is an argument.
\<close>

record FieldSchema =
  fs_Name :: string
  fs_Type :: string
  fs_Required :: bool
  fs_Unit :: string
  fs_Primary :: bool
  fs_Summary :: bool
  fs_Group :: string
  fs_Display :: string

definition validFieldTypes :: "string list" where
  "validFieldTypes = [''string'', ''number'', ''bool'', ''object'', ''array'']"

datatype schemaError =
    FieldMissingName
  | FieldDuplicate string
  | FieldBadType string
  | PrimaryOnRequest string
  | PrimaryNotNumber string
  | SummaryOnRequest string
  | SummaryNotNumber string
  | ManyPrimaries nat

fun field_loop :: "string \<Rightarrow> FieldSchema list \<Rightarrow> string list \<Rightarrow> nat \<Rightarrow> schemaError option" where
  "field_loop which [] seen primaryCount =
     (if primaryCount > 1 then Some (ManyPrimaries primaryCount) else None)"
| "field_loop which (f # fs) seen primaryCount =
     (if fs_Name f = [] then Some FieldMissingName
      else if fs_Name f \<in> set seen then Some (FieldDuplicate (fs_Name f))
      else if fs_Type f \<notin> set validFieldTypes then Some (FieldBadType (fs_Name f))
      else if fs_Primary f \<and> which = ''request'' then Some (PrimaryOnRequest (fs_Name f))
      else if fs_Primary f \<and> fs_Type f \<noteq> ''number'' then Some (PrimaryNotNumber (fs_Name f))
      else if fs_Summary f \<and> which = ''request'' then Some (SummaryOnRequest (fs_Name f))
      else if fs_Summary f \<and> fs_Type f \<noteq> ''number'' then Some (SummaryNotNumber (fs_Name f))
      else field_loop which fs (fs_Name f # seen) (if fs_Primary f then primaryCount + 1 else primaryCount))"

definition validateFieldSchema :: "FieldSchema list \<Rightarrow> string \<Rightarrow> schemaError option" where
  "validateFieldSchema form which = field_loop which form [] 0"

section \<open>Parameters of a request\<close>

definition matchesType :: "(string \<Rightarrow> gofloat option) \<Rightarrow> goval \<Rightarrow> string \<Rightarrow> bool" where
  "matchesType ParseFloat v wantType =
     (if wantType = ''string'' then (case v of GStr s \<Rightarrow> True | _ \<Rightarrow> False)
      else if wantType = ''bool'' then
        (case v of GBool b \<Rightarrow> True | GStr s \<Rightarrow> s = ''true'' \<or> s = ''false'' | _ \<Rightarrow> False)
      else if wantType = ''number'' then
        (case v of GInt i \<Rightarrow> True | GFloat x \<Rightarrow> True | GStr s \<Rightarrow> ParseFloat s \<noteq> None | _ \<Rightarrow> False)
      else if wantType = ''object'' then (case v of GObj m \<Rightarrow> True | _ \<Rightarrow> False)
      else if wantType = ''array'' then (case v of GArr vs \<Rightarrow> True | _ \<Rightarrow> False)
      else False)"

fun validateRequest :: "(string \<Rightarrow> gofloat option) \<Rightarrow> FieldSchema list \<Rightarrow> gomap \<Rightarrow> string option" where
  "validateRequest ParseFloat [] params = None"
| "validateRequest ParseFloat (f # fs) params =
     (let v = (case map_of params (fs_Name f) of None \<Rightarrow> GNil | Some v \<Rightarrow> v) in
      if v = GNil then
        (if fs_Required f then Some (''missing required param '' @ go_quote (fs_Name f))
         else validateRequest ParseFloat fs params)
      else if \<not> matchesType ParseFloat v (fs_Type f)
      then Some (''param '' @ go_quote (fs_Name f) @ '' must be a '' @ fs_Type f)
      else validateRequest ParseFloat fs params)"

section \<open>What the loops decide\<close>

text \<open>A well-formed form, as a property of the whole list.\<close>

definition form_ok :: "string \<Rightarrow> FieldSchema list \<Rightarrow> bool" where
  "form_ok which form \<longleftrightarrow>
     distinct (map fs_Name form) \<and>
     (\<forall>f\<in>set form. fs_Name f \<noteq> [] \<and> fs_Type f \<in> set validFieldTypes \<and>
        (fs_Primary f \<or> fs_Summary f \<longrightarrow> which \<noteq> ''request'' \<and> fs_Type f = ''number'')) \<and>
     length (filter fs_Primary form) \<le> 1"

lemma field_loop_None:
  "field_loop which form seen n = None \<longleftrightarrow>
     distinct (map fs_Name form) \<and> (fs_Name ` set form) \<inter> set seen = {} \<and>
     (\<forall>f\<in>set form. fs_Name f \<noteq> [] \<and> fs_Type f \<in> set validFieldTypes \<and>
        (fs_Primary f \<or> fs_Summary f \<longrightarrow> which \<noteq> ''request'' \<and> fs_Type f = ''number'')) \<and>
     n + length (filter fs_Primary form) \<le> 1"
proof (induction form arbitrary: seen n)
  case (Cons f fs)
  show ?case unfolding field_loop.simps by (auto simp: Cons.IH)
qed auto

lemma validateFieldSchema_None: "validateFieldSchema form which = None \<longleftrightarrow> form_ok which form"
  by (simp add: validateFieldSchema_def form_ok_def field_loop_None)

text \<open>A parameter value that fits its field.\<close>

definition param_ok :: "(string \<Rightarrow> gofloat option) \<Rightarrow> gomap \<Rightarrow> FieldSchema \<Rightarrow> bool" where
  "param_ok ParseFloat params f \<longleftrightarrow>
     (case map_of params (fs_Name f) of
        None \<Rightarrow> \<not> fs_Required f
      | Some v \<Rightarrow> if v = GNil then \<not> fs_Required f else matchesType ParseFloat v (fs_Type f))"

lemma validateRequest_None:
  "validateRequest ParseFloat form params = None \<longleftrightarrow> list_all (param_ok ParseFloat params) form"
  by (induction form) (auto simp: param_ok_def Let_def split: option.splits)

text \<open>The single scan over a form accepts exactly the well-formed ones: every field is named once
  and has a known type, the display marks are on numeric response form only and at most one field
  is primary.\<close>

theorem validateFieldSchema_iff: "validateFieldSchema form which = None \<longleftrightarrow> form_ok which form"
  by (rule validateFieldSchema_None)

end
