(* ===== verification/Module_Def.thy ===== *)
theory Module_Def
  imports Placeholder Schema
begin

text \<open>
  Module definitions (\<^verbatim>\<open>internal/module/module.go\<close>, and the action names of
  \<^verbatim>\<open>internal/action/action.go\<close>): validation, the loading of a directory, the resolution of
  directory and platform placeholders. The YAML decoder, the compilation of a regular expression
  and SHA-256 are arguments. A compiled expression is known by the names of its groups and by its
  leftmost match, which has one entry per group.
\<close>

section \<open>Data\<close>

record Step =
  step_Command :: "string list"
  step_Timeout :: duration

record PoolLimits =
  pl_TestConcurrency :: int
  pl_MaxJobsPerInstance :: int
  pl_PortBase :: int
  pl_PortSpan :: int

definition limits_testConcurrency :: "PoolLimits \<Rightarrow> int \<Rightarrow> int" where
  "limits_testConcurrency l moduleValue =
     (if pl_TestConcurrency l > 0 \<and> pl_TestConcurrency l < moduleValue then pl_TestConcurrency l else moduleValue)"

definition limits_maxJobsPerInstance :: "PoolLimits \<Rightarrow> int \<Rightarrow> int" where
  "limits_maxJobsPerInstance l moduleValue =
     (if pl_MaxJobsPerInstance l > 0 \<and> pl_MaxJobsPerInstance l < moduleValue then pl_MaxJobsPerInstance l
      else moduleValue)"

record PoolSpec =
  po_MaxJobsPerInstance :: int
  po_TestConcurrency :: int
  po_BuildConfig :: "Step option"
  po_Start :: "Step option"
  po_Stop :: "Step option"

record Collect =
  co_Format :: string
  co_Pattern :: string

record goregex =
  re_names :: "string list"
  re_find :: "string \<Rightarrow> string list option"

record InstallDependency =
  dep_Name :: string
  dep_Version :: string
  dep_Kind :: string
  dep_URL :: string
  dep_Path :: string

record Module =
  m_Name :: string
  m_Engine :: string
  m_EngineVersion :: string
  m_Version :: string
  m_URL :: string
  m_OS :: "string list"
  m_Arch :: "string list"
  m_Install :: "InstallDependency list"
  m_Action :: string
  m_Prepare :: "Step option"
  m_Run :: "Step option"
  m_Collect :: Collect
  m_Teardown :: "Step option"
  m_Pool :: "PoolSpec option"
  m_MinTimeoutMs :: int
  m_Request :: "FieldSchema list"
  m_Response :: "FieldSchema list"
  m_RawYAML :: string
  m_FileHash :: string
  m_compiledPattern :: "goregex option"

section \<open>Install dependencies\<close>

definition IsFile :: "InstallDependency \<Rightarrow> bool" where
  "IsFile d \<longleftrightarrow> dep_Kind d = ''file''"

text \<open>\<^verbatim>\<open>strings.Replacer\<close>: at every position the first pair whose key is a prefix is applied.\<close>

function Replacer :: "(string \<times> string) list \<Rightarrow> string \<Rightarrow> string" where
  "Replacer ps s =
     (if s = [] then []
      else (case List.find (\<lambda>(k, v). k \<noteq> [] \<and> HasPrefix s k) ps of
              None \<Rightarrow> hd s # Replacer ps (tl s)
            | Some (k, v) \<Rightarrow> v @ Replacer ps (drop (length k) s)))"
  by pat_completeness auto
termination
  by (relation "measure (\<lambda>(ps, s). length s)") (auto simp: find_Some_iff)

declare Replacer.simps [simp del]

definition ResolveURL :: "InstallDependency \<Rightarrow> string \<Rightarrow> string \<Rightarrow> string" where
  "ResolveURL d goos arch =
     Replacer [(''{os}'', goos), (''{arch}'', arch),
               (''{ext}'', if goos = ''windows'' then ''zip'' else ''tar.gz''),
               (''{version}'', dep_Version d)] (dep_URL d)"

section \<open>Validation\<close>

definition is_lower :: "char \<Rightarrow> bool" where
  "is_lower c = (let n = of_char c :: nat in 97 \<le> n \<and> n \<le> 122)"

definition name_matches :: "string \<Rightarrow> bool" where
  "name_matches name \<longleftrightarrow> name \<noteq> [] \<and> is_lower (hd name) \<and>
     list_all (\<lambda>c. is_lower c \<or> is_digit c \<or> c = CHR ''-'') (tl name)"

definition withMinTimeout :: "Module \<Rightarrow> duration \<Rightarrow> duration" where
  "withMinTimeout m timeout =
     (let minimum = i64 (m_MinTimeoutMs m * millisecond) in if minimum > timeout then minimum else timeout)"

text \<open>The keys of \<^verbatim>\<open>action.Registry\<close>.\<close>

definition action_names :: "string list" where
  "action_names = [''tcp_connect'', ''udp_probe'', ''dns_query'', ''icmp_ping'', ''http_request'',
     ''system_stats'', ''http_fetch'', ''proxy_connect'']"

datatype moduleError =
    BadName | NegativeMinTimeout
  | RequestForm schemaError | ResponseForm schemaError
  | DepNoName nat | DepNoURL nat | DepBadKind nat | DepNoPath nat
  | ActionAndRun | NeitherActionNorRun | UnknownAction | ActionWithSteps | ActionWithPool
  | PoolWithSteps | PoolNoRun | PoolMaxJobs | PoolConcurrency | PoolNoBuild | PoolNoStart
  | BadPlaceholder | PatternUnused | BadPattern | NoLatencyGroup | BadFormat
  | ParseYAML | ReadFile | ReadDirectory | StatDirectory | DuplicateModule string

fun validate_install :: "nat \<Rightarrow> InstallDependency list \<Rightarrow> moduleError option" where
  "validate_install i [] = None"
| "validate_install i (dep # deps) =
     (if dep_Name dep = [] then Some (DepNoName i)
      else if dep_URL dep = [] then Some (DepNoURL i)
      else if dep_Kind dep \<noteq> [] \<and> dep_Kind dep \<noteq> ''binary'' \<and> dep_Kind dep \<noteq> ''file'' then Some (DepBadKind i)
      else if dep_Path dep = [] then Some (DepNoPath i)
      else validate_install (i + 1) deps)"

definition has_command :: "Step option \<Rightarrow> bool" where
  "has_command step = (case step of None \<Rightarrow> False | Some s \<Rightarrow> step_Command s \<noteq> [])"

definition validatePool :: "Module \<Rightarrow> moduleError option" where
  "validatePool m =
     (case m_Pool m of
        None \<Rightarrow> None
      | Some pool \<Rightarrow>
          if m_Prepare m \<noteq> None \<or> m_Teardown m \<noteq> None then Some PoolWithSteps
          else if \<not> has_command (m_Run m) then Some PoolNoRun
          else if po_MaxJobsPerInstance pool \<le> 0 then Some PoolMaxJobs
          else if po_TestConcurrency pool \<le> 0 then Some PoolConcurrency
          else if \<not> has_command (po_BuildConfig pool) then Some PoolNoBuild
          else if \<not> has_command (po_Start pool) then Some PoolNoStart
          else None)"

definition module_steps :: "Module \<Rightarrow> Step list" where
  "module_steps m =
     List.map_filter (\<lambda>s. s) ([m_Prepare m, m_Run m, m_Teardown m] @
       (case m_Pool m of None \<Rightarrow> [] | Some pool \<Rightarrow> [po_BuildConfig pool, po_Start pool, po_Stop pool]))"

definition hasGroup :: "goregex \<Rightarrow> string \<Rightarrow> bool" where
  "hasGroup re name \<longleftrightarrow> name \<in> set (re_names re)"

definition validate_collect :: "(string \<Rightarrow> goregex option) \<Rightarrow> Module \<Rightarrow> moduleError + Module" where
  "validate_collect compile m =
     (if co_Format (m_Collect m) = ''writeout_json'' then
        (if co_Pattern (m_Collect m) \<noteq> [] then Inl PatternUnused else Inr m)
      else if co_Format (m_Collect m) = ''regex'' then
        (case compile (co_Pattern (m_Collect m)) of
           None \<Rightarrow> Inl BadPattern
         | Some re \<Rightarrow> if \<not> hasGroup re ''latency_ms'' then Inl NoLatencyGroup
                     else Inr (m\<lparr>m_compiledPattern := Some re\<rparr>))
      else Inl BadFormat)"

text \<open>The part of \<^verbatim>\<open>validate\<close> before the choice between action and command.\<close>

definition validate_common :: "Module \<Rightarrow> moduleError option" where
  "validate_common m =
     (if \<not> name_matches (m_Name m) then Some BadName
      else if m_MinTimeoutMs m < 0 then Some NegativeMinTimeout
      else (case validateFieldSchema (m_Request m) ''request'' of
              Some e \<Rightarrow> Some (RequestForm e)
            | None \<Rightarrow> (case validateFieldSchema (m_Response m) ''response'' of
                         Some e \<Rightarrow> Some (ResponseForm e)
                       | None \<Rightarrow> validate_install 0 (m_Install m))))"

definition validate :: "(string \<Rightarrow> goregex option) \<Rightarrow> Module \<Rightarrow> moduleError + Module" where
  "validate compile m =
     (case validate_common m of
        Some e \<Rightarrow> Inl e
      | None \<Rightarrow>
          let hasAction = m_Action m \<noteq> []; hasRun = has_command (m_Run m) in
          if hasAction \<and> hasRun then Inl ActionAndRun
          else if \<not> hasAction \<and> \<not> hasRun then Inl NeitherActionNorRun
          else if hasAction then
            (if m_Action m \<notin> set action_names then Inl UnknownAction
             else if m_Prepare m \<noteq> None \<or> m_Teardown m \<noteq> None then Inl ActionWithSteps
             else if m_Pool m \<noteq> None then Inl ActionWithPool
             else Inr m)
          else (case validatePool m of
                  Some e \<Rightarrow> Inl e
                | None \<Rightarrow>
                    if list_ex (\<lambda>s. list_ex (\<lambda>arg. validatePlaceholders arg \<noteq> None) (step_Command s)) (module_steps m)
                    then Inl BadPlaceholder
                    else validate_collect compile m))"

section \<open>Manifests\<close>

record Manifest =
  mf_Name :: string
  mf_Engine :: string
  mf_EngineVersion :: string
  mf_Action :: string
  mf_Request :: "FieldSchema list"
  mf_Response :: "FieldSchema list"

definition ToManifest :: "Module \<Rightarrow> Manifest" where
  "ToManifest m = \<lparr>mf_Name = m_Name m, mf_Engine = m_Engine m, mf_EngineVersion = m_EngineVersion m,
     mf_Action = m_Action m, mf_Request = m_Request m, mf_Response = m_Response m\<rparr>"

section \<open>Loading\<close>

record loadEnv =
  le_yaml :: "string \<Rightarrow> Module option"
  le_compile :: "string \<Rightarrow> goregex option"
  le_sha256hex :: "string \<Rightarrow> string"

definition ParseBytes :: "loadEnv \<Rightarrow> string \<Rightarrow> moduleError + Module" where
  "ParseBytes env data =
     (case le_yaml env data of
        None \<Rightarrow> Inl ParseYAML
      | Some m \<Rightarrow> (case validate (le_compile env) m of
                     Inl e \<Rightarrow> Inl e
                   | Inr m \<Rightarrow> Inr (m\<lparr>m_RawYAML := data, m_FileHash := le_sha256hex env data\<rparr>)))"

text \<open>\<^verbatim>\<open>filepath.Ext\<close>.\<close>

definition path_Ext :: "string \<Rightarrow> string" where
  "path_Ext s =
     (let r = rev s; t = takeWhile (\<lambda>c. c \<noteq> CHR ''.'' \<and> c \<noteq> CHR ''/'') r; rest = drop (length t) r
      in if rest \<noteq> [] \<and> hd rest = CHR ''.'' then CHR ''.'' # rev t else [])"

text \<open>A directory: the entries, whether each is a directory, and what reading it gives.\<close>

type_synonym fsEntry = "string \<times> bool \<times> string option"

definition yaml_files :: "fsEntry list \<Rightarrow> string list" where
  "yaml_files entries =
     sort (map fst (filter (\<lambda>(name, isDir, _). \<not> isDir \<and> (path_Ext name = ''.yaml'' \<or> path_Ext name = ''.yml'')) entries))"

definition loadFile :: "loadEnv \<Rightarrow> fsEntry list \<Rightarrow> string \<Rightarrow> moduleError + Module" where
  "loadFile env entries name =
     (case map_of entries name of
        Some (_, Some data) \<Rightarrow> ParseBytes env data
      | _ \<Rightarrow> Inl ReadFile)"

fun load_loop :: "loadEnv \<Rightarrow> fsEntry list \<Rightarrow> string list \<Rightarrow> Module list \<Rightarrow> moduleError + Module list" where
  "load_loop env entries [] modules = Inr modules"
| "load_loop env entries (name # names) modules =
     (case loadFile env entries name of
        Inl e \<Rightarrow> Inl e
      | Inr m \<Rightarrow> if m_Name m \<in> m_Name ` set modules then Inl (DuplicateModule (m_Name m))
                else load_loop env entries names (modules @ [m]))"

definition LoadFS :: "loadEnv \<Rightarrow> fsEntry list option \<Rightarrow> moduleError + Module list" where
  "LoadFS env fsys =
     (case fsys of None \<Rightarrow> Inl ReadDirectory | Some entries \<Rightarrow> load_loop env entries (yaml_files entries) [])"

datatype statResult = NotExist | StatError | Exists "fsEntry list option"

definition LoadDir :: "loadEnv \<Rightarrow> statResult \<Rightarrow> moduleError + Module list" where
  "LoadDir env dir =
     (case dir of NotExist \<Rightarrow> Inr [] | StatError \<Rightarrow> Inl StatDirectory | Exists fsys \<Rightarrow> LoadFS env fsys)"

section \<open>Directory placeholders\<close>

definition resolve_dirs :: "string \<Rightarrow> string \<Rightarrow> string \<Rightarrow> string" where
  "resolve_dirs modulesDir toolsDir s =
     ReplaceAll (ReplaceAll s ''__MODULES_DIR__'' modulesDir) ''__TOOLS_DIR__'' toolsDir"

definition resolveStep :: "string \<Rightarrow> string \<Rightarrow> Step option \<Rightarrow> Step option" where
  "resolveStep modulesDir toolsDir step =
     map_option (\<lambda>s. s\<lparr>step_Command := map (resolve_dirs modulesDir toolsDir) (step_Command s)\<rparr>) step"

definition ResolveDirPlaceholders :: "string \<Rightarrow> string \<Rightarrow> Module \<Rightarrow> Module" where
  "ResolveDirPlaceholders modulesDir toolsDir m =
     (let res = resolveStep modulesDir toolsDir in
      m\<lparr>m_Prepare := res (m_Prepare m), m_Run := res (m_Run m), m_Teardown := res (m_Teardown m),
        m_Pool := map_option (\<lambda>p. p\<lparr>po_BuildConfig := res (po_BuildConfig p), po_Start := res (po_Start p),
                                   po_Stop := res (po_Stop p)\<rparr>) (m_Pool m)\<rparr>)"

section \<open>What validation decides\<close>

definition dep_ok :: "InstallDependency \<Rightarrow> bool" where
  "dep_ok dep \<longleftrightarrow> dep_Name dep \<noteq> [] \<and> dep_URL dep \<noteq> [] \<and> dep_Kind dep \<in> {[], ''binary'', ''file''} \<and> dep_Path dep \<noteq> []"

definition pool_ok :: "Module \<Rightarrow> PoolSpec \<Rightarrow> bool" where
  "pool_ok m pool \<longleftrightarrow> m_Prepare m = None \<and> m_Teardown m = None \<and> has_command (m_Run m) \<and>
     0 < po_MaxJobsPerInstance pool \<and> 0 < po_TestConcurrency pool \<and>
     has_command (po_BuildConfig pool) \<and> has_command (po_Start pool)"

definition collect_ok :: "(string \<Rightarrow> goregex option) \<Rightarrow> Collect \<Rightarrow> bool" where
  "collect_ok compile c \<longleftrightarrow>
     co_Format c = ''writeout_json'' \<and> co_Pattern c = [] \<or>
     co_Format c = ''regex'' \<and> (\<exists>re. compile (co_Pattern c) = Some re \<and> hasGroup re ''latency_ms'')"

definition module_ok :: "(string \<Rightarrow> goregex option) \<Rightarrow> Module \<Rightarrow> bool" where
  "module_ok compile m \<longleftrightarrow>
     name_matches (m_Name m) \<and> 0 \<le> m_MinTimeoutMs m \<and>
     form_ok ''request'' (m_Request m) \<and> form_ok ''response'' (m_Response m) \<and> list_all dep_ok (m_Install m) \<and>
     (if m_Action m \<noteq> []
      then m_Action m \<in> set action_names \<and> \<not> has_command (m_Run m) \<and>
           m_Prepare m = None \<and> m_Teardown m = None \<and> m_Pool m = None
      else has_command (m_Run m) \<and> (\<forall>pool. m_Pool m = Some pool \<longrightarrow> pool_ok m pool) \<and>
           (\<forall>s\<in>set (module_steps m). \<forall>arg\<in>set (step_Command s). validatePlaceholders arg = None) \<and>
           collect_ok compile (m_Collect m))"

definition with_pattern :: "(string \<Rightarrow> goregex option) \<Rightarrow> Module \<Rightarrow> Module" where
  "with_pattern compile m =
     (if m_Action m = [] \<and> co_Format (m_Collect m) = ''regex''
      then m\<lparr>m_compiledPattern := compile (co_Pattern (m_Collect m))\<rparr> else m)"

lemma validate_install_None: "validate_install i deps = None \<longleftrightarrow> list_all dep_ok deps"
  by (induction i deps rule: validate_install.induct) (auto simp: dep_ok_def)

lemma validate_common_None:
  "validate_common m = None \<longleftrightarrow>
     name_matches (m_Name m) \<and> 0 \<le> m_MinTimeoutMs m \<and>
     form_ok ''request'' (m_Request m) \<and> form_ok ''response'' (m_Response m) \<and> list_all dep_ok (m_Install m)"
  by (auto simp: validate_common_def validate_install_None
      validateFieldSchema_None [symmetric] split: option.splits)

lemma validatePool_None: "validatePool m = None \<longleftrightarrow> (\<forall>pool. m_Pool m = Some pool \<longrightarrow> pool_ok m pool)"
  by (auto simp: validatePool_def pool_ok_def not_le split: option.splits)

lemma validate_collect_Inr:
  "validate_collect compile m = Inr m' \<longleftrightarrow>
     collect_ok compile (m_Collect m) \<and>
     m' = (if co_Format (m_Collect m) = ''regex'' then m\<lparr>m_compiledPattern := compile (co_Pattern (m_Collect m))\<rparr> else m)"
  by (auto simp: validate_collect_def collect_ok_def split: option.splits)

lemma placeholders_ok:
  "\<not> list_ex (\<lambda>s. list_ex (\<lambda>arg. validatePlaceholders arg \<noteq> None) (step_Command s)) ss \<longleftrightarrow>
     (\<forall>s\<in>set ss. \<forall>arg\<in>set (step_Command s). validatePlaceholders arg = None)"
  by (auto simp: list_ex_iff)

lemma validate_Inr: "validate compile m = Inr m' \<longleftrightarrow> module_ok compile m \<and> m' = with_pattern compile m"
proof (cases "validate_common m")
  case None
  then have c: "name_matches (m_Name m) \<and> 0 \<le> m_MinTimeoutMs m \<and> form_ok ''request'' (m_Request m) \<and>
    form_ok ''response'' (m_Response m) \<and> list_all dep_ok (m_Install m)" by (simp add: validate_common_None)
  show ?thesis
  proof (cases "m_Action m = []")
    case True
    have "validate compile m = Inr m' \<longleftrightarrow> has_command (m_Run m) \<and> validatePool m = None \<and>
        (\<forall>s\<in>set (module_steps m). \<forall>arg\<in>set (step_Command s). validatePlaceholders arg = None) \<and>
        validate_collect compile m = Inr m'"
      unfolding placeholders_ok [symmetric]
      using None True by (auto simp: validate_def Let_def simp del: not_Some_eq split: option.splits)
    with True c show ?thesis
      by (simp add: module_ok_def validatePool_None validate_collect_Inr with_pattern_def)
  next
    case False
    with None c show ?thesis by (auto simp: validate_def Let_def module_ok_def with_pattern_def)
  qed
next
  case (Some e)
  then have "\<not> module_ok compile m" using validate_common_None [of m] by (auto simp: module_ok_def)
  with Some show ?thesis by (simp add: validate_def)
qed

text \<open>C24. Validation, in the order the code tests, accepts exactly the modules that meet the declared
  rules, and changes nothing but the compiled pattern: a legal name, well-formed data forms, complete
  install entries, either a known action with no lifecycle steps or a command whose placeholders are
  all known, whose pool is complete and whose output format can yield a latency.\<close>

theorem validate_iff: "validate compile m = Inr m' \<longleftrightarrow> module_ok compile m \<and> m' = with_pattern compile m"
  by (rule validate_Inr)

section \<open>What loading decides\<close>

lemma Inr_Cons_map: "Inr x # xs = map Inr ys \<longleftrightarrow> (\<exists>zs. ys = x # zs \<and> xs = map Inr zs)"
  by (cases ys) auto

lemma ex_Cons_conv:
  "(\<exists>xs. P xs \<and> (\<exists>zs. xs = x # zs \<and> Q zs) \<and> R xs) \<longleftrightarrow> (\<exists>zs. P (x # zs) \<and> Q zs \<and> R (x # zs))"
  by auto

lemma load_loop_Inr:
  "load_loop env entries names ms0 = Inr ms \<longleftrightarrow>
     (\<exists>ms1. ms = ms0 @ ms1 \<and> map (loadFile env entries) names = map Inr ms1 \<and>
        distinct (map m_Name ms1) \<and> m_Name ` set ms0 \<inter> m_Name ` set ms1 = {})"
proof (induction names arbitrary: ms0)
  case (Cons name names)
  show ?case
  proof (cases "loadFile env entries name")
    case (Inr m)
    have "load_loop env entries (name # names) ms0 = Inr ms \<longleftrightarrow>
        m_Name m \<notin> m_Name ` set ms0 \<and> load_loop env entries names (ms0 @ [m]) = Inr ms" by (simp add: Inr)
    also have "\<dots> \<longleftrightarrow> (\<exists>ms1. ms = ms0 @ m # ms1 \<and> map (loadFile env entries) names = map Inr ms1 \<and>
        distinct (map m_Name (m # ms1)) \<and> m_Name ` set ms0 \<inter> m_Name ` set (m # ms1) = {})"
      unfolding Cons.IH by auto
    also have "\<dots> \<longleftrightarrow> (\<exists>ms1. ms = ms0 @ ms1 \<and> map (loadFile env entries) (name # names) = map Inr ms1 \<and>
        distinct (map m_Name ms1) \<and> m_Name ` set ms0 \<inter> m_Name ` set ms1 = {})"
      unfolding list.map(2) Inr Inr_Cons_map ex_Cons_conv by (rule refl)
    finally show ?thesis .
  next
    case (Inl e)
    then have "map (loadFile env entries) (name # names) \<noteq> map Inr ms1" for ms1 by (cases ms1) auto
    with Inl show ?thesis by auto
  qed
qed auto

lemma LoadFS_Inr:
  "LoadFS env (Some entries) = Inr ms \<longleftrightarrow>
     map (loadFile env entries) (yaml_files entries) = map Inr ms \<and> distinct (map m_Name ms)"
  by (simp add: LoadFS_def load_loop_Inr)

lemma ParseBytes_Inr:
  "ParseBytes env data = Inr m \<longleftrightarrow>
     (\<exists>m0. le_yaml env data = Some m0 \<and> module_ok (le_compile env) m0 \<and>
        m = (with_pattern (le_compile env) m0)\<lparr>m_RawYAML := data, m_FileHash := le_sha256hex env data\<rparr>)"
proof (cases "le_yaml env data")
  case (Some m0)
  show ?thesis
  proof (cases "validate (le_compile env) m0")
    case (Inl e)
    then have "\<not> module_ok (le_compile env) m0" using validate_Inr [of "le_compile env" m0 "with_pattern (le_compile env) m0"] by simp
    with Some Inl show ?thesis by (simp add: ParseBytes_def)
  next
    case (Inr m1)
    with validate_Inr [of "le_compile env" m0 m1]
    have "module_ok (le_compile env) m0" "m1 = with_pattern (le_compile env) m0" by simp_all
    with Some Inr show ?thesis by (auto simp: ParseBytes_def)
  qed
qed (simp add: ParseBytes_def)

lemma with_pattern_sel [simp]:
  "m_Name (with_pattern compile m) = m_Name m" "m_Run (with_pattern compile m) = m_Run m"
  "m_Prepare (with_pattern compile m) = m_Prepare m" "m_Teardown (with_pattern compile m) = m_Teardown m"
  "m_Pool (with_pattern compile m) = m_Pool m" "m_Action (with_pattern compile m) = m_Action m"
  "m_Collect (with_pattern compile m) = m_Collect m" "m_Request (with_pattern compile m) = m_Request m"
  by (simp_all add: with_pattern_def)

lemma loadFile_Inr:
  assumes "loadFile env entries name = Inr m"
  shows "\<exists>d m0. map_of entries name = Some (d, Some (m_RawYAML m)) \<and> m_FileHash m = le_sha256hex env (m_RawYAML m)
       \<and> le_yaml env (m_RawYAML m) = Some m0 \<and> module_ok (le_compile env) m0 \<and> m_Name m = m_Name m0"
proof -
  from assms obtain d data where f: "map_of entries name = Some (d, Some data)" "ParseBytes env data = Inr m"
    by (simp add: loadFile_def split: option.splits prod.splits)
  from f(2) obtain m0 where "le_yaml env data = Some m0" "module_ok (le_compile env) m0"
    "m = (with_pattern (le_compile env) m0)\<lparr>m_RawYAML := data, m_FileHash := le_sha256hex env data\<rparr>"
    unfolding ParseBytes_Inr by metis
  with f(1) show ?thesis by simp
qed

text \<open>A directory loads exactly when every one of its YAML files parses and validates and no two of
  them define the same name; the result is then one module per file, in the order of the sorted
  file names. One bad file keeps the node from starting.\<close>

theorem LoadFS_all_or_nothing:
  "LoadFS env (Some entries) = Inr ms \<longleftrightarrow>
     map (loadFile env entries) (yaml_files entries) = map Inr ms \<and> distinct (map m_Name ms)"
  by (rule LoadFS_Inr)

end
