(* ===== verification/Checker.thy ===== *)
theory Checker
  imports Module_Def
begin

text \<open>
  Running one check of a module (\<^verbatim>\<open>internal/module/checker.go\<close> and \<^verbatim>\<open>collect.go\<close>): the
  bounded capture of a subprocess's output, its conversion into a result, and the sequence
  prepare, run, collect, teardown. What the operating system and the libraries answer (processes,
  temporary files, free ports, decoded JSON, elapsed time) is the argument \<open>stepEnv\<close>; the numbers
  tell the calls apart. The value \<open>None\<close> is a panic of the Go runtime: \<^verbatim>\<open>argv[0]\<close> of an empty
  command, or a write to a nil map.
\<close>

section \<open>The environment\<close>

record procOutcome =
  px_stdout :: "string list"
  px_stderr :: "string list"
  px_err :: "string option"

datatype startOutcome = StartFailed string | PortReady | PortTimeout string | EngineExited

record stepEnv =
  se_printers :: printers
  se_environ :: "string list"
  se_run :: "nat \<Rightarrow> string list \<Rightarrow> string list option \<Rightarrow> procOutcome"
  se_start :: "nat \<Rightarrow> string list \<Rightarrow> string list option \<Rightarrow> duration \<Rightarrow> int \<Rightarrow> startOutcome"
  se_params :: "nat \<Rightarrow> gomap \<Rightarrow> string + string"
  se_alloc :: "nat \<Rightarrow> string + int"
  se_elapsed :: "nat \<Rightarrow> duration"
  se_json :: "string \<Rightarrow> string + goval"
  se_ParseFloat :: "string \<Rightarrow> string + gofloat"
  se_f2i :: "gofloat \<Rightarrow> int"
  se_action :: "string \<Rightarrow> nat \<Rightarrow> Options \<Rightarrow> Result"

definition parse_number :: "stepEnv \<Rightarrow> string \<Rightarrow> gofloat option" where
  "parse_number env s = (case se_ParseFloat env s of Inl e \<Rightarrow> None | Inr x \<Rightarrow> Some x)"

section \<open>Bounded output\<close>

definition maxStepStdoutBytes :: int where "maxStepStdoutBytes = 1048576"
definition maxStepStderrBytes :: int where "maxStepStderrBytes = 65536"

record limitedBuffer =
  lb_buf :: string
  lb_limit :: int
  lb_exceeded :: bool

text \<open>The flag of the result is whether the write reported no error.\<close>

definition lb_Write :: "string \<Rightarrow> limitedBuffer \<Rightarrow> bool \<times> limitedBuffer" where
  "lb_Write p b =
     (let remaining = lb_limit b - int (length (lb_buf b)) in
      if remaining \<le> 0 then (False, b\<lparr>lb_exceeded := True\<rparr>)
      else if int (length p) > remaining
      then (False, b\<lparr>lb_buf := lb_buf b @ take (nat remaining) p, lb_exceeded := True\<rparr>)
      else (True, b\<lparr>lb_buf := lb_buf b @ p\<rparr>))"

text \<open>The copy of the process's pipe stops at the first error.\<close>

fun lb_feed :: "string list \<Rightarrow> limitedBuffer \<Rightarrow> limitedBuffer" where
  "lb_feed [] b = b"
| "lb_feed (p # ps) b = (case lb_Write p b of (go_on, b) \<Rightarrow> if go_on then lb_feed ps b else b)"

definition lb_new :: "int \<Rightarrow> limitedBuffer" where
  "lb_new n = \<lparr>lb_buf = [], lb_limit = n, lb_exceeded = False\<rparr>"

definition applyBindingEnv :: "stepEnv \<Rightarrow> Binding \<Rightarrow> string list option" where
  "applyBindingEnv env binding =
     (if Binding_IsZero binding then None else Some (Env (pr_addr (se_printers env)) (se_environ env) binding))"

definition runStep :: "stepEnv \<Rightarrow> nat \<Rightarrow> Step \<Rightarrow> execContext \<Rightarrow> (string + string) option" where
  "runStep env n step ec =
     (let argv = resolve (se_printers env) ec (step_Command step) in
      if argv = [] then None
      else Some (let out = se_run env n argv (applyBindingEnv env (ec_Bind ec));
                     stdout = lb_feed (px_stdout out) (lb_new maxStepStdoutBytes);
                     stderr = lb_feed (px_stderr out) (lb_new maxStepStderrBytes) in
            if lb_exceeded stdout
            then Inl (''stdout exceeded '' @ Itoa maxStepStdoutBytes @ '' bytes; subprocess killed'')
            else if lb_exceeded stderr
            then Inl (''stderr exceeded '' @ Itoa maxStepStderrBytes @ '' bytes; subprocess killed'')
            else (case px_err out of
                    Some e \<Rightarrow> Inl (if lb_buf stderr \<noteq> [] then e @ '': '' @ TrimSpace (lb_buf stderr) else e)
                  | None \<Rightarrow> Inr (lb_buf stdout))))"

section \<open>Collecting\<close>

record collectResult =
  cr_LatencyMs :: gofloat
  cr_Extra :: gomap

definition collectWriteoutJSON :: "stepEnv \<Rightarrow> string \<Rightarrow> string + collectResult" where
  "collectWriteoutJSON env stdout =
     (let no_latency = Inl (''writeout_json stdout missing numeric '' @ go_quote ''latency_ms'' @ '' key'') in
      case se_json env stdout of
        Inl e \<Rightarrow> Inl (''parse writeout_json stdout: '' @ e)
      | Inr (GObj extra) \<Rightarrow>
          (case map_of extra ''latency_ms'' of
             Some (GFloat x) \<Rightarrow> Inr \<lparr>cr_LatencyMs = x, cr_Extra = extra\<rparr>
           | _ \<Rightarrow> no_latency)
      | Inr GNil \<Rightarrow> no_latency
      | Inr _ \<Rightarrow> Inl ''parse writeout_json stdout: json: cannot unmarshal into Go value of type map[string]interface {}'')"

fun regex_loop :: "stepEnv \<Rightarrow> (string \<times> string) list \<Rightarrow> gofloat option \<Rightarrow> gomap \<Rightarrow> string + collectResult" where
  "regex_loop env [] lat extra =
     (case lat of
        None \<Rightarrow> Inl ''collect.pattern matched but produced no latency_ms''
      | Some x \<Rightarrow> Inr \<lparr>cr_LatencyMs = x, cr_Extra = extra\<rparr>)"
| "regex_loop env ((name, value) # groups) lat extra =
     (if name = [] then regex_loop env groups lat extra
      else if name = ''latency_ms'' then
        (case se_ParseFloat env value of
           Inl e \<Rightarrow> Inl (''latency_ms group '' @ go_quote value @ '' is not a number: '' @ e)
         | Inr v \<Rightarrow> regex_loop env groups (Some v) extra)
      else regex_loop env groups lat (AList.update name (GStr value) extra))"

definition collectRegex :: "stepEnv \<Rightarrow> goregex \<Rightarrow> string \<Rightarrow> string + collectResult" where
  "collectRegex env re stdout =
     (case re_find re stdout of
        None \<Rightarrow> Inl ''collect.pattern did not match run output''
      | Some groups \<Rightarrow> regex_loop env (zip (tl (re_names re)) (tl groups)) None [])"

text \<open>A nil pattern makes the method call panic.\<close>

definition collect :: "stepEnv \<Rightarrow> Module \<Rightarrow> string \<Rightarrow> (string + collectResult) option" where
  "collect env m stdout =
     (if co_Format (m_Collect m) = ''writeout_json'' then Some (collectWriteoutJSON env stdout)
      else if co_Format (m_Collect m) = ''regex'' then
        map_option (\<lambda>re. collectRegex env re stdout) (m_compiledPattern m)
      else Some (Inl (''unknown collect format '' @ go_quote (co_Format (m_Collect m)))))"

section \<open>One check\<close>

text \<open>Conversion of a float to an integer truncates towards zero; out of range Go leaves the value to
  the implementation, \<open>se_f2i\<close>.\<close>

definition go_trunc :: "rat \<Rightarrow> int" where
  "go_trunc q = (if 0 \<le> q then \<lfloor>q\<rfloor> else \<lceil>q\<rceil>)"

definition float_to_int :: "stepEnv \<Rightarrow> gofloat \<Rightarrow> int" where
  "float_to_int env x =
     (case x of
        Fin q \<Rightarrow> if - (2 ^ 63) \<le> go_trunc q \<and> go_trunc q < 2 ^ 63 then go_trunc q else se_f2i env x
      | _ \<Rightarrow> se_f2i env x)"

definition scale_float :: "rat \<Rightarrow> gofloat \<Rightarrow> gofloat" where
  "scale_float k x = (case x of Fin q \<Rightarrow> Fin (k * q) | y \<Rightarrow> y)"

definition elapsed_for_result :: "stepEnv \<Rightarrow> nat \<Rightarrow> gofloat \<Rightarrow> duration" where
  "elapsed_for_result env n measured =
     (let latencyMs = (if measured = Fin 0 then Fin (of_int (se_elapsed env n) / of_int millisecond) else measured)
      in float_to_int env (scale_float (of_int millisecond) latencyMs))"

definition runAndCollect :: "stepEnv \<Rightarrow> nat \<Rightarrow> Module \<Rightarrow> Step \<Rightarrow> execContext \<Rightarrow> Options \<Rightarrow> Result option" where
  "runAndCollect env n m step ec opts =
     (case runStep env n step ec of
        None \<Rightarrow> None
      | Some (Inl e) \<Rightarrow> Some (result_Fail (m_Name m) (o_Target opts) (o_Seq opts) (''run: '' @ e))
      | Some (Inr stdout) \<Rightarrow>
          (case collect env m stdout of
             None \<Rightarrow> None
           | Some (Inl e) \<Rightarrow> Some (result_Fail (m_Name m) (o_Target opts) (o_Seq opts) (''collect: '' @ e))
           | Some (Inr r) \<Rightarrow> Some (result_Ok (m_Name m) (o_Target opts) (o_Seq opts)
                                (elapsed_for_result env n (cr_LatencyMs r)) (Some (cr_Extra r)))))"

definition startEngine :: "stepEnv \<Rightarrow> nat \<Rightarrow> Step \<Rightarrow> execContext \<Rightarrow> duration \<Rightarrow> int \<Rightarrow> (string + unit) option" where
  "startEngine env n step ec readinessTimeout port =
     (let argv = resolve (se_printers env) ec (step_Command step) in
      if argv = [] then None
      else Some (case se_start env n argv (applyBindingEnv env (ec_Bind ec)) readinessTimeout port of
                   StartFailed e \<Rightarrow> Inl e
                 | PortReady \<Rightarrow> Inr ()
                 | PortTimeout e \<Rightarrow> Inl (''did not become ready on port '' @ Itoa port @ '': '' @ e)
                 | EngineExited \<Rightarrow> Inl ''engine exited before becoming ready''))"

definition startPrepare :: "stepEnv \<Rightarrow> nat \<Rightarrow> Step \<Rightarrow> execContext \<Rightarrow> int \<Rightarrow> (string + unit) option" where
  "startPrepare env n step ec port =
     startEngine env n step ec (go_div (i64 (ec_TimeoutMs ec * millisecond)) 2) port"

text \<open>Teardown runs only after a successful run, and its failure is noted in the extra data.\<close>

definition teardown :: "stepEnv \<Rightarrow> nat \<Rightarrow> Module \<Rightarrow> execContext \<Rightarrow> Result \<Rightarrow> Result option" where
  "teardown env n m ec result =
     (case m_Teardown m of
        None \<Rightarrow> Some result
      | Some step \<Rightarrow>
          (case runStep env n step ec of
             None \<Rightarrow> None
           | Some (Inr _) \<Rightarrow> Some result
           | Some (Inl e) \<Rightarrow>
               (case r_Extra result of
                  None \<Rightarrow> None
                | Some extra \<Rightarrow> Some (result\<lparr>r_Extra := Some (AList.update ''teardown_error'' (GStr e) extra)\<rparr>))))"

definition exec_context :: "Options \<Rightarrow> string \<Rightarrow> int \<Rightarrow> execContext" where
  "exec_context opts paramsPath port =
     \<lparr>ec_Target = o_Target opts, ec_TimeoutMs = go_div (o_Timeout opts) millisecond, ec_Params = o_Params opts,
      ec_ParamsJSONPath = paramsPath, ec_AllocPort = port, ec_JobsJSONPath = [], ec_ConfigPath = [],
      ec_Bind = o_Bind opts\<rparr>"

definition run_phase :: "stepEnv \<Rightarrow> nat \<Rightarrow> Module \<Rightarrow> execContext \<Rightarrow> Options \<Rightarrow> Result option" where
  "run_phase env n m ec opts =
     (case m_Run m of
        None \<Rightarrow> None
      | Some run \<Rightarrow>
          (case runAndCollect env n m run ec opts of
             None \<Rightarrow> None
           | Some result \<Rightarrow> if \<not> r_Ok result then Some result else teardown env (n + 1) m ec result))"

definition run_check :: "stepEnv \<Rightarrow> nat \<Rightarrow> Module \<Rightarrow> Options \<Rightarrow> Result option" where
  "run_check env n m opts =
     (let opts = opts\<lparr>o_Timeout := withMinTimeout m (o_Timeout opts)\<rparr>;
          fail = (\<lambda>msg. Some (result_Fail (m_Name m) (o_Target opts) (o_Seq opts) msg)) in
      case se_alloc env n of
        Inl e \<Rightarrow> fail (''allocate port: '' @ e)
      | Inr port \<Rightarrow>
          (case se_params env n (o_Params opts) of
             Inl e \<Rightarrow> fail (''write params_json: '' @ e)
           | Inr path \<Rightarrow>
               let ec = exec_context opts path port in
               (case m_Prepare m of
                  None \<Rightarrow> run_phase env n m ec opts
                | Some prepare \<Rightarrow>
                    (case startPrepare env n prepare ec port of
                       None \<Rightarrow> None
                     | Some (Inl e) \<Rightarrow> fail (''prepare: '' @ e)
                     | Some (Inr _) \<Rightarrow> run_phase env n m ec opts))))"

definition Check :: "stepEnv \<Rightarrow> nat \<Rightarrow> Module \<Rightarrow> Options \<Rightarrow> Result option" where
  "Check env n m opts =
     (case validateRequest (parse_number env) (m_Request m) (o_Params opts) of
        Some msg \<Rightarrow> Some (result_Invalid (m_Name m) (o_Target opts) (o_Seq opts) msg)
      | None \<Rightarrow>
          if m_Action m \<noteq> [] then
            Some (if m_Action m \<notin> set action_names
                  then result_Fail (m_Name m) (o_Target opts) (o_Seq opts) (''unknown action '' @ go_quote (m_Action m))
                  else (se_action env (m_Action m) n opts)\<lparr>r_Type := m_Name m\<rparr>)
          else run_check env n m opts)"

section \<open>The capture of output\<close>

lemma lb_feed_spec:
  assumes "\<not> lb_exceeded b" "int (length (lb_buf b)) \<le> lb_limit b" "[] \<notin> set ps"
  shows "lb_buf (lb_feed ps b) = take (nat (lb_limit b)) (lb_buf b @ concat ps)
    \<and> (lb_exceeded (lb_feed ps b) \<longleftrightarrow> lb_limit b < int (length (lb_buf b @ concat ps)))"
  using assms
proof (induction ps arbitrary: b)
  case (Cons p ps)
  then have "0 < length p" by auto
  show ?case
  proof (cases "int (length (lb_buf b) + length p) \<le> lb_limit b")
    case True
    then have "0 < lb_limit b - int (length (lb_buf b))" using \<open>0 < length p\<close> by linarith
    with True have w: "lb_Write p b = (True, b\<lparr>lb_buf := lb_buf b @ p\<rparr>)"
      by (simp add: lb_Write_def Let_def)
    with Cons.IH [of "b\<lparr>lb_buf := lb_buf b @ p\<rparr>"] Cons.prems True show ?thesis by auto
  next
    case False
    with Cons.prems \<open>0 < length p\<close> show ?thesis by (auto simp: lb_Write_def Let_def nat_diff_distrib)
  qed
qed auto

lemma lb_feed_new:
  assumes "[] \<notin> set ps" "0 \<le> n"
  shows "lb_buf (lb_feed ps (lb_new n)) = take (nat n) (concat ps)"
    "lb_exceeded (lb_feed ps (lb_new n)) \<longleftrightarrow> n < int (length (concat ps))"
  using lb_feed_spec [of "lb_new n" ps] assms by (simp_all add: lb_new_def)

text \<open>A pipe is never read empty-handed: every chunk the copy sees has at least one byte.\<close>

definition proper_output :: "stepEnv \<Rightarrow> bool" where
  "proper_output env \<longleftrightarrow> (\<forall>n argv e. [] \<notin> set (px_stdout (se_run env n argv e)) \<and> [] \<notin> set (px_stderr (se_run env n argv e)))"

text \<open>A step succeeds exactly when its process exits without error after at most one mebibyte of
  standard output and 64 kibibytes of standard error; the captured output is then everything the
  process wrote, however it was split into writes. A byte more on either stream is an error, never a
  truncated success.\<close>

theorem runStep_captures_exactly:
  assumes "proper_output env" "step_Command step \<noteq> []"
  shows "\<exists>argv. length argv = length (step_Command step) \<and>
    (let out = se_run env n argv (applyBindingEnv env (ec_Bind ec)) in
     runStep env n step ec = Some (Inr s) \<longleftrightarrow>
       px_err out = None \<and> length (concat (px_stdout out)) \<le> 1048576 \<and> length (concat (px_stderr out)) \<le> 65536
       \<and> s = concat (px_stdout out))"
proof -
  let ?argv = "resolve (se_printers env) ec (step_Command step)"
  let ?out = "se_run env n ?argv (applyBindingEnv env (ec_Bind ec))"
  have "?argv \<noteq> []" using assms(2) by (simp add: resolve_def)
  moreover have c: "[] \<notin> set (px_stdout ?out)" "[] \<notin> set (px_stderr ?out)"
    using assms(1) by (simp_all add: proper_output_def)
  ultimately have "runStep env n step ec = Some (Inr s) \<longleftrightarrow>
       px_err ?out = None \<and> length (concat (px_stdout ?out)) \<le> 1048576 \<and> length (concat (px_stderr ?out)) \<le> 65536
       \<and> s = concat (px_stdout ?out)"
    using lb_feed_new [OF c(1), of maxStepStdoutBytes] lb_feed_new [OF c(2), of maxStepStderrBytes]
    by (auto simp: runStep_def Let_def maxStepStdoutBytes_def maxStepStderrBytes_def split: option.splits)
  then show ?thesis by (intro exI [of _ ?argv]) (simp add: Let_def)
qed

definition demo_step_env :: "string list \<Rightarrow> stepEnv" where
  "demo_step_env chunks = \<lparr>se_printers = demo_printers, se_environ = [], se_run = \<lambda>n argv e.
     \<lparr>px_stdout = chunks, px_stderr = [], px_err = None\<rparr>,
     se_start = \<lambda>n argv e d p. PortReady, se_params = \<lambda>n m. Inr ''/tmp/p'', se_alloc = \<lambda>n. Inr 1080,
     se_elapsed = \<lambda>n. 5000000, se_json = \<lambda>s. Inr (GObj [(''latency_ms'', GFloat (Fin (25 / 2)))]),
     se_ParseFloat = \<lambda>s. Inl ''invalid syntax'', se_f2i = \<lambda>x. 0,
     se_action = \<lambda>a n opts. result_Ok a (o_Target opts) (o_Seq opts) 1 None\<rparr>"

theorem runStep_captures_exactly_witness:
  "runStep (demo_step_env [''ab'', ''c'']) 0 \<lparr>step_Command = [''/bin/x'', ''{{target}}''], step_Timeout = 0\<rparr> demo_context
     = Some (Inr ''abc'')"
proof -
  have p: "proper_output (demo_step_env [''ab'', ''c''])" by (simp add: proper_output_def demo_step_env_def)
  show ?thesis
    using runStep_captures_exactly [OF p, of "\<lparr>step_Command = [''/bin/x'', ''{{target}}''], step_Timeout = 0\<rparr>" 0 demo_context "''abc''"]
    by (auto simp: demo_step_env_def Let_def)
qed

section \<open>Latency\<close>

lemma go_trunc_error: "\<bar>of_int (go_trunc q) - q\<bar> < 1" "\<bar>of_int (go_trunc q)\<bar> \<le> \<bar>q\<bar>"
proof -
  have "of_int \<lfloor>q\<rfloor> \<le> q" "q < of_int \<lfloor>q\<rfloor> + 1" "q \<le> of_int \<lceil>q\<rceil>" "of_int \<lceil>q\<rceil> < q + 1"
    by linarith+
  then show "\<bar>of_int (go_trunc q) - q\<bar> < 1" by (auto simp: go_trunc_def)
  show "\<bar>of_int (go_trunc q)\<bar> \<le> \<bar>q\<bar>"
  proof (cases "0 \<le> q")
    case True
    moreover from this have "0 \<le> \<lfloor>q\<rfloor>" by simp
    ultimately show ?thesis by (simp add: go_trunc_def)
  next
    case False
    moreover from this have "\<lceil>q\<rceil> \<le> 0" by simp
    ultimately show ?thesis by (simp add: go_trunc_def)
  qed
qed

text \<open>The latency a module measures survives the detour through an integer duration to within a
  nanosecond, and is never exaggerated: fractions of a millisecond are kept.\<close>

theorem latency_kept_to_nanosecond:
  assumes "q \<noteq> 0" "\<bar>q\<bar> < 9000000000000"
  shows "\<exists>l. latency (elapsed_for_result env n (Fin q)) = Fin l \<and> \<bar>l - q\<bar> < 1 / 1000000 \<and> \<bar>l\<bar> \<le> \<bar>q\<bar>"
proof -
  let ?x = "1000000 * q"
  have b: "\<bar>of_int (go_trunc ?x) :: rat\<bar> \<le> \<bar>?x\<bar>" by (rule go_trunc_error)
  also have "\<bar>?x\<bar> < 9000000000000000000" using assms(2) by simp
  finally have "\<bar>go_trunc ?x\<bar> < 9000000000000000000"
    by (metis of_int_abs of_int_less_iff of_int_numeral)
  then have "- (2 ^ 63) \<le> go_trunc ?x" "go_trunc ?x < 2 ^ 63" by (simp_all add: abs_less_iff)
  then have f: "elapsed_for_result env n (Fin q) = go_trunc ?x"
    using assms(1) by (simp add: elapsed_for_result_def float_to_int_def scale_float_def millisecond_def)
  define l where "l = (of_int (go_trunc ?x) / 1000000 :: rat)"
  have "l - q = (of_int (go_trunc ?x) - ?x) / 1000000" by (simp add: l_def diff_divide_distrib)
  then have "\<bar>l - q\<bar> < 1 / 1000000" using go_trunc_error(1) [of ?x] by (simp only: abs_divide) simp
  moreover have "\<bar>l\<bar> \<le> \<bar>q\<bar>" using b by (simp add: l_def)
  moreover have "latency (elapsed_for_result env n (Fin q)) = Fin l" by (simp add: f latency_def l_def millisecond_def)
  ultimately show ?thesis by blast
qed

theorem latency_kept_to_nanosecond_witness:
  "\<exists>l. latency (elapsed_for_result (demo_step_env []) 0 (Fin (25 / 2))) = Fin l \<and> \<bar>l - 25 / 2\<bar> < 1 / 1000000 \<and> \<bar>l\<bar> \<le> \<bar>25 / 2\<bar>"
  by (rule latency_kept_to_nanosecond) simp_all

section \<open>A validated module always answers\<close>

definition steps_runnable :: "Module \<Rightarrow> bool" where
  "steps_runnable m \<longleftrightarrow> (m_Prepare m = None \<or> has_command (m_Prepare m)) \<and> (m_Teardown m = None \<or> has_command (m_Teardown m))"

definition answers :: "Module \<Rightarrow> Options \<Rightarrow> Result option \<Rightarrow> bool" where
  "answers m opts res \<longleftrightarrow> (\<exists>r. res = Some r \<and> r_Type r = m_Name m \<and> r_Target r = o_Target opts \<and> r_Seq r = o_Seq opts \<and>
     \<not> r_Skip r \<and> (r_Ok r \<longrightarrow> r_Extra r \<noteq> None))"

lemma answers_Fail [simp]: "answers m opts (Some (result_Fail (m_Name m) (o_Target opts) (o_Seq opts) msg))"
  and answers_Invalid [simp]: "answers m opts (Some (result_Invalid (m_Name m) (o_Target opts) (o_Seq opts) msg))"
  and answers_Ok [simp]: "answers m opts (Some (result_Ok (m_Name m) (o_Target opts) (o_Seq opts) d (Some x)))"
  by (simp_all add: answers_def result_Fail_def result_Invalid_def result_Ok_def)

lemma runStep_total: "step_Command step \<noteq> [] \<Longrightarrow> \<exists>r. runStep env n step ec = Some r"
  by (simp add: runStep_def resolve_def Let_def)

lemma startEngine_total: "step_Command step \<noteq> [] \<Longrightarrow> \<exists>r. startEngine env n step ec d port = Some r"
  by (simp add: startEngine_def resolve_def Let_def)

lemma collect_total:
  "module_ok compile m \<Longrightarrow> m_Action m = [] \<Longrightarrow> \<exists>r. collect env (with_pattern compile m) stdout = Some r"
  by (auto simp: collect_def module_ok_def collect_ok_def with_pattern_def)

lemma runAndCollect_answers:
  assumes "module_ok compile m" "m_Action m = []" "step_Command step \<noteq> []"
  shows "answers m opts (runAndCollect env n (with_pattern compile m) step ec opts)"
proof -
  obtain r where r: "runStep env n step ec = Some r" using runStep_total [OF assms(3)] by blast
  show ?thesis
  proof (cases r)
    case (Inl e)
    with r show ?thesis by (simp add: runAndCollect_def)
  next
    case (Inr out)
    obtain c where "collect env (with_pattern compile m) out = Some c" using collect_total [OF assms(1,2)] by blast
    with r Inr show ?thesis by (cases c) (simp_all add: runAndCollect_def)
  qed
qed

lemma teardown_answers:
  assumes "answers m opts (Some r)" "r_Ok r" "m_Teardown m' = None \<or> has_command (m_Teardown m')"
  shows "answers m opts (teardown env n m' ec r)"
proof (cases "m_Teardown m'")
  case (Some step)
  with assms(3) have "step_Command step \<noteq> []" by (simp add: has_command_def)
  from runStep_total [OF this] obtain x where "runStep env n step ec = Some x" by blast
  with Some assms(1,2) show ?thesis by (cases x) (auto simp: teardown_def answers_def)
qed (use assms(1) in \<open>simp add: teardown_def\<close>)

lemma run_phase_answers:
  assumes "module_ok compile m" "m_Action m = []" "steps_runnable m"
  shows "answers m opts (run_phase env n (with_pattern compile m) ec opts)"
proof -
  obtain step where run: "m_Run m = Some step" "step_Command step \<noteq> []"
    using assms(1,2) by (auto simp: module_ok_def has_command_def split: option.splits)
  have a: "answers m opts (runAndCollect env n (with_pattern compile m) step ec opts)"
    by (rule runAndCollect_answers [OF assms(1,2) run(2)])
  then obtain r where r: "runAndCollect env n (with_pattern compile m) step ec opts = Some r"
    by (auto simp: answers_def)
  have t: "m_Teardown (with_pattern compile m) = None \<or> has_command (m_Teardown (with_pattern compile m))"
    using assms(3) by (simp add: steps_runnable_def)
  show ?thesis
  proof (cases "r_Ok r")
    case True
    with r run show ?thesis
      using teardown_answers [OF a [unfolded r] True t, of env "n + 1" ec] by (simp add: run_phase_def)
  next
    case False
    with r run a show ?thesis by (simp add: run_phase_def)
  qed
qed

lemma run_check_answers:
  assumes "module_ok compile m" "m_Action m = []" "steps_runnable m"
  shows "answers m opts (run_check env n (with_pattern compile m) opts)"
proof -
  let ?m = "with_pattern compile m" and ?opts = "opts\<lparr>o_Timeout := withMinTimeout (with_pattern compile m) (o_Timeout opts)\<rparr>"
  have go: "answers m opts (run_phase env n ?m ec ?opts)" for ec
    using run_phase_answers [OF assms, of ?opts env n ec] by (simp add: answers_def)
  show ?thesis
  proof (cases "se_alloc env n")
    case (Inr port)
    show ?thesis
    proof (cases "se_params env n (o_Params opts)")
      case (Inr path)
      show ?thesis
      proof (cases "m_Prepare m")
        case None
        with Inr \<open>se_alloc env n = Inr port\<close> go show ?thesis by (simp add: run_check_def Let_def)
      next
        case (Some s)
        then have "step_Command s \<noteq> []" using assms(3) by (simp add: steps_runnable_def has_command_def)
        then obtain x where "startPrepare env n s (exec_context ?opts path port) port = Some x"
          using startEngine_total unfolding startPrepare_def by blast
        with Some Inr \<open>se_alloc env n = Inr port\<close> go show ?thesis by (cases x) (simp_all add: run_check_def Let_def)
      qed
    qed (use Inr in \<open>simp add: run_check_def\<close>)
  qed (simp add: run_check_def)
qed

lemma Check_answers:
  assumes "validate compile m0 = Inr m" "m_Action m0 = []" "steps_runnable m0"
  shows "answers m0 opts (Check env n m opts)"
proof -
  from assms(1) have v: "module_ok compile m0" "m = with_pattern compile m0" by (simp_all add: validate_Inr)
  show ?thesis
  proof (cases "validateRequest (parse_number env) (m_Request m) (o_Params opts)")
    case None
    with assms(2) v run_check_answers [OF v(1) assms(2,3)] show ?thesis by (simp add: Check_def)
  next
    case (Some msg)
    with v show ?thesis by (simp add: Check_def)
  qed
qed


definition demo_module :: "Step option \<Rightarrow> Module" where
  "demo_module prepare = \<lparr>m_Name = ''xray'', m_Engine = [], m_EngineVersion = [], m_Version = [], m_URL = [],
     m_OS = [], m_Arch = [], m_Install = [], m_Action = [], m_Prepare = prepare,
     m_Run = Some \<lparr>step_Command = [''/bin/x'', ''{{target}}''], step_Timeout = 0\<rparr>,
     m_Collect = \<lparr>co_Format = ''writeout_json'', co_Pattern = []\<rparr>, m_Teardown = None, m_Pool = None,
     m_MinTimeoutMs = 0, m_Request = [], m_Response = [], m_RawYAML = [], m_FileHash = [],
     m_compiledPattern = None\<rparr>"

definition demo_options :: "int \<Rightarrow> Options" where
  "demo_options seq = \<lparr>o_Target = ''example.com'', o_Timeout = 5 * second, o_ProbeID = ''p1'', o_Destination = ''example.com'',
     o_Seq = seq, o_Params = [], o_Bind = \<lparr>SourceIP = None, Interface = []\<rparr>\<rparr>"

lemma demo_module_ok:
  assumes "p = None \<or> p = Some \<lparr>step_Command = [], step_Timeout = second\<rparr>"
  shows "validate compile (demo_module p) = Inr (demo_module p)"
proof -
  have "name_matches ''xray''" "validatePlaceholders ''/bin/x'' = None" "validatePlaceholders ''{{target}}'' = None"
    by code_simp+
  then have "module_ok compile (demo_module p)"
    using assms by (auto simp: module_ok_def demo_module_def form_ok_def has_command_def collect_ok_def
        module_steps_def map_filter_def)
  then show ?thesis by (simp add: validate_Inr with_pattern_def demo_module_def)
qed

lemma demo_module_runnable: "steps_runnable (demo_module None)" "m_Action (demo_module p) = []"
  by (simp_all add: steps_runnable_def demo_module_def)


text \<open>Validation does not look at the commands of the optional steps: a module whose prepare step
  has an empty command is accepted, and its first check panics on the missing program name.\<close>

theorem empty_prepare_panics:
  "validate compile (demo_module (Some \<lparr>step_Command = [], step_Timeout = second\<rparr>))
     = Inr (demo_module (Some \<lparr>step_Command = [], step_Timeout = second\<rparr>))
   \<and> Check (demo_step_env [''{}'']) 0 (demo_module (Some \<lparr>step_Command = [], step_Timeout = second\<rparr>)) (demo_options 1) = None"
proof
  show "Check (demo_step_env [''{}'']) 0 (demo_module (Some \<lparr>step_Command = [], step_Timeout = second\<rparr>)) (demo_options 1) = None"
    by (simp add: Check_def demo_module_def run_check_def demo_step_env_def Let_def startPrepare_def startEngine_def resolve_def)
qed (rule demo_module_ok, simp)

end
