(* ===== verification/Pool.thy ===== *)
theory Pool
  imports Checker "HOL-Library.Monad_Syntax" "HOL-Library.Multiset"
begin

text \<open>
  The pooled checker (\<^verbatim>\<open>internal/module/pool.go\<close>): jobs are validated, deduplicated, put in
  canonical order and cut into slots; each slot is served by a warm engine that is reused while
  its jobs stay the same and rebuilt otherwise, a poisoned batch being bisected. The state holds the
  maps of \<^verbatim>\<open>PoolChecker\<close>, and for the reader of the model the engines that run and the number of
  questions put to the operating system so far, which tells them apart. The critical section of
  \<^verbatim>\<open>runSlot\<close> is \<open>slot_enter\<close>; \<^verbatim>\<open>runSlot\<close> itself is the section, the tests and the release.
  As in the theory of single checks, \<open>None\<close> is a panic (or a loop that never ends).
\<close>

section \<open>State\<close>

record poolJob =
  pj_idx :: nat
  pj_key :: string
  pj_opts :: Options
  pj_port :: int

record pendingJob =
  pd_idx :: nat
  pd_key :: string
  pd_o :: Options

record warmInstance =
  wi_jobsKey :: string
  wi_jobs :: "poolJob list"
  wi_jobsPath :: string
  wi_configPath :: string
  wi_engine :: nat
  wi_refs :: int
  wi_retired :: bool
  wi_stopped :: bool

record pool =
  pc_slots :: "(nat \<times> warmInstance) list"
  pc_ports :: "(string \<times> int) list"
  pc_lastOk :: "(string \<times> bool) list"
  pc_running :: "nat list"
  pc_calls :: nat

definition newPoolChecker :: pool where
  "newPoolChecker = \<lparr>pc_slots = [], pc_ports = [], pc_lastOk = [], pc_running = [], pc_calls = 0\<rparr>"

record poolEnv =
  pe_step :: stepEnv
  pe_jobsFile :: "nat \<Rightarrow> poolJob list \<Rightarrow> string + string"
  pe_reserve :: "nat \<Rightarrow> string + string"
  pe_listen :: "nat \<Rightarrow> int \<Rightarrow> bool"
  pe_alloc :: "nat \<Rightarrow> nat \<Rightarrow> string + int"
  pe_alive :: "nat \<Rightarrow> nat \<Rightarrow> bool"
  pe_dial :: "nat \<Rightarrow> int \<Rightarrow> bool"
  pe_wait :: "nat \<Rightarrow> string \<Rightarrow> bool"
  pe_cancelled :: "nat \<Rightarrow> bool"
  pe_sha256hex :: "string \<Rightarrow> string"
  pe_params_json :: "gomap \<Rightarrow> string option"

text \<open>One more question to the operating system.\<close>

definition asked :: "pool \<Rightarrow> pool" where
  "asked p = p\<lparr>pc_calls := pc_calls p + 1\<rparr>"

section \<open>Identity of jobs\<close>

definition mustParamsJSON :: "poolEnv \<Rightarrow> gomap \<Rightarrow> string" where
  "mustParamsJSON env params = (case pe_params_json env params of None \<Rightarrow> [] | Some b \<Rightarrow> b)"

definition nul :: string where "nul = [CHR 0x00]"

definition bind_text :: "poolEnv \<Rightarrow> Binding \<Rightarrow> string" where
  "bind_text env b = Binding_String (pr_addr (se_printers (pe_step env))) b"

definition job_text :: "poolEnv \<Rightarrow> Options \<Rightarrow> string" where
  "job_text env opts =
     o_Target opts @ nul @ Itoa (go_div (o_Timeout opts) millisecond) @ nul @
     mustParamsJSON env (o_Params opts) @ nul @ bind_text env (o_Bind opts)"

definition jobKey :: "poolEnv \<Rightarrow> Options \<Rightarrow> string" where
  "jobKey env opts = pe_sha256hex env (job_text env opts)"

definition jobs_text :: "poolEnv \<Rightarrow> poolJob list \<Rightarrow> string" where
  "jobs_text env jobs =
     concat (map (\<lambda>j. o_Target (pj_opts j) @ nul @ Itoa (go_div (o_Timeout (pj_opts j)) millisecond) @ nul @
       Itoa (pj_port j) @ nul @ bind_text env (o_Bind (pj_opts j)) @ nul @
       mustParamsJSON env (o_Params (pj_opts j)) @ [CHR 0x0A]) jobs)"

definition hashJobs :: "poolEnv \<Rightarrow> poolJob list \<Rightarrow> string" where
  "hashJobs env jobs = pe_sha256hex env (jobs_text env jobs)"

section \<open>Ports\<close>

fun unique_port_loop :: "poolEnv \<Rightarrow> nat \<Rightarrow> int list \<Rightarrow> nat \<Rightarrow> nat \<Rightarrow> string + int" where
  "unique_port_loop env n used i 0 = Inl ''no unique port after 256 attempts''"
| "unique_port_loop env n used i (Suc attempts) =
     (case pe_alloc env n i of
        Inl e \<Rightarrow> Inl e
      | Inr port \<Rightarrow> if port \<notin> set used then Inr port else unique_port_loop env n used (i + 1) attempts)"

definition allocateUniquePort :: "poolEnv \<Rightarrow> nat \<Rightarrow> int list \<Rightarrow> string + int" where
  "allocateUniquePort env n used = unique_port_loop env n used 0 256"

definition allocateUniquePortInRange :: "poolEnv \<Rightarrow> nat \<Rightarrow> int list \<Rightarrow> int \<Rightarrow> int \<Rightarrow> string + int" where
  "allocateUniquePortInRange env n used base width =
     (case List.find (\<lambda>port. port \<notin> set used \<and> pe_listen env n port) [base..i64 (base + width) - 1] of
        Some port \<Rightarrow> Inr port
      | None \<Rightarrow> Inl (''no free port in range '' @ Itoa base @ ''-'' @ Itoa (i64 (base + width - 1))))"

definition allocatePoolPort :: "poolEnv \<Rightarrow> nat \<Rightarrow> int list \<Rightarrow> int \<Rightarrow> int \<Rightarrow> string + int" where
  "allocatePoolPort env n used base width =
     (if base > 0 \<and> width > 0 then allocateUniquePortInRange env n used base width else allocateUniquePort env n used)"

definition pool_job :: "pendingJob \<Rightarrow> int \<Rightarrow> poolJob" where
  "pool_job pd port = \<lparr>pj_idx = pd_idx pd, pj_key = pd_key pd, pj_opts = pd_o pd, pj_port = port\<rparr>"

text \<open>The pins made before an allocation fails are kept.\<close>

fun assign_ports :: "poolEnv \<Rightarrow> PoolLimits \<Rightarrow> int list \<Rightarrow> pendingJob list \<Rightarrow> pool \<Rightarrow> (string + poolJob list) \<times> pool" where
  "assign_ports env limits used [] p = (Inr [], p)"
| "assign_ports env limits used (pd # chunk) p =
     (case map_of (pc_ports p) (pd_key pd) of
        Some port \<Rightarrow>
          (case assign_ports env limits used chunk p of
             (Inl e, p) \<Rightarrow> (Inl e, p)
           | (Inr jobs, p) \<Rightarrow> (Inr (pool_job pd port # jobs), p))
      | None \<Rightarrow>
          (case allocatePoolPort env (pc_calls p) used (pl_PortBase limits) (pl_PortSpan limits) of
             Inl e \<Rightarrow> (Inl e, asked p)
           | Inr port \<Rightarrow>
               (case assign_ports env limits (port # used) chunk
                       ((asked p)\<lparr>pc_ports := AList.update (pd_key pd) port (pc_ports p)\<rparr>) of
                  (Inl e, p) \<Rightarrow> (Inl e, p)
                | (Inr jobs, p) \<Rightarrow> (Inr (pool_job pd port # jobs), p))))"

section \<open>Engines\<close>

datatype buildError = PlainError string | EngineBuildError string string

fun build_message :: "buildError \<Rightarrow> string" where
  "build_message (PlainError e) = e"
| "build_message (EngineBuildError phase e) = ''pool '' @ phase @ '': '' @ e"

definition maxTimeout :: "poolJob list \<Rightarrow> duration" where
  "maxTimeout jobs =
     (let m = foldl (\<lambda>m j. if o_Timeout (pj_opts j) > m then o_Timeout (pj_opts j) else m) 0 jobs
      in if m \<le> 0 then 5 * second else m)"

definition pool_context :: "string \<Rightarrow> string \<Rightarrow> Binding \<Rightarrow> execContext" where
  "pool_context jobsPath configPath binding =
     \<lparr>ec_Target = [], ec_TimeoutMs = 0, ec_Params = [], ec_ParamsJSONPath = [], ec_AllocPort = 0,
      ec_JobsJSONPath = jobsPath, ec_ConfigPath = configPath, ec_Bind = binding\<rparr>"

text \<open>\<^verbatim>\<open>build_config\<close> is retried once.\<close>

definition run_build :: "poolEnv \<Rightarrow> Step \<Rightarrow> execContext \<Rightarrow> pool \<Rightarrow> (string option \<times> pool) option" where
  "run_build env step ec p =
     do { r \<leftarrow> runStep (pe_step env) (pc_calls p) step ec;
          case r of
            Inr _ \<Rightarrow> Some (None, asked p)
          | Inl _ \<Rightarrow>
              do { r \<leftarrow> runStep (pe_step env) (pc_calls p + 1) step ec;
                   Some (case r of Inr _ \<Rightarrow> None | Inl e \<Rightarrow> Some e, asked (asked p)) } }"

definition readiness :: "poolJob list \<Rightarrow> duration" where
  "readiness jobs = (let t = maxTimeout jobs in if t < 20 * second then 20 * second else t)"

text \<open>A started engine is known by the number of the question that started it.\<close>

definition start_pool_engine ::
  "poolEnv \<Rightarrow> Step \<Rightarrow> execContext \<Rightarrow> poolJob list \<Rightarrow> string \<Rightarrow> string \<Rightarrow> string \<Rightarrow> pool
     \<Rightarrow> ((buildError + warmInstance) \<times> pool) option" where
  "start_pool_engine env step ec jobs key jobsPath configPath p =
     (case jobs of
        [] \<Rightarrow> None
      | j # _ \<Rightarrow>
          do { r \<leftarrow> startEngine (pe_step env) (pc_calls p) step ec (readiness jobs) (pj_port j);
               Some (case r of
                   Inl e \<Rightarrow> (Inl (EngineBuildError ''start'' e), asked p)
                 | Inr _ \<Rightarrow>
                     (Inr \<lparr>wi_jobsKey = key, wi_jobs = jobs, wi_jobsPath = jobsPath, wi_configPath = configPath,
                           wi_engine = pc_calls p, wi_refs = 0, wi_retired = False, wi_stopped = False\<rparr>,
                      (asked p)\<lparr>pc_running := pc_calls p # pc_running p\<rparr>)) })"

definition buildAndStart ::
  "poolEnv \<Rightarrow> PoolSpec \<Rightarrow> poolJob list \<Rightarrow> string \<Rightarrow> pool \<Rightarrow> ((buildError + warmInstance) \<times> pool) option" where
  "buildAndStart env spec jobs key p =
     (case pe_jobsFile env (pc_calls p) jobs of
        Inl e \<Rightarrow> Some (Inl (PlainError (''write jobs_json: '' @ e)), asked p)
      | Inr jobsPath \<Rightarrow>
          (case pe_reserve env (pc_calls p) of
             Inl e \<Rightarrow> Some (Inl (PlainError (''reserve config_path: '' @ e)), asked p)
           | Inr configPath \<Rightarrow>
               let binding = (case jobs of [] \<Rightarrow> \<lparr>SourceIP = None, Interface = []\<rparr> | j # _ \<Rightarrow> o_Bind (pj_opts j));
                   ec = pool_context jobsPath configPath binding in
               do { build \<leftarrow> po_BuildConfig spec;
                    (buildErr, p) \<leftarrow> run_build env build ec (asked p);
                    case buildErr of
                      Some e \<Rightarrow> Some (Inl (EngineBuildError ''build_config'' e), p)
                    | None \<Rightarrow> do { start \<leftarrow> po_Start spec;
                                  start_pool_engine env start ec jobs key jobsPath configPath p } }))"

definition teardownLocked :: "poolEnv \<Rightarrow> PoolSpec \<Rightarrow> warmInstance \<Rightarrow> pool \<Rightarrow> pool option" where
  "teardownLocked env spec w p =
     (if wi_stopped w then Some p
      else do {
        _ \<leftarrow> (case po_Stop spec of
                None \<Rightarrow> Some ()
              | Some stop \<Rightarrow> map_option (\<lambda>_. ()) (runStep (pe_step env) (pc_calls p) stop
                  (pool_context (wi_jobsPath w) (wi_configPath w) \<lparr>SourceIP = None, Interface = []\<rparr>)));
        Some ((asked p)\<lparr>pc_running := remove1 (wi_engine w) (pc_running p)\<rparr>) })"

definition healthyLocked :: "poolEnv \<Rightarrow> nat \<Rightarrow> warmInstance \<Rightarrow> bool" where
  "healthyLocked env n w \<longleftrightarrow> pe_alive env n (wi_engine w) \<and> list_all (\<lambda>j. pe_dial env n (pj_port j)) (wi_jobs w)"

text \<open>\<^verbatim>\<open>errors.Is\<close> with a deadline adds nothing: the one error of a started engine that wraps a
  deadline is the one whose text says that the port did not become ready.\<close>

definition shouldBisect :: "buildError \<Rightarrow> nat \<Rightarrow> bool" where
  "shouldBisect err chunkSize =
     (if chunkSize \<le> 1 then False
      else (case err of
              PlainError _ \<Rightarrow> True
            | EngineBuildError phase message \<Rightarrow>
                if phase = ''build_config''
                then \<not> (Contains message ''not found'' \<or> Contains message ''exit status 127'' \<or>
                        Contains message ''executable file not found'')
                else \<not> Contains message ''did not become ready''))"

section \<open>Testing jobs\<close>

definition shouldRetryTransient :: "pool \<Rightarrow> string \<Rightarrow> Result \<Rightarrow> bool" where
  "shouldRetryTransient p key result =
     (if key = [] \<or> r_Ok result \<or> r_Skip result \<or> r_ErrorCode result \<noteq> [] then False
      else if map_of (pc_lastOk p) key \<noteq> Some True then False
      else Contains (r_Error result) ''jobprobe:'' \<and>
           (Contains (r_Error result) ''context deadline exceeded'' \<or> Contains (r_Error result) ''i/o timeout''))"

definition remember :: "string \<Rightarrow> Result \<Rightarrow> pool \<Rightarrow> pool" where
  "remember key result p = (asked (asked p))\<lparr>pc_lastOk := AList.update key (r_Ok result) (pc_lastOk p)\<rparr>"

definition skip_result :: "Module \<Rightarrow> Options \<Rightarrow> Result" where
  "skip_result m opts = result_zero\<lparr>r_Skip := True, r_Type := m_Name m, r_Target := o_Target opts, r_Seq := o_Seq opts\<rparr>"

definition testJob :: "poolEnv \<Rightarrow> Module \<Rightarrow> poolJob \<Rightarrow> pool \<Rightarrow> (Result \<times> pool) option" where
  "testJob env m j p =
     (let opts = pj_opts j; n = pc_calls p; se = pe_step env;
          retryKey = (if o_ProbeID opts = [] then pj_key j else o_ProbeID opts) in
      if \<not> pe_wait env n (o_Destination opts) then Some (skip_result m opts, asked p)
      else (case se_params se n (o_Params opts) of
              Inl e \<Rightarrow> Some (result_Fail (m_Name m) (o_Target opts) (o_Seq opts) (''write params_json: '' @ e), asked p)
            | Inr path \<Rightarrow>
                let ec = exec_context opts path (pj_port j) in
                do { run \<leftarrow> m_Run m;
                     result \<leftarrow> runAndCollect se n m run ec opts;
                     if shouldRetryTransient p retryKey result \<and> \<not> pe_cancelled env n
                     then do { result \<leftarrow> runAndCollect se (n + 1) m run ec opts;
                               Some (result, remember retryKey result p) }
                     else Some (result, remember retryKey result p) }))"

fun testJobs :: "poolEnv \<Rightarrow> Module \<Rightarrow> poolJob list \<Rightarrow> pool \<times> Result list \<Rightarrow> (pool \<times> Result list) option" where
  "testJobs env m [] s = Some s"
| "testJobs env m (j # jobs) (p, out) =
     do { (r, p) \<leftarrow> testJob env m j p; testJobs env m jobs (p, out[pj_idx j := r]) }"

definition failJobs :: "string \<Rightarrow> string \<Rightarrow> poolJob list \<Rightarrow> Result list \<Rightarrow> Result list" where
  "failJobs checkType err jobs out =
     fold (\<lambda>j out. out[pj_idx j := result_Fail checkType (o_Target (pj_opts j)) (o_Seq (pj_opts j)) err]) jobs out"

definition failPending :: "string \<Rightarrow> string \<Rightarrow> pendingJob list \<Rightarrow> Result list \<Rightarrow> Result list" where
  "failPending checkType err chunk out =
     fold (\<lambda>q out. out[pd_idx q := result_Fail checkType (o_Target (pd_o q)) (o_Seq (pd_o q)) err]) chunk out"

section \<open>Bisection\<close>

text \<open>A private instance for the jobs; when it cannot be built, the halves.\<close>

function runEphemeral ::
  "poolEnv \<Rightarrow> Module \<Rightarrow> PoolSpec \<Rightarrow> poolJob list \<Rightarrow> pool \<times> Result list \<Rightarrow> (pool \<times> Result list) option" where
  "runEphemeral env m spec jobs (p, out) =
     do { (built, p) \<leftarrow> buildAndStart env spec jobs (hashJobs env jobs) p;
          case built of
            Inl err \<Rightarrow>
              if length jobs > 1 \<and> shouldBisect err (length jobs)
              then do { s \<leftarrow> runEphemeral env m spec (take (length jobs div 2) jobs) (p, out);
                        runEphemeral env m spec (drop (length jobs div 2) jobs) s }
              else Some (p, failJobs (m_Name m) (build_message err) jobs out)
          | Inr w \<Rightarrow>
              do { (p, out) \<leftarrow> testJobs env m jobs (p, out);
                   p \<leftarrow> teardownLocked env spec w p;
                   Some (p, out) } }"
  by pat_completeness auto
termination
  by (relation "measure (\<lambda>(env, m, spec, jobs, s). length jobs)") auto

declare runEphemeral.simps [simp del]

fun bisect_ports :: "poolEnv \<Rightarrow> pendingJob list \<Rightarrow> pool \<Rightarrow> (string + poolJob list) \<times> pool" where
  "bisect_ports env [] p = (Inr [], p)"
| "bisect_ports env (pd # chunk) p =
     (case map_of (pc_ports p) (pd_key pd) of
        Some port \<Rightarrow>
          (case bisect_ports env chunk p of
             (Inl e, p) \<Rightarrow> (Inl e, p)
           | (Inr jobs, p) \<Rightarrow> (Inr (pool_job pd port # jobs), p))
      | None \<Rightarrow>
          (case pe_alloc env (pc_calls p) 0 of
             Inl e \<Rightarrow> (Inl e, asked p)
           | Inr port \<Rightarrow>
               (case bisect_ports env chunk ((asked p)\<lparr>pc_ports := AList.update (pd_key pd) port (pc_ports p)\<rparr>) of
                  (Inl e, p) \<Rightarrow> (Inl e, p)
                | (Inr jobs, p) \<Rightarrow> (Inr (pool_job pd port # jobs), p))))"

definition runBisected ::
  "poolEnv \<Rightarrow> Module \<Rightarrow> PoolSpec \<Rightarrow> pendingJob list \<Rightarrow> pool \<times> Result list \<Rightarrow> (pool \<times> Result list) option" where
  "runBisected env m spec chunk s =
     (case s of (p, out) \<Rightarrow>
        (case bisect_ports env chunk p of
           (Inl e, p) \<Rightarrow> Some (p, failPending (m_Name m) (''allocate port: '' @ e) chunk out)
         | (Inr jobs, p) \<Rightarrow> runEphemeral env m spec jobs (p, out)))"

section \<open>Slots\<close>

datatype entered = NoPorts string | Entered "poolJob list" | NotBuilt "poolJob list" buildError

definition used_ports :: "pool \<Rightarrow> int list" where
  "used_ports p = map snd (pc_ports p)"

text \<open>Retiring the instance of a slot: it is torn down now when nobody tests against it.\<close>

definition retire :: "poolEnv \<Rightarrow> PoolSpec \<Rightarrow> nat \<Rightarrow> pool \<Rightarrow> pool option" where
  "retire env spec slot p =
     (case map_of (pc_slots p) slot of
        None \<Rightarrow> Some p
      | Some w \<Rightarrow>
          if wi_refs w = 0
          then do { p \<leftarrow> teardownLocked env spec w p; Some (p\<lparr>pc_slots := AList.delete slot (pc_slots p)\<rparr>) }
          else Some (p\<lparr>pc_slots := AList.update slot (w\<lparr>wi_retired := True\<rparr>) (pc_slots p)\<rparr>))"

definition reusable :: "poolEnv \<Rightarrow> nat \<Rightarrow> string \<Rightarrow> pool \<Rightarrow> warmInstance option" where
  "reusable env slot key p =
     (case map_of (pc_slots p) slot of
        None \<Rightarrow> None
      | Some w \<Rightarrow> if \<not> wi_retired w \<and> wi_jobsKey w = key \<and> healthyLocked env (pc_calls p) w then Some w else None)"

definition slot_enter ::
  "poolEnv \<Rightarrow> PoolSpec \<Rightarrow> PoolLimits \<Rightarrow> nat \<Rightarrow> pendingJob list \<Rightarrow> string list \<Rightarrow> pool \<Rightarrow> (entered \<times> pool) option" where
  "slot_enter env spec limits slot chunk live p =
     (case assign_ports env limits (used_ports p) chunk p of
        (Inl e, p) \<Rightarrow> Some (NoPorts e, p)
      | (Inr jobs, p) \<Rightarrow>
          let p = p\<lparr>pc_ports := filter (\<lambda>(k, _). k \<in> set live) (pc_ports p)\<rparr>; key = hashJobs env jobs in
          (case reusable env slot key p of
             Some w \<Rightarrow> Some (Entered jobs,
               (asked p)\<lparr>pc_slots := AList.update slot (w\<lparr>wi_refs := wi_refs w + 1\<rparr>) (pc_slots p)\<rparr>)
           | None \<Rightarrow>
               do { p \<leftarrow> retire env spec slot (asked p);
                    (built, p) \<leftarrow> buildAndStart env spec jobs key p;
                    Some (case built of
                        Inl err \<Rightarrow> (NotBuilt jobs err, p)
                      | Inr w \<Rightarrow> (Entered jobs,
                          p\<lparr>pc_slots := AList.update slot (w\<lparr>wi_refs := 1\<rparr>) (pc_slots p)\<rparr>)) }))"

definition releaseSlot :: "poolEnv \<Rightarrow> PoolSpec \<Rightarrow> nat \<Rightarrow> pool \<Rightarrow> pool option" where
  "releaseSlot env spec slot p =
     (case map_of (pc_slots p) slot of
        None \<Rightarrow> Some p
      | Some w \<Rightarrow>
          let w = w\<lparr>wi_refs := wi_refs w - 1\<rparr> in
          if wi_retired w \<and> wi_refs w \<le> 0
          then do { p \<leftarrow> teardownLocked env spec w p; Some (p\<lparr>pc_slots := AList.delete slot (pc_slots p)\<rparr>) }
          else Some (p\<lparr>pc_slots := AList.update slot w (pc_slots p)\<rparr>))"

definition runSlot ::
  "poolEnv \<Rightarrow> Module \<Rightarrow> PoolSpec \<Rightarrow> PoolLimits \<Rightarrow> nat \<Rightarrow> pendingJob list \<Rightarrow> string list \<Rightarrow> pool \<times> Result list
     \<Rightarrow> (pool \<times> Result list) option" where
  "runSlot env m spec limits slot chunk live s =
     (case s of (p, out) \<Rightarrow>
        do { (e, p) \<leftarrow> slot_enter env spec limits slot chunk live p;
             case e of
               NoPorts err \<Rightarrow> Some (p, failPending (m_Name m) (''allocate port: '' @ err) chunk out)
             | NotBuilt jobs err \<Rightarrow>
                 if shouldBisect err (length chunk) then runBisected env m spec chunk (p, out)
                 else Some (p, failJobs (m_Name m) (build_message err) jobs out)
             | Entered jobs \<Rightarrow>
                 do { (p, out) \<leftarrow> testJobs env m jobs (p, out);
                      p \<leftarrow> releaseSlot env spec slot p;
                      Some (p, out) } })"

section \<open>Batches\<close>

fun add_group :: "pendingJob \<Rightarrow> (string \<times> pendingJob list) list \<Rightarrow> (string \<times> pendingJob list) list" where
  "add_group pd [] = [(pd_key pd, [pd])]"
| "add_group pd ((k, g) # gs) = (if k = pd_key pd then (k, g @ [pd]) # gs else (k, g) # add_group pd gs)"

text \<open>The groups in the order their keys appear, and the answers to the invalid options.\<close>

fun group_loop ::
  "poolEnv \<Rightarrow> Module \<Rightarrow> nat \<Rightarrow> Options list \<Rightarrow> (string \<times> pendingJob list) list \<times> Result list
     \<Rightarrow> (string \<times> pendingJob list) list \<times> Result list" where
  "group_loop env m i [] s = s"
| "group_loop env m i (opts # os) (groups, out) =
     (let opts = opts\<lparr>o_Timeout := withMinTimeout m (o_Timeout opts)\<rparr> in
      case validateRequest (parse_number (pe_step env)) (m_Request m) (o_Params opts) of
        Some msg \<Rightarrow>
          group_loop env m (i + 1) os (groups, out[i := result_Invalid (m_Name m) (o_Target opts) (o_Seq opts) msg])
      | None \<Rightarrow>
          group_loop env m (i + 1) os
            (add_group \<lparr>pd_idx = i, pd_key = jobKey env opts, pd_o = opts\<rparr> groups, out))"

text \<open>A chunk size that is not positive would never end the loop or panic.\<close>

function slots_loop ::
  "poolEnv \<Rightarrow> Module \<Rightarrow> PoolSpec \<Rightarrow> PoolLimits \<Rightarrow> nat \<Rightarrow> nat \<Rightarrow> pendingJob list \<Rightarrow> string list \<Rightarrow> pool \<times> Result list
     \<Rightarrow> (pool \<times> Result list) option" where
  "slots_loop env m spec limits maxJobs slot pending live s =
     (if pending = [] then Some s
      else if maxJobs = 0 then None
      else do { s \<leftarrow> runSlot env m spec limits slot (take maxJobs pending) live s;
                slots_loop env m spec limits maxJobs (slot + 1) (drop maxJobs pending) live s })"
  by pat_completeness auto
termination
  by (relation "measure (\<lambda>(env, m, spec, limits, maxJobs, slot, pending, live, s). length pending)") auto

declare slots_loop.simps [simp del]

definition fan_out :: "pendingJob list \<Rightarrow> Result list \<Rightarrow> Result list" where
  "fan_out grp out =
     (case grp of
        [] \<Rightarrow> out
      | g # dups \<Rightarrow> fold (\<lambda>d res. res[pd_idx d := (out ! pd_idx g)\<lparr>r_Seq := o_Seq (pd_o d)\<rparr>]) dups out)"

definition CheckBatch ::
  "poolEnv \<Rightarrow> Module \<Rightarrow> PoolSpec \<Rightarrow> PoolLimits \<Rightarrow> Options list \<Rightarrow> pool \<Rightarrow> (Result list \<times> pool) option" where
  "CheckBatch env m spec limits os p =
     (case group_loop env m 0 os ([], replicate (length os) result_zero) of
        (groups, out) \<Rightarrow>
          let pending = sort_key pd_key (map (\<lambda>(k, g). hd g) groups); live = map pd_key pending;
              maxJobs = nat (limits_maxJobsPerInstance limits (po_MaxJobsPerInstance spec)) in
          do { (p, out) \<leftarrow> slots_loop env m spec limits maxJobs 0 pending live (p, out);
               Some (fold (\<lambda>(k, g). fan_out g) groups out, p) })"

definition pool_Check ::
  "poolEnv \<Rightarrow> Module \<Rightarrow> PoolSpec \<Rightarrow> PoolLimits \<Rightarrow> Options \<Rightarrow> pool \<Rightarrow> (Result \<times> pool) option" where
  "pool_Check env m spec limits opts p =
     do { (results, p) \<leftarrow> CheckBatch env m spec limits [opts] p;
          Some (case results of
              [] \<Rightarrow> result_Fail (m_Name m) (o_Target opts) (o_Seq opts) ''pool: no result produced''
            | r # _ \<Rightarrow> r, p) }"

fun close_loop :: "poolEnv \<Rightarrow> PoolSpec \<Rightarrow> (nat \<times> warmInstance) list \<Rightarrow> pool \<Rightarrow> pool option" where
  "close_loop env spec [] p = Some p"
| "close_loop env spec ((slot, w) # ws) p =
     (if wi_refs w = 0
      then do { p \<leftarrow> teardownLocked env spec w p;
                close_loop env spec ws (p\<lparr>pc_slots := AList.delete slot (pc_slots p)\<rparr>) }
      else close_loop env spec ws (p\<lparr>pc_slots := AList.update slot (w\<lparr>wi_retired := True\<rparr>) (pc_slots p)\<rparr>))"

definition Close :: "poolEnv \<Rightarrow> PoolSpec \<Rightarrow> pool \<Rightarrow> pool option" where
  "Close env spec p = close_loop env spec (pc_slots p) p"

end
