(* ===== verification/Pool_Guarantees.thy ===== *)
theory Pool_Guarantees
  imports Pool Dispatch
begin

text \<open>
  What the pooled checker guarantees to a caller that does not overlap its batches: no batch panics
  or hangs, every option is answered in its place, at most one engine runs per slot and none after
  the pool is closed. The proofs follow the code from one job up to a whole history of batches; the
  locale \<open>batch_prober\<close> states what the dispatcher relies on.
\<close>

section \<open>Every question is answered in its place\<close>

text \<open>\<open>fills m ps out out'\<close>: the places of \<open>ps\<close> hold an answer of the module with the sequence number
  asked for, every other place is as before.\<close>

definition fills :: "Module \<Rightarrow> (nat \<times> int) list \<Rightarrow> Result list \<Rightarrow> Result list \<Rightarrow> bool" where
  "fills m ps out out' \<longleftrightarrow>
     length out' = length out \<and>
     (\<forall>(i, seq)\<in>set ps. r_Seq (out' ! i) = seq \<and> r_Type (out' ! i) = m_Name m) \<and>
     (\<forall>i. i \<notin> fst ` set ps \<longrightarrow> out' ! i = out ! i)"

lemma fills_Nil [simp]: "fills m [] out out"
  by (simp add: fills_def)

lemma fills_append:
  assumes "fills m ps out out1" "fills m qs out1 out2" "fst ` set ps \<inter> fst ` set qs = {}"
  shows "fills m (ps @ qs) out out2"
proof -
  have "r_Seq (out2 ! i) = seq \<and> r_Type (out2 ! i) = m_Name m" if "(i, seq) \<in> set ps" for i seq
  proof -
    have "i \<notin> fst ` set qs" using that assms(3) by force
    then show ?thesis using that assms(1,2) by (fastforce simp: fills_def)
  qed
  with assms show ?thesis by (auto simp: fills_def image_Un)
qed

lemma fills_one: "i < length out \<Longrightarrow> r_Seq r = seq \<Longrightarrow> r_Type r = m_Name m \<Longrightarrow> fills m [(i, seq)] out (out[i := r])"
  by (auto simp: fills_def)

lemma fills_Cons:
  assumes "fills m [(i, seq)] out out1" "fills m ps out1 out2" "i \<notin> fst ` set ps"
  shows "fills m ((i, seq) # ps) out out2"
  using fills_append [OF assms(1,2)] assms(3) by simp

lemma fills_length: "fills m ps out out' \<Longrightarrow> length out' = length out"
  by (simp add: fills_def)

text \<open>A list of updates at distinct places.\<close>

lemma fold_fills:
  assumes "distinct (map f xs)" "\<forall>x\<in>set xs. f x < length out" "\<forall>x\<in>set xs. r_Seq (g x) = h x \<and> r_Type (g x) = m_Name m"
  shows "fills m (map (\<lambda>x. (f x, h x)) xs) out (fold (\<lambda>x out. out[f x := g x]) xs out)"
  using assms
proof (induction xs arbitrary: out)
  case (Cons x xs)
  have "fills m (map (\<lambda>x. (f x, h x)) xs) (out[f x := g x]) (fold (\<lambda>x out. out[f x := g x]) xs (out[f x := g x]))"
    using Cons by simp
  moreover have "fills m [(f x, h x)] out (out[f x := g x])" using Cons.prems by (intro fills_one) auto
  ultimately show ?case using Cons.prems by (simp add: fills_Cons o_def image_image)
qed simp

abbreviation job_places :: "poolJob list \<Rightarrow> (nat \<times> int) list" where
  "job_places jobs \<equiv> map (\<lambda>j. (pj_idx j, o_Seq (pj_opts j))) jobs"

abbreviation pending_places :: "pendingJob list \<Rightarrow> (nat \<times> int) list" where
  "pending_places ps \<equiv> map (\<lambda>q. (pd_idx q, o_Seq (pd_o q))) ps"

lemma failJobs_fills:
  "distinct (map pj_idx jobs) \<Longrightarrow> \<forall>j\<in>set jobs. pj_idx j < length out \<Longrightarrow>
     fills m (job_places jobs) out (failJobs (m_Name m) err jobs out)"
  unfolding failJobs_def by (rule fold_fills) (simp_all add: result_Fail_def)

lemma failPending_fills:
  "distinct (map pd_idx ps) \<Longrightarrow> \<forall>q\<in>set ps. pd_idx q < length out \<Longrightarrow>
     fills m (pending_places ps) out (failPending (m_Name m) err ps out)"
  unfolding failPending_def by (rule fold_fills) (simp_all add: result_Fail_def)

section \<open>The parts that leave the slots alone\<close>

text \<open>A pooled module as validation accepts it, whose stop step, if any, names a command.\<close>

definition pooled :: "Module \<Rightarrow> PoolSpec \<Rightarrow> bool" where
  "pooled m spec \<longleftrightarrow> (\<exists>compile m0. module_ok compile m0 \<and> m = with_pattern compile m0 \<and> m_Action m0 = [] \<and>
     m_Pool m0 = Some spec \<and> (po_Stop spec = None \<or> has_command (po_Stop spec)))"

lemma pooledD:
  assumes "pooled m spec"
  shows "0 < po_MaxJobsPerInstance spec" "has_command (po_BuildConfig spec)" "has_command (po_Start spec)"
    "po_Stop spec = None \<or> has_command (po_Stop spec)" "has_command (m_Run m)"
  using assms by (auto simp: pooled_def module_ok_def pool_ok_def)

definition same_slots :: "pool \<Rightarrow> pool \<Rightarrow> bool" where
  "same_slots p p' \<longleftrightarrow> pc_slots p' = pc_slots p \<and> pc_ports p' = pc_ports p \<and> pc_running p' = pc_running p \<and>
     pc_calls p \<le> pc_calls p'"

lemma same_slots_refl [simp]: "same_slots p p"
  and same_slots_asked [simp]: "same_slots p (asked p)"
  and same_slots_remember [simp]: "same_slots p (remember key r p)"
  by (simp_all add: same_slots_def asked_def remember_def)

lemma same_slots_trans: "same_slots p q \<Longrightarrow> same_slots q r \<Longrightarrow> same_slots p r"
  by (simp add: same_slots_def)

lemma runAndCollect_pooled:
  assumes "pooled m spec" "m_Run m = Some step"
  shows "\<exists>r. runAndCollect env n m step ec opts = Some r \<and> r_Type r = m_Name m \<and> r_Seq r = o_Seq opts"
proof -
  obtain compile m0 where m0: "module_ok compile m0" "m = with_pattern compile m0" "m_Action m0 = []"
    using assms(1) by (auto simp: pooled_def)
  have "step_Command step \<noteq> []" using assms pooledD(5) [OF assms(1)] by (simp add: has_command_def)
  from runAndCollect_answers [OF m0(1,3) this, of opts env n ec] show ?thesis using m0(2) by (auto simp: answers_def)
qed

lemma testJob_total:
  assumes "pooled m spec"
  shows "\<exists>r p'. testJob env m j p = Some (r, p') \<and> r_Type r = m_Name m \<and> r_Seq r = o_Seq (pj_opts j) \<and> same_slots p p'"
proof -
  obtain step where run: "m_Run m = Some step" using pooledD(5) [OF assms] by (auto simp: has_command_def split: option.splits)
  let ?opts = "pj_opts j" and ?n = "pc_calls p"
  show ?thesis
  proof (cases "pe_wait env ?n (o_Destination ?opts)")
    case wait: True
    show ?thesis
    proof (cases "se_params (pe_step env) ?n (o_Params ?opts)")
      case (Inr path)
      obtain r0 where r0: "runAndCollect (pe_step env) ?n m step (exec_context ?opts path (pj_port j)) ?opts = Some r0"
        "r_Type r0 = m_Name m" "r_Seq r0 = o_Seq ?opts" using runAndCollect_pooled [OF assms run] by blast
      obtain r1 where r1: "runAndCollect (pe_step env) (?n + 1) m step (exec_context ?opts path (pj_port j)) ?opts = Some r1"
        "r_Type r1 = m_Name m" "r_Seq r1 = o_Seq ?opts" using runAndCollect_pooled [OF assms run] by blast
      show ?thesis using wait Inr r0 r1 by (auto simp: testJob_def Let_def run)
    qed (use wait in \<open>simp add: testJob_def Let_def result_Fail_def\<close>)
  qed (simp add: testJob_def Let_def skip_result_def)
qed

lemma testJobs_total:
  assumes "pooled m spec" "distinct (map pj_idx jobs)" "\<forall>j\<in>set jobs. pj_idx j < length out"
  shows "\<exists>p' out'. testJobs env m jobs (p, out) = Some (p', out') \<and> fills m (job_places jobs) out out' \<and> same_slots p p'"
  using assms(2,3)
proof (induction jobs arbitrary: p out)
  case (Cons j jobs)
  obtain r p1 where t: "testJob env m j p = Some (r, p1)" "r_Type r = m_Name m" "r_Seq r = o_Seq (pj_opts j)" "same_slots p p1"
    using testJob_total [OF assms(1)] by blast
  have "distinct (map pj_idx jobs)" "\<forall>j'\<in>set jobs. pj_idx j' < length (out[pj_idx j := r])" using Cons.prems by auto
  from Cons.IH [OF this] obtain p2 out2 where rest: "testJobs env m jobs (p1, out[pj_idx j := r]) = Some (p2, out2)"
    "fills m (job_places jobs) (out[pj_idx j := r]) out2" "same_slots p1 p2" by blast
  have "fills m [(pj_idx j, o_Seq (pj_opts j))] out (out[pj_idx j := r])"
    using Cons.prems t by (intro fills_one) auto
  from fills_Cons [OF this rest(2)] Cons.prems have "fills m (job_places (j # jobs)) out out2" by (auto simp: image_image)
  with t rest show ?case by (auto intro: same_slots_trans)
qed simp

lemma run_build_total:
  assumes "step_Command step \<noteq> []"
  shows "\<exists>e p'. run_build env step ec p = Some (e, p') \<and> same_slots p p'"
proof -
  obtain r0 where r0: "runStep (pe_step env) (pc_calls p) step ec = Some r0" using runStep_total [OF assms] by blast
  obtain r1 where r1: "runStep (pe_step env) (pc_calls p + 1) step ec = Some r1" using runStep_total [OF assms] by blast
  show ?thesis
    by (cases r0) (use r0 r1 in \<open>auto simp: run_build_def intro: same_slots_trans [OF same_slots_asked]\<close>)
qed

text \<open>What a build leaves: a new engine, or nothing.\<close>

definition built_ok :: "poolJob list \<Rightarrow> string \<Rightarrow> pool \<Rightarrow> buildError + warmInstance \<Rightarrow> pool \<Rightarrow> bool" where
  "built_ok jobs key p b p' \<longleftrightarrow>
     pc_slots p' = pc_slots p \<and> pc_ports p' = pc_ports p \<and> pc_calls p \<le> pc_calls p' \<and>
     (case b of
        Inl _ \<Rightarrow> pc_running p' = pc_running p
      | Inr w \<Rightarrow> pc_running p' = wi_engine w # pc_running p \<and> pc_calls p \<le> wi_engine w \<and> wi_engine w < pc_calls p' \<and>
          wi_jobsKey w = key \<and> wi_jobs w = jobs \<and> wi_refs w = 0 \<and> \<not> wi_retired w \<and> \<not> wi_stopped w)"

lemma start_pool_engine_total:
  assumes "step_Command step \<noteq> []" "jobs \<noteq> []"
  shows "\<exists>b p'. start_pool_engine env step ec jobs key jp cp p = Some (b, p') \<and> built_ok jobs key p b p'"
proof -
  obtain j js where j: "jobs = j # js" using assms(2) by (cases jobs) auto
  obtain r where r: "startEngine (pe_step env) (pc_calls p) step ec (readiness jobs) (pj_port j) = Some r"
    using startEngine_total [OF assms(1)] by blast
  show ?thesis
    by (cases r) (use r j in \<open>auto simp: start_pool_engine_def built_ok_def asked_def\<close>)
qed

lemma built_ok_later: "same_slots p p1 \<Longrightarrow> built_ok jobs key p1 b p' \<Longrightarrow> built_ok jobs key p b p'"
  by (auto simp: built_ok_def same_slots_def split: sum.splits)

lemma built_ok_Inl: "same_slots p p' \<Longrightarrow> built_ok jobs key p (Inl e) p'"
  by (simp add: built_ok_def same_slots_def)

lemma buildAndStart_total:
  assumes "pooled m spec" "jobs \<noteq> []"
  shows "\<exists>b p'. buildAndStart env spec jobs key p = Some (b, p') \<and> built_ok jobs key p b p'"
proof -
  obtain build start where st: "po_BuildConfig spec = Some build" "step_Command build \<noteq> []"
    "po_Start spec = Some start" "step_Command start \<noteq> []"
    using pooledD(2,3) [OF assms(1)] by (auto simp: has_command_def split: option.splits)
  let ?bind = "case jobs of [] \<Rightarrow> \<lparr>SourceIP = None, Interface = []\<rparr> | j # _ \<Rightarrow> o_Bind (pj_opts j)"
  show ?thesis
  proof (cases "pe_jobsFile env (pc_calls p) jobs")
    case (Inr jp)
    show ?thesis
    proof (cases "pe_reserve env (pc_calls p)")
      case (Inr cp)
      obtain e p1 where b: "run_build env build (pool_context jp cp ?bind) (asked p) = Some (e, p1)" "same_slots (asked p) p1"
        using run_build_total [OF st(2)] by blast
      then have p1: "same_slots p p1" using same_slots_trans [OF same_slots_asked] by blast
      obtain b2 p2 where s: "start_pool_engine env start (pool_context jp cp ?bind) jobs key jp cp p1 = Some (b2, p2)"
        "built_ok jobs key p1 b2 p2" using start_pool_engine_total [OF st(4) assms(2)] by blast
      from b s st(1,3) Inr \<open>pe_jobsFile env (pc_calls p) jobs = Inr jp\<close> show ?thesis
        using built_ok_later [OF p1 s(2)] built_ok_Inl [OF p1] by (cases e) (simp_all add: buildAndStart_def Let_def)
    qed (use Inr in \<open>simp add: buildAndStart_def built_ok_Inl\<close>)
  qed (simp add: buildAndStart_def built_ok_Inl)
qed

lemma teardownLocked_total:
  assumes "pooled m spec" "\<not> wi_stopped w"
  shows "teardownLocked env spec w p = Some ((asked p)\<lparr>pc_running := remove1 (wi_engine w) (pc_running p)\<rparr>)"
proof (cases "po_Stop spec")
  case (Some stop)
  then have "step_Command stop \<noteq> []" using pooledD(4) [OF assms(1)] by (simp add: has_command_def)
  then obtain x where "runStep (pe_step env) (pc_calls p) stop
      (pool_context (wi_jobsPath w) (wi_configPath w) \<lparr>SourceIP = None, Interface = []\<rparr>) = Some x"
    using runStep_total by blast
  with Some assms(2) show ?thesis by (simp add: teardownLocked_def)
qed (use assms(2) in \<open>simp add: teardownLocked_def\<close>)

lemma runEphemeral_total:
  assumes "pooled m spec" "jobs \<noteq> []" "distinct (map pj_idx jobs)" "\<forall>j\<in>set jobs. pj_idx j < length out"
  shows "\<exists>p' out'. runEphemeral env m spec jobs (p, out) = Some (p', out') \<and> fills m (job_places jobs) out out' \<and> same_slots p p'"
  using assms(2-4)
proof (induction "length jobs" arbitrary: jobs p out rule: less_induct)
  case less
  obtain b p1 where b: "buildAndStart env spec jobs (hashJobs env jobs) p = Some (b, p1)" "built_ok jobs (hashJobs env jobs) p b p1"
    using buildAndStart_total [OF assms(1) less.prems(1)] by blast
  show ?case
  proof (cases b)
    case (Inr w)
    obtain p2 out2 where t: "testJobs env m jobs (p1, out) = Some (p2, out2)" "fills m (job_places jobs) out out2" "same_slots p1 p2"
      using testJobs_total [OF assms(1) less.prems(2,3)] by blast
    have "\<not> wi_stopped w" using b(2) Inr by (simp add: built_ok_def)
    note td = teardownLocked_total [OF assms(1) this, of env p2]
    have "same_slots p ((asked p2)\<lparr>pc_running := remove1 (wi_engine w) (pc_running p2)\<rparr>)"
      using b(2) t(3) Inr by (simp add: built_ok_def same_slots_def asked_def)
    then show ?thesis using b(1) Inr t td by (simp add: runEphemeral.simps [of env m spec jobs])
  next
    case (Inl err)
    have p1: "same_slots p p1" using b(2) Inl by (simp add: built_ok_def same_slots_def)
    show ?thesis
    proof (cases "length jobs > 1 \<and> shouldBisect err (length jobs)")
      case True
      let ?h = "length jobs div 2"
      have parts: "jobs = take ?h jobs @ drop ?h jobs" by simp
      have half: "0 < ?h" "?h < length jobs" using True by auto
      have left: "length (take ?h jobs) < length jobs" "take ?h jobs \<noteq> []" using half by auto
      have right: "length (drop ?h jobs) < length jobs" "drop ?h jobs \<noteq> []" using half by auto
      have "distinct (map pj_idx (take ?h jobs) @ map pj_idx (drop ?h jobs))"
        using less.prems(2) by (metis append_take_drop_id map_append)
      then have dist: "distinct (map pj_idx (take ?h jobs))" "distinct (map pj_idx (drop ?h jobs))"
        "fst ` set (job_places (take ?h jobs)) \<inter> fst ` set (job_places (drop ?h jobs)) = {}"
        unfolding distinct_append by (simp_all add: image_image)
      obtain p2 out2 where l: "runEphemeral env m spec (take ?h jobs) (p1, out) = Some (p2, out2)"
        "fills m (job_places (take ?h jobs)) out out2" "same_slots p1 p2"
        using less.hyps [OF left(1) left(2) dist(1)] less.prems(3) by (meson in_set_takeD)
      have "\<forall>j\<in>set (drop ?h jobs). pj_idx j < length out2"
        using less.prems(3) l(2) by (auto simp: fills_def dest: in_set_dropD)
      from less.hyps [OF right(1) right(2) dist(2) this, of p2]
      obtain p3 out3 where r: "runEphemeral env m spec (drop ?h jobs) (p2, out2) = Some (p3, out3)"
        "fills m (job_places (drop ?h jobs)) out2 out3" "same_slots p2 p3" by blast
      have "fills m (job_places jobs) out out3"
        using fills_append [OF l(2) r(2) dist(3)] parts by (metis map_append)
      moreover have "same_slots p p3" using p1 l(3) r(3) same_slots_trans by blast
      ultimately show ?thesis using b(1) Inl True l(1) r(1) by (simp add: runEphemeral.simps [of env m spec jobs])
    next
      case False
      then show ?thesis using b(1) Inl p1 failJobs_fills [OF less.prems(2,3)]
        by (auto simp: runEphemeral.simps [of env m spec jobs])
    qed
  qed
qed

section \<open>Entering and leaving a slot\<close>

lemma assign_ports_spec:
  assumes "assign_ports env limits used chunk p = (r, p')"
  shows "pc_slots p' = pc_slots p \<and> pc_running p' = pc_running p \<and> pc_calls p \<le> pc_calls p' \<and>
    (\<forall>jobs. r = Inr jobs \<longrightarrow> map pj_idx jobs = map pd_idx chunk \<and> map pj_key jobs = map pd_key chunk \<and> map pj_opts jobs = map pd_o chunk)"
  using assms
proof (induction env limits used chunk p arbitrary: r p' rule: assign_ports.induct)
  case (2 env limits used pd chunk p)
  show ?case
  proof (cases "map_of (pc_ports p) (pd_key pd)")
    case (Some port)
    obtain r1 p1 where a: "assign_ports env limits used chunk p = (r1, p1)" by fastforce
    from 2(2) [OF Some a] 2(3) Some a show ?thesis by (cases r1) (auto simp: pool_job_def)
  next
    case None
    show ?thesis
    proof (cases "allocatePoolPort env (pc_calls p) used (pl_PortBase limits) (pl_PortSpan limits)")
      case (Inl e)
      with None 2(3) show ?thesis by (auto simp: asked_def)
    next
      case (Inr port)
      obtain r1 p1 where a: "assign_ports env limits (port # used) chunk
          ((asked p)\<lparr>pc_ports := AList.update (pd_key pd) port (pc_ports p)\<rparr>) = (r1, p1)" by fastforce
      from 2(1) [OF None Inr a] 2(3) None Inr a show ?thesis by (cases r1) (auto simp: pool_job_def asked_def)
    qed
  qed
qed auto

lemma bisect_ports_spec:
  assumes "bisect_ports env chunk p = (r, p')"
  shows "pc_slots p' = pc_slots p \<and> pc_running p' = pc_running p \<and> pc_calls p \<le> pc_calls p' \<and>
    (\<forall>jobs. r = Inr jobs \<longrightarrow> map pj_idx jobs = map pd_idx chunk \<and> map pj_opts jobs = map pd_o chunk)"
  using assms
proof (induction env chunk p arbitrary: r p' rule: bisect_ports.induct)
  case (2 env pd chunk p)
  show ?case
  proof (cases "map_of (pc_ports p) (pd_key pd)")
    case (Some port)
    obtain r1 p1 where a: "bisect_ports env chunk p = (r1, p1)" by fastforce
    from 2(2) [OF Some a] 2(3) Some a show ?thesis by (cases r1) (auto simp: pool_job_def)
  next
    case None
    show ?thesis
    proof (cases "pe_alloc env (pc_calls p) 0")
      case (Inl e)
      with None 2(3) show ?thesis by (auto simp: asked_def)
    next
      case (Inr port)
      obtain r1 p1 where a: "bisect_ports env chunk
          ((asked p)\<lparr>pc_ports := AList.update (pd_key pd) port (pc_ports p)\<rparr>) = (r1, p1)" by fastforce
      from 2(1) [OF None Inr a] 2(3) None Inr a show ?thesis by (cases r1) (auto simp: pool_job_def asked_def)
    qed
  qed
qed auto

lemma places_eq:
  assumes "map pj_idx jobs = map pd_idx chunk" "map pj_opts jobs = map pd_o chunk"
  shows "job_places jobs = pending_places chunk"
  using assms by (simp add: list_eq_iff_nth_eq)

text \<open>The invariant of a pool nobody is testing against: one running engine per slot and no other,
  unreferenced and neither retired nor stopped, each with a number of its own.\<close>

definition pool_idle :: "pool \<Rightarrow> bool" where
  "pool_idle p \<longleftrightarrow>
     distinct (map fst (pc_slots p)) \<and> distinct (pc_running p) \<and>
     (\<forall>(s, w)\<in>set (pc_slots p). wi_refs w = 0 \<and> \<not> wi_retired w \<and> \<not> wi_stopped w) \<and>
     mset (pc_running p) = mset (map (wi_engine \<circ> snd) (pc_slots p)) \<and>
     (\<forall>e\<in>set (pc_running p). e < pc_calls p)"

lemma pool_idle_new: "pool_idle newPoolChecker"
  by (simp add: pool_idle_def newPoolChecker_def)

lemma pool_idle_same: "pool_idle p \<Longrightarrow> same_slots p p' \<Longrightarrow> pool_idle p'"
  by (fastforce simp: pool_idle_def same_slots_def)

lemma pool_idle_keep:
  assumes "pool_idle p" "pc_slots p' = pc_slots p" "pc_running p' = pc_running p" "pc_calls p \<le> pc_calls p'"
  shows "pool_idle p'"
  using assms by (fastforce simp: pool_idle_def)

lemma mset_delete_slot:
  assumes "distinct (map fst s)" "map_of s k = Some w"
  shows "mset (map (f \<circ> snd) s) = add_mset (f w) (mset (map (f \<circ> snd) (AList.delete k s)))"
  using assms
proof (induction s)
  case (Cons a s)
  then show ?case by (cases a) (auto simp: delete_idem)
qed simp

lemma mset_update_slot:
  assumes "distinct (map fst s)" "map_of s k = Some w" "f w' = f w"
  shows "mset (map (f \<circ> snd) (AList.update k w' s)) = mset (map (f \<circ> snd) s)"
  using assms
proof (induction s)
  case (Cons a s)
  then show ?case by (cases a) auto
qed simp

lemma mset_new_slot:
  "k \<notin> fst ` set s \<Longrightarrow> mset (map (f \<circ> snd) (AList.update k w s)) = add_mset (f w) (mset (map (f \<circ> snd) s))"
  by (induction s) auto

lemma set_update_slot: "distinct (map fst s) \<Longrightarrow> set (AList.update k w s) = insert (k, w) {x \<in> set s. fst x \<noteq> k}"
  by (induction s) force+

lemma slot_update_update: "AList.update k v (AList.update k u s) = AList.update k v s"
  by (induction s) auto

lemma retire_idle:
  assumes "pooled m spec" "pool_idle p"
  shows "\<exists>p'. retire env spec slot p = Some p' \<and> pool_idle p' \<and> slot \<notin> fst ` set (pc_slots p')
    \<and> pc_ports p' = pc_ports p \<and> pc_calls p \<le> pc_calls p'"
proof (cases "map_of (pc_slots p) slot")
  case None
  moreover from this have "slot \<notin> fst ` set (pc_slots p)" by (simp add: map_of_eq_None_iff)
  ultimately show ?thesis using assms(2) by (simp add: retire_def)
next
  case (Some w)
  then have mem: "(slot, w) \<in> set (pc_slots p)" by (rule map_of_SomeD)
  then have w: "wi_refs w = 0" "\<not> wi_stopped w" using assms(2) by (auto simp: pool_idle_def)
  let ?p = "(asked p)\<lparr>pc_running := remove1 (wi_engine w) (pc_running p), pc_slots := AList.delete slot (pc_slots p)\<rparr>"
  have d: "distinct (map fst (pc_slots p))" using assms(2) by (simp add: pool_idle_def)
  have "set (AList.delete slot (pc_slots p)) \<subseteq> set (pc_slots p)" by (auto simp: AList.delete_eq)
  then have "pool_idle ?p"
    using assms(2) mset_delete_slot [OF d Some, of wi_engine]
    by (fastforce simp: pool_idle_def asked_def dest: notin_set_remove1)
  then show ?thesis using Some w teardownLocked_total [OF assms(1) w(2), of env p]
    by (auto simp: retire_def asked_def AList.delete_eq)
qed

definition pool_busy :: "nat \<Rightarrow> pool \<Rightarrow> bool" where
  "pool_busy slot p \<longleftrightarrow> (\<exists>w. map_of (pc_slots p) slot = Some w \<and> wi_refs w = 1 \<and>
     pool_idle (p\<lparr>pc_slots := AList.update slot (w\<lparr>wi_refs := 0\<rparr>) (pc_slots p)\<rparr>))"

lemma pool_busy_same: "pool_busy slot p \<Longrightarrow> same_slots p p' \<Longrightarrow> pool_busy slot p'"
proof -
  assume b: "pool_busy slot p" and s: "same_slots p p'"
  then obtain w where w: "map_of (pc_slots p) slot = Some w" "wi_refs w = 1"
    "pool_idle (p\<lparr>pc_slots := AList.update slot (w\<lparr>wi_refs := 0\<rparr>) (pc_slots p)\<rparr>)" by (auto simp: pool_busy_def)
  have "pool_idle (p'\<lparr>pc_slots := AList.update slot (w\<lparr>wi_refs := 0\<rparr>) (pc_slots p')\<rparr>)"
    by (rule pool_idle_same [OF w(3)]) (use s in \<open>simp add: same_slots_def\<close>)
  then show ?thesis using w s by (auto simp: pool_busy_def same_slots_def)
qed

lemma releaseSlot_busy:
  assumes "pool_busy slot p"
  shows "\<exists>p'. releaseSlot env spec slot p = Some p' \<and> pool_idle p' \<and> pc_ports p' = pc_ports p"
proof -
  obtain w where w: "map_of (pc_slots p) slot = Some w" "wi_refs w = 1"
    "pool_idle (p\<lparr>pc_slots := AList.update slot (w\<lparr>wi_refs := 0\<rparr>) (pc_slots p)\<rparr>)"
    using assms by (auto simp: pool_busy_def)
  have "(slot, w\<lparr>wi_refs := 0\<rparr>) \<in> set (AList.update slot (w\<lparr>wi_refs := 0\<rparr>) (pc_slots p))"
    by (rule map_of_SomeD) simp
  with w(3) have "\<not> wi_retired w" by (fastforce simp: pool_idle_def)
  with w show ?thesis by (simp add: releaseSlot_def)
qed

lemma refs_zero: "wi_refs w = 0 \<Longrightarrow> w\<lparr>wi_refs := 0\<rparr> = w"
  by (cases w) simp

lemma reuse_busy:
  assumes "pool_idle p" "map_of (pc_slots p) slot = Some w"
  shows "pool_busy slot ((asked p)\<lparr>pc_slots := AList.update slot (w\<lparr>wi_refs := wi_refs w + 1\<rparr>) (pc_slots p)\<rparr>)"
proof -
  have "(slot, w) \<in> set (pc_slots p)" using assms(2) by (rule map_of_SomeD)
  then have "wi_refs w = 0" using assms(1) by (auto simp: pool_idle_def)
  moreover have "AList.update slot w (pc_slots p) = pc_slots p" using assms(2) by (rule update_triv)
  moreover have "pool_idle ((asked p)\<lparr>pc_slots := pc_slots p\<rparr>)"
    by (rule pool_idle_same [OF assms(1)]) (simp add: same_slots_def asked_def)
  ultimately show ?thesis by (simp add: pool_busy_def slot_update_update refs_zero)
qed

lemma built_busy:
  assumes "pool_idle p" "slot \<notin> fst ` set (pc_slots p)" "built_ok jobs key p (Inr w) p'"
  shows "pool_busy slot (p'\<lparr>pc_slots := AList.update slot (w\<lparr>wi_refs := 1\<rparr>) (pc_slots p')\<rparr>)"
proof -
  have b: "pc_slots p' = pc_slots p" "pc_running p' = wi_engine w # pc_running p" "pc_calls p \<le> wi_engine w"
    "wi_engine w < pc_calls p'" "wi_refs w = 0" "\<not> wi_retired w" "\<not> wi_stopped w"
    using assms(3) by (simp_all add: built_ok_def)
  have d: "distinct (map fst (pc_slots p))" using assms(1) by (simp add: pool_idle_def)
  have "pool_idle (p'\<lparr>pc_slots := AList.update slot w (pc_slots p)\<rparr>)"
    using assms(1) b mset_new_slot [OF assms(2), of wi_engine w]
    by (fastforce simp: pool_idle_def set_update_slot [OF d] intro: distinct_update)
  then show ?thesis using b by (simp add: pool_busy_def slot_update_update refs_zero)
qed

text \<open>What the critical section leaves behind.\<close>

fun entered_ok :: "nat \<Rightarrow> pendingJob list \<Rightarrow> entered \<Rightarrow> pool \<Rightarrow> bool" where
  "entered_ok slot chunk (NoPorts e) p \<longleftrightarrow> pool_idle p"
| "entered_ok slot chunk (NotBuilt jobs e) p \<longleftrightarrow> pool_idle p \<and> map pj_idx jobs = map pd_idx chunk \<and> map pj_opts jobs = map pd_o chunk"
| "entered_ok slot chunk (Entered jobs) p \<longleftrightarrow> pool_busy slot p \<and> map pj_idx jobs = map pd_idx chunk \<and> map pj_opts jobs = map pd_o chunk"

lemma slot_enter_total:
  assumes "pooled m spec" "pool_idle p" "chunk \<noteq> []"
  shows "\<exists>e p'. slot_enter env spec limits slot chunk live p = Some (e, p') \<and> entered_ok slot chunk e p'"
proof -
  obtain r p1 where a: "assign_ports env limits (used_ports p) chunk p = (r, p1)" by fastforce
  note a' = assign_ports_spec [OF a]
  show ?thesis
  proof (cases r)
    case (Inl e)
    have "pool_idle p1" by (rule pool_idle_keep [OF assms(2)]) (use a' in simp_all)
    with a Inl show ?thesis by (simp add: slot_enter_def)
  next
    case (Inr jobs)
    with a' have j: "map pj_idx jobs = map pd_idx chunk" "map pj_opts jobs = map pd_o chunk" by auto
    then have "jobs \<noteq> []" using assms(3) by auto
    define p2 where "p2 = p1\<lparr>pc_ports := filter (\<lambda>(k, _). k \<in> set live) (pc_ports p1)\<rparr>"
    have i2: "pool_idle p2" by (rule pool_idle_keep [OF assms(2)]) (use a' in \<open>simp_all add: p2_def\<close>)
    show ?thesis
    proof (cases "reusable env slot (hashJobs env jobs) p2")
      case (Some w)
      then have "map_of (pc_slots p2) slot = Some w" by (auto simp: reusable_def split: option.splits if_splits)
      from reuse_busy [OF i2 this] show ?thesis using a Inr Some j by (simp add: slot_enter_def p2_def [symmetric] Let_def)
    next
      case None
      have "pool_idle (asked p2)" by (rule pool_idle_same [OF i2]) simp
      from retire_idle [OF assms(1) this] obtain p3 where p3: "retire env spec slot (asked p2) = Some p3" "pool_idle p3"
        "slot \<notin> fst ` set (pc_slots p3)" by blast
      obtain b p4 where b: "buildAndStart env spec jobs (hashJobs env jobs) p3 = Some (b, p4)"
        "built_ok jobs (hashJobs env jobs) p3 b p4" using buildAndStart_total [OF assms(1) \<open>jobs \<noteq> []\<close>] by blast
      show ?thesis
      proof (cases b)
        case (Inl err)
        have "pool_idle p4" by (rule pool_idle_keep [OF p3(2)]) (use b(2) Inl in \<open>simp_all add: built_ok_def\<close>)
        with Inl a \<open>r = Inr jobs\<close> None p3 b j show ?thesis by (simp add: slot_enter_def p2_def [symmetric] Let_def)
      next
        case (Inr w)
        from built_busy [OF p3(2,3) b(2) [unfolded Inr]]
        show ?thesis using a \<open>r = Inr jobs\<close> None p3 b j Inr by (simp add: slot_enter_def p2_def [symmetric] Let_def)
      qed
    qed
  qed
qed

section \<open>A batch\<close>

lemma runSlot_total:
  assumes "pooled m spec" "pool_idle p" "chunk \<noteq> []" "distinct (map pd_idx chunk)" "\<forall>q\<in>set chunk. pd_idx q < length out"
  shows "\<exists>p' out'. runSlot env m spec limits slot chunk live (p, out) = Some (p', out') \<and>
    fills m (pending_places chunk) out out' \<and> pool_idle p'"
proof -
  obtain e p1 where e: "slot_enter env spec limits slot chunk live p = Some (e, p1)" "entered_ok slot chunk e p1"
    using slot_enter_total [OF assms(1-3)] by blast
  have jobs: "distinct (map pj_idx jobs)" "\<forall>j\<in>set jobs. pj_idx j < length out" "job_places jobs = pending_places chunk" "jobs \<noteq> []"
    if "map pj_idx jobs = map pd_idx chunk" "map pj_opts jobs = map pd_o chunk" for jobs
  proof -
    show "distinct (map pj_idx jobs)" using that(1) assms(4) by simp
    have "pj_idx ` set jobs = pd_idx ` set chunk" using that(1) by (metis set_map)
    with assms(5) show "\<forall>j\<in>set jobs. pj_idx j < length out" by (metis imageE imageI)
    show "job_places jobs = pending_places chunk" by (rule places_eq [OF that])
    show "jobs \<noteq> []" using that(1) assms(3) by auto
  qed
  show ?thesis
  proof (cases e)
    case (NoPorts err)
    with e failPending_fills [OF assms(4,5)] show ?thesis by (simp add: runSlot_def)
  next
    case (Entered js)
    with e(2) have j: "map pj_idx js = map pd_idx chunk" "map pj_opts js = map pd_o chunk" "pool_busy slot p1" by simp_all
    obtain p2 out2 where t: "testJobs env m js (p1, out) = Some (p2, out2)" "fills m (job_places js) out out2" "same_slots p1 p2"
      using testJobs_total [OF assms(1) jobs(1,2) [OF j(1,2)]] by blast
    from releaseSlot_busy [OF pool_busy_same [OF j(3) t(3)]] obtain p3 where "releaseSlot env spec slot p2 = Some p3" "pool_idle p3"
      by blast
    with e Entered t jobs(3) [OF j(1,2)] show ?thesis by (simp add: runSlot_def)
  next
    case (NotBuilt js err)
    with e(2) have j: "map pj_idx js = map pd_idx chunk" "map pj_opts js = map pd_o chunk" "pool_idle p1" by simp_all
    show ?thesis
    proof (cases "shouldBisect err (length chunk)")
      case False
      with e(1) NotBuilt j jobs [OF j(1,2)] failJobs_fills [of js out m "build_message err"] show ?thesis by (simp add: runSlot_def)
    next
      case True
      obtain r p2 where b: "bisect_ports env chunk p1 = (r, p2)" by fastforce
      note b' = bisect_ports_spec [OF b]
      have i2: "pool_idle p2" by (rule pool_idle_keep [OF j(3)]) (use b' in simp_all)
      show ?thesis
      proof (cases r)
        case (Inl x)
        with e(1) NotBuilt True b i2 failPending_fills [OF assms(4,5)] show ?thesis by (simp add: runSlot_def runBisected_def)
      next
        case (Inr ks)
        with b' have k: "map pj_idx ks = map pd_idx chunk" "map pj_opts ks = map pd_o chunk" by auto
        from runEphemeral_total [OF assms(1) jobs(4,1,2) [OF k], of env p2]
        obtain p3 out3 where x: "runEphemeral env m spec ks (p2, out) = Some (p3, out3)" "fills m (job_places ks) out out3" "same_slots p2 p3"
          by blast
        with e(1) NotBuilt True b Inr jobs(3) [OF k] pool_idle_same [OF i2 x(3)] show ?thesis
          by (simp add: runSlot_def runBisected_def)
      qed
    qed
  qed
qed

lemma slots_loop_total:
  assumes "pooled m spec" "0 < maxJobs" "pool_idle p" "distinct (map pd_idx pending)" "\<forall>q\<in>set pending. pd_idx q < length out"
  shows "\<exists>p' out'. slots_loop env m spec limits maxJobs slot pending live (p, out) = Some (p', out') \<and>
    fills m (pending_places pending) out out' \<and> pool_idle p'"
  using assms(3-5)
proof (induction "length pending" arbitrary: pending slot p out rule: less_induct)
  case less
  show ?case
  proof (cases "pending = []")
    case True
    with less.prems show ?thesis by (simp add: slots_loop.simps)
  next
    case False
    let ?a = "take maxJobs pending" and ?b = "drop maxJobs pending"
    have "distinct (map pd_idx ?a @ map pd_idx ?b)" using less.prems(2) by (metis append_take_drop_id map_append)
    then have d: "distinct (map pd_idx ?a)" "distinct (map pd_idx ?b)" "fst ` set (pending_places ?a) \<inter> fst ` set (pending_places ?b) = {}"
      unfolding distinct_append by (simp_all add: image_image)
    have "?a \<noteq> []" "\<forall>q\<in>set ?a. pd_idx q < length out" using False assms(2) less.prems(3) by (auto dest: in_set_takeD)
    from runSlot_total [OF assms(1) less.prems(1) this(1) d(1) this(2)] obtain p1 out1 where
      s: "runSlot env m spec limits slot ?a live (p, out) = Some (p1, out1)" "fills m (pending_places ?a) out out1" "pool_idle p1" by blast
    have "length ?b < length pending" "\<forall>q\<in>set ?b. pd_idx q < length out1"
      using False assms(2) less.prems(3) fills_length [OF s(2)] by (auto dest: in_set_dropD)
    from less.hyps [OF this(1) s(3) d(2) this(2)] obtain p2 out2 where
      r: "slots_loop env m spec limits maxJobs (slot + 1) ?b live (p1, out1) = Some (p2, out2)"
      "fills m (pending_places ?b) out1 out2" "pool_idle p2" by blast
    have "fills m (pending_places pending) out out2"
      using fills_append [OF s(2) r(2) d(3)] by (metis append_take_drop_id map_append)
    with r s False assms(2) show ?thesis by (simp add: slots_loop.simps [of env m spec limits maxJobs slot pending])
  qed
qed
abbreviation members :: "(string \<times> pendingJob list) list \<Rightarrow> pendingJob list" where
  "members gs \<equiv> concat (map snd gs)"

lemma add_group_members: "mset (members (add_group q gs)) = add_mset q (mset (members gs))"
  by (induction q gs rule: add_group.induct) auto

lemma add_group_nonempty: "\<forall>(k, g)\<in>set gs. g \<noteq> [] \<Longrightarrow> \<forall>(k, g)\<in>set (add_group q gs). g \<noteq> []"
  by (induction q gs rule: add_group.induct) auto

text \<open>The loop puts every option either into one group or answers it as invalid.\<close>

definition grouped :: "Module \<Rightarrow> Options list \<Rightarrow> nat \<Rightarrow> (string \<times> pendingJob list) list \<times> Result list \<Rightarrow> bool" where
  "grouped m os i s \<longleftrightarrow>
     (case s of (gs, out) \<Rightarrow>
        length out = length os \<and> distinct (map pd_idx (members gs)) \<and> (\<forall>(k, g)\<in>set gs. g \<noteq> []) \<and>
        (\<forall>q\<in>set (members gs). pd_idx q < i \<and> o_Seq (pd_o q) = o_Seq (os ! pd_idx q)) \<and>
        (\<forall>j<i. j \<in> pd_idx ` set (members gs) \<or> r_Seq (out ! j) = o_Seq (os ! j) \<and> r_Type (out ! j) = m_Name m))"

lemma group_loop_grouped:
  assumes "grouped m os i s" "i \<le> length os"
  shows "grouped m os (length os) (group_loop env m i (drop i os) s)"
  using assms
proof (induction "drop i os" arbitrary: i s)
  case Nil
  then show ?case by (cases s) simp
next
  case (Cons opts rest)
  obtain gs out where s: "s = (gs, out)" by (cases s)
  have i: "i < length os" using Cons.hyps(2) by (metis drop_all list.distinct(1) not_le)
  then have opts: "opts = os ! i" "rest = drop (Suc i) os" using Cons.hyps(2)
    by (metis Cons_nth_drop_Suc list.inject)+
  define opts' where "opts' = opts\<lparr>o_Timeout := withMinTimeout m (o_Timeout opts)\<rparr>"
  note step = Cons.hyps(1) [OF opts(2)]
  show ?case
  proof (cases "validateRequest (parse_number (pe_step env)) (m_Request m) (o_Params opts)")
    case None
    define q where "q = \<lparr>pd_idx = i, pd_key = jobKey env opts', pd_o = opts'\<rparr>"
    have mem: "set (members (add_group q gs)) = insert q (set (members gs))"
      using arg_cong [OF add_group_members [of q gs], of set_mset] by simp
    have "i \<notin> pd_idx ` set (members gs)" using Cons.prems(1) by (auto simp: grouped_def s)
    moreover have "mset (map pd_idx (members (add_group q gs))) = mset (map pd_idx (q # members gs))"
      by (simp add: add_group_members)
    then have "distinct (map pd_idx (members (add_group q gs))) = distinct (map pd_idx (q # members gs))"
      by (rule mset_eq_imp_distinct_iff)
    ultimately have d: "distinct (map pd_idx (members (add_group q gs)))"
      using Cons.prems(1) by (simp add: grouped_def s q_def)
    have "grouped m os (Suc i) (add_group q gs, out)"
      unfolding grouped_def prod.case mem
      using Cons.prems(1) d add_group_nonempty [of gs q] i opts(1)
      by (auto simp: grouped_def s q_def opts'_def less_Suc_eq)
    with step [OF this] i None show ?thesis
      by (simp add: Cons.hyps(2) [symmetric] s Let_def opts'_def [symmetric] q_def [symmetric] opts(2))
         (simp add: opts'_def q_def)
  next
    case (Some msg)
    have "grouped m os (Suc i) (gs, out[i := result_Invalid (m_Name m) (o_Target opts) (o_Seq opts) msg])"
      using Cons.prems(1) i opts(1) by (auto simp: grouped_def s less_Suc_eq result_Invalid_def nth_list_update)
    with step [OF this] i Some show ?thesis by (simp add: Cons.hyps(2) [symmetric] s Let_def opts(2))
  qed
qed

lemma fan_out_fills:
  assumes "g = c # dups" "distinct (map pd_idx dups)" "\<forall>q\<in>set dups. pd_idx q < length out" "r_Type (out ! pd_idx c) = m_Name m"
  shows "fills m (pending_places dups) out (fan_out g out)"
  unfolding fan_out_def assms(1) list.case using assms(2-4) by (intro fold_fills) auto

lemma tail_places: "fst ` set (concat (map (\<lambda>(k, g). pending_places (tl g)) gs)) \<subseteq> pd_idx ` set (members gs)"
proof
  fix i assume "i \<in> fst ` set (concat (map (\<lambda>(k, g). pending_places (tl g)) gs))"
  then obtain k g q where q: "(k, g) \<in> set gs" "q \<in> set (tl g)" "i = pd_idx q" by auto
  then have "q \<in> set g" by (cases g) auto
  with q show "i \<in> pd_idx ` set (members gs)" by force
qed

lemma fold_fan_out_fills:
  assumes "distinct (map pd_idx (members gs))" "\<forall>q\<in>set (members gs). pd_idx q < length out" "\<forall>(k, g)\<in>set gs. g \<noteq> []"
    "\<forall>(k, g)\<in>set gs. r_Type (out ! pd_idx (hd g)) = m_Name m"
  shows "fills m (concat (map (\<lambda>(k, g). pending_places (tl g)) gs)) out (fold (\<lambda>(k, g). fan_out g) gs out)"
  using assms
proof (induction gs arbitrary: out)
  case (Cons x gs)
  obtain k c dups where x: "x = (k, c # dups)" using Cons.prems(3) by (cases x) (auto simp: neq_Nil_conv)
  let ?out = "fan_out (c # dups) out"
  have f: "fills m (pending_places dups) out ?out"
    by (rule fan_out_fills) (use Cons.prems x in auto)
  have keep: "?out ! pd_idx q = out ! pd_idx q" if "q \<in> set (members gs)" for q
  proof -
    have "pd_idx q \<in> pd_idx ` set (members gs)" "pd_idx ` set dups \<inter> pd_idx ` set (members gs) = {}"
      using Cons.prems(1) x that by auto
    then have "pd_idx q \<notin> fst ` set (pending_places dups)" unfolding set_map image_image fst_conv by blast
    with f show ?thesis by (simp add: fills_def)
  qed
  have hds: "hd g \<in> set (members gs)" if "(k', g) \<in> set gs" for k' g
    using that Cons.prems(3) by (cases g) (force simp: x)+
  have "\<forall>(k, g)\<in>set gs. r_Type (?out ! pd_idx (hd g)) = m_Name m"
    using Cons.prems(4) keep hds by fastforce
  then have "fills m (concat (map (\<lambda>(k, g). pending_places (tl g)) gs)) ?out (fold (\<lambda>(k, g). fan_out g) gs ?out)"
    using Cons.prems x fills_length [OF f] by (intro Cons.IH) auto
  moreover have "fst ` set (pending_places dups) \<inter> fst ` set (concat (map (\<lambda>(k, g). pending_places (tl g)) gs)) = {}"
  proof -
    have "pd_idx ` set dups \<inter> pd_idx ` set (members gs) = {}" using Cons.prems(1) x by simp
    then show ?thesis using tail_places [of gs] unfolding set_map [of _ dups] image_image fst_conv by blast
  qed
  ultimately show ?case using fills_append [OF f] x by simp
qed simp

lemma fillsD: "fills m ps out out' \<Longrightarrow> (i, seq) \<in> set ps \<Longrightarrow> r_Seq (out' ! i) = seq \<and> r_Type (out' ! i) = m_Name m"
  by (auto simp: fills_def)

abbreviation heads :: "(string \<times> pendingJob list) list \<Rightarrow> pendingJob list" where
  "heads gs \<equiv> map (\<lambda>(k, g). hd g) gs"

lemma heads_subset: "\<forall>(k, g)\<in>set gs. g \<noteq> [] \<Longrightarrow> set (heads gs) \<subseteq> set (members gs)"
proof
  fix q assume ne: "\<forall>(k, g)\<in>set gs. g \<noteq> []" and "q \<in> set (heads gs)"
  then obtain k g where "(k, g) \<in> set gs" "q = hd g" by auto
  moreover from this ne have "q \<in> set g" by (cases g) auto
  ultimately show "q \<in> set (members gs)" by force
qed

lemma heads_distinct:
  assumes "distinct (map pd_idx (members gs))" "\<forall>(k, g)\<in>set gs. g \<noteq> []"
  shows "distinct (map pd_idx (heads gs))"
  using assms
proof (induction gs)
  case (Cons x gs)
  obtain k c dups where x: "x = (k, c # dups)" using Cons.prems(2) by (cases x) (auto simp: neq_Nil_conv)
  have "set (heads gs) \<subseteq> set (members gs)" by (rule heads_subset) (use Cons.prems(2) in simp)
  moreover have "pd_idx c \<notin> pd_idx ` set (members gs)" using Cons.prems(1) x by simp
  ultimately have "pd_idx c \<notin> pd_idx ` set (heads gs)" by blast
  with Cons x show ?case by (simp add: image_image)
qed simp

lemma group_partition:
  assumes "q \<in> set (members gs)"
  shows "q \<in> set (heads gs) \<or> (\<exists>k g. (k, g) \<in> set gs \<and> q \<in> set (tl g))"
proof -
  from assms obtain k g where g: "(k, g) \<in> set gs" "q \<in> set g" by auto
  show ?thesis
  proof (cases "q = hd g")
    case True
    with g(1) show ?thesis by force
  next
    case False
    with g(2) have "q \<in> set (tl g)" by (cases g) auto
    with g(1) show ?thesis by blast
  qed
qed

text \<open>The two phases together: canonical jobs first, then their duplicates.\<close>

lemma batch_answers:
  assumes gr: "grouped m os (length os) (gs, out)" and pend: "set pending = set (heads gs)"
    and slots: "fills m (pending_places pending) out out1"
  shows "map r_Seq (fold (\<lambda>(k, g). fan_out g) gs out1) = map o_Seq os
    \<and> list_all (\<lambda>r. r_Type r = m_Name m) (fold (\<lambda>(k, g). fan_out g) gs out1)"
proof -
  let ?final = "fold (\<lambda>(k, g). fan_out g) gs out1"
  from gr have g: "length out = length os" "distinct (map pd_idx (members gs))" "\<forall>(k, g)\<in>set gs. g \<noteq> []"
    "\<And>q. q \<in> set (members gs) \<Longrightarrow> pd_idx q < length os \<and> o_Seq (pd_o q) = o_Seq (os ! pd_idx q)"
    "\<And>j. j < length os \<Longrightarrow> j \<in> pd_idx ` set (members gs) \<or> r_Seq (out ! j) = o_Seq (os ! j) \<and> r_Type (out ! j) = m_Name m"
    by (auto simp: grouped_def)
  have hds: "r_Seq (out1 ! pd_idx q) = o_Seq (pd_o q) \<and> r_Type (out1 ! pd_idx q) = m_Name m"
    if "q \<in> set (heads gs)" for q
    using slots that unfolding pend [symmetric] by (fastforce simp: fills_def)
  have fan: "fills m (concat (map (\<lambda>(k, g). pending_places (tl g)) gs)) out1 ?final"
  proof (rule fold_fan_out_fills [OF g(2) _ g(3)])
    show "\<forall>q\<in>set (members gs). pd_idx q < length out1" using g(1,4) fills_length [OF slots] by simp
    show "\<forall>(k, g)\<in>set gs. r_Type (out1 ! pd_idx (hd g)) = m_Name m" using hds by force
  qed
  have at: "r_Seq (?final ! j) = o_Seq (os ! j) \<and> r_Type (?final ! j) = m_Name m" if j: "j < length os" for j
  proof (cases "j \<in> fst ` set (concat (map (\<lambda>(k, g). pending_places (tl g)) gs))")
    case True
    then obtain k g q where q: "(k, g) \<in> set gs" "q \<in> set (tl g)" "j = pd_idx q" by auto
    then have "q \<in> set g" by (cases g) auto
    with q(1) have qm: "q \<in> set (members gs)" by force
    have "(pd_idx q, o_Seq (pd_o q)) \<in> set (concat (map (\<lambda>(k, g). pending_places (tl g)) gs))" using q by force
    from fillsD [OF fan this] g(4) [OF qm] q(3) show ?thesis by simp
  next
    case False
    then have same: "?final ! j = out1 ! j" using fan by (simp add: fills_def)
    show ?thesis
    proof (cases "j \<in> pd_idx ` set (members gs)")
      case True
      then obtain q where q: "q \<in> set (members gs)" "j = pd_idx q" by blast
      from group_partition [OF q(1)] False q(2) have "q \<in> set (heads gs)" by force
      from hds [OF this] g(4) [OF q(1)] same q(2) show ?thesis by simp
    next
      case False
      have "fst ` set (pending_places pending) \<subseteq> pd_idx ` set (members gs)"
        using heads_subset [OF g(3)] unfolding set_map [of _ pending] image_image fst_conv pend by blast
      with False have "j \<notin> fst ` set (pending_places pending)" by blast
      then have "out1 ! j = out ! j" using slots by (simp add: fills_def)
      with same g(5) [OF j] False show ?thesis by simp
    qed
  qed
  have "length ?final = length os" using fills_length [OF fan] fills_length [OF slots] g(1) by simp
  with at show ?thesis by (simp add: list_eq_iff_nth_eq list_all_length)
qed

lemma CheckBatch_total:
  assumes "pooled m spec" "pool_idle p"
  shows "\<exists>rs p'. CheckBatch env m spec limits os p = Some (rs, p') \<and> map r_Seq rs = map o_Seq os \<and>
    list_all (\<lambda>r. r_Type r = m_Name m) rs \<and> pool_idle p'"
proof -
  let ?n = "nat (limits_maxJobsPerInstance limits (po_MaxJobsPerInstance spec))"
  have "0 < ?n" using pooledD(1) [OF assms(1)] by (simp add: limits_maxJobsPerInstance_def)
  obtain gs out where gl: "group_loop env m 0 os ([], replicate (length os) result_zero) = (gs, out)" by fastforce
  have "grouped m os 0 ([], replicate (length os) result_zero)" by (simp add: grouped_def)
  from group_loop_grouped [OF this, of env] gl have gr: "grouped m os (length os) (gs, out)" by simp
  define pending where "pending = sort_key pd_key (heads gs)"
  have g: "distinct (map pd_idx (members gs))" "\<forall>(k, g)\<in>set gs. g \<noteq> []" "length out = length os"
    "\<forall>q\<in>set (members gs). pd_idx q < length os" using gr by (auto simp: grouped_def)
  have pend: "set pending = set (heads gs)" by (simp add: pending_def)
  have "distinct (map pd_idx pending) = distinct (map pd_idx (heads gs))"
    by (rule mset_eq_imp_distinct_iff) (simp only: pending_def mset_map mset_sort)
  then have "distinct (map pd_idx pending)" using heads_distinct [OF g(1,2)] by simp
  moreover have "\<forall>q\<in>set pending. pd_idx q < length out"
    using heads_subset [OF g(2)] g(3,4) unfolding pend by auto
  ultimately obtain p1 out1 where s: "slots_loop env m spec limits ?n 0 pending (map pd_key pending) (p, out) = Some (p1, out1)"
    "fills m (pending_places pending) out out1" "pool_idle p1"
    using slots_loop_total [OF assms(1) \<open>0 < ?n\<close> assms(2)] by blast
  from batch_answers [OF gr pend s(2)] s show ?thesis
    by (simp add: CheckBatch_def gl pending_def [symmetric] Let_def)
qed

section \<open>Closing\<close>

lemma close_loop_idle:
  assumes "pooled m spec" "distinct (map fst ws)" "\<forall>(s, w)\<in>set ws. wi_refs w = 0 \<and> \<not> wi_stopped w"
    "pc_slots p = ws" "mset (pc_running p) = mset (map (wi_engine \<circ> snd) ws)"
  shows "\<exists>p'. close_loop env spec ws p = Some p' \<and> pc_slots p' = [] \<and> pc_running p' = []"
  using assms(2-5)
proof (induction ws arbitrary: p)
  case (Cons x ws)
  obtain s w where x: "x = (s, w)" by (cases x)
  then have w: "wi_refs w = 0" "\<not> wi_stopped w" using Cons.prems(2) by auto
  let ?p = "(asked p)\<lparr>pc_running := remove1 (wi_engine w) (pc_running p), pc_slots := AList.delete s (pc_slots p)\<rparr>"
  have "AList.delete s (pc_slots p) = ws" using Cons.prems(1,3) x by (simp add: delete_idem)
  then have "\<exists>p'. close_loop env spec ws ?p = Some p' \<and> pc_slots p' = [] \<and> pc_running p' = []"
    using Cons.prems x by (intro Cons.IH) auto
  with w x teardownLocked_total [OF assms(1) w(2), of env p] show ?case by (simp add: asked_def)
qed simp

lemma Close_idle:
  assumes "pooled m spec" "pool_idle p"
  shows "\<exists>p'. Close env spec p = Some p' \<and> pc_slots p' = [] \<and> pc_running p' = []"
  unfolding Close_def by (rule close_loop_idle [OF assms(1)]) (use assms(2) in \<open>auto simp: pool_idle_def\<close>)

section \<open>The contract of a batch checker\<close>

text \<open>What the dispatcher needs of a stateful \<^verbatim>\<open>probe.BatchChecker\<close>: from a state in good order a
  batch ends, answers every option in its place and leaves a state in good order.\<close>

fun batch_history :: "('e \<Rightarrow> Options list \<Rightarrow> 's \<Rightarrow> (Result list \<times> 's) option) \<Rightarrow> ('e \<times> Options list) list \<Rightarrow> 's
    \<Rightarrow> (Result list list \<times> 's) option" where
  "batch_history run [] s = Some ([], s)"
| "batch_history run ((e, os) # h) s =
     do { (rs, s) \<leftarrow> run e os s; (rss, s) \<leftarrow> batch_history run h s; Some (rs # rss, s) }"

locale batch_prober =
  fixes run :: "'e \<Rightarrow> Options list \<Rightarrow> 's \<Rightarrow> (Result list \<times> 's) option"
    and good :: "'s \<Rightarrow> bool"
  assumes answers_batch: "good s \<Longrightarrow> \<exists>rs s'. run e os s = Some (rs, s') \<and> map r_Seq rs = map o_Seq os \<and> good s'"
begin

lemma history_answers:
  "good s \<Longrightarrow> \<exists>rss s'. batch_history run h s = Some (rss, s') \<and> map (map r_Seq) rss = map (\<lambda>(e, os). map o_Seq os) h \<and> good s'"
proof (induction h arbitrary: s)
  case (Cons x h)
  obtain e os where x: "x = (e, os)" by (cases x)
  obtain rs s1 where r: "run e os s = Some (rs, s1)" "map r_Seq rs = map o_Seq os" "good s1"
    using answers_batch [OF Cons.prems] by blast
  from Cons.IH [OF r(3)] obtain rss s2 where "batch_history run h s1 = Some (rss, s2)"
    "map (map r_Seq) rss = map (\<lambda>(e, os). map o_Seq os) h" "good s2" by blast
  with r x show ?case by simp
qed simp

text \<open>Seen from the dispatcher: the state the checker is in when a goroutine calls it, and what it
  answers.\<close>

definition seen :: "(nat \<Rightarrow> 'e) \<Rightarrow> (nat \<Rightarrow> 's) \<Rightarrow> checker" where
  "seen e st =
     \<lparr>ck_Check = \<lambda>i opts. hd (fst (the (run (e i) [opts] (st i)))),
      ck_CheckBatch = Some (\<lambda>i os. fst (the (run (e i) os (st i))))\<rparr>"

lemma seen_answers:
  assumes "\<And>i. good (st i)"
  shows "r_Seq (ck_Check (seen e st) i opts) = o_Seq opts"
    and "ck_CheckBatch (seen e st) = Some f \<Longrightarrow> map r_Seq (f i os) = map o_Seq os"
proof -
  have *: "map r_Seq (fst (the (run (e i) os (st i)))) = map o_Seq os" for i os
    using answers_batch [OF assms [of i], of "e i" os] by auto
  from * [of i "[opts]"] show "r_Seq (ck_Check (seen e st) i opts) = o_Seq opts"
    by (cases "fst (the (run (e i) [opts] (st i)))") (simp_all add: seen_def)
  show "ck_CheckBatch (seen e st) = Some f \<Longrightarrow> map r_Seq (f i os) = map o_Seq os"
    using * by (auto simp: seen_def)
qed

end

text \<open>A pooled module with its checker's state.\<close>

type_synonym pooledChecker = "Module \<times> PoolSpec \<times> PoolLimits \<times> pool"

fun pooled_batch :: "poolEnv \<Rightarrow> Options list \<Rightarrow> pooledChecker \<Rightarrow> (Result list \<times> pooledChecker) option" where
  "pooled_batch env os (m, spec, limits, p) =
     do { (rs, p) \<leftarrow> CheckBatch env m spec limits os p; Some (rs, (m, spec, limits, p)) }"

fun pooled_good :: "pooledChecker \<Rightarrow> bool" where
  "pooled_good (m, spec, limits, p) \<longleftrightarrow> pooled m spec \<and> pool_idle p"

interpretation prober: batch_prober pooled_batch pooled_good
proof
  fix s :: pooledChecker and e os
  assume good: "pooled_good s"
  obtain m spec limits p where s: "s = (m, spec, limits, p)" by (cases s) auto
  from CheckBatch_total [of m spec p e limits os] good s
  show "\<exists>rs s'. pooled_batch e os s = Some (rs, s') \<and> map r_Seq rs = map o_Seq os \<and> pooled_good s'" by auto
qed

lemma pooled_history_fixed:
  "batch_history pooled_batch h (m, spec, limits, p) = Some (rss, m', spec', limits', p') \<Longrightarrow> m' = m \<and> spec' = spec \<and> limits' = limits"
proof (induction h arbitrary: p rss)
  case (Cons x h)
  then show ?case by (cases x) (auto simp: bind_eq_Some_conv)
qed simp


definition demo_spec :: PoolSpec where
  "demo_spec = \<lparr>po_MaxJobsPerInstance = 2, po_TestConcurrency = 4,
     po_BuildConfig = Some \<lparr>step_Command = [''build'', ''{{jobs_json}}'', ''{{config_path}}''], step_Timeout = 0\<rparr>,
     po_Start = Some \<lparr>step_Command = [''xray'', ''{{config_path}}''], step_Timeout = 0\<rparr>, po_Stop = None\<rparr>"

definition demo_pool_module :: Module where
  "demo_pool_module = (demo_module None)\<lparr>m_Pool := Some demo_spec\<rparr>"

definition demo_limits :: PoolLimits where
  "demo_limits = \<lparr>pl_TestConcurrency = 0, pl_MaxJobsPerInstance = 0, pl_PortBase = 1, pl_PortSpan = 5\<rparr>"

definition demo_pool_env :: poolEnv where
  "demo_pool_env = \<lparr>pe_step = demo_step_env [''{}''], pe_jobsFile = \<lambda>n jobs. Inr ''/tmp/jobs.json'',
     pe_reserve = \<lambda>n. Inr ''/tmp/config.json'', pe_listen = \<lambda>n port. True, pe_alloc = \<lambda>n i. Inr (40000 + int i),
     pe_alive = \<lambda>n e. True, pe_dial = \<lambda>n port. True, pe_wait = \<lambda>n d. True, pe_cancelled = \<lambda>n. False,
     pe_sha256hex = \<lambda>s. s, pe_params_json = \<lambda>m. Some ''{}''\<rparr>"

lemma demo_pool_module_ok: "validate compile demo_pool_module = Inr demo_pool_module"
proof -
  have "name_matches ''xray''" "validatePlaceholders ''/bin/x'' = None" "validatePlaceholders ''{{target}}'' = None"
    "validatePlaceholders ''build'' = None" "validatePlaceholders ''{{jobs_json}}'' = None"
    "validatePlaceholders ''{{config_path}}'' = None" "validatePlaceholders ''xray'' = None"
    by code_simp+
  then have "module_ok compile demo_pool_module"
    by (auto simp: module_ok_def demo_pool_module_def demo_module_def demo_spec_def form_ok_def has_command_def
        collect_ok_def pool_ok_def module_steps_def map_filter_def)
  then show ?thesis by (simp add: validate_Inr with_pattern_def demo_pool_module_def demo_module_def)
qed

lemma demo_pool_module_sel:
  "m_Action demo_pool_module = []" "m_Pool demo_pool_module = Some demo_spec" "po_Stop demo_spec = None \<or> has_command (po_Stop demo_spec)"
  by (simp_all add: demo_pool_module_def demo_module_def demo_spec_def)


section \<open>The dispatcher over a registry of validated modules\<close>

text \<open>A command module without a pool, seen from the dispatcher: the subprocesses of the \<open>i\<close>-th
  goroutine are numbered from \<open>2 * i\<close>.\<close>

definition single_seen :: "stepEnv \<Rightarrow> Module \<Rightarrow> checker" where
  "single_seen env m = \<lparr>ck_Check = \<lambda>i opts. the (Check env (2 * i) m opts), ck_CheckBatch = None\<rparr>"

text \<open>The checkers \<^verbatim>\<open>NewCheckerWithLimits\<close> makes of validated command modules.\<close>

inductive module_checker :: "checker \<Rightarrow> bool" where
  single: "validate compile m0 = Inr m \<Longrightarrow> m_Action m0 = [] \<Longrightarrow> steps_runnable m0 \<Longrightarrow> module_checker (single_seen env m)"
| pool: "(\<And>i. pooled_good (st i)) \<Longrightarrow> module_checker (prober.seen e st)"

lemma module_checker_answers:
  assumes "module_checker c"
  shows "r_Seq (ck_Check c i opts) = o_Seq opts \<and> (ck_CheckBatch c = Some f \<longrightarrow> map r_Seq (f i os) = map o_Seq os)"
  using assms
proof cases
  case (single compile m0 m env)
  from single(2) have v: "module_ok compile m0" "m = with_pattern compile m0" by (simp_all add: validate_Inr)
  have "answers m0 opts (Check env (2 * i) m opts)"
    using run_check_answers [OF v(1) single(3,4)] single(3) v
    by (cases "validateRequest (parse_number env) (m_Request m) (o_Params opts)") (simp_all add: Check_def)
  then show ?thesis using single(1) by (auto simp: single_seen_def answers_def)
next
  case (pool st e)
  with prober.seen_answers [of st e] show ?thesis by blast
qed


definition demo_module_env :: checkEnv where
  "demo_module_env = demo_env\<lparr>ce_reg := (\<lambda>p.
     if p = ''tcp'' then Some (single_seen (demo_step_env [''{}'']) (demo_module None))
     else if p = ''xray'' then Some (prober.seen (\<lambda>_. demo_pool_env) (\<lambda>_. (demo_pool_module, demo_spec, demo_limits, newPoolChecker)))
     else None)\<rparr>"


end
