(* ===== verification/Pool_Sharing.thy ===== *)
theory Pool_Sharing
  imports Pool_Guarantees
begin

text \<open>
  Callers that overlap on one pool, as a step relation over the pool and its testers. While no two
  callers are in the same slot the reference counts keep every engine in use alive; when they are, a
  release goes to the wrong instance, and the theory exhibits an engine stopped under its tester
  and engines that outlive the pool.
\<close>

section \<open>Overlapping batches\<close>

text \<open>A tester is a caller between \<open>slot_enter\<close> and \<open>releaseSlot\<close>: the slot it entered and the
  engine it tests against. The flag says whether callers may enter a slot that has a tester.\<close>

type_synonym tester = "nat \<times> nat"

definition engine_of :: "pool \<Rightarrow> nat \<Rightarrow> nat" where
  "engine_of p slot = (case map_of (pc_slots p) slot of None \<Rightarrow> 0 | Some w \<Rightarrow> wi_engine w)"

inductive pool_step :: "PoolSpec \<Rightarrow> bool \<Rightarrow> pool \<times> tester list \<Rightarrow> pool \<times> tester list \<Rightarrow> bool" for spec overlap where
  enter: "slot_enter env spec limits slot chunk live p = Some (Entered jobs, p') \<Longrightarrow> chunk \<noteq> [] \<Longrightarrow>
    overlap \<or> slot \<notin> fst ` set T \<Longrightarrow> pool_step spec overlap (p, T) (p', (slot, engine_of p' slot) # T)"
| no_ports: "slot_enter env spec limits slot chunk live p = Some (NoPorts e, p') \<Longrightarrow> chunk \<noteq> [] \<Longrightarrow>
    overlap \<or> slot \<notin> fst ` set T \<Longrightarrow> pool_step spec overlap (p, T) (p', T)"
| not_built: "slot_enter env spec limits slot chunk live p = Some (NotBuilt jobs e, p') \<Longrightarrow> chunk \<noteq> [] \<Longrightarrow>
    overlap \<or> slot \<notin> fst ` set T \<Longrightarrow> pool_step spec overlap (p, T) (p', T)"
| leave: "(slot, e) \<in> set T \<Longrightarrow> releaseSlot env spec slot p = Some p' \<Longrightarrow>
    pool_step spec overlap (p, T) (p', remove1 (slot, e) T)"
| tests: "same_slots p p' \<Longrightarrow> pool_step spec overlap (p, T) (p', T)"
| close: "Close env spec p = Some p' \<Longrightarrow> pool_step spec overlap (p, T) (p', T)"

abbreviation pool_reach :: "PoolSpec \<Rightarrow> bool \<Rightarrow> pool \<times> tester list \<Rightarrow> bool" where
  "pool_reach spec overlap s \<equiv> (pool_step spec overlap)\<^sup>*\<^sup>* (newPoolChecker, []) s"

text \<open>With one tester per slot, the references count the testers, an instance is retired only while it
  is tested, and exactly the engines of the slots run.\<close>

definition slot_ok :: "tester list \<Rightarrow> nat \<Rightarrow> warmInstance \<Rightarrow> bool" where
  "slot_ok T s w \<longleftrightarrow> \<not> wi_stopped w \<and> wi_refs w = (if s \<in> fst ` set T then 1 else 0) \<and> (wi_retired w \<longrightarrow> s \<in> fst ` set T)"

definition slots_ok :: "(nat \<times> warmInstance) list \<Rightarrow> tester list \<Rightarrow> bool" where
  "slots_ok S T \<longleftrightarrow> distinct (map fst S) \<and> distinct (map fst T) \<and> (\<forall>s w. map_of S s = Some w \<longrightarrow> slot_ok T s w) \<and>
     (\<forall>(s, e)\<in>set T. \<exists>w. map_of S s = Some w \<and> wi_engine w = e)"

definition engines_ok :: "pool \<Rightarrow> bool" where
  "engines_ok p \<longleftrightarrow> distinct (pc_running p) \<and> mset (pc_running p) = mset (map (wi_engine \<circ> snd) (pc_slots p)) \<and>
     (\<forall>e\<in>set (pc_running p). e < pc_calls p)"

definition pool_shared :: "pool \<Rightarrow> tester list \<Rightarrow> bool" where
  "pool_shared p T \<longleftrightarrow> slots_ok (pc_slots p) T \<and> engines_ok p"

lemma pool_sharedD:
  assumes "pool_shared p T"
  shows "slots_ok (pc_slots p) T" "engines_ok p" "distinct (map fst (pc_slots p))" "distinct (map fst T)"
proof -
  show ok: "slots_ok (pc_slots p) T" and "engines_ok p" using assms by (simp_all add: pool_shared_def)
  from ok show "distinct (map fst (pc_slots p))" "distinct (map fst T)" unfolding slots_ok_def by blast+
qed

lemma pool_shared_keep:
  assumes "pool_shared p T" "pc_slots p' = pc_slots p" "pc_running p' = pc_running p" "pc_calls p \<le> pc_calls p'"
  shows "pool_shared p' T"
  using assms by (auto simp: pool_shared_def engines_ok_def)

lemma slots_ok_delete:
  assumes "slots_ok S T" "slot \<notin> fst ` set T'" "\<And>s e. s \<noteq> slot \<Longrightarrow> (s, e) \<in> set T' \<longleftrightarrow> (s, e) \<in> set T" "distinct (map fst T')"
  shows "slots_ok (AList.delete slot S) T'"
proof -
  have "slot_ok T' s w \<longleftrightarrow> slot_ok T s w" if "s \<noteq> slot" for s w
  proof -
    have "s \<in> fst ` set T' \<longleftrightarrow> s \<in> fst ` set T" using assms(3) [OF that] by force
    then show ?thesis by (simp add: slot_ok_def)
  qed
  moreover have "s \<noteq> slot" if "(s, e) \<in> set T'" for s e using that assms(2) by force
  ultimately show ?thesis using assms by (fastforce simp: slots_ok_def)
qed

lemma slots_ok_update:
  assumes "slots_ok S T" "slot_ok T' slot w" "\<And>s e. s \<noteq> slot \<Longrightarrow> (s, e) \<in> set T' \<longleftrightarrow> (s, e) \<in> set T" "distinct (map fst T')"
    "\<And>e. (slot, e) \<in> set T' \<Longrightarrow> wi_engine w = e"
  shows "slots_ok (AList.update slot w S) T'"
proof -
  have *: "slot_ok T' s v \<longleftrightarrow> slot_ok T s v" if "s \<noteq> slot" for s v
  proof -
    have "s \<in> fst ` set T' \<longleftrightarrow> s \<in> fst ` set T" using assms(3) [OF that] by force
    then show ?thesis by (simp add: slot_ok_def)
  qed
  have "\<exists>v. map_of (AList.update slot w S) s = Some v \<and> wi_engine v = e" if "(s, e) \<in> set T'" for s e
    using that assms(1,3,5) by (cases "s = slot") (fastforce simp: slots_ok_def)+
  moreover have "slot_ok T' s v" if "map_of (AList.update slot w S) s = Some v" for s v
    using that assms(1,2) * by (cases "s = slot") (auto simp: slots_ok_def)
  ultimately show ?thesis using assms(1,4) by (auto simp: slots_ok_def)
qed

lemma pool_shared_drop:
  assumes "slots_ok (AList.delete slot (pc_slots p)) T" "engines_ok p" "map_of (pc_slots p) slot = Some w" "distinct (map fst (pc_slots p))"
  shows "pool_shared ((asked p)\<lparr>pc_running := remove1 (wi_engine w) (pc_running p), pc_slots := AList.delete slot (pc_slots p)\<rparr>) T"
  using assms mset_delete_slot [OF assms(4,3), of wi_engine]
  by (auto simp: pool_shared_def engines_ok_def asked_def less_Suc_eq dest: notin_set_remove1)

lemma pool_shared_slot:
  assumes "pool_shared p T" "map_of (pc_slots p) slot = Some w"
  shows "slot_ok T slot w"
  using assms by (simp add: pool_shared_def slots_ok_def)

lemma retire_shared:
  assumes "pooled m spec" "pool_shared p T" "slot \<notin> fst ` set T" "retire env spec slot p = Some p'"
  shows "pool_shared p' T \<and> slot \<notin> fst ` set (pc_slots p')"
proof (cases "map_of (pc_slots p) slot")
  case None
  with assms(2,4) show ?thesis by (simp add: retire_def map_of_eq_None_iff)
next
  case (Some w)
  with pool_shared_slot [OF assms(2) Some] assms(3) have w: "wi_refs w = 0" "\<not> wi_stopped w" by (simp_all add: slot_ok_def)
  have p': "p' = (asked p)\<lparr>pc_running := remove1 (wi_engine w) (pc_running p), pc_slots := AList.delete slot (pc_slots p)\<rparr>"
    using assms(4) Some w teardownLocked_total [OF assms(1) w(2), of env p] by (simp add: retire_def asked_def)
  have "slots_ok (AList.delete slot (pc_slots p)) T"
    by (rule slots_ok_delete [of _ T]) (use assms(2,3) in \<open>auto simp: pool_shared_def slots_ok_def\<close>)
  with pool_shared_drop [OF _ _ Some] assms(2) p' show ?thesis
    by (auto simp: pool_shared_def slots_ok_def AList.delete_eq)
qed

lemma built_shared:
  assumes "pool_shared p T" "slot \<notin> fst ` set (pc_slots p)" "slot \<notin> fst ` set T" "built_ok jobs key p (Inr w) p'"
  shows "pool_shared (p'\<lparr>pc_slots := AList.update slot (w\<lparr>wi_refs := 1\<rparr>) (pc_slots p')\<rparr>) ((slot, wi_engine w) # T)"
proof -
  have b: "pc_slots p' = pc_slots p" "pc_running p' = wi_engine w # pc_running p" "pc_calls p \<le> wi_engine w"
    "wi_engine w < pc_calls p'" "\<not> wi_retired w" "\<not> wi_stopped w" using assms(4) by (simp_all add: built_ok_def)
  have "slots_ok (AList.update slot (w\<lparr>wi_refs := 1\<rparr>) (pc_slots p)) ((slot, wi_engine w) # T)"
  proof (rule slots_ok_update)
    show "slots_ok (pc_slots p) T" using assms(1) by (simp add: pool_shared_def)
    show "distinct (map fst ((slot, wi_engine w) # T))" using assms(1,3) by (simp add: pool_shared_def slots_ok_def)
    show "\<And>e. (slot, e) \<in> set ((slot, wi_engine w) # T) \<Longrightarrow> wi_engine (w\<lparr>wi_refs := 1\<rparr>) = e"
      using assms(3) by force
  qed (use b in \<open>auto simp: slot_ok_def\<close>)
  moreover have "engines_ok (p'\<lparr>pc_slots := AList.update slot (w\<lparr>wi_refs := 1\<rparr>) (pc_slots p)\<rparr>)"
    using assms(1) b mset_new_slot [OF assms(2), of wi_engine "w\<lparr>wi_refs := 1\<rparr>"]
    by (fastforce simp: pool_shared_def engines_ok_def)
  ultimately show ?thesis using b(1) by (simp add: pool_shared_def)
qed

text \<open>An update that keeps the engine.\<close>

lemma pool_shared_update:
  assumes "pool_shared p T" "map_of (pc_slots p) slot = Some w" "wi_engine w' = wi_engine w"
    "slots_ok (AList.update slot w' (pc_slots p)) T'"
  shows "pool_shared (p\<lparr>pc_slots := AList.update slot w' (pc_slots p)\<rparr>) T'"
  using assms mset_update_slot [of "pc_slots p" slot w wi_engine w']
  by (auto simp: pool_shared_def engines_ok_def slots_ok_def)

lemma reuse_shared:
  assumes "pool_shared p T" "map_of (pc_slots p) slot = Some w" "slot \<notin> fst ` set T"
  shows "pool_shared ((asked p)\<lparr>pc_slots := AList.update slot (w\<lparr>wi_refs := wi_refs w + 1\<rparr>) (pc_slots p)\<rparr>) ((slot, wi_engine w) # T)"
proof -
  have w: "slot_ok T slot w" by (rule pool_shared_slot [OF assms(1,2)])
  have "slots_ok (AList.update slot (w\<lparr>wi_refs := wi_refs w + 1\<rparr>) (pc_slots p)) ((slot, wi_engine w) # T)"
  proof (rule slots_ok_update)
    show "slots_ok (pc_slots p) T" using assms(1) by (simp add: pool_shared_def)
    show "distinct (map fst ((slot, wi_engine w) # T))" using assms(1,3) by (simp add: pool_shared_def slots_ok_def)
    show "\<And>e. (slot, e) \<in> set ((slot, wi_engine w) # T) \<Longrightarrow> wi_engine (w\<lparr>wi_refs := wi_refs w + 1\<rparr>) = e"
      using assms(3) by force
  qed (use w assms(3) in \<open>auto simp: slot_ok_def\<close>)
  moreover have "pool_shared (asked p) T" by (rule pool_shared_keep [OF assms(1)]) (simp_all add: asked_def)
  ultimately show ?thesis using pool_shared_update [of "asked p" T slot w] assms(2) by (simp add: asked_def)
qed

fun entered_shared :: "nat \<Rightarrow> tester list \<Rightarrow> entered \<Rightarrow> pool \<Rightarrow> bool" where
  "entered_shared slot T (Entered jobs) p \<longleftrightarrow> pool_shared p ((slot, engine_of p slot) # T)"
| "entered_shared slot T _ p \<longleftrightarrow> pool_shared p T"

lemma slot_enter_shared:
  assumes "pooled m spec" "pool_shared p T" "slot \<notin> fst ` set T" "chunk \<noteq> []"
    "slot_enter env spec limits slot chunk live p = Some (e, p')"
  shows "entered_shared slot T e p'"
proof -
  obtain r p1 where a: "assign_ports env limits (used_ports p) chunk p = (r, p1)" by fastforce
  note a' = assign_ports_spec [OF a]
  show ?thesis
  proof (cases r)
    case (Inl x)
    have "pool_shared p1 T" by (rule pool_shared_keep [OF assms(2)]) (use a' in simp_all)
    with a Inl assms(5) show ?thesis by (auto simp: slot_enter_def)
  next
    case (Inr jobs)
    have "jobs \<noteq> []" using a' Inr assms(4) by auto
    define p2 where "p2 = p1\<lparr>pc_ports := filter (\<lambda>(k, _). k \<in> set live) (pc_ports p1)\<rparr>"
    have i2: "pool_shared p2 T" by (rule pool_shared_keep [OF assms(2)]) (use a' in \<open>simp_all add: p2_def\<close>)
    show ?thesis
    proof (cases "reusable env slot (hashJobs env jobs) p2")
      case (Some w)
      then have w: "map_of (pc_slots p2) slot = Some w" by (auto simp: reusable_def split: option.splits if_splits)
      from reuse_shared [OF i2 w assms(3)] a Inr Some assms(5) show ?thesis
        by (auto simp: slot_enter_def p2_def [symmetric] Let_def engine_of_def)
    next
      case None
      have "pool_shared (asked p2) T" by (rule pool_shared_keep [OF i2]) (simp_all add: asked_def)
      note ret = retire_shared [OF assms(1) this assms(3)]
      obtain p3 b where p3: "retire env spec slot (asked p2) = Some p3"
        "buildAndStart env spec jobs (hashJobs env jobs) p3 = Some b"
        using a Inr None assms(5) by (auto simp: slot_enter_def p2_def [symmetric] Let_def bind_eq_Some_conv)
      obtain b1 p4 where b: "b = (b1, p4)" by (cases b)
      have ok: "built_ok jobs (hashJobs env jobs) p3 b1 p4"
        using buildAndStart_total [OF assms(1) \<open>jobs \<noteq> []\<close>, of env "hashJobs env jobs" p3] p3(2) b by auto
      show ?thesis
      proof (cases b1)
        case (Inl err)
        have "pool_shared p4 T" by (rule pool_shared_keep [of p3]) (use ret [OF p3(1)] ok Inl in \<open>simp_all add: built_ok_def\<close>)
        with Inl a \<open>r = Inr jobs\<close> None p3 b assms(5) show ?thesis
          by (auto simp: slot_enter_def p2_def [symmetric] Let_def)
      next
        case (Inr w)
        from built_shared [of p3 T slot] ret [OF p3(1)] ok Inr assms(3)
        have "pool_shared (p4\<lparr>pc_slots := AList.update slot (w\<lparr>wi_refs := 1\<rparr>) (pc_slots p4)\<rparr>) ((slot, wi_engine w) # T)" by blast
        with Inr a \<open>r = Inr jobs\<close> None p3 b assms(5) show ?thesis
          by (auto simp: slot_enter_def p2_def [symmetric] Let_def engine_of_def)
      qed
    qed
  qed
qed

lemma releaseSlot_shared:
  assumes "pooled m spec" "pool_shared p T" "(slot, e) \<in> set T" "releaseSlot env spec slot p = Some p'"
  shows "pool_shared p' (remove1 (slot, e) T)"
proof -
  let ?T = "remove1 (slot, e) T"
  note T = pool_sharedD(4,1,2,3) [OF assms(2)]
  then obtain w where w: "map_of (pc_slots p) slot = Some w" "wi_engine w = e" using assms(3) by (fastforce simp: slots_ok_def)
  then have "slot_ok T slot w" using T(2) by (simp add: slots_ok_def)
  moreover have "slot \<in> fst ` set T" using assms(3) by force
  ultimately have ok: "wi_refs w = 1" "\<not> wi_stopped w" by (simp_all add: slot_ok_def)
  have "distinct T" using T(1) by (simp add: distinct_map)
  then have left: "set ?T = set T - {(slot, e)}" by simp
  have dT: "distinct (map fst ?T)" using T(1) by (simp add: distinct_map \<open>distinct T\<close> inj_on_diff left)
  have gone: "slot \<notin> fst ` set ?T" using eq_key_imp_eq_value [OF T(1) assms(3)] by (auto simp: left)
  have others: "(s, x) \<in> set ?T \<longleftrightarrow> (s, x) \<in> set T" if "s \<noteq> slot" for s x using that left by auto
  let ?w = "w\<lparr>wi_refs := wi_refs w - 1\<rparr>"
  show ?thesis
  proof (cases "wi_retired w")
    case True
    have p': "p' = (asked p)\<lparr>pc_running := remove1 (wi_engine w) (pc_running p), pc_slots := AList.delete slot (pc_slots p)\<rparr>"
      using assms(4) w True ok teardownLocked_total [OF assms(1), of ?w env p] by (simp add: releaseSlot_def asked_def)
    have "slots_ok (AList.delete slot (pc_slots p)) ?T" by (rule slots_ok_delete [OF T(2) gone others dT])
    from pool_shared_drop [OF this T(3) w(1) T(4)] show ?thesis unfolding p' .
  next
    case False
    then have p': "p' = p\<lparr>pc_slots := AList.update slot ?w (pc_slots p)\<rparr>" using assms(4) w by (simp add: releaseSlot_def)
    have "slots_ok (AList.update slot ?w (pc_slots p)) ?T"
      by (rule slots_ok_update [OF T(2) _ others dT]) (use gone ok False in \<open>force simp: slot_ok_def\<close>)+
    from pool_shared_update [OF assms(2) w(1) _ this] show ?thesis unfolding p' by simp
  qed
qed

lemma close_loop_shared:
  assumes "pooled m spec" "pool_shared p T" "distinct (map fst ws)" "\<forall>(s, w)\<in>set ws. map_of (pc_slots p) s = Some w"
    "close_loop env spec ws p = Some p'"
  shows "pool_shared p' T"
  using assms(2-5)
proof (induction ws arbitrary: p)
  case (Cons x ws)
  obtain s w where x: "x = (s, w)" by (cases x)
  have m: "map_of (pc_slots p) s = Some w" using Cons.prems(3) x by simp
  have ok: "slot_ok T s w" by (rule pool_shared_slot [OF Cons.prems(1) m])
  note T = pool_sharedD [OF Cons.prems(1)]
  have rest: "distinct (map fst ws)" "s \<notin> fst ` set ws" using Cons.prems(2) x by simp_all
  then have keep: "\<forall>(s', v)\<in>set ws. s' \<noteq> s \<and> map_of (pc_slots p) s' = Some v" using Cons.prems(3) x by force
  show ?case
  proof (cases "wi_refs w = 0")
    case True
    let ?p = "(asked p)\<lparr>pc_running := remove1 (wi_engine w) (pc_running p), pc_slots := AList.delete s (pc_slots p)\<rparr>"
    have out: "s \<notin> fst ` set T" using ok True by (auto simp: slot_ok_def split: if_splits)
    have "slots_ok (AList.delete s (pc_slots p)) T" by (rule slots_ok_delete [OF T(1) out _ T(4)]) simp
    from pool_shared_drop [OF this T(2) m T(3)] have "pool_shared ?p T" .
    moreover have "close_loop env spec ws ?p = Some p'"
      using Cons.prems(4) x True ok teardownLocked_total [OF assms(1), of w env p] by (simp add: slot_ok_def asked_def)
    moreover have "\<forall>(s', v)\<in>set ws. map_of (pc_slots ?p) s' = Some v" using keep by (auto simp: asked_def)
    ultimately show ?thesis using Cons.IH rest(1) by blast
  next
    case False
    let ?p = "p\<lparr>pc_slots := AList.update s (w\<lparr>wi_retired := True\<rparr>) (pc_slots p)\<rparr>"
    have ins: "s \<in> fst ` set T" using ok False by (auto simp: slot_ok_def split: if_splits)
    have "wi_engine w = e" if "(s, e) \<in> set T" for e using T(1) m that by (fastforce simp: slots_ok_def)
    then have "slots_ok (AList.update s (w\<lparr>wi_retired := True\<rparr>) (pc_slots p)) T"
      by (intro slots_ok_update [OF T(1)]) (use ok ins T(4) in \<open>auto simp: slot_ok_def\<close>)
    from pool_shared_update [OF Cons.prems(1) m _ this] have "pool_shared ?p T" by simp
    moreover have "close_loop env spec ws ?p = Some p'" using Cons.prems(4) x False by simp
    moreover have "\<forall>(s', v)\<in>set ws. map_of (pc_slots ?p) s' = Some v" using keep by auto
    ultimately show ?thesis using Cons.IH rest(1) by blast
  qed
qed simp

lemma pool_step_shared:
  assumes "pool_step spec False s s'" "pooled m spec" "pool_shared (fst s) (snd s)"
  shows "pool_shared (fst s') (snd s')"
  using assms(1)
proof cases
  case (close env p p' T)
  have "distinct (map fst (pc_slots p))" using assms(3) close by (simp add: pool_shared_def slots_ok_def)
  then have "\<forall>(s, w)\<in>set (pc_slots p). map_of (pc_slots p) s = Some w" by auto
  with close_loop_shared [OF assms(2), of p T "pc_slots p" env p'] close assms(3) \<open>distinct (map fst (pc_slots p))\<close>
  show ?thesis by (simp add: Close_def)
next
  case (tests p p' T)
  with assms(3) show ?thesis by (auto intro: pool_shared_keep simp: same_slots_def)
next
  case (leave slot e T env p p')
  with releaseSlot_shared [OF assms(2)] assms(3) show ?thesis by simp
next
  case (enter env limits slot chunk live p jobs p' T)
  with slot_enter_shared [OF assms(2), of p T slot chunk env limits live "Entered jobs" p'] assms(3) show ?thesis by simp
next
  case (no_ports env limits slot chunk live p e p' T)
  with slot_enter_shared [OF assms(2), of p T slot chunk env limits live "NoPorts e" p'] assms(3) show ?thesis by simp
next
  case (not_built env limits slot chunk live p jobs e p' T)
  with slot_enter_shared [OF assms(2), of p T slot chunk env limits live "NotBuilt jobs e" p'] assms(3) show ?thesis by simp
qed

lemma pool_reach_shared:
  assumes "pool_reach spec False s" "pooled m spec"
  shows "pool_shared (fst s) (snd s)"
  using assms(1)
proof (induction rule: rtranclp_induct)
  case base
  show ?case by (simp add: pool_shared_def slots_ok_def engines_ok_def newPoolChecker_def)
next
  case (step s s')
  with pool_step_shared assms(2) show ?case by blast
qed


definition demo_chunk :: "string \<Rightarrow> pendingJob list" where
  "demo_chunk k = [\<lparr>pd_idx = 0, pd_key = k, pd_o = (demo_options 1)\<lparr>o_Target := k, o_Timeout := millisecond\<rparr>\<rparr>]"

definition demo_enter :: "string \<Rightarrow> pool \<Rightarrow> pool" where
  "demo_enter k p = snd (the (slot_enter demo_pool_env demo_spec demo_limits 0 (demo_chunk k) [k] p))"

definition demo_entered :: "string \<Rightarrow> pool \<Rightarrow> bool" where
  "demo_entered k p = (case slot_enter demo_pool_env demo_spec demo_limits 0 (demo_chunk k) [k] p of
     Some (Entered jobs, _) \<Rightarrow> True | _ \<Rightarrow> False)"

definition demo_leave :: "pool \<Rightarrow> pool" where
  "demo_leave p = the (releaseSlot demo_pool_env demo_spec 0 p)"

definition demo_close :: "pool \<Rightarrow> pool" where
  "demo_close p = the (Close demo_pool_env demo_spec p)"

lemma demo_enter_step:
  assumes "demo_entered k p"
  shows "overlap \<or> 0 \<notin> fst ` set T \<Longrightarrow> pool_step demo_spec overlap (p, T) (demo_enter k p, (0, engine_of (demo_enter k p) 0) # T)"
proof -
  obtain jobs p' where "slot_enter demo_pool_env demo_spec demo_limits 0 (demo_chunk k) [k] p = Some (Entered jobs, p')"
    using assms by (auto simp: demo_entered_def split: option.splits entered.splits prod.splits)
  then show "overlap \<or> 0 \<notin> fst ` set T \<Longrightarrow> ?thesis"
    using pool_step.enter [of demo_pool_env demo_spec demo_limits 0 "demo_chunk k" "[k]" p jobs p' overlap T]
    by (simp add: demo_enter_def demo_chunk_def)
qed


text \<open>Three callers in one slot, the second and third each with other jobs than the one before.\<close>

definition overlap1 :: pool where "overlap1 = demo_enter ''a'' newPoolChecker"
definition overlap2 :: pool where "overlap2 = demo_enter ''b'' overlap1"
definition overlap3 :: pool where "overlap3 = demo_leave overlap2"
definition overlap4 :: pool where "overlap4 = demo_enter ''c'' overlap3"
definition overlap5 :: pool where "overlap5 = demo_close (demo_leave (demo_leave overlap4))"

lemma overlap_run:
  "let p1 = demo_enter ''a'' newPoolChecker; p2 = demo_enter ''b'' p1; p3 = demo_leave p2; p4 = demo_enter ''c'' p3;
     p5 = demo_leave p4; p6 = demo_leave p5
   in demo_entered ''a'' newPoolChecker \<and> demo_entered ''b'' p1 \<and> demo_entered ''c'' p3 \<and>
     engine_of p1 0 = 4 \<and> engine_of p2 0 = 9 \<and> engine_of p4 0 = 15 \<and>
     pc_running p4 = [15, 4] \<and> pc_running (demo_close p6) = [15, 4] \<and>
     releaseSlot demo_pool_env demo_spec 0 p2 \<noteq> None \<and> releaseSlot demo_pool_env demo_spec 0 p4 \<noteq> None \<and>
     releaseSlot demo_pool_env demo_spec 0 p5 \<noteq> None \<and> Close demo_pool_env demo_spec p6 \<noteq> None"
  by code_simp

lemma overlap_facts:
  "demo_entered ''a'' newPoolChecker" "demo_entered ''b'' overlap1" "demo_entered ''c'' overlap3"
  "engine_of overlap1 0 = 4" "engine_of overlap2 0 = 9" "engine_of overlap4 0 = 15"
  "pc_running overlap4 = [15, 4]" "pc_running overlap5 = [15, 4]"
  "releaseSlot demo_pool_env demo_spec 0 overlap2 \<noteq> None" "releaseSlot demo_pool_env demo_spec 0 overlap4 \<noteq> None"
  "releaseSlot demo_pool_env demo_spec 0 (demo_leave overlap4) \<noteq> None"
  "Close demo_pool_env demo_spec (demo_leave (demo_leave overlap4)) \<noteq> None"
  using overlap_run unfolding Let_def overlap5_def overlap4_def overlap3_def overlap2_def overlap1_def by blast+

lemma overlap_reach: "pool_reach demo_spec True (overlap4, [(0, 15), (0, 9)])"
proof -
  have "pool_step demo_spec True (newPoolChecker, []) (overlap1, [(0, 4)])"
    using demo_enter_step [OF overlap_facts(1), of True "[]"] by (simp add: overlap1_def [symmetric] overlap_facts)
  then have "pool_reach demo_spec True (overlap1, [(0, 4)])" by simp
  moreover have "pool_step demo_spec True (overlap1, [(0, 4)]) (overlap2, [(0, 9), (0, 4)])"
    using demo_enter_step [OF overlap_facts(2), of True "[(0, 4)]"] by (simp add: overlap2_def [symmetric] overlap_facts)
  ultimately have "pool_reach demo_spec True (overlap2, [(0, 9), (0, 4)])" by simp
  moreover have "pool_step demo_spec True (overlap2, [(0, 9), (0, 4)]) (overlap3, [(0, 9)])"
    using pool_step.leave [of 0 4 "[(0, 9), (0, 4)]" demo_pool_env demo_spec overlap2 overlap3 True] overlap_facts(9)
    by (auto simp: overlap3_def demo_leave_def)
  ultimately have "pool_reach demo_spec True (overlap3, [(0, 9)])" by simp
  moreover have "pool_step demo_spec True (overlap3, [(0, 9)]) (overlap4, [(0, 15), (0, 9)])"
    using demo_enter_step [OF overlap_facts(3), of True "[(0, 9)]"] by (simp add: overlap4_def [symmetric] overlap_facts)
  ultimately show ?thesis by simp
qed

text \<open>When callers do overlap in a slot, the reference that was to defer the teardown is taken from
  the wrong instance: \<^verbatim>\<open>releaseSlot\<close> looks the instance up by slot, and the rebuild has put another
  one there. A reachable state has a caller testing against an engine that was already stopped.\<close>

theorem overlap_stops_tested_engine:
  "\<exists>p T e. pool_reach demo_spec True (p, T) \<and> (0, e) \<in> set T \<and> e \<notin> set (pc_running p)"
proof -
  have "9 \<notin> set (pc_running overlap4)" by (simp add: overlap_facts)
  with overlap_reach show ?thesis by (intro exI [of _ overlap4] exI [of _ "[(0, 15), (0, 9)]"] exI [of _ 9]) simp
qed

text \<open>In the same way engines are lost: after every caller has left and the pool has been closed, two
  engines still run, one that no slot knows any more and one whose count went below zero.\<close>

theorem overlap_leaks_engines:
  "\<exists>p p'. pool_reach demo_spec True (p, []) \<and> Close demo_pool_env demo_spec p = Some p' \<and> length (pc_running p') = 2"
proof -
  have "pool_step demo_spec True (overlap4, [(0, 15), (0, 9)]) (demo_leave overlap4, [(0, 9)])"
    using pool_step.leave [of 0 15 "[(0, 15), (0, 9)]" demo_pool_env demo_spec overlap4 "demo_leave overlap4" True] overlap_facts(10)
    by (auto simp: demo_leave_def)
  with overlap_reach have r: "pool_reach demo_spec True (demo_leave overlap4, [(0, 9)])" by simp
  have "pool_step demo_spec True (demo_leave overlap4, [(0, 9)]) (demo_leave (demo_leave overlap4), [])"
    using pool_step.leave [of 0 9 "[(0, 9)]" demo_pool_env demo_spec "demo_leave overlap4" "demo_leave (demo_leave overlap4)" True] overlap_facts(11)
    by (auto simp: demo_leave_def)
  with r have "pool_reach demo_spec True (demo_leave (demo_leave overlap4), [])" by simp
  moreover have "Close demo_pool_env demo_spec (demo_leave (demo_leave overlap4)) = Some overlap5"
    using overlap_facts(12) by (auto simp: overlap5_def demo_close_def)
  ultimately show ?thesis using overlap_facts(8) by auto
qed

end
