(* ===== verification/Pool_Reuse.thy ===== *)
theory Pool_Reuse
  imports Pool_Guarantees
begin

text \<open>
  What the pool does beyond answering: bisection isolates the jobs an engine refuses, a warm
  engine serves the same batch again without being restarted, and no two jobs share a port.
\<close>

section \<open>Bisection\<close>

text \<open>An engine that fails to build or start because of single jobs: a batch is refused exactly when it
  contains a bad one, with an error that is not put down to the environment.\<close>

definition refuses :: "poolEnv \<Rightarrow> PoolSpec \<Rightarrow> (poolJob \<Rightarrow> bool) \<Rightarrow> bool" where
  "refuses env spec bad \<longleftrightarrow>
     (\<forall>jobs key p b p'. jobs \<noteq> [] \<longrightarrow> buildAndStart env spec jobs key p = Some (b, p') \<longrightarrow>
        (case b of
           Inr w \<Rightarrow> \<not> (\<exists>j\<in>set jobs. bad j)
         | Inl err \<Rightarrow> (\<exists>j\<in>set jobs. bad j) \<and> (length jobs > 1 \<longrightarrow> shouldBisect err (length jobs))))"

definition tested :: "poolEnv \<Rightarrow> Module \<Rightarrow> poolJob \<Rightarrow> Result \<Rightarrow> bool" where
  "tested env m j r \<longleftrightarrow> (\<exists>p p'. testJob env m j p = Some (r, p'))"

definition refused :: "Module \<Rightarrow> poolJob \<Rightarrow> Result \<Rightarrow> bool" where
  "refused m j r \<longleftrightarrow> (\<exists>msg. r = result_Fail (m_Name m) (o_Target (pj_opts j)) (o_Seq (pj_opts j)) msg)"

lemma testJobs_tested:
  assumes "testJobs env m jobs (p, out) = Some (p', out')" "distinct (map pj_idx jobs)" "\<forall>j\<in>set jobs. pj_idx j < length out"
  shows "length out' = length out \<and> (\<forall>j\<in>set jobs. tested env m j (out' ! pj_idx j)) \<and>
    (\<forall>i. i \<notin> pj_idx ` set jobs \<longrightarrow> out' ! i = out ! i)"
  using assms
proof (induction jobs arbitrary: p out)
  case (Cons j jobs)
  obtain r p1 where t: "testJob env m j p = Some (r, p1)" "testJobs env m jobs (p1, out[pj_idx j := r]) = Some (p', out')"
    using Cons.prems(1) by (auto simp: bind_eq_Some_conv)
  have "distinct (map pj_idx jobs)" "\<forall>k\<in>set jobs. pj_idx k < length (out[pj_idx j := r])" using Cons.prems(2,3) by auto
  from Cons.IH [OF t(2) this] have ih: "length out' = length out" "\<forall>k\<in>set jobs. tested env m k (out' ! pj_idx k)"
    "\<And>i. i \<notin> pj_idx ` set jobs \<Longrightarrow> out' ! i = out[pj_idx j := r] ! i" by auto
  have "pj_idx j \<notin> pj_idx ` set jobs" using Cons.prems(2) by simp
  from ih(3) [OF this] have "out' ! pj_idx j = r" using Cons.prems(3) by simp
  with t(1) ih show ?case by (auto simp: tested_def)
qed simp

lemma failJobs_refused:
  assumes "distinct (map pj_idx jobs)" "\<forall>j\<in>set jobs. pj_idx j < length out"
  shows "length (failJobs (m_Name m) err jobs out) = length out \<and>
    (\<forall>j\<in>set jobs. refused m j (failJobs (m_Name m) err jobs out ! pj_idx j)) \<and>
    (\<forall>i. i \<notin> pj_idx ` set jobs \<longrightarrow> failJobs (m_Name m) err jobs out ! i = out ! i)"
  using assms
proof (induction jobs arbitrary: out)
  case (Cons j jobs)
  let ?r = "result_Fail (m_Name m) (o_Target (pj_opts j)) (o_Seq (pj_opts j)) err"
  have step: "failJobs (m_Name m) err (j # jobs) out = failJobs (m_Name m) err jobs (out[pj_idx j := ?r])"
    by (simp add: failJobs_def)
  have "distinct (map pj_idx jobs)" "\<forall>k\<in>set jobs. pj_idx k < length (out[pj_idx j := ?r])" using Cons.prems by auto
  from Cons.IH [OF this] Cons.prems show ?case unfolding step by (auto simp: refused_def)
qed (simp add: failJobs_def)

lemma runEphemeral_isolates:
  assumes "refuses env spec bad" "jobs \<noteq> []" "distinct (map pj_idx jobs)" "\<forall>j\<in>set jobs. pj_idx j < length out"
    "runEphemeral env m spec jobs (p, out) = Some (p', out')"
  shows "length out' = length out \<and>
    (\<forall>j\<in>set jobs. if bad j then refused m j (out' ! pj_idx j) else tested env m j (out' ! pj_idx j)) \<and>
    (\<forall>i. i \<notin> pj_idx ` set jobs \<longrightarrow> out' ! i = out ! i)"
  using assms(2-5)
proof (induction "length jobs" arbitrary: jobs p out p' out' rule: less_induct)
  case less
  obtain b p1 where b: "buildAndStart env spec jobs (hashJobs env jobs) p = Some (b, p1)"
    using less.prems(4) by (auto simp: runEphemeral.simps [of env m spec jobs] bind_eq_Some_conv)
  note r = assms(1) [unfolded refuses_def, rule_format, OF less.prems(1) b]
  show ?case
  proof (cases b)
    case (Inr w)
    obtain p2 out2 where t: "testJobs env m jobs (p1, out) = Some (p2, out2)" "out' = out2"
      using less.prems(4) b Inr by (auto simp: runEphemeral.simps [of env m spec jobs] bind_eq_Some_conv)
    have "\<forall>j\<in>set jobs. \<not> bad j" using r Inr by simp
    with testJobs_tested [OF t(1) less.prems(2,3)] t(2) show ?thesis by simp
  next
    case (Inl err)
    show ?thesis
    proof (cases "length jobs > 1")
      case True
      let ?h = "length jobs div 2"
      let ?l = "take ?h jobs" and ?r = "drop ?h jobs"
      have "shouldBisect err (length jobs)" using r Inl True by simp
      then obtain p2 out2 where s: "runEphemeral env m spec ?l (p1, out) = Some (p2, out2)"
        "runEphemeral env m spec ?r (p2, out2) = Some (p', out')"
        using less.prems(4) b Inl True by (auto simp: runEphemeral.simps [of env m spec jobs] bind_eq_Some_conv)
      have half: "0 < ?h" "?h < length jobs" using True by auto
      have ne: "?l \<noteq> []" "?r \<noteq> []" "length ?l < length jobs" "length ?r < length jobs" using half by auto
      have parts: "set jobs = set ?l \<union> set ?r" by (metis append_take_drop_id set_append)
      have "distinct (map pj_idx ?l @ map pj_idx ?r)" using less.prems(2) by (metis append_take_drop_id map_append)
      then have d: "distinct (map pj_idx ?l)" "distinct (map pj_idx ?r)" "pj_idx ` set ?l \<inter> pj_idx ` set ?r = {}"
        unfolding distinct_append by simp_all
      have "\<forall>j\<in>set ?l. pj_idx j < length out" using less.prems(3) parts by blast
      from less.hyps [OF ne(3,1) d(1) this s(1)] have L: "length out2 = length out"
        "\<And>j. j \<in> set ?l \<Longrightarrow> if bad j then refused m j (out2 ! pj_idx j) else tested env m j (out2 ! pj_idx j)"
        "\<And>i. i \<notin> pj_idx ` set ?l \<Longrightarrow> out2 ! i = out ! i" by blast+
      have "\<forall>j\<in>set ?r. pj_idx j < length out2" using less.prems(3) parts L(1) by auto
      from less.hyps [OF ne(4,2) d(2) this s(2)] have R: "length out' = length out2"
        "\<And>j. j \<in> set ?r \<Longrightarrow> if bad j then refused m j (out' ! pj_idx j) else tested env m j (out' ! pj_idx j)"
        "\<And>i. i \<notin> pj_idx ` set ?r \<Longrightarrow> out' ! i = out2 ! i" by blast+
      have "out' ! pj_idx j = out2 ! pj_idx j" if "j \<in> set ?l" for j using d(3) that by (intro R(3)) blast
      with L R parts show ?thesis by (auto simp: image_Un)
    next
      case False
      with less.prems(1) obtain j where j: "jobs = [j]" by (cases jobs; cases "tl jobs") auto
      have "out' = failJobs (m_Name m) (build_message err) jobs out"
        using less.prems(4) b Inl False by (auto simp: runEphemeral.simps [of env m spec jobs])
      with failJobs_refused [OF less.prems(2,3), of m "build_message err"] r Inl j show ?thesis by simp
    qed
  qed
qed

text \<open>C22. When single jobs keep an engine from being built or started, splitting the batch in halves finds
  them: every other job of the batch is tested, and each bad one is answered with its own failure. The
  recursion ends for every batch.\<close>

theorem bisection_isolates_bad_jobs:
  assumes "validate compile m0 = Inr m" "m_Action m0 = []" "m_Pool m0 = Some spec"
    "po_Stop spec = None \<or> has_command (po_Stop spec)" "refuses env spec bad"
    "jobs \<noteq> []" "distinct (map pj_idx jobs)" "\<forall>j\<in>set jobs. pj_idx j < length out"
  shows "\<exists>p' out'. runEphemeral env m spec jobs (p, out) = Some (p', out') \<and>
    (\<forall>j\<in>set jobs. if bad j then refused m j (out' ! pj_idx j) else tested env m j (out' ! pj_idx j))"
proof -
  have "pooled m spec" using assms(1-4) by (auto simp: pooled_def validate_Inr)
  from runEphemeral_total [OF this assms(6-8)] obtain p' out' where "runEphemeral env m spec jobs (p, out) = Some (p', out')"
    by blast
  with runEphemeral_isolates [OF assms(5-8)] show ?thesis by blast
qed

definition is_bad :: "poolJob \<Rightarrow> bool" where "is_bad j \<longleftrightarrow> pj_key j = ''bad''"

definition demo_bad_env :: poolEnv where
  "demo_bad_env = demo_pool_env
     \<lparr>pe_jobsFile := \<lambda>n jobs. Inr (if list_ex is_bad jobs then ''bad'' else ''good''),
      pe_step := (demo_step_env [])\<lparr>se_run := \<lambda>n argv e.
        \<lparr>px_stdout = [], px_stderr = [], px_err = if argv ! 1 = ''bad'' then Some ''exit status 1'' else None\<rparr>\<rparr>\<rparr>"

lemma demo_bad_env_refuses: "refuses demo_bad_env demo_spec is_bad"
proof -
  let ?b = "\<lparr>step_Command = [''build'', ''{{jobs_json}}'', ''{{config_path}}''], step_Timeout = 0\<rparr>"
  let ?s = "\<lparr>step_Command = [''xray'', ''{{config_path}}''], step_Timeout = 0\<rparr>"
  have bc: "po_BuildConfig demo_spec = Some ?b" "po_Start demo_spec = Some ?s" by (simp_all add: demo_spec_def)
  have s: "scan ''{{jobs_json}}'' = [Token ''jobs_json'' ''{{jobs_json}}'']" by code_simp
  have argv: "resolve pr (pool_context jp cp b) [''build'', ''{{jobs_json}}'', ''{{config_path}}''] ! 1 = jp" for pr jp cp b
    by (simp add: resolve_def resolve_arg_def s token_value_def pool_context_def)
  have run: "run_build demo_bad_env ?b (pool_context jp cp b) p =
      Some (if jp = ''bad'' then Some ''exit status 1'' else None, if jp = ''bad'' then asked (asked p) else asked p)" for jp cp b p
    using argv by (simp add: run_build_def runStep_def demo_bad_env_def demo_spec_def demo_pool_env_def demo_step_env_def
        resolve_def lb_new_def Let_def)
  have start: "start_pool_engine demo_bad_env ?s ec jobs key jp cp p = Some (b, p') \<Longrightarrow> \<exists>w. b = Inr w"
    for ec jobs key jp cp p b p'
    by (auto simp: start_pool_engine_def startEngine_def demo_bad_env_def demo_pool_env_def demo_step_env_def demo_spec_def
        resolve_def Let_def split: list.splits)
  have bis: "n > 1 \<Longrightarrow> shouldBisect (EngineBuildError ''build_config'' ''exit status 1'') n" for n
  proof -
    have "\<not> Contains ''exit status 1'' ''not found''" "\<not> Contains ''exit status 1'' ''exit status 127''"
      "\<not> Contains ''exit status 1'' ''executable file not found''" by code_simp+
    then show "n > 1 \<Longrightarrow> ?thesis" by (simp add: shouldBisect_def)
  qed
  have files: "pe_jobsFile demo_bad_env n jobs = Inr (if list_ex is_bad jobs then ''bad'' else ''good'')"
    "pe_reserve demo_bad_env n = Inr ''/tmp/config.json''" for n jobs
    by (simp_all add: demo_bad_env_def demo_pool_env_def)
  show ?thesis
    unfolding refuses_def
  proof (intro allI impI)
    fix jobs :: "poolJob list" and key p b p'
    assume build: "buildAndStart demo_bad_env demo_spec jobs key p = Some (b, p')"
    show "case b of Inl err \<Rightarrow> (\<exists>j\<in>set jobs. is_bad j) \<and> (1 < length jobs \<longrightarrow> shouldBisect err (length jobs))
        | Inr w \<Rightarrow> \<not> (\<exists>j\<in>set jobs. is_bad j)"
    proof (cases "list_ex is_bad jobs")
      case True
      with build files run bc have "b = Inl (EngineBuildError ''build_config'' ''exit status 1'')"
        by (simp add: buildAndStart_def Let_def)
      with True bis show ?thesis by (auto simp: list_ex_iff)
    next
      case False
      with build files run bc start have "\<exists>w. b = Inr w"
        by (simp add: buildAndStart_def Let_def)
      with False show ?thesis by (auto simp: list_ex_iff)
    qed
  qed
qed

definition demo_jobs_list :: "poolJob list" where
  "demo_jobs_list = map (\<lambda>(i, k). \<lparr>pj_idx = i, pj_key = k, pj_opts = demo_options (int i), pj_port = 1\<rparr>)
     [(0, ''x''), (1, ''bad''), (2, ''y'')]"

theorem bisection_isolates_bad_jobs_witness:
  "\<exists>p' out'. runEphemeral demo_bad_env demo_pool_module demo_spec demo_jobs_list (newPoolChecker, replicate 3 result_zero) = Some (p', out')
    \<and> refused demo_pool_module (demo_jobs_list ! 1) (out' ! 1) \<and> tested demo_bad_env demo_pool_module (demo_jobs_list ! 2) (out' ! 2)"
proof -
  have "demo_jobs_list \<noteq> []" "distinct (map pj_idx demo_jobs_list)" "\<forall>j\<in>set demo_jobs_list. pj_idx j < length (replicate 3 result_zero)"
    by (simp_all add: demo_jobs_list_def)
  from bisection_isolates_bad_jobs [OF demo_pool_module_ok demo_pool_module_sel demo_bad_env_refuses this, of newPoolChecker]
  show ?thesis by (auto simp: demo_jobs_list_def is_bad_def)
qed

section \<open>Ports\<close>

definition job_of :: "pool \<Rightarrow> pendingJob \<Rightarrow> poolJob" where
  "job_of p q = pool_job q (the (map_of (pc_ports p) (pd_key q)))"

definition pinned :: "pool \<Rightarrow> pendingJob list \<Rightarrow> bool" where
  "pinned p chunk \<longleftrightarrow> list_all (\<lambda>q. map_of (pc_ports p) (pd_key q) \<noteq> None) chunk"

lemma unique_port_loop_fresh: "unique_port_loop env n used i k = Inr port \<Longrightarrow> port \<notin> set used"
  by (induction env n used i k rule: unique_port_loop.induct) (auto split: sum.splits if_splits)

lemma allocatePoolPort_fresh: "allocatePoolPort env n used base width = Inr port \<Longrightarrow> port \<notin> set used"
  by (auto simp: allocatePoolPort_def allocateUniquePort_def allocateUniquePortInRange_def find_Some_iff
      dest: unique_port_loop_fresh split: if_splits option.splits)

text \<open>The pins: one port per key, no port twice.\<close>

definition pins_ok :: "pool \<Rightarrow> bool" where
  "pins_ok p \<longleftrightarrow> distinct (map fst (pc_ports p)) \<and> distinct (map snd (pc_ports p))"

lemma update_fresh: "k \<notin> fst ` set m \<Longrightarrow> AList.update k v m = m @ [(k, v)]"
  by (induction m) auto

lemma assign_ports_pins:
  assumes "assign_ports env limits used chunk p = (r, p')" "pins_ok p" "set used = snd ` set (pc_ports p)"
  shows "pins_ok p' \<and> (\<forall>k v. map_of (pc_ports p) k = Some v \<longrightarrow> map_of (pc_ports p') k = Some v) \<and>
    (\<forall>jobs. r = Inr jobs \<longrightarrow> jobs = map (job_of p') chunk \<and> pinned p' chunk)"
  using assms
proof (induction env limits used chunk p arbitrary: r p' rule: assign_ports.induct)
  case (2 env limits used pd chunk p)
  show ?case
  proof (cases "map_of (pc_ports p) (pd_key pd)")
    case (Some port)
    obtain r1 p1 where a: "assign_ports env limits used chunk p = (r1, p1)" by fastforce
    from 2(2) [OF Some a 2(4,5)] 2(3) Some a show ?thesis by (cases r1) (auto simp: job_of_def pinned_def)
  next
    case None
    then have fresh: "pd_key pd \<notin> fst ` set (pc_ports p)" by (simp add: map_of_eq_None_iff)
    show ?thesis
    proof (cases "allocatePoolPort env (pc_calls p) used (pl_PortBase limits) (pl_PortSpan limits)")
      case (Inl e)
      with None 2(3,4) show ?thesis by (auto simp: asked_def pins_ok_def)
    next
      case (Inr port)
      let ?p = "(asked p)\<lparr>pc_ports := AList.update (pd_key pd) port (pc_ports p)\<rparr>"
      obtain r1 p1 where a: "assign_ports env limits (port # used) chunk ?p = (r1, p1)" by fastforce
      have "port \<notin> snd ` set (pc_ports p)" using allocatePoolPort_fresh [OF Inr] 2(5) by simp
      then have "pins_ok ?p" "set (port # used) = snd ` set (pc_ports ?p)"
        using 2(4,5) fresh by (auto simp: pins_ok_def update_fresh)
      from 2(1) [OF None Inr a this] have ih: "pins_ok p1"
        "\<And>k v. map_of (pc_ports ?p) k = Some v \<Longrightarrow> map_of (pc_ports p1) k = Some v"
        "\<And>jobs. r1 = Inr jobs \<Longrightarrow> jobs = map (job_of p1) chunk \<and> pinned p1 chunk" by auto
      have "map_of (pc_ports p1) (pd_key pd) = Some port" by (rule ih(2)) simp
      moreover have "map_of (pc_ports p1) k = Some v" if "map_of (pc_ports p) k = Some v" for k v
        using that None by (intro ih(2)) auto
      ultimately show ?thesis using 2(3) None Inr a ih(1,3) by (cases r1) (auto simp: job_of_def pinned_def)
    qed
  qed
qed (auto simp: pinned_def)

lemma assign_ports_pinned: "pinned p chunk \<Longrightarrow> assign_ports env limits used chunk p = (Inr (map (job_of p) chunk), p)"
  by (induction env limits used chunk p rule: assign_ports.induct) (auto simp: pinned_def job_of_def)

section \<open>Warm engines\<close>

text \<open>A slot is warm for a chunk when its instance was built from exactly these jobs.\<close>

definition warm :: "poolEnv \<Rightarrow> pool \<Rightarrow> nat \<Rightarrow> pendingJob list \<Rightarrow> bool" where
  "warm env p slot chunk \<longleftrightarrow> pinned p chunk \<and>
     (case map_of (pc_slots p) slot of
        None \<Rightarrow> False
      | Some w \<Rightarrow> \<not> wi_retired w \<and> wi_refs w = 0 \<and> wi_jobsKey w = hashJobs env (map (job_of p) chunk))"

definition healthy :: "poolEnv \<Rightarrow> bool" where
  "healthy env \<longleftrightarrow> (\<forall>n e. pe_alive env n e) \<and> (\<forall>n port. pe_dial env n port)"

lemma map_of_filter_live: "k \<in> set live \<Longrightarrow> map_of (filter (\<lambda>(k, _). k \<in> set live) m) k = map_of m k"
  by (induction m) auto

lemma job_of_cong: "map_of (pc_ports p') (pd_key q) = map_of (pc_ports p) (pd_key q) \<Longrightarrow> job_of p' q = job_of p q"
  by (simp add: job_of_def)

lemma warm_cong:
  assumes "pc_slots p' = pc_slots p" "\<And>q. q \<in> set chunk \<Longrightarrow> map_of (pc_ports p') (pd_key q) = map_of (pc_ports p) (pd_key q)"
  shows "warm env p' slot chunk \<longleftrightarrow> warm env p slot chunk"
proof -
  have "map (job_of p') chunk = map (job_of p) chunk" using assms(2) by (simp add: job_of_def)
  moreover have "pinned p' chunk \<longleftrightarrow> pinned p chunk" using assms(2) by (auto simp: pinned_def list_all_iff)
  ultimately show ?thesis unfolding warm_def assms(1) by (simp only:)
qed

lemma runSlot_warm:
  assumes "pooled m spec" "warm env p slot chunk" "healthy env" "\<forall>q\<in>set chunk. pd_key q \<in> set live"
    "distinct (map pd_idx chunk)" "\<forall>q\<in>set chunk. pd_idx q < length out"
  shows "\<exists>p' out'. runSlot env m spec limits slot chunk live (p, out) = Some (p', out') \<and> pc_slots p' = pc_slots p \<and>
    pc_running p' = pc_running p \<and> pc_ports p' = filter (\<lambda>(k, _). k \<in> set live) (pc_ports p) \<and> length out' = length out"
proof -
  define p1 where "p1 = p\<lparr>pc_ports := filter (\<lambda>(k, _). k \<in> set live) (pc_ports p)\<rparr>"
  let ?jobs = "map (job_of p) chunk"
  obtain w where w: "map_of (pc_slots p) slot = Some w" "\<not> wi_retired w" "wi_refs w = 0" "wi_jobsKey w = hashJobs env ?jobs"
    and pin: "pinned p chunk" using assms(2) by (auto simp: warm_def split: option.splits)
  have "reusable env slot (hashJobs env ?jobs) p1 = Some w"
    using w assms(3) by (simp add: reusable_def p1_def healthyLocked_def healthy_def list_all_iff)
  then have e: "slot_enter env spec limits slot chunk live p = Some (Entered ?jobs,
      (asked p1)\<lparr>pc_slots := AList.update slot (w\<lparr>wi_refs := wi_refs w + 1\<rparr>) (pc_slots p1)\<rparr>)"
    using assign_ports_pinned [OF pin] by (simp add: slot_enter_def p1_def [symmetric] Let_def)
  let ?p2 = "(asked p1)\<lparr>pc_slots := AList.update slot (w\<lparr>wi_refs := wi_refs w + 1\<rparr>) (pc_slots p1)\<rparr>"
  have idx: "map pj_idx ?jobs = map pd_idx chunk" by (simp add: job_of_def pool_job_def)
  have "distinct (map pj_idx ?jobs)" "\<forall>j\<in>set ?jobs. pj_idx j < length out"
    using assms(5,6) unfolding idx by (auto simp: job_of_def pool_job_def)
  from testJobs_total [OF assms(1) this, of env ?p2] obtain p3 out3 where t: "testJobs env m ?jobs (?p2, out) = Some (p3, out3)"
    "fills m (job_places ?jobs) out out3" "same_slots ?p2 p3" by blast
  have s3: "pc_slots p3 = AList.update slot (w\<lparr>wi_refs := 1\<rparr>) (pc_slots p)" "pc_running p3 = pc_running p"
    "pc_ports p3 = pc_ports p1" using t(3) w(3) by (simp_all add: same_slots_def p1_def asked_def)
  have "releaseSlot env spec slot p3 = Some (p3\<lparr>pc_slots := AList.update slot (w\<lparr>wi_refs := 0\<rparr>) (pc_slots p3)\<rparr>)"
    using s3(1) w(2) by (simp add: releaseSlot_def)
  moreover have "AList.update slot (w\<lparr>wi_refs := 0\<rparr>) (pc_slots p3) = pc_slots p"
    using w(1,3) by (simp add: s3(1) slot_update_update refs_zero update_triv)
  ultimately show ?thesis using e t(1) s3 fills_length [OF t(2)] by (simp add: runSlot_def p1_def)
qed

lemma slots_loop_warm:
  assumes "pooled m spec" "healthy env" "0 < n" "distinct (map pd_idx pending)" "\<forall>q\<in>set pending. pd_idx q < length out"
    "\<forall>q\<in>set pending. pd_key q \<in> set live"
    "\<And>i. i * n < length pending \<Longrightarrow> warm env p (slot + i) (take n (drop (i * n) pending))"
  shows "\<exists>p' out'. slots_loop env m spec limits n slot pending live (p, out) = Some (p', out') \<and> pc_slots p' = pc_slots p \<and>
    pc_running p' = pc_running p"
  using assms(4-7)
proof (induction "length pending" arbitrary: pending slot p out rule: less_induct)
  case less
  show ?case
  proof (cases "pending = []")
    case True
    then show ?thesis by (simp add: slots_loop.simps)
  next
    case False
    let ?a = "take n pending" and ?b = "drop n pending"
    have wa: "warm env p slot ?a" using less.prems(4) [of 0] False by simp
    have a: "distinct (map pd_idx ?a)" "\<forall>q\<in>set ?a. pd_idx q < length out" "\<forall>q\<in>set ?a. pd_key q \<in> set live"
      using less.prems(1-3) by (auto simp: take_map [symmetric] dest: in_set_takeD)
    from runSlot_warm [OF assms(1) wa assms(2) a(3,1,2)] obtain p1 out1 where r: "runSlot env m spec limits slot ?a live (p, out) = Some (p1, out1)"
      "pc_slots p1 = pc_slots p" "pc_running p1 = pc_running p" "pc_ports p1 = filter (\<lambda>(k, _). k \<in> set live) (pc_ports p)"
      "length out1 = length out" by blast
    have "warm env p1 (Suc slot + i) (take n (drop (i * n) ?b))" if "i * n < length ?b" for i
    proof -
      have "Suc i * n < length pending" using that by simp
      from less.prems(4) [OF this] have "warm env p (Suc slot + i) (take n (drop (i * n) ?b))" by (simp add: add.commute)
      moreover have "set (take n (drop (i * n) ?b)) \<subseteq> set pending" by (meson set_drop_subset set_take_subset subset_trans)
      ultimately show ?thesis
        using less.prems(3) by (subst warm_cong [OF r(2)]) (auto simp: r(4) map_of_filter_live)
    qed
    moreover have "length ?b < length pending" "distinct (map pd_idx ?b)" "\<forall>q\<in>set ?b. pd_idx q < length out1"
      "\<forall>q\<in>set ?b. pd_key q \<in> set live"
      using less.prems(1-3) False assms(3) r(5) by (auto simp: drop_map [symmetric] dest: in_set_dropD)
    ultimately obtain p2 out2 where "slots_loop env m spec limits n (Suc slot) ?b live (p1, out1) = Some (p2, out2)"
      "pc_slots p2 = pc_slots p1" "pc_running p2 = pc_running p1" using less.hyps [of ?b out1 p1 "Suc slot"] by blast
    with r False assms(3) show ?thesis by (simp add: slots_loop.simps [of env m spec limits n slot pending])
  qed
qed

definition batch_pending :: "poolEnv \<Rightarrow> Module \<Rightarrow> Options list \<Rightarrow> pendingJob list" where
  "batch_pending env m os =
     sort_key pd_key (heads (fst (group_loop env m 0 os ([], replicate (length os) result_zero))))"

definition warm_batch :: "poolEnv \<Rightarrow> Module \<Rightarrow> PoolSpec \<Rightarrow> PoolLimits \<Rightarrow> Options list \<Rightarrow> pool \<Rightarrow> bool" where
  "warm_batch env m spec limits os p \<longleftrightarrow>
     (let pending = batch_pending env m os; n = nat (limits_maxJobsPerInstance limits (po_MaxJobsPerInstance spec)) in
      list_all (\<lambda>i. i * n < length pending \<longrightarrow> warm env p i (take n (drop (i * n) pending))) [0..<length pending])"

lemma CheckBatch_warm:
  assumes "pooled m spec" "healthy env" "warm_batch env m spec limits os p"
  shows "\<exists>rs p'. CheckBatch env m spec limits os p = Some (rs, p') \<and> pc_slots p' = pc_slots p \<and> pc_running p' = pc_running p"
proof -
  let ?n = "nat (limits_maxJobsPerInstance limits (po_MaxJobsPerInstance spec))"
  have "0 < ?n" using pooledD(1) [OF assms(1)] by (simp add: limits_maxJobsPerInstance_def)
  obtain gs out where gl: "group_loop env m 0 os ([], replicate (length os) result_zero) = (gs, out)" by fastforce
  have "grouped m os 0 ([], replicate (length os) result_zero)" by (simp add: grouped_def)
  from group_loop_grouped [OF this, of env] gl have gr: "grouped m os (length os) (gs, out)" by simp
  define pending where "pending = sort_key pd_key (heads gs)"
  have bp: "batch_pending env m os = pending" by (simp add: batch_pending_def gl pending_def)
  have g: "distinct (map pd_idx (members gs))" "\<forall>(k, g)\<in>set gs. g \<noteq> []" "\<forall>q\<in>set (members gs). pd_idx q < length out"
    using gr by (auto simp: grouped_def)
  have "distinct (map pd_idx pending) = distinct (map pd_idx (heads gs))"
    by (rule mset_eq_imp_distinct_iff) (simp only: pending_def mset_map mset_sort)
  then have d: "distinct (map pd_idx pending)" using heads_distinct [OF g(1,2)] by simp
  have i: "\<forall>q\<in>set pending. pd_idx q < length out" using heads_subset [OF g(2)] g(3) by (auto simp: pending_def)
  have w: "warm env p (0 + i) (take ?n (drop (i * ?n) pending))" if "i * ?n < length pending" for i
  proof -
    have "i \<le> i * ?n" using \<open>0 < ?n\<close> by (cases ?n) auto
    with that have "i < length pending" by linarith
    with assms(3) that show ?thesis by (simp add: warm_batch_def bp Let_def list_all_iff)
  qed
  have live: "\<forall>q\<in>set pending. pd_key q \<in> set (map pd_key pending)" by simp
  from slots_loop_warm [OF assms(1,2) \<open>0 < ?n\<close> d i live, of p 0 limits, OF w] show ?thesis
    by (auto simp: CheckBatch_def gl pending_def [symmetric] Let_def)
qed

text \<open>C29. A batch whose slots are warm, that is whose engines were built from exactly these jobs on these
  ports, is served by the engines already running when they are healthy: nothing is built, started or
  stopped, whatever the tests return.\<close>

theorem warm_batch_restarts_nothing:
  assumes "validate compile m0 = Inr m" "m_Action m0 = []" "m_Pool m0 = Some spec"
    "po_Stop spec = None \<or> has_command (po_Stop spec)" "healthy env" "warm_batch env m spec limits os p"
  shows "\<exists>rs p'. CheckBatch env m spec limits os p = Some (rs, p') \<and> pc_slots p' = pc_slots p \<and> pc_running p' = pc_running p"
proof -
  have "pooled m spec" using assms(1-4) by (auto simp: pooled_def validate_Inr)
  from CheckBatch_warm [OF this assms(5,6)] show ?thesis .
qed

definition demo_batch :: "Options list" where
  "demo_batch = map (\<lambda>(i, t). (demo_options i)\<lparr>o_Target := t, o_Timeout := millisecond\<rparr>)
     [(1, ''b''), (2, ''a''), (3, ''b''), (4, ''c'')]"

definition demo_warm :: pool where
  "demo_warm = snd (the (CheckBatch demo_pool_env demo_pool_module demo_spec demo_limits demo_batch newPoolChecker))"

text \<open>The state after a first batch of four options, three jobs and two slots is warm for the same
  batch.\<close>

theorem warm_batch_restarts_nothing_witness:
  "\<exists>rs p'. CheckBatch demo_pool_env demo_pool_module demo_spec demo_limits demo_batch demo_warm = Some (rs, p')
    \<and> pc_slots p' = pc_slots demo_warm \<and> pc_running p' = pc_running demo_warm"
proof (rule warm_batch_restarts_nothing [OF demo_pool_module_ok demo_pool_module_sel])
  show "healthy demo_pool_env" by (simp add: healthy_def demo_pool_env_def)
  show "warm_batch demo_pool_env demo_pool_module demo_spec demo_limits demo_batch demo_warm" by code_simp
qed

section \<open>Entering a slot\<close>

lemma retire_ports: "retire env spec slot p = Some p' \<Longrightarrow> pc_ports p' = pc_ports p"
  by (auto simp: retire_def teardownLocked_def asked_def bind_eq_Some_conv split: option.splits if_splits)

lemma slot_enter_ports:
  assumes "pooled m spec" "pins_ok p" "slot_enter env spec limits slot chunk live p = Some (Entered jobs, p')" "chunk \<noteq> []"
    "\<forall>q\<in>set chunk. pd_key q \<in> set live"
  shows "pins_ok p' \<and> jobs = map (job_of p') chunk \<and> pinned p' chunk"
proof -
  obtain r p1 where a: "assign_ports env limits (used_ports p) chunk p = (r, p1)" by fastforce
  have r: "r = Inr jobs" using assms(3) a
    by (auto simp: slot_enter_def Let_def bind_eq_Some_conv split: sum.splits option.splits) (metis sum.exhaust)
  have used: "set (used_ports p) = snd ` set (pc_ports p)" by (simp add: used_ports_def)
  from assign_ports_pins [OF a assms(2) used] r have p1: "pins_ok p1" "jobs = map (job_of p1) chunk" "pinned p1 chunk" by auto
  define p2 where "p2 = p1\<lparr>pc_ports := filter (\<lambda>(k, _). k \<in> set live) (pc_ports p1)\<rparr>"
  have "jobs \<noteq> []" using p1(2) assms(4) by simp
  have "pc_ports p' = pc_ports p2"
  proof (cases "reusable env slot (hashJobs env jobs) p2")
    case (Some w)
    with assms(3) a r show ?thesis by (auto simp: slot_enter_def p2_def [symmetric] Let_def asked_def)
  next
    case None
    then obtain p3 b p4 where b: "retire env spec slot (asked p2) = Some p3"
      "buildAndStart env spec jobs (hashJobs env jobs) p3 = Some (b, p4)"
      using assms(3) a r by (auto simp: slot_enter_def p2_def [symmetric] Let_def bind_eq_Some_conv)
    have b3: "pc_ports p' = pc_ports p4"
      using assms(3) a r None b by (cases b) (auto simp: slot_enter_def p2_def [symmetric] Let_def)
    from buildAndStart_total [OF assms(1) \<open>jobs \<noteq> []\<close>, of env "hashJobs env jobs" p3] b(2)
    have "pc_ports p4 = pc_ports p3" by (auto simp: built_ok_def)
    with b3 retire_ports [OF b(1)] show ?thesis by (simp add: asked_def)
  qed
  then have ports: "pc_ports p' = filter (\<lambda>(k, _). k \<in> set live) (pc_ports p1)" by (simp add: p2_def)
  then have same: "map_of (pc_ports p') (pd_key q) = map_of (pc_ports p1) (pd_key q)" if "q \<in> set chunk" for q
    using assms(5) that by (simp add: map_of_filter_live)
  have "pins_ok p'" using p1(1) ports by (auto simp: pins_ok_def distinct_map_filter)
  moreover have "jobs = map (job_of p') chunk" using p1(2) same by (simp add: job_of_def)
  moreover have "pinned p' chunk" using p1(3) same by (auto simp: pinned_def list_all_iff)
  ultimately show ?thesis by blast
qed

text \<open>The jobs an engine is built for or reused with never share a local port, and the pins of the
  pool stay one-to-one, so that the inbound a test talks to is its own job's.\<close>

theorem slot_ports_distinct:
  assumes "validate compile m0 = Inr m" "m_Action m0 = []" "m_Pool m0 = Some spec"
    "po_Stop spec = None \<or> has_command (po_Stop spec)" "pins_ok p"
    "slot_enter env spec limits slot chunk live p = Some (Entered jobs, p')" "chunk \<noteq> []"
    "distinct (map pd_key chunk)" "\<forall>q\<in>set chunk. pd_key q \<in> set live"
  shows "distinct (map pj_port jobs) \<and> pins_ok p'"
proof -
  have "pooled m spec" using assms(1-4) by (auto simp: pooled_def validate_Inr)
  from slot_enter_ports [OF this assms(5,6,7,9)] have e: "pins_ok p'" "jobs = map (job_of p') chunk" "pinned p' chunk" by auto
  have "inj_on (\<lambda>q. the (map_of (pc_ports p') (pd_key q))) (set chunk)"
  proof (rule inj_onI)
    fix q q' assume q: "q \<in> set chunk" "q' \<in> set chunk"
      and eq: "the (map_of (pc_ports p') (pd_key q)) = the (map_of (pc_ports p') (pd_key q'))"
    with e(3) obtain v where "map_of (pc_ports p') (pd_key q) = Some v" "map_of (pc_ports p') (pd_key q') = Some v"
      by (fastforce simp: pinned_def list_all_iff)
    then have "(pd_key q, v) \<in> set (pc_ports p')" "(pd_key q', v) \<in> set (pc_ports p')" by (simp_all add: map_of_SomeD)
    then have "pd_key q = pd_key q'" using e(1) inj_onD [of snd "set (pc_ports p')" "(pd_key q, v)" "(pd_key q', v)"]
      by (auto simp: pins_ok_def distinct_map)
    then show "q = q'" using assms(8) q by (auto simp: distinct_map dest: inj_onD)
  qed
  moreover have "distinct chunk" using assms(8) by (simp add: distinct_map)
  ultimately have "distinct (map pj_port jobs)" by (simp add: e(2) distinct_map o_def job_of_def pool_job_def comp_inj_on_iff)
  with e(1) show ?thesis by blast
qed

definition demo_pair :: "pendingJob list" where
  "demo_pair = map (\<lambda>(i, k). \<lparr>pd_idx = i, pd_key = k, pd_o = (demo_options 1)\<lparr>o_Target := k, o_Timeout := millisecond\<rparr>\<rparr>)
     [(0, ''a''), (1, ''b'')]"

theorem slot_ports_distinct_witness:
  "\<exists>jobs p'. slot_enter demo_pool_env demo_spec demo_limits 0 demo_pair [''a'', ''b''] newPoolChecker = Some (Entered jobs, p')
     \<and> distinct (map pj_port jobs) \<and> pins_ok p'"
proof -
  have "case slot_enter demo_pool_env demo_spec demo_limits 0 demo_pair [''a'', ''b''] newPoolChecker of
      Some (Entered jobs, p') \<Rightarrow> True | _ \<Rightarrow> False" by code_simp
  then obtain jobs p' where e: "slot_enter demo_pool_env demo_spec demo_limits 0 demo_pair [''a'', ''b''] newPoolChecker
      = Some (Entered jobs, p')" by (auto split: option.splits prod.splits entered.splits)
  have "pins_ok newPoolChecker" "demo_pair \<noteq> []" "distinct (map pd_key demo_pair)"
    "\<forall>q\<in>set demo_pair. pd_key q \<in> set [''a'', ''b'']"
    by (simp_all add: pins_ok_def newPoolChecker_def demo_pair_def)
  from slot_ports_distinct [OF demo_pool_module_ok demo_pool_module_sel this(1) e this(2-4)] e show ?thesis by blast
qed

end
