(* ===== verification/Poolconfig.thy ===== *)
theory Poolconfig
  imports Wire
begin

text \<open>
  Building one engine configuration from a batch of jobs (\<^verbatim>\<open>internal/poolconfig/poolconfig.go\<close>).
  The decoded form of the batch, the encoder and the environment are arguments. A JSON \<^verbatim>\<open>null\<close> in
  a list of objects decodes to a nil map, \<open>None\<close> here: it can be read, and writing to it panics,
  which makes the value of \<open>buildConfig\<close> \<open>None\<close>.
\<close>

section \<open>Values\<close>

text \<open>Conversion of a float that is not an integer in range is left to the implementation, \<open>f2i\<close>; only
  the test that follows it sees the result.\<close>

definition float_int :: "(gofloat \<Rightarrow> int) \<Rightarrow> gofloat \<Rightarrow> int option" where
  "float_int f2i x =
     (case x of
        Fin q \<Rightarrow> if q = of_int \<lfloor>q\<rfloor> \<and> - (2 ^ 63) \<le> \<lfloor>q\<rfloor> \<and> \<lfloor>q\<rfloor> < 2 ^ 63 then Some \<lfloor>q\<rfloor>
                 else if q = of_int (f2i x) then Some (f2i x) else None
      | _ \<Rightarrow> None)"

definition asInt :: "(gofloat \<Rightarrow> int) \<Rightarrow> goval \<Rightarrow> int option" where
  "asInt f2i v = (case v of GFloat x \<Rightarrow> float_int f2i x | GInt i \<Rightarrow> Some i | _ \<Rightarrow> None)"

definition field :: "gomap option \<Rightarrow> string \<Rightarrow> goval" where
  "field m k = (case m of None \<Rightarrow> GNil | Some m \<Rightarrow> (case map_of m k of None \<Rightarrow> GNil | Some v \<Rightarrow> v))"

record pcJob =
  jb_Index :: int
  jb_AllocPort :: int
  jb_Inbounds :: "gomap option list"
  jb_Outbounds :: "gomap option list"
  jb_SocksPort :: goval

record mergedConfig =
  mc_Inbounds :: "gomap list"
  mc_Outbounds :: "gomap list"
  mc_Rules :: "gomap list"

section \<open>Environment\<close>

definition domainStrategyFromEnv :: "string \<Rightarrow> string option" where
  "domainStrategyFromEnv raw =
     (let v = ToLower (TrimSpace raw) in
      if v = [] then Some []
      else if v = ''as_is'' \<or> v = ''asis'' then Some ''AsIs''
      else if v = ''use_ipv4'' \<or> v = ''useipv4'' then Some ''UseIPv4''
      else if v = ''use_ip'' \<or> v = ''useip'' then Some ''UseIP''
      else if v = ''use_ipv6'' \<or> v = ''useipv6'' then Some ''UseIPv6''
      else None)"

text \<open>Setting a key of \<^verbatim>\<open>streamSettings.sockopt\<close>; the other keys are kept.\<close>

definition set_sockopt :: "string \<Rightarrow> goval \<Rightarrow> gomap \<Rightarrow> gomap" where
  "set_sockopt k v outbound =
     (let stream = as_object (map_of outbound ''streamSettings'');
          sockopt = as_object (map_of stream ''sockopt'')
      in AList.update ''streamSettings''
           (GObj (AList.update ''sockopt'' (GObj (AList.update k v sockopt)) stream)) outbound)"

definition applyDomainStrategy :: "string \<Rightarrow> gomap \<Rightarrow> gomap" where
  "applyDomainStrategy strategy outbound =
     (if strategy = [] then outbound else set_sockopt ''domainStrategy'' (GStr strategy) outbound)"

definition applyBinding :: "(addr \<Rightarrow> string) \<Rightarrow> Binding \<Rightarrow> gomap \<Rightarrow> gomap" where
  "applyBinding ipstr binding outbound =
     (if Binding_IsZero binding then outbound
      else
        let outbound = (case SourceIP binding of
                          Some a \<Rightarrow> if \<not> IsLinkLocalUnicast a
                                   then AList.update ''sendThrough'' (GStr (ipstr (WithZone a []))) outbound
                                   else outbound
                        | None \<Rightarrow> outbound)
        in if Interface binding \<noteq> [] then set_sockopt ''interface'' (GStr (Interface binding)) outbound else outbound)"

section \<open>Merging\<close>

fun remap_key :: "(gofloat \<Rightarrow> int) \<Rightarrow> int \<Rightarrow> gomap option \<Rightarrow> string list \<Rightarrow> string option" where
  "remap_key f2i declaredPort raw [] = None"
| "remap_key f2i declaredPort raw (k # ks) =
     (if asInt f2i (field raw k) = Some declaredPort then Some k else remap_key f2i declaredPort raw ks)"

fun remapInbound :: "(gofloat \<Rightarrow> int) \<Rightarrow> gomap option list \<Rightarrow> int \<Rightarrow> int \<Rightarrow> gomap option" where
  "remapInbound f2i [] declaredPort allocPort = None"
| "remapInbound f2i (raw # inbounds) declaredPort allocPort =
     (case remap_key f2i declaredPort raw [''port'', ''listen_port''] of
        Some k \<Rightarrow> Some (AList.update k (GInt allocPort) (case raw of None \<Rightarrow> [] | Some m \<Rightarrow> m))
      | None \<Rightarrow> remapInbound f2i inbounds declaredPort allocPort)"

definition in_tag :: "int \<Rightarrow> string" where
  "in_tag index = ''job-'' @ Itoa index @ ''-in''"

definition out_tag :: "int \<Rightarrow> nat \<Rightarrow> string" where
  "out_tag index i = ''job-'' @ Itoa index @ ''-out-'' @ Itoa (int i)"

definition add_mux :: "gomap \<Rightarrow> gomap" where
  "add_mux outbound =
     (let stream = as_object (map_of outbound ''streamSettings'') in
      if as_string (map_of stream ''network'') \<noteq> ''xhttp'' \<and> as_string (map_of stream ''security'') \<noteq> ''reality''
      then AList.update ''mux'' (GObj [(''enabled'', GBool True), (''concurrency'', GInt 8)]) outbound
      else outbound)"

record pcEnv =
  px_f2i :: "gofloat \<Rightarrow> int"
  px_ipstr :: "addr \<Rightarrow> string"
  px_strategy :: string
  px_binding :: Binding

definition build_outbound :: "pcEnv \<Rightarrow> int \<Rightarrow> nat \<Rightarrow> gomap \<Rightarrow> gomap" where
  "build_outbound env index i outbound =
     (let outbound = applyBinding (px_ipstr env) (px_binding env)
            (applyDomainStrategy (px_strategy env) (AList.update ''tag'' (GStr (out_tag index i)) outbound))
      in if i = 0 then add_mux outbound else outbound)"

fun build_outbounds :: "pcEnv \<Rightarrow> int \<Rightarrow> nat \<Rightarrow> gomap option list \<Rightarrow> gomap list option" where
  "build_outbounds env index i [] = Some []"
| "build_outbounds env index i (None # obs) = None"
| "build_outbounds env index i (Some outbound # obs) =
     map_option ((#) (build_outbound env index i outbound)) (build_outbounds env index (i + 1) obs)"

definition rule_for :: "int \<Rightarrow> gomap" where
  "rule_for index =
     [(''type'', GStr ''field''), (''inboundTag'', GArr [GStr (in_tag index)]), (''outboundTag'', GStr (out_tag index 0))]"

text \<open>The inbound of a job, when the job is well formed.\<close>

definition job_inbound :: "pcEnv \<Rightarrow> pcJob \<Rightarrow> gomap option" where
  "job_inbound env j =
     (case asInt (px_f2i env) (jb_SocksPort j) of
        None \<Rightarrow> None
      | Some declaredPort \<Rightarrow>
          if jb_Inbounds j = [] \<or> jb_Outbounds j = [] then None
          else remapInbound (px_f2i env) (jb_Inbounds j) declaredPort (jb_AllocPort j))"

fun merge_loop :: "pcEnv \<Rightarrow> pcJob list \<Rightarrow> mergedConfig \<Rightarrow> mergedConfig option" where
  "merge_loop env [] merged = Some merged"
| "merge_loop env (j # jobs) merged =
     (case job_inbound env j of
        None \<Rightarrow> merge_loop env jobs merged
      | Some inbound \<Rightarrow>
          (case build_outbounds env (jb_Index j) 0 (jb_Outbounds j) of
             None \<Rightarrow> None
           | Some outbounds \<Rightarrow>
               merge_loop env jobs
                 \<lparr>mc_Inbounds = mc_Inbounds merged @ [AList.update ''tag'' (GStr (in_tag (jb_Index j))) inbound],
                  mc_Outbounds = mc_Outbounds merged @ outbounds,
                  mc_Rules = mc_Rules merged @ [rule_for (jb_Index j)]\<rparr>))"

definition buildConfig :: "pcEnv \<Rightarrow> pcJob list \<Rightarrow> mergedConfig option" where
  "buildConfig env jobs = merge_loop env jobs \<lparr>mc_Inbounds = [], mc_Outbounds = [], mc_Rules = []\<rparr>"

section \<open>The command\<close>

datatype pcError = MissingFlags | ReadJobs | ParseJobs | BadStrategy | BadBinding bind_error | EncodeConfig | WriteConfig

record pcRun =
  pr_read :: "string \<Rightarrow> string option"
  pr_parse :: "string \<Rightarrow> pcJob list option"
  pr_env_strategy :: string
  pr_env_binding :: "bind_error + Binding"
  pr_marshal :: "mergedConfig \<Rightarrow> string option"
  pr_write :: "string \<Rightarrow> string \<Rightarrow> bool"

text \<open>The result is the text written to the output file; \<open>None\<close> is a panic.\<close>

definition pc_Run :: "pcRun \<Rightarrow> (gofloat \<Rightarrow> int) \<Rightarrow> (addr \<Rightarrow> string) \<Rightarrow> string \<Rightarrow> string \<Rightarrow> (pcError + string) option" where
  "pc_Run r f2i ipstr jobsPath outPath =
     (if jobsPath = [] \<or> outPath = [] then Some (Inl MissingFlags)
      else case pr_read r jobsPath of
        None \<Rightarrow> Some (Inl ReadJobs)
      | Some raw \<Rightarrow> (case pr_parse r raw of
          None \<Rightarrow> Some (Inl ParseJobs)
        | Some jobs \<Rightarrow> (case domainStrategyFromEnv (pr_env_strategy r) of
            None \<Rightarrow> Some (Inl BadStrategy)
          | Some strategy \<Rightarrow> (case pr_env_binding r of
              Inl e \<Rightarrow> Some (Inl (BadBinding e))
            | Inr binding \<Rightarrow>
                (case buildConfig \<lparr>px_f2i = f2i, px_ipstr = ipstr, px_strategy = strategy, px_binding = binding\<rparr> jobs of
                   None \<Rightarrow> None
                 | Some config \<Rightarrow> Some (case pr_marshal r config of
                     None \<Rightarrow> Inl EncodeConfig
                   | Some encoded \<Rightarrow> if pr_write r outPath encoded then Inr encoded else Inl WriteConfig))))))"

section \<open>Tags\<close>

lemma Itoa_no_o: "CHR ''o'' \<notin> set (Itoa i)" "CHR ''i'' \<notin> set (Itoa i)"
  using Itoa_chars [of _ i] by (auto simp: is_digit_def dest!: Itoa_chars)

lemma append_sep_eq:
  assumes "c \<notin> set x" "c \<notin> set y" "x @ c # s = y @ c # t"
  shows "x = y \<and> s = t"
  using assms
proof (induction x arbitrary: y)
  case Nil
  then show ?case by (cases y) auto
next
  case (Cons a x)
  then show ?case by (cases y) auto
qed

lemma in_tag_eq [simp]: "in_tag a = in_tag b \<longleftrightarrow> a = b"
  by (auto simp: in_tag_def)

lemma out_tag_eq [simp]: "out_tag a i = out_tag b k \<longleftrightarrow> a = b \<and> i = k"
proof
  assume "out_tag a i = out_tag b k"
  then have "(Itoa a @ ''-'') @ CHR ''o'' # ''ut-'' @ Itoa (int i) = (Itoa b @ ''-'') @ CHR ''o'' # ''ut-'' @ Itoa (int k)"
    by (simp add: out_tag_def)
  from append_sep_eq [OF _ _ this] show "a = b \<and> i = k" using Itoa_no_o by auto
qed simp

section \<open>The shape of the merged configuration\<close>

text \<open>What the merge is, without the loop: the jobs that are well formed, the tagged inbound of
  each and its outbounds in order.\<close>

definition kept :: "pcEnv \<Rightarrow> pcJob list \<Rightarrow> pcJob list" where
  "kept env jobs = filter (\<lambda>j. job_inbound env j \<noteq> None) jobs"

definition tagged_inbound :: "pcEnv \<Rightarrow> pcJob \<Rightarrow> gomap" where
  "tagged_inbound env j = AList.update ''tag'' (GStr (in_tag (jb_Index j))) (the (job_inbound env j))"

definition tagged_outbounds :: "pcEnv \<Rightarrow> pcJob \<Rightarrow> gomap list" where
  "tagged_outbounds env j =
     map (\<lambda>(i, ob). build_outbound env (jb_Index j) i (the ob)) (enumerate 0 (jb_Outbounds j))"

lemma kept_simps [simp]:
  "kept env [] = []"
  "kept env (j # jobs) = (if job_inbound env j = None then kept env jobs else j # kept env jobs)"
  by (simp_all add: kept_def)

lemma kept_member: "j \<in> set (kept env jobs) \<longleftrightarrow> j \<in> set jobs \<and> job_inbound env j \<noteq> None"
  by (auto simp: kept_def)

lemma build_outbounds_eq:
  "build_outbounds env index n obs =
     (if None \<in> set obs then None
      else Some (map (\<lambda>(i, ob). build_outbound env index i (the ob)) (enumerate n obs)))"
  by (induction env index n obs rule: build_outbounds.induct) auto

lemma merge_loop_eq:
  "merge_loop env jobs merged =
     (if \<exists>j \<in> set (kept env jobs). None \<in> set (jb_Outbounds j) then None
      else Some \<lparr>mc_Inbounds = mc_Inbounds merged @ map (tagged_inbound env) (kept env jobs),
                 mc_Outbounds = mc_Outbounds merged @ concat (map (tagged_outbounds env) (kept env jobs)),
                 mc_Rules = mc_Rules merged @ map (rule_for \<circ> jb_Index) (kept env jobs)\<rparr>)"
proof (induction env jobs merged rule: merge_loop.induct)
  case (2 env j jobs merged)
  then show ?case
    by (cases "job_inbound env j")
      (simp_all add: build_outbounds_eq tagged_inbound_def tagged_outbounds_def)
qed simp

lemma buildConfig_eq:
  "buildConfig env jobs =
     (if \<exists>j \<in> set (kept env jobs). None \<in> set (jb_Outbounds j) then None
      else Some \<lparr>mc_Inbounds = map (tagged_inbound env) (kept env jobs),
                 mc_Outbounds = concat (map (tagged_outbounds env) (kept env jobs)),
                 mc_Rules = map (rule_for \<circ> jb_Index) (kept env jobs)\<rparr>)"
  by (simp add: buildConfig_def merge_loop_eq)

lemma buildConfig_SomeD:
  assumes "buildConfig env jobs = Some c"
  shows "mc_Inbounds c = map (tagged_inbound env) (kept env jobs)"
    and "mc_Outbounds c = concat (map (tagged_outbounds env) (kept env jobs))"
    and "mc_Rules c = map (rule_for \<circ> jb_Index) (kept env jobs)"
    and "\<And>j. j \<in> set (kept env jobs) \<Longrightarrow> None \<notin> set (jb_Outbounds j)"
  using assms by (auto simp: buildConfig_eq split: if_splits)

section \<open>What the rewriting keeps of an outbound\<close>

lemma set_sockopt_other [simp]: "k \<noteq> ''streamSettings'' \<Longrightarrow> map_of (set_sockopt s v ob) k = map_of ob k"
  by (simp add: set_sockopt_def Let_def update_conv')

lemma applyDomainStrategy_other [simp]:
  "k \<noteq> ''streamSettings'' \<Longrightarrow> map_of (applyDomainStrategy st ob) k = map_of ob k"
  by (simp add: applyDomainStrategy_def)

lemma applyBinding_other [simp]:
  "k \<noteq> ''streamSettings'' \<Longrightarrow> k \<noteq> ''sendThrough'' \<Longrightarrow> map_of (applyBinding ipstr b ob) k = map_of ob k"
  by (simp add: applyBinding_def Let_def update_conv' split: option.split)

lemma add_mux_other [simp]: "k \<noteq> ''mux'' \<Longrightarrow> map_of (add_mux ob) k = map_of ob k"
  by (simp add: add_mux_def Let_def update_conv')

lemma build_outbound_tag [simp]: "map_of (build_outbound env index i ob) ''tag'' = Some (GStr (out_tag index i))"
  by (simp add: build_outbound_def Let_def update_conv')

lemma build_outbound_other:
  "k \<notin> {''tag'', ''streamSettings'', ''sendThrough'', ''mux''}
   \<Longrightarrow> map_of (build_outbound env index i ob) k = map_of ob k"
  by (simp add: build_outbound_def Let_def update_conv')

section \<open>Routing\<close>

text \<open>How an engine routes what enters by an inbound: the first rule that names the inbound's tag
  gives the tag of the outbound. The outbounds of that tag are the candidates.\<close>

definition rule_names :: "string \<Rightarrow> gomap \<Rightarrow> bool" where
  "rule_names tag r = (case map_of r ''inboundTag'' of Some (GArr ts) \<Rightarrow> GStr tag \<in> set ts | _ \<Rightarrow> False)"

definition route_of :: "mergedConfig \<Rightarrow> string \<Rightarrow> gomap list" where
  "route_of c tag =
     (case find (rule_names tag) (mc_Rules c) of
        None \<Rightarrow> []
      | Some r \<Rightarrow> filter (\<lambda>ob. map_of ob ''tag'' = map_of r ''outboundTag'') (mc_Outbounds c))"

lemma rule_names_rule_for [simp]: "rule_names (in_tag a) (rule_for b) \<longleftrightarrow> a = b"
  by (simp add: rule_names_def rule_for_def)

lemma rule_for_out [simp]: "map_of (rule_for a) ''outboundTag'' = Some (GStr (out_tag a 0))"
  by (simp add: rule_for_def)

lemma find_rule:
  assumes "a \<in> set ns"
  shows "find (rule_names (in_tag a)) (map rule_for ns) = Some (rule_for a)"
  using assms by (induction ns) auto

lemma tagged_outbounds_tags:
  "map (\<lambda>ob. map_of ob ''tag'') (tagged_outbounds env j)
     = map (\<lambda>i. Some (GStr (out_tag (jb_Index j) i))) [0..<length (jb_Outbounds j)]"
  by (rule nth_equalityI) (simp_all add: tagged_outbounds_def nth_enumerate_eq)

lemma filter_other_job:
  assumes "jb_Index j \<noteq> a"
  shows "filter (\<lambda>ob. map_of ob ''tag'' = Some (GStr (out_tag a i))) (tagged_outbounds env j) = []"
  using assms by (auto simp: tagged_outbounds_def filter_empty_conv)

lemma filter_own_job:
  assumes "jb_Outbounds j \<noteq> []"
  shows "filter (\<lambda>ob. map_of ob ''tag'' = Some (GStr (out_tag (jb_Index j) 0))) (tagged_outbounds env j)
           = [build_outbound env (jb_Index j) 0 (the (hd (jb_Outbounds j)))]"
proof -
  obtain ob obs where e: "jb_Outbounds j = ob # obs" using assms by (cases "jb_Outbounds j") auto
  have "\<forall>x \<in> set (enumerate 1 obs). fst x \<noteq> 0" by (auto simp: in_set_enumerate_eq)
  then have "filter (\<lambda>x. map_of (case x of (i, ob) \<Rightarrow> build_outbound env (jb_Index j) i (the ob)) ''tag''
               = Some (GStr (out_tag (jb_Index j) 0))) (enumerate 1 obs) = []"
    by (auto simp: filter_empty_conv)
  then show ?thesis by (simp add: tagged_outbounds_def e filter_map o_def)
qed

lemma filter_jobs:
  assumes "distinct (map jb_Index js)" "j \<in> set js" "jb_Outbounds j \<noteq> []"
  shows "filter (\<lambda>ob. map_of ob ''tag'' = Some (GStr (out_tag (jb_Index j) 0))) (concat (map (tagged_outbounds env) js))
           = [build_outbound env (jb_Index j) 0 (the (hd (jb_Outbounds j)))]"
  using assms
proof (induction js)
  case (Cons k js)
  have none: "filter (\<lambda>ob. map_of ob ''tag'' = Some (GStr (out_tag a 0))) (concat (map (tagged_outbounds env) js)) = []"
    if "a \<notin> jb_Index ` set js" for a
    using that by (induction js) (auto simp: filter_other_job)
  show ?case
  proof (cases "j = k")
    case True
    then show ?thesis using Cons.prems none [of "jb_Index j"] by (simp add: filter_own_job)
  next
    case False
    then have "jb_Index k \<noteq> jb_Index j" using Cons.prems by auto
    then show ?thesis using Cons False by (simp add: filter_other_job)
  qed
qed simp

lemma kept_distinct: "distinct (map jb_Index jobs) \<Longrightarrow> distinct (map jb_Index (kept env jobs))"
  by (induction jobs) (auto simp: kept_def)

lemma job_inbound_outbounds: "job_inbound env j \<noteq> None \<Longrightarrow> jb_Outbounds j \<noteq> []"
  by (auto simp: job_inbound_def split: option.splits if_splits)

lemma remapInbound_SomeD:
  assumes "remapInbound f2i inbounds declared alloc = Some m"
  shows "\<exists>raw \<in> set inbounds. \<exists>k. (k = ''port'' \<or> k = ''listen_port'') \<and> asInt f2i (field raw k) = Some declared
           \<and> m = AList.update k (GInt alloc) (the raw)"
  using assms
proof (induction f2i inbounds declared alloc rule: remapInbound.induct)
  case (2 f2i raw inbounds declared alloc)
  show ?case
  proof (cases "remap_key f2i declared raw [''port'', ''listen_port'']")
    case None
    then show ?thesis using 2 by auto
  next
    case (Some k)
    then have k: "k = ''port'' \<or> k = ''listen_port''" "asInt f2i (field raw k) = Some declared"
      by (auto split: if_splits)
    then have "raw \<noteq> None" by (cases raw) (auto simp: field_def asInt_def)
    then show ?thesis using k 2(2) Some by auto
  qed
qed simp

lemma job_inbound_port:
  assumes "job_inbound env j = Some m"
  shows "\<exists>k. (k = ''port'' \<or> k = ''listen_port'') \<and> map_of m k = Some (GInt (jb_AllocPort j))"
  using assms remapInbound_SomeD by (fastforce simp: job_inbound_def update_conv' split: option.splits if_splits)


lemma tagged_inbound_tag [simp]: "map_of (tagged_inbound env j) ''tag'' = Some (GStr (in_tag (jb_Index j)))"
  by (simp add: tagged_inbound_def update_conv')

lemma inbound_tags_distinct:
  assumes "distinct (map jb_Index jobs)"
  shows "distinct (map (\<lambda>x. map_of x ''tag'') (map (tagged_inbound env) (kept env jobs)))"
  using kept_distinct [OF assms, of env] by (simp add: o_def distinct_map inj_on_def)

lemma tags_of_jobs_distinct:
  assumes "distinct (map jb_Index js)"
  shows "distinct (map (\<lambda>x. map_of x ''tag'') (concat (map (tagged_outbounds env) js)))"
  using assms
proof (induction js)
  case (Cons j js)
  have "distinct (map (\<lambda>x. map_of x ''tag'') (tagged_outbounds env j))"
    by (simp add: tagged_outbounds_tags distinct_map inj_on_def)
  moreover have "(\<lambda>x. map_of x ''tag'') ` set (tagged_outbounds env j)
                   \<inter> (\<lambda>x. map_of x ''tag'') ` (\<Union>x \<in> set js. set (tagged_outbounds env x)) = {}"
    using Cons.prems by (auto simp: tagged_outbounds_def)
  ultimately show ?case using Cons by simp
qed simp

lemmas outbound_tags_distinct = tags_of_jobs_distinct [OF kept_distinct]

text \<open>C15. Jobs that share an engine do not cross-talk: for jobs with distinct indices, every well-formed job has
  an inbound on the port allocated for it, the tags of all inbounds and of all outbounds differ, and what
  enters by a job's inbound is routed to exactly one outbound, the job's own primary one, of which only the
  tag, the stream settings, the source address and the multiplexing were rewritten.\<close>

theorem buildConfig_no_crosstalk:
  assumes "buildConfig env jobs = Some c" and "distinct (map jb_Index jobs)"
    and "j \<in> set jobs" and "job_inbound env j \<noteq> None"
  shows "\<exists>inb m. inb \<in> set (mc_Inbounds c)
           \<and> map_of inb ''tag'' = Some (GStr (in_tag (jb_Index j)))
           \<and> (map_of inb ''port'' = Some (GInt (jb_AllocPort j)) \<or> map_of inb ''listen_port'' = Some (GInt (jb_AllocPort j)))
           \<and> distinct (map (\<lambda>x. map_of x ''tag'') (mc_Inbounds c))
           \<and> distinct (map (\<lambda>x. map_of x ''tag'') (mc_Outbounds c))
           \<and> hd (jb_Outbounds j) = Some m
           \<and> route_of c (in_tag (jb_Index j)) = [build_outbound env (jb_Index j) 0 m]
           \<and> (\<forall>k. k \<in> {''tag'', ''streamSettings'', ''sendThrough'', ''mux''}
                 \<or> map_of (build_outbound env (jb_Index j) 0 m) k = map_of m k)"
proof -
  note c = buildConfig_SomeD [OF assms(1)]
  have j: "j \<in> set (kept env jobs)" using assms by (simp add: kept_member)
  have ne: "jb_Outbounds j \<noteq> []" using assms(4) by (rule job_inbound_outbounds)
  have "hd (jb_Outbounds j) \<noteq> None" using c(4) [OF j] ne by (metis hd_in_set)
  then obtain m where m: "hd (jb_Outbounds j) = Some m" by blast
  obtain inb where inb: "job_inbound env j = Some inb" using assms(4) by blast
  have port: "map_of (tagged_inbound env j) ''port'' = Some (GInt (jb_AllocPort j))
                \<or> map_of (tagged_inbound env j) ''listen_port'' = Some (GInt (jb_AllocPort j))"
    using job_inbound_port [OF inb] inb by (auto simp: tagged_inbound_def update_conv')
  have route: "route_of c (in_tag (jb_Index j)) = [build_outbound env (jb_Index j) 0 m]"
    using find_rule [of "jb_Index j" "map jb_Index (kept env jobs)"]
      filter_jobs [OF kept_distinct [OF assms(2)] j ne] j m
    by (simp add: route_of_def c(2,3))
  have other: "\<forall>k. k \<in> {''tag'', ''streamSettings'', ''sendThrough'', ''mux''}
                 \<or> map_of (build_outbound env (jb_Index j) 0 m) k = map_of m k"
    using build_outbound_other by blast
  have mem: "tagged_inbound env j \<in> set (mc_Inbounds c)" using j by (simp add: c(1))
  show ?thesis
    using mem tagged_inbound_tag port inbound_tags_distinct [OF assms(2)] outbound_tags_distinct [OF assms(2)] m route other
    unfolding c(1,2) by blast
qed

definition demo_pcEnv :: pcEnv where
  "demo_pcEnv = \<lparr>px_f2i = (\<lambda>_. 0), px_ipstr = (\<lambda>_. []), px_strategy = ''UseIPv4'', px_binding = \<lparr>SourceIP = None, Interface = ''wg0''\<rparr>\<rparr>"

definition demo_pcJob :: "int \<Rightarrow> int \<Rightarrow> pcJob" where
  "demo_pcJob index declared =
     \<lparr>jb_Index = index, jb_AllocPort = 40 + index, jb_Inbounds = [None, Some [(''listen_port'', GInt 9)]],
      jb_Outbounds = [Some [(''protocol'', GStr ''vless'')], Some []], jb_SocksPort = GInt declared\<rparr>"

definition demo_pcJobs :: "pcJob list" where
  "demo_pcJobs = [demo_pcJob 1 9, demo_pcJob 2 8, demo_pcJob 3 9]"

theorem buildConfig_no_crosstalk_witness:
  "\<exists>inb m. inb \<in> set (mc_Inbounds (the (buildConfig demo_pcEnv demo_pcJobs)))
     \<and> map_of inb ''tag'' = Some (GStr ''job-3-in'')
     \<and> hd (jb_Outbounds (demo_pcJob 3 9)) = Some m
     \<and> route_of (the (buildConfig demo_pcEnv demo_pcJobs)) ''job-3-in'' = [build_outbound demo_pcEnv 3 0 m]"
proof -
  have "buildConfig demo_pcEnv demo_pcJobs \<noteq> None" by code_simp
  then obtain c where c: "buildConfig demo_pcEnv demo_pcJobs = Some c" by blast
  have tag: "in_tag (jb_Index (demo_pcJob 3 9)) = ''job-3-in''" by code_simp
  have dist: "distinct (map jb_Index demo_pcJobs)" by code_simp
  have mem: "demo_pcJob 3 9 \<in> set demo_pcJobs" by (simp add: demo_pcJobs_def)
  have wf: "job_inbound demo_pcEnv (demo_pcJob 3 9) \<noteq> None" by code_simp
  have "jb_Index (demo_pcJob 3 9) = 3" by code_simp
  then show ?thesis using buildConfig_no_crosstalk [OF c dist mem wf] c unfolding tag by auto
qed

text \<open>A malformed job is left out and changes nothing for the others: the merged configuration is that of
  the well-formed jobs alone, one inbound and one rule each in order. The build panics exactly when a
  well-formed job has a null among its outbounds.\<close>

theorem buildConfig_leaves_out_malformed:
  "buildConfig env jobs = buildConfig env (filter (\<lambda>j. job_inbound env j \<noteq> None) jobs)
   \<and> (buildConfig env jobs = None \<longleftrightarrow> (\<exists>j. j \<in> set jobs \<and> job_inbound env j \<noteq> None \<and> None \<in> set (jb_Outbounds j)))
   \<and> map_option (\<lambda>c. (length (mc_Inbounds c), mc_Rules c)) (buildConfig env jobs)
       \<in> {None, Some (length (filter (\<lambda>j. job_inbound env j \<noteq> None) jobs),
                     map (rule_for \<circ> jb_Index) (filter (\<lambda>j. job_inbound env j \<noteq> None) jobs))}"
  by (auto simp: buildConfig_eq kept_def)

lemma null_outbound_panics:
  "buildConfig demo_pcEnv [demo_pcJob 1 9, (demo_pcJob 2 9)\<lparr>jb_Outbounds := [Some [], None]\<rparr>] = None"
  by code_simp

end
