(* ===== verification/Filepath.thy ===== *)
theory Filepath
  imports Prelude
begin

text \<open>
  The part of Go's \<^verbatim>\<open>path/filepath\<close> the installer relies on, for Unix paths: \<^verbatim>\<open>Clean\<close>, \<^verbatim>\<open>Join\<close> of two
  elements, \<^verbatim>\<open>Base\<close>, \<^verbatim>\<open>Dir\<close> and \<^verbatim>\<open>IsAbs\<close>. \<open>under\<close> is the specification of containment: a path that is a
  directory followed by proper components only, none of them empty, a dot or a dot-dot.
\<close>

section \<open>Definitions\<close>

abbreviation slash :: char where "slash \<equiv> CHR ''/''"

definition IsAbs :: "string \<Rightarrow> bool" where
  "IsAbs p = HasPrefix p ''/''"

fun clean_step :: "bool \<Rightarrow> string \<Rightarrow> string list \<Rightarrow> string list" where
  "clean_step rooted c st =
     (if c = [] \<or> c = ''.'' then st
      else if c = ''..''
      then (case st of
              [] \<Rightarrow> if rooted then [] else [''..'']
            | x # xs \<Rightarrow> if x = ''..'' then ''..'' # st else xs)
      else c # st)"

definition clean_comps :: "bool \<Rightarrow> string list \<Rightarrow> string list" where
  "clean_comps rooted cs = rev (fold (clean_step rooted) cs [])"

definition Clean :: "string \<Rightarrow> string" where
  "Clean p =
     (let rooted = IsAbs p; cs = clean_comps rooted (SplitOn slash p)
      in if rooted then slash # Join cs ''/'' else if cs = [] then ''.'' else Join cs ''/'')"

definition path_Join :: "string \<Rightarrow> string \<Rightarrow> string" where
  "path_Join a b = (if a \<noteq> [] then Clean (a @ ''/'' @ b) else if b \<noteq> [] then Clean b else [])"

definition strip_slashes :: "string \<Rightarrow> string" where
  "strip_slashes p = rev (dropWhile (\<lambda>c. c = slash) (rev p))"

definition path_Base :: "string \<Rightarrow> string" where
  "path_Base p =
     (if p = [] then ''.''
      else let b = last (SplitOn slash (strip_slashes p)) in if b = [] then ''/'' else b)"

definition path_Dir :: "string \<Rightarrow> string" where
  "path_Dir p = Clean (rev (dropWhile (\<lambda>c. c \<noteq> slash) (rev p)))"

section \<open>Containment\<close>

definition proper :: "string \<Rightarrow> bool" where
  "proper c \<longleftrightarrow> c \<noteq> [] \<and> c \<noteq> ''.'' \<and> c \<noteq> ''..'' \<and> slash \<notin> set c"

definition under :: "string \<Rightarrow> string \<Rightarrow> bool" where
  "under base p \<longleftrightarrow> HasPrefix p (base @ ''/'') \<and> list_all proper (SplitOn slash (drop (length base + 1) p))"

section \<open>Clean paths\<close>

lemma proper_simps [simp]: "\<not> proper []" "\<not> proper ''.''" "\<not> proper ''..''"
  by (simp_all add: proper_def)

lemma clean_step_proper [simp]: "proper c \<Longrightarrow> clean_step rooted c st = c # st"
  by (auto simp: proper_def)

declare clean_step.simps [simp del]

lemma clean_step_rooted:
  assumes "list_all proper st" "slash \<notin> set c"
  shows "list_all proper (clean_step True c st)"
  using assms by (auto simp: clean_step.simps proper_def split: list.splits)

lemma fold_clean_rooted:
  assumes "list_all proper st" "\<forall>c \<in> set cs. slash \<notin> set c"
  shows "list_all proper (fold (clean_step True) cs st)"
  using assms by (induction cs arbitrary: st) (auto simp: clean_step_rooted)

lemma clean_comps_rooted: "\<forall>c \<in> set cs. slash \<notin> set c \<Longrightarrow> list_all proper (clean_comps True cs)"
  using fold_clean_rooted [of "[]" cs] by (simp add: clean_comps_def)

lemma fold_clean_plain:
  assumes "''..'' \<notin> set cs" "\<forall>c \<in> set cs. slash \<notin> set c"
  shows "fold (clean_step rooted) cs st = rev (filter proper cs) @ st"
  using assms by (induction cs arbitrary: st) (auto simp: clean_step.simps proper_def)

lemma IsAbs_conv: "IsAbs p \<longleftrightarrow> (\<exists>q. p = slash # q)"
  by (cases p) (auto simp: IsAbs_def HasPrefix_def)

text \<open>A clean rooted path consists of proper components.\<close>

lemma Clean_rooted:
  assumes "IsAbs p"
  obtains cs where "list_all proper cs" "Clean p = slash # Join cs ''/''"
proof -
  have "list_all proper (clean_comps True (SplitOn slash p))"
    by (rule clean_comps_rooted) (use SplitOn_free in blast)
  then show thesis using that assms by (simp add: Clean_def)
qed

lemma proper_free: "list_all proper cs \<Longrightarrow> \<forall>w \<in> set cs. slash \<notin> set w"
  by (auto simp: list_all_iff proper_def)

lemma under_iff: "under base p \<longleftrightarrow> (\<exists>ds. ds \<noteq> [] \<and> list_all proper ds \<and> p = base @ slash # Join ds ''/'')"
proof
  assume "under base p"
  then obtain r where r: "p = base @ slash # r" "list_all proper (SplitOn slash r)"
    by (auto simp: under_def HasPrefix_conv)
  then show "\<exists>ds. ds \<noteq> [] \<and> list_all proper ds \<and> p = base @ slash # Join ds ''/''"
    by (intro exI [of _ "SplitOn slash r"]) simp
next
  assume "\<exists>ds. ds \<noteq> [] \<and> list_all proper ds \<and> p = base @ slash # Join ds ''/''"
  then obtain ds where "ds \<noteq> []" "list_all proper ds" "p = base @ slash # Join ds ''/''" by blast
  then show "under base p"
    by (auto simp: under_def HasPrefix_def SplitOn_Join proper_free)
qed

text \<open>The prefix test is enough for containment once the path is rooted and clean.\<close>

lemma Clean_prefix_under:
  assumes "IsAbs p" "HasPrefix (Clean p) (base @ ''/'')"  "IsAbs base"
  shows "under base (Clean p)"
proof -
  obtain cs where cs: "list_all proper cs" "Clean p = slash # Join cs ''/''" using Clean_rooted [OF assms(1)] .
  obtain r where r: "Clean p = base @ slash # r" using assms(2) by (auto simp: HasPrefix_conv)
  obtain b where b: "base = slash # b" using assms(3) by (auto simp: IsAbs_conv)
  have e: "Join cs ''/'' = b @ slash # r" using r cs(2) b by simp
  have "cs \<noteq> []" using e by auto
  then have "cs = SplitOn slash b @ SplitOn slash r"
    using SplitOn_Join [OF _ proper_free [OF cs(1)]] e by (simp add: SplitOn_append)
  then have "list_all proper (SplitOn slash r)" using cs(1) by simp
  then show ?thesis using r by (simp add: under_def HasPrefix_def)
qed

text \<open>Joining a clean base and a path without dot-dot stays inside.\<close>

lemma path_Join_plain:
  assumes "bs \<noteq> []" "list_all proper bs" "base = slash # Join bs ''/''" "''..'' \<notin> set (SplitOn slash rel)"
  shows "path_Join base rel = slash # Join (bs @ filter proper (SplitOn slash rel)) ''/''"
proof -
  have split: "SplitOn slash (base @ slash # rel) = [] # bs @ SplitOn slash rel"
    using assms(1-3) by (simp add: SplitOn_append SplitOn_Join proper_free)
  have dd: "''..'' \<notin> set ([] # bs @ SplitOn slash rel)" using assms(2,4) by (auto simp: list_all_iff)
  have free: "\<forall>c \<in> set ([] # bs @ SplitOn slash rel). slash \<notin> set c"
    using SplitOn_free proper_free [OF assms(2)] by auto
  have "filter proper bs = bs" using assms(2) by (simp add: list_all_iff)
  then have "clean_comps True ([] # bs @ SplitOn slash rel) = bs @ filter proper (SplitOn slash rel)"
    using fold_clean_plain [OF dd free, of True "[]"] by (simp add: clean_comps_def)
  then show ?thesis using assms(3) split
    by (simp add: path_Join_def Clean_def IsAbs_conv)
qed

text \<open>A clean path never ends in a slash, so a base that does is a prefix of none.\<close>

lemma proper_Join_last:
  assumes "ds \<noteq> []" "list_all proper ds"
  shows "Join ds ''/'' \<noteq> [] \<and> last (Join ds ''/'') \<noteq> slash"
  using assms
proof (induction ds)
  case (Cons d ds)
  then show ?case
    by (cases "ds = []") (auto simp: Join_Cons proper_def dest: last_in_set)
qed simp

end
