(* ===== verification/Modinstall.thy ===== *)
theory Modinstall
  imports Module_Def Filepath
begin

text \<open>
  Fetching, installing and removing modules (\<^verbatim>\<open>internal/moduleinstall/moduleinstall.go\<close>). The state is the
  file tree (contents and modes by path), the log of requests and the time spent waiting between
  attempts. The server, the operating system's answers, the archive readers and SHA-256 are arguments.
  A request is identified by its position in the log, so that attempts may be answered differently.
\<close>

section \<open>The world of the installer\<close>

record instConfig =
  cfg_ModulesDir :: string
  cfg_ToolsDir :: string
  cfg_ProxyURL :: string

datatype getOutcome = GetFailed | GetResponse int string string bool

datatype writeOutcome = Written | WriteRefused | WritePartial nat

datatype fetchError = RequestFailed | BadStatus int | BodyFailed | NotPublished string | Cancelled

datatype archiveError = BadGzip | BadTar | BadZip | EntryUnreadable | NotInArchive string

datatype installError =
    BadProxy | FetchFailed string fetchError | BadModule moduleError | WrongOS string | WrongArch string
  | MkdirFailed string | PathNoPlaceholder string | PathEscapes string
  | ChecksumFailed string fetchError | Mismatch string string string | BadArchive archiveError
  | WriteFailed string | NotKnown string | NoURL string | RemoveFailed string
  | InDep string installError | InModule string installError

datatype tarItem = TarEntry string "string option" | TarBroken

record installEnv =
  ie_load :: loadEnv
  ie_goos :: string
  ie_goarch :: string
  ie_transport :: "string \<Rightarrow> bool"
  ie_get :: "nat \<Rightarrow> string \<Rightarrow> getOutcome"
  ie_cancelled :: "nat \<Rightarrow> bool"
  ie_mkdir :: "string \<Rightarrow> bool"
  ie_readable :: "string \<Rightarrow> bool"
  ie_isdir :: "string \<Rightarrow> bool"
  ie_write :: "string \<Rightarrow> string \<Rightarrow> writeOutcome"
  ie_removable :: "string \<Rightarrow> bool"
  ie_targz :: "string \<Rightarrow> tarItem list option"
  ie_zip :: "string \<Rightarrow> (string \<times> string option) list option"

record installWorld =
  iw_files :: "string \<rightharpoonup> string"
  iw_modes :: "string \<rightharpoonup> int"
  iw_log :: "string list"
  iw_waited :: duration

text \<open>\<^verbatim>\<open>os.WriteFile\<close>: the mode applies to a new file only; a write that fails may leave a prefix behind.\<close>

definition put_file :: "string \<Rightarrow> string \<Rightarrow> int \<Rightarrow> installWorld \<Rightarrow> installWorld" where
  "put_file p content mode w =
     w\<lparr>iw_files := (iw_files w)(p \<mapsto> content),
       iw_modes := (if iw_files w p = None then (iw_modes w)(p \<mapsto> mode) else iw_modes w)\<rparr>"

definition WriteFile :: "installEnv \<Rightarrow> string \<Rightarrow> string \<Rightarrow> int \<Rightarrow> installWorld \<Rightarrow> bool \<times> installWorld" where
  "WriteFile env p content mode w =
     (case ie_write env p content of
        Written \<Rightarrow> (True, put_file p content mode w)
      | WriteRefused \<Rightarrow> (False, w)
      | WritePartial n \<Rightarrow> (False, put_file p (take n content) mode w))"

definition read_file :: "installEnv \<Rightarrow> string \<Rightarrow> installWorld \<Rightarrow> string option" where
  "read_file env p w = (if ie_readable env p then iw_files w p else None)"

definition remove_file :: "installEnv \<Rightarrow> string \<Rightarrow> installWorld \<Rightarrow> bool \<times> installWorld" where
  "remove_file env p w =
     (if iw_files w p \<noteq> None \<and> ie_removable env p
      then (True, w\<lparr>iw_files := (iw_files w)(p := None), iw_modes := (iw_modes w)(p := None)\<rparr>)
      else (False, w))"

section \<open>Requests\<close>

definition limit_body :: "int \<Rightarrow> string \<Rightarrow> string" where
  "limit_body n body = (if int (length body) \<le> n then body else take (nat n) body)"

definition fetchURLWithType :: "installEnv \<Rightarrow> string \<Rightarrow> installWorld \<Rightarrow> (fetchError + string \<times> string) \<times> installWorld" where
  "fetchURLWithType env u w =
     ((case ie_get env (length (iw_log w)) u of
         GetFailed \<Rightarrow> Inl RequestFailed
       | GetResponse status ctype body ok \<Rightarrow>
           if status \<noteq> 200 then Inl (BadStatus status)
           else if ok then Inr (limit_body (200 * 1048576) body, ctype)
           else Inl BodyFailed),
      w\<lparr>iw_log := iw_log w @ [u]\<rparr>)"

definition fetchURL :: "installEnv \<Rightarrow> string \<Rightarrow> installWorld \<Rightarrow> (fetchError + string) \<times> installWorld" where
  "fetchURL env u w =
     (case fetchURLWithType env u w of
        (Inl e, w) \<Rightarrow> (Inl e, w)
      | (Inr (data, _), w) \<Rightarrow> (Inr data, w))"

definition maxAttempts :: nat where "maxAttempts = 5"

text \<open>The answer that ends the loop: a failure, or a page in place of a pinned asset, does not.\<close>

definition accepted :: "bool \<Rightarrow> fetchError + string \<times> string \<Rightarrow> string option" where
  "accepted versioned r =
     (case r of
        Inl _ \<Rightarrow> None
      | Inr (data, ctype) \<Rightarrow> if versioned \<and> HasPrefix ctype ''text/html'' then None else Some data)"

function retry_loop ::
  "installEnv \<Rightarrow> string \<Rightarrow> bool \<Rightarrow> nat \<Rightarrow> installWorld \<Rightarrow> (fetchError + string) \<times> installWorld" where
  "retry_loop env u versioned attempt w =
     (case fetchURLWithType env u w of
        (r, w1) \<Rightarrow>
          (case accepted versioned r of
             Some data \<Rightarrow> (Inr data, w1)
           | None \<Rightarrow>
               if attempt \<ge> maxAttempts
               then (Inl (case r of Inl e \<Rightarrow> e | Inr _ \<Rightarrow> NotPublished u), w1)
               else if ie_cancelled env (length (iw_log w1)) then (Inl Cancelled, w1)
               else retry_loop env u versioned (attempt + 1)
                      (w1\<lparr>iw_waited := iw_waited w1 + int attempt * 2 * second\<rparr>)))"
  by pat_completeness auto
termination
  by (relation "measure (\<lambda>(_, _, _, attempt, _). maxAttempts - attempt)") auto

declare retry_loop.simps [simp del]

definition fetchAssetWithRetry :: "installEnv \<Rightarrow> string \<Rightarrow> bool \<Rightarrow> installWorld \<Rightarrow> (fetchError + string) \<times> installWorld" where
  "fetchAssetWithRetry env u versioned w = retry_loop env u versioned 1 w"

section \<open>Paths and archives\<close>

definition checkPlatform :: "installEnv \<Rightarrow> Module \<Rightarrow> installError option" where
  "checkPlatform env m =
     (if m_OS m \<noteq> [] \<and> ie_goos env \<notin> set (m_OS m) then Some (WrongOS (m_Name m))
      else if m_Arch m \<noteq> [] \<and> ie_goarch env \<notin> set (m_Arch m) then Some (WrongArch (m_Name m))
      else None)"

definition inside_base :: "string \<Rightarrow> string \<Rightarrow> string \<Rightarrow> installError + string" where
  "inside_base path baseDir rel =
     (let full = path_Join baseDir rel
      in if full \<noteq> baseDir \<and> \<not> HasPrefix full (baseDir @ ''/'') then Inl (PathEscapes path) else Inr full)"

definition resolveInstallPath :: "string \<Rightarrow> instConfig \<Rightarrow> installError + string" where
  "resolveInstallPath path cfg =
     (if HasPrefix path ''__TOOLS_DIR__/''
      then inside_base path (cfg_ToolsDir cfg) (TrimPrefix path ''__TOOLS_DIR__/'')
      else if HasPrefix path ''__MODULES_DIR__/''
      then inside_base path (cfg_ModulesDir cfg) (TrimPrefix path ''__MODULES_DIR__/'')
      else Inl (PathNoPlaceholder path))"

definition resolveExistingPath :: "string \<Rightarrow> instConfig \<Rightarrow> installError + string" where
  "resolveExistingPath path cfg = (if IsAbs path then Inr path else resolveInstallPath path cfg)"

definition substitutePlaceholders :: "string \<Rightarrow> instConfig \<Rightarrow> string" where
  "substitutePlaceholders data cfg =
     ReplaceAll (ReplaceAll data ''__MODULES_DIR__'' (cfg_ModulesDir cfg)) ''__TOOLS_DIR__'' (cfg_ToolsDir cfg)"

fun tar_scan :: "string \<Rightarrow> tarItem list \<Rightarrow> archiveError + string" where
  "tar_scan binName [] = Inl (NotInArchive binName)"
| "tar_scan binName (TarBroken # items) = Inl BadTar"
| "tar_scan binName (TarEntry name content # items) =
     (if path_Base name = binName
      then (case content of None \<Rightarrow> Inl EntryUnreadable | Some data \<Rightarrow> Inr data)
      else tar_scan binName items)"

definition extractFromTarGz :: "installEnv \<Rightarrow> string \<Rightarrow> string \<Rightarrow> archiveError + string" where
  "extractFromTarGz env data binName =
     (case ie_targz env data of None \<Rightarrow> Inl BadGzip | Some items \<Rightarrow> tar_scan binName items)"

fun zip_scan :: "string \<Rightarrow> (string \<times> string option) list \<Rightarrow> archiveError + string" where
  "zip_scan binName [] = Inl (NotInArchive binName)"
| "zip_scan binName ((name, content) # files) =
     (if path_Base name = binName
      then (case content of None \<Rightarrow> Inl EntryUnreadable | Some data \<Rightarrow> Inr data)
      else zip_scan binName files)"

definition extractFromZip :: "installEnv \<Rightarrow> string \<Rightarrow> string \<Rightarrow> archiveError + string" where
  "extractFromZip env data binName =
     (case ie_zip env data of None \<Rightarrow> Inl BadZip | Some files \<Rightarrow> zip_scan binName files)"

definition extractBinary :: "installEnv \<Rightarrow> string \<Rightarrow> string \<Rightarrow> bool \<Rightarrow> archiveError + string" where
  "extractBinary env archiveData binName zipFmt =
     (if zipFmt then extractFromZip env archiveData binName else extractFromTarGz env archiveData binName)"

section \<open>One dependency\<close>

definition installFile ::
  "installEnv \<Rightarrow> instConfig \<Rightarrow> InstallDependency \<Rightarrow> string \<Rightarrow> installWorld \<Rightarrow> installError option \<times> installWorld" where
  "installFile env cfg dep destPath w =
     (let assetURL = ResolveURL dep (ie_goos env) (ie_goarch env) in
      case fetchAssetWithRetry env assetURL (dep_Version dep \<noteq> []) w of
        (Inl e, w) \<Rightarrow> (Some (InDep (dep_Name dep) (FetchFailed assetURL e)), w)
      | (Inr content, w) \<Rightarrow>
          (case WriteFile env destPath (substitutePlaceholders content cfg) (if HasSuffix destPath ''.sh'' then 493 else 420) w of
             (ok, w) \<Rightarrow> (if ok then None else Some (WriteFailed destPath), w)))"

definition marker_of :: "string \<Rightarrow> string" where
  "marker_of destPath = destPath @ ''.checksum''"

definition up_to_date :: "installEnv \<Rightarrow> string \<Rightarrow> string \<Rightarrow> installWorld \<Rightarrow> bool" where
  "up_to_date env destPath expected w =
     ((case read_file env (marker_of destPath) w of None \<Rightarrow> False | Some existing \<Rightarrow> TrimSpace existing = expected)
      \<and> (iw_files w destPath \<noteq> None \<or> ie_isdir env destPath))"

definition place_binary ::
  "installEnv \<Rightarrow> string \<Rightarrow> string \<Rightarrow> string \<Rightarrow> installWorld \<Rightarrow> installError option \<times> installWorld" where
  "place_binary env destPath binData expected w =
     (case WriteFile env destPath binData 493 w of
        (False, w) \<Rightarrow> (Some (WriteFailed destPath), w)
      | (True, w) \<Rightarrow>
          (case WriteFile env (marker_of destPath) expected 420 w of
             (ok, w) \<Rightarrow> (if ok then None else Some (WriteFailed (marker_of destPath)), w)))"

definition installBinary ::
  "installEnv \<Rightarrow> InstallDependency \<Rightarrow> string \<Rightarrow> installWorld \<Rightarrow> installError option \<times> installWorld" where
  "installBinary env dep destPath w =
     (let assetURL = ResolveURL dep (ie_goos env) (ie_goarch env);
          versioned = (dep_Version dep \<noteq> []);
          checksumURL = assetURL @ ''.checksum.txt''
      in case fetchAssetWithRetry env checksumURL versioned w of
        (Inl e, w) \<Rightarrow> (Some (InDep (dep_Name dep) (ChecksumFailed checksumURL e)), w)
      | (Inr checksumData, w) \<Rightarrow>
          let expected = TrimSpace checksumData in
          if up_to_date env destPath expected w then (None, w)
          else (case fetchAssetWithRetry env assetURL versioned w of
                  (Inl e, w) \<Rightarrow> (Some (InDep (dep_Name dep) (FetchFailed assetURL e)), w)
                | (Inr assetData, w) \<Rightarrow>
                    let actual = le_sha256hex (ie_load env) assetData in
                    if expected \<noteq> actual then (Some (InDep (dep_Name dep) (Mismatch assetURL expected actual)), w)
                    else (case extractBinary env assetData (dep_Name dep) (HasSuffix assetURL ''.zip'') of
                            Inl e \<Rightarrow> (Some (InDep (dep_Name dep) (BadArchive e)), w)
                          | Inr binData \<Rightarrow> place_binary env destPath binData expected w)))"

definition installDependency ::
  "installEnv \<Rightarrow> instConfig \<Rightarrow> InstallDependency \<Rightarrow> installWorld \<Rightarrow> installError option \<times> installWorld" where
  "installDependency env cfg dep w =
     (case resolveInstallPath (dep_Path dep) cfg of
        Inl e \<Rightarrow> (Some (InDep (dep_Name dep) e), w)
      | Inr destPath \<Rightarrow>
          if \<not> ie_mkdir env (path_Dir destPath) then (Some (InDep (dep_Name dep) (MkdirFailed (path_Dir destPath))), w)
          else if IsFile dep then installFile env cfg dep destPath w
          else installBinary env dep destPath w)"

section \<open>Modules\<close>

fun install_deps ::
  "installEnv \<Rightarrow> instConfig \<Rightarrow> InstallDependency list \<Rightarrow> installWorld \<Rightarrow> installError option \<times> installWorld" where
  "install_deps env cfg [] w = (None, w)"
| "install_deps env cfg (dep # deps) w =
     (case installDependency env cfg dep w of
        (Some e, w) \<Rightarrow> (Some e, w)
      | (None, w) \<Rightarrow> install_deps env cfg deps w)"

definition yaml_path :: "instConfig \<Rightarrow> string \<Rightarrow> string" where
  "yaml_path cfg name = path_Join (cfg_ModulesDir cfg) (name @ ''.yaml'')"

definition stored_yaml :: "Module \<Rightarrow> string \<Rightarrow> string \<Rightarrow> string" where
  "stored_yaml m moduleURL data =
     (if m_URL m \<noteq> [] then data
      else data @ ''\<newline>url: '' @ moduleURL @ ''\<newline>'')"

definition Fetch :: "installEnv \<Rightarrow> instConfig \<Rightarrow> string \<Rightarrow> installWorld \<Rightarrow> installError option \<times> installWorld" where
  "Fetch env cfg moduleURL w =
     (if \<not> ie_transport env (cfg_ProxyURL cfg) then (Some BadProxy, w)
      else case fetchURL env moduleURL w of
        (Inl e, w) \<Rightarrow> (Some (FetchFailed moduleURL e), w)
      | (Inr data, w) \<Rightarrow>
          (case ParseBytes (ie_load env) data of
             Inl e \<Rightarrow> (Some (BadModule e), w)
           | Inr m \<Rightarrow>
               (case checkPlatform env m of
                  Some e \<Rightarrow> (Some e, w)
                | None \<Rightarrow>
                    if \<not> ie_mkdir env (cfg_ToolsDir cfg) then (Some (MkdirFailed (cfg_ToolsDir cfg)), w)
                    else if \<not> ie_mkdir env (cfg_ModulesDir cfg) then (Some (MkdirFailed (cfg_ModulesDir cfg)), w)
                    else (case install_deps env cfg (m_Install m) w of
                            (Some e, w) \<Rightarrow> (Some (InModule (m_Name m) e), w)
                          | (None, w) \<Rightarrow>
                              (case WriteFile env (yaml_path cfg (m_Name m)) (stored_yaml m moduleURL data) 420 w of
                                 (ok, w) \<Rightarrow> (if ok then None else Some (WriteFailed (yaml_path cfg (m_Name m))), w))))))"

definition Install :: "installEnv \<Rightarrow> instConfig \<Rightarrow> string \<Rightarrow> installWorld \<Rightarrow> installError option \<times> installWorld" where
  "Install env cfg name w =
     (case read_file env (yaml_path cfg name) w of
        None \<Rightarrow> (Some (NotKnown name), w)
      | Some data \<Rightarrow>
          (case ParseBytes (ie_load env) data of
             Inl e \<Rightarrow> (Some (BadModule e), w)
           | Inr m \<Rightarrow> if m_URL m = [] then (Some (NoURL name), w) else Fetch env cfg (m_URL m) w))"

fun remove_deps :: "installEnv \<Rightarrow> instConfig \<Rightarrow> InstallDependency list \<Rightarrow> installWorld \<Rightarrow> installWorld" where
  "remove_deps env cfg [] w = w"
| "remove_deps env cfg (dep # deps) w =
     remove_deps env cfg deps
       (case resolveExistingPath (dep_Path dep) cfg of
          Inl _ \<Rightarrow> w
        | Inr destPath \<Rightarrow> snd (remove_file env (marker_of destPath) (snd (remove_file env destPath w))))"

definition mod_Remove :: "installEnv \<Rightarrow> instConfig \<Rightarrow> string \<Rightarrow> installWorld \<Rightarrow> installError option \<times> installWorld" where
  "mod_Remove env cfg name w =
     (case read_file env (yaml_path cfg name) w of
        None \<Rightarrow> (Some (NotKnown name), w)
      | Some data \<Rightarrow>
          (case ParseBytes (ie_load env) data of
             Inl e \<Rightarrow> (Some (BadModule e), w)
           | Inr m \<Rightarrow>
               (case remove_file env (yaml_path cfg name) (remove_deps env cfg (m_Install m) w) of
                  (ok, w) \<Rightarrow> (if ok then None else Some (RemoveFailed (yaml_path cfg name)), w))))"

end
