(* ===== verification/Modinstall_Guarantees.thy ===== *)
theory Modinstall_Guarantees
  imports Modinstall
begin

text \<open>
  What the installer guarantees: bounded retries, containment of every write, a definition that is written
  last, cheap reinstallation and removal as the inverse of fetching.
\<close>

section \<open>Requests\<close>

text \<open>The reply to the request at a position of the log, and the bodies the server has for a URL.\<close>

definition reply :: "installEnv \<Rightarrow> nat \<Rightarrow> string \<Rightarrow> fetchError + string \<times> string" where
  "reply env n u =
     (case ie_get env n u of
        GetFailed \<Rightarrow> Inl RequestFailed
      | GetResponse status ctype body ok \<Rightarrow>
          if status \<noteq> 200 then Inl (BadStatus status)
          else if ok then Inr (limit_body (200 * 1048576) body, ctype)
          else Inl BodyFailed)"

definition served :: "installEnv \<Rightarrow> string \<Rightarrow> string \<Rightarrow> bool" where
  "served env u data \<longleftrightarrow> (\<exists>n ctype. reply env n u = Inr (data, ctype))"

lemma fetchURLWithType_eq: "fetchURLWithType env u w = (reply env (length (iw_log w)) u, w\<lparr>iw_log := iw_log w @ [u]\<rparr>)"
  by (simp add: fetchURLWithType_def reply_def)

lemma accepted_Some: "accepted versioned r = Some data \<Longrightarrow> \<exists>ctype. r = Inr (data, ctype)"
  by (auto simp: accepted_def split: sum.splits prod.splits if_splits)

lemma retry_loop_step:
  "retry_loop env u versioned attempt w =
     (let r = reply env (length (iw_log w)) u; w1 = w\<lparr>iw_log := iw_log w @ [u]\<rparr> in
      case accepted versioned r of
        Some data \<Rightarrow> (Inr data, w1)
      | None \<Rightarrow>
          if attempt \<ge> maxAttempts then (Inl (case r of Inl e \<Rightarrow> e | Inr _ \<Rightarrow> NotPublished u), w1)
          else if ie_cancelled env (length (iw_log w) + 1) then (Inl Cancelled, w1)
          else retry_loop env u versioned (attempt + 1) (w1\<lparr>iw_waited := iw_waited w1 + int attempt * 2 * second\<rparr>))"
  by (subst retry_loop.simps) (simp add: fetchURLWithType_eq Let_def)

text \<open>What the loop does from any attempt on: \<open>k\<close> more requests, the last of which decides.\<close>

definition retried ::
  "installEnv \<Rightarrow> string \<Rightarrow> bool \<Rightarrow> nat \<Rightarrow> nat \<Rightarrow> installWorld \<Rightarrow> fetchError + string \<Rightarrow> installWorld \<Rightarrow> bool" where
  "retried env u versioned attempt k w r w' \<longleftrightarrow>
     w' = w\<lparr>iw_log := iw_log w @ replicate k u,
            iw_waited := iw_waited w + second * (\<Sum>i\<in>{attempt..<attempt + k - 1}. 2 * int i)\<rparr>
     \<and> 1 \<le> k \<and> (k = 1 \<or> attempt + k \<le> maxAttempts + 1)
     \<and> (\<forall>i. i + 1 < k \<longrightarrow> accepted versioned (reply env (length (iw_log w) + i) u) = None)
     \<and> (case r of
          Inr data \<Rightarrow> accepted versioned (reply env (length (iw_log w) + k - 1) u) = Some data
        | Inl e \<Rightarrow> accepted versioned (reply env (length (iw_log w) + k - 1) u) = None
                   \<and> (e = Cancelled \<or> attempt + k \<ge> maxAttempts + 1))"

lemma retried_one:
  assumes "w' = w\<lparr>iw_log := iw_log w @ [u]\<rparr>"
    and "case r of Inr data \<Rightarrow> accepted v (reply env (length (iw_log w)) u) = Some data
         | Inl e \<Rightarrow> accepted v (reply env (length (iw_log w)) u) = None \<and> (e = Cancelled \<or> attempt \<ge> maxAttempts)"
  shows "retried env u v attempt 1 w r w'"
  using assms by (auto simp: retried_def split: sum.splits)

lemma retried_more:
  assumes "accepted v (reply env (length (iw_log w)) u) = None" "attempt < maxAttempts"
    and "retried env u v (attempt + 1) k
           (w\<lparr>iw_log := iw_log w @ [u], iw_waited := iw_waited w + int attempt * 2 * second\<rparr>) r w'"
  shows "retried env u v attempt (k + 1) w r w'"
proof -
  have k: "1 \<le> k" "k = 1 \<or> attempt + 1 + k \<le> maxAttempts + 1" using assms(3) by (auto simp: retried_def)
  have "(\<Sum>i\<in>{attempt..<attempt + (k + 1) - 1}. 2 * int i) = 2 * int attempt + (\<Sum>i\<in>{attempt + 1..<attempt + 1 + k - 1}. 2 * int i)"
    using k(1) by (simp add: sum.atLeast_Suc_lessThan)
  moreover have "accepted v (reply env (length (iw_log w) + i) u) = None" if "i + 1 < k + 1" for i
    using assms(1,3) that by (cases i) (auto simp: retried_def)
  ultimately show ?thesis
    using assms k by (auto simp: retried_def algebra_simps replicate_append_same split: sum.splits)
qed

lemma retry_loop_retried:
  "retry_loop env u versioned attempt w = (r, w') \<Longrightarrow> \<exists>k. retried env u versioned attempt k w r w'"
proof (induction "maxAttempts - attempt" arbitrary: attempt w rule: less_induct)
  case less
  let ?r = "reply env (length (iw_log w)) u"
  show ?case
  proof (cases "accepted versioned ?r")
    case (Some data)
    then have "retried env u versioned attempt 1 w r w'"
      using less.prems by (intro retried_one) (auto simp: retry_loop_step [of env u versioned attempt] Let_def)
    then show ?thesis by blast
  next
    case None
    show ?thesis
    proof (cases "attempt \<ge> maxAttempts \<or> ie_cancelled env (length (iw_log w) + 1)")
      case True
      then have "retried env u versioned attempt 1 w r w'"
        using less.prems None
        by (intro retried_one) (auto simp: retry_loop_step [of env u versioned attempt] Let_def split: if_splits)
      then show ?thesis by blast
    next
      case False
      then have "retry_loop env u versioned (attempt + 1)
          (w\<lparr>iw_log := iw_log w @ [u], iw_waited := iw_waited w + int attempt * 2 * second\<rparr>) = (r, w')"
        using less.prems None by (simp add: retry_loop_step [of env u versioned attempt] Let_def)
      from less.hyps [OF _ this] False retried_more [OF None] show ?thesis by (metis diff_less_mono2 less_add_one not_le)
    qed
  qed
qed

lemma sum_waits: "(\<Sum>i\<in>{1..<k}. 2 * int i) = int k * (int k - 1)"
proof (induction k)
  case (Suc k)
  then show ?case by (cases k) (auto simp: algebra_simps)
qed simp

text \<open>A download is tried at most five times, always the same URL, and ends with the first usable answer:
  every earlier answer was a failure (or, for a pinned version, a page), the waits add up to two, six,
  twelve or twenty seconds, no file changes, and giving up before the fifth attempt happens only when
  the operation was cancelled.\<close>

theorem fetchAssetWithRetry_bounded:
  assumes "fetchAssetWithRetry env u versioned w = (r, w')"
  shows "\<exists>k. 1 \<le> k \<and> k \<le> 5
     \<and> w' = w\<lparr>iw_log := iw_log w @ replicate k u, iw_waited := iw_waited w + int k * (int k - 1) * second\<rparr>
     \<and> (\<forall>i. i + 1 < k \<longrightarrow> accepted versioned (reply env (length (iw_log w) + i) u) = None)
     \<and> (case r of
          Inr data \<Rightarrow> accepted versioned (reply env (length (iw_log w) + k - 1) u) = Some data
        | Inl e \<Rightarrow> accepted versioned (reply env (length (iw_log w) + k - 1) u) = None \<and> (e = Cancelled \<or> k = 5))"
proof -
  obtain k where k: "retried env u versioned 1 k w r w'"
    using retry_loop_retried assms unfolding fetchAssetWithRetry_def by blast
  have "(\<Sum>i\<in>{1..<1 + k - 1}. 2 * int i) = int k * (int k - 1)" using sum_waits [of k] by simp
  then show ?thesis
    using k unfolding retried_def by (intro exI [of _ k]) (auto simp: maxAttempts_def mult.commute split: sum.splits)
qed

lemma fetchAsset_frame:
  assumes "fetchAssetWithRetry env u versioned w = (r, w')"
  shows "iw_files w' = iw_files w" and "iw_modes w' = iw_modes w" and "r = Inr data \<Longrightarrow> served env u data"
proof -
  obtain k where k: "retried env u versioned 1 k w r w'"
    using retry_loop_retried assms unfolding fetchAssetWithRetry_def by blast
  show "iw_files w' = iw_files w" "iw_modes w' = iw_modes w" using k by (auto simp: retried_def)
  show "served env u data" if "r = Inr data"
    using k that accepted_Some by (fastforce simp: retried_def served_def)
qed

lemma fetchURL_frame:
  assumes "fetchURL env u w = (r, w')"
  shows "iw_files w' = iw_files w" and "r = Inr data \<Longrightarrow> served env u data"
  using assms by (auto simp: fetchURL_def fetchURLWithType_eq served_def split: sum.splits prod.splits)

lemma WriteFile_frame:
  assumes "WriteFile env p content mode w = (ok, w')"
  shows "q \<noteq> p \<Longrightarrow> iw_files w' q = iw_files w q"
    and "ok \<Longrightarrow> iw_files w' = (iw_files w)(p \<mapsto> content)"
    and "ie_write env p content = WriteRefused \<Longrightarrow> w' = w \<and> \<not> ok"
  using assms by (auto simp: WriteFile_def put_file_def split: writeOutcome.splits)

section \<open>One dependency\<close>

definition asset_url :: "installEnv \<Rightarrow> InstallDependency \<Rightarrow> string" where
  "asset_url env dep = ResolveURL dep (ie_goos env) (ie_goarch env)"

definition dep_paths :: "instConfig \<Rightarrow> InstallDependency \<Rightarrow> string list" where
  "dep_paths cfg dep =
     (case resolveInstallPath (dep_Path dep) cfg of
        Inl _ \<Rightarrow> []
      | Inr dest \<Rightarrow> if IsFile dep then [dest] else [dest, marker_of dest])"

text \<open>What a successful installation has done to the files.\<close>

definition binary_from ::
  "installEnv \<Rightarrow> InstallDependency \<Rightarrow> string \<Rightarrow> string \<Rightarrow> bool" where
  "binary_from env dep expected bin \<longleftrightarrow>
     (\<exists>asset. served env (asset_url env dep) asset \<and> le_sha256hex (ie_load env) asset = expected
        \<and> extractBinary env asset (dep_Name dep) (HasSuffix (asset_url env dep) ''.zip'') = Inr bin)"

definition dep_done ::
  "installEnv \<Rightarrow> instConfig \<Rightarrow> InstallDependency \<Rightarrow> (string \<rightharpoonup> string) \<Rightarrow> (string \<rightharpoonup> string) \<Rightarrow> bool" where
  "dep_done env cfg dep f g \<longleftrightarrow>
     (\<exists>dest. resolveInstallPath (dep_Path dep) cfg = Inr dest
        \<and> (if IsFile dep
           then \<exists>content. served env (asset_url env dep) content \<and> g = f(dest \<mapsto> substitutePlaceholders content cfg)
           else \<exists>chk. served env (asset_url env dep @ ''.checksum.txt'') chk
                  \<and> ((g = f \<and> map_option TrimSpace (f (marker_of dest)) = Some (TrimSpace chk) \<and> (f dest \<noteq> None \<or> ie_isdir env dest))
                     \<or> (\<exists>bin. binary_from env dep (TrimSpace chk) bin
                          \<and> g = f(dest \<mapsto> bin, marker_of dest \<mapsto> TrimSpace chk)))))"

lemma installFile_ok:
  assumes "installFile env cfg dep dest w = (None, w')"
  shows "\<exists>content. served env (asset_url env dep) content \<and> iw_files w' = (iw_files w)(dest \<mapsto> substitutePlaceholders content cfg)"
  using assms
  by (fastforce simp: installFile_def Let_def asset_url_def dest: fetchAsset_frame WriteFile_frame(2)
      split: prod.splits sum.splits if_splits)

lemma up_to_date_marker: "up_to_date env dest e w \<Longrightarrow> map_option TrimSpace (iw_files w (marker_of dest)) = Some e
    \<and> (iw_files w dest \<noteq> None \<or> ie_isdir env dest)"
  by (auto simp: up_to_date_def read_file_def split: option.splits if_splits)

lemma place_binary_ok:
  assumes "place_binary env dest bin e w = (None, w')"
  shows "iw_files w' = (iw_files w)(dest \<mapsto> bin, marker_of dest \<mapsto> e)"
  using assms
  by (fastforce simp: place_binary_def dest: WriteFile_frame(2) split: prod.splits bool.splits if_splits)

text \<open>The runs of a binary's installation.\<close>

lemma installBinary_cases:
  assumes "installBinary env dep dest w = (r, w')"
  obtains (checksum) e where "r = Some (InDep (dep_Name dep) e)" "iw_files w' = iw_files w"
  | (current) chk where "r = None" "iw_files w' = iw_files w" "served env (asset_url env dep @ ''.checksum.txt'') chk"
      "up_to_date env dest (TrimSpace chk) w'"
  | (place) chk bin w1 where "served env (asset_url env dep @ ''.checksum.txt'') chk" "iw_files w1 = iw_files w"
      "binary_from env dep (TrimSpace chk) bin" "place_binary env dest bin (TrimSpace chk) w1 = (r, w')"
proof -
  let ?u = "asset_url env dep" and ?v = "dep_Version dep \<noteq> []"
  obtain c w1 where c: "fetchAssetWithRetry env (?u @ ''.checksum.txt'') ?v w = (c, w1)" by fastforce
  note [simp] = installBinary_def Let_def asset_url_def [symmetric] c
  show thesis
  proof (cases c)
    case (Inl e)
    then show ?thesis using assms fetchAsset_frame(1) [OF c] by (intro checksum) auto
  next
    case (Inr chk)
    note srv = fetchAsset_frame(3) [OF c Inr]
    show ?thesis
    proof (cases "up_to_date env dest (TrimSpace chk) w1")
      case True
      then show ?thesis using assms Inr srv fetchAsset_frame(1) [OF c] by (intro current) auto
    next
      case False
      obtain a w2 where a: "fetchAssetWithRetry env ?u ?v w1 = (a, w2)" by fastforce
      have f: "iw_files w2 = iw_files w" using fetchAsset_frame(1) [OF c] fetchAsset_frame(1) [OF a] by simp
      show ?thesis
      proof (cases a)
        case e: (Inl e)
        then show ?thesis using assms Inr False a f by (intro checksum) auto
      next
        case d: (Inr asset)
        show ?thesis
        proof (cases "TrimSpace chk = le_sha256hex (ie_load env) asset")
          case sha: True
          show ?thesis
          proof (cases "extractBinary env asset (dep_Name dep) (HasSuffix ?u ''.zip'')")
            case (Inl e)
            then show ?thesis using assms \<open>c = Inr chk\<close> False a d sha f by (intro checksum) auto
          next
            case (Inr bin)
            have b: "binary_from env dep (TrimSpace chk) bin"
              using fetchAsset_frame(3) [OF a d] sha Inr unfolding binary_from_def by metis
            have "place_binary env dest bin (TrimSpace chk) w2 = (r, w')"
              using assms \<open>c = Inr chk\<close> False a d sha Inr by simp
            then show ?thesis using place [OF srv f b] by blast
          qed
        next
          case sha: False
          then show ?thesis using assms \<open>c = Inr chk\<close> False a d f by (intro checksum) auto
        qed
      qed
    qed
  qed
qed

lemma place_binary_frame:
  assumes "place_binary env dest bin e w = (r, w')"
  shows "p \<noteq> dest \<Longrightarrow> p \<noteq> marker_of dest \<Longrightarrow> iw_files w' p = iw_files w p"
    and "r = None \<or> (\<exists>q. r = Some (WriteFailed q))"
    and "\<forall>c. ie_write env dest c = WriteRefused \<Longrightarrow> w' = w"
proof -
  obtain ok w1 where a: "WriteFile env dest bin 493 w = (ok, w1)" by fastforce
  obtain ok2 w2 where b: "WriteFile env (marker_of dest) e 420 w1 = (ok2, w2)" by fastforce
  have r: "(r, w') = (if ok then (if ok2 then None else Some (WriteFailed (marker_of dest)), w2) else (Some (WriteFailed dest), w1))"
    using assms a b by (cases ok) (simp_all add: place_binary_def)
  show "p \<noteq> dest \<Longrightarrow> p \<noteq> marker_of dest \<Longrightarrow> iw_files w' p = iw_files w p"
    using r WriteFile_frame(1) [OF a, of p] WriteFile_frame(1) [OF b, of p] by (simp split: if_splits)
  show "r = None \<or> (\<exists>q. r = Some (WriteFailed q))" using r by (simp split: if_splits)
  show "\<forall>c. ie_write env dest c = WriteRefused \<Longrightarrow> w' = w" using r WriteFile_frame(3) [OF a] by simp
qed

lemma installFile_frame:
  assumes "installFile env cfg dep dest w = (r, w')"
  shows "p \<noteq> dest \<Longrightarrow> iw_files w' p = iw_files w p"
    and "r = None \<or> (\<exists>q. r = Some (WriteFailed q)) \<or> iw_files w' = iw_files w"
    and "\<forall>c. ie_write env dest c = WriteRefused \<Longrightarrow> iw_files w' = iw_files w"
proof -
  obtain c w1 where a: "fetchAssetWithRetry env (asset_url env dep) (dep_Version dep \<noteq> []) w = (c, w1)" by fastforce
  note f = fetchAsset_frame(1) [OF a]
  note [simp] = installFile_def Let_def asset_url_def [symmetric] a
  consider (failed) "w' = w1" "r \<noteq> None" | (wrote) content mode ok where "WriteFile env dest content mode w1 = (ok, w')"
      "r = (if ok then None else Some (WriteFailed dest))"
    using assms by (cases c) (auto split: prod.splits)
  then have "(p \<noteq> dest \<longrightarrow> iw_files w' p = iw_files w p) \<and> (r = None \<or> (\<exists>q. r = Some (WriteFailed q)) \<or> iw_files w' = iw_files w)
     \<and> ((\<forall>c. ie_write env dest c = WriteRefused) \<longrightarrow> iw_files w' = iw_files w)" for p
  proof cases
    case wrote
    show ?thesis using f wrote(2) WriteFile_frame(1) [OF wrote(1), of p] WriteFile_frame(3) [OF wrote(1)] by auto
  qed (simp add: f)
  then show "p \<noteq> dest \<Longrightarrow> iw_files w' p = iw_files w p"
    and "r = None \<or> (\<exists>q. r = Some (WriteFailed q)) \<or> iw_files w' = iw_files w"
    and "\<forall>c. ie_write env dest c = WriteRefused \<Longrightarrow> iw_files w' = iw_files w" by blast+
qed

lemma installDependency_done:
  assumes "installDependency env cfg dep w = (None, w')"
  shows "dep_done env cfg dep (iw_files w) (iw_files w')"
proof -
  obtain dest where d: "resolveInstallPath (dep_Path dep) cfg = Inr dest" "ie_mkdir env (path_Dir dest)"
    using assms by (auto simp: installDependency_def split: sum.splits if_splits)
  show ?thesis
  proof (cases "IsFile dep")
    case True
    then show ?thesis using assms d installFile_ok by (fastforce simp: installDependency_def dep_done_def)
  next
    case False
    then have "installBinary env dep dest w = (None, w')" using assms d by (simp add: installDependency_def)
    then show ?thesis
    proof (cases rule: installBinary_cases)
      case (current chk)
      then show ?thesis using d False up_to_date_marker [OF current(4)] by (auto simp: dep_done_def)
    next
      case (place chk bin w1)
      then show ?thesis using d False place_binary_ok [OF place(4)] by (auto simp: dep_done_def)
    qed simp
  qed
qed

lemma installDependency_frame:
  assumes "installDependency env cfg dep w = (r, w')"
  shows "p \<notin> set (dep_paths cfg dep) \<Longrightarrow> iw_files w' p = iw_files w p"
    and "r = None \<or> (\<exists>q. r = Some (WriteFailed q)) \<or> iw_files w' = iw_files w"
    and "resolveInstallPath (dep_Path dep) cfg = Inr dest \<Longrightarrow> \<forall>c. ie_write env dest c = WriteRefused
         \<Longrightarrow> iw_files w' = iw_files w"
proof -
  have "(p \<notin> set (dep_paths cfg dep) \<longrightarrow> iw_files w' p = iw_files w p)
    \<and> (r = None \<or> (\<exists>q. r = Some (WriteFailed q)) \<or> iw_files w' = iw_files w)
    \<and> (resolveInstallPath (dep_Path dep) cfg = Inr dest \<longrightarrow> (\<forall>c. ie_write env dest c = WriteRefused)
         \<longrightarrow> iw_files w' = iw_files w)" for p
  proof (cases "resolveInstallPath (dep_Path dep) cfg")
    case (Inl e)
    then show ?thesis using assms by (simp add: installDependency_def)
  next
    case (Inr d)
    show ?thesis
    proof (cases "ie_mkdir env (path_Dir d)")
      case mk: True
      show ?thesis
      proof (cases "IsFile dep")
        case True
        then have "installFile env cfg dep d w = (r, w')" using assms Inr mk by (simp add: installDependency_def)
        from installFile_frame [OF this] show ?thesis using Inr True by (auto simp: dep_paths_def)
      next
        case False
        then have "installBinary env dep d w = (r, w')" using assms Inr mk by (simp add: installDependency_def)
        then show ?thesis
        proof (cases rule: installBinary_cases)
          case (place chk bin w1)
          from place_binary_frame [OF place(4)] show ?thesis using Inr False place(2) by (auto simp: dep_paths_def)
        qed (use Inr False in auto)
      qed
    qed (use assms Inr in \<open>simp add: installDependency_def\<close>)
  qed
  then show "p \<notin> set (dep_paths cfg dep) \<Longrightarrow> iw_files w' p = iw_files w p"
    and "r = None \<or> (\<exists>q. r = Some (WriteFailed q)) \<or> iw_files w' = iw_files w"
    and "resolveInstallPath (dep_Path dep) cfg = Inr dest \<Longrightarrow> \<forall>c. ie_write env dest c = WriteRefused
         \<Longrightarrow> iw_files w' = iw_files w" by blast+
qed

section \<open>Containment\<close>

text \<open>A directory given by a clean absolute path other than the root.\<close>

definition clean_dir :: "string \<Rightarrow> bool" where
  "clean_dir d \<longleftrightarrow> IsAbs d \<and> list_all proper (SplitOn slash (tl d))"

lemma clean_dirE:
  assumes "clean_dir d"
  obtains bs where "bs \<noteq> []" "list_all proper bs" "d = slash # Join bs ''/''"
proof -
  obtain q where q: "d = slash # q" using assms by (auto simp: clean_dir_def IsAbs_conv)
  then show thesis using assms that [of "SplitOn slash q"] by (simp add: clean_dir_def)
qed

lemma inside_base_under:
  assumes "clean_dir base" "inside_base path base rel = Inr full"
  shows "full = base \<or> under base full"
proof -
  have ab: "IsAbs base" using assms(1) by (simp add: clean_dir_def)
  then have full: "full = Clean (base @ ''/'' @ rel)" "IsAbs (base @ ''/'' @ rel)"
    using assms(2) by (auto simp: inside_base_def Let_def path_Join_def IsAbs_conv split: if_splits)
  then show ?thesis
    using assms(2) Clean_prefix_under [OF full(2) _ ab] ab
    by (auto simp: inside_base_def Let_def path_Join_def IsAbs_conv split: if_splits)
qed

lemma path_Join_under:
  assumes "clean_dir base" "''..'' \<notin> set (SplitOn slash rel)"
  shows "path_Join base rel = base \<or> under base (path_Join base rel)"
proof -
  obtain bs where bs: "bs \<noteq> []" "list_all proper bs" "base = slash # Join bs ''/''" using clean_dirE [OF assms(1)] .
  have j: "path_Join base rel = slash # Join (bs @ filter proper (SplitOn slash rel)) ''/''"
    using path_Join_plain [OF bs assms(2)] .
  show ?thesis
  proof (cases "filter proper (SplitOn slash rel) = []")
    case True
    then show ?thesis using j bs(3) by simp
  next
    case False
    then have "path_Join base rel = base @ slash # Join (filter proper (SplitOn slash rel)) ''/''"
      using j bs by (simp add: Join_append)
    then show ?thesis using False unfolding under_iff by (auto simp: list_all_iff)
  qed
qed

lemma inside_base_accepts:
  assumes "clean_dir base" "''..'' \<notin> set (SplitOn slash rel)"
  shows "inside_base path base rel = Inr (path_Join base rel)"
  using path_Join_under [OF assms] by (auto simp: inside_base_def Let_def under_def)

lemma resolveInstallPath_inside:
  assumes "clean_dir (cfg_ToolsDir cfg)" "clean_dir (cfg_ModulesDir cfg)" "resolveInstallPath path cfg = Inr dest"
  shows "dest \<in> {cfg_ToolsDir cfg, cfg_ModulesDir cfg} \<or> under (cfg_ToolsDir cfg) dest \<or> under (cfg_ModulesDir cfg) dest"
  using assms(3)
  by (auto simp: resolveInstallPath_def dest: inside_base_under [OF assms(1)] inside_base_under [OF assms(2)]
      split: if_splits)

lemma under_marker:
  assumes "under base dest"
  shows "under base (marker_of dest)"
proof -
  obtain ds where ds: "ds \<noteq> []" "list_all proper ds" "dest = base @ slash # Join ds ''/''"
    using assms by (auto simp: under_iff)
  define es where "es = butlast ds @ [last ds @ ''.checksum'']"
  have "proper (last ds @ ''.checksum'')" using ds(1,2) by (auto simp: list_all_iff proper_def)
  then have es: "es \<noteq> []" "list_all proper es"
    using ds(2) by (auto simp: es_def list_all_iff dest: in_set_butlastD)
  have "Join es ''/'' = Join ds ''/'' @ ''.checksum''"
  proof (cases "butlast ds = []")
    case True
    then have "ds = [last ds]" using append_butlast_last_id [OF ds(1)] by simp
    then show ?thesis using True by (metis Join.simps(2) append_Nil es_def)
  next
    case False
    then have "Join ds ''/'' = Join (butlast ds) ''/'' @ ''/'' @ last ds"
      using Join_append [of "butlast ds" "[last ds]" "''/''"] append_butlast_last_id [OF ds(1)] by simp
    then show ?thesis using False by (simp add: es_def Join_append)
  qed
  then have "marker_of dest = base @ slash # Join es ''/''" using ds(3) by (simp add: marker_of_def)
  then show ?thesis using es unfolding under_iff by blast
qed

lemma name_file_proper:
  assumes "name_matches name"
  shows "proper (name @ ''.yaml'')"
proof -
  have "slash \<notin> set name"
    using assms by (cases name) (auto simp: name_matches_def list_all_iff is_lower_def is_digit_def Let_def)
  moreover have "name \<noteq> []" "hd name \<noteq> CHR ''.''"
    using assms by (auto simp: name_matches_def is_lower_def Let_def)
  ultimately show ?thesis by (cases name) (auto simp: proper_def)
qed

lemma yaml_path_under:
  assumes "clean_dir (cfg_ModulesDir cfg)" "name_matches name"
  shows "under (cfg_ModulesDir cfg) (yaml_path cfg name)"
proof -
  have p: "proper (name @ ''.yaml'')" using name_file_proper [OF assms(2)] .
  then have s: "SplitOn slash (name @ ''.yaml'') = [name @ ''.yaml'']" by (simp add: proper_def SplitOn_single)
  obtain bs where bs: "bs \<noteq> []" "list_all proper bs" "cfg_ModulesDir cfg = slash # Join bs ''/''"
    using clean_dirE [OF assms(1)] .
  have "yaml_path cfg name = cfg_ModulesDir cfg @ slash # Join [name @ ''.yaml''] ''/''"
    using path_Join_plain [OF bs, of "name @ ''.yaml''"] s p bs by (simp add: yaml_path_def Join_append proper_def)
  then show ?thesis using p unfolding under_iff by (intro exI [of _ "[name @ ''.yaml'']"]) simp
qed

section \<open>A whole module\<close>

fun deps_done ::
  "installEnv \<Rightarrow> instConfig \<Rightarrow> InstallDependency list \<Rightarrow> (string \<rightharpoonup> string) \<Rightarrow> (string \<rightharpoonup> string) \<Rightarrow> bool" where
  "deps_done env cfg [] f g = (g = f)"
| "deps_done env cfg (dep # deps) f g = (\<exists>h. dep_done env cfg dep f h \<and> deps_done env cfg deps h g)"

definition deps_paths :: "instConfig \<Rightarrow> InstallDependency list \<Rightarrow> string list" where
  "deps_paths cfg deps = concat (map (dep_paths cfg) deps)"

lemma install_deps_done:
  "install_deps env cfg deps w = (None, w') \<Longrightarrow> deps_done env cfg deps (iw_files w) (iw_files w')"
proof (induction deps arbitrary: w)
  case (Cons dep deps)
  then obtain w1 where "installDependency env cfg dep w = (None, w1)" "install_deps env cfg deps w1 = (None, w')"
    by (auto split: prod.splits option.splits)
  then show ?case using Cons.IH installDependency_done by (metis deps_done.simps(2))
qed simp

lemma install_deps_frame:
  assumes "install_deps env cfg deps w = (r, w')" "p \<notin> set (deps_paths cfg deps)"
  shows "iw_files w' p = iw_files w p"
  using assms
proof (induction deps arbitrary: w)
  case (Cons dep deps)
  obtain e w1 where d: "installDependency env cfg dep w = (e, w1)" by fastforce
  have "iw_files w1 p = iw_files w p" using installDependency_frame(1) [OF d] Cons.prems(2) by (simp add: deps_paths_def)
  then show ?case using Cons d by (cases e) (auto simp: deps_paths_def)
qed simp

lemma dep_paths_elem:
  "p \<in> set (dep_paths cfg dep) \<Longrightarrow> \<exists>dest. resolveInstallPath (dep_Path dep) cfg = Inr dest \<and> (p = dest \<or> p = marker_of dest)"
  by (cases "resolveInstallPath (dep_Path dep) cfg") (auto simp: dep_paths_def split: if_splits)

lemma install_deps_inside:
  assumes "clean_dir (cfg_ToolsDir cfg)" "clean_dir (cfg_ModulesDir cfg)"
    and refused: "\<And>c. ie_write env (cfg_ToolsDir cfg) c = WriteRefused" "\<And>c. ie_write env (cfg_ModulesDir cfg) c = WriteRefused"
    and "install_deps env cfg deps w = (r, w')" "iw_files w' p \<noteq> iw_files w p"
  shows "under (cfg_ToolsDir cfg) p \<or> under (cfg_ModulesDir cfg) p"
  using assms(5,6)
proof (induction deps arbitrary: w)
  case (Cons dep deps)
  obtain e w1 where d: "installDependency env cfg dep w = (e, w1)" by fastforce
  show ?case
  proof (cases "iw_files w1 p = iw_files w p")
    case True
    then show ?thesis using Cons d by (cases e) auto
  next
    case False
    then have "p \<in> set (dep_paths cfg dep)" using installDependency_frame(1) [OF d] by blast
    then obtain dest where dest: "resolveInstallPath (dep_Path dep) cfg = Inr dest" "p = dest \<or> p = marker_of dest"
      using dep_paths_elem by blast
    have "dest \<notin> {cfg_ToolsDir cfg, cfg_ModulesDir cfg}"
      using installDependency_frame(3) [OF d dest(1)] refused False by auto
    then show ?thesis using resolveInstallPath_inside [OF assms(1,2) dest(1)] dest(2) under_marker by blast
  qed
qed simp

lemma Fetch_cases:
  assumes "Fetch env cfg url w = (r, w')"
  obtains (early) "r \<noteq> None" "iw_files w' = iw_files w"
  | (deps) data m e w1 where "fst (fetchURL env url w) = Inr data" "ParseBytes (ie_load env) data = Inr m"
      "iw_files w1 = iw_files w" "install_deps env cfg (m_Install m) w1 = (Some e, w')" "r = Some (InModule (m_Name m) e)"
  | (yaml) data m ok w1 w2 where "fst (fetchURL env url w) = Inr data" "ParseBytes (ie_load env) data = Inr m"
      "checkPlatform env m = None" "iw_files w1 = iw_files w" "install_deps env cfg (m_Install m) w1 = (None, w2)"
      "WriteFile env (yaml_path cfg (m_Name m)) (stored_yaml m url data) 420 w2 = (ok, w')"
      "r = (if ok then None else Some (WriteFailed (yaml_path cfg (m_Name m))))"
proof -
  obtain d w1 where d: "fetchURL env url w = (d, w1)" by fastforce
  note f = fetchURL_frame(1) [OF d]
  show thesis
  proof (cases "ie_transport env (cfg_ProxyURL cfg)")
    case tr: True
    show ?thesis
    proof (cases d)
      case (Inl e)
      then show ?thesis using assms tr d f by (intro early) (auto simp: Fetch_def)
    next
      case d': (Inr data)
      show ?thesis
      proof (cases "ParseBytes (ie_load env) data")
        case (Inl e)
        then show ?thesis using assms tr d d' f by (intro early) (auto simp: Fetch_def)
      next
        case m: (Inr m)
        show ?thesis
        proof (cases "checkPlatform env m = None \<and> ie_mkdir env (cfg_ToolsDir cfg) \<and> ie_mkdir env (cfg_ModulesDir cfg)")
          case False
          then have "r \<noteq> None \<and> w' = w1"
            proof (cases "checkPlatform env m")
            case (Some e)
            then have "Fetch env cfg url w = (Some e, w1)" using tr d d' m by (simp add: Fetch_def)
            then show ?thesis using assms by simp
          next
            case None
            then show ?thesis using False assms tr d d' m by (auto simp: Fetch_def split: if_splits)
          qed
          then show ?thesis using f by (intro early) auto
        next
          case ok: True
          obtain e w2 where i: "install_deps env cfg (m_Install m) w1 = (e, w2)" by fastforce
          note run = assms tr d d' m ok i
          show ?thesis
          proof (cases e)
            case (Some x)
            have "w' = w2" "r = Some (InModule (m_Name m) x)" using run Some by (simp_all add: Fetch_def)
            then show ?thesis using deps [of data m w1 x] d d' m f i Some by simp
          next
            case None
            obtain wok w3 where wr: "WriteFile env (yaml_path cfg (m_Name m)) (stored_yaml m url data) 420 w2 = (wok, w3)"
              by fastforce
            have "w' = w3" "r = (if wok then None else Some (WriteFailed (yaml_path cfg (m_Name m))))"
              using run None wr by (simp_all add: Fetch_def)
            then show ?thesis using yaml [of data m w1 w2 wok] d d' m ok f i None wr by simp
          qed
        qed
      qed
    qed
  qed (use assms early in \<open>auto simp: Fetch_def\<close>)
qed

text \<open>C13. Whatever module a URL or the local copy of a module names, with whatever dependencies and paths, fetching
  and installing change only files below the tools directory or the modules directory, by a path of
  proper components (no dot-dot, no empty one). The two directories are given by clean absolute paths
  and, being directories, cannot be written as files.\<close>

theorem Fetch_stays_inside:
  assumes "clean_dir (cfg_ToolsDir cfg)" "clean_dir (cfg_ModulesDir cfg)"
    and "\<And>c. ie_write env (cfg_ToolsDir cfg) c = WriteRefused" "\<And>c. ie_write env (cfg_ModulesDir cfg) c = WriteRefused"
    and "Fetch env cfg url w = (r, w') \<or> Install env cfg name w = (r, w')"
    and "iw_files w' p \<noteq> iw_files w p"
  shows "under (cfg_ToolsDir cfg) p \<or> under (cfg_ModulesDir cfg) p"
proof -
  have "Install env cfg name w = (r, w') \<longrightarrow> (\<exists>u. Fetch env cfg u w = (r, w'))"
    using assms(6) by (auto simp: Install_def split: option.splits sum.splits if_splits)
  then obtain u where "Fetch env cfg u w = (r, w')" using assms(5) by blast
  then show ?thesis
  proof (cases rule: Fetch_cases)
    case (deps data m e w1)
    then show ?thesis using install_deps_inside [OF assms(1-4) deps(4)] assms(6) by simp
  next
    case (yaml data m ok w1 w2)
    show ?thesis
    proof (cases "p = yaml_path cfg (m_Name m)")
      case True
      obtain m0 where m0: "module_ok (le_compile (ie_load env)) m0" "m_Name m = m_Name m0"
        using yaml(2) unfolding ParseBytes_Inr by auto
      then have "name_matches (m_Name m)" by (simp add: module_ok_def)
      then show ?thesis using yaml_path_under [OF assms(2)] True by blast
    next
      case False
      then show ?thesis
        using install_deps_inside [OF assms(1-4) yaml(5), of p] WriteFile_frame(1) [OF yaml(6)] yaml(4) assms(6) by simp
    qed
  qed (use assms(6) in simp)
qed

text \<open>C14. A module becomes locally known only with everything it needs: when a fetch succeeds, every dependency was
  installed in order (a file with its placeholders replaced; a binary extracted from an archive whose
  SHA-256 is the published checksum, or already current by its marker) and the definition was written
  last with its URL recorded; when it fails, files outside the paths of the dependencies are unchanged, the
  module's definition included, unless writing the definition itself failed.\<close>

theorem Fetch_known_only_when_installed:
  assumes "Fetch env cfg url w = (r, w')"
  shows "case r of
     None \<Rightarrow> (\<exists>data m g. served env url data \<and> ParseBytes (ie_load env) data = Inr m
                \<and> checkPlatform env m = None \<and> deps_done env cfg (m_Install m) (iw_files w) g
                \<and> iw_files w' = g(yaml_path cfg (m_Name m) \<mapsto> stored_yaml m url data))
   | Some e \<Rightarrow> iw_files w' = iw_files w
        \<or> (\<exists>data m. served env url data \<and> ParseBytes (ie_load env) data = Inr m
             \<and> (e = WriteFailed (yaml_path cfg (m_Name m))
                \<or> (\<forall>p. p \<notin> set (deps_paths cfg (m_Install m)) \<longrightarrow> iw_files w' p = iw_files w p)))"
  using assms
proof (cases rule: Fetch_cases)
  case early
  then show ?thesis by (auto split: option.splits)
next
  case (deps data m e w1)
  have "served env url data" using deps(1) fetchURL_frame(2) [of env url w "Inr data" _ data] by (cases "fetchURL env url w") auto
  then show ?thesis using deps install_deps_frame [OF deps(4)] by auto
next
  case (yaml data m ok w1 w2)
  have s: "served env url data" using yaml(1) fetchURL_frame(2) [of env url w "Inr data" _ data] by (cases "fetchURL env url w") auto
  show ?thesis
  proof (cases ok)
    case True
    have "deps_done env cfg (m_Install m) (iw_files w) (iw_files w2)" using install_deps_done [OF yaml(5)] yaml(4) by simp
    moreover have "iw_files w' = (iw_files w2)(yaml_path cfg (m_Name m) \<mapsto> stored_yaml m url data)"
      using WriteFile_frame(2) [OF yaml(6)] True by blast
    ultimately show ?thesis using s yaml(2,3,7) True by auto
  next
    case False
    then show ?thesis using s yaml(2,7) by auto
  qed
qed

section \<open>Installing again\<close>

lemma installed_marker:
  assumes "installBinary env dep dest w = (None, w1)"
  shows "\<exists>chk. served env (asset_url env dep @ ''.checksum.txt'') chk
     \<and> map_option TrimSpace (iw_files w1 (marker_of dest)) = Some (TrimSpace chk)
     \<and> (iw_files w1 dest \<noteq> None \<or> ie_isdir env dest)"
  using assms
proof (cases rule: installBinary_cases)
  case (current chk)
  then show ?thesis using up_to_date_marker [OF current(4)] by blast
next
  case (place chk bin w2)
  have "marker_of dest \<noteq> dest" by (simp add: marker_of_def)
  then show ?thesis using place(1) place_binary_ok [OF place(4)] by auto
qed simp

text \<open>Installing a binary again costs one small request when nothing changed: after a successful installation,
  if the server's next answer for the checksum is a usable one with the checksum recorded in the marker,
  the second run succeeds, changes no file and requests the checksum only, never the archive. The server
  and the machine may differ otherwise between the runs.\<close>

theorem reinstall_requests_only_checksum:
  assumes "installDependency env cfg dep w = (None, w1)" and "\<not> IsFile dep"
    and "resolveInstallPath (dep_Path dep) cfg = Inr dest"
    and "ie_goos env' = ie_goos env" "ie_goarch env' = ie_goarch env" "ie_isdir env' = ie_isdir env"
    and "ie_mkdir env' (path_Dir dest)" "ie_readable env' (marker_of dest)"
    and "accepted (dep_Version dep \<noteq> []) (reply env' (length (iw_log w1)) (asset_url env dep @ ''.checksum.txt'')) = Some chk"
    and "map_option TrimSpace (iw_files w1 (marker_of dest)) = Some (TrimSpace chk)"
  shows "installDependency env' cfg dep w1
           = (None, w1\<lparr>iw_log := iw_log w1 @ [asset_url env dep @ ''.checksum.txt'']\<rparr>)"
proof -
  have "installBinary env dep dest w = (None, w1)"
    using assms(1-3) by (simp add: installDependency_def split: if_splits)
  then have present: "iw_files w1 dest \<noteq> None \<or> ie_isdir env dest" using installed_marker by blast
  have url: "asset_url env' dep = asset_url env dep" by (simp add: asset_url_def assms(4,5))
  let ?u = "asset_url env dep @ ''.checksum.txt''" and ?w = "w1\<lparr>iw_log := iw_log w1 @ [asset_url env dep @ ''.checksum.txt'']\<rparr>"
  have "fetchAssetWithRetry env' ?u (dep_Version dep \<noteq> []) w1 = (Inr chk, ?w)"
    using assms(9) by (simp add: fetchAssetWithRetry_def retry_loop_step [of env'] Let_def)
  moreover have "up_to_date env' dest (TrimSpace chk) ?w"
    using assms(6,8,10) present by (auto simp: up_to_date_def read_file_def)
  ultimately have "installBinary env' dep dest w1 = (None, ?w)"
    by (simp add: installBinary_def Let_def asset_url_def [symmetric] url)
  then show ?thesis using assms(2,3,7) by (simp add: installDependency_def)
qed

section \<open>Removing\<close>

definition removal_paths :: "instConfig \<Rightarrow> InstallDependency list \<Rightarrow> string list" where
  "removal_paths cfg deps =
     concat (map (\<lambda>dep. case resolveExistingPath (dep_Path dep) cfg of
                          Inl _ \<Rightarrow> [] | Inr dest \<Rightarrow> [dest, marker_of dest]) deps)"

lemma removal_paths_simps [simp]:
  "removal_paths cfg [] = []"
  "removal_paths cfg (dep # deps) =
     (case resolveExistingPath (dep_Path dep) cfg of Inl _ \<Rightarrow> [] | Inr dest \<Rightarrow> [dest, marker_of dest]) @ removal_paths cfg deps"
  by (simp_all add: removal_paths_def)

lemma remove_file_files:
  "ie_removable env p \<Longrightarrow> iw_files (snd (remove_file env p w)) = (iw_files w)(p := None)"
  by (auto simp: remove_file_def)

lemma remove_deps_files:
  assumes "\<And>p. ie_removable env p"
  shows "iw_files (remove_deps env cfg deps w) p = (if p \<in> set (removal_paths cfg deps) then None else iw_files w p)"
proof (induction deps arbitrary: w)
  case (Cons dep deps)
  show ?case
    by (cases "resolveExistingPath (dep_Path dep) cfg")
      (simp_all add: Cons.IH assms remove_file_files)
qed simp

lemma resolveInstallPath_not_abs: "resolveInstallPath path cfg = Inr dest \<Longrightarrow> \<not> IsAbs path"
  by (auto simp: resolveInstallPath_def IsAbs_conv HasPrefix_conv split: if_splits)

lemma dep_paths_removed:
  assumes "p \<in> set (deps_paths cfg deps)"
  shows "p \<in> set (removal_paths cfg deps)"
proof -
  obtain dep where d: "dep \<in> set deps" "p \<in> set (dep_paths cfg dep)" using assms by (auto simp: deps_paths_def)
  obtain dest where "resolveInstallPath (dep_Path dep) cfg = Inr dest" "p = dest \<or> p = marker_of dest"
    using dep_paths_elem [OF d(2)] by blast
  then have "resolveExistingPath (dep_Path dep) cfg = Inr dest" "p = dest \<or> p = marker_of dest"
    using resolveInstallPath_not_abs by (auto simp: resolveExistingPath_def)
  then show ?thesis using d(1) by (force simp: removal_paths_def)
qed

text \<open>C34. Removing undoes fetching: when a module that records its own URL was fetched and the machine allows
  the removals, removing it by name succeeds, deletes its definition and every file and marker of its
  dependencies, and leaves every other file as it was before the fetch. The definition must not be one of
  its own dependencies' files.\<close>

theorem Remove_undoes_Fetch:
  assumes "Fetch env cfg url w = (None, w1)"
    and "fst (fetchURL env url w) = Inr data" "ParseBytes (ie_load env) data = Inr m" "m_URL m \<noteq> []"
    and "ie_readable env (yaml_path cfg (m_Name m))" "\<And>p. ie_removable env p"
    and "yaml_path cfg (m_Name m) \<notin> set (removal_paths cfg (m_Install m))"
  shows "\<exists>w2. mod_Remove env cfg (m_Name m) w1 = (None, w2)
     \<and> (\<forall>p. iw_files w2 p = (if p \<in> set (yaml_path cfg (m_Name m) # removal_paths cfg (m_Install m)) then None
                              else iw_files w p))"
  using assms(1)
proof (cases rule: Fetch_cases)
  case (yaml data' m' ok v1 v2)
  have same: "data' = data" "m' = m" using yaml(1,2) assms(2,3) by auto
  let ?y = "yaml_path cfg (m_Name m)"
  have f: "iw_files w1 = (iw_files v2)(?y \<mapsto> data)"
    using WriteFile_frame(2) [OF yaml(6)] yaml(7) assms(4) same by (auto simp: stored_yaml_def split: if_splits)
  define w2 where "w2 = remove_deps env cfg (m_Install m) w1"
  have d: "iw_files w2 p = (if p \<in> set (removal_paths cfg (m_Install m)) then None else iw_files w1 p)" for p
    using remove_deps_files [OF assms(6)] by (simp add: w2_def)
  have y: "iw_files w2 ?y = Some data" using d f assms(7) by simp
  obtain w3 where w3: "remove_file env ?y w2 = (True, w3)" using y assms(6) by (simp add: remove_file_def)
  have "iw_files w3 = (iw_files w2)(?y := None)" using remove_file_files [OF assms(6), of ?y w2] w3 by simp
  moreover have "iw_files v2 p = iw_files w p" if "p \<notin> set (removal_paths cfg (m_Install m))" for p
    using install_deps_frame [OF yaml(5)] dep_paths_removed that yaml(4) same by metis
  moreover have "mod_Remove env cfg (m_Name m) w1 = (None, w3)"
    using f assms(3,5) w3 by (simp add: mod_Remove_def read_file_def w2_def [symmetric])
  ultimately show ?thesis using d f by (intro exI [of _ w3]) auto
qed simp_all

section \<open>A concrete server\<close>

definition demo_dep :: "string \<Rightarrow> string \<Rightarrow> string \<Rightarrow> InstallDependency" where
  "demo_dep kind url path = \<lparr>dep_Name = ''x'', dep_Version = [], dep_Kind = kind, dep_URL = url, dep_Path = path\<rparr>"

definition demo_deps :: "InstallDependency list" where
  "demo_deps = [demo_dep [] ''b'' ''__TOOLS_DIR__/x'', demo_dep ''file'' ''f'' ''__MODULES_DIR__/s/x.sh'']"

definition demo_install_module :: "InstallDependency list \<Rightarrow> Module" where
  "demo_install_module deps = \<lparr>m_Name = ''x'', m_Engine = [], m_EngineVersion = [], m_Version = [], m_URL = ''u'',
     m_OS = [], m_Arch = [], m_Install = deps, m_Action = ''tcp_connect'', m_Prepare = None, m_Run = None,
     m_Collect = \<lparr>co_Format = [], co_Pattern = []\<rparr>, m_Teardown = None, m_Pool = None, m_MinTimeoutMs = 0,
     m_Request = [], m_Response = [], m_RawYAML = [], m_FileHash = [], m_compiledPattern = None\<rparr>"

definition demo_install :: "InstallDependency list \<Rightarrow> installEnv" where
  "demo_install deps =
     \<lparr>ie_load = \<lparr>le_yaml = (\<lambda>s. if s = ''y'' then Some (demo_install_module deps) else None),
                 le_compile = (\<lambda>_. None), le_sha256hex = (\<lambda>s. if s = ''A'' then ''h'' else ''z'')\<rparr>,
      ie_goos = ''linux'', ie_goarch = ''arm'', ie_transport = (\<lambda>_. True),
      ie_get = (\<lambda>n u. if u = ''u'' then GetResponse 200 [] ''y'' True
                       else if u = ''b'' then GetResponse 200 [] ''A'' True
                       else if u = ''b.checksum.txt'' then GetResponse 200 [] '' h '' True
                       else if u = ''f'' then (if n = 3 then GetFailed else GetResponse 200 [] ''__TOOLS_DIR__/x'' True)
                       else GetResponse 404 [] [] True),
      ie_cancelled = (\<lambda>_. False), ie_mkdir = (\<lambda>_. True), ie_readable = (\<lambda>_. True), ie_isdir = (\<lambda>_. False),
      ie_write = (\<lambda>p _. if p = ''/t'' \<or> p = ''/m'' then WriteRefused else Written), ie_removable = (\<lambda>_. True),
      ie_targz = (\<lambda>s. if s = ''A'' then Some [TarEntry ''doc'' None, TarEntry ''./x'' (Some ''BIN'')] else None),
      ie_zip = (\<lambda>_. None)\<rparr>"

definition demo_dirs :: instConfig where
  "demo_dirs = \<lparr>cfg_ModulesDir = ''/m'', cfg_ToolsDir = ''/t'', cfg_ProxyURL = []\<rparr>"

definition demo_disk :: installWorld where
  "demo_disk = \<lparr>iw_files = [''/etc'' \<mapsto> ''e''], iw_modes = Map.empty, iw_log = [], iw_waited = 0\<rparr>"

definition demo_fetch :: "installError option \<times> installWorld" where
  "demo_fetch = Fetch (demo_install demo_deps) demo_dirs ''u'' demo_disk"

lemma demo_dirs_clean:
  "clean_dir (cfg_ToolsDir demo_dirs)" "clean_dir (cfg_ModulesDir demo_dirs)"
  "ie_write (demo_install deps) (cfg_ToolsDir demo_dirs) c = WriteRefused"
  "ie_write (demo_install deps) (cfg_ModulesDir demo_dirs) c = WriteRefused"
  by (code_simp, code_simp, simp_all add: demo_install_def demo_dirs_def)

lemma demo_fetch_ok: "demo_fetch = (None, snd demo_fetch)"
proof -
  have "case fst demo_fetch of None \<Rightarrow> True | Some e \<Rightarrow> False" by code_simp
  then have "fst demo_fetch = None" by (simp split: option.splits)
  then show ?thesis by (metis prod.collapse)
qed

theorem Fetch_stays_inside_witness:
  "under ''/t'' ''/t/x.checksum'' \<or> under ''/m'' ''/t/x.checksum''"
proof -
  have w: "Fetch (demo_install demo_deps) demo_dirs ''u'' demo_disk = (None, snd demo_fetch) \<or>
        Install (demo_install demo_deps) demo_dirs ''x'' demo_disk = (None, snd demo_fetch)"
    using demo_fetch_ok by (simp add: demo_fetch_def)
  have "iw_files (snd demo_fetch) ''/t/x.checksum'' \<noteq> iw_files demo_disk ''/t/x.checksum''" by code_simp
  from Fetch_stays_inside [OF demo_dirs_clean w this] show ?thesis by (simp add: demo_dirs_def)
qed

theorem Fetch_known_only_when_installed_witness:
  "\<exists>data m g. served (demo_install demo_deps) ''u'' data \<and> ParseBytes (ie_load (demo_install demo_deps)) data = Inr m
     \<and> checkPlatform (demo_install demo_deps) m = None
     \<and> deps_done (demo_install demo_deps) demo_dirs (m_Install m) (iw_files demo_disk) g
     \<and> iw_files (snd demo_fetch) = g(yaml_path demo_dirs (m_Name m) \<mapsto> stored_yaml m ''u'' data)"
  using Fetch_known_only_when_installed [of "demo_install demo_deps" demo_dirs "''u''" demo_disk None "snd demo_fetch"] demo_fetch_ok
  by (simp add: demo_fetch_def)

theorem fetchAssetWithRetry_bounded_witness:
  "\<exists>r w' k. fetchAssetWithRetry (demo_install []) ''q'' True demo_disk = (r, w') \<and> 1 \<le> k \<and> k \<le> 5
     \<and> w' = demo_disk\<lparr>iw_log := iw_log demo_disk @ replicate k ''q'', iw_waited := iw_waited demo_disk + int k * (int k - 1) * second\<rparr>"
proof -
  obtain r w' where "fetchAssetWithRetry (demo_install []) ''q'' True demo_disk = (r, w')" by fastforce
  with fetchAssetWithRetry_bounded [OF this] show ?thesis by blast
qed

theorem Remove_undoes_Fetch_witness:
  "\<exists>w2. mod_Remove (demo_install demo_deps) demo_dirs ''x'' (snd demo_fetch) = (None, w2)
     \<and> iw_files w2 ''/t/x'' = None \<and> iw_files w2 ''/etc'' = Some ''e''"
proof -
  let ?e = "demo_install demo_deps"
  have f: "Fetch ?e demo_dirs ''u'' demo_disk = (None, snd demo_fetch)" using demo_fetch_ok by (simp add: demo_fetch_def)
  have b: "fst (fetchURL ?e ''u'' demo_disk) = Inr ''y''" by code_simp
  have v: "case ParseBytes (ie_load ?e) ''y'' of Inl _ \<Rightarrow> False | Inr m \<Rightarrow> m_Name m = ''x'' \<and> m_URL m = ''u'' \<and> m_Install m = demo_deps"
    by code_simp
  then obtain m where m: "ParseBytes (ie_load ?e) ''y'' = Inr m" "m_Name m = ''x''" "m_URL m = ''u''" "m_Install m = demo_deps"
    by (auto split: sum.splits)
  have r: "ie_readable ?e p" "ie_removable ?e p" for p by (simp_all add: demo_install_def)
  have y: "yaml_path demo_dirs ''x'' \<notin> set (removal_paths demo_dirs demo_deps)" by code_simp
  have t: "''/t/x'' \<in> set (removal_paths demo_dirs demo_deps)" "''/etc'' \<notin> set (yaml_path demo_dirs ''x'' # removal_paths demo_dirs demo_deps)"
    by code_simp+
  have n: "yaml_path demo_dirs (m_Name m) \<notin> set (removal_paths demo_dirs (m_Install m))" using y m by simp
  have u: "m_URL m \<noteq> []" using m(3) by simp
  from Remove_undoes_Fetch [OF f b m(1) u r n] t show ?thesis using m by (auto simp: demo_disk_def)
qed

theorem reinstall_requests_only_checksum_witness:
  "\<exists>w1. installDependency (demo_install []) demo_dirs (hd demo_deps) demo_disk = (None, w1)
     \<and> installDependency (demo_install []) demo_dirs (hd demo_deps) w1
         = (None, w1\<lparr>iw_log := iw_log w1 @ [''b.checksum.txt'']\<rparr>)"
proof -
  let ?e = "demo_install []" and ?d = "hd demo_deps"
  define w1 where "w1 = snd (installDependency ?e demo_dirs ?d demo_disk)"
  have "case fst (installDependency ?e demo_dirs ?d demo_disk) of None \<Rightarrow> True | Some e \<Rightarrow> False" by code_simp
  then have i: "installDependency ?e demo_dirs ?d demo_disk = (None, w1)"
    by (cases "installDependency ?e demo_dirs ?d demo_disk") (auto simp: w1_def split: option.splits)
  have nf: "\<not> IsFile ?d" by code_simp
  have p: "resolveInstallPath (dep_Path ?d) demo_dirs = Inr ''/t/x''" by code_simp
  have mk: "ie_mkdir ?e (path_Dir ''/t/x'')" "ie_readable ?e (marker_of ''/t/x'')" by (simp_all add: demo_install_def)
  have u: "asset_url ?e ?d @ ''.checksum.txt'' = ''b.checksum.txt''" by code_simp
  have a: "accepted (dep_Version ?d \<noteq> []) (reply ?e n (asset_url ?e ?d @ ''.checksum.txt'')) = Some '' h ''" for n
    unfolding u by (simp add: demo_install_def reply_def accepted_def HasPrefix_def limit_body_def)
  have t: "map_option TrimSpace (iw_files w1 (marker_of ''/t/x'')) = Some (TrimSpace '' h '')"
    unfolding w1_def by code_simp
  from reinstall_requests_only_checksum [OF i nf p refl refl refl mk a t] show ?thesis using i u by simp
qed

section \<open>Two limits of the installer\<close>

text \<open>A dependency that fails leaves the ones before it on the disk.\<close>

lemma Fetch_partial_writes:
  "let (r, w') = Fetch (demo_install (demo_deps @ [demo_dep [] ''q'' ''__TOOLS_DIR__/q''])) demo_dirs ''u'' demo_disk
   in r \<noteq> None \<and> iw_files w' ''/t/x'' = Some ''BIN'' \<and> iw_files w' ''/m/x.yaml'' = None"
  by code_simp

text \<open>A base directory with a trailing slash refuses every path.\<close>

lemma trailing_slash_refuses:
  assumes "IsAbs base" "base \<noteq> ''/''"
  shows "inside_base path (base @ ''/'') rel = Inl (PathEscapes path)"
proof -
  have abs: "IsAbs (base @ ''/'' @ ''/'' @ rel)" using assms(1) by (auto simp: IsAbs_conv)
  obtain cs where cs: "list_all proper cs" "path_Join (base @ ''/'') rel = slash # Join cs ''/''"
    using Clean_rooted [OF abs] by (auto simp: path_Join_def)
  obtain b where b: "base = slash # b" "b \<noteq> []" using assms by (auto simp: IsAbs_conv)
  have no: "slash # Join cs ''/'' \<noteq> base @ ''/''"
  proof
    assume "slash # Join cs ''/'' = base @ ''/''"
    then have e: "Join cs ''/'' = b @ [slash]" using b by simp
    then have "cs \<noteq> []" by auto
    then show False using proper_Join_last [OF _ cs(1)] e by simp
  qed
  have "\<not> HasPrefix (slash # Join cs ''/'') (base @ ''//'')"
  proof
    assume "HasPrefix (slash # Join cs ''/'') (base @ ''//'')"
    then obtain r where e: "Join cs ''/'' = (b @ [slash]) @ slash # r" using b by (auto simp: HasPrefix_conv)
    then have "cs \<noteq> []" by auto
    then have "cs = SplitOn slash (b @ [slash]) @ SplitOn slash r"
      using SplitOn_Join [OF _ proper_free [OF cs(1)]] e by (metis SplitOn_append)
    then have "[] \<in> set cs" by (simp add: SplitOn_append)
    then show False using cs(1) by (auto simp: list_all_iff)
  qed
  then show ?thesis using no cs(2) by (simp add: inside_base_def Let_def)
qed

end
