(* ===== verification/Jobprobe.thy ===== *)
theory Jobprobe
  imports Checker
begin

text \<open>
  The measurement of one pooled job (\<^verbatim>\<open>internal/jobprobe/jobprobe.go\<close>): its targets, the time budget of each
  attempt and the line it prints. Time is counted from the start of the command. The requests through the
  tunnel, the raw dial and how long each takes, the files, JSON and the printing of decimals are
  arguments; fractions of a duration are exact before they are truncated.
\<close>

section \<open>Targets\<close>

definition primaryFraction :: rat where "primaryFraction = 45 / 100"
definition fallbackPhaseEndFraction :: rat where "fallbackPhaseEndFraction = 60 / 100"
definition totalFraction :: rat where "totalFraction = 85 / 100"
definition dialFraction :: rat where "dialFraction = 5 / 100"

definition defaultFallbackTargets :: "string list" where
  "defaultFallbackTargets =
     [''https://www.google.com/generate_204'', ''https://www.youtube.com/generate_204'',
      ''https://www.ytimg.com/generate_204'', ''https://abs.twimg.com/favicons/favicon.ico'']"

definition durationFraction :: "duration \<Rightarrow> rat \<Rightarrow> duration" where
  "durationFraction d fraction = go_trunc (of_int d * fraction)"

fun targets_loop :: "string list \<Rightarrow> string list \<Rightarrow> string list" where
  "targets_loop targets [] = targets"
| "targets_loop targets (t # ts) =
     (if t = [] \<or> t \<in> set targets then targets_loop targets ts else targets_loop (targets @ [t]) ts)"

definition probeTargets :: "string \<Rightarrow> string list \<Rightarrow> string list" where
  "probeTargets primary fallbacks = targets_loop [primary] fallbacks"

definition fallbacks_of :: "string \<Rightarrow> string list" where
  "fallbacks_of flag =
     (if flag = [] then defaultFallbackTargets
      else filter (\<lambda>t. t \<noteq> []) (map TrimSpace (SplitOn (CHR '','') flag)))"

definition normalize_target :: "string \<Rightarrow> string" where
  "normalize_target target = (if Contains target ''://'' then target else ''http://'' @ target)"

section \<open>The raw dial\<close>

record endpoint =
  ep_Address :: string
  ep_Port :: int

record outboundSettings =
  os_Vnext :: "endpoint list"
  os_Servers :: "endpoint list"

fun first_endpoint :: "outboundSettings list \<Rightarrow> endpoint option" where
  "first_endpoint [] = None"
| "first_endpoint (out # outs) =
     (if os_Vnext out \<noteq> [] \<and> ep_Address (hd (os_Vnext out)) \<noteq> [] then Some (hd (os_Vnext out))
      else if os_Servers out \<noteq> [] \<and> ep_Address (hd (os_Servers out)) \<noteq> [] then Some (hd (os_Servers out))
      else first_endpoint outs)"

definition extractEndpoint :: "(string \<Rightarrow> string option) \<Rightarrow> (string \<Rightarrow> outboundSettings list option) \<Rightarrow> string \<Rightarrow> endpoint option" where
  "extractEndpoint read parse paramsPath =
     (case read paramsPath of
        None \<Rightarrow> None
      | Some raw \<Rightarrow> (case parse raw of None \<Rightarrow> None | Some outs \<Rightarrow> first_endpoint outs))"

definition dialNetwork :: "string \<Rightarrow> string" where
  "dialNetwork strategy =
     (let v = ToLower (TrimSpace strategy) in
      if v = ''useipv4'' \<or> v = ''use_ipv4'' then ''tcp4''
      else if v = ''useipv6'' \<or> v = ''use_ipv6'' then ''tcp6''
      else ''tcp'')"

section \<open>Requests through the tunnel\<close>

text \<open>A request given a timeout ends after some time, with an error or with the time it measured and a status.\<close>

datatype reqOutcome = ReqErr string | ReqDone duration int

record probeIO =
  jp_read :: "string \<Rightarrow> string option"
  jp_parse :: "string \<Rightarrow> outboundSettings list option"
  jp_strategy :: string
  jp_bind :: "bind_error + Binding"
  jp_dial :: "string \<Rightarrow> endpoint \<Rightarrow> duration \<Rightarrow> bool \<times> duration"
  jp_tunnel :: "string \<Rightarrow> string option"
  jp_request :: "nat \<Rightarrow> string \<Rightarrow> duration \<Rightarrow> reqOutcome \<times> duration"
  jp_fixed3 :: "rat \<Rightarrow> string"
  jp_quote :: "string \<Rightarrow> string"
  jp_write :: "string \<Rightarrow> bool"

type_synonym targetAttempt = "string \<times> string"

text \<open>The dial runs beside the first attempt; its result is the measured delay and the moment it is there.\<close>

definition dialTCPDelay :: "probeIO \<Rightarrow> Binding \<Rightarrow> endpoint \<Rightarrow> duration \<Rightarrow> rat option \<times> duration" where
  "dialTCPDelay io bnd ep timeout =
     (case jp_dial io (Network bnd (dialNetwork (jp_strategy io))) ep timeout of
        (ok, spent) \<Rightarrow> (if ok then Some (of_int spent / of_int millisecond) else None, spent))"

definition attempt_timeout :: "duration \<Rightarrow> nat \<Rightarrow> nat \<Rightarrow> gotime \<Rightarrow> gotime \<Rightarrow> duration option" where
  "attempt_timeout timeout n i fallbackDeadline now =
     (let t = (if i = 0 then Some (durationFraction timeout primaryFraction)
               else if fallbackDeadline - now \<le> 0 then None
               else Some (go_div (fallbackDeadline - now) (int (n - i))))
      in case t of None \<Rightarrow> None | Some d \<Rightarrow> if d \<le> 0 then None else Some d)"

definition answers_ok :: "reqOutcome \<Rightarrow> bool" where
  "answers_ok r = (case r of ReqErr _ \<Rightarrow> False | ReqDone _ code \<Rightarrow> 200 \<le> code \<and> code < 400)"

definition attempt_error :: "reqOutcome \<Rightarrow> string" where
  "attempt_error r = (case r of ReqErr e \<Rightarrow> e | ReqDone _ code \<Rightarrow> ''target returned HTTP '' @ Itoa code)"

definition elapsed_of :: "reqOutcome \<Rightarrow> duration" where
  "elapsed_of r = (case r of ReqErr _ \<Rightarrow> 0 | ReqDone d _ \<Rightarrow> d)"

record probeLoop =
  pl_now :: gotime
  pl_requests :: nat
  pl_attempts :: "targetAttempt list"
  pl_success :: "(string \<times> duration) option"

fun targets_run ::
  "probeIO \<Rightarrow> string \<Rightarrow> duration \<Rightarrow> nat \<Rightarrow> gotime \<Rightarrow> nat \<Rightarrow> string list \<Rightarrow> probeLoop \<Rightarrow> probeLoop" where
  "targets_run io socksAddr timeout n fallbackDeadline i [] s = s"
| "targets_run io socksAddr timeout n fallbackDeadline i (candidate # rest) s =
     (case attempt_timeout timeout n i fallbackDeadline (pl_now s) of
        None \<Rightarrow> s
      | Some d \<Rightarrow>
          (case jp_tunnel io socksAddr of
             Some e \<Rightarrow> targets_run io socksAddr timeout n fallbackDeadline (i + 1) rest
                         (s\<lparr>pl_attempts := pl_attempts s @ [(candidate, e)]\<rparr>)
           | None \<Rightarrow>
               (case jp_request io (pl_requests s) candidate d of
                  (r, spent) \<Rightarrow>
                    let s = s\<lparr>pl_now := pl_now s + spent, pl_requests := pl_requests s + 1\<rparr> in
                    if answers_ok r then s\<lparr>pl_success := Some (candidate, elapsed_of r)\<rparr>
                    else targets_run io socksAddr timeout n fallbackDeadline (i + 1) rest
                           (s\<lparr>pl_attempts := pl_attempts s @ [(candidate, attempt_error r)]\<rparr>))))"

section \<open>Reporting\<close>

definition truncate_message :: "string \<Rightarrow> string" where
  "truncate_message message = (if length message > 600 then take 600 message @ ''...'' else message)"

definition formatAttempts :: "targetAttempt list \<Rightarrow> string" where
  "formatAttempts attempts =
     truncate_message (''all targets failed ('' @ Join (map (\<lambda>(t, e). t @ '': '' @ e) attempts) ''; '' @ '')'')"

definition jsonNumber :: "(rat \<Rightarrow> string) \<Rightarrow> rat option \<Rightarrow> string" where
  "jsonNumber fixed3 v = (case v of None \<Rightarrow> ''null'' | Some x \<Rightarrow> fixed3 x)"

definition to_ms :: "duration \<Rightarrow> rat" where
  "to_ms d = of_int d / of_int millisecond"

definition key :: "string \<Rightarrow> string" where
  "key k = [CHR 0x22] @ k @ [CHR 0x22] @ '': ''"

definition report_line :: "probeIO \<Rightarrow> duration \<Rightarrow> int \<Rightarrow> duration \<Rightarrow> rat option \<Rightarrow> string \<Rightarrow> nat \<Rightarrow> string" where
  "report_line io httpElapsed httpCode realElapsed tcpDelay target attempts =
     (let num = jsonNumber (jp_fixed3 io); http = num (Some (to_ms httpElapsed)) in
      ''{'' @ key ''latency_ms'' @ http @ '', '' @ key ''http_code'' @ Itoa httpCode @ '', '' @
      key ''http_delay_ms'' @ http @ '', '' @ key ''real_delay_ms'' @ num (Some (to_ms realElapsed)) @ '', '' @
      key ''tcp_delay_ms'' @ num tcpDelay @ '', '' @ key ''target_url'' @ jp_quote io target @ '', '' @
      key ''target_attempts'' @ Itoa (int attempts + 1) @ ''}\<newline>'')"

section \<open>The command\<close>

datatype probeError =
    ProbeFlags | ProbeBinding bind_error | AllFailed string | SecondFailed string string | ProbeOutput

definition effective_timeout :: "int \<Rightarrow> duration" where
  "effective_timeout timeoutMs =
     (let timeout = i64 (timeoutMs * millisecond) in if timeout \<le> 0 then 5 * second else timeout)"

definition second_budget :: "duration \<Rightarrow> gotime \<Rightarrow> gotime \<Rightarrow> duration" where
  "second_budget timeout overallDeadline now =
     (let remaining = overallDeadline - now; floor = durationFraction timeout (1 / 10)
      in if remaining < floor then floor else remaining)"

text \<open>The result, and the moment the command ends, counted from its start at time \<open>0\<close>.\<close>

definition second_request :: "probeIO \<Rightarrow> duration \<Rightarrow> probeLoop \<Rightarrow> rat option \<Rightarrow> string \<Rightarrow> duration \<Rightarrow> (probeError + string) \<times> gotime" where
  "second_request io timeout s tcpDelay target realElapsed =
     (case jp_request io (pl_requests s) target (second_budget timeout (durationFraction timeout totalFraction) (pl_now s)) of
        (ReqErr e, spent) \<Rightarrow> (Inl (SecondFailed target e), pl_now s + spent)
      | (ReqDone httpElapsed httpCode, spent) \<Rightarrow>
          let line = report_line io httpElapsed httpCode realElapsed tcpDelay target (length (pl_attempts s))
          in (if jp_write io line then Inr line else Inl ProbeOutput, pl_now s + spent))"

definition probe_targets_run :: "probeIO \<Rightarrow> string \<Rightarrow> duration \<Rightarrow> string list \<Rightarrow> probeLoop" where
  "probe_targets_run io socksAddr timeout targets =
     targets_run io socksAddr timeout (length targets) (durationFraction timeout fallbackPhaseEndFraction) 0 targets
       \<lparr>pl_now = 0, pl_requests = 0, pl_attempts = [], pl_success = None\<rparr>"

definition probe_dial :: "probeIO \<Rightarrow> Binding \<Rightarrow> string \<Rightarrow> duration \<Rightarrow> rat option \<times> duration" where
  "probe_dial io bnd paramsFile timeout =
     (case extractEndpoint (jp_read io) (jp_parse io) paramsFile of
        None \<Rightarrow> (None, 0)
      | Some ep \<Rightarrow> dialTCPDelay io bnd ep (durationFraction timeout dialFraction))"

definition probe_finish :: "probeIO \<Rightarrow> duration \<Rightarrow> probeLoop \<Rightarrow> rat option \<times> duration \<Rightarrow> (probeError + string) \<times> gotime" where
  "probe_finish io timeout s dialed =
     (let s = s\<lparr>pl_now := max (pl_now s) (snd dialed)\<rparr>
      in case pl_success s of
           None \<Rightarrow> (Inl (AllFailed (formatAttempts (pl_attempts s))), pl_now s)
         | Some (t, realElapsed) \<Rightarrow> second_request io timeout s (fst dialed) t realElapsed)"

definition jp_Run :: "probeIO \<Rightarrow> int \<Rightarrow> string \<Rightarrow> int \<Rightarrow> string \<Rightarrow> string \<Rightarrow> (probeError + string) \<times> gotime" where
  "jp_Run io socksPort target timeoutMs paramsFile fallbackTargets =
     (if socksPort \<le> 0 \<or> target = [] \<or> paramsFile = [] then (Inl ProbeFlags, 0)
      else case jp_bind io of
        Inl e \<Rightarrow> (Inl (ProbeBinding e), 0)
      | Inr bnd \<Rightarrow>
          let timeout = effective_timeout timeoutMs;
              dialed = probe_dial io bnd paramsFile timeout;
              targets = probeTargets (normalize_target target) (fallbacks_of fallbackTargets)
          in probe_finish io timeout (probe_targets_run io (''127.0.0.1:'' @ Itoa socksPort) timeout targets) dialed)"

section \<open>Time\<close>

text \<open>Requests and the dial honour the deadline of their context.\<close>

definition honours_deadlines :: "probeIO \<Rightarrow> bool" where
  "honours_deadlines io \<longleftrightarrow>
     (\<forall>n t d. 0 \<le> snd (jp_request io n t d) \<and> snd (jp_request io n t d) \<le> max 0 d)
     \<and> (\<forall>net ep d. 0 \<le> snd (jp_dial io net ep d) \<and> snd (jp_dial io net ep d) \<le> max 0 d)"

lemma durationFraction_floor: "0 \<le> d \<Longrightarrow> 0 \<le> f \<Longrightarrow> durationFraction d f = \<lfloor>of_int d * f\<rfloor>"
  by (simp add: durationFraction_def go_trunc_def)

lemma durationFraction_nonneg: "0 \<le> d \<Longrightarrow> 0 \<le> f \<Longrightarrow> 0 \<le> durationFraction d f"
  by (simp add: durationFraction_floor)

lemma durationFraction_le: "0 \<le> d \<Longrightarrow> 0 \<le> f \<Longrightarrow> of_int (durationFraction d f) \<le> of_int d * f"
  by (simp only: durationFraction_floor of_int_floor_le)

lemma durationFraction_mono:
  assumes "0 \<le> d" "0 \<le> f" "f \<le> g"
  shows "durationFraction d f \<le> durationFraction d g"
proof -
  have "of_int d * f \<le> of_int d * g" using assms by (simp add: mult_left_mono)
  then show ?thesis using assms by (simp add: durationFraction_floor floor_mono)
qed

lemma durationFraction_add:
  assumes "0 \<le> d" "0 \<le> f" "0 \<le> g"
  shows "durationFraction d f + durationFraction d g \<le> durationFraction d (f + g)"
proof -
  have "\<lfloor>of_int d * f\<rfloor> + \<lfloor>of_int d * g\<rfloor> \<le> \<lfloor>of_int d * f + of_int d * g\<rfloor>" by (rule le_floor_add)
  then show ?thesis using assms by (simp add: durationFraction_floor distrib_left)
qed

lemmas fraction_defs = primaryFraction_def fallbackPhaseEndFraction_def totalFraction_def dialFraction_def

lemma attempt_timeout_fits:
  assumes "attempt_timeout timeout n i deadline now = Some d" "i < n"
  shows "0 < d \<and> (i = 0 \<and> d = durationFraction timeout primaryFraction \<or> now + d \<le> deadline)"
proof -
  have "go_div (deadline - now) (int (n - i)) \<le> deadline - now" if "0 < deadline - now"
  proof -
    have "(deadline - now) div int (n - i) \<le> (deadline - now) div 1" using that assms(2) by (intro zdiv_mono2) auto
    then show ?thesis using that assms(2) by (simp add: go_div_nonneg)
  qed
  then show ?thesis using assms(1) by (auto simp: attempt_timeout_def Let_def split: if_splits option.splits)
qed

lemma targets_run_time:
  assumes "honours_deadlines io" "n = i + length rest" "0 \<le> pl_now s"
    and "i = 0 \<Longrightarrow> pl_now s + durationFraction timeout primaryFraction \<le> deadline" "pl_now s \<le> deadline"
  shows "0 \<le> pl_now (targets_run io addr timeout n deadline i rest s)
       \<and> pl_now (targets_run io addr timeout n deadline i rest s) \<le> deadline"
  using assms(2-5)
proof (induction rest arbitrary: i s)
  case (Cons c rest)
  show ?case
  proof (cases "attempt_timeout timeout n i deadline (pl_now s)")
    case None
    then show ?thesis using Cons.prems by simp
  next
    case (Some d)
    have d: "0 < d" "pl_now s + d \<le> deadline"
      using attempt_timeout_fits [OF Some] Cons.prems by auto
    show ?thesis
    proof (cases "jp_tunnel io addr")
      case tunnel: None
      obtain r spent where r: "jp_request io (pl_requests s) c d = (r, spent)" by fastforce
      have "0 \<le> spent \<and> spent \<le> max 0 d"
        using assms(1) r unfolding honours_deadlines_def by (metis snd_conv)
      then have "0 \<le> pl_now s + spent" "pl_now s + spent \<le> deadline" using d Cons.prems by auto
      then show ?thesis using Cons.prems Cons.IH Some tunnel r by (simp add: Let_def)
    qed (use Cons Some in simp)
  qed
qed simp

lemma second_budget_fits:
  assumes "0 < timeout" "now \<le> durationFraction timeout fallbackPhaseEndFraction"
  shows "second_budget timeout (durationFraction timeout totalFraction) now = durationFraction timeout totalFraction - now"
    and "now \<le> durationFraction timeout totalFraction"
proof -
  have "durationFraction timeout (60 / 100) + durationFraction timeout (1 / 10) \<le> durationFraction timeout (60 / 100 + 1 / 10)"
    using assms(1) by (intro durationFraction_add) auto
  also have "\<dots> \<le> durationFraction timeout (85 / 100)" using assms(1) by (intro durationFraction_mono) auto
  finally have le: "durationFraction timeout (60 / 100) + durationFraction timeout (1 / 10) \<le> durationFraction timeout (85 / 100)" .
  show "second_budget timeout (durationFraction timeout totalFraction) now = durationFraction timeout totalFraction - now"
    using le assms(2) by (simp add: second_budget_def Let_def fraction_defs)
  have "0 \<le> durationFraction timeout (1 / 10)" using assms(1) by (intro durationFraction_nonneg) auto
  then show "now \<le> durationFraction timeout totalFraction" using le assms(2) by (simp add: fraction_defs)
qed

lemma effective_timeout_pos: "0 < effective_timeout ms"
  by (simp add: effective_timeout_def Let_def second_def)

lemma second_request_time:
  assumes "honours_deadlines io" "0 < timeout" "0 \<le> pl_now s" "pl_now s \<le> durationFraction timeout fallbackPhaseEndFraction"
  shows "snd (second_request io timeout s tcp t rl) \<le> durationFraction timeout totalFraction"
    and "0 \<le> snd (second_request io timeout s tcp t rl)"
proof -
  let ?b = "second_budget timeout (durationFraction timeout totalFraction) (pl_now s)"
  obtain r spent where r: "jp_request io (pl_requests s) t ?b = (r, spent)" by fastforce
  have "0 \<le> spent \<and> spent \<le> max 0 ?b" using assms(1) r unfolding honours_deadlines_def by (metis snd_conv)
  then have "pl_now s + spent \<le> durationFraction timeout totalFraction" "0 \<le> pl_now s + spent"
    using second_budget_fits [OF assms(2,4)] assms(3) by auto
  then show "snd (second_request io timeout s tcp t rl) \<le> durationFraction timeout totalFraction"
    and "0 \<le> snd (second_request io timeout s tcp t rl)"
    using r by (cases r; simp add: second_request_def Let_def)+
qed

text \<open>C16. The command ends within eighty-five per cent of the job's timeout, whatever the targets answer and however
  many there are: when requests and the dial honour their deadlines, the first target, the fallbacks, the
  dial beside them and the second request together stay below the margin that keeps the executor
  from killing the job. The floor of the second request never exceeds it.\<close>

theorem jobprobe_within_budget:
  assumes "honours_deadlines io"
  shows "100 * snd (jp_Run io socksPort target timeoutMs paramsFile fallbackTargets) \<le> 85 * effective_timeout timeoutMs"
proof -
  define T where "T = effective_timeout timeoutMs"
  have T: "0 < T" using effective_timeout_pos by (simp add: T_def)
  have total: "100 * x \<le> 85 * T" if "x \<le> durationFraction T totalFraction" for x
  proof -
    have "of_int (durationFraction T totalFraction) \<le> of_int T * (85 / 100 :: rat)"
      using T durationFraction_le [of T totalFraction] by (simp add: fraction_defs)
    then have "of_int (100 * durationFraction T totalFraction) \<le> (of_int (85 * T) :: rat)" by simp
    then show ?thesis using that by (simp only: of_int_le_iff)
  qed
  define D where "D = durationFraction T fallbackPhaseEndFraction"
  have frac: "0 \<le> durationFraction T primaryFraction" "durationFraction T primaryFraction \<le> D"
    "durationFraction T dialFraction \<le> D" "0 \<le> durationFraction T dialFraction" "D \<le> durationFraction T totalFraction"
    unfolding D_def using T by (auto simp: fraction_defs intro!: durationFraction_mono durationFraction_nonneg)
  have loop: "0 \<le> pl_now (probe_targets_run io addr T targets) \<and> pl_now (probe_targets_run io addr T targets) \<le> D"
    for addr targets
    unfolding probe_targets_run_def D_def [symmetric] using frac by (intro targets_run_time [OF assms]) auto
  have dial: "0 \<le> snd (dialTCPDelay io b ep (durationFraction T dialFraction))
      \<and> snd (dialTCPDelay io b ep (durationFraction T dialFraction)) \<le> D" for b ep
  proof -
    let ?d = "jp_dial io (Network b (dialNetwork (jp_strategy io))) ep (durationFraction T dialFraction)"
    have "0 \<le> snd ?d \<and> snd ?d \<le> max 0 (durationFraction T dialFraction)"
      using assms unfolding honours_deadlines_def by blast
    then show ?thesis using frac(3,4) by (simp add: dialTCPDelay_def case_prod_beta)
  qed
  have finish: "snd (probe_finish io T s dd) \<le> durationFraction T totalFraction"
    if "0 \<le> pl_now s" "pl_now s \<le> D" "snd dd \<le> D" for s dd
  proof -
    have "0 \<le> pl_now (s\<lparr>pl_now := max (pl_now s) (snd dd)\<rparr>)"
      "pl_now (s\<lparr>pl_now := max (pl_now s) (snd dd)\<rparr>) \<le> durationFraction T fallbackPhaseEndFraction"
      using that by (auto simp: D_def)
    then show ?thesis
      using second_request_time(1) [OF assms T] that frac(5) by (auto simp: probe_finish_def Let_def split: option.splits)
  qed
  have dialed: "snd (probe_dial io b paramsFile T) \<le> D" for b
    using dial frac by (auto simp: probe_dial_def split: option.splits)
  have "0 \<le> durationFraction T totalFraction" using T by (intro durationFraction_nonneg) (auto simp: fraction_defs)
  then have "snd (jp_Run io socksPort target timeoutMs paramsFile fallbackTargets) \<le> durationFraction T totalFraction"
    using finish loop dialed unfolding jp_Run_def Let_def T_def [symmetric] by (auto split: sum.splits)
  then show ?thesis using total T_def by blast
qed

section \<open>Which target is reported\<close>

lemma targets_loop_eq:
  assumes "distinct targets"
  shows "distinct (targets_loop targets ts)" "set (targets_loop targets ts) = set targets \<union> (set ts - {[]})"
    "\<exists>more. targets_loop targets ts = targets @ more"
  using assms
proof (induction targets ts rule: targets_loop.induct)
  case (2 targets t ts)
  {
    case 1
    then show ?case using 2 by auto
  next
    case 2
    then show ?case using "2.IH" by auto
  next
    case 3
    then show ?case using "2.IH" by (cases "t = [] \<or> t \<in> set targets") auto
  }
qed auto

lemma probeTargets_ok:
  "distinct (probeTargets primary fallbacks)" "hd (probeTargets primary fallbacks) = primary"
  "set (probeTargets primary fallbacks) = insert primary (set fallbacks - {[]})"
  using targets_loop_eq [of "[primary]" fallbacks] by (auto simp: probeTargets_def)

definition tried_in_vain :: "probeIO \<Rightarrow> nat \<Rightarrow> string \<Rightarrow> bool" where
  "tried_in_vain io n t \<longleftrightarrow> (\<exists>d. 0 < d \<and> \<not> answers_ok (fst (jp_request io n t d)))"

lemma targets_run_success:
  assumes "pl_success (targets_run io addr timeout n deadline i rest s) = Some (t, real_elapsed)" "pl_success s = None" "i + length rest = n"
  shows "\<exists>k d code. k < length rest \<and> t = rest ! k \<and> (\<forall>j<k. tried_in_vain io (pl_requests s + j) (rest ! j))
     \<and> 0 < d \<and> fst (jp_request io (pl_requests s + k) t d) = ReqDone real_elapsed code \<and> 200 \<le> code \<and> code < 400
     \<and> pl_requests (targets_run io addr timeout n deadline i rest s) = pl_requests s + k + 1
     \<and> length (pl_attempts (targets_run io addr timeout n deadline i rest s)) = length (pl_attempts s) + k"
  using assms
proof (induction rest arbitrary: i s)
  case (Cons c rest)
  obtain d where d: "attempt_timeout timeout n i deadline (pl_now s) = Some d" using Cons.prems by (auto split: option.splits)
  then have pos: "0 < d" using attempt_timeout_fits [OF d] Cons.prems(3) by simp
  show ?case
  proof (cases "jp_tunnel io addr")
    case (Some e)
    have "pl_success (targets_run io addr timeout n deadline j ts s') = None"
      if "pl_success s' = None" for j ts s'
      using that Some by (induction ts arbitrary: j s') (auto split: option.splits)
    then show ?thesis using Cons.prems d Some by simp
  next
    case None
    obtain r spent where r: "jp_request io (pl_requests s) c d = (r, spent)" by fastforce
    show ?thesis
    proof (cases "answers_ok r")
      case True
      then obtain e code where "r = ReqDone e code" "200 \<le> code" "code < 400"
        by (auto simp: answers_ok_def split: reqOutcome.splits)
      then show ?thesis using Cons.prems d None r True pos
        by (intro exI [of _ 0] exI [of _ d] exI [of _ code]) (simp add: Let_def elapsed_of_def)
    next
      case False
      define s' where "s' = s\<lparr>pl_now := pl_now s + spent, pl_requests := pl_requests s + 1,
                              pl_attempts := pl_attempts s @ [(c, attempt_error r)]\<rparr>"
      have step: "targets_run io addr timeout n deadline i (c # rest) s = targets_run io addr timeout n deadline (i + 1) rest s'"
        using d None r False by (simp add: Let_def s'_def)
      have "pl_success s' = None" "i + 1 + length rest = n" using Cons.prems by (simp_all add: s'_def)
      from Cons.IH [OF Cons.prems(1) [unfolded step] this] obtain k d' code
        where k: "k < length rest" "t = rest ! k" "\<forall>j<k. tried_in_vain io (pl_requests s' + j) (rest ! j)" "0 < d'"
          "fst (jp_request io (pl_requests s' + k) t d') = ReqDone real_elapsed code" "200 \<le> code" "code < 400"
          "pl_requests (targets_run io addr timeout n deadline (i + 1) rest s') = pl_requests s' + k + 1"
          "length (pl_attempts (targets_run io addr timeout n deadline (i + 1) rest s')) = length (pl_attempts s') + k"
        by blast
      have vain: "tried_in_vain io (pl_requests s) c" using r False pos by (auto simp: tried_in_vain_def intro!: exI [of _ d])
      have "tried_in_vain io (pl_requests s + j) ((c # rest) ! j)" if "j < Suc k" for j
        using that k(3) vain by (cases j) (auto simp: s'_def)
      then show ?thesis unfolding step using k
        by (intro exI [of _ "Suc k"] exI [of _ d'] exI [of _ code]) (simp add: s'_def)
    qed
  qed
qed simp

definition reports_first :: "probeIO \<Rightarrow> string list \<Rightarrow> string \<Rightarrow> bool" where
  "reports_first io targets line \<longleftrightarrow>
     (\<exists>k d d2 first code again httpCode tcp. k < length targets
        \<and> (\<forall>j<k. tried_in_vain io j (targets ! j))
        \<and> fst (jp_request io k (targets ! k) d) = ReqDone first code \<and> 200 \<le> code \<and> code < 400
        \<and> fst (jp_request io (k + 1) (targets ! k) d2) = ReqDone again httpCode
        \<and> line = report_line io again httpCode first tcp (targets ! k) k)"

text \<open>C33. A successful probe reports the first target that works: the candidates are the probe's own target first,
  then the fallbacks without repetition; every candidate before the reported one was requested and failed
  or answered outside 2xx and 3xx, the reported one answered 2xx or 3xx and then a second request,
  and the line gives the two measurements, the target and the number of attempts. A failed probe's
  message has at most 603 characters.\<close>

theorem jobprobe_reports_first_answering:
  assumes "targets = probeTargets (normalize_target target) (fallbacks_of fallbackTargets)"
  shows "distinct targets \<and> hd targets = normalize_target target
    \<and> (case fst (jp_Run io socksPort target timeoutMs paramsFile fallbackTargets) of
         Inl e \<Rightarrow> (case e of AllFailed message \<Rightarrow> length message \<le> 603 | _ \<Rightarrow> True)
       | Inr line \<Rightarrow> reports_first io targets line)"
proof -
  define T where "T = effective_timeout timeoutMs"
  define s where "s = probe_targets_run io (''127.0.0.1:'' @ Itoa socksPort) T targets"
  have short: "length (formatAttempts as) \<le> 603" for as
    unfolding formatAttempts_def truncate_message_def by auto
  let ?goal = "\<lambda>x. case x of Inl e \<Rightarrow> (case e of AllFailed message \<Rightarrow> length message \<le> 603 | _ \<Rightarrow> True)
       | Inr line \<Rightarrow> reports_first io targets line"
  have second: "?goal (fst (second_request io T (s\<lparr>pl_now := now\<rparr>) tcp t first))" if suc: "pl_success s = Some (t, first)" for now tcp t first
  proof -
    obtain k d code where k: "k < length targets" "t = targets ! k" "\<forall>j<k. tried_in_vain io j (targets ! j)"
        "fst (jp_request io k t d) = ReqDone first code" "200 \<le> code" "code < 400" "pl_requests s = k + 1" "length (pl_attempts s) = k"
      using targets_run_success [OF suc [unfolded s_def probe_targets_run_def]] unfolding s_def probe_targets_run_def by force
    define d2 where "d2 = second_budget T (durationFraction T totalFraction) now"
    obtain r spent where r: "jp_request io (k + 1) t d2 = (r, spent)" by fastforce
    show ?thesis
    proof (cases r)
      case (ReqErr e)
      then show ?thesis using r k by (simp add: second_request_def d2_def [symmetric])
    next
      case (ReqDone again httpCode)
      have out: "fst (second_request io T (s\<lparr>pl_now := now\<rparr>) tcp t first) =
          (if jp_write io (report_line io again httpCode first tcp t k) then Inr (report_line io again httpCode first tcp t k) else Inl ProbeOutput)"
        using r k ReqDone by (simp add: second_request_def d2_def [symmetric] Let_def)
      have "fst (jp_request io (k + 1) t d2) = ReqDone again httpCode" using r ReqDone by simp
      then have "reports_first io targets (report_line io again httpCode first tcp t k)"
        using k(1-6) unfolding reports_first_def by blast
      then show ?thesis unfolding out by simp
    qed
  qed
  have finish: "?goal (fst (probe_finish io T s dd))" for dd
  proof (cases "pl_success s")
    case None
    then show ?thesis using short by (simp add: probe_finish_def)
  next
    case (Some a)
    then show ?thesis using second [of "fst a" "snd a"] by (simp add: probe_finish_def case_prod_beta)
  qed
  have "distinct targets" "hd targets = normalize_target target" using probeTargets_ok assms by auto
  then show ?thesis
    using finish unfolding jp_Run_def Let_def assms [symmetric] T_def [symmetric] s_def [symmetric]
    by (cases "jp_bind io") simp_all
qed

definition demo_io :: probeIO where
  "demo_io = \<lparr>jp_read = (\<lambda>_. None), jp_parse = (\<lambda>_. None), jp_strategy = [], jp_bind = Inr \<lparr>SourceIP = None, Interface = []\<rparr>,
     jp_dial = (\<lambda>_ _ d. (False, max 0 d)), jp_tunnel = (\<lambda>_. None),
     jp_request = (\<lambda>n t d. if n = 0 then (ReqDone 3 403, min 3 (max 0 d)) else (ReqDone 2 204, min 2 (max 0 d))),
     jp_fixed3 = (\<lambda>_. ''0.000''), jp_quote = (\<lambda>s. s), jp_write = (\<lambda>_. True)\<rparr>"

theorem jobprobe_within_budget_witness:
  "100 * snd (jp_Run demo_io 1 ''a'' 0 ''p'' ''b'') \<le> 85 * effective_timeout 0"
proof -
  have "honours_deadlines demo_io" by (auto simp: honours_deadlines_def demo_io_def)
  then show ?thesis by (rule jobprobe_within_budget)
qed

theorem jobprobe_reports_first_answering_witness:
  "distinct (probeTargets (normalize_target ''a'') (fallbacks_of ''b, c,b''))
   \<and> (case fst (jp_Run demo_io 1 ''a'' 0 ''p'' ''b, c,b'') of
        Inl e \<Rightarrow> False
      | Inr line \<Rightarrow> reports_first demo_io (probeTargets (normalize_target ''a'') (fallbacks_of ''b, c,b'')) line)"
proof -
  have "case fst (jp_Run demo_io 1 ''a'' 0 ''p'' ''b, c,b'') of Inl e \<Rightarrow> False | Inr line \<Rightarrow> True" by code_simp
  then show ?thesis using jobprobe_reports_first_answering [OF refl, of "''a''" "''b, c,b''" demo_io 1 0 "''p''"]
    by (auto split: sum.splits)
qed

end
