(* ===== verification/Registry.thy ===== *)
theory Registry
  imports Pool_Guarantees
begin

text \<open>
  The set of checkers of a process (\<^verbatim>\<open>internal/registry/registry.go\<close>): the modules embedded in the binary, the
  modules of the operator's directory on top of them, and what the agent reports and uploads of each. A
  registry is a map from names to entries. The embedded files, the operator's directory, YAML, regular
  expressions and SHA-256 are arguments.
\<close>

section \<open>Entries\<close>

datatype moduleChecker = CommandChecker Module | PooledChecker Module PoolSpec PoolLimits pool

definition NewCheckerWithLimits :: "Module \<Rightarrow> PoolLimits \<Rightarrow> moduleChecker" where
  "NewCheckerWithLimits m limits =
     (case m_Pool m of
        Some spec \<Rightarrow> PooledChecker m spec limits newPoolChecker
      | None \<Rightarrow> CommandChecker m)"

record regEntry =
  e_checker :: moduleChecker
  e_rawYAML :: string
  e_fileHash :: string
  e_manifest :: Manifest
  e_version :: string
  e_url :: string

type_synonym registry = "(string \<times> regEntry) list"

definition entry_of :: "PoolLimits \<Rightarrow> Module \<Rightarrow> regEntry" where
  "entry_of limits m =
     \<lparr>e_checker = NewCheckerWithLimits m limits, e_rawYAML = m_RawYAML m, e_fileHash = m_FileHash m,
      e_manifest = ToManifest m, e_version = m_Version m, e_url = m_URL m\<rparr>"

definition addWithLimits :: "PoolLimits \<Rightarrow> Module \<Rightarrow> registry \<Rightarrow> registry" where
  "addWithLimits limits m r = AList.update (m_Name m) (entry_of limits m) r"

section \<open>Loading\<close>

definition loadFSWithLimits :: "loadEnv \<Rightarrow> PoolLimits \<Rightarrow> fsEntry list option \<Rightarrow> registry \<Rightarrow> moduleError + registry" where
  "loadFSWithLimits env limits fsys r =
     (case LoadFS env fsys of
        Inl e \<Rightarrow> Inl e
      | Inr ms \<Rightarrow> Inr (fold (addWithLimits limits) ms r))"

definition DefaultWithLimits :: "loadEnv \<Rightarrow> fsEntry list option \<Rightarrow> PoolLimits \<Rightarrow> moduleError + registry" where
  "DefaultWithLimits env files limits = loadFSWithLimits env limits files []"

definition LoadModulesWithLimits ::
  "loadEnv \<Rightarrow> string \<Rightarrow> statResult \<Rightarrow> string \<Rightarrow> PoolLimits \<Rightarrow> registry \<Rightarrow> moduleError + registry" where
  "LoadModulesWithLimits env dir stat toolsDir limits r =
     (if dir = [] then Inr r
      else case LoadDir env stat of
        Inl e \<Rightarrow> Inl e
      | Inr ms \<Rightarrow> Inr (fold (\<lambda>m. addWithLimits limits (ResolveDirPlaceholders dir toolsDir m)) ms r))"

section \<open>Queries\<close>

definition reg_Get :: "registry \<Rightarrow> string \<Rightarrow> moduleChecker option" where
  "reg_Get r name = map_option e_checker (map_of r name)"

definition ProberHashes :: "registry \<Rightarrow> string list" where
  "ProberHashes r = map (\<lambda>(name, e). name @ '':'' @ e_fileHash e) r"

definition RawYAML :: "registry \<Rightarrow> string \<Rightarrow> (string \<times> string \<times> Manifest) option" where
  "RawYAML r proberID = map_option (\<lambda>e. (e_rawYAML e, e_fileHash e, e_manifest e)) (map_of r proberID)"

definition non_empty :: "string \<Rightarrow> string option" where
  "non_empty s = (if s = [] then None else Some s)"

definition ModuleVersions :: "registry \<Rightarrow> (string \<times> ModuleVersion) list" where
  "ModuleVersions r =
     map (\<lambda>(name, e). (name, \<lparr>mv_Version = non_empty (e_version e), mv_URL = non_empty (e_url e)\<rparr>))
       (filter (\<lambda>(_, e). \<not> (e_version e = [] \<and> e_url e = [])) r)"

text \<open>Closing every pooled checker; \<open>None\<close> is a panic of one of them.\<close>

definition close_entry :: "poolEnv \<Rightarrow> regEntry \<Rightarrow> regEntry option" where
  "close_entry penv e =
     (case e_checker e of
        CommandChecker _ \<Rightarrow> Some e
      | PooledChecker m spec limits p \<Rightarrow>
          map_option (\<lambda>p. e\<lparr>e_checker := PooledChecker m spec limits p\<rparr>) (Close penv spec p))"

fun Shutdown :: "poolEnv \<Rightarrow> registry \<Rightarrow> registry option" where
  "Shutdown penv [] = Some []"
| "Shutdown penv ((name, e) # r) =
     (case close_entry penv e of
        None \<Rightarrow> None
      | Some e \<Rightarrow> map_option ((#) (name, e)) (Shutdown penv r))"

section \<open>What loading establishes\<close>

lemma ResolveDirPlaceholders_sel [simp]:
  "m_Name (ResolveDirPlaceholders d t m) = m_Name m" "m_RawYAML (ResolveDirPlaceholders d t m) = m_RawYAML m"
  "m_FileHash (ResolveDirPlaceholders d t m) = m_FileHash m" "ToManifest (ResolveDirPlaceholders d t m) = ToManifest m"
  "m_Version (ResolveDirPlaceholders d t m) = m_Version m" "m_URL (ResolveDirPlaceholders d t m) = m_URL m"
  by (simp_all add: ResolveDirPlaceholders_def Let_def ToManifest_def)

lemma map_of_addWithLimits: "map_of (addWithLimits limits m r) = (map_of r)(m_Name m \<mapsto> entry_of limits m)"
  by (simp add: addWithLimits_def)

lemma distinct_addWithLimits: "distinct (map fst r) \<Longrightarrow> distinct (map fst (addWithLimits limits m r))"
  by (simp add: addWithLimits_def distinct_update)

lemma map_of_fold_add:
  assumes "distinct (map m_Name ms)" "\<And>m. m_Name (f m) = m_Name m"
  shows "map_of (fold (\<lambda>m. addWithLimits limits (f m)) ms r) name =
     (case List.find (\<lambda>m. m_Name m = name) ms of
        Some m \<Rightarrow> Some (entry_of limits (f m)) | None \<Rightarrow> map_of r name)"
  using assms(1)
proof (induction ms arbitrary: r)
  case (Cons m ms)
  have "m_Name k \<noteq> m_Name m" if "k \<in> set ms" for k
    using Cons.prems that by (metis distinct.simps(2) image_eqI list.set_map list.simps(9))
  then have "List.find (\<lambda>k. m_Name k = m_Name m) ms = None" by (simp add: find_None_iff)
  then show ?case using Cons by (auto simp: map_of_addWithLimits assms(2) split: option.splits)
qed simp

lemma distinct_fold_add:
  "distinct (map fst r) \<Longrightarrow> distinct (map fst (fold (\<lambda>m. addWithLimits limits (f m)) ms r))"
  by (induction ms arbitrary: r) (simp_all add: distinct_addWithLimits)

lemma LoadFS_modules:
  assumes "LoadFS env fsys = Inr ms"
  shows "distinct (map m_Name ms)" and "m \<in> set ms \<Longrightarrow> \<exists>data. ParseBytes env data = Inr m"
proof -
  obtain entries where e: "fsys = Some entries" using assms by (auto simp: LoadFS_def split: option.splits)
  then have l: "map (loadFile env entries) (yaml_files entries) = map Inr ms \<and> distinct (map m_Name ms)"
    using assms LoadFS_Inr by blast
  then show "distinct (map m_Name ms)" by blast
  show "\<exists>data. ParseBytes env data = Inr m" if "m \<in> set ms"
  proof -
    have "Inr m \<in> set (map (loadFile env entries) (yaml_files entries))" using l that by simp
    then obtain f where "loadFile env entries f = Inr m" by (auto simp del: map_eq_conv)
    then show ?thesis by (auto simp: loadFile_def split: option.splits prod.splits)
  qed
qed

lemma LoadDir_modules:
  assumes "LoadDir env stat = Inr ms"
  shows "distinct (map m_Name ms)" and "m \<in> set ms \<Longrightarrow> \<exists>data. ParseBytes env data = Inr m"
  using assms LoadFS_modules by (auto simp: LoadDir_def split: statResult.splits)

lemma ParseBytes_self:
  assumes "ParseBytes env data = Inr m"
  shows "ParseBytes env (m_RawYAML m) = Inr m" "m_FileHash m = le_sha256hex env (m_RawYAML m)"
proof -
  obtain m0 where "m = (with_pattern (le_compile env) m0)\<lparr>m_RawYAML := data, m_FileHash := le_sha256hex env data\<rparr>"
    using assms unfolding ParseBytes_Inr by auto
  then have "m_RawYAML m = data" "m_FileHash m = le_sha256hex env data" by simp_all
  then show "ParseBytes env (m_RawYAML m) = Inr m" "m_FileHash m = le_sha256hex env (m_RawYAML m)" using assms by simp_all
qed

text \<open>The invariant of a loaded registry: an entry stands under the name of the module its YAML defines, with the
  hash and the manifest of that YAML, and its checker runs that module, perhaps with resolved paths.\<close>

definition reg_ok :: "loadEnv \<Rightarrow> registry \<Rightarrow> bool" where
  "reg_ok env r \<longleftrightarrow> distinct (map fst r) \<and>
     (\<forall>name e. map_of r name = Some e \<longrightarrow>
        (\<exists>m f limits. ParseBytes env (e_rawYAML e) = Inr m \<and> m_Name m = name
           \<and> e_fileHash e = le_sha256hex env (e_rawYAML e) \<and> e_manifest e = ToManifest m
           \<and> f \<in> {m} \<union> {ResolveDirPlaceholders d t m | d t. True} \<and> e_checker e = NewCheckerWithLimits f limits))"

lemma reg_ok_fold:
  assumes "reg_ok env r" "distinct (map m_Name ms)" "\<And>m. m \<in> set ms \<Longrightarrow> \<exists>data. ParseBytes env data = Inr m"
    and "f = (\<lambda>m. m) \<or> (\<exists>d t. f = ResolveDirPlaceholders d t)"
  shows "reg_ok env (fold (\<lambda>m. addWithLimits limits (f m)) ms r)"
proof -
  have f: "m_Name (f m) = m_Name m" "m_RawYAML (f m) = m_RawYAML m" "m_FileHash (f m) = m_FileHash m"
      "ToManifest (f m) = ToManifest m" "f m \<in> {m} \<union> {ResolveDirPlaceholders d t m | d t. True}" for m
    using assms(4) by auto
  have "\<exists>m g l. ParseBytes env (e_rawYAML e) = Inr m \<and> m_Name m = name
           \<and> e_fileHash e = le_sha256hex env (e_rawYAML e) \<and> e_manifest e = ToManifest m
           \<and> g \<in> {m} \<union> {ResolveDirPlaceholders d t m | d t. True} \<and> e_checker e = NewCheckerWithLimits g l"
    if e: "map_of (fold (\<lambda>m. addWithLimits limits (f m)) ms r) name = Some e" for name e
  proof (cases "List.find (\<lambda>m. m_Name m = name) ms")
    case None
    then have "map_of r name = Some e" using e map_of_fold_add [OF assms(2) f(1)] by simp
    then show ?thesis using assms(1) unfolding reg_ok_def by blast
  next
    case (Some m)
    then have m: "m \<in> set ms" "m_Name m = name" by (auto simp: find_Some_iff)
    have "e = entry_of limits (f m)" using e Some map_of_fold_add [OF assms(2) f(1)] by simp
    then have sel: "e_rawYAML e = m_RawYAML m" "e_fileHash e = m_FileHash m" "e_manifest e = ToManifest m"
        "e_checker e = NewCheckerWithLimits (f m) limits"
      by (simp_all add: entry_of_def f)
    obtain data where "ParseBytes env data = Inr m" using assms(3) m by blast
    from ParseBytes_self [OF this] show ?thesis unfolding sel using m(2) f(5) by blast
  qed
  then show ?thesis using assms(1) distinct_fold_add unfolding reg_ok_def by blast
qed

lemma DefaultWithLimits_ok:
  assumes "DefaultWithLimits env files limits = Inr r"
  shows "reg_ok env r"
proof -
  obtain ms where ms: "LoadFS env files = Inr ms" "r = fold (\<lambda>m. addWithLimits limits m) ms []"
    using assms by (auto simp: DefaultWithLimits_def loadFSWithLimits_def split: sum.splits)
  have "reg_ok env []" by (simp add: reg_ok_def)
  from reg_ok_fold [OF this LoadFS_modules [OF ms(1)], of "\<lambda>m. m" limits] show ?thesis unfolding ms(2) by blast
qed

lemma LoadModulesWithLimits_ok:
  assumes "reg_ok env r" "LoadModulesWithLimits env dir stat toolsDir limits r = Inr r'"
  shows "reg_ok env r'"
proof (cases "dir = []")
  case False
  obtain ms where ms: "LoadDir env stat = Inr ms"
      "r' = fold (\<lambda>m. addWithLimits limits (ResolveDirPlaceholders dir toolsDir m)) ms r"
    using assms(2) False by (auto simp: LoadModulesWithLimits_def split: sum.splits)
  from reg_ok_fold [OF assms(1) LoadDir_modules [OF ms(1)], of "ResolveDirPlaceholders dir toolsDir" limits]
  show ?thesis unfolding ms(2) by blast
qed (use assms in \<open>simp add: LoadModulesWithLimits_def\<close>)

text \<open>C17. What a node reports of its modules is what it uploads: after loading the embedded modules and the
  operator's directory, each name is reported once, with the SHA-256 of exactly the YAML that
  would be uploaded for it, which parses to a module of that name and gives the uploaded manifest, and the
  checker under the name runs that module. A module of the directory replaces the embedded one of
  its name, and every other embedded module stays.\<close>

theorem registry_reports_what_it_uploads:
  assumes "DefaultWithLimits env files limits = Inr r0" and "dir \<noteq> []" "LoadDir env stat = Inr ms"
  shows "\<exists>r. LoadModulesWithLimits env dir stat toolsDir limits r0 = Inr r
     \<and> distinct (map fst r) \<and> ProberHashes r = map (\<lambda>(name, e). name @ '':'' @ le_sha256hex env (e_rawYAML e)) r
     \<and> (\<forall>name. map_of r name = (case List.find (\<lambda>m. m_Name m = name) ms of
                   Some m \<Rightarrow> Some (entry_of limits (ResolveDirPlaceholders dir toolsDir m)) | None \<Rightarrow> map_of r0 name))
     \<and> (\<forall>name yaml fileHash manifest. RawYAML r name = Some (yaml, fileHash, manifest) \<longrightarrow>
          fileHash = le_sha256hex env yaml \<and>
          (\<exists>m. ParseBytes env yaml = Inr m \<and> m_Name m = name \<and> manifest = ToManifest m))"
proof -
  define r where "r = fold (\<lambda>m. addWithLimits limits (ResolveDirPlaceholders dir toolsDir m)) ms r0"
  have load: "LoadModulesWithLimits env dir stat toolsDir limits r0 = Inr r"
    using assms(2,3) by (simp add: LoadModulesWithLimits_def r_def)
  have ok: "reg_ok env r" using LoadModulesWithLimits_ok [OF DefaultWithLimits_ok [OF assms(1)] load] .
  have hash: "e_fileHash e = le_sha256hex env (e_rawYAML e)" if "(name, e) \<in> set r" for name e
    using ok that unfolding reg_ok_def by (metis map_of_is_SomeI)
  have "ProberHashes r = map (\<lambda>(name, e). name @ '':'' @ le_sha256hex env (e_rawYAML e)) r"
    unfolding ProberHashes_def by (rule map_cong) (auto simp: hash)
  moreover have "map_of r name = (case List.find (\<lambda>m. m_Name m = name) ms of
      Some m \<Rightarrow> Some (entry_of limits (ResolveDirPlaceholders dir toolsDir m)) | None \<Rightarrow> map_of r0 name)" for name
    unfolding r_def by (rule map_of_fold_add [OF LoadDir_modules(1) [OF assms(3)]]) simp
  moreover have "fileHash = le_sha256hex env yaml \<and>
      (\<exists>m. ParseBytes env yaml = Inr m \<and> m_Name m = name \<and> manifest = ToManifest m)"
    if raw: "RawYAML r name = Some (yaml, fileHash, manifest)" for name yaml fileHash manifest
  proof -
    obtain e where "map_of r name = Some e" "yaml = e_rawYAML e" "fileHash = e_fileHash e" "manifest = e_manifest e"
      using raw by (cases "map_of r name") (simp_all add: RawYAML_def)
    then show ?thesis using ok unfolding reg_ok_def by metis
  qed
  moreover have "distinct (map fst r)" using ok by (simp add: reg_ok_def)
  ultimately show ?thesis using load by blast
qed

definition demo_loadEnv :: loadEnv where
  "demo_loadEnv = \<lparr>le_yaml = (\<lambda>s. if s = ''a'' then Some (demo_module None)
                               else if s = ''b'' then Some ((demo_module None)\<lparr>m_Version := ''2''\<rparr>) else None),
     le_compile = (\<lambda>_. None), le_sha256hex = (\<lambda>s. ''h'' @ s)\<rparr>"

definition demo_fixtures :: "fsEntry list" where
  "demo_fixtures = [(''x.yaml'', False, Some ''a''), (''README'', False, None)]"

theorem registry_reports_what_it_uploads_witness:
  "\<exists>r0 ms r. DefaultWithLimits demo_loadEnv (Some demo_fixtures) demo_limits = Inr r0
     \<and> LoadDir demo_loadEnv (Exists (Some [(''y.yml'', False, Some ''b'')])) = Inr ms
     \<and> LoadModulesWithLimits demo_loadEnv ''/m'' (Exists (Some [(''y.yml'', False, Some ''b'')])) ''/t'' demo_limits r0 = Inr r
     \<and> distinct (map fst r)"
proof -
  let ?st = "Exists (Some [(''y.yml'', False, Some ''b'')])"
  have "case DefaultWithLimits demo_loadEnv (Some demo_fixtures) demo_limits of Inl _ \<Rightarrow> False | Inr _ \<Rightarrow> True" by code_simp
  then obtain r0 where r0: "DefaultWithLimits demo_loadEnv (Some demo_fixtures) demo_limits = Inr r0"
    by (auto split: sum.splits)
  have "case LoadDir demo_loadEnv ?st of Inl _ \<Rightarrow> False | Inr _ \<Rightarrow> True" by code_simp
  then obtain ms where ms: "LoadDir demo_loadEnv ?st = Inr ms" by (auto split: sum.splits)
  from registry_reports_what_it_uploads [OF r0 _ ms, of "''/m''" "''/t''"]
  obtain r where "LoadModulesWithLimits demo_loadEnv ''/m'' ?st ''/t'' demo_limits r0 = Inr r" "distinct (map fst r)"
    by (metis list.distinct(1))
  then show ?thesis using r0 ms by blast
qed

section \<open>Shutting down\<close>

definition idle_entry :: "regEntry \<Rightarrow> bool" where
  "idle_entry e = (case e_checker e of
     CommandChecker _ \<Rightarrow> True | PooledChecker m spec limits p \<Rightarrow> pooled m spec \<and> pool_idle p)"

definition running_of :: "regEntry \<Rightarrow> nat list" where
  "running_of e = (case e_checker e of CommandChecker _ \<Rightarrow> [] | PooledChecker m spec limits p \<Rightarrow> pc_running p)"

lemma close_entry_idle:
  assumes "idle_entry e"
  shows "\<exists>e'. close_entry penv e = Some e' \<and> running_of e' = []"
proof (cases "e_checker e")
  case (PooledChecker m spec limits p)
  then have "pooled m spec" "pool_idle p" using assms by (simp_all add: idle_entry_def)
  from Close_idle [OF this, of penv] PooledChecker show ?thesis by (auto simp: close_entry_def running_of_def)
qed (simp add: close_entry_def running_of_def)

text \<open>Shutting down between ticks stops every engine of every pooled module.\<close>

lemma Shutdown_stops_all:
  assumes "\<forall>(name, e) \<in> set r. idle_entry e"
  shows "\<exists>r'. Shutdown penv r = Some r' \<and> map fst r' = map fst r \<and> (\<forall>(name, e) \<in> set r'. running_of e = [])"
  using assms
proof (induction r)
  case (Cons x r)
  obtain name e where x: "x = (name, e)" by (cases x)
  then obtain e' where "close_entry penv e = Some e'" "running_of e' = []" using Cons.prems close_entry_idle by fastforce
  moreover obtain r' where "Shutdown penv r = Some r'" "map fst r' = map fst r" "\<forall>(name, e) \<in> set r'. running_of e = []"
    using Cons by auto
  ultimately show ?case using x by auto
qed simp

end
