(* ===== verification/Base64.thy ===== *)
theory Base64
  imports Prelude
begin

text \<open>
  Go's \<^verbatim>\<open>encoding/base64\<close> in the four encodings the fetch check tries: standard and URL alphabet, padded
  and unpadded. Decoding inverts encoding, and encodings that accept the same text agree on it.
\<close>

section \<open>Codec\<close>

record b64_enc =
  en_url :: bool
  en_padded :: bool

definition b64_value :: "bool \<Rightarrow> char \<Rightarrow> nat option" where
  "b64_value url c =
     (let n = of_char c :: nat in
      if 65 \<le> n \<and> n \<le> 90 then Some (n - 65)
      else if 97 \<le> n \<and> n \<le> 122 then Some (n - 71)
      else if 48 \<le> n \<and> n \<le> 57 then Some (n + 4)
      else if n = (if url then 45 else 43) then Some 62
      else if n = (if url then 95 else 47) then Some 63
      else None)"

definition b64_char :: "bool \<Rightarrow> nat \<Rightarrow> char" where
  "b64_char url v =
     char_of (if v < 26 then v + 65 else if v < 52 then v + 71 else if v < 62 then v - 4
              else if v = 62 then (if url then 45 else 43) else (if url then 95 else 47))"

definition pad :: char where "pad = CHR ''=''"

text \<open>The bytes of a group of six-bit values; the bits that do not fill a byte are dropped.\<close>

definition bytes3 :: "nat \<Rightarrow> nat \<Rightarrow> nat \<Rightarrow> nat \<Rightarrow> string" where
  "bytes3 a b c d = [char_of (a * 4 + b div 16), char_of ((b mod 16) * 16 + c div 4), char_of ((c mod 4) * 64 + d)]"

definition bytes2 :: "nat \<Rightarrow> nat \<Rightarrow> nat \<Rightarrow> string" where
  "bytes2 a b c = [char_of (a * 4 + b div 16), char_of ((b mod 16) * 16 + c div 4)]"

definition bytes1 :: "nat \<Rightarrow> nat \<Rightarrow> string" where
  "bytes1 a b = [char_of (a * 4 + b div 16)]"

fun b64_tail :: "b64_enc \<Rightarrow> string \<Rightarrow> string option" where
  "b64_tail e [a, b, c] =
     (if en_padded e then None
      else (case (b64_value (en_url e) a, b64_value (en_url e) b, b64_value (en_url e) c) of
              (Some x, Some y, Some z) \<Rightarrow> Some (bytes2 x y z) | _ \<Rightarrow> None))"
| "b64_tail e [a, b] =
     (if en_padded e then None
      else (case (b64_value (en_url e) a, b64_value (en_url e) b) of
              (Some x, Some y) \<Rightarrow> Some (bytes1 x y) | _ \<Rightarrow> None))"
| "b64_tail e [] = Some []"
| "b64_tail e _ = None"

definition b64_padded :: "b64_enc \<Rightarrow> char \<Rightarrow> char \<Rightarrow> char \<Rightarrow> char \<Rightarrow> string option" where
  "b64_padded e a b c d =
     (if \<not> en_padded e \<or> d \<noteq> pad then None
      else (case (b64_value (en_url e) a, b64_value (en_url e) b) of
              (Some x, Some y) \<Rightarrow>
                if c = pad then Some (bytes1 x y)
                else (case b64_value (en_url e) c of None \<Rightarrow> None | Some z \<Rightarrow> Some (bytes2 x y z))
            | _ \<Rightarrow> None))"

fun b64_groups :: "b64_enc \<Rightarrow> string \<Rightarrow> string option" where
  "b64_groups e (a # b # c # d # rest) =
     (case (b64_value (en_url e) a, b64_value (en_url e) b, b64_value (en_url e) c, b64_value (en_url e) d) of
        (Some x, Some y, Some z, Some v) \<Rightarrow> map_option ((@) (bytes3 x y z v)) (b64_groups e rest)
      | _ \<Rightarrow> if rest = [] then b64_padded e a b c d else None)"
| "b64_groups e s = b64_tail e s"

text \<open>\<^verbatim>\<open>DecodeString\<close> skips line ends.\<close>

definition DecodeString :: "b64_enc \<Rightarrow> string \<Rightarrow> string option" where
  "DecodeString e s = b64_groups e (filter (\<lambda>c. c \<noteq> CHR 0x0A \<and> c \<noteq> CHR 0x0D) s)"

fun EncodeToString :: "b64_enc \<Rightarrow> string \<Rightarrow> string" where
  "EncodeToString e (p # q # r # rest) =
     (let a = of_char p; b = of_char q; c = of_char r; ch = b64_char (en_url e) in
      [ch (a div 4), ch ((a mod 4) * 16 + b div 16), ch ((b mod 16) * 4 + c div 64), ch (c mod 64)] @ EncodeToString e rest)"
| "EncodeToString e [p, q] =
     (let a = of_char p; b = of_char q; ch = b64_char (en_url e) in
      [ch (a div 4), ch ((a mod 4) * 16 + b div 16), ch ((b mod 16) * 4)] @ (if en_padded e then [pad] else []))"
| "EncodeToString e [p] =
     (let a = of_char p; ch = b64_char (en_url e) in
      [ch (a div 4), ch ((a mod 4) * 16)] @ (if en_padded e then [pad, pad] else []))"
| "EncodeToString e [] = []"

section \<open>Round trip\<close>

lemma b64_char_code: "v < 64 \<Longrightarrow> of_char (b64_char url v) =
    (if v < 26 then v + 65 else if v < 52 then v + 71 else if v < 62 then v - 4
     else if v = 62 then (if url then 45 else 43) else (if url then 95 else 47 :: nat))"
  by (simp add: b64_char_def)

lemma b64_value_char [simp]: "v < 64 \<Longrightarrow> b64_value url (b64_char url v) = Some v"
  by (auto simp: b64_value_def b64_char_code Let_def)

lemma b64_value_bound: "b64_value url c = Some v \<Longrightarrow> v < 64"
  by (auto simp: b64_value_def Let_def split: if_splits)

lemma b64_value_pad [simp]: "b64_value url pad = None"
  by (simp add: b64_value_def pad_def Let_def)

lemma b64_char_not_pad [simp]: "v < 64 \<Longrightarrow> b64_char url v \<noteq> pad"
  by (metis b64_value_char b64_value_pad option.distinct(1))

lemma of_char_lt: "(of_char (c :: char) :: nat) < 256"
  by simp

lemma byte_nibbles: "b < 256 \<Longrightarrow> b div 16 < (16 :: nat)" "c < 256 \<Longrightarrow> c div 64 < (4 :: nat)" "a < 256 \<Longrightarrow> a div 4 < (64 :: nat)"
  by (simp_all add: div_less_iff_less_mult)

lemma bits1:
  assumes "b < 256"
  shows "(a div 4) * 4 + ((a mod 4) * 16 + b div 16) div 16 = (a :: nat)"
proof -
  have "((a mod 4) * 16 + b div 16) div 16 = a mod 4"
    using byte_nibbles(1) [OF assms] by simp
  then show ?thesis by simp
qed

lemma bits2:
  assumes "b < 256" "c < 256"
  shows "(((a mod 4) * 16 + b div 16) mod 16) * 16 + ((b mod 16) * 4 + c div 64) div 4 = (b :: nat)"
proof -
  have "((a mod 4) * 16 + b div 16) mod 16 = b div 16" using byte_nibbles(1) [OF assms(1)] by simp
  moreover have "((b mod 16) * 4 + c div 64) div 4 = b mod 16"
    using byte_nibbles(2) [OF assms(2)] by simp
  ultimately show ?thesis by simp
qed

lemma bits3:
  assumes "c < 256"
  shows "(((b mod 16) * 4 + c div 64) mod 4) * 64 + c mod 64 = (c :: nat)"
proof -
  have "((b mod 16) * 4 + c div 64) mod 4 = c div 64" using byte_nibbles(2) [OF assms] by simp
  then show ?thesis by simp
qed

lemma digit_bounds:
  fixes a b c :: nat
  shows "b < 256 \<Longrightarrow> (a mod 4) * 16 + b div 16 < 64" "c < 256 \<Longrightarrow> (b mod 16) * 4 + c div 64 < 64"
    "c mod 64 < 64" "(a mod 4) * 16 < 64" "(b mod 16) * 4 < 64"
proof -
  have m: "a mod 4 < 4" "b mod 16 < 16" by simp_all
  show "b < 256 \<Longrightarrow> (a mod 4) * 16 + b div 16 < 64" using m byte_nibbles(1) [of b] by linarith
  show "c < 256 \<Longrightarrow> (b mod 16) * 4 + c div 64 < 64" using m byte_nibbles(2) [of c] by linarith
  show "c mod 64 < 64" "(a mod 4) * 16 < 64" "(b mod 16) * 4 < 64" using m by linarith+
qed

lemma b64_groups_encode: "b64_groups e (EncodeToString e s) = Some s"
proof (induction e s rule: EncodeToString.induct)
  case (1 e p q r rest)
  have b: "(of_char p :: nat) < 256" "(of_char q :: nat) < 256" "(of_char r :: nat) < 256" by (rule of_char_lt)+
  have "bytes3 (of_char p div 4) (of_char p mod 4 * 16 + of_char q div 16) (of_char q mod 16 * 4 + of_char r div 64) (of_char r mod 64)
      = [p, q, r]"
    unfolding bytes3_def bits1 [OF b(2)] bits2 [OF b(2,3)] bits3 [OF b(3)] by simp
  then show ?case using 1 digit_bounds byte_nibbles b by (simp add: Let_def)
next
  case (2 e p q)
  have b: "(of_char p :: nat) < 256" "(of_char q :: nat) < 256" by (rule of_char_lt)+
  have "bytes2 (of_char p div 4) (of_char p mod 4 * 16 + of_char q div 16) (of_char q mod 16 * 4) = [p, q]"
    using bits1 [OF b(2), of "of_char p"] bits2 [OF b(2), of 0 "of_char p"] unfolding bytes2_def by simp
  then show ?case using digit_bounds byte_nibbles b by (simp add: Let_def b64_padded_def)
next
  case (3 e p)
  have b: "(of_char p :: nat) < 256" by (rule of_char_lt)
  have "bytes1 (of_char p div 4) (of_char p mod 4 * 16) = [p]"
    using bits1 [of 0 "of_char p"] unfolding bytes1_def by simp
  then show ?case using digit_bounds byte_nibbles b by (simp add: Let_def b64_padded_def)
qed simp

text \<open>Two encodings that both accept a text read the same bytes.\<close>

lemma b64_value_agree: "b64_value u c = Some x \<Longrightarrow> b64_value v c = Some y \<Longrightarrow> x = y"
  by (cases u; cases v) (auto simp: b64_value_def Let_def split: if_splits)

lemma b64_tail_agree:
  assumes "b64_tail e s = Some x" "b64_tail f s = Some y"
  shows "x = y"
  using assms
  by (induction e s rule: b64_tail.induct) (auto split: if_splits option.splits dest: b64_value_agree)

lemma b64_padded_agree:
  assumes "b64_padded e a b c d = Some x" "b64_padded f a b c d = Some y"
  shows "x = y"
  using assms by (auto simp: b64_padded_def split: if_splits option.splits dest: b64_value_agree)

lemma b64_padded_pad: "b64_padded e a b c d = Some x \<Longrightarrow> d = pad"
  by (simp add: b64_padded_def split: if_splits)

text \<open>How a group of four is read: four digits, or the padded end.\<close>

lemma b64_group_cases:
  assumes "b64_groups e (a # b # c # d # rest) = Some x"
  obtains (digits) k l m n y where "b64_value (en_url e) a = Some k" "b64_value (en_url e) b = Some l"
      "b64_value (en_url e) c = Some m" "b64_value (en_url e) d = Some n" "b64_groups e rest = Some y" "x = bytes3 k l m n @ y"
  | (end_of_text) "rest = []" "b64_padded e a b c d = Some x"
  using assms by (auto split: option.splits if_splits)

lemma b64_groups_agree:
  "b64_groups e s = Some x \<Longrightarrow> b64_groups f s = Some y \<Longrightarrow> x = y"
proof (induction e s arbitrary: x y rule: b64_groups.induct)
  case (1 e a b c d rest)
  from 1(2) show ?case
  proof (cases rule: b64_group_cases)
    case (digits k l m n u)
    from 1(3) show ?thesis
    proof (cases rule: b64_group_cases)
      case d2: (digits k' l' m' n' u')
      have "k' = k" "l' = l" "m' = m" "n' = n" using digits d2 b64_value_agree by blast+
      moreover have "u = u'" using 1(1) digits d2 by blast
      ultimately show ?thesis using digits d2 by simp
    next
      case end_of_text
      then show ?thesis using digits(4) b64_padded_pad by fastforce
    qed
  next
    case end_of_text
    from 1(3) show ?thesis
    proof (cases rule: b64_group_cases)
      case (digits k l m n u)
      then show ?thesis using end_of_text(2) b64_padded_pad by fastforce
    next
      case e2: end_of_text
      then show ?thesis using end_of_text b64_padded_agree by blast
    qed
  qed
qed (auto simp del: b64_tail.simps dest: b64_tail_agree)

lemmas DecodeString_agree = b64_groups_agree [of e "filter (\<lambda>c. c \<noteq> CHR 0x0A \<and> c \<noteq> CHR 0x0D) s" x f y for e s x f y,
  folded DecodeString_def]

text \<open>An encoded text has no spaces or line ends, so trimming and skipping leave it alone.\<close>

lemma b64_char_no_space: "v < 64 \<Longrightarrow> \<not> is_space (b64_char url v)"
  by (auto simp: is_space_def b64_char_code Let_def)

lemma EncodeToString_no_space: "c \<in> set (EncodeToString e s) \<Longrightarrow> \<not> is_space c"
proof (induction e s rule: EncodeToString.induct)
  case (1 e p q r rest)
  then show ?case using b64_char_no_space digit_bounds byte_nibbles of_char_lt by (auto simp: Let_def)
next
  case (2 e p q)
  have "\<not> is_space pad" by (simp add: is_space_def pad_def)
  then show ?case using 2 b64_char_no_space digit_bounds byte_nibbles of_char_lt by (auto simp: Let_def split: if_splits)
next
  case (3 e p)
  have "\<not> is_space pad" by (simp add: is_space_def pad_def)
  then show ?case using 3 b64_char_no_space digit_bounds byte_nibbles of_char_lt by (auto simp: Let_def split: if_splits)
qed simp

lemma EncodeToString_trimmed [simp]: "TrimSpace (EncodeToString e s) = EncodeToString e s"
  using EncodeToString_no_space by (rule TrimSpace_id)

lemma DecodeString_EncodeToString [simp]: "DecodeString e (EncodeToString e s) = Some s"
proof -
  have nl: "is_space (CHR 0x0A)" "is_space (CHR 0x0D)" by code_simp+
  have "filter (\<lambda>c. c \<noteq> CHR 0x0A \<and> c \<noteq> CHR 0x0D) (EncodeToString e s) = EncodeToString e s"
    by (rule filter_True) (use EncodeToString_no_space nl in blast)
  then show ?thesis by (simp add: DecodeString_def b64_groups_encode)
qed

end
