(* ===== verification/Fetch_Check.thy ===== *)
theory Fetch_Check
  imports Checker Base64
begin

text \<open>
  The fetch check (\<^verbatim>\<open>internal/checks/fetch\<close>): parameters, the request, and the extraction pipelines of its
  fields. The server, JSON, regular expressions and the jq engine are arguments.
\<close>

section \<open>Extraction steps\<close>

definition maxFields :: nat where "maxFields = 20"
definition maxStepsPerField :: nat where "maxStepsPerField = 5"
definition maxExprLen :: int where "maxExprLen = 500"

record fieldStep =
  fs_Parser :: string
  fs_Expr :: string
  fs_Raw :: bool

datatype stepError =
    NotObjectOrArray | EmptyChain | ChainTooLong | StepNotObject nat | MissingParser | BadParser string | ExprTooLong

definition decodeStep :: "gomap \<Rightarrow> stepError + fieldStep" where
  "decodeStep m =
     (let parser = as_string (map_of m ''parser'') in
      if parser = [] then Inl MissingParser
      else if parser \<noteq> ''base64'' \<and> parser \<noteq> ''jq'' \<and> parser \<noteq> ''regex'' then Inl (BadParser parser)
      else let expr = as_string (map_of m ''expr'') in
        if int (length expr) > maxExprLen then Inl ExprTooLong
        else Inr \<lparr>fs_Parser = parser, fs_Expr = expr, fs_Raw = as_bool (map_of m ''raw'')\<rparr>)"

fun decode_steps :: "nat \<Rightarrow> goval list \<Rightarrow> stepError + fieldStep list" where
  "decode_steps i [] = Inr []"
| "decode_steps i (v # vs) =
     (case v of
        GObj m \<Rightarrow>
          (case decodeStep m of
             Inl e \<Rightarrow> Inl e
           | Inr st \<Rightarrow> (case decode_steps (i + 1) vs of Inl e \<Rightarrow> Inl e | Inr sts \<Rightarrow> Inr (st # sts)))
      | _ \<Rightarrow> Inl (StepNotObject i))"

definition parseFieldSteps :: "goval \<Rightarrow> stepError + fieldStep list" where
  "parseFieldSteps raw =
     (case raw of
        GObj m \<Rightarrow> (case decodeStep m of Inl e \<Rightarrow> Inl e | Inr st \<Rightarrow> Inr [st])
      | GArr vs \<Rightarrow>
          if vs = [] then Inl EmptyChain
          else if length vs > maxStepsPerField then Inl ChainTooLong
          else decode_steps 0 vs
      | _ \<Rightarrow> Inl NotObjectOrArray)"

section \<open>Running a pipeline\<close>

text \<open>A value between steps: bytes, or what a jq or regex step produced.\<close>

datatype pipeValue = PBytes string | PVal goval

datatype jqOutcome = JqBadExpr | JqNoOutput | JqFailed | JqValue goval

datatype pipeError = BadBase64 | MissingExpr | NotJSON | BadExpr | NoOutput | QueryFailed | NullOutput | NoMatch | MarshalFailed | UnknownParser

record fetchEnv =
  fe_marshal :: "goval \<Rightarrow> string option"
  fe_unmarshal :: "string \<Rightarrow> goval option"
  fe_jq :: "string \<Rightarrow> goval \<Rightarrow> jqOutcome"
  fe_compile :: "string \<Rightarrow> (string \<Rightarrow> string list option) option"

definition toBytes :: "fetchEnv \<Rightarrow> pipeValue \<Rightarrow> string option" where
  "toBytes env v =
     (case v of PBytes b \<Rightarrow> Some b | PVal (GStr s) \<Rightarrow> Some s | PVal x \<Rightarrow> fe_marshal env x)"

definition encodings :: "b64_enc list" where
  "encodings = [\<lparr>en_url = False, en_padded = True\<rparr>, \<lparr>en_url = False, en_padded = False\<rparr>,
                \<lparr>en_url = True, en_padded = True\<rparr>, \<lparr>en_url = True, en_padded = False\<rparr>]"

fun try_encodings :: "b64_enc list \<Rightarrow> string \<Rightarrow> string option" where
  "try_encodings [] s = None"
| "try_encodings (e # es) s =
     (case DecodeString e s of Some decoded \<Rightarrow> Some decoded | None \<Rightarrow> try_encodings es s)"

definition applyBase64 :: "fetchEnv \<Rightarrow> pipeValue \<Rightarrow> pipeError + pipeValue" where
  "applyBase64 env v =
     (case toBytes env v of
        None \<Rightarrow> Inl MarshalFailed
      | Some b \<Rightarrow> (case try_encodings encodings (TrimSpace b) of
                     None \<Rightarrow> Inl BadBase64 | Some decoded \<Rightarrow> Inr (PBytes decoded)))"

definition run_query :: "fetchEnv \<Rightarrow> string \<Rightarrow> goval \<Rightarrow> pipeError + pipeValue" where
  "run_query env expr input =
     (case fe_jq env expr input of
        JqBadExpr \<Rightarrow> Inl BadExpr
      | JqNoOutput \<Rightarrow> Inl NoOutput
      | JqFailed \<Rightarrow> Inl QueryFailed
      | JqValue v \<Rightarrow> if v = GNil then Inl NullOutput else Inr (PVal v))"

definition applyJQ :: "fetchEnv \<Rightarrow> string \<Rightarrow> bool \<Rightarrow> pipeValue \<Rightarrow> pipeError + pipeValue" where
  "applyJQ env expr raw v =
     (if expr = [] then Inl MissingExpr
      else case toBytes env v of
        None \<Rightarrow> Inl MarshalFailed
      | Some b \<Rightarrow>
          if raw then run_query env expr (GStr b)
          else (case fe_unmarshal env b of None \<Rightarrow> Inl NotJSON | Some input \<Rightarrow> run_query env expr input))"

definition applyRegex :: "fetchEnv \<Rightarrow> string \<Rightarrow> pipeValue \<Rightarrow> pipeError + pipeValue" where
  "applyRegex env expr v =
     (if expr = [] then Inl MissingExpr
      else case toBytes env v of
        None \<Rightarrow> Inl MarshalFailed
      | Some b \<Rightarrow>
          (case fe_compile env expr of
             None \<Rightarrow> Inl BadExpr
           | Some submatch \<Rightarrow>
               (case submatch b of
                  Some (whole # grp # _) \<Rightarrow> Inr (PVal (GStr grp))
                | Some [whole] \<Rightarrow> Inr (PVal (GStr whole))
                | _ \<Rightarrow> Inl NoMatch)))"

definition runFieldStep :: "fetchEnv \<Rightarrow> fieldStep \<Rightarrow> pipeValue \<Rightarrow> pipeError + pipeValue" where
  "runFieldStep env st v =
     (if fs_Parser st = ''base64'' then applyBase64 env v
      else if fs_Parser st = ''jq'' then applyJQ env (fs_Expr st) (fs_Raw st) v
      else if fs_Parser st = ''regex'' then applyRegex env (fs_Expr st) v
      else Inl UnknownParser)"

definition valueForField :: "pipeValue \<Rightarrow> goval" where
  "valueForField v = (case v of PBytes b \<Rightarrow> GStr b | PVal x \<Rightarrow> x)"

fun pipeline_loop :: "fetchEnv \<Rightarrow> fieldStep list \<Rightarrow> pipeValue \<Rightarrow> pipeError + pipeValue" where
  "pipeline_loop env [] v = Inr v"
| "pipeline_loop env (st # sts) v =
     (case runFieldStep env st v of Inl e \<Rightarrow> Inl e | Inr v \<Rightarrow> pipeline_loop env sts v)"

definition runPipeline :: "fetchEnv \<Rightarrow> fieldStep list \<Rightarrow> string \<Rightarrow> pipeError + goval" where
  "runPipeline env sts body =
     (case pipeline_loop env sts (PBytes body) of Inl e \<Rightarrow> Inl e | Inr v \<Rightarrow> Inr (valueForField v))"

section \<open>The check\<close>

definition defaultMaxBodyBytes :: int where "defaultMaxBodyBytes = 2 * 1024 * 1024"
definition hardMaxBodyBytes :: int where "hardMaxBodyBytes = 10 * 1024 * 1024"
definition maxHeaders :: nat where "maxHeaders = 20"

definition allowedMethods :: "string list" where
  "allowedMethods = [''GET'', ''POST'', ''PUT'', ''PATCH'', ''DELETE'', ''HEAD'']"

fun header_loop :: "gomap \<Rightarrow> string + (string \<times> string) list" where
  "header_loop [] = Inr []"
| "header_loop ((k, v) # m) =
     (case v of
        GStr s \<Rightarrow> (case header_loop m of Inl e \<Rightarrow> Inl e | Inr hs \<Rightarrow> Inr ((k, s) # hs))
      | _ \<Rightarrow> Inl (go_quote k @ '' must be a string''))"

definition parseHeaders :: "goval option \<Rightarrow> string + (string \<times> string) list" where
  "parseHeaders raw =
     (case raw of
        None \<Rightarrow> Inr []
      | Some GNil \<Rightarrow> Inr []
      | Some (GObj m) \<Rightarrow>
          if length m > maxHeaders
          then Inl (''at most '' @ Itoa (int maxHeaders) @ '' allowed, got '' @ Itoa (int (length m)))
          else header_loop m
      | Some _ \<Rightarrow> Inl ''must be an object'')"

text \<open>What the server sends and when: an error of the request, a response whose body fails, or the whole body.\<close>

datatype fetchReply = FetchErr string | FetchBodyErr string | FetchBody string int gofloat

record httpRequest =
  hr_url :: string
  hr_method :: string
  hr_headers :: "(string \<times> string) list"
  hr_body :: string
  hr_timeout :: duration
  hr_bind :: Binding

definition fetch_do :: "(httpRequest \<Rightarrow> fetchReply) \<Rightarrow> httpRequest \<Rightarrow> int \<Rightarrow> string + string \<times> int \<times> gofloat" where
  "fetch_do server req maxBody =
     (let url = (if Contains (hr_url req) ''://'' then hr_url req else ''https://'' @ hr_url req) in
      case server (req\<lparr>hr_url := url\<rparr>) of
        FetchErr e \<Rightarrow> Inl e
      | FetchBodyErr e \<Rightarrow> Inl e
      | FetchBody body status ttfb \<Rightarrow>
          Inr (if int (length body) > maxBody then take (nat maxBody) body else body, status, ttfb))"

definition body_limit :: "string \<Rightarrow> int option" where
  "body_limit raw =
     (if TrimSpace raw = [] then Some defaultMaxBodyBytes
      else case ParseInt64 (TrimSpace raw) of
        None \<Rightarrow> None
      | Some n \<Rightarrow> if n \<le> 0 then None else if n > hardMaxBodyBytes then Some hardMaxBodyBytes else Some n)"

definition field_value :: "fetchEnv \<Rightarrow> string \<Rightarrow> goval \<Rightarrow> goval option" where
  "field_value env body raw =
     (case parseFieldSteps raw of
        Inl _ \<Rightarrow> None
      | Inr sts \<Rightarrow> (case runPipeline env sts body of Inl _ \<Rightarrow> None | Inr v \<Rightarrow> Some v))"

fun extra_loop :: "fetchEnv \<Rightarrow> string \<Rightarrow> gomap \<Rightarrow> gomap \<Rightarrow> gomap" where
  "extra_loop env body [] extra = extra"
| "extra_loop env body ((name, raw) # m) extra =
     extra_loop env body m
       (case field_value env body raw of None \<Rightarrow> extra | Some v \<Rightarrow> AList.update name v extra)"

definition fetch_Check :: "fetchEnv \<Rightarrow> (httpRequest \<Rightarrow> fetchReply) \<Rightarrow> duration \<Rightarrow> Options \<Rightarrow> Result" where
  "fetch_Check env server elapsed opts =
     (let fail = result_Fail ''fetch'' (o_Target opts) (o_Seq opts);
          meth = ToUpper (Param opts ''method'' ''GET'')
      in if meth \<notin> set allowedMethods
         then fail (''unsupported method '' @ go_quote meth @ '' -- expected GET, POST, PUT, PATCH, DELETE, or HEAD'')
         else case parseHeaders (map_of (o_Params opts) ''headers'') of
           Inl e \<Rightarrow> fail (''headers: '' @ e)
         | Inr headers \<Rightarrow>
             (case body_limit (Param opts ''max_body_bytes'' []) of
                None \<Rightarrow> result_Invalid ''fetch'' (o_Target opts) (o_Seq opts) ''max_body_bytes must be a positive integer''
              | Some maxBody \<Rightarrow>
                  let fieldsRaw = as_object (map_of (o_Params opts) ''fields'') in
                  if length fieldsRaw > maxFields
                  then fail (''fields: at most '' @ Itoa (int maxFields) @ '' allowed, got '' @ Itoa (int (length fieldsRaw)))
                  else (case fetch_do server
                              \<lparr>hr_url = o_Target opts, hr_method = meth, hr_headers = headers, hr_body = Param opts ''body'' [],
                               hr_timeout = o_Timeout opts, hr_bind = o_Bind opts\<rparr> maxBody of
                          Inl e \<Rightarrow> fail e
                        | Inr (body, status, ttfb) \<Rightarrow>
                            result_Ok ''fetch'' (o_Target opts) (o_Seq opts) elapsed
                              (Some (AList.update ''bytes'' (GInt (int (length body)))
                                 (AList.update ''http_code'' (GInt status)
                                    (AList.update ''ttfb_ms'' (GFloat ttfb) (extra_loop env body fieldsRaw []))))))))"

section \<open>Base64 in the wild\<close>

lemma try_encodings_accepts:
  assumes "DecodeString e s = Some x" "e \<in> set es"
  shows "try_encodings es s = Some x"
  using assms
proof (induction es)
  case (Cons f es)
  show ?case
  proof (cases "DecodeString f s")
    case None
    then have "e \<in> set es" using Cons.prems assms(1) by (cases "e = f") auto
    then show ?thesis using None Cons.IH assms(1) by simp
  next
    case (Some y)
    then show ?thesis using DecodeString_agree [OF assms(1) Some] by simp
  qed
qed simp

lemma encodings_all: "e \<in> set encodings"
proof -
  obtain u p where "e = \<lparr>en_url = u, en_padded = p\<rparr>" by (cases e)
  then show ?thesis by (cases u; cases p) (simp_all add: encodings_def)
qed

lemma TrimSpace_around:
  assumes "list_all is_space l" "list_all is_space r" "\<And>c. c \<in> set s \<Longrightarrow> \<not> is_space c"
  shows "TrimSpace (l @ s @ r) = s"
proof -
  have drop: "dropWhile is_space (u @ t) = dropWhile is_space t" if "list_all is_space u" for u t
    using that by (simp add: dropWhile_append2 list_all_iff)
  have keep: "dropWhile is_space (u @ t) = u @ t" if "u \<noteq> []" "\<And>c. c \<in> set u \<Longrightarrow> \<not> is_space c" for u t
    using that by (cases u) auto
  have all: "dropWhile is_space u = []" if "list_all is_space u" for u
    using that by (simp add: list_all_iff)
  show ?thesis
  proof (cases "s = []")
    case True
    have "dropWhile is_space (l @ s @ r) = []" using True assms(1,2) by (intro all) simp
    then show ?thesis using True by (simp only: TrimSpace_def) simp
  next
    case False
    have "dropWhile is_space (l @ s @ r) = s @ r" using drop [OF assms(1)] keep [OF False assms(3)] by simp
    moreover have "dropWhile is_space (rev (s @ r)) = rev s"
      using drop [of "rev r" "rev s"] keep [of "rev s" "[]"] assms False by (simp add: list_all_iff)
    ultimately show ?thesis by (simp add: TrimSpace_def)
  qed
qed

text \<open>The base64 step decodes what was encoded, whichever of the four encodings produced it and whatever spaces
  or line ends surround it: trying one encoding after the other never reads a text as something else,
  because encodings that accept the same text agree.\<close>

theorem applyBase64_roundtrip:
  assumes "list_all is_space l" "list_all is_space r"
  shows "applyBase64 env (PBytes (l @ EncodeToString e data @ r)) = Inr (PBytes data)"
  using TrimSpace_around [OF assms, of "EncodeToString e data"] EncodeToString_no_space
    try_encodings_accepts [OF DecodeString_EncodeToString encodings_all]
  by (simp add: applyBase64_def toBytes_def)

section \<open>The fields of a result\<close>

definition proper_value :: "pipeValue \<Rightarrow> bool" where
  "proper_value v \<longleftrightarrow> v \<noteq> PVal GNil"

lemma runFieldStep_proper:
  assumes "runFieldStep env st v = Inr v'"
  shows "proper_value v'"
  using assms
  by (auto simp: runFieldStep_def applyBase64_def applyJQ_def applyRegex_def run_query_def proper_value_def
      split: if_splits option.splits list.splits jqOutcome.splits)

lemma pipeline_loop_proper:
  "proper_value v \<Longrightarrow> pipeline_loop env sts v = Inr v' \<Longrightarrow> proper_value v'"
  by (induction env sts v rule: pipeline_loop.induct) (auto split: sum.splits dest: runFieldStep_proper)

lemma field_value_not_nil: "field_value env body raw \<noteq> Some GNil"
proof
  assume "field_value env body raw = Some GNil"
  then obtain sts v where "pipeline_loop env sts (PBytes body) = Inr v" "valueForField v = GNil"
    by (auto simp: field_value_def runPipeline_def split: sum.splits)
  moreover from this have "proper_value v" using pipeline_loop_proper [of "PBytes body"] by (simp add: proper_value_def)
  ultimately show False by (auto simp: valueForField_def proper_value_def split: pipeValue.splits)
qed

lemma map_of_extra_loop:
  assumes "distinct (map fst m)"
  shows "map_of (extra_loop env body m extra) k =
     (case map_of m k of
        None \<Rightarrow> map_of extra k
      | Some raw \<Rightarrow> (case field_value env body raw of None \<Rightarrow> map_of extra k | Some v \<Rightarrow> Some v))"
  using assms
proof (induction env body m extra rule: extra_loop.induct)
  case (2 env body name raw m extra)
  then have "map_of m name = None" by (auto simp: map_of_eq_None_iff)
  then show ?case using 2 by (auto split: option.splits)
qed (simp split: option.splits)

lemma body_limit_bounds: "body_limit raw = Some n \<Longrightarrow> 0 < n \<and> n \<le> hardMaxBodyBytes"
  by (auto simp: body_limit_def defaultMaxBodyBytes_def hardMaxBodyBytes_def split: if_splits option.splits)

definition fetch_request :: "Options \<Rightarrow> (string \<times> string) list \<Rightarrow> httpRequest" where
  "fetch_request opts headers =
     \<lparr>hr_url = o_Target opts, hr_method = ToUpper (Param opts ''method'' ''GET''), hr_headers = headers,
      hr_body = Param opts ''body'' [], hr_timeout = o_Timeout opts, hr_bind = o_Bind opts\<rparr>"

text \<open>C27. A fetch check succeeds exactly when its parameters are usable and the request is answered, whatever its
  fields do: then the result carries the status, the size of the body read (at most 10 MiB) and the time
  to the first byte, which no field can override, and besides them exactly the fields whose
  pipeline succeeded, with its value; a field that fails is absent and none is ever null.\<close>

theorem fetch_reports_fields:
  assumes "fieldsRaw = as_object (map_of (o_Params opts) ''fields'')" and "distinct (map fst fieldsRaw)"
  shows "case (parseHeaders (map_of (o_Params opts) ''headers''), body_limit (Param opts ''max_body_bytes'' [])) of
     (Inr headers, Some maxBody) \<Rightarrow>
       (if ToUpper (Param opts ''method'' ''GET'') \<in> set allowedMethods \<and> length fieldsRaw \<le> maxFields
        then (case fetch_do server (fetch_request opts headers) maxBody of
                Inl e \<Rightarrow> fetch_Check env server elapsed opts = result_Fail ''fetch'' (o_Target opts) (o_Seq opts) e
              | Inr (body, status, ttfb) \<Rightarrow>
                  (\<exists>extra. fetch_Check env server elapsed opts = result_Ok ''fetch'' (o_Target opts) (o_Seq opts) elapsed (Some extra)
                     \<and> int (length body) \<le> hardMaxBodyBytes
                     \<and> (\<forall>k. map_of extra k =
                            (if k = ''bytes'' then Some (GInt (int (length body)))
                             else if k = ''http_code'' then Some (GInt status)
                             else if k = ''ttfb_ms'' then Some (GFloat ttfb)
                             else Option.bind (map_of fieldsRaw k) (field_value env body))
                          \<and> map_of extra k \<noteq> Some GNil)))
        else \<not> r_Ok (fetch_Check env server elapsed opts))
   | _ \<Rightarrow> \<not> r_Ok (fetch_Check env server elapsed opts)"
proof (cases "parseHeaders (map_of (o_Params opts) ''headers'')")
  case (Inl e)
  then show ?thesis by (simp add: fetch_Check_def Let_def)
next
  case h: (Inr headers)
  show ?thesis
  proof (cases "body_limit (Param opts ''max_body_bytes'' [])")
    case None
    then show ?thesis using h by (simp add: fetch_Check_def Let_def)
  next
    case lim: (Some maxBody)
    show ?thesis
    proof (cases "ToUpper (Param opts ''method'' ''GET'') \<in> set allowedMethods \<and> length fieldsRaw \<le> maxFields")
      case False
      then show ?thesis using h lim assms(1) by (auto simp: fetch_Check_def Let_def)
    next
      case ok: True
      show ?thesis
      proof (cases "fetch_do server (fetch_request opts headers) maxBody")
        case (Inl e)
        then show ?thesis using h lim ok assms(1) by (simp add: fetch_Check_def Let_def fetch_request_def)
      next
        case (Inr a)
        obtain body status ttfb where a: "a = (body, status, ttfb)" by (cases a)
        define extra where "extra = AList.update ''bytes'' (GInt (int (length body))) (AList.update ''http_code'' (GInt status)
            (AList.update ''ttfb_ms'' (GFloat ttfb) (extra_loop env body fieldsRaw [])))"
        have check: "fetch_Check env server elapsed opts = result_Ok ''fetch'' (o_Target opts) (o_Seq opts) elapsed (Some extra)"
          using h lim ok assms(1) Inr a by (simp add: fetch_Check_def Let_def fetch_request_def extra_def)
        have "int (length body) \<le> maxBody"
          using Inr a body_limit_bounds [OF lim] by (auto simp: fetch_do_def Let_def split: fetchReply.splits if_splits)
        then have size: "int (length body) \<le> hardMaxBodyBytes" using body_limit_bounds [OF lim] by simp
        have look: "map_of extra k = (if k = ''bytes'' then Some (GInt (int (length body)))
             else if k = ''http_code'' then Some (GInt status) else if k = ''ttfb_ms'' then Some (GFloat ttfb)
             else Option.bind (map_of fieldsRaw k) (field_value env body))" for k
          by (auto simp: extra_def map_of_extra_loop [OF assms(2)] split: option.splits)
        have "Option.bind (map_of fieldsRaw k) (field_value env body) \<noteq> Some GNil" for k
          using field_value_not_nil by (cases "map_of fieldsRaw k") auto
        then have nil: "map_of extra k \<noteq> Some GNil" for k unfolding look by simp
        note all = check size look nil
        show ?thesis unfolding h lim Inr a prod.case sum.case option.case if_P [OF ok]
          using all by (intro exI [of _ extra] conjI allI)
      qed
    qed
  qed
qed

definition demo_fetchEnv :: fetchEnv where
  "demo_fetchEnv = \<lparr>fe_marshal = (\<lambda>_. None), fe_unmarshal = (\<lambda>_. None), fe_jq = (\<lambda>_ _. JqFailed),
     fe_compile = (\<lambda>e. if e = ''b'' then Some (\<lambda>s. Some [''b'']) else None)\<rparr>"

theorem applyBase64_roundtrip_witness:
  "applyBase64 demo_fetchEnv (PBytes ('' '' @ EncodeToString \<lparr>en_url = True, en_padded = False\<rparr> ''a?>'' @ [CHR 0x0A])) = Inr (PBytes ''a?>'')"
  by (rule applyBase64_roundtrip) code_simp+

definition demo_fetchOptions :: Options where
  "demo_fetchOptions = (demo_options 1)\<lparr>o_Params :=
     [(''fields'', GObj [(''good'', GObj [(''parser'', GStr ''regex''), (''expr'', GStr ''b'')]),
                         (''bytes'', GObj [(''parser'', GStr ''regex''), (''expr'', GStr ''b'')]),
                         (''bad'', GObj [(''parser'', GStr ''jq''), (''expr'', GStr ''.'')])])]\<rparr>"

definition demo_server :: "httpRequest \<Rightarrow> fetchReply" where
  "demo_server req = (if hr_url req = ''https://example.com'' then FetchBody ''abc'' 200 (Fin 1) else FetchErr ''refused'')"

theorem fetch_reports_fields_witness:
  "\<exists>extra. fetch_Check demo_fetchEnv demo_server 7 demo_fetchOptions
             = result_Ok ''fetch'' (o_Target demo_fetchOptions) (o_Seq demo_fetchOptions) 7 (Some extra)
     \<and> map_of extra ''bytes'' = Some (GInt 3) \<and> map_of extra ''good'' = Some (GStr ''b'') \<and> map_of extra ''bad'' = None"
proof -
  let ?f = "as_object (map_of (o_Params demo_fetchOptions) ''fields'')"
  have d: "distinct (map fst ?f)" by code_simp
  have h: "parseHeaders (map_of (o_Params demo_fetchOptions) ''headers'') = Inr []" by code_simp
  have l: "body_limit (Param demo_fetchOptions ''max_body_bytes'' []) = Some defaultMaxBodyBytes" by code_simp
  have m: "ToUpper (Param demo_fetchOptions ''method'' ''GET'') \<in> set allowedMethods \<and> length ?f \<le> maxFields" by code_simp
  have b: "fetch_do demo_server (fetch_request demo_fetchOptions []) defaultMaxBodyBytes = Inr (''abc'', 200, Fin 1)" by code_simp
  have g: "Option.bind (map_of ?f ''good'') (field_value demo_fetchEnv ''abc'') = Some (GStr ''b'')"
    "Option.bind (map_of ?f ''bad'') (field_value demo_fetchEnv ''abc'') = None" by code_simp+
  obtain extra where e: "fetch_Check demo_fetchEnv demo_server 7 demo_fetchOptions
        = result_Ok ''fetch'' (o_Target demo_fetchOptions) (o_Seq demo_fetchOptions) 7 (Some extra)"
      "\<forall>k. map_of extra k = (if k = ''bytes'' then Some (GInt (int (length ''abc'')))
         else if k = ''http_code'' then Some (GInt 200) else if k = ''ttfb_ms'' then Some (GFloat (Fin 1))
         else Option.bind (map_of ?f k) (field_value demo_fetchEnv ''abc'')) \<and> map_of extra k \<noteq> Some GNil"
    using fetch_reports_fields [OF refl d, where server = demo_server and env = demo_fetchEnv and elapsed = 7]
    unfolding h l prod.case sum.case option.case if_P [OF m] b by blast
  then show ?thesis using g by (intro exI [of _ extra]) simp
qed

end
