(* ===== verification/Netdial.thy ===== *)
theory Netdial
  imports Netbind
begin

text \<open>
  How the binding reaches sockets (\<^verbatim>\<open>internal/netbind\<close>): dialers, the bound resolver, the socket option, the
  self test, the cache of interface numbers and the ICMP socket address. A dial is described by what is
  asked of the operating system; parsing of addresses and the operating system's answers are arguments.
\<close>

unbundle bit_operations_syntax

section \<open>Addresses of a dial\<close>

definition IsLoopback :: "addr \<Rightarrow> bool" where
  "IsLoopback a = (case a of IP4 w \<Rightarrow> drop_bit 24 w = 127 | IP6 w _ \<Rightarrow> w = 1)"

text \<open>\<^verbatim>\<open>strings.LastIndexByte\<close> and \<^verbatim>\<open>strings.IndexByte\<close>.\<close>

fun index_of :: "char \<Rightarrow> string \<Rightarrow> nat option" where
  "index_of c [] = None"
| "index_of c (d # s) = (if d = c then Some 0 else map_option Suc (index_of c s))"

definition last_index_of :: "char \<Rightarrow> string \<Rightarrow> nat option" where
  "last_index_of c s = map_option (\<lambda>i. length s - 1 - i) (index_of c (rev s))"

text \<open>\<^verbatim>\<open>net.SplitHostPort\<close>; \<open>None\<close> is its error.\<close>

definition bracket_rest :: "string \<Rightarrow> nat \<Rightarrow> (string \<times> string) option" where
  "bracket_rest s i =
     (case index_of (CHR '']'') s of
        None \<Rightarrow> None
      | Some e \<Rightarrow>
          if e + 1 \<noteq> i then None
          else if CHR ''['' \<in> set (drop 1 s) \<or> CHR '']'' \<in> set (drop (e + 1) s) then None
          else Some (take (e - 1) (drop 1 s), drop (i + 1) s))"

definition SplitHostPort :: "string \<Rightarrow> (string \<times> string) option" where
  "SplitHostPort s =
     (case last_index_of (CHR '':'') s of
        None \<Rightarrow> None
      | Some i \<Rightarrow>
          if s \<noteq> [] \<and> hd s = CHR ''['' then bracket_rest s i
          else if CHR '':'' \<in> set (take i s) \<or> CHR ''['' \<in> set s \<or> CHR '']'' \<in> set s then None
          else Some (take i s, drop (i + 1) s))"

text \<open>\<^verbatim>\<open>strings.Trim(s, "[]")\<close>.\<close>

definition trim_brackets :: "string \<Rightarrow> string" where
  "trim_brackets s =
     (let br = (\<lambda>c. c = CHR ''['' \<or> c = CHR '']'') in rev (dropWhile br (rev (dropWhile br s))))"

definition isLoopbackAddress :: "(string \<Rightarrow> addr option) \<Rightarrow> string \<Rightarrow> bool" where
  "isLoopbackAddress ParseAddr address =
     (let host = trim_brackets (case SplitHostPort address of None \<Rightarrow> address | Some (h, _) \<Rightarrow> h) in
      if ToLower host = ''localhost'' then True
      else let host = (case last_index_of (CHR ''%'') host of None \<Rightarrow> host | Some i \<Rightarrow> take i host)
           in (case ParseAddr host of None \<Rightarrow> False | Some ip \<Rightarrow> IsLoopback (Unmap ip)))"

section \<open>Dialers\<close>

datatype localAddr = UDPAddr addr | TCPAddr addr

record dialConfig =
  dc_LocalAddr :: "localAddr option"
  dc_Control :: "string option"
  dc_BoundResolver :: bool

definition plain_dialer :: dialConfig where
  "plain_dialer = \<lparr>dc_LocalAddr = None, dc_Control = None, dc_BoundResolver = False\<rparr>"

definition inner_dialer :: "Binding \<Rightarrow> string \<Rightarrow> dialConfig" where
  "inner_dialer b network =
     \<lparr>dc_LocalAddr = map_option (\<lambda>a. if HasPrefix network ''udp'' then UDPAddr a else TCPAddr a) (SourceIP b),
      dc_Control = (if Interface b \<noteq> [] then Some (Interface b) else None),
      dc_BoundResolver = False\<rparr>"

definition Dialer :: "Binding \<Rightarrow> string \<Rightarrow> dialConfig" where
  "Dialer b network = (inner_dialer b network)\<lparr>dc_BoundResolver := \<not> Binding_IsZero b\<rparr>"

text \<open>What is asked of the operating system: the dialer, the network and the address.\<close>

definition DialContext :: "(string \<Rightarrow> addr option) \<Rightarrow> Binding \<Rightarrow> string \<Rightarrow> string \<Rightarrow> dialConfig \<times> string \<times> string" where
  "DialContext ParseAddr b network address =
     (if Interface b \<noteq> [] \<and> isLoopbackAddress ParseAddr address then (plain_dialer, network, address)
      else (Dialer b network, Network b network, address))"

text \<open>The dial of the bound resolver; the resolver itself is absent for a zero binding.\<close>

definition resolver_dial :: "(string \<Rightarrow> addr option) \<Rightarrow> Binding \<Rightarrow> string \<Rightarrow> string \<Rightarrow> dialConfig \<times> string \<times> string" where
  "resolver_dial ParseAddr b network address =
     (if Interface b \<noteq> [] \<and> isLoopbackAddress ParseAddr address then (plain_dialer, network, address)
      else (inner_dialer b network, Network b network, address))"

definition Resolver :: "(string \<Rightarrow> addr option) \<Rightarrow> Binding \<Rightarrow> (string \<Rightarrow> string \<Rightarrow> dialConfig \<times> string \<times> string) option" where
  "Resolver ParseAddr b = (if Binding_IsZero b then None else Some (resolver_dial ParseAddr b))"

text \<open>The socket option of a connection to an address: the interface to bind it to, if any.\<close>

definition control :: "(string \<Rightarrow> addr option) \<Rightarrow> Binding \<Rightarrow> string \<Rightarrow> string option" where
  "control ParseAddr b address =
     (if Interface b = [] \<or> isLoopbackAddress ParseAddr address then None else Some (Interface b))"

section \<open>Lookups and the self test\<close>

record resolveIO =
  ri_default :: "string \<Rightarrow> string \<Rightarrow> string + addr list"
  ri_bound :: "Binding \<Rightarrow> string \<Rightarrow> string \<Rightarrow> string + addr list"
  ri_resolveIP :: "string \<Rightarrow> string \<Rightarrow> string + addr"

definition LookupNetIP :: "resolveIO \<Rightarrow> Binding \<Rightarrow> string \<Rightarrow> string \<Rightarrow> string + addr list" where
  "LookupNetIP io b network host =
     (if Binding_IsZero b then ri_default io network host else ri_bound io b network host)"

definition ResolveIPAddr :: "resolveIO \<Rightarrow> Binding \<Rightarrow> string \<Rightarrow> string \<Rightarrow> string + addr" where
  "ResolveIPAddr io b network host =
     (if Binding_IsZero b then ri_resolveIP io network host
      else case LookupNetIP io b network host of
        Inl e \<Rightarrow> Inl e
      | Inr [] \<Rightarrow> Inl (''address '' @ host @ '': no suitable address'')
      | Inr (a # _) \<Rightarrow> Inr a)"

text \<open>\<^verbatim>\<open>net.JoinHostPort\<close>.\<close>

definition JoinHostPort :: "string \<Rightarrow> string \<Rightarrow> string" where
  "JoinHostPort host port =
     (if CHR '':'' \<in> set host then ''['' @ host @ '']:'' @ port else host @ '':'' @ port)"

definition SelfTest ::
  "(string \<Rightarrow> addr option) \<Rightarrow> (addr \<Rightarrow> string) \<Rightarrow> string option
     \<Rightarrow> (string option \<Rightarrow> string \<Rightarrow> string \<Rightarrow> string option) \<Rightarrow> Binding \<Rightarrow> string option" where
  "SelfTest ParseAddr ipstr ctxErr listen b =
     (if Binding_IsZero b then None
      else case ctxErr of
        Some e \<Rightarrow> Some e
      | None \<Rightarrow>
          let (network, address) =
                (case SourceIP b of
                   None \<Rightarrow> (''udp'', '':0'')
                 | Some a \<Rightarrow> (Network b ''udp'', JoinHostPort (ipstr a) ''0''))
          in case listen (control ParseAddr b address) network address of
               None \<Rightarrow> None
             | Some e \<Rightarrow> Some (''outbound binding '' @ Binding_String ipstr b @ '': '' @ e))"

section \<open>Interface numbers\<close>

type_synonym indexCache = "(string \<times> int) list"

definition interfaceIndex :: "(string \<Rightarrow> string + int) \<Rightarrow> string \<Rightarrow> indexCache \<Rightarrow> (string + int) \<times> indexCache" where
  "interfaceIndex byName name cache =
     (case map_of cache name of
        Some i \<Rightarrow> (Inr i, cache)
      | None \<Rightarrow> (case byName name of Inl e \<Rightarrow> (Inl e, cache) | Inr i \<Rightarrow> (Inr i, AList.update name i cache)))"

definition refreshInterfaceIndex :: "(string \<Rightarrow> string + int) \<Rightarrow> string \<Rightarrow> indexCache \<Rightarrow> (string + int) \<times> indexCache" where
  "refreshInterfaceIndex byName name cache = interfaceIndex byName name (AList.delete name cache)"

section \<open>The ICMP socket\<close>

datatype sockaddr = Inet4 "32 word" | Inet6 "128 word" "32 word"

datatype icmpError = NetworkUnsupported | SourceNotIPv4 | SourceNotIPv6 | ZoneUnknown string

definition source_zone :: "(string \<Rightarrow> int option) \<Rightarrow> (string \<Rightarrow> string + int) \<Rightarrow> Binding \<Rightarrow> addr \<Rightarrow> indexCache
    \<Rightarrow> (icmpError + 32 word) \<times> indexCache" where
  "source_zone ParseUint32 byName b a cache =
     (let by_index = (\<lambda>name. case interfaceIndex byName name cache of
            (Inl e, c) \<Rightarrow> (Inl (ZoneUnknown e), c)
          | (Inr i, c) \<Rightarrow> (Inr (word_of_int i), c))
      in if Zone a \<noteq> []
         then (case ParseUint32 (Zone a) of Some z \<Rightarrow> (Inr (word_of_int z), cache) | None \<Rightarrow> by_index (Zone a))
         else if IsLinkLocalUnicast a \<and> Interface b \<noteq> [] then by_index (Interface b)
         else (Inr 0, cache))"

definition icmpSockaddr :: "(string \<Rightarrow> int option) \<Rightarrow> (string \<Rightarrow> string + int) \<Rightarrow> bool \<Rightarrow> Binding \<Rightarrow> indexCache
    \<Rightarrow> (icmpError + sockaddr) \<times> indexCache" where
  "icmpSockaddr ParseUint32 byName inet4 b cache =
     (case SourceIP b of
        None \<Rightarrow> (Inr (if inet4 then Inet4 0 else Inet6 0 0), cache)
      | Some a \<Rightarrow>
          (case a of
             IP4 w \<Rightarrow> if inet4 then (Inr (Inet4 w), cache) else (Inl SourceNotIPv6, cache)
           | IP6 w _ \<Rightarrow>
               if inet4 then (Inl SourceNotIPv4, cache)
               else (case source_zone ParseUint32 byName b a cache of
                       (Inl e, c) \<Rightarrow> (Inl e, c)
                     | (Inr z, c) \<Rightarrow> (Inr (Inet6 w z), c))))"

section \<open>Every path is bound\<close>

text \<open>No traffic leaves the node's selected path: with a binding configured, a dial to any address that is
  not a loopback one, by a check or by the resolver that serves it, carries the source address, the
  interface and the address family of that source, and the socket option applies to it. Only
  a loopback destination under an interface binding is dialled plainly, and a zero binding changes nothing.\<close>

theorem every_dial_is_bound:
  "(let (d, net, a) = DialContext ParseAddr b network address;
        (rd, rnet, ra) = resolver_dial ParseAddr b network address
    in a = address \<and> ra = address
     \<and> (if Interface b \<noteq> [] \<and> isLoopbackAddress ParseAddr address
        then d = plain_dialer \<and> rd = plain_dialer \<and> net = network \<and> rnet = network \<and> control ParseAddr b address = None
        else map_option (case_localAddr (\<lambda>x. x) (\<lambda>x. x)) (dc_LocalAddr d) = SourceIP b
           \<and> dc_LocalAddr rd = dc_LocalAddr d \<and> dc_Control rd = dc_Control d
           \<and> (dc_Control d = (if Interface b = [] then None else Some (Interface b))) \<and> control ParseAddr b address = dc_Control d
           \<and> (dc_BoundResolver d \<longleftrightarrow> \<not> Binding_IsZero b) \<and> (Resolver ParseAddr b = None \<longleftrightarrow> Binding_IsZero b) \<and> \<not> dc_BoundResolver rd
           \<and> rnet = net \<and> net = (case SourceIP b of
                None \<Rightarrow> network
              | Some s \<Rightarrow> if network \<in> {''tcp'', ''udp'', ''ip''} then network @ (if Is4 s then ''4'' else ''6'') else network)))"
  by (cases "SourceIP b")
    (auto simp: DialContext_def resolver_dial_def Dialer_def inner_dialer_def Network_def control_def Resolver_def
      Binding_IsZero_def Let_def)

lemma SplitHostPort_simple:
  assumes "CHR '':'' \<notin> set h" "CHR ''['' \<notin> set h" "CHR '']'' \<notin> set h"
    "CHR '':'' \<notin> set p" "CHR ''['' \<notin> set p" "CHR '']'' \<notin> set p"
  shows "SplitHostPort (h @ '':'' @ p) = Some (h, p)"
proof -
  have ix: "index_of c (u @ c # v) = Some (length u)" if "c \<notin> set u" for c u v
    using that by (induction u) auto
  have "last_index_of (CHR '':'') (h @ '':'' @ p) = Some (length h)"
    using ix [of "CHR '':''" "rev p" "rev h"] assms(4) by (simp add: last_index_of_def)
  moreover have "\<not> (h @ '':'' @ p \<noteq> [] \<and> hd (h @ '':'' @ p) = CHR ''['')" using assms(2) by (cases h) auto
  ultimately show ?thesis using assms by (simp add: SplitHostPort_def)
qed

lemma loopback_examples:
  "isLoopbackAddress (\<lambda>_. None) ''localhost:53''" "\<not> isLoopbackAddress (\<lambda>_. None) ''example.com:53''"
  "isLoopbackAddress (\<lambda>s. if s = ''::1'' then Some (IP6 1 []) else None) ''[::1%lo]:53''"
  "SplitHostPort ''[::1%lo]:53'' = Some (''::1%lo'', ''53'')" "SplitHostPort ''::1'' = None"
  by code_simp+

end
