(* ===== verification/Native_Checks.thy ===== *)
theory Native_Checks
  imports Fetch_Check Netdial
begin

text \<open>
  The checks built into the binary (\<^verbatim>\<open>internal/checks\<close>, \<^verbatim>\<open>internal/action\<close>): TCP, UDP, DNS, ICMP, HTTP, proxies and
  the node itself. What the network and the machine answer, and how long it takes, are arguments; the checkers
  with state (HTTP, system) pass it explicitly.
\<close>

section \<open>Shared\<close>

definition float_ms :: "duration \<Rightarrow> gofloat" where
  "float_ms d = Fin (of_int d / of_int millisecond)"

definition hostOnly :: "string \<Rightarrow> string" where
  "hostOnly target = (case SplitHostPort target of None \<Rightarrow> target | Some (host, _) \<Rightarrow> host)"

definition with_scheme :: "string \<Rightarrow> string" where
  "with_scheme url = (if Contains url ''://'' then url else ''https://'' @ url)"

section \<open>TCP\<close>

fun hex_digits :: "nat \<Rightarrow> string" where
  "hex_digits n = (if n < 16 then [''0123456789abcdef'' ! n] else hex_digits (n div 16) @ [''0123456789abcdef'' ! (n mod 16)])"

declare hex_digits.simps [simp del]

definition tlsVersionName :: "16 word \<Rightarrow> string" where
  "tlsVersionName v =
     (if v = 0x0304 then ''1.3'' else if v = 0x0303 then ''1.2'' else if v = 0x0302 then ''1.1''
      else if v = 0x0301 then ''1.0'' else ''0x'' @ hex_digits (unat v))"

record tlsState =
  ts_Version :: "16 word"
  ts_Leaf :: "(string \<times> string) option"

record tcpIO =
  tc_dial :: "Options \<Rightarrow> (string option) \<times> duration"
  tc_handshake :: "string \<Rightarrow> bool \<Rightarrow> (string + tlsState) \<times> duration"

definition tcp_Check :: "tcpIO \<Rightarrow> Options \<Rightarrow> Result" where
  "tcp_Check io opts =
     (case tc_dial io opts of
        (Some e, _) \<Rightarrow> result_Fail ''tcp'' (o_Target opts) (o_Seq opts) e
      | (None, connectElapsed) \<Rightarrow>
          if Param opts ''tls'' [] \<noteq> ''true'' then result_Ok ''tcp'' (o_Target opts) (o_Seq opts) connectElapsed None
          else (case tc_handshake io (Param opts ''sni'' (hostOnly (o_Target opts))) (Param opts ''insecure'' [] = ''true'') of
                  (Inl e, _) \<Rightarrow> result_Fail ''tcp'' (o_Target opts) (o_Seq opts) e
                | (Inr st, tlsElapsed) \<Rightarrow>
                    result_Ok ''tcp'' (o_Target opts) (o_Seq opts) (connectElapsed + tlsElapsed)
                      (Some ([(''connect_ms'', GFloat (float_ms connectElapsed)), (''tls_ms'', GFloat (float_ms tlsElapsed)),
                              (''tls_version'', GStr (tlsVersionName (ts_Version st)))]
                        @ (case ts_Leaf st of None \<Rightarrow> [] | Some (subject, notAfter) \<Rightarrow>
                             [(''cert_subject'', GStr subject), (''cert_not_after'', GStr notAfter)])))))"

section \<open>UDP\<close>

datatype udpRead = Received nat | Refused | TimedOut | ReadErr string

record udpIO =
  ud_dial :: "Options \<Rightarrow> string option"
  ud_write :: "string option"
  ud_read :: udpRead
  ud_elapsed :: duration

definition udp_Check :: "udpIO \<Rightarrow> Options \<Rightarrow> Result" where
  "udp_Check io opts =
     (let fail = result_Fail ''udp'' (o_Target opts) (o_Seq opts) in
      case ud_dial io opts of
        Some e \<Rightarrow> fail e
      | None \<Rightarrow> (case ud_write io of
          Some e \<Rightarrow> fail e
        | None \<Rightarrow> (case ud_read io of
            Received n \<Rightarrow> result_Ok ''udp'' (o_Target opts) (o_Seq opts) (ud_elapsed io)
                            (Some [(''responded'', GBool True), (''bytes_read'', GInt (int n))])
          | Refused \<Rightarrow> fail ''connection refused (icmp port unreachable)''
          | TimedOut \<Rightarrow>
              result_zero\<lparr>r_Ok := True, r_Type := ''udp'', r_Target := o_Target opts, r_Seq := o_Seq opts,
                r_Extra := Some [(''responded'', GBool False),
                  (''note'', GStr ''no response within timeout; many UDP services do not reply to unsolicited probes'')]\<rparr>
          | ReadErr e \<Rightarrow> fail e)))"

section \<open>DNS\<close>

datatype dnsError = NotFound string | OtherErr string

record dnsIO =
  dn_ip :: "string \<Rightarrow> string \<Rightarrow> dnsError + addr list"
  dn_ns :: "string \<Rightarrow> dnsError + string list"
  dn_mx :: "string \<Rightarrow> dnsError + (string \<times> 16 word) list"
  dn_txt :: "string \<Rightarrow> dnsError + string list"
  dn_cname :: "string \<Rightarrow> dnsError + string"
  dn_ptr :: "string \<Rightarrow> dnsError + string list"
  dn_srv :: "string \<Rightarrow> string \<Rightarrow> string \<Rightarrow> dnsError + (string \<times> 16 word \<times> 16 word \<times> 16 word) list"
  dn_isIP :: "string \<Rightarrow> bool"
  dn_str :: "addr \<Rightarrow> string"

definition TrimSuffix :: "string \<Rightarrow> string \<Rightarrow> string" where
  "TrimSuffix s p = (if HasSuffix s p then take (length s - length p) s else s)"

definition host_of :: "string \<Rightarrow> string" where
  "host_of s = TrimSuffix s ''.''"

definition ints :: "(16 word) list \<Rightarrow> goval" where
  "ints ws = GArr (map (\<lambda>w. GInt (uint w)) ws)"

definition lookup :: "dnsIO \<Rightarrow> string \<Rightarrow> Options \<Rightarrow> dnsError + string list \<times> gomap" where
  "lookup io record_type opts =
     (let target = o_Target opts in
      if record_type = ''a'' \<or> record_type = ''aaaa''
      then (case dn_ip io (if record_type = ''aaaa'' then ''ip6'' else ''ip4'') target of
              Inl e \<Rightarrow> Inl e | Inr as \<Rightarrow> Inr (map (\<lambda>a. dn_str io (Unmap a)) as, []))
      else if record_type = ''ns''
      then (case dn_ns io target of Inl e \<Rightarrow> Inl e | Inr rs \<Rightarrow> Inr (map host_of rs, []))
      else if record_type = ''mx''
      then (case dn_mx io target of
              Inl e \<Rightarrow> Inl e | Inr rs \<Rightarrow> Inr (map (host_of \<circ> fst) rs, [(''preferences'', ints (map snd rs))]))
      else if record_type = ''txt''
      then (case dn_txt io target of Inl e \<Rightarrow> Inl e | Inr rs \<Rightarrow> Inr (rs, []))
      else if record_type = ''cname''
      then (case dn_cname io target of Inl e \<Rightarrow> Inl e | Inr r \<Rightarrow> Inr ([host_of r], []))
      else if record_type = ''ptr''
      then (if \<not> dn_isIP io target
            then Inl (OtherErr (''target must be an IP address for a PTR lookup, got '' @ go_quote target))
            else case dn_ptr io target of Inl e \<Rightarrow> Inl e | Inr rs \<Rightarrow> Inr (map host_of rs, []))
      else if record_type = ''srv''
      then (case dn_srv io (Param opts ''service'' []) (Param opts ''proto'' []) target of
              Inl e \<Rightarrow> Inl e
            | Inr rs \<Rightarrow> Inr (map (host_of \<circ> fst) rs,
                [(''priorities'', ints (map (fst \<circ> snd) rs)), (''weights'', ints (map (fst \<circ> snd \<circ> snd) rs)),
                 (''ports'', ints (map (snd \<circ> snd \<circ> snd) rs))]))
      else Inl (OtherErr (''unsupported record type '' @ go_quote record_type @
                          '' -- expected a, aaaa, ns, mx, txt, cname, ptr, or srv'')))"

text \<open>Where the queries of a check go: the given server, the bound resolver or the system one.\<close>

datatype dnsResolver = SystemResolver | BoundResolver Binding | ServerResolver string "Binding option"

definition dns_resolver :: "Options \<Rightarrow> dnsResolver" where
  "dns_resolver opts =
     (let server = Param opts ''server'' [] in
      if server \<noteq> [] then ServerResolver server (if Binding_IsZero (o_Bind opts) then None else Some (o_Bind opts))
      else if Binding_IsZero (o_Bind opts) then SystemResolver else BoundResolver (o_Bind opts))"

definition dns_Check :: "(dnsResolver \<Rightarrow> dnsIO) \<Rightarrow> duration \<Rightarrow> Options \<Rightarrow> Result" where
  "dns_Check io elapsed opts =
     (let record_type = ToLower (Param opts ''record'' ''a'') in
      case (case lookup (io (dns_resolver opts)) record_type opts of
              Inl (NotFound _) \<Rightarrow> Inr ([], [])
            | Inl (OtherErr e) \<Rightarrow> Inl e
            | Inr x \<Rightarrow> Inr x) of
        Inl e \<Rightarrow> result_Fail ''dns'' (o_Target opts) (o_Seq opts) e
      | Inr (found, extra) \<Rightarrow>
          result_Ok ''dns'' (o_Target opts) (o_Seq opts) elapsed
            (Some (fold (\<lambda>(k, v). AList.update k v) extra
                     [(''record'', GStr record_type), (''answers'', GArr (map GStr found))])))"

section \<open>ICMP\<close>

text \<open>What the socket delivers, in order: a packet with its echo data if it is an echo reply, or the error that ends the wait.\<close>

datatype icmpRead = Packet "(int) option" duration | Unparsable string | IcmpErr string

record icmpIO =
  ic_resolve :: "Options \<Rightarrow> string + string"
  ic_listen :: "Binding \<Rightarrow> string option"
  ic_write :: "16 word \<Rightarrow> string option"
  ic_reads :: "icmpRead list"

text \<open>The sequence number travels in sixteen bits.\<close>

definition echo_seq :: "Options \<Rightarrow> int" where
  "echo_seq opts = (if o_Seq opts = 0 then 1 else o_Seq opts)"

fun icmp_loop :: "int \<Rightarrow> icmpRead list \<Rightarrow> string + duration" where
  "icmp_loop sq [] = Inl ''i/o timeout''"
| "icmp_loop sq (IcmpErr e # rs) = Inl e"
| "icmp_loop sq (Unparsable e # rs) = Inl e"
| "icmp_loop sq (Packet echo elapsed # rs) =
     (if echo \<noteq> Some sq then icmp_loop sq rs else Inr elapsed)"

definition icmp_Check :: "icmpIO \<Rightarrow> Options \<Rightarrow> Result" where
  "icmp_Check io opts =
     (let fail = result_Fail ''icmp'' (o_Target opts) (o_Seq opts) in
      if (case SourceIP (o_Bind opts) of None \<Rightarrow> False | Some a \<Rightarrow> \<not> Is4 a)
      then fail ''ICMP check currently supports IPv4 source addresses only''
      else case ic_resolve io opts of
        Inl e \<Rightarrow> fail e
      | Inr dst \<Rightarrow> (case ic_listen io (o_Bind opts) of
          Some e \<Rightarrow> fail (''open icmp socket (is net.ipv4.ping_group_range configured?): '' @ e)
        | None \<Rightarrow> (case ic_write io (word_of_int (echo_seq opts)) of
            Some e \<Rightarrow> fail e
          | None \<Rightarrow> (case icmp_loop (echo_seq opts) (ic_reads io) of
              Inl e \<Rightarrow> fail e
            | Inr elapsed \<Rightarrow> result_Ok ''icmp'' (o_Target opts) (o_Seq opts) elapsed (Some [(''resolved_ip'', GStr dst)])))))"

section \<open>HTTP\<close>

text \<open>A check makes one request on a fresh transport and one on the transport shared by all checks; the shared one
  is known by a number, and replaced when the binding changes.\<close>

datatype transport = Cold Binding | Warm nat Binding

record httpChecker =
  hc_warm :: "(nat \<times> Binding) option"
  hc_made :: nat
  hc_closed :: "nat list"

definition warmTransport :: "Binding \<Rightarrow> httpChecker \<Rightarrow> transport \<times> httpChecker" where
  "warmTransport b c =
     (case hc_warm c of
        Some (n, k) \<Rightarrow>
          if k = b then (Warm n b, c)
          else (Warm (hc_made c) b, c\<lparr>hc_warm := Some (hc_made c, b), hc_made := hc_made c + 1, hc_closed := n # hc_closed c\<rparr>)
      | None \<Rightarrow> (Warm (hc_made c) b, c\<lparr>hc_warm := Some (hc_made c, b), hc_made := hc_made c + 1\<rparr>))"

record roundTripResult =
  rt_httpCode :: int
  rt_dnsMs :: gofloat
  rt_connectMs :: gofloat
  rt_tlsMs :: gofloat
  rt_ttfbMs :: gofloat
  rt_bytes :: int
  rt_elapsed :: duration

definition badStatusCode :: "int list \<Rightarrow> int" where
  "badStatusCode codes = (case List.find (\<lambda>code. code \<ge> 500) codes of None \<Rightarrow> 0 | Some code \<Rightarrow> code)"

datatype statusError = NotStatusCode string | BackwardsRange string | NoStatusCodes

definition parseCode :: "string \<Rightarrow> statusError + int" where
  "parseCode s =
     (let s = TrimSpace s in
      case ParseInt64 s of
        None \<Rightarrow> Inl (NotStatusCode s)
      | Some n \<Rightarrow> if n < 100 \<or> n > 599 then Inl (NotStatusCode s) else Inr n)"

fun status_ranges :: "string list \<Rightarrow> statusError + (int \<times> int) list" where
  "status_ranges [] = Inr []"
| "status_ranges (p # ps) =
     (let part = TrimSpace p in
      if part = [] then status_ranges ps
      else (case Cut part (CHR ''-'') of
              (lo, hi, isRange) \<Rightarrow>
                (case parseCode lo of
                   Inl e \<Rightarrow> Inl e
                 | Inr loN \<Rightarrow>
                     (case (if isRange then parseCode hi else Inr loN) of
                        Inl e \<Rightarrow> Inl e
                      | Inr hiN \<Rightarrow>
                          if hiN < loN then Inl (BackwardsRange part)
                          else (case status_ranges ps of Inl e \<Rightarrow> Inl e | Inr rs \<Rightarrow> Inr ((loN, hiN) # rs))))))"

definition parseStatusSpec :: "string \<Rightarrow> statusError + (int \<times> int) list" where
  "parseStatusSpec spec =
     (case status_ranges (SplitOn (CHR '','') spec) of
        Inl e \<Rightarrow> Inl e
      | Inr rs \<Rightarrow> if rs = [] then Inl NoStatusCodes else Inr rs)"

definition expected :: "(int \<times> int) list \<Rightarrow> int \<Rightarrow> bool" where
  "expected rs code \<longleftrightarrow> list_ex (\<lambda>(lo, hi). lo \<le> code \<and> code \<le> hi) rs"

definition statusErrorText :: "statusError \<Rightarrow> string" where
  "statusErrorText e =
     (case e of
        NotStatusCode s \<Rightarrow> go_quote s @ '' is not an HTTP status code''
      | BackwardsRange p \<Rightarrow> ''range '' @ go_quote p @ '' is backwards''
      | NoStatusCodes \<Rightarrow> ''no status codes given'')"

definition http_extra :: "roundTripResult \<Rightarrow> roundTripResult \<Rightarrow> gomap" where
  "http_extra cold warm =
     [(''http_code'', GInt (rt_httpCode warm)), (''cold_ttfb_ms'', GFloat (rt_ttfbMs cold)), (''warm_ttfb_ms'', GFloat (rt_ttfbMs warm)),
      (''dns_ms'', GFloat (rt_dnsMs cold)), (''connect_ms'', GFloat (rt_connectMs cold)), (''tls_ms'', GFloat (rt_tlsMs cold)),
      (''bytes'', GInt (rt_bytes warm))]"

definition http_judge :: "Options \<Rightarrow> roundTripResult \<Rightarrow> roundTripResult \<Rightarrow> Result" where
  "http_judge opts cold warm =
     (let result = result_Ok ''http'' (o_Target opts) (o_Seq opts) (rt_elapsed warm) (Some (http_extra cold warm));
          spec = Param opts ''expect_status'' []
      in if TrimSpace spec \<noteq> []
         then (case parseStatusSpec spec of
                 Inl e \<Rightarrow> result_Fail ''http'' (o_Target opts) (o_Seq opts) (''expect_status: '' @ statusErrorText e)
               | Inr rs \<Rightarrow>
                   (case List.find (\<lambda>code. \<not> expected rs code) [rt_httpCode cold, rt_httpCode warm] of
                      None \<Rightarrow> result
                    | Some code \<Rightarrow> result\<lparr>r_Ok := False, r_Error := ''http '' @ Itoa code @ '', expected '' @ spec\<rparr>))
         else let bad = badStatusCode [rt_httpCode cold, rt_httpCode warm]
              in if bad \<noteq> 0 then result\<lparr>r_Ok := False, r_Error := ''http '' @ Itoa bad\<rparr> else result)"

definition http_Check ::
  "(transport \<Rightarrow> string \<Rightarrow> string \<Rightarrow> string + roundTripResult) \<Rightarrow> Options \<Rightarrow> httpChecker \<Rightarrow> Result \<times> httpChecker" where
  "http_Check roundTrip opts c =
     (let url = with_scheme (o_Target opts); meth = Param opts ''method'' ''GET'';
          fail = result_Fail ''http'' (o_Target opts) (o_Seq opts)
      in case roundTrip (Cold (o_Bind opts)) meth url of
           Inl e \<Rightarrow> (fail e, c)
         | Inr cold \<Rightarrow>
             (case warmTransport (o_Bind opts) c of
                (t, c) \<Rightarrow>
                  (case roundTrip t meth url of
                     Inl e \<Rightarrow> (fail e, c)
                   | Inr warm \<Rightarrow> (http_judge opts cold warm, c))))"

section \<open>Proxies\<close>

definition defaultTestURL :: string where
  "defaultTestURL = ''https://www.gstatic.com/generate_204''"

datatype proxyReply = ProxyErr string | ProxyAnswer int duration

definition timedGet :: "proxyReply \<Rightarrow> string + gofloat" where
  "timedGet r =
     (case r of
        ProxyErr e \<Rightarrow> Inl e
      | ProxyAnswer status elapsed \<Rightarrow>
          if status < 200 \<or> status \<ge> 300 then Inl (''test_url returned HTTP '' @ Itoa status) else Inr (float_ms elapsed))"

datatype proxyVia = ViaSOCKS5 | ViaHTTP bool

record proxyAttempt =
  pa_via :: proxyVia
  pa_target :: string
  pa_auth :: "(string \<times> string) option"
  pa_testURL :: string
  pa_timeout :: duration
  pa_bind :: Binding

record proxyAcc =
  px_extra :: gomap
  px_best :: "gofloat option"
  px_firstErr :: "string option"

fun float_less :: "gofloat \<Rightarrow> gofloat \<Rightarrow> bool" where
  "float_less (Fin a) (Fin b) = (a < b)"
| "float_less NegInf y = (y \<noteq> NegInf \<and> y \<noteq> NaN)"
| "float_less x PosInf = (x \<noteq> PosInf \<and> x \<noteq> NaN)"
| "float_less _ _ = False"

definition pickBest :: "gofloat option \<Rightarrow> gofloat \<Rightarrow> gofloat option" where
  "pickBest cur v = (case cur of None \<Rightarrow> Some v | Some c \<Rightarrow> if float_less v c then Some v else cur)"

definition proxy_attempt :: "(proxyAttempt \<Rightarrow> proxyReply) \<Rightarrow> string \<Rightarrow> proxyAttempt \<Rightarrow> proxyAcc \<Rightarrow> proxyAcc" where
  "proxy_attempt net name a acc =
     (case timedGet (net a) of
        Inr l \<Rightarrow> acc\<lparr>px_extra := px_extra acc @ [(name @ ''_latency_ms'', GFloat l)], px_best := pickBest (px_best acc) l\<rparr>
      | Inl e \<Rightarrow> acc\<lparr>px_extra := px_extra acc @ [(name @ ''_error'', GStr e)],
                    px_firstErr := (case px_firstErr acc of None \<Rightarrow> Some e | x \<Rightarrow> x)\<rparr>)"

definition proxy_Check :: "(proxyAttempt \<Rightarrow> proxyReply) \<Rightarrow> Options \<Rightarrow> Result" where
  "proxy_Check net opts =
     (let protocol = Param opts ''protocol'' [] in
      if protocol \<noteq> [] \<and> protocol \<noteq> ''socks5'' \<and> protocol \<noteq> ''http''
      then result_Invalid ''proxy'' (o_Target opts) (o_Seq opts)
             (''protocol: expected '' @ go_quote ''socks5'' @ '' or '' @ go_quote ''http'' @ '', got '' @ go_quote protocol)
      else
        let username = Param opts ''username'' []; password = Param opts ''password'' [];
            dual = (protocol = []);
            mk = (\<lambda>via. \<lparr>pa_via = via, pa_target = o_Target opts,
                         pa_auth = (if username \<noteq> [] \<or> password \<noteq> [] then Some (username, password) else None),
                         pa_testURL = Param opts ''test_url'' defaultTestURL,
                         pa_timeout = (if dual then go_div (o_Timeout opts) 2 else o_Timeout opts), pa_bind = o_Bind opts\<rparr>);
            acc = \<lparr>px_extra = [], px_best = None, px_firstErr = None\<rparr>;
            acc = (if dual \<or> protocol = ''socks5'' then proxy_attempt net ''socks5'' (mk ViaSOCKS5) acc else acc);
            acc = (if dual \<or> protocol = ''http'' then proxy_attempt net ''http'' (mk (ViaHTTP (Param opts ''tls'' [] = ''true''))) acc else acc)
        in if px_best acc = None
           then result_zero\<lparr>r_Ok := False, r_Type := ''proxy'', r_Target := o_Target opts, r_Seq := o_Seq opts,
                  r_Error := (case px_firstErr acc of None \<Rightarrow> ''proxy check failed'' | Some e \<Rightarrow> e), r_Extra := Some (px_extra acc)\<rparr>
           else result_zero\<lparr>r_Ok := True, r_Type := ''proxy'', r_Target := o_Target opts, r_Seq := o_Seq opts,
                  r_LatencyMs := px_best acc, r_Extra := Some (px_extra acc)\<rparr>)"

section \<open>The node itself\<close>

record systemChecker =
  sc_sampledAt :: gotime
  sc_bytesSent :: "64 word"
  sc_bytesRecv :: "64 word"

definition system_New :: systemChecker where
  "system_New = \<lparr>sc_sampledAt = time_zero, sc_bytesSent = 0, sc_bytesRecv = 0\<rparr>"

definition sys_isLoopback :: "string \<Rightarrow> bool" where
  "sys_isLoopback name = HasPrefix name ''lo''"

text \<open>The counters of the interfaces: name, bytes sent, bytes received; sums wrap at 64 bits.\<close>

definition count_bytes :: "(string \<times> 64 word \<times> 64 word) list \<Rightarrow> 64 word \<times> 64 word" where
  "count_bytes counters =
     (let cs = filter (\<lambda>(name, _). \<not> sys_isLoopback name) counters
      in (sum_list (map (\<lambda>(_, s, _). s) cs), sum_list (map (\<lambda>(_, _, r). r) cs)))"

definition mbps :: "64 word \<Rightarrow> duration \<Rightarrow> gofloat" where
  "mbps bytes elapsed = Fin (of_nat (unat bytes) * 8 / (of_int elapsed / of_int second) / 1000000)"

definition netThroughputMbps ::
  "(string \<times> 64 word \<times> 64 word) list option \<Rightarrow> gotime \<Rightarrow> systemChecker \<Rightarrow> (gofloat \<times> gofloat) option \<times> systemChecker" where
  "netThroughputMbps counters now c =
     (case counters of
        None \<Rightarrow> (None, c)
      | Some cs \<Rightarrow>
          (case count_bytes cs of
             (sent, recv) \<Rightarrow>
               (let c' = \<lparr>sc_sampledAt = now, sc_bytesSent = sent, sc_bytesRecv = recv\<rparr>;
                    elapsed = time_sub now (sc_sampledAt c)
                in if IsZero (sc_sampledAt c) \<or> sent < sc_bytesSent c \<or> recv < sc_bytesRecv c then (None, c')
                   else if elapsed \<le> 0 then (None, c')
                   else (Some (mbps (recv - sc_bytesRecv c) elapsed, mbps (sent - sc_bytesSent c) elapsed), c'))))"

record systemIO =
  si_load :: "string + gofloat \<times> gofloat \<times> gofloat"
  si_mem :: "string + 64 word \<times> 64 word \<times> gofloat"
  si_uptime :: "string + 64 word"
  si_disk :: "string \<Rightarrow> string + 64 word \<times> 64 word \<times> gofloat"
  si_counters :: "(string \<times> 64 word \<times> 64 word) list option"
  si_now :: gotime
  si_cpu :: "gofloat list option"
  si_elapsed :: duration
  si_goos :: string

definition diskRoot :: "string \<Rightarrow> string" where
  "diskRoot goos = (if goos = ''windows'' then ''C:'' @ [CHR 0x5C] else ''/'')"

definition system_Check :: "systemIO \<Rightarrow> Options \<Rightarrow> systemChecker \<Rightarrow> Result \<times> systemChecker" where
  "system_Check io opts c =
     (let fail = result_Fail ''system'' (o_Target opts) (o_Seq opts) in
      case si_load io of
        Inl e \<Rightarrow> (fail (''read load average: '' @ e), c)
      | Inr (l1, l5, l15) \<Rightarrow> (case si_mem io of
          Inl e \<Rightarrow> (fail (''read memory: '' @ e), c)
        | Inr (total_mem, avail, used) \<Rightarrow> (case si_uptime io of
            Inl e \<Rightarrow> (fail (''read uptime: '' @ e), c)
          | Inr up \<Rightarrow> (case si_disk io (diskRoot (si_goos io)) of
              Inl e \<Rightarrow> (fail (''read disk usage: '' @ e), c)
            | Inr (dtotal, dfree, dused) \<Rightarrow>
                (case netThroughputMbps (si_counters io) (si_now io) c of
                   (rate, c) \<Rightarrow>
                     (result_Ok ''system'' (o_Target opts) (o_Seq opts) (si_elapsed io)
                        (Some ([(''load1'', GFloat l1), (''load5'', GFloat l5), (''load15'', GFloat l15),
                                (''mem_total_bytes'', GInt (sint total_mem)), (''mem_available_bytes'', GInt (sint avail)),
                                (''mem_used_percent'', GFloat used), (''disk_total_bytes'', GInt (sint dtotal)),
                                (''disk_free_bytes'', GInt (sint dfree)), (''disk_used_percent'', GFloat dused),
                                (''uptime_seconds'', GFloat (Fin (of_nat (unat up))))]
                          @ (case rate of None \<Rightarrow> [] | Some (i, ot) \<Rightarrow> [(''net_in_mbps'', GFloat i), (''net_out_mbps'', GFloat ot)])
                          @ (case si_cpu io of Some (p # _) \<Rightarrow> [(''cpu_percent'', GFloat p)] | _ \<Rightarrow> []))), c))))))"

section \<open>The action table\<close>

record nativeIO =
  ni_tcp :: tcpIO
  ni_udp :: udpIO
  ni_dns :: "dnsResolver \<Rightarrow> dnsIO"
  ni_icmp :: icmpIO
  ni_http :: "transport \<Rightarrow> string \<Rightarrow> string \<Rightarrow> string + roundTripResult"
  ni_system :: systemIO
  ni_fetch :: fetchEnv
  ni_server :: "httpRequest \<Rightarrow> fetchReply"
  ni_proxy :: "proxyAttempt \<Rightarrow> proxyReply"
  ni_elapsed :: duration

text \<open>The checkers with state are shared by every module that names their action.\<close>

record nativeState =
  ns_http :: httpChecker
  ns_system :: systemChecker

definition run_action :: "nativeIO \<Rightarrow> string \<Rightarrow> Options \<Rightarrow> nativeState \<Rightarrow> (Result \<times> nativeState) option" where
  "run_action io name opts s =
     (if name = ''tcp_connect'' then Some (tcp_Check (ni_tcp io) opts, s)
      else if name = ''udp_probe'' then Some (udp_Check (ni_udp io) opts, s)
      else if name = ''dns_query'' then Some (dns_Check (ni_dns io) (ni_elapsed io) opts, s)
      else if name = ''icmp_ping'' then Some (icmp_Check (ni_icmp io) opts, s)
      else if name = ''http_request''
      then (case http_Check (ni_http io) opts (ns_http s) of (r, c) \<Rightarrow> Some (r, s\<lparr>ns_http := c\<rparr>))
      else if name = ''system_stats''
      then (case system_Check (ni_system io) opts (ns_system s) of (r, c) \<Rightarrow> Some (r, s\<lparr>ns_system := c\<rparr>))
      else if name = ''http_fetch'' then Some (fetch_Check (ni_fetch io) (ni_server io) (ni_elapsed io) opts, s)
      else if name = ''proxy_connect'' then Some (proxy_Check (ni_proxy io) opts, s)
      else None)"

text \<open>A result that answers the options it was asked for.\<close>

definition well_formed :: "Options \<Rightarrow> Result \<Rightarrow> bool" where
  "well_formed opts r \<longleftrightarrow>
     \<not> r_Skip r \<and> r_Seq r = o_Seq opts \<and> r_Target r = o_Target opts \<and> r_Type r \<noteq> []
     \<and> (r_Ok r \<longrightarrow> r_Error r = [] \<and> r_ErrorCode r = [] \<and> (r_LatencyMs r \<noteq> None \<or> r_Type r = ''udp''))
     \<and> (r_ErrorCode r \<noteq> [] \<longrightarrow> r_ErrorCode r = ErrorCodeInvalidParams)"

lemma well_formed_results [simp]:
  "t \<noteq> [] \<Longrightarrow> well_formed opts (result_Ok t (o_Target opts) (o_Seq opts) d x)"
  "t \<noteq> [] \<Longrightarrow> well_formed opts (result_Fail t (o_Target opts) (o_Seq opts) e)"
  "t \<noteq> [] \<Longrightarrow> well_formed opts (result_Invalid t (o_Target opts) (o_Seq opts) e)"
  "t \<noteq> [] \<Longrightarrow> well_formed opts ((result_Ok t (o_Target opts) (o_Seq opts) d x)\<lparr>r_Ok := False, r_Error := e\<rparr>)"
  by (simp_all add: well_formed_def result_defs)

lemma tcp_well_formed: "well_formed opts (tcp_Check io opts)"
  by (simp add: tcp_Check_def split: prod.split option.split sum.split)

lemma udp_well_formed: "well_formed opts (udp_Check io opts)"
  by (simp add: udp_Check_def Let_def split: option.split udpRead.split) (simp add: well_formed_def result_zero_def)

lemma dns_well_formed: "well_formed opts (dns_Check io d opts)"
  by (simp add: dns_Check_def Let_def split: sum.split prod.split)

lemma icmp_well_formed: "well_formed opts (icmp_Check io opts)"
  by (simp add: icmp_Check_def Let_def split: option.split sum.split)

lemma http_well_formed: "well_formed opts (fst (http_Check rt opts c))"
  by (simp add: http_Check_def http_judge_def Let_def split: sum.split prod.split option.split)

lemma system_well_formed: "well_formed opts (fst (system_Check io opts c))"
  by (simp add: system_Check_def Let_def split: sum.split prod.split)

lemma fetch_well_formed: "well_formed opts (fetch_Check env server d opts)"
  by (simp add: fetch_Check_def Let_def split: sum.split option.split prod.split)

lemma proxy_well_formed: "well_formed opts (proxy_Check net opts)"
  by (simp add: proxy_Check_def Let_def) (auto simp: well_formed_def result_zero_def)

lemmas native_well_formed = tcp_well_formed udp_well_formed dns_well_formed icmp_well_formed http_well_formed
  system_well_formed fetch_well_formed proxy_well_formed

text \<open>C26. Every action a module may name is implemented, and whatever the network and the machine do it answers
  its own check: exactly the names validation accepts run, and each run gives a result that carries
  the target and the sequence number asked for, is never skipped, has an error only when it failed, a latency when it
  succeeded (a silent UDP service apart), and no error code but the one for invalid parameters.\<close>

theorem actions_answer_their_check:
  "if name \<in> set action_names
   then (\<exists>r s'. run_action io name opts s = Some (r, s') \<and> well_formed opts r)
   else run_action io name opts s = None"
proof (cases "name \<in> set action_names")
  case True
  moreover have "well_formed opts r" if "http_Check (ni_http io) opts (ns_http s) = (r, c)" for r c
    using that http_well_formed by (metis fst_conv)
  moreover have "well_formed opts r" if "system_Check (ni_system io) opts (ns_system s) = (r, c)" for r c
    using that system_well_formed by (metis fst_conv)
  ultimately show ?thesis
    by (cases "http_Check (ni_http io) opts (ns_http s)"; cases "system_Check (ni_system io) opts (ns_system s)")
      (auto simp: action_names_def run_action_def native_well_formed)
qed (simp add: action_names_def run_action_def)

section \<open>Expected statuses\<close>

definition print_range :: "int \<times> int \<Rightarrow> string" where
  "print_range r = (if fst r = snd r then Itoa (fst r) else Itoa (fst r) @ ''-'' @ Itoa (snd r))"

definition print_spec :: "(int \<times> int) list \<Rightarrow> string" where
  "print_spec rs = Join (map print_range rs) '',''"

definition valid_ranges :: "(int \<times> int) list \<Rightarrow> bool" where
  "valid_ranges rs \<longleftrightarrow> rs \<noteq> [] \<and> list_all (\<lambda>(lo, hi). 100 \<le> lo \<and> lo \<le> hi \<and> hi \<le> 599) rs"

lemma digit_not_space: "is_digit c \<Longrightarrow> \<not> is_space c"
  by (auto simp: is_digit_def is_space_def Let_def)

lemma minus_not_space: "\<not> is_space (CHR ''-'')"
  by (simp add: is_space_def)

lemma Itoa_nonneg_no_minus: "0 \<le> n \<Longrightarrow> CHR ''-'' \<notin> set (Itoa n)"
  using dec_digits_digits [of "nat n"] is_digit_minus by (auto simp: Itoa_def list_all_iff)

lemma Itoa_no_space: "c \<in> set (Itoa n) \<Longrightarrow> \<not> is_space c"
  using Itoa_chars digit_not_space minus_not_space by blast

lemma print_range_chars: "c \<in> set (print_range r) \<Longrightarrow> is_digit c \<or> c = CHR ''-''"
  using Itoa_chars by (auto simp: print_range_def split: if_splits)

lemma print_range_trim [simp]: "TrimSpace (print_range r) = print_range r"
  using print_range_chars digit_not_space minus_not_space by (intro TrimSpace_id) blast

lemma print_range_ne [simp]: "print_range r \<noteq> []"
  by (simp add: print_range_def Itoa_def)

lemma Cut_none: "c \<notin> set s \<Longrightarrow> Cut s c = (s, [], False)"
  by (induction s) auto

lemma Cut_at: "c \<notin> set s \<Longrightarrow> Cut (s @ c # t) c = (s, t, True)"
  by (induction s) auto

lemma parseCode_Itoa: "100 \<le> n \<Longrightarrow> n \<le> 599 \<Longrightarrow> parseCode (Itoa n) = Inr n"
  using TrimSpace_id [of "Itoa n"] Itoa_no_space ParseInt64_Itoa [of n] by (auto simp: parseCode_def)

lemma status_ranges_print:
  "list_all (\<lambda>(lo, hi). 100 \<le> lo \<and> lo \<le> hi \<and> hi \<le> 599) rs \<Longrightarrow> status_ranges (map print_range rs) = Inr rs"
proof (induction rs)
  case (Cons r rs)
  obtain lo hi where r: "r = (lo, hi)" by (cases r)
  then have b: "100 \<le> lo" "lo \<le> hi" "hi \<le> 599" using Cons.prems by auto
  have cut: "Cut (print_range r) (CHR ''-'') = (if lo = hi then (Itoa lo, [], False) else (Itoa lo, Itoa hi, True))"
    using r b Itoa_nonneg_no_minus [of lo] by (auto simp: print_range_def Cut_none Cut_at)
  have "parseCode (Itoa lo) = Inr lo" "parseCode (Itoa hi) = Inr hi" using b by (auto intro: parseCode_Itoa)
  then show ?case using Cons r b cut by (auto simp: Let_def)
qed simp

lemma parseStatusSpec_print:
  assumes "valid_ranges rs"
  shows "parseStatusSpec (print_spec rs) = Inr rs"
proof -
  have "CHR '','' \<notin> set (print_range r)" for r
    using print_range_chars [of "CHR '',''" r] by (auto simp: is_digit_def)
  then have "SplitOn (CHR '','') (print_spec rs) = map print_range rs"
    using assms unfolding print_spec_def by (intro SplitOn_Join) (auto simp: valid_ranges_def)
  then show ?thesis using assms status_ranges_print by (simp add: parseStatusSpec_def valid_ranges_def)
qed

lemma print_spec_not_blank: "valid_ranges rs \<Longrightarrow> TrimSpace (print_spec rs) \<noteq> []"
proof
  assume v: "valid_ranges rs" and blank: "TrimSpace (print_spec rs) = []"
  obtain r rs' where rs: "rs = r # rs'" using v by (cases rs) (auto simp: valid_ranges_def)
  obtain c t where c: "print_range r = c # t" by (cases "print_range r") auto
  have mem: "c \<in> set (print_spec rs)" unfolding print_spec_def rs using c by (cases rs') auto
  have "\<not> is_space c" using print_range_chars [of c r] c digit_not_space minus_not_space by auto
  moreover have "is_space d" if "d \<in> set (print_spec rs)" for d
    using blank that unfolding TrimSpace_def
    by (metis dropWhile_eq_Nil_conv rev_is_Nil_conv set_rev dropWhile.simps(1) hd_dropWhile hd_in_set list.set_sel(1) set_dropWhileD)
  ultimately show False using mem by blast
qed

text \<open>C28. The status expectation of an HTTP check means what its list says: for every non-empty list of codes and
  ranges between 100 and 599, written with commas and dashes, a check both of whose requests are answered succeeds
  exactly when the cold and the warm status both lie in the list, whether or not they are errors by the
  default rule; without an expectation it succeeds exactly when neither status is 500 or above.\<close>

theorem http_expectation_exact:
  assumes "roundTrip (Cold (o_Bind opts)) (Param opts ''method'' ''GET'') (with_scheme (o_Target opts)) = Inr cold"
    and "roundTrip (fst (warmTransport (o_Bind opts) c)) (Param opts ''method'' ''GET'') (with_scheme (o_Target opts)) = Inr warm"
    and "rs = [] \<and> Param opts ''expect_status'' [] = [] \<or> valid_ranges rs \<and> Param opts ''expect_status'' [] = print_spec rs"
  shows "r_Ok (fst (http_Check roundTrip opts c)) \<longleftrightarrow>
     (if rs = [] then rt_httpCode cold < 500 \<and> rt_httpCode warm < 500
      else (\<exists>(lo, hi) \<in> set rs. lo \<le> rt_httpCode cold \<and> rt_httpCode cold \<le> hi)
         \<and> (\<exists>(lo, hi) \<in> set rs. lo \<le> rt_httpCode warm \<and> rt_httpCode warm \<le> hi))"
proof -
  have check: "fst (http_Check roundTrip opts c) = http_judge opts cold warm"
    using assms(1,2) by (simp add: http_Check_def Let_def case_prod_beta split: sum.split)
  show ?thesis
  proof (cases "rs = []")
    case True
    then have "Param opts ''expect_status'' [] = []" using assms(3) by (auto simp: valid_ranges_def)
    then show ?thesis using True unfolding check
      by (auto simp: http_judge_def Let_def TrimSpace_def badStatusCode_def result_Ok_def)
  next
    case False
    then have v: "valid_ranges rs" "Param opts ''expect_status'' [] = print_spec rs" using assms(3) by auto
    show ?thesis using False unfolding check
      by (simp add: http_judge_def Let_def v print_spec_not_blank [OF v(1)] parseStatusSpec_print [OF v(1)] result_Ok_def
          expected_def list_ex_iff split: option.split)
  qed
qed

definition demo_trip :: "transport \<Rightarrow> string \<Rightarrow> string \<Rightarrow> string + roundTripResult" where
  "demo_trip t meth url = Inr \<lparr>rt_httpCode = (case t of Cold _ \<Rightarrow> 503 | Warm _ _ \<Rightarrow> 204), rt_dnsMs = Fin 1, rt_connectMs = Fin 1,
     rt_tlsMs = Fin 1, rt_ttfbMs = Fin 1, rt_bytes = 0, rt_elapsed = 5\<rparr>"

definition demo_http_options :: Options where
  "demo_http_options = (demo_options 1)\<lparr>o_Params := [(''expect_status'', GStr ''200-299,503'')]\<rparr>"

theorem http_expectation_exact_witness:
  "r_Ok (fst (http_Check demo_trip demo_http_options \<lparr>hc_warm = None, hc_made = 0, hc_closed = []\<rparr>))"
proof -
  have s: "valid_ranges [(200, 299), (503, 503)] \<and> Param demo_http_options ''expect_status'' [] = print_spec [(200, 299), (503, 503)]"
    by code_simp
  obtain cold where c: "demo_trip (Cold (o_Bind demo_http_options)) (Param demo_http_options ''method'' ''GET'') (with_scheme (o_Target demo_http_options)) = Inr cold"
      "rt_httpCode cold = 503" by (simp add: demo_trip_def)
  obtain warm where w: "demo_trip (fst (warmTransport (o_Bind demo_http_options) \<lparr>hc_warm = None, hc_made = 0, hc_closed = []\<rparr>))
        (Param demo_http_options ''method'' ''GET'') (with_scheme (o_Target demo_http_options)) = Inr warm"
      "rt_httpCode warm = 204" by (simp add: demo_trip_def warmTransport_def)
  have "[(200 :: int, 299 :: int), (503, 503)] = [] \<and> Param demo_http_options ''expect_status'' [] = []
      \<or> valid_ranges [(200, 299), (503, 503)] \<and> Param demo_http_options ''expect_status'' [] = print_spec [(200, 299), (503, 503)]"
    using s by blast
  from http_expectation_exact [where roundTrip = demo_trip and opts = demo_http_options, OF c(1) w(1) this] show ?thesis using c(2) w(2) by simp
qed

section \<open>Echo numbers and rates\<close>

text \<open>A ping succeeds with the first packet that carries its number; the packets before it do not.\<close>

lemma icmp_loop_Inr:
  "icmp_loop sq rs = Inr d \<longleftrightarrow>
     (\<exists>pre post. rs = pre @ Packet (Some sq) d # post \<and> list_all (\<lambda>r. \<exists>e t. r = Packet e t \<and> e \<noteq> Some sq) pre)"
proof (induction sq rs rule: icmp_loop.induct)
  case (4 sq echo elapsed rs)
  show ?case
  proof (cases "echo = Some sq")
    case True
    then show ?thesis by (auto simp: Cons_eq_append_conv list_all_iff)
  next
    case False
    then show ?thesis using 4 by (fastforce simp: Cons_eq_append_conv)
  qed
qed (auto simp: Cons_eq_append_conv)

text \<open>A number beyond sixteen bits is cut on the wire, so no reply ever carries it and the check fails.\<close>

lemma icmp_number_beyond_16_bits:
  assumes "o_Seq opts \<ge> 65536" "\<And>e d. Packet (Some e) d \<in> set (ic_reads io) \<Longrightarrow> 0 \<le> e \<and> e < 65536"
  shows "\<not> r_Ok (icmp_Check io opts)"
proof -
  have "icmp_loop (echo_seq opts) (ic_reads io) \<noteq> Inr d" for d
    using assms icmp_loop_Inr [of "echo_seq opts" "ic_reads io" d] by (fastforce simp: echo_seq_def)
  then show ?thesis by (auto simp: icmp_Check_def Let_def split: option.splits sum.splits)
qed

text \<open>Rates are exact and never negative, and need two samples in order.\<close>

lemma throughput_exact:
  assumes "netThroughputMbps (Some cs) now c = (Some (i, u), c')"
  shows "sc_sampledAt c < now" and "\<exists>q. i = Fin q \<and> 0 \<le> q
      \<and> q * (of_int (time_sub now (sc_sampledAt c)) / of_int second) * 1000000 = of_nat (8 * (unat (snd (count_bytes cs)) - unat (sc_bytesRecv c)))"
proof -
  obtain sent recv where b: "count_bytes cs = (sent, recv)" by fastforce
  define el where "el = time_sub now (sc_sampledAt c)"
  have r: "sc_bytesRecv c \<le> recv" "0 < el" "i = mbps (recv - sc_bytesRecv c) el"
    using assms b by (auto simp: netThroughputMbps_def Let_def el_def not_less split: if_splits)
  then show "sc_sampledAt c < now" using time_sub_ge_iff [of 1 now "sc_sampledAt c"] by (simp add: el_def)
  have "unat (recv - sc_bytesRecv c) = unat recv - unat (sc_bytesRecv c)" using r(1) by (simp add: unat_sub)
  then show "\<exists>q. i = Fin q \<and> 0 \<le> q
      \<and> q * (of_int (time_sub now (sc_sampledAt c)) / of_int second) * 1000000 = of_nat (8 * (unat (snd (count_bytes cs)) - unat (sc_bytesRecv c)))"
    using r(2,3) b unfolding el_def [symmetric] by (simp add: mbps_def second_def)
qed

end
