(* ===== verification/Api_Client.thy ===== *)
theory Api_Client
  imports Registry Filepath
begin

text \<open>
  The HTTP client of the node's own control traffic (\<^verbatim>\<open>internal/apiclient/client.go\<close>), the requests and
  answers of its endpoints (\<^verbatim>\<open>internal/wire/wire.go\<close>), and the upload of the modules a heartbeat was
  rejected for (\<^verbatim>\<open>uploadMissingModules\<close> in \<^verbatim>\<open>internal/agent/agent.go\<close>). The server, URL parsing and the JSON
  encoding of each message are arguments.
\<close>

section \<open>Transport\<close>

datatype apiTransport = DirectTransport | ProxyTransport string | SocksTransport string

datatype apiError =
    BadProxyURL string
  | BadSocksDialer
  | UnsupportedScheme string
  | EncodeFailed
  | BadRequestURL string
  | ExchangeFailed
  | ReadFailed
  | StatusError int string
  | EmptyBody
  | NullBody
  | DecodeFailed

text \<open>\<open>scheme\<close> is the scheme \<^verbatim>\<open>url.Parse\<close> finds, and \<open>socks\<close> whether \<^verbatim>\<open>proxy.FromURL\<close> accepts the URL.\<close>

definition BuildTransport :: "(string \<Rightarrow> string option) \<Rightarrow> (string \<Rightarrow> bool) \<Rightarrow> string \<Rightarrow> apiError + apiTransport" where
  "BuildTransport scheme socks proxyURL =
     (if proxyURL = [] then Inr DirectTransport
      else case scheme proxyURL of
        None \<Rightarrow> Inl (BadProxyURL proxyURL)
      | Some s \<Rightarrow>
          if s = ''http'' \<or> s = ''https'' then Inr (ProxyTransport proxyURL)
          else if s = ''socks5'' \<or> s = ''socks5h''
          then (if socks proxyURL then Inr (SocksTransport proxyURL) else Inl BadSocksDialer)
          else Inl (UnsupportedScheme s))"

record Client =
  cl_baseURL :: string
  cl_apiKey :: string
  cl_transport :: apiTransport
  cl_timeout :: duration

definition New :: "(string \<Rightarrow> string option) \<Rightarrow> (string \<Rightarrow> bool) \<Rightarrow> string \<Rightarrow> string \<Rightarrow> string \<Rightarrow> apiError + Client" where
  "New scheme socks baseURL apiKey proxyURL =
     (case BuildTransport scheme socks proxyURL of
        Inl e \<Rightarrow> Inl e
      | Inr t \<Rightarrow> Inr \<lparr>cl_baseURL = strip_slashes baseURL, cl_apiKey = apiKey, cl_transport = t, cl_timeout = 30 * second\<rparr>)"

section \<open>One exchange\<close>

record apiRequest =
  hq_method :: string
  hq_url :: string
  hq_headers :: "(string \<times> string) list"
  hq_body :: "string option"

text \<open>An answer has a status and the bytes of its body, \<open>None\<close> if reading them fails; no answer at all is a
  failed exchange.\<close>

record httpResponse =
  hp_StatusCode :: int
  hp_Body :: "string option"

record httpEnv =
  he_url_ok :: "string \<Rightarrow> bool"
  he_server :: "apiRequest \<Rightarrow> httpResponse option"

definition maxBody :: nat where "maxBody = 4 * 1048576"

definition request_of :: "Client \<Rightarrow> string \<Rightarrow> string \<Rightarrow> string option \<Rightarrow> apiRequest" where
  "request_of c method path body =
     \<lparr>hq_method = method, hq_url = cl_baseURL c @ path,
      hq_headers = (''Authorization'', ''Bearer '' @ cl_apiKey c)
        # (if body \<noteq> None then [(''Content-Type'', ''application/json'')] else []),
      hq_body = body\<rparr>"

text \<open>What \<^verbatim>\<open>do\<close> makes of an answer. \<open>dec\<close> is \<open>None\<close> when the caller expects no body.\<close>

definition read_answer :: "(string \<Rightarrow> 'o option) option \<Rightarrow> httpResponse \<Rightarrow> apiError + 'o option" where
  "read_answer dec resp =
     (case hp_Body resp of
        None \<Rightarrow> Inl ReadFailed
      | Some full \<Rightarrow>
          (let respBody = take maxBody full in
           if hp_StatusCode resp \<ge> 400 then Inl (StatusError (hp_StatusCode resp) respBody)
           else case dec of
             None \<Rightarrow> Inr None
           | Some decode \<Rightarrow>
               (let trimmed = TrimSpace respBody in
                if trimmed = [] then Inl EmptyBody
                else if trimmed = ''null'' then Inl NullBody
                else case decode trimmed of None \<Rightarrow> Inl DecodeFailed | Some x \<Rightarrow> Inr (Some x))))"

text \<open>\<open>body\<close> is \<open>None\<close> for a nil body and \<open>Some None\<close> for one that does not encode.\<close>

definition client_do ::
  "httpEnv \<Rightarrow> Client \<Rightarrow> string \<Rightarrow> string \<Rightarrow> string option option \<Rightarrow> (string \<Rightarrow> 'o option) option \<Rightarrow> apiError + 'o option" where
  "client_do env c method path body dec =
     (if body = Some None then Inl EncodeFailed
      else if \<not> he_url_ok env (cl_baseURL c @ path) then Inl (BadRequestURL (cl_baseURL c @ path))
      else case he_server env (request_of c method path (case body of None \<Rightarrow> None | Some b \<Rightarrow> b)) of
        None \<Rightarrow> Inl ExchangeFailed
      | Some resp \<Rightarrow> read_answer dec resp)"

definition StatusError_Error :: "int \<Rightarrow> string \<Rightarrow> string" where
  "StatusError_Error code body = ''radar-api returned '' @ Itoa code @ '': '' @ body"

section \<open>Endpoints\<close>

definition SpecVersion :: int where "SpecVersion = 2"

definition HeartbeatErrorModulesOutOfSync :: string where
  "HeartbeatErrorModulesOutOfSync = ''modules_out_of_sync''"

record HeartbeatRejection =
  hj_Error :: string
  hj_MissingProberIDs :: "string list"
  hj_NodeStatus :: string
  hj_HeartbeatIntervalSecs :: int

record ModuleUpload =
  mu_ProberID :: string
  mu_FileHash :: string
  mu_YAML :: string
  mu_Manifest :: Manifest

record ModulesUploadRequest =
  mr_SpecVersion :: int
  mr_NodeID :: string
  mr_Modules :: "ModuleUpload list"

record ModulesUploadResponse =
  mp_SpecVersion :: int
  mp_Stored :: int

text \<open>A call with a decoder either fails or has a value.\<close>

definition decoded :: "apiError + 'o option \<Rightarrow> apiError + 'o" where
  "decoded r = (case r of Inl e \<Rightarrow> Inl e | Inr None \<Rightarrow> Inl DecodeFailed | Inr (Some x) \<Rightarrow> Inr x)"

definition PostResults ::
  "httpEnv \<Rightarrow> (ResultsRequest \<Rightarrow> string option) \<Rightarrow> (string \<Rightarrow> ResultsResponse option) \<Rightarrow> Client \<Rightarrow> ResultsRequest
    \<Rightarrow> apiError + ResultsResponse" where
  "PostResults env enc dec c req =
     decoded (client_do env c ''POST'' ''/v1/nodes/results'' (Some (enc (req\<lparr>rq_SpecVersion := SpecVersion\<rparr>))) (Some dec))"

text \<open>The request of a heartbeat is an argument of its own type; \<open>enc\<close> sets its version and encodes it.\<close>

datatype heartbeatError = HeartbeatRejectedError HeartbeatRejection | HeartbeatFailed apiError

definition Heartbeat ::
  "httpEnv \<Rightarrow> (int \<Rightarrow> 'q \<Rightarrow> string option) \<Rightarrow> (string \<Rightarrow> HeartbeatResponse option) \<Rightarrow> (string \<Rightarrow> HeartbeatRejection option)
    \<Rightarrow> Client \<Rightarrow> 'q \<Rightarrow> heartbeatError + HeartbeatResponse" where
  "Heartbeat env enc dec decRejection c req =
     (case decoded (client_do env c ''POST'' ''/v1/nodes/heartbeat'' (Some (enc SpecVersion req)) (Some dec)) of
        Inr resp \<Rightarrow> Inr resp
      | Inl err \<Rightarrow>
          (case err of
             StatusError code body \<Rightarrow>
               if code = 409
               then (case decRejection body of
                       Some rejection \<Rightarrow>
                         if hj_Error rejection = HeartbeatErrorModulesOutOfSync then Inl (HeartbeatRejectedError rejection)
                         else Inl (HeartbeatFailed err)
                     | None \<Rightarrow> Inl (HeartbeatFailed err))
               else Inl (HeartbeatFailed err)
           | _ \<Rightarrow> Inl (HeartbeatFailed err)))"

definition UploadModules ::
  "httpEnv \<Rightarrow> (ModulesUploadRequest \<Rightarrow> string option) \<Rightarrow> (string \<Rightarrow> ModulesUploadResponse option) \<Rightarrow> Client
    \<Rightarrow> ModulesUploadRequest \<Rightarrow> apiError + ModulesUploadResponse" where
  "UploadModules env enc dec c req =
     decoded (client_do env c ''POST'' ''/v1/nodes/modules'' (Some (enc (req\<lparr>mr_SpecVersion := SpecVersion\<rparr>))) (Some dec))"

definition AckAction :: "httpEnv \<Rightarrow> (string \<Rightarrow> string option) \<Rightarrow> Client \<Rightarrow> string \<Rightarrow> apiError option" where
  "AckAction env enc c actionID =
     (case client_do env c ''POST'' ''/v1/nodes/ack'' (Some (enc actionID)) (None :: (string \<Rightarrow> unit option) option) of
        Inl e \<Rightarrow> Some e
      | Inr _ \<Rightarrow> None)"

section \<open>Uploading missing modules\<close>

definition upload_of :: "registry \<Rightarrow> string \<Rightarrow> ModuleUpload option" where
  "upload_of r proberID =
     map_option (\<lambda>(yaml, hash, manifest). \<lparr>mu_ProberID = proberID, mu_FileHash = hash, mu_YAML = yaml, mu_Manifest = manifest\<rparr>)
       (RawYAML r proberID)"

definition uploadMissingModules ::
  "httpEnv \<Rightarrow> (ModulesUploadRequest \<Rightarrow> string option) \<Rightarrow> (string \<Rightarrow> ModulesUploadResponse option) \<Rightarrow> Client \<Rightarrow> string
    \<Rightarrow> registry \<Rightarrow> string list \<Rightarrow> apiError option" where
  "uploadMissingModules env enc dec c nodeID r proberIDs =
     (let modules = List.map_filter (upload_of r) proberIDs in
      if modules = [] then None
      else case UploadModules env enc dec c \<lparr>mr_SpecVersion = 0, mr_NodeID = nodeID, mr_Modules = modules\<rparr> of
        Inl e \<Rightarrow> Some e
      | Inr _ \<Rightarrow> None)"

section \<open>Which answers count\<close>

text \<open>An answer no endpoint with a body may take for a success: an error status, an unreadable body, a blank
  one or a JSON null.\<close>

definition unusable :: "httpResponse \<Rightarrow> bool" where
  "unusable resp \<longleftrightarrow> hp_StatusCode resp \<ge> 400 \<or>
     (case hp_Body resp of None \<Rightarrow> True | Some b \<Rightarrow> TrimSpace (take maxBody b) \<in> {[], ''null''})"

lemma read_answer_Inr:
  "read_answer (Some decode) resp = Inr v \<longleftrightarrow>
     \<not> unusable resp \<and> (\<exists>b x. hp_Body resp = Some b \<and> decode (TrimSpace (take maxBody b)) = Some x \<and> v = Some x)"
  by (auto simp: read_answer_def unusable_def Let_def split: option.splits)

lemma client_do_Inr:
  "client_do env c method path (Some (Some body)) (Some decode) = Inr v \<longleftrightarrow>
     he_url_ok env (cl_baseURL c @ path) \<and>
     (\<exists>resp. he_server env (request_of c method path (Some body)) = Some resp \<and> read_answer (Some decode) resp = Inr v)"
  by (auto simp: client_do_def split: option.splits)

text \<open>With a decoder the unit outcome does not occur, so \<open>decoded\<close> never replaces an answer by an error.\<close>

lemma client_do_not_empty: "client_do env c method path body (Some decode) \<noteq> Inr None"
  by (auto simp: client_do_def read_answer_Inr split: option.splits if_splits)

lemma decoded_Inr: "decoded r = Inr x \<longleftrightarrow> r = Inr (Some x)"
  by (auto simp: decoded_def split: sum.splits option.splits)

definition refuses :: "httpEnv \<Rightarrow> bool" where
  "refuses env \<longleftrightarrow> (\<forall>q resp. he_server env q = Some resp \<longrightarrow> unusable resp)"

lemma client_do_refused:
  assumes "refuses env"
  shows "\<exists>e. client_do env c method path body (Some decode) = Inl e"
proof (cases "client_do env c method path body (Some decode)")
  case (Inr v)
  then obtain b where "body = None \<or> body = Some (Some b)" by (cases body) (auto simp: client_do_def split: if_splits)
  with Inr assms show ?thesis by (auto simp: client_do_def refuses_def read_answer_Inr split: option.splits if_splits)
qed simp

lemma PostResults_refused: "refuses env \<Longrightarrow> \<exists>e. PostResults env enc dec c req = Inl e"
  using client_do_refused unfolding PostResults_def decoded_def by (metis sum.simps(5))

lemma Heartbeat_refused: "refuses env \<Longrightarrow> \<exists>e. Heartbeat env enc dec decRejection c req = Inl e"
proof -
  assume "refuses env"
  from client_do_refused [OF this] obtain e
    where "decoded (client_do env c ''POST'' ''/v1/nodes/heartbeat'' (Some (enc SpecVersion req)) (Some dec)) = Inl e"
    unfolding decoded_def by (metis sum.simps(5))
  then show ?thesis unfolding Heartbeat_def by (simp split: apiError.split option.split)
qed

text \<open>What a caller learns from a heartbeat: a response is one the server sent with a status below 400 and a
  body that decodes; a rejection is a 409 that names the modules the server misses.\<close>

lemma Heartbeat_answer:
  assumes "Heartbeat env enc dec decRejection c req = Inr resp"
  shows "\<exists>q a b. he_server env q = Some a \<and> \<not> unusable a \<and> hp_Body a = Some b \<and> dec (TrimSpace (take maxBody b)) = Some resp"
proof -
  let ?path = "''/v1/nodes/heartbeat''"
  have d: "client_do env c ''POST'' ?path (Some (enc SpecVersion req)) (Some dec) = Inr (Some resp)"
    using assms unfolding decoded_Inr [symmetric]
    by (auto simp: Heartbeat_def split: sum.splits apiError.splits option.splits if_splits)
  then obtain body where "enc SpecVersion req = Some body" by (cases "enc SpecVersion req") (simp_all add: client_do_def)
  with d have "client_do env c ''POST'' ?path (Some (Some body)) (Some dec) = Inr (Some resp)" by simp
  then obtain a where "he_server env (request_of c ''POST'' ?path (Some body)) = Some a" "read_answer (Some dec) a = Inr (Some resp)"
    unfolding client_do_Inr by auto
  then show ?thesis unfolding read_answer_Inr by blast
qed

lemma Heartbeat_rejection:
  assumes "Heartbeat env enc dec decRejection c req = Inl (HeartbeatRejectedError rej)"
  shows "hj_Error rej = HeartbeatErrorModulesOutOfSync \<and>
     (\<exists>q a b. he_server env q = Some a \<and> hp_StatusCode a = 409 \<and> hp_Body a = Some b \<and> decRejection (take maxBody b) = Some rej)"
proof -
  obtain body where b: "client_do env c ''POST'' ''/v1/nodes/heartbeat'' (Some (enc SpecVersion req)) (Some dec) = Inl (StatusError 409 body)"
    "decRejection body = Some rej" "hj_Error rej = HeartbeatErrorModulesOutOfSync"
    using assms by (auto simp: Heartbeat_def decoded_def split: sum.splits apiError.splits option.splits if_splits)
  then obtain q a where q: "he_server env q = Some a" "read_answer (Some dec) a = Inl (StatusError 409 body)"
    by (auto simp: client_do_def split: option.splits if_splits)
  then have "hp_StatusCode a = 409 \<and> (\<exists>full. hp_Body a = Some full \<and> body = take maxBody full)"
    by (auto simp: read_answer_def Let_def split: option.splits if_splits)
  with b q(1) show ?thesis by blast
qed

section \<open>Uploads\<close>

text \<open>Exactly the named modules that are loaded are uploaded, each with the hash and the YAML the registry
  holds for it; nothing is sent when none of them is.\<close>

lemma upload_of_sel:
  "upload_of r i = Some u \<Longrightarrow> mu_ProberID u = i \<and> (\<exists>e. map_of r i = Some e \<and> mu_FileHash u = e_fileHash e
     \<and> mu_YAML u = e_rawYAML e \<and> mu_Manifest u = e_manifest e)"
  by (auto simp: upload_of_def RawYAML_def)

lemma uploads_named:
  "map mu_ProberID (List.map_filter (upload_of r) ids) = filter (\<lambda>i. i \<in> fst ` set r) ids"
proof (induction ids)
  case (Cons i ids)
  have "upload_of r i = None \<longleftrightarrow> i \<notin> fst ` set r" by (simp add: upload_of_def RawYAML_def map_of_eq_None_iff)
  then show ?case using Cons.IH upload_of_sel [of r i] by (cases "upload_of r i") (auto simp: map_filter_simps)
qed (simp add: map_filter_simps)

end
