(* ===== verification/Api_Guarantees.thy ===== *)
theory Api_Guarantees
  imports Agent_Config Api_Client
begin

text \<open>
  The agent over its HTTP client: the heartbeat and the delivery loops take their outcomes from \<^verbatim>\<open>Heartbeat\<close> and
  \<^verbatim>\<open>PostResults\<close> (\<^verbatim>\<open>internal/agent/agent.go\<close>, \<^verbatim>\<open>spool.go\<close>). Answers a broken proxy or a captive portal gives
  neither confirm the node nor settle a result; a JSON object without fields, which passes for an answer, settles a
  whole batch.
\<close>

section \<open>Outcomes of the client\<close>

definition postResults ::
  "httpEnv \<Rightarrow> (ResultsRequest \<Rightarrow> string option) \<Rightarrow> (string \<Rightarrow> ResultsResponse option) \<Rightarrow> Client \<Rightarrow> string \<Rightarrow> string \<Rightarrow> string
    \<Rightarrow> WireResult list \<Rightarrow> string \<Rightarrow> ResultsResponse option" where
  "postResults srv enc dec c nodeID batchID nowText results sentAt =
     (let sentAt = (if sentAt = [] then nowText else sentAt) in
      case PostResults srv enc dec c
          \<lparr>rq_SpecVersion = 0, rq_NodeID = nodeID, rq_BatchID = batchID, rq_SentAt = sentAt, rq_Results = results\<rparr> of
        Inl e \<Rightarrow> None
      | Inr resp \<Rightarrow> Some resp)"

definition heartbeat_outcome :: "heartbeatError + HeartbeatResponse \<Rightarrow> sendOutcome" where
  "heartbeat_outcome r =
     (case r of
        Inr resp \<Rightarrow> SendOk resp
      | Inl (HeartbeatRejectedError rejection) \<Rightarrow> SendRejected (hj_MissingProberIDs rejection)
      | Inl (HeartbeatFailed e) \<Rightarrow> SendFailed)"

record clientCodec =
  cc_encBeat :: "HeartbeatRequest \<Rightarrow> string option"
  cc_decBeat :: "string \<Rightarrow> HeartbeatResponse option"
  cc_decRejection :: "string \<Rightarrow> HeartbeatRejection option"
  cc_encResults :: "ResultsRequest \<Rightarrow> string option"
  cc_decResults :: "string \<Rightarrow> ResultsResponse option"
  cc_newBatchID :: "nat \<Rightarrow> string"
  cc_sentAt :: string

text \<open>The two attempts of a heartbeat over a client. The upload between them and the acknowledgement of an
  action stay arbitrary.\<close>

definition send_over :: "httpEnv \<Rightarrow> clientCodec \<Rightarrow> Client \<Rightarrow> sendEnv \<Rightarrow> sendEnv" where
  "send_over srv cc c s =
     s\<lparr>se_outcome := \<lambda>q. heartbeat_outcome (Heartbeat srv (\<lambda>v q. cc_encBeat cc (q\<lparr>hr_SpecVersion := v\<rparr>)) (cc_decBeat cc) (cc_decRejection cc) c q)\<rparr>"

definition beat_over :: "httpEnv \<Rightarrow> clientCodec \<Rightarrow> Client \<Rightarrow> beatEnv \<Rightarrow> beatEnv" where
  "beat_over srv cc c e = e\<lparr>be_first := send_over srv cc c (be_first e), be_second := send_over srv cc c (be_second e)\<rparr>"

definition tick_over :: "httpEnv \<Rightarrow> clientCodec \<Rightarrow> Client \<Rightarrow> string \<Rightarrow> tickEnv \<Rightarrow> tickEnv" where
  "tick_over srv cc c nodeID e =
     (let post = (\<lambda>i ws. postResults srv (cc_encResults cc) (cc_decResults cc) c nodeID (cc_newBatchID cc i) (cc_sentAt cc) ws [])
      in e\<lparr>te_post := post, te_direct := post 0\<rparr>)"

section \<open>Nothing is concluded from an unusable answer\<close>

definition only_health_changed :: "agent \<Rightarrow> agent \<Rightarrow> bool" where
  "only_health_changed a b \<longleftrightarrow> b = a\<lparr>a_health := a_health b, a_path := a_path b, a_bindMonitor := a_bindMonitor b\<rparr>"

lemma only_health_changed_intros:
  "only_health_changed a a" "only_health_changed a (a\<lparr>a_health := h\<rparr>)" "only_health_changed a (a\<lparr>a_path := p\<rparr>)"
  "only_health_changed a (a\<lparr>a_bindMonitor := b\<rparr>)"
  by (cases a; simp add: only_health_changed_def)+

lemma only_health_changed_trans:
  assumes "only_health_changed a b" "only_health_changed b c"
  shows "only_health_changed a c"
proof -
  obtain h p m where b: "b = a\<lparr>a_health := h, a_path := p, a_bindMonitor := m\<rparr>" using assms(1) unfolding only_health_changed_def by metis
  obtain h' p' m' where "c = b\<lparr>a_health := h', a_path := p', a_bindMonitor := m'\<rparr>" using assms(2) unfolding only_health_changed_def by metis
  with b show ?thesis by (simp add: only_health_changed_def)
qed

lemma heartbeat_request_health:
  assumes "heartbeat_request probers env a = (req, b)"
  shows "only_health_changed a b"
proof -
  obtain st p where p: "path_state (a_path a) (se_sentAt env) = (st, p)" by fastforce
  obtain h hs where h: "health_snapshot (a_health a) (se_reading env) (se_sentAt env) st (a_deferredJobs a) = (h, hs)" by fastforce
  let ?a = "a\<lparr>a_path := p, a_health := hs\<rparr>"
  have "only_health_changed ?a b"
    using assms p h by (auto simp: heartbeat_request_def with_binding_def bindError_def only_health_changed_intros
        split: prod.splits if_splits)
  then show ?thesis by (metis only_health_changed_intros(2,3) only_health_changed_trans)
qed

lemma send_over_refused:
  assumes "refuses srv" "send probers (send_over srv cc c s) a = (r, b)"
  shows "only_health_changed a b" "r \<noteq> SendOk resp"
proof -
  obtain req a1 where q: "heartbeat_request probers (send_over srv cc c s) a = (req, a1)" by fastforce
  obtain e where e: "Heartbeat srv (\<lambda>v q. cc_encBeat cc (q\<lparr>hr_SpecVersion := v\<rparr>)) (cc_decBeat cc) (cc_decRejection cc) c req = Inl e"
    by (rule exE [OF Heartbeat_refused [OF assms(1)]])
  show "only_health_changed a b"
    using assms(2) q heartbeat_request_health [OF q] only_health_changed_intros(2) only_health_changed_trans
    by (auto simp: send_def Let_def)
  show "r \<noteq> SendOk resp"
    using assms(2) q e by (auto simp: send_def send_over_def heartbeat_outcome_def Let_def split: heartbeatError.splits)
qed

lemma beat_over_refused:
  assumes "refuses srv"
  shows "fst (beat (beat_over srv cc c e) a) = Stays
    \<and> only_health_changed (restore_again (beat_over srv cc c e) a) (snd (beat (beat_over srv cc c e) a))"
proof -
  let ?e = "beat_over srv cc c e" let ?a = "restore_again ?e a"
  obtain r b where first: "send (be_probers ?e) (be_first ?e) ?a = (r, b)" by fastforce
  obtain r' b' where second: "send (be_probers ?e) (be_second ?e) b = (r', b')" by fastforce
  have 1: "only_health_changed ?a b" "\<And>resp. r \<noteq> SendOk resp"
    using send_over_refused [OF assms] first by (auto simp: beat_over_def)
  have 2: "only_health_changed b b'" "\<And>resp. r' \<noteq> SendOk resp"
    using send_over_refused [OF assms] second by (auto simp: beat_over_def)
  have "exchange ?e ?a \<in> {(None, b), (None, b')}"
    using first second 1(2) 2(2) by (cases r; cases r') (auto simp: exchange_def)
  then show ?thesis using 1(1) only_health_changed_trans [OF 1(1) 2(1)] by (auto simp: beat_def)
qed

lemma tick_over_post:
  assumes "refuses srv"
  shows "te_post (tick_over srv cc c n e) i ws = None" "te_direct (tick_over srv cc c n e) ws = None"
proof -
  have "postResults srv enc dec c n b t ws s = None" for enc dec b t ws s
    using PostResults_refused [OF assms] unfolding postResults_def Let_def by (metis (no_types, lifting) sum.simps(5))
  then show "te_post (tick_over srv cc c n e) i ws = None" "te_direct (tick_over srv cc c n e) ws = None"
    by (simp_all add: tick_over_def Let_def)
qed

text \<open>A drain in which no request succeeds leaves both queues as they were.\<close>

lemma drain_store_loop_refused:
  assumes "\<And>i ws. post i ws = None"
  shows "pending_queue format origin (fst (snd (drain_store_loop fuel format origin post alive db_ok now i (out, d, dl))))
    = pending_queue format origin d"
  by (cases fuel) (simp_all add: Let_def assms queue_rows_MarkAttempts flip: queue_rows_results)

lemma drain_spool_loop_refused:
  assumes "\<And>i ws. post i ws = None" "spool_ok s" "spool_pending s = fs"
  shows "spool_queue (fst (snd (drain_spool_loop post alive now i fs (out, s, dl)))) = spool_queue s"
  using assms(2,3)
proof (induction fs arbitrary: i out s dl)
  case (Cons f fs)
  let ?s = "spool_remove (sf_name f) s"
  have ok: "spool_ok ?s" "spool_pending ?s = fs"
    using Cons.prems by (simp_all add: spool_ok_remove spool_remove_head)
  show ?case
  proof (cases "spool_read f")
    case None
    then have "spool_queue ?s = spool_queue s" using Cons.prems(2) ok(2) by (simp add: spool_queue_def file_results_def)
    with None Cons.IH [OF ok] show ?thesis by simp
  qed (simp add: assms(1))
qed simp

definition undelivered :: "(gotime \<Rightarrow> string) \<Rightarrow> agent \<Rightarrow> WireResult list" where
  "undelivered format a =
     (case a_store a of
        Some d \<Rightarrow> pending_queue format (a_nodeID a) d
      | None \<Rightarrow> (case a_spool a of Some sp \<Rightarrow> spool_queue sp | None \<Rightarrow> []))"

lemma drainDelivery_refused:
  assumes "refuses srv" "\<And>sp. a_spool a = Some sp \<Longrightarrow> spool_ok sp"
  shows "undelivered (te_format e) (drainDelivery (tick_over srv cc c n e) a) = undelivered (te_format e) a"
proof (cases "a_store a")
  case (Some d)
  let ?e = "tick_over srv cc c n e"
  have "pending_queue f nid (fst (snd (drainStore f nid (te_post ?e) al db now (d, dl)))) = pending_queue f nid d" for f nid al db now dl
    using drain_store_loop_refused [OF tick_over_post(1) [OF assms(1)]] by (simp add: drainStore_def del: drain_store_loop.simps)
  moreover have "te_format ?e = te_format e" by (simp add: tick_over_def Let_def)
  ultimately show ?thesis using Some
    by (auto simp: drainDelivery_def drain_store_def undelivered_def split: prod.splits) (metis fst_conv snd_conv)
next
  case None
  show ?thesis
  proof (cases "a_spool a")
    case (Some sp)
    have "spool_queue (fst (snd (drainSpool (te_post (tick_over srv cc c n e)) al now (sp, dl)))) = spool_queue sp" for al now dl
      using drain_spool_loop_refused [OF tick_over_post(1) [OF assms(1)] assms(2) [OF Some] refl] by (simp add: drainSpool_def)
    with None Some show ?thesis
      by (auto simp: drainDelivery_def drain_spool_def undelivered_def split: prod.splits) (metis fst_conv snd_conv)
  qed (simp add: None drainDelivery_def drain_spool_def undelivered_def)
qed

text \<open>C9. Nothing is concluded from an unusable answer. While every answer of the server, to whatever request, has
  an error status, an unreadable body, a blank one or a JSON null, as behind a broken proxy or a captive portal,
  a heartbeat changes only the node's own health records: the node is not confirmed, no assignment, status,
  interval or clock is taken over and no command is obeyed; a delivery round leaves the undelivered results
  exactly as they were; and results that would have gone out directly are reported as not delivered.
\<close>

theorem unusable_answers_conclude_nothing:
  assumes "refuses srv" "\<And>sp. a_spool a = Some sp \<Longrightarrow> spool_ok sp"
  shows "fst (beat (beat_over srv cc c be) a) = Stays
    \<and> only_health_changed (restore_again be a) (snd (beat (beat_over srv cc c be) a))
    \<and> a_ready (snd (beat (beat_over srv cc c be) a)) = a_ready a
    \<and> undelivered (te_format te) (drainDelivery (tick_over srv cc c n te) a) = undelivered (te_format te) a
    \<and> (a_store a = None \<and> a_spool a = None \<longrightarrow> \<not> fst (reportResults (tick_over srv cc c n te) ws a))"
proof (intro conjI impI)
  have r: "restore_again (beat_over srv cc c be) a = restore_again be a" by (simp add: restore_again_def beat_over_def)
  note b = beat_over_refused [OF assms(1), of cc c be a, unfolded r]
  show "fst (beat (beat_over srv cc c be) a) = Stays" using b ..
  show oh: "only_health_changed (restore_again be a) (snd (beat (beat_over srv cc c be) a))" using b ..
  have "a_ready (restore_again be a) = a_ready a"
    by (simp add: restore_again_def restorePendingTriggers_def Let_def split: option.split prod.split)
  moreover have "only_health_changed x y \<Longrightarrow> a_ready y = a_ready x" for x y
    unfolding only_health_changed_def by (metis agent.select_convs(23) agent.surjective agent.update_convs(14,15,18))
  ultimately show "a_ready (snd (beat (beat_over srv cc c be) a)) = a_ready a" using oh by metis
  show "undelivered (te_format te) (drainDelivery (tick_over srv cc c n te) a) = undelivered (te_format te) a"
    by (rule drainDelivery_refused [OF assms])
  show "\<not> fst (reportResults (tick_over srv cc c n te) ws a)" if "a_store a = None \<and> a_spool a = None"
    using that tick_over_post(2) [OF assms(1)] by (simp add: reportResults_def reportFallback_def)
qed

definition captive_portal :: httpEnv where
  "captive_portal = \<lparr>he_url_ok = \<lambda>_. True, he_server = \<lambda>_. Some \<lparr>hp_StatusCode = 200, hp_Body = Some '' null ''\<rparr>\<rparr>"

lemma captive_portal_refuses: "refuses captive_portal"
proof -
  have "unusable \<lparr>hp_StatusCode = 200, hp_Body = Some '' null ''\<rparr>"
    by (simp add: unusable_def maxBody_def TrimSpace_def is_space_def)
  then show ?thesis by (simp add: refuses_def captive_portal_def)
qed

theorem unusable_answers_conclude_nothing_witness:
  "\<forall>cc c be. a_ready (snd (beat (beat_over captive_portal cc c be) demo_agent)) = a_ready demo_agent"
proof -
  have "a_spool demo_agent = None" by code_simp
  then show ?thesis using unusable_answers_conclude_nothing [OF captive_portal_refuses, of demo_agent] by simp
qed

text \<open>The guard of the client stops at blank and null bodies. An object without fields decodes to the zero
  response, and a batch it answers is settled as accepted, row by row.\<close>

definition zero_ResultsResponse :: ResultsResponse where
  "zero_ResultsResponse = \<lparr>rr_SpecVersion = 0, rr_Accepted = 0, rr_Rejected = 0, rr_Results = [], rr_NodeStatus = []\<rparr>"

lemma empty_object_settles_batch:
  assumes "he_url_ok srv (cl_baseURL c @ ''/v1/nodes/results'')" "\<And>q. he_server srv q = Some \<lparr>hp_StatusCode = 200, hp_Body = Some ''{}''\<rparr>"
    and "dec ''{}'' = Some zero_ResultsResponse" "\<And>q. enc q \<noteq> None"
  shows "postResults srv enc dec c n b t ws s = Some zero_ResultsResponse"
    and "outcomesFor batch (Some zero_ResultsResponse) = map (\<lambda>it. \<lparr>oc_Seq = pr_Seq it, oc_Accepted = True, oc_Reason = []\<rparr>) batch"
proof -
  have "read_answer (Some dec) \<lparr>hp_StatusCode = 200, hp_Body = Some ''{}''\<rparr> = Inr (Some zero_ResultsResponse)"
    using assms(3) by (simp add: read_answer_def maxBody_def TrimSpace_def is_space_def)
  then have "PostResults srv enc dec c req = Inr zero_ResultsResponse" for req
    using assms(1,2,4) by (simp add: PostResults_def decoded_Inr client_do_def option.case_eq_if)
  then show "postResults srv enc dec c n b t ws s = Some zero_ResultsResponse" by (simp add: postResults_def Let_def)
qed (simp add: outcomesFor_def zero_ResultsResponse_def)

end
