(* ===== verification/Flags.thy ===== *)
theory Flags
  imports Prelude
begin

text \<open>
  Command lines: the part of Go's \<^verbatim>\<open>flag\<close> package the program uses (\<^verbatim>\<open>FlagSet.Parse\<close> with string, integer, boolean,
  duration and custom values), and the program's own additions in \<^verbatim>\<open>cmd/radar-node/main.go\<close>: the repeatable
  parameter map and the reordering that accepts flags on either side of the positional arguments. The duration
  parser of the standard library is an argument.
\<close>

section \<open>Values\<close>

text \<open>\<^verbatim>\<open>strconv.ParseInt\<close> with base 0 and 64 bits: a sign, a base prefix, digits with underscores between them.\<close>

definition digit0 :: "char \<Rightarrow> nat option" where
  "digit0 c =
     (if is_digit c then Some (digit_val c)
      else let l = lower_char c in
        if CHR ''a'' \<le> l \<and> l \<le> CHR ''z'' then Some (of_char l - 97 + 10) else None)"

fun digits0 :: "nat \<Rightarrow> nat \<Rightarrow> string \<Rightarrow> nat option" where
  "digits0 base n [] = Some n"
| "digits0 base n (c # cs) =
     (if c = CHR ''_'' then digits0 base n cs
      else case digit0 c of
        None \<Rightarrow> None
      | Some d \<Rightarrow> if d < base then digits0 base (n * base + d) cs else None)"

fun underscore_ok :: "bool \<Rightarrow> string \<Rightarrow> bool" where
  "underscore_ok digit [] = True"
| "underscore_ok digit (c # cs) =
     (if c = CHR ''_'' then digit \<and> cs \<noteq> [] \<and> underscore_ok False cs else underscore_ok True cs)"

definition ParseUint0 :: "string \<Rightarrow> nat option" where
  "ParseUint0 s =
     (if s = [] then None
      else if hd s \<noteq> CHR ''0'' then (if underscore_ok False s then digits0 10 0 s else None)
      else let p = (if length s \<ge> 3 then lower_char (s ! 1) else CHR ''0'') in
        if p = CHR ''b'' then (if underscore_ok True (drop 2 s) then digits0 2 0 (drop 2 s) else None)
        else if p = CHR ''o'' then (if underscore_ok True (drop 2 s) then digits0 8 0 (drop 2 s) else None)
        else if p = CHR ''x'' then (if underscore_ok True (drop 2 s) then digits0 16 0 (drop 2 s) else None)
        else if underscore_ok False s then digits0 8 0 (tl s) else None)"

definition ParseInt0 :: "string \<Rightarrow> int option" where
  "ParseInt0 s =
     (let neg = HasPrefix s ''-''; digits = (if neg \<or> HasPrefix s ''+'' then tl s else s) in
      case ParseUint0 digits of
        None \<Rightarrow> None
      | Some n \<Rightarrow>
          if neg then (if int n \<le> 2 ^ 63 then Some (- int n) else None)
          else if int n < 2 ^ 63 then Some (int n) else None)"

definition ParseBool :: "string \<Rightarrow> bool option" where
  "ParseBool s =
     (if s \<in> {''1'', ''t'', ''T'', ''TRUE'', ''true'', ''True''} then Some True
      else if s \<in> {''0'', ''f'', ''F'', ''FALSE'', ''false'', ''False''} then Some False else None)"

type_synonym stringMap = "(string \<times> string) list"

definition stringMap_String :: "stringMap \<Rightarrow> string" where
  "stringMap_String m = Join (map (\<lambda>(k, v). k @ ''='' @ v) m) '',''"

definition stringMap_Set :: "string \<Rightarrow> stringMap \<Rightarrow> stringMap option" where
  "stringMap_Set value m =
     (case Cut value (CHR ''='') of (k, v, ok) \<Rightarrow> if \<not> ok then None else Some (AList.update k v m))"

definition toParams :: "stringMap \<Rightarrow> gomap" where
  "toParams m = map (\<lambda>(k, v). (k, GStr v)) m"

section \<open>Parsing\<close>

text \<open>The current value of a flag tells its kind.\<close>

datatype flagValue = VString string | VInt int | VBool bool | VDuration duration | VParams stringMap

type_synonym flagSet = "(string \<times> flagValue) list"

datatype flagError = BadFlagSyntax string | FlagNotDefined string | FlagHelp | FlagNeedsArgument string | InvalidFlagValue string string

definition flag_set :: "(string \<Rightarrow> duration option) \<Rightarrow> flagValue \<Rightarrow> string \<Rightarrow> flagValue option" where
  "flag_set dur old s =
     (case old of
        VString _ \<Rightarrow> Some (VString s)
      | VInt _ \<Rightarrow> map_option VInt (ParseInt0 s)
      | VBool _ \<Rightarrow> map_option VBool (ParseBool s)
      | VDuration _ \<Rightarrow> map_option VDuration (dur s)
      | VParams m \<Rightarrow> map_option VParams (stringMap_Set s m))"

definition is_bool_flag :: "flagValue \<Rightarrow> bool" where
  "is_bool_flag v = (case v of VBool _ \<Rightarrow> True | _ \<Rightarrow> False)"

text \<open>The name and the value after an equals sign; the sign cannot be the first character.\<close>

definition flag_split :: "string \<Rightarrow> string \<times> string option" where
  "flag_split name =
     (case Cut (tl name) (CHR ''='') of (n, v, found) \<Rightarrow> (hd name # n, if found then Some v else None))"

definition flag_name :: "string \<Rightarrow> string" where
  "flag_name s = (if HasPrefix s ''--'' then drop 2 s else drop 1 s)"

fun flag_Parse :: "(string \<Rightarrow> duration option) \<Rightarrow> flagSet \<Rightarrow> string list \<Rightarrow> flagError + flagSet \<times> string list" where
  "flag_Parse dur fs [] = Inr (fs, [])"
| "flag_Parse dur fs (s # args) =
     (if length s < 2 \<or> hd s \<noteq> CHR ''-'' then Inr (fs, s # args)
      else if s = ''--'' then Inr (fs, args)
      else let name = flag_name s in
        if name = [] \<or> hd name = CHR ''-'' \<or> hd name = CHR ''='' then Inl (BadFlagSyntax s)
        else case flag_split name of (n, given) \<Rightarrow>
          (case map_of fs n of
             None \<Rightarrow> Inl (if n = ''help'' \<or> n = ''h'' then FlagHelp else FlagNotDefined n)
           | Some old \<Rightarrow>
               if is_bool_flag old
               then (case flag_set dur old (case given of Some v \<Rightarrow> v | None \<Rightarrow> ''true'') of
                       None \<Rightarrow> Inl (InvalidFlagValue n (case given of Some v \<Rightarrow> v | None \<Rightarrow> ''true''))
                     | Some x \<Rightarrow> flag_Parse dur (AList.update n x fs) args)
               else (case given of
                       Some v \<Rightarrow> (case flag_set dur old v of
                           None \<Rightarrow> Inl (InvalidFlagValue n v)
                         | Some x \<Rightarrow> flag_Parse dur (AList.update n x fs) args)
                     | None \<Rightarrow> (case args of
                           [] \<Rightarrow> Inl (FlagNeedsArgument n)
                         | v # args' \<Rightarrow> (case flag_set dur old v of
                             None \<Rightarrow> Inl (InvalidFlagValue n v)
                           | Some x \<Rightarrow> flag_Parse dur (AList.update n x fs) args')))))"

section \<open>Flags on either side\<close>

fun partition_loop :: "string list \<Rightarrow> string list \<times> string list \<Rightarrow> string list \<times> string list" where
  "partition_loop [] (flags, positional) = (flags, positional)"
| "partition_loop (a # args) (flags, positional) =
     (if \<not> HasPrefix a ''-'' then partition_loop args (flags, positional @ [a])
      else if \<not> Contains a ''='' then
        (case args of
           [] \<Rightarrow> (flags @ [a], positional)
         | v # args' \<Rightarrow> partition_loop args' (flags @ [a, v], positional))
      else partition_loop args (flags @ [a], positional))"

definition partitionFlags :: "string list \<Rightarrow> string list" where
  "partitionFlags args = (case partition_loop args ([], []) of (flags, positional) \<Rightarrow> flags @ positional)"

section \<open>What a command line means\<close>

text \<open>A command line as its user thinks of it: options with a value, in either notation and with one or two
  dashes, and positional arguments, in any order. \<open>assign\<close> is its meaning: the options take effect from left to
  right, wherever the positional arguments stand.\<close>

datatype item = Opt bool string string | OptEq bool string string | Pos string

definition dashes :: "bool \<Rightarrow> string" where "dashes two = (if two then ''--'' else ''-'')"

fun item_tokens :: "item \<Rightarrow> string list" where
  "item_tokens (Opt two n v) = [dashes two @ n, v]"
| "item_tokens (OptEq two n v) = [dashes two @ n @ ''='' @ v]"
| "item_tokens (Pos p) = [p]"

definition takes_value :: "flagSet \<Rightarrow> string \<Rightarrow> bool" where
  "takes_value fs n \<longleftrightarrow> n \<noteq> [] \<and> hd n \<noteq> CHR ''-'' \<and> CHR ''='' \<notin> set n
     \<and> (case map_of fs n of None \<Rightarrow> False | Some old \<Rightarrow> \<not> is_bool_flag old)"

fun item_ok :: "flagSet \<Rightarrow> item \<Rightarrow> bool" where
  "item_ok fs (Opt two n v) = takes_value fs n"
| "item_ok fs (OptEq two n v) = takes_value fs n"
| "item_ok fs (Pos p) = (\<not> HasPrefix p ''-'')"

fun positionals :: "item list \<Rightarrow> string list" where
  "positionals [] = []"
| "positionals (Pos p # items) = p # positionals items"
| "positionals (_ # items) = positionals items"

definition assign_one :: "(string \<Rightarrow> duration option) \<Rightarrow> string \<Rightarrow> string \<Rightarrow> flagSet \<Rightarrow> flagError + flagSet" where
  "assign_one dur n v fs =
     (case map_of fs n of
        None \<Rightarrow> Inl (FlagNotDefined n)
      | Some old \<Rightarrow> (case flag_set dur old v of
          None \<Rightarrow> Inl (InvalidFlagValue n v)
        | Some x \<Rightarrow> Inr (AList.update n x fs)))"

fun assign :: "(string \<Rightarrow> duration option) \<Rightarrow> item list \<Rightarrow> flagSet \<Rightarrow> flagError + flagSet" where
  "assign dur [] fs = Inr fs"
| "assign dur (Pos p # items) fs = assign dur items fs"
| "assign dur (Opt two n v # items) fs = (case assign_one dur n v fs of Inl e \<Rightarrow> Inl e | Inr fs \<Rightarrow> assign dur items fs)"
| "assign dur (OptEq two n v # items) fs = (case assign_one dur n v fs of Inl e \<Rightarrow> Inl e | Inr fs \<Rightarrow> assign dur items fs)"

lemma HasPrefix_dash: "HasPrefix s ''-'' \<longleftrightarrow> s \<noteq> [] \<and> hd s = CHR ''-''"
  by (cases s) (auto simp: HasPrefix_def)

lemma Contains_char: "Contains s [c] \<longleftrightarrow> c \<in> set s"
  by (induction s) (auto simp: HasPrefix_def)

lemma Cut_absent: "c \<notin> set s \<Longrightarrow> Cut s c = (s, [], False)"
  by (induction s) auto

lemma Cut_present: "c \<notin> set s \<Longrightarrow> Cut (s @ c # t) c = (s, t, True)"
  by (induction s) auto

text \<open>A token is read back as the option it was written for.\<close>

lemma option_token:
  assumes "takes_value fs n"
  shows "HasPrefix (dashes two @ n @ t) ''-''" "\<not> length (dashes two @ n @ t) < 2" "dashes two @ n @ t \<noteq> ''--''"
    "flag_name (dashes two @ n @ t) = n @ t"
  using assms by (cases n; cases "tl n"; auto simp: takes_value_def dashes_def HasPrefix_def flag_name_def)+

lemma flag_split_name:
  assumes "takes_value fs n"
  shows "flag_split n = (n, None)" "flag_split (n @ CHR ''='' # v) = (n, Some v)"
  using assms by (cases n; simp add: flag_split_def takes_value_def Cut_absent Cut_present)+

lemma takes_value_cases:
  assumes "takes_value fs n"
  obtains old where "map_of fs n = Some old" "\<not> is_bool_flag old" "n \<noteq> []" "hd n \<noteq> CHR ''-''" "hd n \<noteq> CHR ''=''"
  using assms by (cases n) (auto simp: takes_value_def split: option.splits)

lemma flag_set_kind: "flag_set dur old v = Some x \<Longrightarrow> is_bool_flag x = is_bool_flag old"
  by (cases old) (auto simp: flag_set_def is_bool_flag_def)

lemma assign_one_kinds:
  assumes "assign_one dur n v fs = Inr fs'"
  shows "takes_value fs' m = takes_value fs m"
proof -
  obtain old x where o: "map_of fs n = Some old" "flag_set dur old v = Some x" "fs' = AList.update n x fs"
    using assms by (auto simp: assign_one_def split: option.splits)
  then show ?thesis using flag_set_kind [OF o(2)] by (cases "m = n") (simp_all add: takes_value_def update_conv')
qed

lemma item_ok_kinds: "assign_one dur n v fs = Inr fs' \<Longrightarrow> item_ok fs' it = item_ok fs it"
  by (cases it) (simp_all add: assign_one_kinds)

lemma flag_Parse_Opt:
  assumes "takes_value fs n"
  shows "flag_Parse dur fs ((dashes two @ n) # v # args)
    = (case assign_one dur n v fs of Inl e \<Rightarrow> Inl e | Inr fs \<Rightarrow> flag_Parse dur fs args)"
proof -
  obtain old where old: "map_of fs n = Some old" "\<not> is_bool_flag old" "n \<noteq> []" "hd n \<noteq> CHR ''-''" "hd n \<noteq> CHR ''=''"
    by (rule takes_value_cases [OF assms])
  show ?thesis using old option_token [OF assms, of two "[]"] flag_split_name(1) [OF assms]
    by (simp add: assign_one_def HasPrefix_dash split: option.split)
qed

lemma flag_Parse_OptEq:
  assumes "takes_value fs n"
  shows "flag_Parse dur fs ((dashes two @ n @ CHR ''='' # v) # args)
    = (case assign_one dur n v fs of Inl e \<Rightarrow> Inl e | Inr fs \<Rightarrow> flag_Parse dur fs args)"
proof -
  obtain old where old: "map_of fs n = Some old" "\<not> is_bool_flag old" "n \<noteq> []" "hd n \<noteq> CHR ''-''" "hd n \<noteq> CHR ''=''"
    by (rule takes_value_cases [OF assms])
  show ?thesis using old option_token [OF assms, of two "CHR ''='' # v"] flag_split_name(2) [OF assms]
    by (simp add: assign_one_def HasPrefix_dash split: option.split)
qed

declare flag_Parse.simps [simp del]

fun option_tokens :: "item list \<Rightarrow> string list" where
  "option_tokens [] = []"
| "option_tokens (Pos p # items) = option_tokens items"
| "option_tokens (it # items) = item_tokens it @ option_tokens items"

lemma partition_loop_items:
  "list_all (item_ok fs) items \<Longrightarrow>
     partition_loop (concat (map item_tokens items)) (flags, pos) = (flags @ option_tokens items, pos @ positionals items)"
proof (induction items arbitrary: flags pos)
  case (Cons it items)
  show ?case
  proof (cases it)
    case (Opt two n v)
    with Cons.prems have n: "takes_value fs n" by simp
    then have "CHR ''='' \<notin> set (dashes two @ n)" by (auto simp: takes_value_def dashes_def)
    with Cons Opt option_token(1) [OF n, of two "[]"] show ?thesis by (simp add: Contains_char)
  next
    case (OptEq two n v)
    with Cons.prems have n: "takes_value fs n" by simp
    with Cons OptEq option_token(1) [OF n, of two "CHR ''='' # v"] show ?thesis by (simp add: Contains_char)
  qed (use Cons in simp)
qed simp

lemma flag_Parse_items:
  assumes "list_all (item_ok fs) items" "list_all (\<lambda>p. \<not> HasPrefix p ''-'') pos"
  shows "flag_Parse dur fs (option_tokens items @ pos)
    = (case assign dur items fs of Inl e \<Rightarrow> Inl e | Inr fs \<Rightarrow> Inr (fs, pos))"
  using assms(1)
proof (induction items arbitrary: fs)
  case Nil
  show ?case using assms(2) by (cases pos) (auto simp: flag_Parse.simps HasPrefix_dash)
next
  case (Cons it items)
  have ok: "assign_one dur n v fs = Inr fs' \<Longrightarrow> list_all (item_ok fs') items" for n v fs'
    using Cons.prems item_ok_kinds [of dur n v fs fs'] by (simp add: list_all_iff)
  show ?case
  proof (cases it)
    case (Opt two n v)
    with Cons ok show ?thesis by (simp add: flag_Parse_Opt split: sum.split)
  next
    case (OptEq two n v)
    with Cons ok show ?thesis by (simp add: flag_Parse_OptEq split: sum.split)
  qed (use Cons in simp)
qed

lemma positionals_ok: "list_all (item_ok fs) items \<Longrightarrow> list_all (\<lambda>p. \<not> HasPrefix p ''-'') (positionals items)"
proof (induction items)
  case (Cons it items)
  then show ?case by (cases it) auto
qed simp

lemma partitionFlags_Parse:
  assumes "list_all (item_ok fs) items"
  shows "flag_Parse dur fs (partitionFlags (concat (map item_tokens items)))
    = (case assign dur items fs of Inl e \<Rightarrow> Inl e | Inr fs \<Rightarrow> Inr (fs, positionals items))"
  using flag_Parse_items [OF assms positionals_ok [OF assms]] partition_loop_items [OF assms, of "[]" "[]"]
  by (simp add: partitionFlags_def)

end
