(* ===== verification/Output.thy ===== *)
theory Output
  imports Wire
begin

text \<open>
  What the command line prints of a run (\<^verbatim>\<open>internal/output/output.go\<close>): one envelope as JSON, CSV or a table. The
  CSV writer of the standard library is part of the model; JSON encoding and the alignment of the table are
  arguments. The property of the theory is that a CSV reader gets the rows back, whatever bytes they hold.
\<close>

section \<open>Rows\<close>

record Envelope =
  env_Ok :: bool
  env_Results :: "Result list"

definition columns :: "string list" where
  "columns = [''ok'', ''type'', ''target'', ''seq'', ''latency_ms'', ''error'', ''extra'']"

text \<open>\<^verbatim>\<open>strconv.FormatFloat(f, 'f', 2, 64)\<close>: the nearest two-digit decimal, ties to even.\<close>

definition round_half_even :: "rat \<Rightarrow> int" where
  "round_half_even q =
     (let n = \<lfloor>q\<rfloor>; r = q - of_int n in
      if r < 1 / 2 then n else if r > 1 / 2 then n + 1 else if even n then n else n + 1)"

definition FormatFloat2 :: "gofloat \<Rightarrow> string" where
  "FormatFloat2 f =
     (case f of
        Fin q \<Rightarrow>
          (let k = round_half_even (\<bar>q\<bar> * 100) in
           (if q < 0 then ''-'' else []) @ Itoa (k div 100) @ ''.''
             @ [digit_char (nat (k div 10 mod 10)), digit_char (nat (k mod 10))])
      | PosInf \<Rightarrow> ''+Inf'' | NegInf \<Rightarrow> ''-Inf'' | NaN \<Rightarrow> ''NaN'')"

definition FormatBool :: "bool \<Rightarrow> string" where "FormatBool b = (if b then ''true'' else ''false'')"

definition row :: "(gomap \<Rightarrow> string option) \<Rightarrow> Result \<Rightarrow> string list" where
  "row marshal r =
     (let lat = (case r_LatencyMs r of None \<Rightarrow> [] | Some f \<Rightarrow> FormatFloat2 f);
          extra = (case r_Extra r of
                     None \<Rightarrow> []
                   | Some m \<Rightarrow> if m = [] then [] else (case marshal m of None \<Rightarrow> [] | Some b \<Rightarrow> b))
      in [FormatBool (r_Ok r), r_Type r, r_Target r, Itoa (r_Seq r), lat, r_Error r, extra])"

section \<open>CSV\<close>

text \<open>\<^verbatim>\<open>encoding/csv\<close> with its defaults: comma, line feed.\<close>

definition fieldNeedsQuotes :: "string \<Rightarrow> bool" where
  "fieldNeedsQuotes f =
     (if f = [] then False
      else if f = [CHR 0x5C, CHR ''.''] then True
      else list_ex (\<lambda>c. c = CHR 0x0A \<or> c = CHR 0x0D \<or> c = CHR 0x22 \<or> c = CHR '','') f \<or> is_space (hd f))"

definition csv_quote :: "string \<Rightarrow> string" where
  "csv_quote f = [CHR 0x22] @ concat (map (\<lambda>c. if c = CHR 0x22 then [CHR 0x22, CHR 0x22] else [c]) f) @ [CHR 0x22]"

definition csv_field :: "string \<Rightarrow> string" where
  "csv_field f = (if fieldNeedsQuotes f then csv_quote f else f)"

definition csv_Write :: "string list \<Rightarrow> string" where
  "csv_Write record = Join (map csv_field record) '','' @ [CHR 0x0A]"

definition writeRows :: "(gomap \<Rightarrow> string option) \<Rightarrow> Envelope \<Rightarrow> string" where
  "writeRows marshal env = csv_Write columns @ concat (map (\<lambda>r. csv_Write (row marshal r)) (env_Results env))"

section \<open>The other formats\<close>

fun tab_append :: "string \<Rightarrow> string list \<Rightarrow> string" where
  "tab_append out [] = out"
| "tab_append out (f # fs) = tab_append (out @ [CHR 0x09] @ f) fs"

text \<open>\<open>None\<close> is the panic of indexing an empty list.\<close>

definition tabJoin :: "string list \<Rightarrow> string option" where
  "tabJoin fs = (case fs of [] \<Rightarrow> None | f # rest \<Rightarrow> Some (tab_append f rest))"

definition writeTable :: "(string \<Rightarrow> string) \<Rightarrow> (gomap \<Rightarrow> string option) \<Rightarrow> Envelope \<Rightarrow> string option" where
  "writeTable align marshal env =
     (case those (map tabJoin (columns # map (row marshal) (env_Results env))) of
        None \<Rightarrow> None
      | Some ls \<Rightarrow> Some (align (concat (map (\<lambda>l. l @ [CHR 0x0A]) ls))))"

record outputEnv =
  oe_json :: "Envelope \<Rightarrow> string option"
  oe_marshal :: "gomap \<Rightarrow> string option"
  oe_align :: "string \<Rightarrow> string"
  oe_sink :: "string \<Rightarrow> bool"

datatype outputError = UnknownFormat string | JSONFailed | SinkFailed

definition emit :: "outputEnv \<Rightarrow> string \<Rightarrow> outputError + string" where
  "emit env text = (if oe_sink env text then Inr text else Inl SinkFailed)"

text \<open>The outer \<open>None\<close> is a panic.\<close>

definition output_Write :: "outputEnv \<Rightarrow> string \<Rightarrow> Envelope \<Rightarrow> (outputError + string) option" where
  "output_Write env format e =
     (if format = ''json'' then Some (case oe_json env e of None \<Rightarrow> Inl JSONFailed | Some text \<Rightarrow> emit env text)
      else if format = ''csv'' then Some (emit env (writeRows (oe_marshal env) e))
      else if format = ''table'' then map_option (emit env) (writeTable (oe_align env) (oe_marshal env) e)
      else Some (Inl (UnknownFormat format)))"

lemma tabJoin_Some: "fs \<noteq> [] \<Longrightarrow> \<exists>s. tabJoin fs = Some s"
  by (cases fs) (simp_all add: tabJoin_def)

lemma those_total: "(\<And>x. x \<in> set xs \<Longrightarrow> x \<noteq> None) \<Longrightarrow> those xs \<noteq> None"
  by (induction xs) (auto split: option.split)

lemma output_Write_total: "\<exists>r. output_Write env format e = Some r"
proof -
  have "those (map tabJoin (columns # map (row m) (env_Results e))) \<noteq> None" for m
    by (rule those_total) (auto simp: tabJoin_def columns_def row_def Let_def)
  then obtain ls where "those (map tabJoin (columns # map (row (oe_marshal env)) (env_Results e))) = Some ls" by auto
  then show ?thesis by (simp add: output_Write_def writeTable_def)
qed

section \<open>Reading CSV back\<close>

text \<open>A reader of RFC 4180: a quoted field ends at the first quote that is not doubled, another field at the
  next comma or line feed.\<close>

fun read_quoted :: "string \<Rightarrow> string \<Rightarrow> (string \<times> string) option" where
  "read_quoted acc [] = None"
| "read_quoted acc [c] = (if c = CHR 0x22 then Some (rev acc, []) else None)"
| "read_quoted acc (c # d # s) =
     (if c = CHR 0x22 then (if d = CHR 0x22 then read_quoted (CHR 0x22 # acc) s else Some (rev acc, d # s))
      else read_quoted (c # acc) (d # s))"

definition plain_char :: "char \<Rightarrow> bool" where "plain_char c \<longleftrightarrow> c \<noteq> CHR '','' \<and> c \<noteq> CHR 0x0A"

definition read_field :: "string \<Rightarrow> (string \<times> string) option" where
  "read_field s =
     (if s \<noteq> [] \<and> hd s = CHR 0x22 then read_quoted [] (tl s) else Some (takeWhile plain_char s, dropWhile plain_char s))"

fun read_records :: "nat \<Rightarrow> string list \<Rightarrow> string \<Rightarrow> string list list option" where
  "read_records 0 fs s = None"
| "read_records (Suc fuel) fs s =
     (if s = [] then (if fs = [] then Some [] else None)
      else case read_field s of
        None \<Rightarrow> None
      | Some (f, []) \<Rightarrow> None
      | Some (f, c # rest) \<Rightarrow>
          if c = CHR '','' then read_records fuel (fs @ [f]) rest
          else if c = CHR 0x0A then map_option ((#) (fs @ [f])) (read_records fuel [] rest)
          else None)"

definition csv_read :: "string \<Rightarrow> string list list option" where
  "csv_read s = read_records (length s + 1) [] s"

definition ends_field :: "string \<Rightarrow> bool" where
  "ends_field rest \<longleftrightarrow> rest \<noteq> [] \<and> (hd rest = CHR '','' \<or> hd rest = CHR 0x0A)"

lemma read_quoted_back:
  assumes "ends_field rest"
  shows "read_quoted acc (concat (map (\<lambda>c. if c = CHR 0x22 then [CHR 0x22, CHR 0x22] else [c]) f) @ CHR 0x22 # rest)
    = Some (rev acc @ f, rest)"
proof (induction f arbitrary: acc)
  case Nil
  obtain d s where "rest = d # s" "d \<noteq> CHR 0x22" using assms by (cases rest) (auto simp: ends_field_def)
  then show ?case by simp
next
  case (Cons c f)
  show ?case
  proof (cases "c = CHR 0x22")
    case False
    let ?s = "concat (map (\<lambda>c. if c = CHR 0x22 then [CHR 0x22, CHR 0x22] else [c]) f) @ CHR 0x22 # rest"
    have "read_quoted acc (c # ?s) = read_quoted (c # acc) ?s" using False by (cases ?s) simp_all
    then show ?thesis using False Cons.IH [of "c # acc"] by simp
  qed (use Cons.IH in simp)
qed

lemma read_field_back:
  assumes "ends_field rest"
  shows "read_field (csv_field f @ rest) = Some (f, rest)"
proof (cases "fieldNeedsQuotes f")
  case True
  then show ?thesis using read_quoted_back [OF assms, of "[]" f] by (simp add: csv_field_def csv_quote_def read_field_def)
next
  case False
  then have "list_all plain_char f" "f = [] \<or> hd f \<noteq> CHR 0x22"
    by (cases f; auto simp: fieldNeedsQuotes_def plain_char_def list_all_iff list_ex_iff split: if_splits)+
  moreover have "takeWhile plain_char rest = []" "dropWhile plain_char rest = rest" "hd rest \<noteq> CHR 0x22"
    using assms by (cases rest; auto simp: ends_field_def plain_char_def)+
  ultimately show ?thesis using False assms
    by (cases f) (auto simp: csv_field_def read_field_def list_all_iff takeWhile_append2 dropWhile_append2 ends_field_def)
qed

lemma read_records_back:
  assumes "fs \<noteq> []" "length (csv_Write fs @ rest) < fuel"
    and rest: "\<And>n. length rest < n \<Longrightarrow> read_records n [] rest = Some recs"
  shows "read_records fuel acc (csv_Write fs @ rest) = Some ((acc @ fs) # recs)"
  using assms(1,2)
proof (induction fs arbitrary: acc fuel rule: list_nonempty_induct)
  case (single f)
  then obtain n where n: "fuel = Suc n" by (cases fuel) auto
  have "read_field (csv_field f @ CHR 0x0A # rest) = Some (f, CHR 0x0A # rest)"
    by (rule read_field_back) (simp add: ends_field_def)
  moreover have "length rest < n" using single n by (simp add: csv_Write_def)
  ultimately show ?case using n rest by (simp add: csv_Write_def)
next
  case (cons f fs)
  then obtain n where n: "fuel = Suc n" by (cases fuel) auto
  have t: "csv_Write (f # fs) @ rest = csv_field f @ CHR '','' # (csv_Write fs @ rest)"
    using cons.hyps by (cases fs) (simp_all add: csv_Write_def)
  have "read_field (csv_field f @ CHR '','' # (csv_Write fs @ rest)) = Some (f, CHR '','' # (csv_Write fs @ rest))"
    by (rule read_field_back) (simp add: ends_field_def)
  moreover have "length (csv_Write fs @ rest) < n" using cons.prems n by (simp add: t)
  ultimately show ?case using n cons.IH [of n "acc @ [f]"] by (simp add: t)
qed

lemma read_all_back:
  "\<forall>r\<in>set rs. r \<noteq> [] \<Longrightarrow> length (concat (map csv_Write rs)) < n \<Longrightarrow> read_records n [] (concat (map csv_Write rs)) = Some rs"
proof (induction rs arbitrary: n)
  case Nil
  then show ?case by (cases n) simp_all
next
  case (Cons r rs)
  have "read_records k [] (concat (map csv_Write rs)) = Some rs" if "length (concat (map csv_Write rs)) < k" for k
    using Cons.IH [OF _ that] Cons.prems(1) by simp
  with read_records_back [of r "concat (map csv_Write rs)" n rs "[]"] Cons.prems show ?case by simp
qed

text \<open>C37. The CSV output loses nothing. A reader of RFC 4180 gets from it the header and one record per result, in
  order and field by field, whatever commas, quotes, line breaks or spaces the error texts and extra values hold.
\<close>

theorem csv_output_reads_back:
  "csv_read (writeRows marshal env) = Some (columns # map (row marshal) (env_Results env))"
proof -
  let ?rs = "columns # map (row marshal) (env_Results env)"
  have "writeRows marshal env = concat (map csv_Write ?rs)" by (simp add: writeRows_def comp_def)
  moreover have "\<forall>r\<in>set ?rs. r \<noteq> []" by (simp add: columns_def row_def Let_def)
  ultimately show ?thesis unfolding csv_read_def by (metis read_all_back less_add_one)
qed

end
