(* ===== verification/Journal_Logs.thy ===== *)
theory Journal_Logs
  imports Prelude
begin

text \<open>
  Structured logging and its reader: the levels and the envelope of a line (\<^verbatim>\<open>internal/journal/journal.go\<close>), and
  \<^verbatim>\<open>radar-node logs\<close> (\<^verbatim>\<open>cmd/radar-node/logs.go\<close>), which filters and formats what the service manager kept. JSON,
  the clock and \<^verbatim>\<open>journalctl\<close> are arguments.
\<close>

section \<open>Writing\<close>

text \<open>The levels of \<^verbatim>\<open>log/slog\<close>.\<close>

datatype slogLevel = LevelDebug | LevelInfo | LevelWarn | LevelError

definition level_value :: "slogLevel \<Rightarrow> int" where
  "level_value l = (case l of LevelDebug \<Rightarrow> -4 | LevelInfo \<Rightarrow> 0 | LevelWarn \<Rightarrow> 4 | LevelError \<Rightarrow> 8)"

definition level_String :: "slogLevel \<Rightarrow> string" where
  "level_String l = (case l of LevelDebug \<Rightarrow> ''DEBUG'' | LevelInfo \<Rightarrow> ''INFO'' | LevelWarn \<Rightarrow> ''WARN'' | LevelError \<Rightarrow> ''ERROR'')"

definition SetLevel :: "string \<Rightarrow> slogLevel" where
  "SetLevel name =
     (let n = ToLower (TrimSpace name) in
      if n = ''debug'' then LevelDebug
      else if n = ''warn'' \<or> n = ''warning'' then LevelWarn
      else if n = ''error'' then LevelError
      else LevelInfo)"

text \<open>One attribute on its way into a line; the values of the attributes of a call are already in the form JSON
  gives them.\<close>

definition ReplaceAttr :: "string \<times> goval \<Rightarrow> string \<times> goval" where
  "ReplaceAttr a =
     (case a of (k, v) \<Rightarrow>
        if k = ''time'' then (''ts'', v)
        else if k = ''level'' then (''level'', GStr (ToLower (as_string (Some v))))
        else a)"

definition journal_log :: "slogLevel \<Rightarrow> string \<Rightarrow> slogLevel \<Rightarrow> string \<Rightarrow> string \<Rightarrow> gomap \<Rightarrow> gomap option" where
  "journal_log threshold now level src msg args =
     (if level_value level < level_value threshold then None
      else Some (map ReplaceAttr
        ([(''time'', GStr now), (''level'', GStr (level_String level)), (''msg'', GStr msg), (''src'', GStr src)] @ args)))"

section \<open>Reading\<close>

definition levelRank :: "string \<Rightarrow> int" where
  "levelRank name =
     (let n = ToLower (TrimSpace name) in
      if n = ''debug'' then 10
      else if n = ''info'' then 20
      else if n = ''warn'' \<or> n = ''warning'' then 30
      else if n = ''error'' then 40
      else 0)"

definition pad_right :: "nat \<Rightarrow> string \<Rightarrow> string" where
  "pad_right w s = s @ replicate (w - length s) (CHR '' '')"

definition entry_head :: "gomap \<Rightarrow> string" where
  "entry_head entry =
     (let ts = as_string (map_of entry ''ts'');
          ts = (if length ts \<ge> 19 then take 8 (drop 11 ts) else ts);
          level = ToUpper (as_string (map_of entry ''level''))
      in ts @ '' '' @ pad_right 5 level @ '' '' @ pad_right 10 (as_string (map_of entry ''src''))
         @ '' '' @ as_string (map_of entry ''msg''))"

definition format_entry :: "(gofloat \<Rightarrow> string) \<Rightarrow> gomap \<Rightarrow> string" where
  "format_entry ffmt entry =
     (let keys = sort (filter (\<lambda>k. k \<notin> {''ts'', ''level'', ''src'', ''msg''}) (map fst entry))
      in entry_head entry @ concat (map (\<lambda>k. ''  '' @ k @ ''='' @
           (case map_of entry k of Some v \<Rightarrow> fmt_v ffmt v | None \<Rightarrow> [])) keys))"

record logsFlags =
  lf_n :: int
  lf_f :: bool
  lf_level :: string
  lf_src :: string
  lf_raw :: bool

text \<open>What becomes of one line: printed, or \<open>None\<close> if it is filtered out.\<close>

definition logs_line :: "(gofloat \<Rightarrow> string) \<Rightarrow> (string \<Rightarrow> gomap option) \<Rightarrow> logsFlags \<Rightarrow> string \<Rightarrow> string option" where
  "logs_line ffmt parse fl line =
     (if \<not> HasPrefix (TrimSpace line) ''{'' then Some line
      else case parse line of
        None \<Rightarrow> Some line
      | Some entry \<Rightarrow>
          if lf_src fl \<noteq> [] \<and> as_string (map_of entry ''src'') \<noteq> lf_src fl then None
          else if levelRank (lf_level fl) > 0 \<and> levelRank (as_string (map_of entry ''level'')) < levelRank (lf_level fl) then None
          else if lf_raw fl then Some line
          else Some (format_entry ffmt entry))"

record logsEnv =
  lg_path :: "string option"
  lg_euid :: int
  lg_home :: "string option"
  lg_exists :: "string \<Rightarrow> bool"
  lg_pipe :: bool
  lg_run :: "string \<Rightarrow> string list \<Rightarrow> (string list \<times> bool \<times> bool) option"
  lg_parse :: "string \<Rightarrow> gomap option"
  lg_ffmt :: "gofloat \<Rightarrow> string"

datatype logsError = NoJournalctl | PipeFailed | StartFailed | ScanFailed | WaitFailed

definition journalctl :: "logsEnv \<Rightarrow> int \<Rightarrow> bool \<Rightarrow> (string \<times> string list) option" where
  "journalctl env n follow =
     (case lg_path env of
        None \<Rightarrow> None
      | Some path \<Rightarrow>
          (let args = [''-u'', ''radar-node'', ''-o'', ''cat'', ''-n'', Itoa n] @ (if follow then [''-f''] else []);
               user = lg_euid env \<noteq> 0 \<and> (case lg_home env of
                   None \<Rightarrow> False
                 | Some home \<Rightarrow> lg_exists env (home @ ''/.config/systemd/user/radar-node.service''))
           in Some (path, (if user then [''--user''] else []) @ args)))"

text \<open>The printed lines, and the error the command ends with. The run of \<^verbatim>\<open>journalctl\<close> gives the lines its output
  is scanned into, whether the scan ended without an error, and whether the process did.\<close>

definition logs_run :: "logsEnv \<Rightarrow> logsFlags \<Rightarrow> string list \<times> logsError option" where
  "logs_run env fl =
     (case journalctl env (lf_n fl) (lf_f fl) of
        None \<Rightarrow> ([], Some NoJournalctl)
      | Some (path, args) \<Rightarrow>
          if \<not> lg_pipe env then ([], Some PipeFailed)
          else case lg_run env path args of
            None \<Rightarrow> ([], Some StartFailed)
          | Some (ls, scanned, ended) \<Rightarrow>
              (List.map_filter (logs_line (lg_ffmt env) (lg_parse env) fl) ls,
               if \<not> scanned then Some ScanFailed else if \<not> ended then Some WaitFailed else None))"

section \<open>The filter and the levels agree\<close>

definition level_named :: "string \<Rightarrow> bool" where
  "level_named name \<longleftrightarrow> ToLower (TrimSpace name) \<in> {''debug'', ''info'', ''warn'', ''warning'', ''error''}"

lemma levelRank_written:
  "levelRank (ToLower (level_String LevelDebug)) = 10" "levelRank (ToLower (level_String LevelInfo)) = 20"
  "levelRank (ToLower (level_String LevelWarn)) = 30" "levelRank (ToLower (level_String LevelError)) = 40"
  by code_simp+

lemma levelRank_threshold:
  "levelRank (ToLower (level_String l)) < levelRank name \<longleftrightarrow> level_named name \<and> level_value l < level_value (SetLevel name)"
  by (cases l) (simp_all add: levelRank_written, simp_all add: levelRank_def SetLevel_def level_named_def level_value_def Let_def)

lemma levelRank_pos: "levelRank name > 0 \<longleftrightarrow> level_named name"
  by (simp add: levelRank_def level_named_def Let_def)

lemma journal_log_entry:
  assumes "journal_log threshold now level src msg args = Some entry"
  shows "map_of entry ''src'' = Some (GStr src)" "map_of entry ''level'' = Some (GStr (ToLower (level_String level)))"
  using assms by (auto simp: journal_log_def ReplaceAttr_def split: if_splits)

text \<open>The reader's filter means what the writer's threshold means. A line the journal wrote is shown by
  \<^verbatim>\<open>radar-node logs\<close> exactly if its subsystem is the one asked for, or none was, and its level would have passed a
  journal set to the level asked for; a name that is no level filters nothing. A line that is not one of the
  journal's, whatever the filters, is shown as it is.
\<close>

theorem logs_filter_exact:
  assumes "journal_log threshold now level src msg args = Some entry" "distinct (map fst entry)"
    and "HasPrefix (TrimSpace line) ''{''" "parse line = Some entry"
  shows "(logs_line ffmt parse fl line \<noteq> None \<longleftrightarrow>
      (lf_src fl = [] \<or> lf_src fl = src)
      \<and> (\<not> level_named (lf_level fl) \<or> journal_log (SetLevel (lf_level fl)) now level src msg args \<noteq> None))
    \<and> (\<forall>other. \<not> HasPrefix (TrimSpace other) ''{'' \<or> parse other = None \<longrightarrow> logs_line ffmt parse fl other = Some other)"
proof (intro conjI allI impI)
  have j: "journal_log (SetLevel (lf_level fl)) now level src msg args \<noteq> None
      \<longleftrightarrow> \<not> level_value level < level_value (SetLevel (lf_level fl))" by (simp add: journal_log_def)
  show "logs_line ffmt parse fl line \<noteq> None \<longleftrightarrow> (lf_src fl = [] \<or> lf_src fl = src)
      \<and> (\<not> level_named (lf_level fl) \<or> journal_log (SetLevel (lf_level fl)) now level src msg args \<noteq> None)"
    unfolding j using assms(3,4) journal_log_entry [OF assms(1)]
    by (auto simp: logs_line_def levelRank_pos levelRank_threshold)
  show "logs_line ffmt parse fl other = Some other" if "\<not> HasPrefix (TrimSpace other) ''{'' \<or> parse other = None" for other
    using that by (auto simp: logs_line_def)
qed

definition demo_entry :: gomap where
  "demo_entry = [(''ts'', GStr ''t''), (''level'', GStr ''warn''), (''msg'', GStr ''m''), (''src'', GStr ''agent''), (''err'', GStr ''e'')]"

definition demo_parse :: "string \<Rightarrow> gomap option" where
  "demo_parse s = (if s = ''{}'' then Some demo_entry else None)"

theorem logs_filter_exact_witness:
  "logs_line (\<lambda>_. []) demo_parse \<lparr>lf_n = 50, lf_f = False, lf_level = '' Warning'', lf_src = ''agent'', lf_raw = True\<rparr> ''{}'' \<noteq> None
   \<and> logs_line (\<lambda>_. []) demo_parse \<lparr>lf_n = 50, lf_f = False, lf_level = ''error'', lf_src = [], lf_raw = True\<rparr> ''{}'' = None"
proof -
  let ?fl = "\<lambda>l s. \<lparr>lf_n = 50, lf_f = False, lf_level = l, lf_src = s, lf_raw = True\<rparr>"
  have j: "journal_log LevelInfo ''t'' LevelWarn ''agent'' ''m'' [(''err'', GStr ''e'')] = Some demo_entry" by code_simp
  have d: "distinct (map fst demo_entry)" by (simp add: demo_entry_def)
  have p: "HasPrefix (TrimSpace ''{}'') ''{''" by code_simp
  have q: "demo_parse ''{}'' = Some demo_entry" by (simp add: demo_parse_def)
  have "level_named '' Warning''" "level_named ''error''" "SetLevel '' Warning'' = LevelWarn" "SetLevel ''error'' = LevelError" by code_simp+
  then show ?thesis
    using logs_filter_exact [where parse = demo_parse and line = "''{}''" and ffmt = "\<lambda>_. []" and fl = "?fl '' Warning'' ''agent''", OF j d p q]
      logs_filter_exact [where parse = demo_parse and line = "''{}''" and ffmt = "\<lambda>_. []" and fl = "?fl ''error'' []", OF j d p q]
    by (simp add: journal_log_def level_value_def)
qed

end
