(* ===== verification/Command_Line.thy ===== *)
theory Command_Line
  imports Flags Output Journal_Logs Registry Agent_Config Modinstall Poolconfig Jobprobe
begin

text \<open>
  The commands of the binary (\<^verbatim>\<open>cmd/radar-node/main.go\<close>, and the flags of the two module helpers): the flag set
  each command declares, what it calls with the parsed values, and the exit code of the process. The components the
  commands call are the models of the other theories; files, the server, JSON and the duration parser are arguments.
\<close>

section \<open>Reading flags\<close>

definition flag_str :: "flagSet \<Rightarrow> string \<Rightarrow> string" where
  "flag_str fs n = (case map_of fs n of Some (VString s) \<Rightarrow> s | _ \<Rightarrow> [])"

definition flag_int :: "flagSet \<Rightarrow> string \<Rightarrow> int" where
  "flag_int fs n = (case map_of fs n of Some (VInt i) \<Rightarrow> i | _ \<Rightarrow> 0)"

definition flag_bool :: "flagSet \<Rightarrow> string \<Rightarrow> bool" where
  "flag_bool fs n = (case map_of fs n of Some (VBool b) \<Rightarrow> b | _ \<Rightarrow> False)"

definition flag_dur :: "flagSet \<Rightarrow> string \<Rightarrow> duration" where
  "flag_dur fs n = (case map_of fs n of Some (VDuration d) \<Rightarrow> d | _ \<Rightarrow> 0)"

definition flag_params :: "flagSet \<Rightarrow> string \<Rightarrow> stringMap" where
  "flag_params fs n = (case map_of fs n of Some (VParams m) \<Rightarrow> m | _ \<Rightarrow> [])"

datatype cliError =
    FlagProblem flagError
  | WrongArguments
  | BadBindFlags bind_error
  | ModulesUnreadable moduleError
  | UnknownType string
  | BadCount
  | OutputProblem outputError
  | MissingFlag string
  | NegativeFlag string
  | AgentFailed runError
  | InitFailed string
  | InstallFailed installError
  | LogsFailed logsError
  | StoreFailed storeError
  | StoreUnusable
  | UnknownSubcommand
  | EncodeLineFailed
  | PoolconfigFailed pcError
  | JobprobeFailed probeError

section \<open>The probe command\<close>

record cliEnv =
  ce_dur :: "string \<Rightarrow> duration option"
  ce_ParseAddr :: "string \<Rightarrow> addr option"
  ce_load :: loadEnv
  ce_embedded :: "fsEntry list option"
  ce_stat :: "string \<Rightarrow> statResult"
  ce_step :: stepEnv
  ce_pool :: poolEnv
  ce_output :: outputEnv

definition probe_flags :: flagSet where
  "probe_flags =
     [(''type'', VString ''tcp''), (''count'', VInt 1), (''timeout'', VDuration (5 * second)), (''format'', VString ''json''),
      (''param'', VParams []), (''modules-dir'', VString []), (''tools-dir'', VString []), (''source-ip'', VString []),
      (''bind-interface'', VString [])]"

definition noLimits :: PoolLimits where
  "noLimits = \<lparr>pl_TestConcurrency = 0, pl_MaxJobsPerInstance = 0, pl_PortBase = 0, pl_PortSpan = 0\<rparr>"

definition reg_Default :: "loadEnv \<Rightarrow> fsEntry list option \<Rightarrow> moduleError + registry" where
  "reg_Default env files = DefaultWithLimits env files noLimits"

definition LoadModules :: "loadEnv \<Rightarrow> string \<Rightarrow> statResult \<Rightarrow> string \<Rightarrow> registry \<Rightarrow> moduleError + registry" where
  "LoadModules env dir stat toolsDir r = LoadModulesWithLimits env dir stat toolsDir noLimits r"

text \<open>The call of a checker through its interface, with the state a pooled one keeps.\<close>

definition checker_Check :: "cliEnv \<Rightarrow> nat \<Rightarrow> Options \<Rightarrow> moduleChecker \<Rightarrow> (Result \<times> moduleChecker) option" where
  "checker_Check env n opts ck =
     (case ck of
        CommandChecker m \<Rightarrow> map_option (\<lambda>r. (r, ck)) (Check (ce_step env) (2 * n) m opts)
      | PooledChecker m spec limits p \<Rightarrow>
          map_option (\<lambda>(r, p). (r, PooledChecker m spec limits p)) (pool_Check (ce_pool env) m spec limits opts p))"

fun probe_loop ::
  "(nat \<Rightarrow> Options \<Rightarrow> 's \<Rightarrow> (Result \<times> 's) option) \<Rightarrow> (int \<Rightarrow> Options) \<Rightarrow> nat \<Rightarrow> nat \<Rightarrow> Envelope \<Rightarrow> 's \<Rightarrow> (Envelope \<times> 's) option" where
  "probe_loop check opts i 0 e s = Some (e, s)"
| "probe_loop check opts i (Suc n) e s =
     (case check i (opts (int i)) s of
        None \<Rightarrow> None
      | Some (result, s) \<Rightarrow>
          probe_loop check opts (i + 1) n
            \<lparr>env_Ok = (if \<not> r_Ok result then False else env_Ok e), env_Results = env_Results e @ [result]\<rparr> s)"

text \<open>Everything before the first check: the binding, the modules, the checker and the count.\<close>

definition probe_select :: "cliEnv \<Rightarrow> flagSet \<Rightarrow> cliError + Binding \<times> moduleChecker" where
  "probe_select env fs =
     (case Parse (ce_ParseAddr env) (flag_str fs ''source-ip'') (flag_str fs ''bind-interface'') of
        Inl e \<Rightarrow> Inl (BadBindFlags e)
      | Inr binding \<Rightarrow>
     (case reg_Default (ce_load env) (ce_embedded env) of
        Inl e \<Rightarrow> Inl (ModulesUnreadable e)
      | Inr reg \<Rightarrow>
     (case LoadModules (ce_load env) (flag_str fs ''modules-dir'') (ce_stat env (flag_str fs ''modules-dir''))
             (flag_str fs ''tools-dir'') reg of
        Inl e \<Rightarrow> Inl (ModulesUnreadable e)
      | Inr reg \<Rightarrow>
     (case reg_Get reg (flag_str fs ''type'') of
        None \<Rightarrow> Inl (UnknownType (flag_str fs ''type''))
      | Some checker \<Rightarrow> if flag_int fs ''count'' < 1 then Inl BadCount else Inr (binding, checker)))))"

definition probe_options :: "flagSet \<Rightarrow> Binding \<Rightarrow> string \<Rightarrow> int \<Rightarrow> Options" where
  "probe_options fs binding target i =
     \<lparr>o_Target = target, o_Timeout = flag_dur fs ''timeout'', o_ProbeID = [], o_Destination = [], o_Seq = i,
      o_Params = toParams (flag_params fs ''param''), o_Bind = binding\<rparr>"

text \<open>The checks and the envelope they fill, with the checker as they leave it.\<close>

definition probe_checks :: "cliEnv \<Rightarrow> flagSet \<Rightarrow> string \<Rightarrow> Binding \<times> moduleChecker \<Rightarrow> (Envelope \<times> moduleChecker) option" where
  "probe_checks env fs target sel =
     (case sel of (binding, checker) \<Rightarrow>
        probe_loop (checker_Check env) (probe_options fs binding target) 1 (nat (flag_int fs ''count''))
          \<lparr>env_Ok = True, env_Results = []\<rparr> checker)"

text \<open>The text on standard output or the error; \<open>None\<close> is a panic.\<close>

definition runProbe :: "cliEnv \<Rightarrow> string list \<Rightarrow> (cliError + string) option" where
  "runProbe env args =
     (case flag_Parse (ce_dur env) probe_flags (partitionFlags args) of
        Inl e \<Rightarrow> Some (Inl (FlagProblem e))
      | Inr (fs, pos) \<Rightarrow>
          if length pos \<noteq> 1 then Some (Inl WrongArguments)
          else case probe_select env fs of
            Inl e \<Rightarrow> Some (Inl e)
          | Inr sel \<Rightarrow>
              (case probe_checks env fs (hd pos) sel of
                 None \<Rightarrow> None
               | Some (e, _) \<Rightarrow>
                   map_option (map_sum OutputProblem (\<lambda>t. t)) (output_Write (ce_output env) (flag_str fs ''format'') e)))"

section \<open>The agent command\<close>

definition agent_flags :: flagSet where
  "agent_flags =
     [(''api-url'', VString []), (''api-key'', VString []), (''api-proxy'', VString []),
      (''scheduler-tick'', VDuration (2 * second)), (''concurrency'', VInt 0), (''max-jobs-per-tick'', VInt 0),
      (''max-jobs-per-probe'', VInt 0), (''max-triggers-per-tick'', VInt 0), (''startup-jitter'', VDuration (5 * second)),
      (''mem-limit'', VInt 0), (''pool-concurrency'', VInt 0), (''pool-max-jobs'', VInt 0), (''pool-port-base'', VInt 0),
      (''pool-port-span'', VInt 0), (''domain-strategy'', VString []), (''source-ip'', VString []),
      (''bind-interface'', VString []), (''spool-dir'', VString []), (''spool-max-bytes'', VInt 0), (''db-path'', VString []),
      (''db-max-bytes'', VInt DefaultMaxBytes), (''db-retention'', VDuration DefaultRetention), (''db-sync'', VString ''normal''),
      (''destination-interval'', VDuration (10 * second)), (''destination-max-wait'', VDuration (30 * second)),
      (''modules-dir'', VString []), (''tools-dir'', VString [])]"

definition agent_config :: "string \<Rightarrow> flagSet \<Rightarrow> Config" where
  "agent_config version fs =
     \<lparr>cf_APIURL = flag_str fs ''api-url'', cf_APIKey = flag_str fs ''api-key'', cf_ProxyURL = flag_str fs ''api-proxy'',
      cf_Version = version, cf_SchedulerTick = flag_dur fs ''scheduler-tick'', cf_Concurrency = flag_int fs ''concurrency'',
      cf_MaxJobsPerTick = flag_int fs ''max-jobs-per-tick'', cf_MaxJobsPerProbe = flag_int fs ''max-jobs-per-probe'',
      cf_MaxTriggersPerTick = flag_int fs ''max-triggers-per-tick'', cf_StartupJitter = flag_dur fs ''startup-jitter'',
      cf_MemoryLimitBytes = flag_int fs ''mem-limit'', cf_PoolConcurrency = flag_int fs ''pool-concurrency'',
      cf_PoolMaxJobs = flag_int fs ''pool-max-jobs'', cf_PoolPortBase = flag_int fs ''pool-port-base'',
      cf_PoolPortSpan = flag_int fs ''pool-port-span'', cf_DomainStrategy = flag_str fs ''domain-strategy'',
      cf_SourceIP = flag_str fs ''source-ip'', cf_BindInterface = flag_str fs ''bind-interface'',
      cf_SpoolDir = flag_str fs ''spool-dir'', cf_SpoolMaxBytes = flag_int fs ''spool-max-bytes'',
      cf_DBPath = flag_str fs ''db-path'', cf_DBMaxBytes = flag_int fs ''db-max-bytes'',
      cf_DBRetention = flag_dur fs ''db-retention'', cf_DBSync = flag_str fs ''db-sync'',
      cf_DestinationInterval = flag_dur fs ''destination-interval'', cf_DestinationMaxWait = flag_dur fs ''destination-max-wait''\<rparr>"

text \<open>The outside of \<^verbatim>\<open>Run\<close> may depend on the directories the flags name.\<close>

definition runAgent ::
  "(string \<Rightarrow> duration option) \<Rightarrow> (string \<Rightarrow> string \<Rightarrow> runEnv) \<Rightarrow> string \<Rightarrow> string list \<Rightarrow> cliError + agent" where
  "runAgent dur renv version args =
     (case flag_Parse dur agent_flags args of
        Inl e \<Rightarrow> Inl (FlagProblem e)
      | Inr (fs, _) \<Rightarrow>
          if flag_str fs ''api-url'' = [] then Inl (MissingFlag ''api-url'')
          else if flag_str fs ''api-key'' = [] then Inl (MissingFlag ''api-key'')
          else map_sum AgentFailed (\<lambda>a. a)
            (Run (renv (flag_str fs ''modules-dir'') (flag_str fs ''tools-dir'')) (agent_config version fs)))"

section \<open>Init\<close>

record initEnv =
  in_mkdir :: "string \<Rightarrow> bool"
  in_isdir :: "string \<Rightarrow> bool"
  in_writable :: "string \<Rightarrow> bool"

definition init_flags :: flagSet where
  "init_flags = [(''C'', VString ''.''), (''force'', VBool False)]"

text \<open>The loop over the embedded files: what is printed, the error, the files. A destination exists if it is a
  file or a directory.\<close>

fun init_loop ::
  "initEnv \<Rightarrow> string \<Rightarrow> bool \<Rightarrow> fsEntry list \<Rightarrow> string list \<Rightarrow> (string \<rightharpoonup> string) \<Rightarrow> string list \<times> cliError option \<times> (string \<rightharpoonup> string)" where
  "init_loop env path force [] out files = (out, None, files)"
| "init_loop env path force ((name, isDir, content) # entries) out files =
     (case content of
        None \<Rightarrow> (out, Some (InitFailed name), files)
      | Some data \<Rightarrow>
          (let dest = path_Join path name in
           if \<not> force \<and> (files dest \<noteq> None \<or> in_isdir env dest) then init_loop env path force entries out files
           else if in_isdir env dest \<or> \<not> in_writable env dest then (out, Some (InitFailed dest), files)
           else init_loop env path force entries (out @ [dest]) (files(dest \<mapsto> data))))"

definition runInit ::
  "(string \<Rightarrow> duration option) \<Rightarrow> initEnv \<Rightarrow> fsEntry list option \<Rightarrow> string list \<Rightarrow> (string \<rightharpoonup> string)
    \<Rightarrow> string list \<times> cliError option \<times> (string \<rightharpoonup> string)" where
  "runInit dur env embedded args files =
     (case flag_Parse dur init_flags args of
        Inl e \<Rightarrow> ([], Some (FlagProblem e), files)
      | Inr (fs, _) \<Rightarrow>
          (let path = flag_str fs ''C''; force = flag_bool fs ''force'' in
           if \<not> in_mkdir env path then ([], Some (InitFailed path), files)
           else case embedded of
             None \<Rightarrow> ([], Some (InitFailed []), files)
           | Some entries \<Rightarrow> init_loop env path force entries [] files))"

section \<open>Modules\<close>

definition path_Join3 :: "string \<Rightarrow> string \<Rightarrow> string" where
  "path_Join3 home leaf = path_Join (path_Join (path_Join home ''.config'') ''radar-node'') leaf"

definition defaultModuleDirs :: "int \<Rightarrow> string \<Rightarrow> string \<times> string" where
  "defaultModuleDirs euid home =
     (if euid = 0 then (''/etc/radar-node/modules.d'', ''/etc/radar-node/tools'')
      else (path_Join3 home ''modules.d'', path_Join3 home ''tools''))"

definition moduleInstallFlags :: "int \<Rightarrow> string \<Rightarrow> flagSet" where
  "moduleInstallFlags euid home =
     (case defaultModuleDirs euid home of (modulesDir, toolsDir) \<Rightarrow>
        [(''modules-dir'', VString modulesDir), (''tools-dir'', VString toolsDir), (''proxy'', VString [])])"

definition install_config :: "flagSet \<Rightarrow> instConfig" where
  "install_config fs = \<lparr>cfg_ModulesDir = flag_str fs ''modules-dir'', cfg_ToolsDir = flag_str fs ''tools-dir'',
     cfg_ProxyURL = flag_str fs ''proxy''\<rparr>"

text \<open>The three module commands differ in the call they make and the word they print.\<close>

definition module_command ::
  "(instConfig \<Rightarrow> string \<Rightarrow> installWorld \<Rightarrow> installError option \<times> installWorld) \<Rightarrow> string
    \<Rightarrow> (string \<Rightarrow> duration option) \<Rightarrow> int \<Rightarrow> string \<Rightarrow> string list \<Rightarrow> installWorld \<Rightarrow> (cliError + string) \<times> installWorld" where
  "module_command call word dur euid home args w =
     (case flag_Parse dur (moduleInstallFlags euid home) (partitionFlags args) of
        Inl e \<Rightarrow> (Inl (FlagProblem e), w)
      | Inr (fs, pos) \<Rightarrow>
          if length pos \<noteq> 1 then (Inl WrongArguments, w)
          else case call (install_config fs) (hd pos) w of
            (Some e, w) \<Rightarrow> (Inl (InstallFailed e), w)
          | (None, w) \<Rightarrow> (Inr (word @ '' '' @ hd pos), w))"

definition runFetchModule ::
  "installEnv \<Rightarrow> (string \<Rightarrow> duration option) \<Rightarrow> int \<Rightarrow> string \<Rightarrow> string list \<Rightarrow> installWorld \<Rightarrow> (cliError + string) \<times> installWorld" where
  "runFetchModule env dur euid home args w = module_command (Fetch env) ''fetched'' dur euid home args w"

definition runInstallModule ::
  "installEnv \<Rightarrow> (string \<Rightarrow> duration option) \<Rightarrow> int \<Rightarrow> string \<Rightarrow> string list \<Rightarrow> installWorld \<Rightarrow> (cliError + string) \<times> installWorld" where
  "runInstallModule env dur euid home args w = module_command (Install env) ''installed'' dur euid home args w"

definition runRemoveModule ::
  "installEnv \<Rightarrow> (string \<Rightarrow> duration option) \<Rightarrow> int \<Rightarrow> string \<Rightarrow> string list \<Rightarrow> installWorld \<Rightarrow> (cliError + string) \<times> installWorld" where
  "runRemoveModule env dur euid home args w = module_command (mod_Remove env) ''removed'' dur euid home args w"

section \<open>Logs and the module helpers\<close>

definition logs_flags :: flagSet where
  "logs_flags = [(''n'', VInt 50), (''f'', VBool False), (''level'', VString []), (''src'', VString []), (''raw'', VBool False)]"

definition runLogs :: "(string \<Rightarrow> duration option) \<Rightarrow> logsEnv \<Rightarrow> string list \<Rightarrow> string list \<times> cliError option" where
  "runLogs dur env args =
     (case flag_Parse dur logs_flags args of
        Inl e \<Rightarrow> ([], Some (FlagProblem e))
      | Inr (fs, _) \<Rightarrow>
          (case logs_run env \<lparr>lf_n = flag_int fs ''n'', lf_f = flag_bool fs ''f'', lf_level = flag_str fs ''level'',
                 lf_src = flag_str fs ''src'', lf_raw = flag_bool fs ''raw''\<rparr> of
             (out, e) \<Rightarrow> (out, map_option LogsFailed e)))"

definition poolconfig_flags :: flagSet where
  "poolconfig_flags = [(''jobs'', VString []), (''out'', VString [])]"

definition poolconfig_command ::
  "(string \<Rightarrow> duration option) \<Rightarrow> pcRun \<Rightarrow> (gofloat \<Rightarrow> int) \<Rightarrow> (addr \<Rightarrow> string) \<Rightarrow> string list \<Rightarrow> (cliError + string) option" where
  "poolconfig_command dur r f2i ipstr args =
     (case flag_Parse dur poolconfig_flags args of
        Inl e \<Rightarrow> Some (Inl (FlagProblem e))
      | Inr (fs, _) \<Rightarrow>
          map_option (map_sum PoolconfigFailed (\<lambda>t. t)) (pc_Run r f2i ipstr (flag_str fs ''jobs'') (flag_str fs ''out'')))"

definition jobprobe_flags :: flagSet where
  "jobprobe_flags = [(''socks-port'', VInt 0), (''target'', VString []), (''timeout-ms'', VInt 5000), (''params-file'', VString []),
     (''fallback-targets'', VString [])]"

definition runJobProbe :: "(string \<Rightarrow> duration option) \<Rightarrow> probeIO \<Rightarrow> string list \<Rightarrow> (cliError + string) \<times> gotime" where
  "runJobProbe dur io args =
     (case flag_Parse dur jobprobe_flags args of
        Inl e \<Rightarrow> (Inl (FlagProblem e), 0)
      | Inr (fs, _) \<Rightarrow>
          (case jp_Run io (flag_int fs ''socks-port'') (flag_str fs ''target'') (flag_int fs ''timeout-ms'')
                  (flag_str fs ''params-file'') (flag_str fs ''fallback-targets'') of
             (r, t) \<Rightarrow> (map_sum JobprobeFailed (\<lambda>t. t) r, t)))"

section \<open>The process\<close>

datatype command =
    CmdProbe | CmdAgent | CmdInit | CmdFetchModule | CmdInstallModule | CmdRemoveModule | CmdLogs | CmdStore
  | CmdJobprobe | CmdPoolconfig | CmdVersion | CmdHelp

definition command_of :: "string \<Rightarrow> command option" where
  "command_of s =
     map_of [(''probe'', CmdProbe), (''agent'', CmdAgent), (''init'', CmdInit), (''fetch-module'', CmdFetchModule),
       (''install-module'', CmdInstallModule), (''remove-module'', CmdRemoveModule), (''logs'', CmdLogs), (''store'', CmdStore),
       (''jobprobe'', CmdJobprobe), (''poolconfig'', CmdPoolconfig), (''version'', CmdVersion), (''-v'', CmdVersion),
       (''--version'', CmdVersion), (''-h'', CmdHelp), (''--help'', CmdHelp), (''help'', CmdHelp)] s"

text \<open>The exit code. \<open>run\<close> runs a command with its arguments and says whether it succeeded; the process's own
  name is the first argument.\<close>

definition main :: "(command \<Rightarrow> string list \<Rightarrow> bool) \<Rightarrow> string list \<Rightarrow> int" where
  "main run args =
     (if length args < 2 then 2
      else case command_of (args ! 1) of
        None \<Rightarrow> 2
      | Some CmdVersion \<Rightarrow> 0
      | Some CmdHelp \<Rightarrow> 0
      | Some c \<Rightarrow> if run c (drop 2 args) then 0 else 1)"

section \<open>What one probe command reports\<close>

text \<open>What the command relies on, as an interface: a checker answers every check with a result of the sequence
  number it was asked for, and can be asked again afterwards.\<close>

locale answering_checker =
  fixes check :: "nat \<Rightarrow> Options \<Rightarrow> 's \<Rightarrow> (Result \<times> 's) option"
    and good :: "'s \<Rightarrow> bool"
  assumes answers_one: "good s \<Longrightarrow> \<exists>r s'. check i opts s = Some (r, s') \<and> r_Seq r = o_Seq opts \<and> good s'"
begin

lemma loop_answers:
  assumes "good s" "\<And>i. o_Seq (opts i) = i"
  shows "\<exists>rs s'. probe_loop check opts i n e s
      = Some (\<lparr>env_Ok = (env_Ok e \<and> list_all r_Ok rs), env_Results = env_Results e @ rs\<rparr>, s')
    \<and> map r_Seq rs = map int [i..<i + n] \<and> good s'"
  using assms(1)
proof (induction n arbitrary: i e s)
  case (Suc n)
  obtain r s1 where r: "check i (opts (int i)) s = Some (r, s1)" "r_Seq r = int i" "good s1"
    using answers_one [OF Suc.prems, of i "opts (int i)"] assms(2) by auto
  let ?e = "\<lparr>env_Ok = (if \<not> r_Ok r then False else env_Ok e), env_Results = env_Results e @ [r]\<rparr>"
  obtain rs s2 where rs: "probe_loop check opts (i + 1) n ?e s1
      = Some (\<lparr>env_Ok = (env_Ok ?e \<and> list_all r_Ok rs), env_Results = env_Results ?e @ rs\<rparr>, s2)"
    "map r_Seq rs = map int [i + 1..<i + 1 + n]" "good s2"
    using Suc.IH [OF r(3), of "i + 1" ?e] by blast
  have seqs: "map r_Seq (r # rs) = map int [i..<i + Suc n]"
    using r(2) rs(2) by (simp add: upt_conv_Cons del: upt_Suc)
  have "probe_loop check opts i (Suc n) e s
      = Some (\<lparr>env_Ok = (env_Ok e \<and> list_all r_Ok (r # rs)), env_Results = env_Results e @ (r # rs)\<rparr>, s2)"
    using r(1) rs(1) by auto
  with seqs rs(3) show ?case by blast
qed simp

end

text \<open>A checker that can be run: an action that answers its own check, a validated command module whose optional
  steps name a command, or a pooled module at rest.\<close>

definition runnable_checker :: "cliEnv \<Rightarrow> moduleChecker \<Rightarrow> bool" where
  "runnable_checker env ck =
     (case ck of
        CommandChecker m \<Rightarrow>
          if m_Action m \<noteq> [] then (\<forall>n opts. r_Seq (se_action (ce_step env) (m_Action m) n opts) = o_Seq opts)
          else (\<exists>compile m0. validate compile m0 = Inr m \<and> m_Action m0 = [] \<and> steps_runnable m0)
      | PooledChecker m spec limits p \<Rightarrow> pooled m spec \<and> pool_idle p)"

lemma pool_Check_total:
  assumes "pooled m spec" "pool_idle p"
  shows "\<exists>r p'. pool_Check env m spec limits opts p = Some (r, p') \<and> r_Seq r = o_Seq opts \<and> pool_idle p'"
proof -
  obtain rs p' where b: "CheckBatch env m spec limits [opts] p = Some (rs, p')" "map r_Seq rs = [o_Seq opts]" "pool_idle p'"
    using CheckBatch_total [OF assms, of env limits "[opts]"] by auto
  then obtain r where "rs = [r]" "r_Seq r = o_Seq opts" by auto
  with b show ?thesis by (simp add: pool_Check_def)
qed

interpretation checkers: answering_checker "checker_Check env" "runnable_checker env" for env
proof
  fix ck i opts
  assume good: "runnable_checker env ck"
  show "\<exists>r ck'. checker_Check env i opts ck = Some (r, ck') \<and> r_Seq r = o_Seq opts \<and> runnable_checker env ck'"
  proof (cases ck)
    case (CommandChecker m)
    have "\<exists>r. Check (ce_step env) (2 * i) m opts = Some r \<and> r_Seq r = o_Seq opts"
    proof (cases "m_Action m = []")
      case True
      then obtain compile m0 where "validate compile m0 = Inr m" "m_Action m0 = []" "steps_runnable m0"
        using good CommandChecker by (auto simp: runnable_checker_def)
      from Check_answers [OF this, of opts "ce_step env" "2 * i"] show ?thesis by (auto simp: answers_def)
    next
      case False
      then show ?thesis using good CommandChecker
        by (auto simp: runnable_checker_def Check_def result_defs split: option.split)
    qed
    then show ?thesis using good CommandChecker by (auto simp: checker_Check_def)
  next
    case (PooledChecker m spec limits p)
    with good pool_Check_total [of m spec p "ce_pool env" limits opts] show ?thesis
      by (auto simp: runnable_checker_def checker_Check_def)
  qed
qed

text \<open>C18. One probe command, from its words to its output. Whatever the order of its options and its one target, in
  whichever notation, if their values parse and select a checker that can be run, the command does not panic; it prints,
  in the format asked for, an envelope with exactly as many results as were asked for, numbered from one in order, and
  the envelope is marked as successful exactly if every result is.
\<close>

theorem runProbe_reports_every_attempt:
  assumes "list_all (item_ok probe_flags) items" "positionals items = [target]"
    and "assign (ce_dur env) items probe_flags = Inr fs"
    and "probe_select env fs = Inr (binding, checker)" "runnable_checker env checker"
  shows "\<exists>e out. runProbe env (concat (map item_tokens items)) = Some (map_sum OutputProblem (\<lambda>t. t) out)
    \<and> output_Write (ce_output env) (flag_str fs ''format'') e = Some out
    \<and> map r_Seq (env_Results e) = [1..flag_int fs ''count''] \<and> env_Ok e = list_all r_Ok (env_Results e)"
proof -
  let ?n = "nat (flag_int fs ''count'')"
  have n: "1 \<le> flag_int fs ''count''" using assms(4) by (auto simp: probe_select_def split: sum.splits option.splits if_splits)
  obtain rs ck where l: "probe_loop (checker_Check env) (probe_options fs binding target) 1 ?n \<lparr>env_Ok = True, env_Results = []\<rparr> checker
      = Some (\<lparr>env_Ok = list_all r_Ok rs, env_Results = rs\<rparr>, ck)" "map r_Seq rs = map int [1..<1 + ?n]"
    using checkers.loop_answers [OF assms(5), of "probe_options fs binding target" 1 ?n "\<lparr>env_Ok = True, env_Results = []\<rparr>"]
    by (auto simp: probe_options_def)
  obtain out where o: "output_Write (ce_output env) (flag_str fs ''format'') \<lparr>env_Ok = list_all r_Ok rs, env_Results = rs\<rparr> = Some out"
    using output_Write_total by blast
  have "map int [1..<1 + ?n] = [1..flag_int fs ''count'']"
    using n by (intro nth_equalityI) (auto simp: nth_append)
  then show ?thesis using l o assms(2,3,4) partitionFlags_Parse [OF assms(1), of "ce_dur env"]
    by (intro exI [of _ "\<lparr>env_Ok = list_all r_Ok rs, env_Results = rs\<rparr>"] exI [of _ out])
      (simp add: runProbe_def probe_checks_def)
qed

definition demo_cli :: cliEnv where
  "demo_cli =
     \<lparr>ce_dur = (\<lambda>_. None), ce_ParseAddr = (\<lambda>_. None),
      ce_load = \<lparr>le_yaml = (\<lambda>s. Some ((demo_module None)\<lparr>m_Name := ''tcp'', m_Action := ''tcp_connect'', m_Run := None,
          m_Collect := \<lparr>co_Format = [], co_Pattern = []\<rparr>\<rparr>)), le_compile = (\<lambda>_. None), le_sha256hex = (\<lambda>s. s)\<rparr>,
      ce_embedded = Some [(''tcp.yaml'', False, Some ''tcp'')], ce_stat = (\<lambda>_. NotExist),
      ce_step = (demo_step_env [])\<lparr>se_action := \<lambda>_ _ opts. result_Ok [] (o_Target opts) (o_Seq opts) second None\<rparr>,
      ce_pool = demo_pool_env,
      ce_output = \<lparr>oe_json = (\<lambda>_. None), oe_marshal = (\<lambda>_. None), oe_align = (\<lambda>s. s), oe_sink = (\<lambda>_. True)\<rparr>\<rparr>"

definition demo_items :: "item list" where
  "demo_items = [Pos ''1.1.1.1:443'', OptEq False ''count'' ''0x2'', Opt True ''format'' ''csv'', Opt True ''param'' ''tls=true'']"

theorem runProbe_reports_every_attempt_witness:
  "\<exists>e out. runProbe demo_cli [''1.1.1.1:443'', ''-count=0x2'', ''--format'', ''csv'', ''--param'', ''tls=true''] = Some (map_sum OutputProblem (\<lambda>t. t) out)
    \<and> map r_Seq (env_Results e) = [1, 2] \<and> output_Write (ce_output demo_cli) ''csv'' e = Some out"
proof -
  let ?fs = "projr (assign (ce_dur demo_cli) demo_items probe_flags)"
  have ok: "list_all (item_ok probe_flags) demo_items" "positionals demo_items = [''1.1.1.1:443'']" by code_simp+
  have "\<not> isl (assign (ce_dur demo_cli) demo_items probe_flags)" by code_simp
  then have fs: "assign (ce_dur demo_cli) demo_items probe_flags = Inr ?fs" by simp
  have "case probe_select demo_cli ?fs of Inr (b, CommandChecker m) \<Rightarrow> m_Action m \<noteq> [] | _ \<Rightarrow> False" by code_simp
  then obtain b m where sel: "probe_select demo_cli ?fs = Inr (b, CommandChecker m)" "m_Action m \<noteq> []"
    by (auto split: sum.split_asm prod.split_asm moduleChecker.split_asm)
  have run: "runnable_checker demo_cli (CommandChecker m)"
    using sel(2) by (simp add: runnable_checker_def demo_cli_def result_defs)
  have t: "concat (map item_tokens demo_items) = [''1.1.1.1:443'', ''-count=0x2'', ''--format'', ''csv'', ''--param'', ''tls=true'']" by code_simp
  have f: "flag_str ?fs ''format'' = ''csv''" "[1..flag_int ?fs ''count''] = [1, 2]" by code_simp+
  from runProbe_reports_every_attempt [OF ok fs sel(1) run] show ?thesis
    unfolding t f by (elim exE conjE) (intro exI conjI)
qed

section \<open>What the agent command starts with\<close>

lemma agent_flags_defaults:
  "map_of agent_flags ''scheduler-tick'' = Some (VDuration (2 * second))" "map_of agent_flags ''concurrency'' = Some (VInt 0)"
  "map_of agent_flags ''max-jobs-per-tick'' = Some (VInt 0)" "map_of agent_flags ''max-jobs-per-probe'' = Some (VInt 0)"
  "map_of agent_flags ''max-triggers-per-tick'' = Some (VInt 0)" "map_of agent_flags ''startup-jitter'' = Some (VDuration (5 * second))"
  "map_of agent_flags ''mem-limit'' = Some (VInt 0)" "map_of agent_flags ''pool-concurrency'' = Some (VInt 0)"
  "map_of agent_flags ''pool-max-jobs'' = Some (VInt 0)" "map_of agent_flags ''pool-port-base'' = Some (VInt 0)"
  "map_of agent_flags ''pool-port-span'' = Some (VInt 0)" "map_of agent_flags ''domain-strategy'' = Some (VString [])"
  "map_of agent_flags ''source-ip'' = Some (VString [])" "map_of agent_flags ''bind-interface'' = Some (VString [])"
  "map_of agent_flags ''spool-dir'' = Some (VString [])" "map_of agent_flags ''spool-max-bytes'' = Some (VInt 0)"
  "map_of agent_flags ''db-path'' = Some (VString [])" "map_of agent_flags ''db-max-bytes'' = Some (VInt DefaultMaxBytes)"
  "map_of agent_flags ''db-retention'' = Some (VDuration DefaultRetention)"
  "map_of agent_flags ''modules-dir'' = Some (VString [])" "map_of agent_flags ''tools-dir'' = Some (VString [])"
  unfolding agent_flags_def by simp_all

text \<open>The documented defaults make a working agent. With nothing but a URL and a key of the form \<open>node:secret\<close> on the
  command line, the configuration passes every check of the agent, and the agent
  starts with what the usage text promises: 4 to 64 concurrent checks, 512 jobs per tick, 32 per probe, 16 triggers per
  tick, a start-up jitter of five seconds, and neither a spool nor a database.
\<close>

theorem agent_defaults_accepted:
  assumes "u \<noteq> []" "node \<noteq> []" "CHR '':'' \<notin> set node"
    and "re_client_ok (renv [] [])" "re_registry_ok (renv [] [])"
  shows "\<exists>a. runAgent dur renv version [''--api-url'', u, ''--api-key'', node @ '':'' @ secret] = Inr a \<and> a_nodeID a = node \<and> 4 \<le> a_concurrency a \<and> a_concurrency a \<le> 64
    \<and> a_maxJobsPerTick a = 512 \<and> a_maxJobsPerProbe a = 32 \<and> a_maxTriggersPerTick a = 16
    \<and> a_startupJitter a = 5 * second \<and> a_store a = None \<and> a_spool a = None \<and> \<not> a_ready a"
proof -
  let ?key = "node @ '':'' @ secret"
  define fs where "fs = AList.update ''api-key'' (VString ?key) (AList.update ''api-url'' (VString u) agent_flags)"
  let ?items = "[Opt True ''api-url'' u, Opt True ''api-key'' ?key]"
  have "takes_value agent_flags ''api-url''" "takes_value agent_flags ''api-key''" by code_simp+
  then have ok: "list_all (item_ok agent_flags) ?items" by simp
  have "assign dur ?items agent_flags = Inr fs" by (simp add: assign_one_def fs_def agent_flags_def flag_set_def)
  then have p: "flag_Parse dur agent_flags [''--api-url'', u, ''--api-key'', ?key] = Inr (fs, [])"
    using flag_Parse_items [OF ok, of "[]" dur] by (simp add: dashes_def)
  have m: "map_of fs k = (if k = ''api-key'' then Some (VString ?key) else if k = ''api-url'' then Some (VString u) else map_of agent_flags k)" for k
    by (simp add: fs_def update_conv')
  note dflt = agent_flags_defaults
  note cut = Cut_present [OF assms(3), of secret]
  have c: "4 \<le> autoConcurrency v" "autoConcurrency v \<le> 64" for v by (auto simp: autoConcurrency_def mib32_def Let_def)
  let ?cfg = "agent_config version fs" and ?renv = "renv [] []"
  have cfg: "cf_APIKey ?cfg = ?key" "cf_SchedulerTick ?cfg = 2 * second" "cf_Concurrency ?cfg = 0" "cf_MaxJobsPerTick ?cfg = 0"
    "cf_MaxJobsPerProbe ?cfg = 0" "cf_MaxTriggersPerTick ?cfg = 0" "cf_StartupJitter ?cfg = 5 * second" "cf_MemoryLimitBytes ?cfg = 0"
    "cf_SourceIP ?cfg = []" "cf_BindInterface ?cfg = []" "cf_PoolConcurrency ?cfg = 0" "cf_PoolMaxJobs ?cfg = 0" "cf_PoolPortBase ?cfg = 0"
    "cf_PoolPortSpan ?cfg = 0" "cf_SpoolMaxBytes ?cfg = 0" "cf_DBMaxBytes ?cfg = DefaultMaxBytes" "cf_DBRetention ?cfg = DefaultRetention"
    "cf_DBPath ?cfg = []" "cf_SpoolDir ?cfg = []" "cf_DomainStrategy ?cfg = []"
    by (simp_all add: agent_config_def flag_str_def flag_int_def flag_dur_def m dflt)
  have bind0: "\<exists>b. Parse (re_ParseAddr ?renv) [] [] = Inr b" by (simp add: Parse_def parse_source_def TrimSpace_def Let_def)
  then obtain b where b: "Parse (re_ParseAddr ?renv) [] [] = Inr b" by blast
  have li: "config_limits ?renv ?cfg = Inr (effective_limits ?renv ?cfg b)"
    using c [of "re_available ?renv"] assms(2)
    by (simp add: config_limits_def cfg cut b effective_concurrency_def second_def DefaultMaxBytes_def DefaultRetention_def)
  have strat: "normalizeDomainStrategy [] \<noteq> None" by code_simp
  have st: "open_storage ?renv ?cfg node = Inr (None, None)" by (simp add: open_storage_def cfg)
  have "\<exists>a. Run ?renv ?cfg = Inr a \<and> a_nodeID a = node \<and> 4 \<le> a_concurrency a \<and> a_concurrency a \<le> 64
    \<and> a_maxJobsPerTick a = 512 \<and> a_maxJobsPerProbe a = 32 \<and> a_maxTriggersPerTick a = 16
    \<and> a_startupJitter a = 5 * second \<and> a_store a = None \<and> a_spool a = None \<and> \<not> a_ready a"
    using strat assms(4,5) c
    by (simp add: Run_def li st cfg cut effective_limits_def effective_concurrency_def start_agent_def restore_local_def Let_def)
  then show ?thesis using p assms(1,2) by (auto simp: runAgent_def flag_str_def m dflt)
qed

theorem agent_defaults_accepted_witness:
  "\<exists>a. runAgent (\<lambda>_. None) (\<lambda>_ _. demo_runEnv) ''v1'' [''--api-url'', ''https://api'', ''--api-key'', ''n1'' @ '':'' @ ''s''] = Inr a
     \<and> a_nodeID a = ''n1'' \<and> a_maxJobsPerTick a = 512"
proof -
  from agent_defaults_accepted [of "''https://api''" "''n1''" "\<lambda>_ _. demo_runEnv" "\<lambda>_. None" "''v1''" "''s''"]
  show ?thesis by (auto simp: demo_runEnv_def)
qed

section \<open>What init leaves alone\<close>

lemma init_loop_spec:
  assumes "init_loop env path force entries out files = (out', err, files')"
  shows "(\<forall>p. p \<notin> path_Join path ` fst ` set entries \<longrightarrow> files' p = files p)
    \<and> (\<not> force \<longrightarrow> files \<subseteq>\<^sub>m files')
    \<and> (err = None \<longrightarrow> (\<forall>e\<in>set entries. files' (path_Join path (fst e)) \<noteq> None \<or> in_isdir env (path_Join path (fst e))))
    \<and> dom files \<subseteq> dom files'"
  using assms
proof (induction entries arbitrary: out files)
  case (Cons e entries)
  obtain name isDir content where e: "e = (name, isDir, content)" by (cases e)
  let ?dest = "path_Join path name"
  show ?case
  proof (cases content)
    case None
    with Cons.prems e show ?thesis by auto
  next
    case (Some data)
    consider (skip) "\<not> force \<and> (files ?dest \<noteq> None \<or> in_isdir env ?dest)"
      | (fail) "\<not> (\<not> force \<and> (files ?dest \<noteq> None \<or> in_isdir env ?dest))" "in_isdir env ?dest \<or> \<not> in_writable env ?dest"
      | (put) "\<not> (\<not> force \<and> (files ?dest \<noteq> None \<or> in_isdir env ?dest))" "\<not> (in_isdir env ?dest \<or> \<not> in_writable env ?dest)"
      by blast
    then show ?thesis
    proof cases
      case skip
      then have "init_loop env path force entries out files = (out', err, files')"
        using Cons.prems e Some by (simp add: Let_def)
      note ih = Cons.IH [OF this]
      then have "files' ?dest \<noteq> None \<or> in_isdir env ?dest" using skip by (auto simp: dom_def)
      with ih e show ?thesis by auto
    next
      case fail
      with Cons.prems e Some have "err \<noteq> None" "files' = files" by (auto simp: Let_def)
      then show ?thesis by auto
    next
      case put
      then have "init_loop env path force entries (out @ [?dest]) (files(?dest \<mapsto> data)) = (out', err, files')"
        using Cons.prems e Some by (auto simp: Let_def)
      note ih = Cons.IH [OF this]
      have "files' ?dest \<noteq> None" using ih by (auto simp: dom_def)
      moreover have "\<not> force \<longrightarrow> files \<subseteq>\<^sub>m files'"
        using ih put(1) by (auto simp: map_le_def dom_def split: if_splits)
      moreover have "\<forall>p. p \<notin> path_Join path ` fst ` set (e # entries) \<longrightarrow> files' p = files p"
        using ih e by (auto simp: fun_upd_def)
      moreover have "dom (files(?dest \<mapsto> data)) \<subseteq> dom files'" using ih by blast
      ultimately show ?thesis using ih e by simp
    qed
  qed
qed simp

text \<open>Writing the default modules out never destroys an edit. Without \<open>--force\<close> every file that existed keeps its
  contents; with it, only the destinations of the embedded files may change; and when the command succeeds, there is
  something at every destination.
\<close>

theorem runInit_never_clobbers:
  assumes "runInit dur env (Some entries) args files = (out, err, files')"
    and "flag_Parse dur init_flags args = Inr (fs, rest)"
  shows "(\<not> flag_bool fs ''force'' \<longrightarrow> files \<subseteq>\<^sub>m files')
    \<and> (\<forall>p. p \<notin> path_Join (flag_str fs ''C'') ` fst ` set entries \<longrightarrow> files' p = files p)
    \<and> (err = None \<longrightarrow> (\<forall>e\<in>set entries. files' (path_Join (flag_str fs ''C'') (fst e)) \<noteq> None
          \<or> in_isdir env (path_Join (flag_str fs ''C'') (fst e))))"
proof (cases "in_mkdir env (flag_str fs ''C'')")
  case True
  with assms have "init_loop env (flag_str fs ''C'') (flag_bool fs ''force'') entries [] files = (out, err, files')"
    by (simp add: runInit_def Let_def)
  from init_loop_spec [OF this] show ?thesis by blast
next
  case False
  with assms show ?thesis by (auto simp: runInit_def Let_def)
qed

definition demo_initEnv :: initEnv where
  "demo_initEnv = \<lparr>in_mkdir = \<lambda>_. True, in_isdir = \<lambda>_. False, in_writable = \<lambda>_. True\<rparr>"

theorem runInit_never_clobbers_witness:
  "(let (out, err, files) = runInit (\<lambda>_. None) demo_initEnv (Some [(''tcp.yaml'', False, Some ''new''), (''udp.yaml'', False, Some ''u'')])
        [''-C'', ''/m''] [''/m/tcp.yaml'' \<mapsto> ''mine'']
    in files ''/m/tcp.yaml'' = Some ''mine'' \<and> out = [''/m/udp.yaml''])"
proof -
  let ?es = "[(''tcp.yaml'', False, Some ''new''), (''udp.yaml'', False, Some ''u'')] :: fsEntry list"
  let ?f = "[''/m/tcp.yaml'' \<mapsto> ''mine''] :: string \<rightharpoonup> string"
  obtain out err files where r: "runInit (\<lambda>_. None) demo_initEnv (Some ?es) [''-C'', ''/m''] ?f = (out, err, files)" by (metis prod_cases3)
  have p: "flag_Parse (\<lambda>_. None) init_flags [''-C'', ''/m''] = Inr ([(''C'', VString ''/m''), (''force'', VBool False)], [])" by code_simp
  from runInit_never_clobbers [OF r p] have "?f \<subseteq>\<^sub>m files" by (simp add: flag_bool_def)
  then have "files ''/m/tcp.yaml'' = Some ''mine''" by (simp add: map_le_def)
  moreover have "fst (runInit (\<lambda>_. None) demo_initEnv (Some ?es) [''-C'', ''/m''] ?f) = [''/m/udp.yaml'']" by code_simp
  ultimately show ?thesis using r by simp
qed

section \<open>Engines a probe command leaves behind\<close>

text \<open>The command never closes the registry it loaded. When its type is a pooled module, the engine the first
  check started is still running, and registered for no one, when the command has printed its results.\<close>

lemma probe_leaves_engine_running:
  "case probe_checks (demo_cli\<lparr>ce_pool := demo_pool_env\<lparr>pe_alloc := \<lambda>n i. Inr (1 + int i)\<rparr>\<rparr>)
      (AList.update ''timeout'' (VDuration millisecond) probe_flags) ''example.com''
      (\<lparr>SourceIP = None, Interface = []\<rparr>, PooledChecker demo_pool_module demo_spec noLimits newPoolChecker) of
     Some (e, PooledChecker m spec limits p) \<Rightarrow> env_Ok e \<and> pc_running p \<noteq> []
   | _ \<Rightarrow> False"
  by code_simp

end
