(* ===== verification/Store_Command.thy ===== *)
theory Store_Command
  imports Command_Line Store_Maintenance
begin

text \<open>
  The store command (\<^verbatim>\<open>cmd/radar-node/store.go\<close>): statistics, maintenance, rebuild and replay of a node's local
  database from the command line. The database file, the sizes SQLite reports, the clock and the JSON of one line are
  arguments.
\<close>

section \<open>Opening\<close>

record storeIO =
  so_dur :: "string \<Rightarrow> duration option"
  so_db :: "string \<Rightarrow> db option"
  so_now :: gotime
  so_abs :: "string \<Rightarrow> string"
  so_journalMode :: string
  so_dbBytes :: int
  so_walBytes :: int
  so_pageCount :: int
  so_freePages :: int
  so_formatMilli :: "int \<Rightarrow> string"
  so_step :: "nat \<Rightarrow> db \<Rightarrow> db"
  so_live :: "db \<Rightarrow> int"
  so_freelist :: "nat \<Rightarrow> int"
  so_encode :: "journalRow \<Rightarrow> string option"

definition storeFlagSet :: flagSet where
  "storeFlagSet = [(''db'', VString []), (''origin'', VString [])]"

definition store_open :: "storeIO \<Rightarrow> flagSet \<Rightarrow> cliError + string \<times> db" where
  "store_open io fs =
     (let path = flag_str fs ''db'' in
      if path = [] then Inl (MissingFlag ''db'')
      else case so_db io path of
        None \<Rightarrow> Inl StoreUnusable
      | Some d \<Rightarrow> map_sum StoreFailed (\<lambda>x. x) (Open (to_UnixMilli (so_now io)) path [] (flag_str fs ''origin'') d))"

definition formatMillis :: "storeIO \<Rightarrow> int \<Rightarrow> string" where
  "formatMillis io ms = (if ms \<le> 0 then ''-'' else so_formatMilli io ms)"

section \<open>Subcommands\<close>

text \<open>Each gives the lines it prints or its error, and the database as it leaves it.\<close>

type_synonym storeOutcome = "(cliError + string list) \<times> db option"

definition runStoreStats :: "storeIO \<Rightarrow> string list \<Rightarrow> storeOutcome" where
  "runStoreStats io args =
     (case flag_Parse (so_dur io) storeFlagSet args of
        Inl e \<Rightarrow> (Inl (FlagProblem e), None)
      | Inr (fs, _) \<Rightarrow>
          (case store_open io fs of
             Inl e \<Rightarrow> (Inl e, None)
           | Inr (origin, d) \<Rightarrow>
               (let st = Store_Stats d in
                (Inr [''path: '' @ so_abs io (flag_str fs ''db''), ''origin: '' @ origin, ''journal: '' @ so_journalMode io,
                      ''db_bytes: '' @ Itoa (so_dbBytes io), ''wal_bytes: '' @ Itoa (so_walBytes io),
                      ''pages: '' @ Itoa (so_pageCount io) @ '' (free '' @ Itoa (so_freePages io) @ '')'',
                      ''results: '' @ Itoa (sx_Results st) @ '' (delivered '' @ Itoa (sx_DeliveredResults st) @ '', pending ''
                        @ Itoa (sx_PendingResults st) @ '', rejected '' @ Itoa (sx_RejectedResults st) @ '')'',
                      ''probes: '' @ Itoa (sx_Probes st), ''pending_triggers: '' @ Itoa (sx_PendingTriggers st),
                      ''rollups: '' @ Itoa (sx_Rollups st), ''oldest: '' @ formatMillis io (sx_OldestAtMS st),
                      ''newest: '' @ formatMillis io (sx_NewestAtMS st)], Some d))))"

definition maintain_flags :: flagSet where
  "maintain_flags = storeFlagSet @ [(''retention'', VDuration DefaultRetention), (''max-bytes'', VInt DefaultMaxBytes)]"

definition runStoreMaintain :: "storeIO \<Rightarrow> string list \<Rightarrow> storeOutcome" where
  "runStoreMaintain io args =
     (case flag_Parse (so_dur io) maintain_flags args of
        Inl e \<Rightarrow> (Inl (FlagProblem e), None)
      | Inr (fs, _) \<Rightarrow>
          if flag_dur fs ''retention'' < 0 then (Inl (NegativeFlag ''retention''), None)
          else if flag_int fs ''max-bytes'' < 0 then (Inl (NegativeFlag ''max-bytes''), None)
          else case store_open io fs of
            Inl e \<Rightarrow> (Inl e, None)
          | Inr (origin, d) \<Rightarrow>
              (case Maintain (so_step io) (so_live io) (so_freelist io) (so_now io)
                      \<lparr>mo_Retention = flag_dur fs ''retention'', mo_MaxBytes = flag_int fs ''max-bytes''\<rparr> d of
                 (Inl e, d) \<Rightarrow> (Inl (StoreFailed e), Some d)
               | (Inr st, d) \<Rightarrow>
                   (Inr [''deleted_rows: '' @ Itoa (ms_DeletedRows st), ''deleted_rollups: '' @ Itoa (ms_DeletedRollups st),
                         ''rolled_up_results: '' @ Itoa (ms_RolledUpResults st), ''pruned_triggers: '' @ Itoa (ms_PrunedTriggers st),
                         ''vacuumed_pages: '' @ Itoa (ms_VacuumedPages st), ''live_bytes: '' @ Itoa (ms_LiveBytes st),
                         ''db_bytes: '' @ Itoa (so_dbBytes io), ''wal_bytes: '' @ Itoa (so_walBytes io),
                         ''over_budget: '' @ FormatBool (ms_OverBudget st)], Some d)))"

definition runStoreRebuild :: "storeIO \<Rightarrow> string list \<Rightarrow> storeOutcome" where
  "runStoreRebuild io args =
     (case flag_Parse (so_dur io) storeFlagSet args of
        Inl e \<Rightarrow> (Inl (FlagProblem e), None)
      | Inr (fs, _) \<Rightarrow>
          (case store_open io fs of
             Inl e \<Rightarrow> (Inl e, None)
           | Inr (origin, d) \<Rightarrow>
               (case Rebuild d of
                  Inl e \<Rightarrow> (Inl (StoreFailed e), Some d)
                | Inr (_, d) \<Rightarrow> (Inr [''rebuilt: '' @ so_abs io (flag_str fs ''db'')], Some d))))"

definition replay_flags :: flagSet where
  "replay_flags = storeFlagSet @ [(''after'', VInt 0), (''limit'', VInt 1000)]"

text \<open>One page: the lines, and the cursor that goes to standard error.\<close>

definition replay_page :: "storeIO \<Rightarrow> int \<Rightarrow> int \<Rightarrow> db \<Rightarrow> (cliError + int) \<times> string list" where
  "replay_page io afterSeq limit d =
     (case Replay (\<lambda>r out. map_option (\<lambda>line. out @ [line]) (so_encode io r)) afterSeq limit d [] of
        (cursor, ok, out) \<Rightarrow> (if ok then Inr cursor else Inl EncodeLineFailed, out))"

definition runStoreReplay :: "storeIO \<Rightarrow> string list \<Rightarrow> storeOutcome \<times> string list" where
  "runStoreReplay io args =
     (case flag_Parse (so_dur io) replay_flags args of
        Inl e \<Rightarrow> ((Inl (FlagProblem e), None), [])
      | Inr (fs, _) \<Rightarrow>
          if flag_int fs ''limit'' < 1 then ((Inl (NegativeFlag ''limit''), None), [])
          else case store_open io fs of
            Inl e \<Rightarrow> ((Inl e, None), [])
          | Inr (origin, d) \<Rightarrow>
              (case replay_page io (flag_int fs ''after'') (flag_int fs ''limit'') d of
                 (Inl e, out) \<Rightarrow> ((Inl e, Some d), out)
               | (Inr cursor, out) \<Rightarrow> ((Inr [''cursor: '' @ Itoa cursor], Some d), out)))"

definition runStore :: "storeIO \<Rightarrow> string list \<Rightarrow> storeOutcome \<times> string list" where
  "runStore io args =
     (case args of
        [] \<Rightarrow> ((Inl UnknownSubcommand, None), [])
      | sub # rest \<Rightarrow>
          if sub = ''stats'' then (runStoreStats io rest, [])
          else if sub = ''maintain'' then (runStoreMaintain io rest, [])
          else if sub = ''rebuild'' then (runStoreRebuild io rest, [])
          else if sub = ''replay'' then runStoreReplay io rest
          else ((Inl UnknownSubcommand, None), []))"

section \<open>Paging through the journal\<close>

text \<open>A consumer that calls replay again with the cursor of the last page until a page is empty. The fuel bounds the
  number of calls.\<close>

fun replay_all :: "nat \<Rightarrow> storeIO \<Rightarrow> int \<Rightarrow> int \<Rightarrow> db \<Rightarrow> string list" where
  "replay_all 0 io afterSeq limit d = []"
| "replay_all (Suc n) io afterSeq limit d =
     (case replay_page io afterSeq limit d of
        (Inl e, out) \<Rightarrow> out
      | (Inr cursor, out) \<Rightarrow> if out = [] then [] else out @ replay_all n io cursor limit d)"

lemma replay_rows_all:
  assumes "\<And>r. r \<in> set rs \<Longrightarrow> enc r = Some (f r)"
  shows "replay_rows (\<lambda>r out. map_option (\<lambda>line. out @ [line]) (enc r)) rs lst out
    = (if rs = [] then lst else j_seq (last rs), True, out @ map f rs)"
  using assms by (induction rs arbitrary: lst out) simp_all

lemma sorted_rows_after:
  assumes "sorted_wrt (<) (map j_seq rs)" "n < length rs"
  shows "filter (\<lambda>r. j_seq r > j_seq (rs ! n)) rs = drop (Suc n) rs"
proof -
  have s: "sorted_wrt (\<lambda>a b. j_seq a < j_seq b) rs" using assms(1) by (simp add: sorted_wrt_map)
  have "filter (\<lambda>r. j_seq r > j_seq (rs ! n)) (take (Suc n) rs) = []"
  proof -
    have "j_seq r \<le> j_seq (rs ! n)" if r: "r \<in> set (take (Suc n) rs)" for r
    proof -
      obtain k where "k \<le> n" "r = rs ! k" using r assms(2) by (auto simp: in_set_conv_nth less_Suc_eq_le)
      then show ?thesis using sorted_wrt_nth_less [OF s, of k n] assms(2) by (cases "k = n") auto
    qed
    then show ?thesis by (auto simp: filter_empty_conv not_less)
  qed
  moreover have "filter (\<lambda>r. j_seq r > j_seq (rs ! n)) (drop (Suc n) rs) = drop (Suc n) rs"
  proof (rule filter_True, rule ballI)
    fix r assume "r \<in> set (drop (Suc n) rs)"
    then obtain k where k: "k < length rs - Suc n" "r = rs ! (Suc n + k)" by (auto simp: in_set_conv_nth)
    then show "j_seq r > j_seq (rs ! n)" using sorted_wrt_nth_less [OF s, of n "Suc n + k"] by simp
  qed
  ultimately show ?thesis by (metis append_Nil append_take_drop_id filter_append)
qed

lemma replay_all_rows:
  assumes "sorted_wrt (<) (map j_seq (db_journal d))" "1 \<le> limit" "\<And>r. r \<in> set (db_journal d) \<Longrightarrow> so_encode io r = Some (f r)"
    and "rows = filter (\<lambda>r. j_seq r > afterSeq) (db_journal d)" "length rows \<le> n"
  shows "replay_all n io afterSeq limit d = map f rows"
  using assms(4,5)
proof (induction n arbitrary: afterSeq rows)
  case (Suc n)
  let ?k = "nat (replay_limit limit)" let ?page = "take ?k rows"
  have k: "0 < ?k" using assms(2) by (simp add: replay_limit_def Let_def)
  have enc: "so_encode io r = Some (f r)" if "r \<in> set ?page" for r
    using assms(3) Suc.prems(1) that by (metis filter_is_subset in_set_takeD subsetD)
  have page: "replay_page io afterSeq limit d
      = (Inr (if ?page = [] then afterSeq else j_seq (last ?page)), map f ?page)"
    unfolding replay_page_def Replay_def Suc.prems(1) [symmetric] using replay_rows_all [OF enc, of ?page] by simp
  show ?case
  proof (cases "rows = []")
    case False
    let ?m = "min ?k (length rows) - 1"
    have ne: "?page \<noteq> []" using False k by simp
    have m: "?m < length rows" "last ?page = rows ! ?m" "Suc ?m = min ?k (length rows)"
      using False k by (auto simp: last_conv_nth min_def)
    have srt: "sorted_wrt (<) (map j_seq rows)"
      using assms(1) Suc.prems(1) by (simp add: sorted_wrt_map sorted_wrt_filter)
    have seq: "j_seq (last ?page) > afterSeq" using ne Suc.prems(1)
      by (metis (mono_tags, lifting) in_set_takeD last_in_set mem_Collect_eq set_filter)
    have "filter (\<lambda>r. j_seq r > j_seq (last ?page)) (db_journal d) = filter (\<lambda>r. j_seq r > j_seq (last ?page)) rows"
      using seq unfolding Suc.prems(1) filter_filter by (intro filter_cong) auto
    also have "\<dots> = drop ?k rows" using sorted_rows_after [OF srt m(1)] m(2,3) by (simp add: min_def split: if_splits)
    finally have "replay_all n io (j_seq (last ?page)) limit d = map f (drop ?k rows)"
      using Suc.prems(2) k False by (intro Suc.IH) (auto simp: Suc_le_eq)
    then show ?thesis using page ne by (simp del: take_eq_Nil add: map_append [symmetric])
  qed (simp add: page)
qed simp

text \<open>C36. Replaying a journal page by page shows every event once. Whatever page size is asked for, passing the printed
  cursor to the next call, starting from any cursor, gives exactly the lines of the events after it, in order, without
  gaps or repetitions, although a page is silently capped at 10,000 events; and as many calls as there are events are
  enough.
\<close>

theorem store_replay_pages:
  assumes "store_ok d" "1 \<le> limit" "\<And>r. so_encode io r = Some (f r)"
  shows "replay_all (length (db_journal d)) io afterSeq limit d = map f (filter (\<lambda>r. j_seq r > afterSeq) (db_journal d))"
  using replay_all_rows [of d limit io f, OF _ assms(2,3) refl] store_okD(1) [OF assms(1)]
  by (simp add: journal_ok_def)

definition demo_storeIO :: storeIO where
  "demo_storeIO =
     \<lparr>so_dur = (\<lambda>_. None), so_db = (\<lambda>_. Some drained_demo), so_now = 0, so_abs = (\<lambda>p. p), so_journalMode = ''wal'', so_dbBytes = 0,
      so_walBytes = 0, so_pageCount = 0, so_freePages = 0, so_formatMilli = (\<lambda>_. []), so_step = (\<lambda>_ d. d), so_live = (\<lambda>_. 0),
      so_freelist = (\<lambda>_. 0), so_encode = (\<lambda>r. Some (Itoa (j_seq r)))\<rparr>"

theorem store_replay_pages_witness:
  "replay_all (length (db_journal drained_demo)) demo_storeIO 0 1 drained_demo = [''1'']"
proof -
  have e: "so_encode demo_storeIO r = Some (Itoa (j_seq r))" for r by (simp add: demo_storeIO_def)
  have "map (\<lambda>r. Itoa (j_seq r)) (filter (\<lambda>r. j_seq r > 0) (db_journal drained_demo)) = [''1'']" by code_simp
  then show ?thesis
    using store_replay_pages [OF drained_demo_ok, of 1 demo_storeIO "\<lambda>r. Itoa (j_seq r)" 0] e by simp
qed

end
