(* ===== verification/Portalloc.thy ===== *)
theory Portalloc
  imports Prelude
begin

text \<open>
  Free local ports (\<^verbatim>\<open>internal/portalloc/portalloc.go\<close>): reserving one by binding it for a moment, and waiting until
  a subprocess accepts connections on one. The operating system's choice of a port and its answers to the dials are
  arguments.
\<close>

text \<open>The ports in use are a set; the listener of the reservation is closed again before the function returns.\<close>

definition Alloc :: "(int set \<Rightarrow> string + int) \<Rightarrow> int set \<Rightarrow> (string + int) \<times> int set" where
  "Alloc listen bound =
     (case listen bound of
        Inl e \<Rightarrow> (Inl e, bound)
      | Inr port \<Rightarrow> (let bound = insert port bound in (Inr port, bound - {port})))"

text \<open>The \<open>i\<close>-th round dials and then looks at the context; the value is the error text or nothing. A wait without a
  deadline on a port that never opens does not return.\<close>

partial_function (option) port_wait_loop :: "(nat \<Rightarrow> bool) \<Rightarrow> (nat \<Rightarrow> string option) \<Rightarrow> int \<Rightarrow> nat \<Rightarrow> string option option" where
  "port_wait_loop dial ended port i =
     (if dial i then Some None
      else case ended i of
        Some e \<Rightarrow> Some (Some (''did not become ready on port '' @ Itoa port @ '': '' @ e))
      | None \<Rightarrow> port_wait_loop dial ended port (i + 1))"

definition WaitForPort :: "(nat \<Rightarrow> bool) \<Rightarrow> (nat \<Rightarrow> string option) \<Rightarrow> int \<Rightarrow> string option option" where
  "WaitForPort dial ended port = port_wait_loop dial ended port 0"

text \<open>A reservation holds nothing: the port it names was free and is free again, so two reservations in a row may
  name the same one. This is why the pool compares the ports of a batch with each other.\<close>

lemma Alloc_releases:
  assumes "\<And>b p. listen b = Inr p \<Longrightarrow> p \<notin> b"
  shows "snd (Alloc listen bound) = bound" "fst (Alloc listen (snd (Alloc listen bound))) = fst (Alloc listen bound)"
proof -
  show "snd (Alloc listen bound) = bound"
    using assms [of bound] by (auto simp: Alloc_def Let_def split: sum.split)
  then show "fst (Alloc listen (snd (Alloc listen bound))) = fst (Alloc listen bound)" by simp
qed

text \<open>The wait ends at the first round in which the dial succeeds or the context is over, and a success wins over
  a context that ends in the same round.\<close>

lemma wait_loop_first:
  assumes "\<And>k. i \<le> k \<Longrightarrow> k < i + n \<Longrightarrow> \<not> dial k \<and> ended k = None" "dial (i + n) \<or> ended (i + n) \<noteq> None"
  shows "\<exists>r. port_wait_loop dial ended port i = Some r \<and> (r = None \<longleftrightarrow> dial (i + n))"
  using assms
proof (induction n arbitrary: i)
  case 0
  then show ?case by (subst port_wait_loop.simps) (auto split: option.splits)
next
  case (Suc n)
  have "port_wait_loop dial ended port i = port_wait_loop dial ended port (i + 1)"
    using Suc.prems(1) [of i] by (subst port_wait_loop.simps) simp
  moreover have "\<exists>r. port_wait_loop dial ended port (i + 1) = Some r \<and> (r = None \<longleftrightarrow> dial (i + 1 + n))"
    by (rule Suc.IH) (use Suc.prems in auto)
  ultimately show ?case by simp
qed

lemma WaitForPort_returns:
  assumes "dial k \<or> ended k \<noteq> None"
  shows "\<exists>r. WaitForPort dial ended port = Some r"
proof -
  define n where "n = (LEAST k. dial k \<or> ended k \<noteq> None)"
  have "dial n \<or> ended n \<noteq> None" unfolding n_def by (rule LeastI) (rule assms)
  moreover have "\<not> dial j \<and> ended j = None" if "j < n" for j using not_less_Least [of j "\<lambda>k. dial k \<or> ended k \<noteq> None"] that
    unfolding n_def by blast
  ultimately show ?thesis using wait_loop_first [of 0 n dial ended port] unfolding WaitForPort_def by auto
qed

end
