(* ===== verification/Sockets.thy ===== *)
theory Sockets
  imports Netdial
begin

unbundle bit_operations_syntax

text \<open>
  The sockets the binding has to reach by hand (\<^verbatim>\<open>internal/netbind\<close>): the interface option on each platform
  (\<^verbatim>\<open>control_linux.go\<close>, \<^verbatim>\<open>control_darwin.go\<close>, \<^verbatim>\<open>control_windows.go\<close>, \<^verbatim>\<open>control_other.go\<close>) and the datagram-oriented ICMP
  socket (\<^verbatim>\<open>icmp_unix.go\<close>, \<^verbatim>\<open>icmp_other.go\<close>). The state is the open descriptors, the system calls so far and the cache
  of interface numbers; whether a call succeeds is an argument.
\<close>

section \<open>The operating system\<close>

datatype platform = Linux | Darwin | Windows | OtherOS string

datatype sockCall =
    CallSocket int int
  | CallStripHeader nat
  | CallBindToDevice nat string
  | CallBoundIf nat bool "32 word"
  | CallBind nat sockaddr
  | CallDup nat
  | CallClose nat

record sockWorld =
  sw_open :: "nat list"
  sw_calls :: "sockCall list"
  sw_cache :: indexCache

text \<open>\<open>sy_call n c\<close> is the error of the \<open>n\<close>-th call, \<open>sy_fd n\<close> the descriptor it returns if it makes one.\<close>

record sysEnv =
  sy_platform :: platform
  sy_call :: "nat \<Rightarrow> sockCall \<Rightarrow> string option"
  sy_fd :: "nat \<Rightarrow> nat"
  sy_wraps :: bool
  sy_byName :: "string \<Rightarrow> string + int"
  sy_ParseUint32 :: "string \<Rightarrow> int option"

datatype sockError =
    ContextOver string | BadNetwork string | SyscallFailed sockCall string | NoIndex string | NotSupported string
  | BadSource icmpError | WrapFailed

definition sys :: "sysEnv \<Rightarrow> sockCall \<Rightarrow> sockWorld \<Rightarrow> sockError option \<times> sockWorld" where
  "sys env c w =
     (map_option (SyscallFailed c) (sy_call env (length (sw_calls w)) c), w\<lparr>sw_calls := sw_calls w @ [c]\<rparr>)"

section \<open>The interface option\<close>

definition ReverseBytes32 :: "32 word \<Rightarrow> 32 word" where
  "ReverseBytes32 x =
     push_bit 24 (x AND 0xFF) OR push_bit 8 (x AND 0xFF00) OR (drop_bit 8 x AND 0xFF00) OR (drop_bit 24 x AND 0xFF)"

definition boundif_apply :: "sysEnv \<Rightarrow> string \<Rightarrow> nat \<Rightarrow> string \<Rightarrow> sockWorld \<Rightarrow> sockError option \<times> sockWorld" where
  "boundif_apply env network fd iface w =
     (case interfaceIndex (sy_byName env) iface (sw_cache w) of
        (Inl e, cache) \<Rightarrow> (Some (NoIndex e), w\<lparr>sw_cache := cache\<rparr>)
      | (Inr index, cache) \<Rightarrow>
          (let six = HasSuffix network ''6''; i = word_of_int index :: 32 word;
               value = (if sy_platform env = Windows \<and> \<not> six then ReverseBytes32 i else i)
           in sys env (CallBoundIf fd six value) (w\<lparr>sw_cache := cache\<rparr>)))"

definition control_linux :: "sysEnv \<Rightarrow> nat \<Rightarrow> string \<Rightarrow> sockWorld \<Rightarrow> sockError option \<times> sockWorld" where
  "control_linux env fd iface w = sys env (CallBindToDevice fd iface) w"

definition control_other :: "string \<Rightarrow> sockWorld \<Rightarrow> sockError option \<times> sockWorld" where
  "control_other name w = (Some (NotSupported name), w)"

text \<open>Darwin and Windows look the number of the interface up, and once more if the option is refused: an interface
  that was recreated has a new one.\<close>

definition controlInterface :: "sysEnv \<Rightarrow> string \<Rightarrow> nat \<Rightarrow> string \<Rightarrow> sockWorld \<Rightarrow> sockError option \<times> sockWorld" where
  "controlInterface env network fd iface w =
     (case sy_platform env of
        Linux \<Rightarrow> control_linux env fd iface w
      | OtherOS name \<Rightarrow> control_other name w
      | _ \<Rightarrow>
          (case boundif_apply env network fd iface w of
             (None, w) \<Rightarrow> (None, w)
           | (Some err, w) \<Rightarrow>
               (case refreshInterfaceIndex (sy_byName env) iface (sw_cache w) of
                  (Inl _, cache) \<Rightarrow> (Some err, w\<lparr>sw_cache := cache\<rparr>)
                | (Inr _, cache) \<Rightarrow> boundif_apply env network fd iface (w\<lparr>sw_cache := cache\<rparr>))))"

section \<open>The ICMP socket\<close>

text \<open>The address family is a constant of the platform, the protocol the one of ICMP or ICMPv6.\<close>

definition icmp_family :: "platform \<Rightarrow> string \<Rightarrow> (bool \<times> int \<times> int) option" where
  "icmp_family p network =
     (if network = ''udp4'' then Some (True, 2, 1)
      else if network = ''udp6'' then Some (False, if p = Darwin then 30 else 10, 58) else None)"

definition open_socket :: "sysEnv \<Rightarrow> int \<Rightarrow> int \<Rightarrow> sockWorld \<Rightarrow> (sockError + nat) \<times> sockWorld" where
  "open_socket env family protocol w =
     (let fd = sy_fd env (length (sw_calls w)) in
      case sys env (CallSocket family protocol) w of
        (Some e, w) \<Rightarrow> (Inl e, w)
      | (None, w) \<Rightarrow> (Inr fd, w\<lparr>sw_open := fd # sw_open w\<rparr>))"

definition close_fd :: "nat \<Rightarrow> sockWorld \<Rightarrow> sockWorld" where
  "close_fd fd w = w\<lparr>sw_open := remove1 fd (sw_open w), sw_calls := sw_calls w @ [CallClose fd]\<rparr>"

text \<open>The part between opening the descriptor and wrapping it: the header option of Darwin, the interface, the source
  address.\<close>

definition prepare_socket :: "sysEnv \<Rightarrow> Binding \<Rightarrow> string \<Rightarrow> bool \<Rightarrow> nat \<Rightarrow> sockWorld \<Rightarrow> sockError option \<times> sockWorld" where
  "prepare_socket env b network inet4 fd w =
     (case (if sy_platform env = Darwin \<and> inet4 then sys env (CallStripHeader fd) w else (None, w)) of
        (Some e, w) \<Rightarrow> (Some e, w)
      | (None, w) \<Rightarrow>
     (case (if Interface b \<noteq> [] then controlInterface env network fd (Interface b) w else (None, w)) of
        (Some e, w) \<Rightarrow> (Some e, w)
      | (None, w) \<Rightarrow>
     (case icmpSockaddr (sy_ParseUint32 env) (sy_byName env) inet4 b (sw_cache w) of
        (Inl e, cache) \<Rightarrow> (Some (BadSource e), w\<lparr>sw_cache := cache\<rparr>)
      | (Inr sa, cache) \<Rightarrow> sys env (CallBind fd sa) (w\<lparr>sw_cache := cache\<rparr>))))"

text \<open>A packet connection over the wrapped descriptor has a duplicate of it; the original is closed either way.\<close>

definition wrap_socket :: "sysEnv \<Rightarrow> nat \<Rightarrow> sockWorld \<Rightarrow> (sockError + nat) \<times> sockWorld" where
  "wrap_socket env fd w =
     (let dup = sy_fd env (length (sw_calls w)) in
      case sys env (CallDup fd) w of
        (Some e, w) \<Rightarrow> (Inl e, close_fd fd w)
      | (None, w) \<Rightarrow> (Inr dup, close_fd fd (w\<lparr>sw_open := dup # sw_open w\<rparr>)))"

definition ListenICMP :: "sysEnv \<Rightarrow> string option \<Rightarrow> Binding \<Rightarrow> string \<Rightarrow> sockWorld \<Rightarrow> (sockError + nat) \<times> sockWorld" where
  "ListenICMP env ctxErr b network w =
     (case sy_platform env of
        Windows \<Rightarrow> (Inl (NotSupported ''windows''), w)
      | OtherOS name \<Rightarrow> (Inl (NotSupported name), w)
      | _ \<Rightarrow>
          (case ctxErr of
             Some e \<Rightarrow> (Inl (ContextOver e), w)
           | None \<Rightarrow>
               (case icmp_family (sy_platform env) network of
                  None \<Rightarrow> (Inl (BadNetwork network), w)
                | Some (inet4, family, protocol) \<Rightarrow>
                    (case open_socket env family protocol w of
                       (Inl e, w) \<Rightarrow> (Inl e, w)
                     | (Inr fd, w) \<Rightarrow>
                         (case prepare_socket env b network inet4 fd w of
                            (Some e, w) \<Rightarrow> (Inl e, close_fd fd w)
                          | (None, w) \<Rightarrow>
                              if \<not> sy_wraps env then (Inl WrapFailed, close_fd fd w) else wrap_socket env fd w)))))"

section \<open>No descriptor is lost, and no socket leaves the interface\<close>

lemma sys_open [simp]: "sw_open (snd (sys env c w)) = sw_open w" "sw_cache (snd (sys env c w)) = sw_cache w"
  by (simp_all add: sys_def)

lemma boundif_apply_open [simp]: "sw_open (snd (boundif_apply env network fd iface w)) = sw_open w"
  by (simp add: boundif_apply_def Let_def case_prod_beta split: sum.split)

lemma controlInterface_open [simp]: "sw_open (snd (controlInterface env network fd iface w)) = sw_open w"
  by (simp add: controlInterface_def control_linux_def control_other_def case_prod_beta split: platform.split option.split sum.split)

lemma prepare_socket_open [simp]: "sw_open (snd (prepare_socket env b network inet4 fd w)) = sw_open w"
  by (simp add: prepare_socket_def case_prod_beta split: option.split sum.split)

text \<open>The calls that put a descriptor on an interface.\<close>

definition selects :: "nat \<Rightarrow> string \<Rightarrow> sockCall \<Rightarrow> bool" where
  "selects fd iface c =
     (case c of CallBindToDevice f i \<Rightarrow> f = fd \<and> i = iface | CallBoundIf f six v \<Rightarrow> f = fd | _ \<Rightarrow> False)"

text \<open>The calls of a step follow those before it.\<close>

lemma sys_calls [simp]: "sw_calls (snd (sys env c w)) = sw_calls w @ [c]"
  by (simp add: sys_def)

lemma boundif_apply_calls:
  "\<exists>cs. sw_calls (snd (boundif_apply env network fd iface w)) = sw_calls w @ cs
    \<and> (fst (boundif_apply env network fd iface w) = None \<longrightarrow> cs \<noteq> [] \<and> selects fd iface (last cs))"
  by (simp add: boundif_apply_def Let_def case_prod_beta selects_def split: sum.split)

lemma controlInterface_calls:
  "\<exists>cs. sw_calls (snd (controlInterface env network fd iface w)) = sw_calls w @ cs
    \<and> (fst (controlInterface env network fd iface w) = None \<longrightarrow> cs \<noteq> [] \<and> selects fd iface (last cs))"
proof -
  obtain r w1 where a: "boundif_apply env network fd iface w = (r, w1)" by fastforce
  obtain cs where cs: "sw_calls w1 = sw_calls w @ cs" "r = None \<longrightarrow> cs \<noteq> [] \<and> selects fd iface (last cs)"
    using boundif_apply_calls [of env network fd iface w] a by auto
  obtain x cache where x: "refreshInterfaceIndex (sy_byName env) iface (sw_cache w1) = (x, cache)" by fastforce
  obtain ds where ds: "sw_calls (snd (boundif_apply env network fd iface (w1\<lparr>sw_cache := cache\<rparr>))) = sw_calls w1 @ ds"
    "fst (boundif_apply env network fd iface (w1\<lparr>sw_cache := cache\<rparr>)) = None \<longrightarrow> ds \<noteq> [] \<and> selects fd iface (last ds)"
    using boundif_apply_calls [of env network fd iface "w1\<lparr>sw_cache := cache\<rparr>"] by auto
  show ?thesis
  proof (cases "sy_platform env")
    case Linux
    then show ?thesis by (simp add: controlInterface_def control_linux_def control_other_def selects_def)
  next
    case (OtherOS name)
    then show ?thesis by (simp add: controlInterface_def control_linux_def control_other_def)
  next
    case Darwin
    then show ?thesis using a cs x ds by (cases r; cases x) (auto simp: controlInterface_def control_linux_def control_other_def)
  next
    case Windows
    then show ?thesis using a cs x ds by (cases r; cases x) (auto simp: controlInterface_def control_linux_def control_other_def)
  qed
qed


lemma prepare_socket_calls:
  assumes "prepare_socket env b network inet4 fd w = (None, w')"
  shows "\<exists>pre sa. sw_calls w' = sw_calls w @ pre @ [CallBind fd sa]
    \<and> (Interface b \<noteq> [] \<longrightarrow> (\<exists>c\<in>set pre. selects fd (Interface b) c))"
proof -
  obtain r1 w1 where w1: "(if sy_platform env = Darwin \<and> inet4 then sys env (CallStripHeader fd) w else (None, w)) = (r1, w1)" by fastforce
  obtain r2 w2 where w2: "(if Interface b \<noteq> [] then controlInterface env network fd (Interface b) w1 else (None, w1)) = (r2, w2)" by fastforce
  obtain x cache where x: "icmpSockaddr (sy_ParseUint32 env) (sy_byName env) inet4 b (sw_cache w2) = (x, cache)" by fastforce
  have ok: "r1 = None" "r2 = None" using assms w1 w2 by (auto simp: prepare_socket_def split: option.splits)
  obtain sa where sa: "x = Inr sa" "w' = snd (sys env (CallBind fd sa) (w2\<lparr>sw_cache := cache\<rparr>))"
    using assms w1 w2 x ok by (cases x) (auto simp: prepare_socket_def)
  have "\<exists>as. sw_calls w1 = sw_calls w @ as" using w1 by (auto simp: sys_def split: if_splits)
  then obtain as where as: "sw_calls w1 = sw_calls w @ as" ..
  have "\<exists>cs. sw_calls w2 = sw_calls w1 @ cs \<and> (Interface b \<noteq> [] \<longrightarrow> (\<exists>c\<in>set cs. selects fd (Interface b) c))"
    using w2 ok(2) controlInterface_calls [of env network fd "Interface b" w1] by (auto split: if_splits)
  then obtain cs where cs: "sw_calls w2 = sw_calls w1 @ cs" "Interface b \<noteq> [] \<longrightarrow> (\<exists>c\<in>set cs. selects fd (Interface b) c)" by blast
  show ?thesis by (rule exI [of _ "as @ cs"], rule exI [of _ sa]) (use as cs sa in auto)
qed

definition bound_or_closed :: "Binding \<Rightarrow> sockWorld \<Rightarrow> (sockError + nat) \<times> sockWorld \<Rightarrow> bool" where
  "bound_or_closed b w out =
     (case out of
        (Inl e, w') \<Rightarrow> sw_open w' = sw_open w
      | (Inr conn, w') \<Rightarrow> sw_open w' = conn # sw_open w
          \<and> (\<exists>fd before sa after. sw_calls w' = sw_calls w @ before @ [CallBind fd sa] @ after
               \<and> (Interface b \<noteq> [] \<longrightarrow> (\<exists>c\<in>set before. selects fd (Interface b) c))))"

lemma bound_or_closed_fail: "sw_open w' = sw_open w \<Longrightarrow> bound_or_closed b w (Inl e, w')"
  by (simp add: bound_or_closed_def)

lemma open_socket_effect:
  assumes "open_socket env family protocol w = (r, w')"
  shows "sw_open w' = (case r of Inl _ \<Rightarrow> sw_open w | Inr fd \<Rightarrow> fd # sw_open w)" "\<exists>cs. sw_calls w' = sw_calls w @ cs"
  using assms by (auto simp: open_socket_def sys_def Let_def split: option.splits)

lemma wrap_socket_effect:
  assumes "wrap_socket env fd w = (r, w')" "sw_open w = fd # rest"
  shows "sw_open w' = (case r of Inl _ \<Rightarrow> rest | Inr conn \<Rightarrow> conn # rest)" "\<exists>cs. sw_calls w' = sw_calls w @ cs"
  using assms by (auto simp: wrap_socket_def sys_def close_fd_def Let_def split: option.splits)

lemma wrapped_bound:
  assumes "sw_open w1 = fd # sw_open w" "sw_calls w1 = sw_calls w @ cs" "prepare_socket env b network inet4 fd w1 = (None, w2)"
  shows "bound_or_closed b w (wrap_socket env fd w2)"
proof -
  have w2: "sw_open w2 = fd # sw_open w" using prepare_socket_open [of env b network inet4 fd w1] assms(1,3) by simp
  obtain pre sa where pre: "sw_calls w2 = sw_calls w1 @ pre @ [CallBind fd sa]"
    "Interface b \<noteq> [] \<longrightarrow> (\<exists>c\<in>set pre. selects fd (Interface b) c)"
    using prepare_socket_calls [OF assms(3)] by blast
  obtain r w3 where r: "wrap_socket env fd w2 = (r, w3)" by fastforce
  note eff = wrap_socket_effect [OF r w2]
  obtain ds where "sw_calls w3 = sw_calls w2 @ ds" using eff(2) by blast
  then have "sw_calls w3 = sw_calls w @ (cs @ pre) @ [CallBind fd sa] @ ds
      \<and> (Interface b \<noteq> [] \<longrightarrow> (\<exists>c\<in>set (cs @ pre). selects fd (Interface b) c))" using pre assms(2) by auto
  then have "\<exists>f before sa after. sw_calls w3 = sw_calls w @ before @ [CallBind f sa] @ after
      \<and> (Interface b \<noteq> [] \<longrightarrow> (\<exists>c\<in>set before. selects f (Interface b) c))" by blast
  with eff(1) show ?thesis unfolding r bound_or_closed_def by (cases r) simp_all
qed

text \<open>An ICMP socket is either fully bound or gone. Whatever system call fails, at whatever point, the process holds
  the descriptors it held before; and a socket that is handed out is one new descriptor, for which the interface of the
  binding was selected before it was bound to an address, so that no packet leaves through another interface.\<close>

theorem ListenICMP_bound_or_closed: "bound_or_closed b w (ListenICMP env ctxErr b network w)"
proof (cases "(sy_platform env = Linux \<or> sy_platform env = Darwin) \<and> ctxErr = None \<and> icmp_family (sy_platform env) network \<noteq> None")
  case True
  then obtain inet4 family protocol where f: "icmp_family (sy_platform env) network = Some (inet4, family, protocol)" by (metis option.collapse prod_cases3)
  obtain r w1 where o: "open_socket env family protocol w = (r, w1)" by fastforce
  note eff = open_socket_effect [OF o]
  show ?thesis
  proof (cases r)
    case (Inl e)
    with True f o have "ListenICMP env ctxErr b network w = (Inl e, w1)" by (auto simp: ListenICMP_def)
    with eff(1) Inl show ?thesis by (simp add: bound_or_closed_fail)
  next
    case (Inr fd)
    obtain q w2 where q: "prepare_socket env b network inet4 fd w1 = (q, w2)" by fastforce
    have w2: "sw_open w2 = fd # sw_open w" using prepare_socket_open [of env b network inet4 fd w1] q eff(1) Inr by simp
    have l: "ListenICMP env ctxErr b network w = (case q of Some e \<Rightarrow> (Inl e, close_fd fd w2)
        | None \<Rightarrow> if \<not> sy_wraps env then (Inl WrapFailed, close_fd fd w2) else wrap_socket env fd w2)"
      using True f o Inr q by (auto simp: ListenICMP_def)
    obtain cs where "sw_calls w1 = sw_calls w @ cs" using eff(2) by blast
    with wrapped_bound [of w1 fd w cs env b network inet4 w2] eff(1) Inr q w2 show ?thesis
      unfolding l by (cases q) (simp_all add: bound_or_closed_fail close_fd_def)
  qed
next
  case False
  then obtain e where "ListenICMP env ctxErr b network w = (Inl e, w)"
    by (cases "sy_platform env"; cases ctxErr; cases "icmp_family (sy_platform env) network") (auto simp: ListenICMP_def)
  then show ?thesis by (simp add: bound_or_closed_fail)
qed

end
