(* ===== verification/Node_Spec.thy ===== *)
theory Node_Spec
  imports Agent_Guarantees
begin

text \<open>
  The node as a whole against an abstract specification. The specification knows three things, the confirmed
  status, the open triggers and the undelivered results, and six actions on them; it does not know caches, tables,
  transactions or ticks. Every round of the agent, with whatever fails in it, is a run of the specification, so
  what holds of all such runs holds of the node. The agent here has a database or posts its results directly;
  the file spool, which may also evict, has its own statement in \<open>Delivery_Queue\<close>.
\<close>

section \<open>The abstract node\<close>

text \<open>What an observer of the node keeps in mind: the status the server confirmed last, the triggers that
  were taken on and are not finished, and the results that are recorded and not yet delivered.\<close>

record nodeView =
  nv_gate :: "string option"
  nv_todo :: "(string \<times> string) list"
  nv_backlog :: "WireResult list"

text \<open>What can be seen of it: the server confirms a status or offers triggers; the node settles the oldest
  triggers together with the results it records, hands results to the server directly, gives the oldest
  triggers another try, and delivers the oldest results.\<close>

datatype nodeAction =
    Confirm string
  | Offer "(string \<times> string) list"
  | Settle "(string \<times> string) list" "WireResult list"
  | HandOver "WireResult list"
  | Retry "(string \<times> string) list"
  | Deliver "WireResult list"

definition todo_ok :: "(string \<times> string) list \<Rightarrow> bool" where
  "todo_ok ks \<longleftrightarrow> distinct ks \<and> length ks \<le> maxPendingTriggers \<and> (\<forall>(p, x)\<in>set ks. p \<noteq> [] \<and> x \<noteq> [])"

definition working :: "nodeView \<Rightarrow> bool" where
  "working v \<longleftrightarrow> nv_gate v = Some NodeStatusActive"

inductive node_does :: "nodeView \<Rightarrow> nodeAction \<Rightarrow> nodeView \<Rightarrow> bool" where
  confirm: "st \<noteq> [] \<Longrightarrow> node_does v (Confirm st) (v\<lparr>nv_gate := Some st\<rparr>)"
| offer: "subseq taken ks \<Longrightarrow> todo_ok (nv_todo v @ taken) \<Longrightarrow>
    node_does v (Offer ks) (v\<lparr>nv_todo := nv_todo v @ taken\<rparr>)"
| settle: "working v \<Longrightarrow> nv_todo v = ks @ rest \<Longrightarrow>
    node_does v (Settle ks rs) (v\<lparr>nv_todo := rest, nv_backlog := nv_backlog v @ rs\<rparr>)"
| hand_over: "working v \<Longrightarrow> node_does v (HandOver rs) v"
| retry: "working v \<Longrightarrow> nv_todo v = ks @ rest \<Longrightarrow> node_does v (Retry ks) (v\<lparr>nv_todo := rest @ ks\<rparr>)"
| deliver: "working v \<Longrightarrow> nv_backlog v = rs @ rest \<Longrightarrow> node_does v (Deliver rs) (v\<lparr>nv_backlog := rest\<rparr>)"

inductive_simps node_does_simps:
  "node_does v (Confirm st) w" "node_does v (Offer ks) w" "node_does v (Settle ks rs) w"
  "node_does v (HandOver rs) w" "node_does v (Retry ks) w" "node_does v (Deliver rs) w"

inductive node_trace :: "nodeView \<Rightarrow> nodeAction list \<Rightarrow> nodeView \<Rightarrow> bool" where
  nil: "node_trace v [] v"
| step: "node_does v x w \<Longrightarrow> node_trace w xs u \<Longrightarrow> node_trace v (x # xs) u"

inductive_simps node_trace_simps: "node_trace v [] w" "node_trace v (x # xs) w"

lemma node_trace_append:
  "node_trace v (xs @ ys) u \<longleftrightarrow> (\<exists>w. node_trace v xs w \<and> node_trace w ys u)"
  by (induction xs arbitrary: v) (auto simp: node_trace_simps)

section \<open>What every run of the abstract node satisfies\<close>

text \<open>Sums over a run: what was recorded, delivered, offered and retired.\<close>

definition recorded :: "nodeAction list \<Rightarrow> WireResult list" where
  "recorded xs = concat (map (\<lambda>x. case x of Settle ks rs \<Rightarrow> rs | _ \<Rightarrow> []) xs)"

definition delivered :: "nodeAction list \<Rightarrow> WireResult list" where
  "delivered xs = concat (map (\<lambda>x. case x of Deliver rs \<Rightarrow> rs | _ \<Rightarrow> []) xs)"

definition offered :: "nodeAction list \<Rightarrow> (string \<times> string) list" where
  "offered xs = concat (map (\<lambda>x. case x of Offer ks \<Rightarrow> ks | _ \<Rightarrow> []) xs)"

definition settled :: "nodeAction list \<Rightarrow> (string \<times> string) list" where
  "settled xs = concat (map (\<lambda>x. case x of Settle ks rs \<Rightarrow> ks | _ \<Rightarrow> []) xs)"

lemmas sums_def = recorded_def delivered_def offered_def settled_def

text \<open>Nothing recorded is lost, invented, reordered or delivered twice.\<close>

lemma trace_backlog: "node_trace v xs w \<Longrightarrow> delivered xs @ nv_backlog w = nv_backlog v @ recorded xs"
  by (induction rule: node_trace.induct) (auto simp: sums_def elim!: node_does.cases)

lemma subseq_mset: "subseq xs ys \<Longrightarrow> mset xs \<subseteq># mset ys"
  by (induction rule: list_emb.induct) (auto intro: subset_mset.order_trans)

text \<open>A trigger is finished at most as often as it was offered, and is otherwise still on the list.\<close>

lemma trace_todo:
  "node_trace v xs w \<Longrightarrow> mset (settled xs) + mset (nv_todo w) \<subseteq># mset (nv_todo v) + mset (offered xs)"
proof (induction rule: node_trace.induct)
  case (step v x w xs u)
  have one: "mset (settled [x]) + mset (nv_todo w) \<subseteq># mset (nv_todo v) + mset (offered [x])"
    using step.hyps(1)
  proof (cases rule: node_does.cases)
    case (offer taken ks)
    then have "mset taken \<subseteq># mset ks" by (simp add: subseq_mset)
    with offer show ?thesis by (simp add: sums_def)
  qed (auto simp: sums_def ac_simps)
  have "mset (settled (x # xs)) + mset (nv_todo u) = mset (settled [x]) + (mset (settled xs) + mset (nv_todo u))"
    by (simp add: sums_def)
  also have "\<dots> \<subseteq># mset (settled [x]) + (mset (nv_todo w) + mset (offered xs))"
    by (rule subset_mset.add_left_mono) (rule step.IH)
  also have "\<dots> \<subseteq># (mset (nv_todo v) + mset (offered [x])) + mset (offered xs)"
    unfolding add.assoc [symmetric] by (rule subset_mset.add_right_mono) (rule one [unfolded add.assoc])
  also have "\<dots> = mset (nv_todo v) + mset (offered (x # xs))" by (simp add: sums_def)
  finally show ?case .
qed (simp add: sums_def)

text \<open>A run in which every piece of work finds the last confirmed status active.\<close>

fun gated_run :: "string option \<Rightarrow> nodeAction list \<Rightarrow> bool" where
  "gated_run g [] = True"
| "gated_run g (Confirm st # xs) = gated_run (Some st) xs"
| "gated_run g (Offer ks # xs) = gated_run g xs"
| "gated_run g (x # xs) = (g = Some NodeStatusActive \<and> gated_run g xs)"

lemma trace_gated: "node_trace v xs w \<Longrightarrow> gated_run (nv_gate v) xs"
  by (induction rule: node_trace.induct) (auto simp: working_def elim!: node_does.cases)

section \<open>Refinement\<close>

text \<open>A deterministic machine refines a labelled specification along a mapping, under an invariant, when each of
  its steps is the run its label names. The label says what is seen of the step from outside.\<close>

fun seen_along :: "('e \<Rightarrow> 's \<Rightarrow> nodeAction list) \<Rightarrow> ('e \<Rightarrow> 's \<Rightarrow> 's) \<Rightarrow> 'e list \<Rightarrow> 's \<Rightarrow> nodeAction list" where
  "seen_along seen step [] s = []"
| "seen_along seen step (e # es) s = seen e s @ seen_along seen step es (step e s)"

locale node_refinement = invariant_machine init step inv
  for init :: 's and step :: "'e \<Rightarrow> 's \<Rightarrow> 's" and inv :: "'s \<Rightarrow> bool" +
  fixes view :: "'s \<Rightarrow> nodeView"
    and seen :: "'e \<Rightarrow> 's \<Rightarrow> nodeAction list"
  assumes step_trace: "inv s \<Longrightarrow> node_trace (view s) (seen e s) (view (step e s))"
begin

lemma fold_trace: "inv s \<Longrightarrow> node_trace (view s) (seen_along seen step es s) (view (fold step es s))"
proof (induction es arbitrary: s)
  case (Cons e es)
  from Cons.IH [OF inv_step [OF Cons.prems, of e]] step_trace [OF Cons.prems, of e] show ?case
    by (auto simp: node_trace_append)
qed (simp add: node_trace_simps)

lemmas run_trace = fold_trace [OF inv_init]

end

section \<open>The node seen from outside\<close>

definition backlog :: "(gotime \<Rightarrow> string) \<Rightarrow> agent \<Rightarrow> WireResult list" where
  "backlog format a = (case a_store a of None \<Rightarrow> [] | Some d \<Rightarrow> pending_queue format (a_nodeID a) d)"

definition node_view :: "(gotime \<Rightarrow> string) \<Rightarrow> agent \<Rightarrow> nodeView" where
  "node_view format a =
     \<lparr>nv_gate = (if a_ready a then Some (a_status a) else None),
      nv_todo = map trig_key (pc_pendingTriggers (a_cache a)), nv_backlog = backlog format a\<rparr>"

text \<open>A drain acknowledges results, and a tick that ran its checks records them, hands them over or tries again.\<close>

definition drained :: "tickEnv \<Rightarrow> agent \<Rightarrow> WireResult list" where
  "drained env a =
     (case a_store a of
        None \<Rightarrow> []
      | Some d \<Rightarrow> do_acked (fst (drainStore (te_format env) (a_nodeID a) (te_post env) (te_alive env) (te_db_ok env)
                    (te_drainNow env) (d, a_delivery a))))"

definition report_seen :: "tickEnv \<Rightarrow> (string \<times> string) list \<Rightarrow> WireResult list \<Rightarrow> agent \<Rightarrow> nodeAction list" where
  "report_seen env ks rs a =
     (let direct = (if te_direct env rs \<noteq> None then [HandOver rs, Settle ks []] else [Retry ks]);
          t = to_UnixMilli (te_drainNow env)
      in if rs = [] then [Settle ks []]
         else (case a_store a of
                 None \<Rightarrow> direct
               | Some d \<Rightarrow>
                   if te_record_ok env
                   then [Settle ks (map (delivery_form (te_parse env) (te_format env) t)
                           (fresh_results (a_nodeID a) (known d) rs)),
                         Deliver (drained env (a\<lparr>a_store := Some (commit (RecordResults (te_parse env) (a_nodeID a) t rs d) d)\<rparr>))]
                   else direct))"

definition tick_seen :: "tickEnv \<Rightarrow> agent \<Rightarrow> nodeAction list" where
  "tick_seen env a =
     (if \<not> a_ready a \<or> a_status a \<noteq> NodeStatusActive then []
      else if fst (binding_paused env a) then [Deliver (drained env (snd (binding_paused env a)))]
      else (case planned env a of (p, a2) \<Rightarrow>
              if tp_due p = [] \<and> tp_triggers p = [] then [Deliver (drained env a2)]
              else (case execute_plan env a2 p of
                      None \<Rightarrow> []
                    | Some rs \<Rightarrow> report_seen env (map trig_key (tp_triggers p)) rs
                        (mark_due (te_mark_ok env) (tp_due p) (tick_now env a) a2))))"

text \<open>A heartbeat offers what the durable queue holds, if it has not been read yet, and what the answer carries.\<close>

definition restore_offers :: "agent \<Rightarrow> (string \<times> string) list" where
  "restore_offers a =
     (case a_store a of
        None \<Rightarrow> []
      | Some d \<Rightarrow> if a_triggersRestored a then [] else map trig_key (agentTriggers (fst (PendingTriggers d))))"

definition event_offers :: "Event list \<Rightarrow> (string \<times> string) list" where
  "event_offers evs = map (\<lambda>e. (ps_ID (ev_Probe e), ev_RunID e)) (filter (\<lambda>e. ev_EventType e = ''triggered'') evs)"

definition beat_seen :: "beatEnv \<Rightarrow> agent \<Rightarrow> nodeAction list" where
  "beat_seen env a =
     Offer (restore_offers a) #
     (case fst (exchange env (restore_again env a)) of
        None \<Rightarrow> []
      | Some (resp, _, _) \<Rightarrow>
          Offer (event_offers (hb_Events resp)) # (if hb_NodeStatus resp \<noteq> [] then [Confirm (hb_NodeStatus resp)] else []))"

fun node_seen :: "agentEvent \<Rightarrow> agent \<Rightarrow> nodeAction list" where
  "node_seen (ETick env) a = tick_seen env a"
| "node_seen (EBeat env) a = beat_seen env a"
| "node_seen (EMaintain env) a = []"

text \<open>The process has one way of writing a time.\<close>

fun at_format :: "(gotime \<Rightarrow> string) \<Rightarrow> agentEvent \<Rightarrow> agentEvent" where
  "at_format format (ETick env) = ETick (env\<lparr>te_format := format\<rparr>)"
| "at_format format e = e"

section \<open>What leaves the undelivered results alone\<close>

lemma pending_queue_cong: "db_journal d' = db_journal d \<Longrightarrow> pending_queue f origin d' = pending_queue f origin d"
  by (simp add: pending_queue_def)

lemma pending_queue_other:
  "db_journal d' = db_journal d @ [r] \<Longrightarrow> j_kind r \<noteq> KResult \<Longrightarrow> pending_queue f origin d' = pending_queue f origin d"
  by (simp add: pending_queue_def is_pending_def)

lemma RecordTrigger_backlog:
  assumes "store_ok d" "RecordTrigger origin t e d = Inr (b, d')"
  shows "pending_queue f o' d' = pending_queue f o' d"
proof (cases b)
  case True
  with assms(2) obtain g where g: "ev_EventType e = ''triggered''" "ev_RunID e \<noteq> []" "ps_ID (ev_Probe e) \<noteq> []"
    "json_event e = Some g" "\<not> triggerAlreadySeenTx (ps_ID (ev_Probe e)) (ev_RunID e) d"
    by (auto simp: RecordTrigger_def split: if_splits option.splits)
  obtain s d2 where "RecordTrigger origin t e d = Inr (True, d2)"
    "db_journal d2 = db_journal d @ [(trigger_row origin s t g)\<lparr>j_seq := db_autoinc d + 1\<rparr>]"
    by (rule RecordTrigger_fresh [OF assms(1) g])
  with assms(2) show ?thesis by (auto intro!: pending_queue_other simp: trigger_row_def blank_row_def)
next
  case False
  with assms(2) have "d' = d" by (auto simp: RecordTrigger_def bind_tx_Inr split: if_splits option.splits)
  then show ?thesis by simp
qed

lemma SaveAssignment_backlog:
  assumes "store_ok d" "SaveAssignment origin t h ps d = Inr (u, d')"
  shows "pending_queue f o' d' = pending_queue f o' d"
proof (cases "h = []")
  case True
  with assms show ?thesis by (simp add: SaveAssignment_def)
next
  case False
  with SaveAssignment_Inr [OF assms(2)] obtain qs
    where q: "json_snapshots ps = Some qs" "distinct (map ps_ID ps)" by auto
  obtain s d1 where "SaveAssignment origin t h ps d =
       Inr ((), meta_set ''probe_hash'' h (d1\<lparr>db_probes := probe_rows True (db_probes d) qs\<rparr>))"
    "db_journal d1 = db_journal d @ [(assignment_row origin s t h qs)\<lparr>j_seq := db_autoinc d + 1\<rparr>]"
    by (rule SaveAssignment_total [OF assms(1) False q])
  with assms(2) show ?thesis
    by (auto intro!: pending_queue_other simp: assignment_row_def blank_row_def meta_set_def)
qed

lemma CompleteTriggers_backlog:
  "store_ok d \<Longrightarrow> CompleteTriggers origin t ks d = Inr (u, d') \<Longrightarrow> pending_queue f o' d' = pending_queue f o' d"
proof (induction ks arbitrary: d)
  case (Cons k ks)
  obtain p x where k: "k = (p, x)" by (cases k)
  obtain s d1 where c: "complete_one origin t (p, x) d = Inr ((), completeTriggerTx p x t d1)" "store_ok d1"
    "db_journal d1 = db_journal d @ [(done_row origin s t p x)\<lparr>j_seq := db_autoinc d + 1\<rparr>]"
    by (rule complete_one_total [OF Cons.prems(1)])
  have "store_ok (completeTriggerTx p x t d1)" by (rule completeTriggerTx_ok [OF c(2)])
  moreover have "pending_queue f o' (completeTriggerTx p x t d1) = pending_queue f o' d"
    by (rule trans [OF pending_queue_cong pending_queue_other [OF c(3)]])
      (simp_all add: completeTriggerTx_def drop_pending_def done_row_def blank_row_def Let_def)
  ultimately show ?case using Cons.IH Cons.prems(2) c k by simp
qed simp

lemma tables_backlog [simp]:
  "pending_queue f origin (snd (PendingTriggers d)) = pending_queue f origin d"
  "pending_queue f origin (MarkProbesRun ids t d) = pending_queue f origin d"
  "known (MarkProbesRun ids t d) = known d"
proof -
  have "db_journal (snd (PendingTriggers d)) = db_journal d"
    unfolding PendingTriggers_def Let_def snd_conv by (rule fold_same) (simp add: drop_pending_def)
  moreover have "db_journal (MarkProbesRun ids t d) = db_journal d"
    unfolding MarkProbesRun_def by (rule fold_same) simp
  ultimately show "pending_queue f origin (snd (PendingTriggers d)) = pending_queue f origin d"
    "pending_queue f origin (MarkProbesRun ids t d) = pending_queue f origin d" "known (MarkProbesRun ids t d) = known d"
    by (simp_all add: pending_queue_def known_def)
qed

lemma keeps_backlog:
  assumes "store_ok d" "keeps d d'"
  shows "pending_queue f origin d' = pending_queue f origin d"
proof -
  have sorted: "sorted_wrt (<) (map j_seq (db_journal e))" if "store_ok e" for e
    using store_okD(1) [OF that] by (simp add: journal_ok_def)
  have s: "sorted_wrt (<) (map j_seq (filter P (db_journal e)))" if "store_ok e" for e P
    using sorted [OF that] by (simp add: sorted_wrt_map sorted_wrt_filter)
  have "set (filter (is_pending origin) (db_journal d')) = set (filter (is_pending origin) (db_journal d))"
    using assms(2) by (auto simp: keeps_def is_pending_def prunable_def)
  moreover have "inj_on j_seq (set (db_journal d))"
    using sorted [OF assms(1)] by (simp add: strict_sorted_iff distinct_map)
  moreover have "set (db_journal d') \<subseteq> set (db_journal d)" "store_ok d'" using assms(2) by (simp_all add: keeps_def)
  ultimately have "filter (is_pending origin) (db_journal d') = filter (is_pending origin) (db_journal d)"
    using s [OF assms(1), of "is_pending origin"] s [of d' "is_pending origin"]
    by (intro map_sorted_distinct_set_unique [of j_seq]) (auto simp: strict_sorted_iff intro: inj_on_subset)
  then show ?thesis by (simp add: pending_queue_def)
qed

section \<open>How the queue of triggers moves\<close>

definition takes_on :: "(string \<times> string) list \<Rightarrow> probeCache \<Rightarrow> probeCache \<Rightarrow> bool" where
  "takes_on ks c c' \<longleftrightarrow> (\<exists>taken. subseq taken ks \<and>
     map trig_key (pc_pendingTriggers c') = map trig_key (pc_pendingTriggers c) @ taken)"

lemma takes_on_refl: "pc_pendingTriggers c' = pc_pendingTriggers c \<Longrightarrow> takes_on ks c c'"
  unfolding takes_on_def by (rule exI [of _ "[]"]) simp

lemma takes_on_trans: "takes_on ks c c' \<Longrightarrow> takes_on ls c' c'' \<Longrightarrow> takes_on (ks @ ls) c c''"
  unfolding takes_on_def by (metis append.assoc list_emb_append_mono)

lemma takes_on_push: "map trig_key (pc_pendingTriggers c') = map trig_key (pc_pendingTriggers c) @ [k] \<Longrightarrow> takes_on [k] c c'"
  unfolding takes_on_def by (rule exI [of _ "[k]"]) simp

lemma queueTriggers_takes_on: "takes_on (map trig_key ts) c (snd (queueTriggers c ts))"
proof (induction c ts rule: queueTriggers.induct)
  case (2 c t ts)
  have skip: "takes_on (map trig_key (t # ts)) c c'" if "takes_on (map trig_key ts) c c'" for c'
    using takes_on_trans [OF takes_on_refl [of c c "[trig_key t]"] that] by simp
  have key: "trig_key (resolve_trigger c t) = trig_key t"
    by (auto simp: resolve_trigger_def trig_key_def split: option.split)
  show ?case
  proof (cases "pt_ProbeID t = [] \<or> pt_RunID t = [] \<or> hasPendingTriggerLocked c (pt_ProbeID t) (pt_RunID t)
      \<or> note_trigger c (pt_ProbeID t) (pt_RunID t) = None")
    case True
    then have "takes_on (map trig_key ts) c (snd (queueTriggers c ts))" using 2(1-3) by auto
    moreover have "snd (queueTriggers c (t # ts)) = snd (queueTriggers c ts)" using True by auto
    ultimately show ?thesis by (simp only: skip)
  next
    case False
    then obtain c' where c': "note_trigger c (pt_ProbeID t) (pt_RunID t) = Some c'" by auto
    show ?thesis
    proof (cases "maxPendingTriggers \<le> length (pc_pendingTriggers c')")
      case True
      with False c' show ?thesis by (auto intro!: takes_on_refl simp: note_trigger_pending [OF c'])
    next
      case room: False
      have "takes_on [trig_key t] c (push_trigger c' (resolve_trigger c t))"
        by (rule takes_on_push) (simp add: key note_trigger_pending [OF c'])
      from takes_on_trans [OF this 2(4) [OF _ _ c' room]] False c' room show ?thesis
        by (auto simp: case_prod_beta)
    qed
  qed
qed (simp add: takes_on_refl)

lemma applyTriggeredEventLocked_takes_on: "takes_on (event_offers [e]) c (snd (applyTriggeredEventLocked c e))"
proof (cases "fst (applyTriggeredEventLocked c e)")
  case True
  then obtain c' where c': "note_trigger c (ps_ID (ev_Probe e)) (ev_RunID e) = Some c'"
    and e: "ev_EventType e = ''triggered''"
    and p: "snd (applyTriggeredEventLocked c e) =
      push_trigger c' \<lparr>pt_ProbeID = ps_ID (ev_Probe e), pt_RunID = ev_RunID e, pt_Probe = ev_Probe e\<rparr>"
    by (auto simp: applyTriggeredEventLocked_def split: if_splits option.splits)
  show ?thesis
    unfolding p event_offers_def using e by (auto intro!: takes_on_push simp: note_trigger_pending [OF c'] trig_key_def)
next
  case False
  then have "pc_pendingTriggers (snd (applyTriggeredEventLocked c e)) = pc_pendingTriggers c"
    by (auto simp: applyTriggeredEventLocked_def note_trigger_pending split: if_splits option.splits)
  then show ?thesis by (rule takes_on_refl)
qed

lemma event_offers_Cons: "event_offers (e # evs) = event_offers [e] @ event_offers evs"
  by (simp add: event_offers_def)

lemma applyTriggeredEvents_takes_on: "takes_on (event_offers evs) c (applyTriggeredEvents c evs)"
proof (induction evs arbitrary: c)
  case (Cons e evs)
  from takes_on_trans [OF applyTriggeredEventLocked_takes_on Cons.IH] show ?case
    unfolding event_offers_Cons [of e evs] by (simp add: applyTriggeredEvents_def)
qed (simp add: applyTriggeredEvents_def takes_on_refl)

lemma apply_events_refine:
  "store_ok d \<Longrightarrow> fold (apply_event ok t origin) xs (d, c) = (d', c') \<Longrightarrow>
     takes_on (event_offers (map snd xs)) c c' \<and> pending_queue f origin d' = pending_queue f origin d"
proof (induction xs arbitrary: d c)
  case (Cons x xs)
  obtain i e where x: "x = (i, e)" by (cases x)
  obtain d1 c1 where s: "apply_event ok t origin (i, e) (d, c) = (d1, c1)" by (cases "apply_event ok t origin (i, e) (d, c)")
  have "takes_on (event_offers [e]) c c1 \<and> store_ok d1 \<and> pending_queue f origin d1 = pending_queue f origin d"
  proof (cases "attempt (ok i) (RecordTrigger origin t e d)")
    case (Inl err)
    with s Cons.prems(1) applyTriggeredEventLocked_takes_on [of e c] show ?thesis by (auto simp: apply_event_def)
  next
    case (Inr r)
    obtain b d2 where r: "r = (b, d2)" by (cases r)
    have rt: "RecordTrigger origin t e d = Inr (b, d2)" using Inr by (simp add: attempt_Inr r)
    have "d1 = d2" "takes_on (event_offers [e]) c c1"
      using s applyTriggeredEventLocked_takes_on [of e c] takes_on_refl [of c c "event_offers [e]"]
      by (auto simp: apply_event_def Inr r split: if_splits)
    with RecordTrigger_ok [OF Cons.prems(1) rt] RecordTrigger_backlog [OF Cons.prems(1) rt] show ?thesis by simp
  qed
  then have t1: "takes_on (event_offers [e]) c c1" and d1: "store_ok d1 \<and> pending_queue f origin d1 = pending_queue f origin d"
    by simp_all
  have "takes_on (event_offers (map snd xs)) c1 c' \<and> pending_queue f origin d' = pending_queue f origin d1"
    using Cons.prems(2) d1 by (intro Cons.IH) (simp_all add: x s)
  with takes_on_trans [OF t1] d1 show ?case by (simp add: x event_offers_Cons [of e "map snd xs"])
qed (simp add: takes_on_refl)

lemma requeue_appends:
  assumes "triggers_ok (pc_pendingTriggers c @ ts)"
  shows "pc_pendingTriggers (requeueTriggers c ts) = pc_pendingTriggers c @ ts"
  using assms
proof (induction ts arbitrary: c)
  case (Cons t ts)
  have "\<not> hasPendingTriggerLocked c (pt_ProbeID t) (pt_RunID t)" "length (pc_pendingTriggers c) < maxPendingTriggers"
    using Cons.prems by (auto simp: triggers_ok_def hasPending_iff trig_key_def)
  moreover have "triggers_ok (pc_pendingTriggers (push_trigger c t) @ ts)" using Cons.prems by simp
  ultimately show ?case using Cons.IH [of "push_trigger c t"] Cons.prems by (auto simp: triggers_ok_def)
qed simp

section \<open>The rounds of the agent as runs of the abstract node\<close>

text \<open>Results wait in the database, or go out directly when there is none.\<close>

definition node_ok :: "agent \<Rightarrow> bool" where
  "node_ok a \<longleftrightarrow> agent_ok a \<and> a_spool a = None"

lemma node_view_eqI:
  "a_ready a = a_ready b \<Longrightarrow> a_status a = a_status b \<Longrightarrow> pc_pendingTriggers (a_cache a) = pc_pendingTriggers (a_cache b) \<Longrightarrow>
     backlog f a = backlog f b \<Longrightarrow> node_view f a = node_view f b"
  by (simp add: node_view_def)

lemma node_view_simps [simp]:
  "nv_gate (node_view f a) = (if a_ready a then Some (a_status a) else None)"
  "nv_todo (node_view f a) = map trig_key (pc_pendingTriggers (a_cache a))" "nv_backlog (node_view f a) = backlog f a"
  by (simp_all add: node_view_def)

lemma todo_ok_cache: "cache_ok c \<Longrightarrow> todo_ok (map trig_key (pc_pendingTriggers c))"
  by (auto simp: cache_ok_def triggers_ok_def todo_ok_def trig_key_def)

lemma backlog_cong: "a_store a = a_store b \<Longrightarrow> a_nodeID a = a_nodeID b \<Longrightarrow> backlog f a = backlog f b"
  by (simp add: backlog_def split: option.split)

lemma drained_cong:
  "a_store a = a_store b \<Longrightarrow> a_nodeID a = a_nodeID b \<Longrightarrow> a_delivery a = a_delivery b \<Longrightarrow> drained env a = drained env b"
  by (simp add: drained_def split: option.split)

lemma report_seen_cong:
  "a_store a = a_store b \<Longrightarrow> a_nodeID a = a_nodeID b \<Longrightarrow> a_delivery a = a_delivery b \<Longrightarrow>
     report_seen env ks rs a = report_seen env ks rs b"
proof -
  assume eq: "a_store a = a_store b" "a_nodeID a = a_nodeID b" "a_delivery a = a_delivery b"
  have "drained env (a\<lparr>a_store := s\<rparr>) = drained env (b\<lparr>a_store := s\<rparr>)" for s
    by (rule drained_cong) (simp_all add: eq)
  with eq show ?thesis by (simp add: report_seen_def Let_def split: option.split)
qed

subsection \<open>Draining and reporting\<close>

lemma drain_unspooled: "a_spool a = None \<Longrightarrow> drainDelivery env a = drain_store env a"
  by (simp add: drainDelivery_def drain_store_def drain_spool_def)

lemma drain_store_fields [simp]:
  "a_nodeID (drain_store env a) = a_nodeID a" "a_spool (drain_store env a) = a_spool a"
  by (simp_all add: drain_store_def case_prod_beta split: option.split)

lemma drain_backlog:
  assumes "agent_ok a"
  shows "backlog (te_format env) a = drained env a @ backlog (te_format env) (drain_store env a)"
proof (cases "a_store a")
  case (Some d)
  obtain out d' dl where dr: "drainStore (te_format env) (a_nodeID a) (te_post env) (te_alive env) (te_db_ok env)
      (te_drainNow env) (d, a_delivery a) = (out, d', dl)" by (rule prod_cases3)
  from drainStore_spec [OF agent_okD(2) [OF assms Some] dr] Some show ?thesis
    by (simp add: backlog_def drained_def drain_store_def dr)
qed (simp add: backlog_def drained_def drain_store_def)

lemma drain_trace:
  assumes "agent_ok a" "a_ready a" "a_status a = NodeStatusActive"
  shows "node_trace (node_view (te_format env) a) [Deliver (drained env a)] (node_view (te_format env) (drain_store env a))"
  using assms(2,3) drain_backlog [OF assms(1), of env]
  by (auto simp: node_trace_simps node_does_simps working_def node_view_def)

lemma finish_durable_view:
  assumes "agent_ok a"
  shows "node_view f (finishTriggers b t ts True a) = node_view f a"
proof (rule node_view_eqI)
  have "pending_queue f (a_nodeID a) (commit (attempt b (CompleteTriggers (a_nodeID a) t ks d)) d) = pending_queue f (a_nodeID a) d"
    if "a_store a = Some d" for d ks
    by (rule commit_cases) (use CompleteTriggers_backlog [OF agent_okD(2) [OF assms that]] in \<open>auto simp: attempt_Inr\<close>)
  then show "backlog f (finishTriggers b t ts True a) = backlog f a"
    by (simp add: finishTriggers_def backlog_def Let_def split: option.split)
  show "pc_pendingTriggers (a_cache (finishTriggers b t ts True a)) = pc_pendingTriggers (a_cache a)"
    by (simp add: finishTriggers_def Let_def split: option.split)
qed simp_all

lemma finish_retry_view:
  assumes "triggers_ok (pc_pendingTriggers (a_cache a) @ ts)"
  shows "node_view f (finishTriggers b t ts False a) =
    (node_view f a)\<lparr>nv_todo := nv_todo (node_view f a) @ map trig_key ts\<rparr>"
  using requeue_appends [OF assms] by (auto simp: finishTriggers_def node_view_def backlog_def split: option.split)

lemma mark_due_view [simp]:
  "node_view f (mark_due b due now a) = node_view f a" "a_spool (mark_due b due now a) = a_spool a"
  "a_nodeID (mark_due b due now a) = a_nodeID a" "a_delivery (mark_due b due now a) = a_delivery a"
  by (auto simp: mark_due_def node_view_def backlog_def split: option.split)

text \<open>The view before a report: the triggers of the tick are still open, ahead of those left in the queue.\<close>

definition open_view :: "(gotime \<Rightarrow> string) \<Rightarrow> pendingTrigger list \<Rightarrow> agent \<Rightarrow> nodeView" where
  "open_view f ts a = (node_view f a)\<lparr>nv_todo := map trig_key (ts @ pc_pendingTriggers (a_cache a))\<rparr>"

lemma working_open_view: "a_ready a \<Longrightarrow> a_status a = NodeStatusActive \<Longrightarrow> working (open_view f ts a)"
  by (simp add: working_def open_view_def)

lemma settle_does:
  assumes "a_ready a" "a_status a = NodeStatusActive"
    and "a_ready b = a_ready a" "a_status b = a_status a" "a_cache b = a_cache a" "backlog f b = backlog f a @ new"
  shows "node_does (open_view f ts a) (Settle (map trig_key ts) new) (node_view f b)"
  using assms working_open_view [OF assms(1,2), of f ts] by (auto simp: node_does_simps open_view_def node_view_def)

lemma report_store_trace:
  assumes "agent_ok a" "a_ready a" "a_status a = NodeStatusActive" "rs \<noteq> []" "a_store a = Some d" "te_record_ok env"
    and "reportResults env rs a = (dur, a1)"
  shows "node_trace (open_view (te_format env) ts a) (report_seen env (map trig_key ts) rs a)
    (node_view (te_format env) (finishTriggers b t ts dur a1))"
proof -
  let ?f = "te_format env" and ?ks = "map trig_key ts" and ?t = "to_UnixMilli (te_drainNow env)"
  let ?new = "map (delivery_form (te_parse env) ?f ?t) (fresh_results (a_nodeID a) (known d) rs)"
  obtain su d' where r: "RecordResults (te_parse env) (a_nodeID a) ?t rs d = Inr (su, d')" "store_ok d'"
    "pending_queue ?f (a_nodeID a) d' = pending_queue ?f (a_nodeID a) d @ ?new"
    using RecordResults_queue [OF agent_okD(2) [OF assms(1,5)], of "te_parse env" "a_nodeID a" ?t rs ?f] by blast
  let ?a = "a\<lparr>a_store := Some d'\<rparr>"
  have da: "dur" "a1 = drain_store env ?a" using assms(5-7) r(1) by (simp_all add: reportResults_def attempt_def)
  have ok': "agent_ok ?a"
    by (rule agent_ok_store [OF assms(1,5) r(2) stored_hash_cong [OF RecordResults_meta [OF r(1)]]])
  have "node_does (open_view ?f ts a) (Settle ?ks ?new) (node_view ?f ?a)"
    by (rule settle_does [OF assms(2,3)]) (use assms(5) r(3) in \<open>simp_all add: backlog_def\<close>)
  moreover have "node_trace (node_view ?f ?a) [Deliver (drained env ?a)] (node_view ?f (drain_store env ?a))"
    by (rule drain_trace [OF ok']) (simp_all add: assms(2,3))
  moreover have "report_seen env ?ks rs a = [Settle ?ks ?new, Deliver (drained env ?a)]"
    using assms(4-6) r(1) by (simp add: report_seen_def Let_def commit_def)
  moreover have "node_view ?f (finishTriggers b t ts dur a1) = node_view ?f (drain_store env ?a)"
    using da finish_durable_view [OF drain_store_ok [OF ok']] by simp
  ultimately show ?thesis by (simp only: node_trace.step)
qed

lemma report_direct_trace:
  assumes "node_ok a" "a_ready a" "a_status a = NodeStatusActive" "triggers_ok (pc_pendingTriggers (a_cache a) @ ts)"
    and "rs \<noteq> []" "\<And>d. a_store a = Some d \<Longrightarrow> \<not> te_record_ok env" "reportResults env rs a = (dur, a1)"
  shows "node_trace (open_view f ts a) (report_seen env (map trig_key ts) rs a) (node_view f (finishTriggers b t ts dur a1))"
proof -
  let ?ks = "map trig_key ts"
  have ok: "agent_ok a" and sp: "a_spool a = None" using assms(1) by (simp_all add: node_ok_def)
  note w = working_open_view [OF assms(2,3), of f ts]
  have "reportResults env rs a = (te_direct env rs \<noteq> None, a)"
    using assms(6) sp by (auto simp: reportResults_def reportFallback_def attempt_def split: option.split)
  then have a1: "dur = (te_direct env rs \<noteq> None)" "a1 = a" using assms(7) by auto
  have s: "report_seen env ?ks rs a = (if dur then [HandOver rs, Settle ?ks []] else [Retry ?ks])"
    using assms(5,6) by (auto simp: report_seen_def Let_def a1(1) split: option.split)
  show ?thesis
  proof (cases dur)
    case True
    have "node_does (open_view f ts a) (Settle ?ks []) (node_view f a)" by (rule settle_does [OF assms(2,3)]) simp_all
    then have "node_trace (open_view f ts a) [Settle ?ks []] (node_view f a)" by (rule node_trace.step) (rule node_trace.nil)
    from node_trace.step [OF node_does.hand_over [OF w] this] True show ?thesis
      by (simp add: s a1(2) finish_durable_view [OF ok])
  next
    case False
    have "node_view f (finishTriggers b t ts dur a1) = (open_view f ts a)\<lparr>nv_todo := map trig_key (pc_pendingTriggers (a_cache a)) @ ?ks\<rparr>"
      using False finish_retry_view [OF assms(4)] by (simp add: a1(2) open_view_def)
    moreover have "nv_todo (open_view f ts a) = ?ks @ map trig_key (pc_pendingTriggers (a_cache a))" by (simp add: open_view_def)
    ultimately show ?thesis using False node_does.retry [OF w] by (simp add: s node_trace_simps)
  qed
qed

lemma report_trace:
  assumes "node_ok a" "a_ready a" "a_status a = NodeStatusActive" "triggers_ok (pc_pendingTriggers (a_cache a) @ ts)"
    and "(if rs = [] then (True, a) else reportResults env rs a) = (dur, a1)"
  shows "node_trace (open_view (te_format env) ts a) (report_seen env (map trig_key ts) rs a)
    (node_view (te_format env) (finishTriggers b t ts dur a1))"
proof -
  have ok: "agent_ok a" using assms(1) by (simp add: node_ok_def)
  consider (none) "rs = []" | (store) d where "rs \<noteq> []" "a_store a = Some d" "te_record_ok env"
    | (direct) "rs \<noteq> []" "\<And>d. a_store a = Some d \<Longrightarrow> \<not> te_record_ok env" by auto
  then show ?thesis
  proof cases
    case none
    then have "dur" "a1 = a" using assms(5) by simp_all
    with none settle_does [OF assms(2,3), of a "te_format env" "[]" ts] show ?thesis
      by (simp add: report_seen_def node_trace_simps finish_durable_view [OF ok])
  next
    case (store d)
    with report_store_trace [OF ok assms(2,3) store] assms(5) show ?thesis by simp
  next
    case direct
    with report_direct_trace [OF assms(1-4) direct] assms(5) show ?thesis by simp
  qed
qed

subsection \<open>The tick\<close>

lemma binding_paused_view [simp]:
  "a_delivery (snd (binding_paused env a)) = a_delivery a" "node_view f (snd (binding_paused env a)) = node_view f a"
  "agent_ok (snd (binding_paused env a)) = agent_ok a"
proof -
  show "a_delivery (snd (binding_paused env a)) = a_delivery a"
    by (simp add: binding_paused_def bindError_def case_prod_beta)
  show "node_view f (snd (binding_paused env a)) = node_view f a" by (simp add: node_view_def backlog_def split: option.split)
qed (simp add: agent_ok_def)

lemma planned_fields:
  assumes "planned env a = (p, a2)"
  shows "tp_triggers p @ pc_pendingTriggers (a_cache a2) = pc_pendingTriggers (a_cache a)"
    "a_store a2 = a_store a" "a_spool a2 = a_spool a" "a_ready a2 = a_ready a" "a_status a2 = a_status a" "a_nodeID a2 = a_nodeID a"
    "agent_ok a \<Longrightarrow> agent_ok a2"
proof -
  let ?a1 = "snd (binding_paused env a)"
  have p: "p = tick_plan ?a1 (tick_now env a)" "a2 = ?a1\<lparr>a_cache := tp_cache p, a_deferredJobs := tp_deferred p\<rparr>"
    using assms by (auto simp: planned_def Let_def)
  show "tp_triggers p @ pc_pendingTriggers (a_cache a2) = pc_pendingTriggers (a_cache a)"
    using tick_plan_queue [of ?a1 "tick_now env a"] by (simp add: p)
  show "a_store a2 = a_store a" "a_spool a2 = a_spool a" "a_ready a2 = a_ready a" "a_status a2 = a_status a" "a_nodeID a2 = a_nodeID a"
    by (simp_all add: p(2))
  assume ok: "agent_ok a"
  from tick_plan_cache [of ?a1 "tick_now env a"] agent_okD(1) [OF ok]
  show "agent_ok a2" using ok by (simp add: p agent_ok_def)
qed

lemma tick_cases:
  assumes "a_ready a" "a_status a = NodeStatusActive"
  obtains (paused) "fst (binding_paused env a)"
      "agent_step (ETick env) a = drainDelivery env (noteBindingPause (tick_now env a) (snd (binding_paused env a)))"
  | (idle) p a2 where "\<not> fst (binding_paused env a)" "planned env a = (p, a2)" "tp_due p = []" "tp_triggers p = []"
      "agent_step (ETick env) a = drainDelivery env a2"
  | (panic) p a2 where "\<not> fst (binding_paused env a)" "planned env a = (p, a2)" "tp_due p \<noteq> [] \<or> tp_triggers p \<noteq> []"
      "execute_plan env a2 p = None" "agent_step (ETick env) a = a"
  | (work) p a2 rs where "\<not> fst (binding_paused env a)" "planned env a = (p, a2)" "tp_due p \<noteq> [] \<or> tp_triggers p \<noteq> []"
      "execute_plan env a2 p = Some rs" "agent_step (ETick env) a = finish_tick env (tick_now env a) p rs a2"
proof -
  obtain b a1 where b: "binding_paused env a = (b, a1)" by (cases "binding_paused env a")
  let ?p = "tick_plan a1 (tick_now env a)"
  let ?a2 = "a1\<lparr>a_cache := tp_cache ?p, a_deferredJobs := tp_deferred ?p\<rparr>"
  have pl: "planned env a = (?p, ?a2)" by (simp add: planned_def b Let_def)
  have st: "agent_step (ETick env) a =
      (if b then drainDelivery env (noteBindingPause (tick_now env a) a1)
       else if tp_due ?p = [] \<and> tp_triggers ?p = [] then drainDelivery env ?a2
       else case execute_plan env ?a2 ?p of None \<Rightarrow> a | Some rs \<Rightarrow> finish_tick env (tick_now env a) ?p rs ?a2)"
    using assms by (auto simp: scheduler_tick_def runDueProbes_def Let_def b tick_now_def split: option.split)
  show thesis
  proof (cases b)
    case True
    with b st show thesis by (intro paused) simp_all
  next
    case False
    show thesis
    proof (cases "tp_due ?p = [] \<and> tp_triggers ?p = []")
      case True
      with False b st show thesis by (intro idle [OF _ pl]) simp_all
    next
      case busy: False
      show thesis
      proof (cases "execute_plan env ?a2 ?p")
        case None
        with False b busy st show thesis by (intro panic [OF _ pl _ None]) auto
      next
        case (Some rs)
        with False b busy st show thesis by (intro work [OF _ pl _ Some]) auto
      qed
    qed
  qed
qed

lemma finish_tick_trace:
  assumes "planned env a = (p, a2)" "node_ok a" "a_ready a" "a_status a = NodeStatusActive"
  shows "node_trace (node_view (te_format env) a)
    (report_seen env (map trig_key (tp_triggers p)) rs (mark_due (te_mark_ok env) (tp_due p) now a2))
    (node_view (te_format env) (finish_tick env now p rs a2))"
proof -
  note f = planned_fields [OF assms(1)]
  let ?f = "te_format env" and ?ts = "tp_triggers p"
  let ?p2 = "a2\<lparr>a_path := record_path (te_recordedAt env) rs (a_path a2)\<rparr>"
  let ?m = "mark_due (te_mark_ok env) (tp_due p) now ?p2"
  obtain dur a1 where r: "(if rs = [] then (True, ?m) else reportResults env rs ?m) = (dur, a1)"
    by (cases "if rs = [] then (True, ?m) else reportResults env rs ?m")
  have ok: "agent_ok a" "a_spool a = None" using assms(2) by (simp_all add: node_ok_def)
  have "agent_ok ?p2" using f(7) [OF ok(1)] by (simp add: agent_ok_def)
  then have "node_ok ?m" using mark_due_ok f(3) ok(2) by (simp add: node_ok_def)
  moreover have "triggers_ok (pc_pendingTriggers (a_cache ?m) @ ?ts)"
    using agent_okD(1) [OF ok(1)] f(1) [symmetric] by (auto simp: cache_ok_def triggers_ok_def)
  moreover have "a_ready ?m" "a_status ?m = NodeStatusActive" using assms(3,4) f(4,5) by simp_all
  ultimately have "node_trace (open_view ?f ?ts ?m)
      (report_seen env (map trig_key ?ts) rs ?m)
      (node_view ?f (finishTriggers (te_complete_ok env) (to_UnixMilli (te_drainNow env)) ?ts dur a1))"
    using r by (intro report_trace)
  moreover have "open_view ?f ?ts ?m = node_view ?f a"
    using f(1) [symmetric] f(2,4-6) unfolding open_view_def mark_due_view(1) by (simp add: node_view_def backlog_def split: option.split)
  moreover have "report_seen env ks rs ?m = report_seen env ks rs (mark_due (te_mark_ok env) (tp_due p) now a2)" for ks
    by (rule report_seen_cong) (simp_all add: mark_due_def)
  moreover have "finish_tick env now p rs a2 =
      finishTriggers (te_complete_ok env) (to_UnixMilli (te_drainNow env)) ?ts dur a1"
    using r by (simp add: finish_tick_def Let_def)
  ultimately show ?thesis by simp
qed

lemma tick_trace:
  assumes "node_ok a"
  shows "node_trace (node_view (te_format env) a) (tick_seen env a) (node_view (te_format env) (agent_step (ETick env) a))"
proof (cases "a_ready a \<and> a_status a = NodeStatusActive")
  case False
  then show ?thesis by (auto simp: tick_seen_def scheduler_tick_def node_trace.nil)
next
  case True
  then have g: "a_ready a" "a_status a = NodeStatusActive" by simp_all
  have ok: "agent_ok a" "a_spool a = None" using assms by (simp_all add: node_ok_def)
  show ?thesis
    using g
  proof (cases rule: tick_cases [where env = env])
    case paused
    let ?a = "noteBindingPause (tick_now env a) (snd (binding_paused env a))"
    have nb: "node_view (te_format env) ?a = node_view (te_format env) a" "agent_ok ?a" "a_spool ?a = None"
      "a_ready ?a" "a_status ?a = NodeStatusActive"
      using ok g by (simp_all add: noteBindingPause_def node_view_def backlog_def agent_ok_def split: option.split)
    have "drained env ?a = drained env (snd (binding_paused env a))"
      by (rule drained_cong) (simp_all add: noteBindingPause_def)
    with paused g drain_trace [OF nb(2,4,5), of env] show ?thesis
      by (simp add: tick_seen_def nb(1) drain_unspooled [OF nb(3)])
  next
    case (idle p a2)
    note f = planned_fields [OF idle(2)]
    have "node_view (te_format env) a2 = node_view (te_format env) a"
      using f(1,2,4-6) idle(4) by (simp add: node_view_def backlog_def split: option.split)
    with idle g ok drain_trace [OF f(7) [OF ok(1)], of env] show ?thesis
      by (simp add: tick_seen_def f(4,5) drain_unspooled f(3))
  next
    case (panic p a2)
    with g show ?thesis by (auto simp: tick_seen_def node_trace.nil)
  next
    case (work p a2 rs)
    with g finish_tick_trace [OF work(2) assms g, of rs "tick_now env a"] show ?thesis by (auto simp: tick_seen_def)
  qed
qed

lemma report_spool: "a_spool a = None \<Longrightarrow> a_spool (snd (reportResults env rs a)) = None"
  by (auto simp: reportResults_def reportFallback_def split: option.split sum.split)

lemma finishTriggers_spool [simp]: "a_spool (finishTriggers b t ts dur a) = a_spool a"
  by (simp add: finishTriggers_def Let_def split: option.split)

lemma finish_tick_spool: "a_spool a = None \<Longrightarrow> a_spool (finish_tick env now p rs a) = None"
  by (auto simp: finish_tick_def Let_def case_prod_beta report_spool)

lemma tick_spool:
  assumes "a_spool a = None"
  shows "a_spool (agent_step (ETick env) a) = None"
proof (cases "a_ready a \<and> a_status a = NodeStatusActive")
  case True
  then have "a_ready a" "a_status a = NodeStatusActive" by simp_all
  then show ?thesis
  proof (cases rule: tick_cases [where env = env])
    case paused
    then show ?thesis using assms by (simp add: drain_unspooled noteBindingPause_def)
  next
    case (idle p a2)
    then show ?thesis using assms planned_fields(3) [OF idle(2)] by (simp add: drain_unspooled)
  next
    case (work p a2 rs)
    then show ?thesis using assms planned_fields(3) [OF work(2)] by (simp add: finish_tick_spool)
  qed (use assms in simp)
qed (use assms in \<open>auto simp: scheduler_tick_def\<close>)

subsection \<open>The heartbeat\<close>

lemma offer_does:
  assumes "takes_on ks (a_cache a) (a_cache b)" "cache_ok (a_cache b)" "backlog f b = backlog f a"
    and "a_ready b = a_ready a" "a_status b = a_status a"
  shows "node_does (node_view f a) (Offer ks) (node_view f b)"
proof -
  obtain taken where t: "subseq taken ks"
    "map trig_key (pc_pendingTriggers (a_cache b)) = map trig_key (pc_pendingTriggers (a_cache a)) @ taken"
    using assms(1) by (auto simp: takes_on_def)
  have "todo_ok (nv_todo (node_view f a) @ taken)" using todo_ok_cache [OF assms(2)] by (simp add: t(2) [symmetric])
  from node_does.offer [OF t(1) this] have "node_does (node_view f a) (Offer ks) ((node_view f a)\<lparr>nv_todo := nv_todo (node_view f a) @ taken\<rparr>)" .
  moreover have "(node_view f a)\<lparr>nv_todo := nv_todo (node_view f a) @ taken\<rparr> = node_view f b"
    using assms(3-5) t(2) by (simp add: node_view_def)
  ultimately show ?thesis by simp
qed

lemma restore_again_fields:
  assumes "agent_ok a"
  shows "takes_on (restore_offers a) (a_cache a) (a_cache (restore_again env a))"
    "backlog f (restore_again env a) = backlog f a" "a_spool (restore_again env a) = a_spool a"
    "a_nodeID (restore_again env a) = a_nodeID a"
proof -
  have "takes_on (map trig_key (agentTriggers (fst (PendingTriggers d)))) c
      (snd (queueTriggers c (agentTriggers (fst (PendingTriggers d)))))" for d c
    by (rule queueTriggers_takes_on)
  then show "takes_on (restore_offers a) (a_cache a) (a_cache (restore_again env a))"
    by (auto simp: restore_again_def restorePendingTriggers_def restore_offers_def case_prod_beta takes_on_refl split: option.split)
  show "backlog f (restore_again env a) = backlog f a"
    by (auto simp: restore_again_def restorePendingTriggers_def backlog_def case_prod_beta split: option.split)
  show "a_spool (restore_again env a) = a_spool a" "a_nodeID (restore_again env a) = a_nodeID a"
    by (auto simp: restore_again_def restorePendingTriggers_def case_prod_beta split: option.split)
qed

lemma sync_assignment_fields:
  assumes "agent_ok a"
  shows "pc_pendingTriggers (a_cache (sync_assignment env resp a)) = pc_pendingTriggers (a_cache a)"
    "backlog f (sync_assignment env resp a) = backlog f a" "a_spool (sync_assignment env resp a) = a_spool a"
    "a_nodeID (sync_assignment env resp a) = a_nodeID a"
proof -
  obtain b a1 where p: "persist_assignment env (hb_ProbeHash resp) (hb_Probes resp) a = (b, a1)"
    by (cases "persist_assignment env (hb_ProbeHash resp) (hb_Probes resp) a")
  have f: "a_cache a1 = a_cache a" "a_spool a1 = a_spool a" "a_nodeID a1 = a_nodeID a"
    using p by (auto simp: persist_assignment_def split: option.splits sum.splits)
  have bl: "backlog f a1 = backlog f a"
  proof (cases "a_store a")
    case (Some d)
    with p SaveAssignment_backlog [OF agent_okD(2) [OF assms Some]] show ?thesis
      by (auto simp: persist_assignment_def backlog_def attempt_Inr split: sum.splits)
  qed (use p in \<open>auto simp: persist_assignment_def\<close>)
  show "pc_pendingTriggers (a_cache (sync_assignment env resp a)) = pc_pendingTriggers (a_cache a)"
    using f(1) by (auto simp: sync_assignment_def p Let_def staggerUnstarted_def replaceAssignment_def
        replaceAssignmentKeepingHash_def replaceAssignmentLocked_def)
  show "backlog f (sync_assignment env resp a) = backlog f a"
    using bl by (auto simp: sync_assignment_def p Let_def intro: trans [OF backlog_cong])
  show "a_spool (sync_assignment env resp a) = a_spool a" "a_nodeID (sync_assignment env resp a) = a_nodeID a"
    using f by (simp_all add: sync_assignment_def p Let_def)
qed

lemma events_fields:
  assumes "agent_ok a"
  shows "takes_on (event_offers evs) (a_cache a) (a_cache (agent_applyTriggeredEvents ok t evs a))"
    "backlog f (agent_applyTriggeredEvents ok t evs a) = backlog f a"
    "a_spool (agent_applyTriggeredEvents ok t evs a) = a_spool a"
proof -
  have "takes_on (event_offers evs) (a_cache a) (a_cache (agent_applyTriggeredEvents ok t evs a))
    \<and> backlog f (agent_applyTriggeredEvents ok t evs a) = backlog f a"
  proof (cases "a_store a")
    case None
    then show ?thesis using applyTriggeredEvents_takes_on by (simp add: agent_applyTriggeredEvents_def backlog_def)
  next
    case (Some d)
    obtain d' c' where r: "fold (apply_event ok t (a_nodeID a)) (enumerate 0 evs) (d, a_cache a) = (d', c')" by fastforce
    from apply_events_refine [OF agent_okD(2) [OF assms Some] r, of f] Some show ?thesis
      by (simp add: agent_applyTriggeredEvents_def backlog_def r)
  qed
  then show "takes_on (event_offers evs) (a_cache a) (a_cache (agent_applyTriggeredEvents ok t evs a))"
    "backlog f (agent_applyTriggeredEvents ok t evs a) = backlog f a" by simp_all
  show "a_spool (agent_applyTriggeredEvents ok t evs a) = a_spool a"
    by (simp add: agent_applyTriggeredEvents_def case_prod_beta split: option.split)
qed

lemma apply_response_fields:
  assumes "agent_ok a"
  shows "takes_on (event_offers (hb_Events resp)) (a_cache a) (a_cache (apply_response env resp s t a))"
    "backlog f (apply_response env resp s t a) = backlog f a" "a_spool (apply_response env resp s t a) = a_spool a"
proof -
  let ?c = "hb_NodeStatus resp \<noteq> []"
  define a0 where "a0 = (if ?c then a\<lparr>a_status := hb_NodeStatus resp\<rparr> else a)"
  define a1 where "a1 = (if hb_HeartbeatIntervalSecs resp > 0
    then a0\<lparr>a_interval := i64 (hb_HeartbeatIntervalSecs resp * second)\<rparr> else a0)"
  define a2 where "a2 = sync_clock env resp s t a1"
  define a3 where "a3 = sync_assignment env resp a2"
  define a4 where "a4 = (if hb_Events resp \<noteq> []
    then agent_applyTriggeredEvents (be_event_ok env) (be_nowMS env) (hb_Events resp) a3 else a3)"
  have r: "apply_response env resp s t a = (if ?c then a4\<lparr>a_ready := True\<rparr> else a4)"
    unfolding apply_response_def Let_def a0_def a1_def a2_def a3_def a4_def ..
  have e2: "a_cache a2 = a_cache a" "a_store a2 = a_store a" "a_spool a2 = a_spool a" "a_nodeID a2 = a_nodeID a"
    by (simp_all add: a2_def a1_def a0_def)
  have ok2: "agent_ok a2" using assms e2 by (simp add: agent_ok_def)
  note s = sync_assignment_fields [OF ok2, where env = env and resp = resp, folded a3_def]
  have ok3: "agent_ok a3" unfolding a3_def by (rule sync_assignment_ok [OF ok2])
  note v = events_fields [OF ok3, where evs = "hb_Events resp" and ok = "be_event_ok env" and t = "be_nowMS env"]
  have "takes_on (event_offers (hb_Events resp)) (a_cache a3) (a_cache a4) \<and> backlog f a4 = backlog f a3 \<and> a_spool a4 = a_spool a3"
    using v takes_on_refl [of "a_cache a3" "a_cache a3"] by (simp add: a4_def)
  moreover have "backlog f a2 = backlog f a" by (rule backlog_cong) (simp_all add: e2)
  ultimately show "takes_on (event_offers (hb_Events resp)) (a_cache a) (a_cache (apply_response env resp s t a))"
    "backlog f (apply_response env resp s t a) = backlog f a" "a_spool (apply_response env resp s t a) = a_spool a"
    unfolding r using s e2 by (auto simp: takes_on_def backlog_def split: option.splits)
qed

lemma apply_response_gate:
  "a_ready (apply_response env resp s t a) \<longleftrightarrow> a_ready a \<or> hb_NodeStatus resp \<noteq> []"
  "a_status (apply_response env resp s t a) = (if hb_NodeStatus resp \<noteq> [] then hb_NodeStatus resp else a_status a)"
  by (auto simp: apply_response_def Let_def)

lemma beat_trace:
  assumes "node_ok a"
  shows "node_trace (node_view f a) (beat_seen env a) (node_view f (snd (beat env a)))"
proof -
  have ok: "agent_ok a" using assms by (simp add: node_ok_def)
  let ?r = "restore_again env a"
  have okr: "agent_ok ?r" by (rule restore_again_ok [OF ok])
  have first: "node_does (node_view f a) (Offer (restore_offers a)) (node_view f ?r)"
    by (rule offer_does) (use restore_again_fields [OF ok] agent_okD(1) [OF okr] in simp_all)
  obtain resp a1 where e: "exchange env ?r = (resp, a1)" by (cases "exchange env ?r")
  have a1: "a_cache a1 = a_cache ?r" "a_store a1 = a_store ?r" "a_spool a1 = a_spool ?r" "a_ready a1 = a_ready ?r"
    "a_status a1 = a_status ?r" "a_nodeID a1 = a_nodeID ?r"
    using exchange_fields [of env ?r] by (simp_all add: e)
  have ok1: "agent_ok a1" using okr a1 by (simp add: agent_ok_def)
  have "backlog f a1 = backlog f ?r" by (rule backlog_cong) (simp_all only: a1)
  then have v1: "node_view f a1 = node_view f ?r" using a1(1,4,5) by (intro node_view_eqI) simp_all
  show ?thesis
  proof (cases resp)
    case None
    with first v1 show ?thesis by (auto simp: beat_seen_def beat_def e node_trace_simps)
  next
    case (Some x)
    obtain rp s t where x: "x = (rp, s, t)" by (rule prod_cases3)
    let ?b = "apply_response env rp s t a1"
    let ?u = "(node_view f a1)\<lparr>nv_todo := nv_todo (node_view f ?b)\<rparr>"
    note r = apply_response_fields [OF ok1, where resp = rp and env = env and s = s and t = t]
    have bl: "backlog f (?b\<lparr>a_ready := a_ready a1, a_status := a_status a1\<rparr>) = backlog f a1"
      by (rule trans [OF backlog_cong r(2)]) simp_all
    have "node_does (node_view f a1) (Offer (event_offers (hb_Events rp))) (node_view f (?b\<lparr>a_ready := a_ready a1, a_status := a_status a1\<rparr>))"
      by (rule offer_does) (use r(1) bl agent_okD(1) [OF apply_response_ok [OF ok1]] in simp_all)
    moreover have "node_view f (?b\<lparr>a_ready := a_ready a1, a_status := a_status a1\<rparr>) = ?u"
      using bl by (simp add: node_view_def)
    ultimately have offer: "node_does (node_view f a1) (Offer (event_offers (hb_Events rp))) ?u" by simp
    have "node_trace ?u (if hb_NodeStatus rp \<noteq> [] then [Confirm (hb_NodeStatus rp)] else []) (node_view f ?b)"
      using r(2) [of f] apply_response_gate [of env rp s t a1]
      by (auto simp: node_trace_simps node_does_simps node_view_def)
    then have "node_trace (node_view f a1) (Offer (event_offers (hb_Events rp)) #
        (if hb_NodeStatus rp \<noteq> [] then [Confirm (hb_NodeStatus rp)] else [])) (node_view f ?b)"
      by (rule node_trace.step [OF offer])
    from node_trace.step [OF first this [unfolded v1]] show ?thesis by (simp add: beat_seen_def beat_def e Some x)
  qed
qed

subsection \<open>Maintenance\<close>

lemma maintenance_view:
  assumes "node_ok a"
  shows "node_view f (snd (maintenance_round env a)) = node_view f a"
proof (rule node_view_eqI)
  show "backlog f (snd (maintenance_round env a)) = backlog f a"
  proof (cases "a_store a")
    case (Some d)
    have ok: "store_ok d" using assms agent_okD(2) [OF _ Some] by (simp add: node_ok_def)
    from keeps_backlog [OF ok Maintain_keeps [OF ok]] Some show ?thesis
      by (simp add: maintenance_round_def backlog_def case_prod_beta)
  qed (simp add: maintenance_round_def backlog_def)
qed (simp_all add: maintenance_round_def case_prod_beta split: option.split)

section \<open>The node implements its specification\<close>

text \<open>The local state a process may find: no database, or one that any earlier calls left.\<close>

definition unspooled :: "storeOp list option \<Rightarrow> storage" where
  "unspooled h = (case h of None \<Rightarrow> Direct | Some ops \<Rightarrow> Database ops)"

lemma booted_node_ok: "node_ok (booted base (unspooled h) load_ok read_ok now)"
proof -
  have "a_spool (start_agent load_ok read_ok now a) = a_spool a" for a
    by (auto simp: start_agent_def restore_local_def restorePendingTriggers_def Let_def case_prod_beta split: option.split)
  then have "a_spool (booted base (unspooled h) load_ok read_ok now) = None"
    by (auto simp: booted_def unspooled_def Let_def split: option.split)
  then show ?thesis by (simp add: node_ok_def booted_ok)
qed

lemma beat_spool:
  assumes "agent_ok a"
  shows "a_spool (snd (beat env a)) = a_spool a"
proof -
  let ?r = "restore_again env a"
  obtain resp a1 where e: "exchange env ?r = (resp, a1)" by (cases "exchange env ?r")
  have ok1: "agent_ok a1" using exchange_ok [OF restore_again_ok [OF assms], of env env] by (simp add: e)
  have "a_spool a1 = a_spool a"
    using exchange_fields(3) [of env ?r] restore_again_fields(3) [OF assms] by (simp add: e)
  then show ?thesis by (simp add: beat_def e apply_response_fields(3) [OF ok1] case_prod_beta split: option.split)
qed

lemma node_ok_step: "node_ok a \<Longrightarrow> node_ok (agent_step e a)"
proof (cases e)
  case (ETick env)
  assume "node_ok a"
  then show ?thesis using agent.inv_step [of a e] tick_spool [of a env] by (simp only: node_ok_def ETick)
next
  case (EBeat env)
  assume "node_ok a"
  then show ?thesis using agent.inv_step [of a e] beat_spool [of a env] by (simp add: node_ok_def EBeat)
next
  case (EMaintain env)
  assume "node_ok a"
  then show ?thesis using agent.inv_step [of a e]
    by (simp add: node_ok_def EMaintain maintenance_round_def case_prod_beta split: option.split)
qed

interpretation node: node_refinement "booted base (unspooled h) load_ok read_ok now" "\<lambda>e. agent_step (at_format f e)" node_ok
  "node_view f" "\<lambda>e. node_seen (at_format f e)"
  for base h load_ok read_ok now f
proof
  show "node_ok (booted base (unspooled h) load_ok read_ok now)" by (rule booted_node_ok)
  fix a e
  assume ok: "node_ok a"
  then show "node_ok (agent_step (at_format f e) a)" by (rule node_ok_step)
  show "node_trace (node_view f a) (node_seen (at_format f e) a) (node_view f (agent_step (at_format f e) a))"
  proof (cases e)
    case (ETick env)
    with tick_trace [OF ok, of "env\<lparr>te_format := f\<rparr>"] show ?thesis by simp
  next
    case (EBeat env)
    with beat_trace [OF ok] show ?thesis by simp
  next
    case (EMaintain env)
    with maintenance_view [OF ok] show ?thesis by (simp add: node_trace.nil)
  qed
qed

text \<open>C1. The node implements its specification. From any start, on a fresh or an inherited database or on none,
  and along any history of ticks, heartbeats and maintenance rounds with any failures in them, the agent goes
  through a run of the abstract node: a status counts once the server confirmed it; of the triggers offered some are
  taken on, each once, in order and up to the limit; only under a confirmed active status the oldest triggers are
  settled in one step with the results that are recorded, or stay on the list, and the oldest results are delivered;
  nothing else happens to the confirmed status, the open triggers and the undelivered results.\<close>

theorem node_refines_specification:
  "node_trace (node_view f (booted base (unspooled h) load_ok read_ok now))
     (seen_along (\<lambda>e. node_seen (at_format f e)) (\<lambda>e. agent_step (at_format f e)) evs (booted base (unspooled h) load_ok read_ok now))
     (node_view f (fold (\<lambda>e. agent_step (at_format f e)) evs (booted base (unspooled h) load_ok read_ok now)))"
  by (rule node.run_trace)



text \<open>A tick that settles the trigger of the example and records the results of all its checks.\<close>

lemma busy_tick_seen:
  "map (\<lambda>x. case x of Settle ks rs \<Rightarrow> (ks, length rs) | Deliver rs \<Rightarrow> ([], length rs) | _ \<Rightarrow> ([], 0))
     (node_seen (ETick (demo_tick\<lparr>te_post := \<lambda>_ rs. Some \<lparr>rr_SpecVersion = 1, rr_Accepted = int (length rs), rr_Rejected = 0,
        rr_Results = [], rr_NodeStatus = []\<rparr>\<rparr>)) (busy_agent\<lparr>a_ready := True\<rparr>)) = [([(''a'', ''x'')], 8), ([], 8)]"
  by code_simp

end
