(* ===== verification/Node_Overlap.thy ===== *)
theory Node_Overlap
  imports Node_Spec
begin

text \<open>
  The loops of the agent as they overlap. The scheduler, the heartbeat and the maintenance run at the same time and
  share the cache and the database; a heartbeat may bring a new assignment or new triggers while the checks of a
  tick run. Here each loop is a sequence of phases, cut where the code leaves a lock or a transaction, and the phases of
  different loops follow each other in any order. Run one loop at a time, the phases are the rounds of \<open>Agent\<close>. A drain
  of the results and a maintenance round are one phase each: no other loop touches undelivered results, and what
  others may do between the transactions of a maintenance round is the subject of \<open>Store_Rollups\<close>.
\<close>

section \<open>The loops as phases\<close>

text \<open>Where the scheduler and the heartbeat are in their current round.\<close>

datatype tickPhase =
    Waiting
  | Taken tickPlan gotime
  | Ran tickPlan "WireResult list"
  | Reported tickPlan bool

datatype beatPhase =
    Quiet
  | Restored
  | Answered HeartbeatResponse gotime gotime
  | Applying HeartbeatResponse "(nat \<times> Event) list"

record overlap =
  ov_agent :: agent
  ov_tick :: tickPhase
  ov_beat :: beatPhase

text \<open>The scheduler: take the work of a tick, run its checks, report the results, finish the triggers.\<close>

definition tick_take :: "tickEnv \<Rightarrow> agent \<Rightarrow> tickPhase \<times> agent" where
  "tick_take env a =
     (if \<not> a_ready a \<or> a_status a \<noteq> NodeStatusActive then (Waiting, a)
      else if fst (binding_paused env a)
      then (Waiting, drainDelivery env (noteBindingPause (tick_now env a) (snd (binding_paused env a))))
      else (case planned env a of (p, a2) \<Rightarrow>
              if tp_due p = [] \<and> tp_triggers p = [] then (Waiting, drainDelivery env a2) else (Taken p (tick_now env a), a2)))"

text \<open>A trigger's probe is looked up when its checks start. A panic ends the process, and nothing follows.\<close>

definition tick_run :: "tickEnv \<Rightarrow> tickPlan \<Rightarrow> gotime \<Rightarrow> agent \<Rightarrow> tickPhase \<times> agent" where
  "tick_run env p now a =
     (case execute_plan env a (p\<lparr>tp_cache := a_cache a\<rparr>) of
        None \<Rightarrow> (Taken p now, a)
      | Some rs \<Rightarrow> (Ran p rs, mark_due (te_mark_ok env) (tp_due p) now
                      (a\<lparr>a_path := record_path (te_recordedAt env) rs (a_path a)\<rparr>)))"

definition tick_report :: "tickEnv \<Rightarrow> WireResult list \<Rightarrow> agent \<Rightarrow> bool \<times> agent" where
  "tick_report env rs a = (if rs = [] then (True, a) else reportResults env rs a)"

definition tick_finish :: "tickEnv \<Rightarrow> tickPlan \<Rightarrow> bool \<Rightarrow> agent \<Rightarrow> agent" where
  "tick_finish env p durable a =
     finishTriggers (te_complete_ok env) (to_UnixMilli (te_drainNow env)) (tp_triggers p) durable a"

text \<open>The heartbeat: read the durable queue if that is still to do, send, take the answer over up to the assignment, then
  the events (each is a transaction of its own; without a database they are one), then open the gate.\<close>

definition sync_response :: "beatEnv \<Rightarrow> HeartbeatResponse \<Rightarrow> gotime \<Rightarrow> gotime \<Rightarrow> agent \<Rightarrow> agent" where
  "sync_response env resp sentAt receivedAt a =
     (let a = (if hb_NodeStatus resp \<noteq> [] then a\<lparr>a_status := hb_NodeStatus resp\<rparr> else a);
          a = (if hb_HeartbeatIntervalSecs resp > 0
               then a\<lparr>a_interval := i64 (hb_HeartbeatIntervalSecs resp * second)\<rparr> else a)
      in sync_assignment env resp (sync_clock env resp sentAt receivedAt a))"

definition beat_event :: "beatEnv \<Rightarrow> (nat \<times> Event) list \<Rightarrow> agent \<Rightarrow> (nat \<times> Event) list \<times> agent" where
  "beat_event env xs a =
     (case a_store a of
        None \<Rightarrow> ([], a\<lparr>a_cache := applyTriggeredEvents (a_cache a) (map snd xs)\<rparr>)
      | Some d \<Rightarrow>
          (case apply_event (be_event_ok env) (be_nowMS env) (a_nodeID a) (hd xs) (d, a_cache a) of
             (d', c') \<Rightarrow> (tl xs, a\<lparr>a_store := Some d', a_cache := c'\<rparr>)))"

definition open_gate :: "HeartbeatResponse \<Rightarrow> agent \<Rightarrow> agent" where
  "open_gate resp a = (if hb_NodeStatus resp \<noteq> [] then a\<lparr>a_ready := True\<rparr> else a)"

datatype overlapStep = STick tickEnv | SBeat beatEnv | SMaintain maintainEnv

text \<open>The next phase of one of the loops. Which loop moves, and with what outcome, is up to the schedule.\<close>

fun overlap_step :: "overlapStep \<Rightarrow> overlap \<Rightarrow> overlap" where
  "overlap_step (STick env) s =
     (case ov_tick s of
        Waiting \<Rightarrow> (case tick_take env (ov_agent s) of (ph, a) \<Rightarrow> s\<lparr>ov_tick := ph, ov_agent := a\<rparr>)
      | Taken p now \<Rightarrow> (case tick_run env p now (ov_agent s) of (ph, a) \<Rightarrow> s\<lparr>ov_tick := ph, ov_agent := a\<rparr>)
      | Ran p rs \<Rightarrow> (case tick_report env rs (ov_agent s) of (b, a) \<Rightarrow> s\<lparr>ov_tick := Reported p b, ov_agent := a\<rparr>)
      | Reported p b \<Rightarrow> s\<lparr>ov_tick := Waiting, ov_agent := tick_finish env p b (ov_agent s)\<rparr>)"
| "overlap_step (SBeat env) s =
     (case ov_beat s of
        Quiet \<Rightarrow> s\<lparr>ov_beat := Restored, ov_agent := restore_again env (ov_agent s)\<rparr>
      | Restored \<Rightarrow>
          (case exchange env (ov_agent s) of
             (None, a) \<Rightarrow> s\<lparr>ov_beat := Quiet, ov_agent := a\<rparr>
           | (Some (resp, sentAt, receivedAt), a) \<Rightarrow> s\<lparr>ov_beat := Answered resp sentAt receivedAt, ov_agent := a\<rparr>)
      | Answered resp sentAt receivedAt \<Rightarrow>
          s\<lparr>ov_beat := Applying resp (enumerate 0 (hb_Events resp)), ov_agent := sync_response env resp sentAt receivedAt (ov_agent s)\<rparr>
      | Applying resp xs \<Rightarrow>
          if xs = [] then s\<lparr>ov_beat := Quiet, ov_agent := open_gate resp (ov_agent s)\<rparr>
          else (case beat_event env xs (ov_agent s) of (ys, a) \<Rightarrow> s\<lparr>ov_beat := Applying resp ys, ov_agent := a\<rparr>))"
| "overlap_step (SMaintain env) s = s\<lparr>ov_agent := snd (maintenance_round env (ov_agent s))\<rparr>"

text \<open>What is seen of a phase. Triggers are settled when they are finished, results when they are reported.\<close>

fun overlap_seen :: "overlapStep \<Rightarrow> overlap \<Rightarrow> nodeAction list" where
  "overlap_seen (STick env) s =
     (case ov_tick s of
        Waiting \<Rightarrow>
          if \<not> a_ready (ov_agent s) \<or> a_status (ov_agent s) \<noteq> NodeStatusActive then []
          else if fst (binding_paused env (ov_agent s)) then [Deliver (drained env (snd (binding_paused env (ov_agent s))))]
          else (case planned env (ov_agent s) of (p, a2) \<Rightarrow>
                  if tp_due p = [] \<and> tp_triggers p = [] then [Deliver (drained env a2)] else [])
      | Taken p now \<Rightarrow> []
      | Ran p rs \<Rightarrow> report_seen env [] rs (ov_agent s)
      | Reported p b \<Rightarrow>
          if tp_triggers p = [] then []
          else if b then [Settle (map trig_key (tp_triggers p)) []] else [Retry (map trig_key (tp_triggers p))])"
| "overlap_seen e s = []"

fun overlap_format :: "(gotime \<Rightarrow> string) \<Rightarrow> overlapStep \<Rightarrow> overlapStep" where
  "overlap_format format (STick env) = STick (env\<lparr>te_format := format\<rparr>)"
| "overlap_format format e = e"

section \<open>Without overlap the phases are the rounds\<close>

definition resting :: "agent \<Rightarrow> overlap" where
  "resting a = \<lparr>ov_agent = a, ov_tick = Waiting, ov_beat = Quiet\<rparr>"

lemma planned_cache: "planned env a = (p, a2) \<Longrightarrow> p\<lparr>tp_cache := a_cache a2\<rparr> = p"
  by (auto simp: planned_def Let_def)

text \<open>The four phases of a tick, taken one after the other, are the tick of the sequential model; a tick with
  nothing to run is over after its first phase.\<close>

lemma tick_phases:
  assumes "scheduler_tick env a = Some a'"
  shows "\<exists>n\<le>4. (overlap_step (STick env) ^^ n) (resting a) = resting a'"
proof (cases "a_ready a \<and> a_status a = NodeStatusActive")
  case False
  with assms have "overlap_step (STick env) (resting a) = resting a'"
    by (auto simp: scheduler_tick_def resting_def tick_take_def split: if_splits)
  then show ?thesis by (intro exI [of _ 1]) simp
next
  case True
  then have g: "a_ready a" "a_status a = NodeStatusActive" by simp_all
  have a': "agent_step (ETick env) a = a'" using assms by simp
  show ?thesis
    using g
  proof (cases rule: tick_cases [where env = env])
    case paused
    then have "overlap_step (STick env) (resting a) = resting a'" using g a' by (auto simp: resting_def tick_take_def)
    then show ?thesis by (intro exI [of _ 1]) simp
  next
    case (idle p a2)
    then have "overlap_step (STick env) (resting a) = resting a'" using g a' by (auto simp: resting_def tick_take_def)
    then show ?thesis by (intro exI [of _ 1]) simp
  next
    case (panic p a2)
    with assms g have False
      by (auto simp: scheduler_tick_def runDueProbes_def Let_def planned_def tick_now_def split: prod.splits bool.splits)
    then show ?thesis ..
  next
    case (work p a2 rs)
    let ?m = "mark_due (te_mark_ok env) (tp_due p) (tick_now env a) (a2\<lparr>a_path := record_path (te_recordedAt env) rs (a_path a2)\<rparr>)"
    have 1: "overlap_step (STick env) (resting a) = \<lparr>ov_agent = a2, ov_tick = Taken p (tick_now env a), ov_beat = Quiet\<rparr>"
      using work(1-3) g by (auto simp: resting_def tick_take_def)
    have 2: "overlap_step (STick env) \<lparr>ov_agent = a2, ov_tick = Taken p (tick_now env a), ov_beat = Quiet\<rparr> =
        \<lparr>ov_agent = ?m, ov_tick = Ran p rs, ov_beat = Quiet\<rparr>"
      using work(4) by (simp add: tick_run_def planned_cache [OF work(2)])
    obtain b a3 where r: "tick_report env rs ?m = (b, a3)" by (cases "tick_report env rs ?m")
    have "finish_tick env (tick_now env a) p rs a2 = tick_finish env p b a3"
      using r by (simp add: finish_tick_def tick_finish_def tick_report_def Let_def)
    with 1 2 r work(5) a' have "(overlap_step (STick env) ^^ 4) (resting a) = resting a'"
      by (simp add: numeral_eq_Suc resting_def)
    then show ?thesis by blast
  qed
qed

lemma event_phases:
  assumes "a_store a = Some d" "fold (apply_event (be_event_ok env) (be_nowMS env) (a_nodeID a)) xs (d, a_cache a) = (d', c')"
  shows "(overlap_step (SBeat env) ^^ length xs) \<lparr>ov_agent = a, ov_tick = ph, ov_beat = Applying resp xs\<rparr> =
    \<lparr>ov_agent = a\<lparr>a_store := Some d', a_cache := c'\<rparr>, ov_tick = ph, ov_beat = Applying resp []\<rparr>"
  using assms
proof (induction xs arbitrary: a d)
  case Nil
  then show ?case by simp
next
  case (Cons x xs)
  obtain d1 c1 where s: "apply_event (be_event_ok env) (be_nowMS env) (a_nodeID a) x (d, a_cache a) = (d1, c1)" by fastforce
  let ?a = "a\<lparr>a_store := Some d1, a_cache := c1\<rparr>"
  have "(overlap_step (SBeat env) ^^ length xs) \<lparr>ov_agent = ?a, ov_tick = ph, ov_beat = Applying resp xs\<rparr> =
    \<lparr>ov_agent = ?a\<lparr>a_store := Some d', a_cache := c'\<rparr>, ov_tick = ph, ov_beat = Applying resp []\<rparr>"
    by (rule Cons.IH) (use Cons.prems(2) s in simp_all)
  moreover have "overlap_step (SBeat env) \<lparr>ov_agent = a, ov_tick = ph, ov_beat = Applying resp (x # xs)\<rparr> =
      \<lparr>ov_agent = ?a, ov_tick = ph, ov_beat = Applying resp xs\<rparr>"
    using Cons.prems(1) s by (simp add: beat_event_def)
  ultimately show ?case by (simp add: funpow_swap1 del: overlap_step.simps)
qed

lemma beat_phases: "\<exists>n. (overlap_step (SBeat env) ^^ n) (resting a) = resting (snd (beat env a))"
proof -
  let ?r = "restore_again env a" and ?st = "overlap_step (SBeat env)"
  obtain o1 a1 where e: "exchange env ?r = (o1, a1)" by (cases "exchange env ?r")
  have 1: "?st (resting a) = \<lparr>ov_agent = ?r, ov_tick = Waiting, ov_beat = Restored\<rparr>" by (simp add: resting_def)
  show ?thesis
  proof (cases o1)
    case None
    then have "(?st ^^ 2) (resting a) = resting (snd (beat env a))"
      by (simp add: 1 e numeral_eq_Suc beat_def del: overlap_step.simps) (simp add: e resting_def None)
    then show ?thesis ..
  next
    case (Some x)
    obtain resp s t where x: "x = (resp, s, t)" by (rule prod_cases3)
    let ?y = "sync_response env resp s t a1" and ?evs = "enumerate 0 (hb_Events resp)"
    have 2: "(?st ^^ 3) (resting a) = \<lparr>ov_agent = ?y, ov_tick = Waiting, ov_beat = Applying resp ?evs\<rparr>"
      by (simp add: 1 numeral_eq_Suc del: overlap_step.simps) (simp add: e Some x)
    obtain k z where k: "(?st ^^ k) \<lparr>ov_agent = ?y, ov_tick = Waiting, ov_beat = Applying resp ?evs\<rparr> =
        \<lparr>ov_agent = z, ov_tick = Waiting, ov_beat = Applying resp []\<rparr>"
      "z = (if hb_Events resp \<noteq> [] then agent_applyTriggeredEvents (be_event_ok env) (be_nowMS env) (hb_Events resp) ?y else ?y)"
    proof (cases "hb_Events resp = []")
      case True
      with that [of 0 ?y] show thesis by simp
    next
      case False
      show thesis
      proof (cases "a_store ?y")
        case None
        with False that [of 1] show thesis
          by (auto simp: beat_event_def agent_applyTriggeredEvents_def enumerate_eq_zip)
      next
        case (Some d)
        obtain d' c' where f: "fold (apply_event (be_event_ok env) (be_nowMS env) (a_nodeID ?y)) ?evs (d, a_cache ?y) = (d', c')" by fastforce
        show thesis
          by (rule that [OF event_phases [OF Some f]]) (use False Some f in \<open>simp add: agent_applyTriggeredEvents_def\<close>)
      qed
    qed
    have 3: "?st \<lparr>ov_agent = z, ov_tick = Waiting, ov_beat = Applying resp []\<rparr> = resting (open_gate resp z)" by (simp add: resting_def)
    have "open_gate resp z = apply_response env resp s t a1"
      by (simp add: k(2) open_gate_def sync_response_def apply_response_def Let_def)
    then have "(?st ^^ (1 + (k + 3))) (resting a) = resting (snd (beat env a))"
      unfolding funpow_add comp_apply 2 k(1) by (simp add: 3 beat_def e Some x del: overlap_step.simps)
    then show ?thesis ..
  qed
qed

section \<open>What a step moves\<close>

text \<open>The triggers the database holds as unfinished. Memory may forget one, when its queue is full; a restart
  reads it back from here.\<close>

definition durable_open :: "agent \<Rightarrow> (string \<times> string) set" where
  "durable_open a = (case a_store a of None \<Rightarrow> {} | Some d \<Rightarrow> pending_key ` set (db_pending d))"

definition queue_fine :: "agent \<Rightarrow> bool" where
  "queue_fine a = (case a_store a of None \<Rightarrow> True | Some d \<Rightarrow> queue_ok d)"

definition moves :: "(gotime \<Rightarrow> string) \<Rightarrow> nodeAction list \<Rightarrow> agent \<Rightarrow> agent \<Rightarrow> bool" where
  "moves f xs a a' \<longleftrightarrow> (node_ok a \<and> queue_fine a \<longrightarrow> node_ok a' \<and> queue_fine a' \<and>
     delivered xs @ backlog f a' = backlog f a @ recorded xs \<and> durable_open a \<subseteq> durable_open a' \<union> set (settled xs))"

lemma sums_append:
  "recorded (xs @ ys) = recorded xs @ recorded ys" "delivered (xs @ ys) = delivered xs @ delivered ys"
  "settled (xs @ ys) = settled xs @ settled ys"
  by (simp_all add: sums_def)

lemma moves_trans:
  assumes "moves f xs a b" "moves f ys b c"
  shows "moves f (xs @ ys) a c"
proof -
  have "delivered (xs @ ys) @ backlog f c = backlog f a @ recorded (xs @ ys)"
    if "delivered xs @ backlog f b = backlog f a @ recorded xs" "delivered ys @ backlog f c = backlog f b @ recorded ys"
    using that by (simp add: sums_append)
  with assms show ?thesis by (auto simp: moves_def sums_append)
qed

text \<open>A step that only touches what the node remembers outside the database and the queue of results.\<close>

lemma moves_memory:
  "a_store a' = a_store a \<Longrightarrow> a_nodeID a' = a_nodeID a \<Longrightarrow> (agent_ok a \<Longrightarrow> agent_ok a') \<Longrightarrow> a_spool a' = a_spool a \<Longrightarrow>
     moves f [] a a'"
  by (auto simp: moves_def node_ok_def queue_fine_def backlog_def durable_open_def sums_def split: option.splits)

text \<open>A transaction that keeps the undelivered results and the unfinished triggers.\<close>

lemma moves_store:
  assumes "a_store a = Some d" "a_store a' = Some d'" "agent_ok a \<Longrightarrow> agent_ok a'" "a_spool a' = a_spool a"
    and "store_ok d \<Longrightarrow> queue_ok d \<Longrightarrow> queue_ok d' \<and> pending_key ` set (db_pending d) \<subseteq> pending_key ` set (db_pending d')"
    and "agent_ok a \<Longrightarrow> backlog f a' = backlog f a"
  shows "moves f [] a a'"
  using assms agent_okD(2) [OF _ assms(1)]
  by (auto simp: moves_def node_ok_def queue_fine_def durable_open_def sums_def)

lemma drain_store_loop_tables:
  "db_pending (fst (snd (drain_store_loop fuel format origin post alive db_ok now i (out, d, dl)))) = db_pending d"
  "db_probes (fst (snd (drain_store_loop fuel format origin post alive db_ok now i (out, d, dl)))) = db_probes d"
  by (induction fuel arbitrary: i out d dl) (auto simp: Let_def split: option.split)

lemma drainStore_tables:
  "db_pending (fst (snd (drainStore format origin post alive db_ok now (d, dl)))) = db_pending d"
  "db_probes (fst (snd (drainStore format origin post alive db_ok now (d, dl)))) = db_probes d"
  by (simp_all add: drainStore_def drain_store_loop_tables del: drain_store_loop.simps)

lemma moves_drain: "moves (te_format env) [Deliver (drained env a)] a (drain_store env a)"
proof -
  have "queue_fine (drain_store env a) = queue_fine a" "durable_open (drain_store env a) = durable_open a"
    using drainStore_tables by (auto simp: drain_store_def queue_fine_def queue_ok_def durable_open_def case_prod_beta split: option.split)
  then show ?thesis
    using drain_store_ok [of a env] drain_backlog [of a env] by (auto simp: moves_def node_ok_def sums_def)
qed

lemma moves_drain_delivery: "node_ok a \<Longrightarrow> moves (te_format env) [Deliver (drained env a)] a (drainDelivery env a)"
  using moves_drain by (simp add: drain_unspooled node_ok_def)

lemma moves_mark_due: "moves f [] a (mark_due b due now a)"
proof (cases "a_store a")
  case None
  then show ?thesis by (intro moves_memory) (simp_all add: mark_due_def agent_ok_def)
next
  case (Some d)
  have p: "db_pending (MarkProbesRun ids t e) = db_pending e" for ids t e
    unfolding MarkProbesRun_def by (rule fold_same) simp
  show ?thesis
  proof (cases "due = [] \<or> \<not> b")
    case True
    then show ?thesis by (intro moves_memory) (auto simp: mark_due_def)
  next
    case False
    then have "mark_due b due now a = a\<lparr>a_store := Some (MarkProbesRun (map ps_ID due) now d)\<rparr>" by (simp add: mark_due_def Some)
    with moves_store [OF Some, of "mark_due b due now a" "MarkProbesRun (map ps_ID due) now d" f] show ?thesis
      using mark_due_ok [of a b due now] Some by (simp add: queue_ok_MarkProbesRun p backlog_def)
  qed
qed

lemma moves_report:
  assumes "node_ok a" "tick_report env rs a = (b, a')"
  shows "moves (te_format env) (report_seen env [] rs a) a a'"
proof -
  have ok: "agent_ok a" and sp: "a_spool a = None" using assms(1) by (simp_all add: node_ok_def)
  have idle: "moves f [] a a" for f by (rule moves_memory) simp_all
  consider (none) "rs = []" | (store) d where "rs \<noteq> []" "a_store a = Some d" "te_record_ok env"
    | (direct) "rs \<noteq> []" "\<And>d. a_store a = Some d \<Longrightarrow> \<not> te_record_ok env" by auto
  then show ?thesis
  proof cases
    case none
    with assms(2) idle show ?thesis by (auto simp: tick_report_def report_seen_def moves_def sums_def)
  next
    case (store d)
    let ?f = "te_format env" and ?t = "to_UnixMilli (te_drainNow env)"
    let ?new = "map (delivery_form (te_parse env) ?f ?t) (fresh_results (a_nodeID a) (known d) rs)"
    obtain su d' where r: "RecordResults (te_parse env) (a_nodeID a) ?t rs d = Inr (su, d')" "store_ok d'"
      "pending_queue ?f (a_nodeID a) d' = pending_queue ?f (a_nodeID a) d @ ?new"
      using RecordResults_queue [OF agent_okD(2) [OF ok store(2)], of "te_parse env" "a_nodeID a" ?t rs ?f] by blast
    let ?a = "a\<lparr>a_store := Some d'\<rparr>"
    have "agent_ok ?a" by (rule agent_ok_store [OF ok store(2) r(2) stored_hash_cong [OF RecordResults_meta [OF r(1)]]])
    then have "moves ?f [Settle [] ?new] a ?a"
      using store(2) r(3) sp RecordResults_tables [OF r(1)]
      by (auto simp: moves_def node_ok_def queue_fine_def backlog_def durable_open_def sums_def intro: queue_ok_cong)
    from moves_trans [OF this moves_drain [of env]] store r(1) assms(2) show ?thesis
      by (simp add: report_seen_def tick_report_def reportResults_def attempt_def Let_def commit_def)
  next
    case direct
    have "reportResults env rs a = (te_direct env rs \<noteq> None, a)"
      using direct sp by (auto simp: reportResults_def reportFallback_def attempt_def split: option.split)
    then have "a' = a" using assms(2) direct(1) by (simp add: tick_report_def)
    moreover have "report_seen env [] rs a = (if te_direct env rs \<noteq> None then [HandOver rs, Settle [] []] else [Retry []])"
      using direct by (auto simp: report_seen_def Let_def split: option.split)
    ultimately show ?thesis using idle by (auto simp: moves_def sums_def)
  qed
qed

lemma CompleteTriggers_open:
  "store_ok d \<Longrightarrow> CompleteTriggers origin t ks d = Inr (u, d') \<Longrightarrow>
     pending_key ` set (db_pending d) \<subseteq> pending_key ` set (db_pending d') \<union> set ks"
proof (induction ks arbitrary: d)
  case (Cons k ks)
  obtain p x where k: "k = (p, x)" by (cases k)
  obtain s d1 where c: "complete_one origin t (p, x) d = Inr ((), completeTriggerTx p x t d1)" "store_ok d1"
    "db_pending d1 = db_pending (drop_pending p x d)"
    by (rule complete_one_total [OF Cons.prems(1)])
  have "store_ok (completeTriggerTx p x t d1)" by (rule completeTriggerTx_ok [OF c(2)])
  with Cons.IH Cons.prems(2) c(1) k
  have "pending_key ` set (db_pending (completeTriggerTx p x t d1)) \<subseteq> pending_key ` set (db_pending d') \<union> set ks" by simp
  moreover have "pending_key ` set (db_pending d) \<subseteq> insert (p, x) (pending_key ` set (db_pending (completeTriggerTx p x t d1)))"
    using c(3) by (auto simp: completeTriggerTx_def drop_pending_def pending_key_def Let_def)
  ultimately show ?case unfolding k by (simp only: list.set) blast
qed simp

lemma moves_finish:
  "moves f (if tp_triggers p = [] then [] else if b then [Settle (map trig_key (tp_triggers p)) []] else [Retry (map trig_key (tp_triggers p))])
     a (tick_finish env p b a)"
proof (cases "tp_triggers p = [] \<or> \<not> b")
  case True
  have "moves f [] a (tick_finish env p b a)"
    by (rule moves_memory) (use True in \<open>auto simp: tick_finish_def finishTriggers_def agent_ok_cache cache_inv cache_hash agent_okD(1)\<close>)
  with True show ?thesis by (auto simp: moves_def sums_def)
next
  case False
  let ?ts = "tp_triggers p" and ?t = "to_UnixMilli (te_drainNow env)"
  let ?ks = "storeTriggers ?ts"
  have keys: "set (map trig_key ?ts) = set ?ks" by (simp add: storeTriggers_def trig_key_def)
  have bl: "backlog f (tick_finish env p b a) = backlog f a" if "agent_ok a"
    using arg_cong [OF finish_durable_view [OF that], of nv_backlog] False by (simp add: tick_finish_def)
  have st: "a_store (tick_finish env p b a) =
      map_option (\<lambda>d. commit (attempt (te_complete_ok env) (CompleteTriggers (a_nodeID a) ?t ?ks d)) d) (a_store a)"
    using False by (simp add: tick_finish_def finishTriggers_def Let_def split: option.split)
  have q: "queue_ok d' \<and> pending_key ` set (db_pending d) \<subseteq> pending_key ` set (db_pending d') \<union> set ?ks"
    if "store_ok d" "queue_ok d" "d' = commit (attempt (te_complete_ok env) (CompleteTriggers (a_nodeID a) ?t ?ks d)) d" for d d'
    unfolding that(3)
  proof (rule commit_cases)
    fix u e
    assume "attempt (te_complete_ok env) (CompleteTriggers (a_nodeID a) ?t ?ks d) = Inr (u, e)"
    then have c: "CompleteTriggers (a_nodeID a) ?t ?ks d = Inr (u, e)" by (simp only: attempt_Inr)
    show "queue_ok e \<and> pending_key ` set (db_pending d) \<subseteq> pending_key ` set (db_pending e) \<union> set ?ks"
      using queue_ok_CompleteTriggers [OF that(1,2) c] CompleteTriggers_open [OF that(1) c] ..
  qed (use that(2) in blast)
  have "queue_fine (tick_finish env p b a) \<and> durable_open a \<subseteq> durable_open (tick_finish env p b a) \<union> set ?ks"
    if "agent_ok a" "queue_fine a"
    using q agent_okD(2) [OF that(1)] that(2) by (auto simp: queue_fine_def durable_open_def st split: option.splits)
  with bl finishTriggers_ok False keys show ?thesis
    by (auto simp: moves_def node_ok_def sums_def tick_finish_def)
qed

lemma RecordTrigger_pending:
  assumes "store_ok d" "RecordTrigger origin t e d = Inr (b, d')"
  shows "set (db_pending d) \<subseteq> set (db_pending d')"
proof (cases b)
  case True
  with assms(2) obtain g where g: "ev_EventType e = ''triggered''" "ev_RunID e \<noteq> []" "ps_ID (ev_Probe e) \<noteq> []"
    "json_event e = Some g" "\<not> triggerAlreadySeenTx (ps_ID (ev_Probe e)) (ev_RunID e) d"
    by (auto simp: RecordTrigger_def split: if_splits option.splits)
  obtain s d2 where "RecordTrigger origin t e d = Inr (True, d2)"
    "db_pending d2 = db_pending d @ [\<lparr>q_probe_id = ps_ID (ev_Probe e), q_run_id = ev_RunID e,
       q_event_seq = db_autoinc d + 1, q_created_at_ms = t, q_snapshot_json = Some (ev_Probe g)\<rparr>]"
    by (rule RecordTrigger_fresh [OF assms(1) g])
  with assms(2) show ?thesis by auto
next
  case False
  with assms(2) show ?thesis by (auto simp: RecordTrigger_def bind_tx_Inr split: if_splits option.splits)
qed

lemma moves_take: "node_ok a \<Longrightarrow> moves (te_format env)
    (overlap_seen (STick env) \<lparr>ov_agent = a, ov_tick = Waiting, ov_beat = bt\<rparr>) a (snd (tick_take env a))"
proof -
  assume n: "node_ok a"
  show ?thesis
  proof (cases "a_ready a \<and> a_status a = NodeStatusActive")
    case False
    then have "snd (tick_take env a) = a" "overlap_seen (STick env) \<lparr>ov_agent = a, ov_tick = Waiting, ov_beat = bt\<rparr> = []"
      by (auto simp: tick_take_def)
    then show ?thesis by (auto intro!: moves_memory)
  next
    case g: True
    show ?thesis
    proof (cases "fst (binding_paused env a)")
      case True
      let ?b = "snd (binding_paused env a)"
      let ?a = "noteBindingPause (tick_now env a) ?b"
      have "moves (te_format env) [] a ?a" by (rule moves_memory) (simp_all add: noteBindingPause_def agent_ok_def)
      moreover have "node_ok ?a" using n by (simp add: node_ok_def noteBindingPause_def agent_ok_def)
      ultimately have "moves (te_format env) ([] @ [Deliver (drained env ?a)]) a (drainDelivery env ?a)"
        by (rule moves_trans [OF _ moves_drain_delivery])
      moreover have "drained env ?a = drained env ?b" by (rule drained_cong) (simp_all add: noteBindingPause_def)
      ultimately show ?thesis using g True by (simp add: tick_take_def)
    next
      case False
      obtain p a2 where p: "planned env a = (p, a2)" by (cases "planned env a")
      note f = planned_fields [OF p]
      have "moves (te_format env) [] a a2" by (rule moves_memory) (simp_all add: f)
      moreover have "node_ok a2" using n f(3,7) by (simp add: node_ok_def)
      ultimately have "moves (te_format env) ([] @ [Deliver (drained env a2)]) a (drainDelivery env a2)" "moves (te_format env) [] a a2"
        by (simp_all only: moves_trans [OF _ moves_drain_delivery])
      then show ?thesis using g False p by (simp add: tick_take_def)
    qed
  qed
qed

lemma moves_run: "moves f [] a (snd (tick_run env p now a))"
proof (cases "execute_plan env a (p\<lparr>tp_cache := a_cache a\<rparr>)")
  case None
  then show ?thesis by (auto simp: tick_run_def intro!: moves_memory)
next
  case (Some rs)
  have "moves f [] a (a\<lparr>a_path := record_path (te_recordedAt env) rs (a_path a)\<rparr>)"
    by (rule moves_memory) (simp_all add: agent_ok_def)
  from moves_trans [OF this moves_mark_due] Some show ?thesis by (simp add: tick_run_def)
qed

lemma PendingTriggers_keeps: "queue_ok d \<Longrightarrow> db_pending (snd (PendingTriggers d)) = db_pending d"
proof -
  assume "queue_ok d"
  then have "filter (\<lambda>q. q_snapshot_json q = None) (sort_key q_event_seq (db_pending d)) = []"
    by (auto simp: filter_empty_conv queue_ok_def)
  then show ?thesis by (simp add: PendingTriggers_def Let_def)
qed

lemma moves_restore: "moves f [] a (restore_again env a)"
proof (cases "a_store a \<noteq> None \<and> \<not> a_triggersRestored a \<and> be_restore_ok env")
  case True
  then obtain d where d: "a_store a = Some d" by auto
  show ?thesis
  proof (rule moves_store [OF d])
    show "a_store (restore_again env a) = Some (snd (PendingTriggers d))"
      using True d by (simp add: restore_again_def restorePendingTriggers_def case_prod_beta)
    show "agent_ok a \<Longrightarrow> agent_ok (restore_again env a)" by (rule restore_again_ok)
    show "a_spool (restore_again env a) = a_spool a"
      using True d by (simp add: restore_again_def restorePendingTriggers_def case_prod_beta)
    show "agent_ok a \<Longrightarrow> backlog f (restore_again env a) = backlog f a" by (rule restore_again_fields(2))
  qed (simp add: PendingTriggers_keeps queue_ok_PendingTriggers)
next
  case False
  then have "restore_again env a = a" by (auto simp: restore_again_def restorePendingTriggers_def split: option.split)
  then show ?thesis by (auto intro!: moves_memory)
qed

lemma moves_exchange: "moves f [] a (snd (exchange env a))"
  by (rule moves_memory) (simp_all add: exchange_ok)

lemma SaveAssignment_pending: "store_ok d \<Longrightarrow> SaveAssignment origin t h ps d = Inr (u, d') \<Longrightarrow> db_pending d' = db_pending d"
proof (cases "h = []")
  case False
  assume d: "store_ok d" and s: "SaveAssignment origin t h ps d = Inr (u, d')"
  from SaveAssignment_Inr [OF s] False obtain qs where q: "json_snapshots ps = Some qs" "distinct (map ps_ID ps)" by auto
  obtain n d1 where "SaveAssignment origin t h ps d =
       Inr ((), meta_set ''probe_hash'' h (d1\<lparr>db_probes := probe_rows True (db_probes d) qs\<rparr>))" "db_pending d1 = db_pending d"
    by (rule SaveAssignment_total [OF d False q])
  with s show ?thesis by (auto simp: meta_set_def)
qed (simp add: SaveAssignment_def)

lemma moves_sync_assignment: "moves f [] a (sync_assignment env resp a)"
proof (cases "a_store a")
  case None
  then have st: "a_store (sync_assignment env resp a) = None"
    by (simp add: sync_assignment_def persist_assignment_def Let_def)
  show ?thesis
    by (auto simp: moves_def node_ok_def queue_fine_def durable_open_def sums_def st None sync_assignment_ok sync_assignment_fields)
next
  case (Some d)
  have "\<exists>d'. a_store (sync_assignment env resp a) = Some d' \<and>
      (d' = d \<or> (\<exists>u. SaveAssignment (a_nodeID a) (be_nowMS env) (hb_ProbeHash resp) (hb_Probes resp) d = Inr (u, d')))"
    using Some by (auto simp: sync_assignment_def persist_assignment_def Let_def attempt_Inr split: sum.split)
  then obtain d' where d': "a_store (sync_assignment env resp a) = Some d'"
    "d' = d \<or> (\<exists>u. SaveAssignment (a_nodeID a) (be_nowMS env) (hb_ProbeHash resp) (hb_Probes resp) d = Inr (u, d'))" by blast
  have ok: "agent_ok a" "a_spool a = None" if "node_ok a" using that by (simp_all add: node_ok_def)
  have "queue_ok d' \<and> db_pending d' = db_pending d" if "store_ok d" "queue_ok d"
    using d'(2) that queue_ok_SaveAssignment SaveAssignment_pending by blast
  then show ?thesis
    using agent_okD(2) [OF _ Some] sync_assignment_ok sync_assignment_fields(2,3)
    by (auto simp: moves_def node_ok_def queue_fine_def durable_open_def sums_def d'(1) Some)
qed

lemma moves_sync: "moves f [] a (sync_response env resp s t a)"
proof -
  define b where "b = sync_clock env resp s t (let a = (if hb_NodeStatus resp \<noteq> [] then a\<lparr>a_status := hb_NodeStatus resp\<rparr> else a)
    in if hb_HeartbeatIntervalSecs resp > 0 then a\<lparr>a_interval := i64 (hb_HeartbeatIntervalSecs resp * second)\<rparr> else a)"
  have "moves f [] a b" by (rule moves_memory) (simp_all add: b_def agent_ok_def Let_def)
  moreover have "sync_response env resp s t a = sync_assignment env resp b" by (simp add: sync_response_def b_def Let_def)
  ultimately show ?thesis using moves_trans [of f "[]" a b "[]"] moves_sync_assignment by simp
qed

lemma moves_event: "moves f [] a (snd (beat_event env xs a))"
proof (cases "a_store a")
  case None
  then show ?thesis
    by (intro moves_memory) (simp_all add: beat_event_def agent_ok_cache cache_inv cache_hash agent_okD(1))
next
  case (Some d)
  obtain i e where x: "hd xs = (i, e)" by (cases "hd xs")
  obtain d' c' where s: "apply_event (be_event_ok env) (be_nowMS env) (a_nodeID a) (i, e) (d, a_cache a) = (d', c')" by fastforce
  have b: "snd (beat_event env xs a) = a\<lparr>a_store := Some d', a_cache := c'\<rparr>" by (simp add: beat_event_def Some x s)
  have cases: "d' = d \<or> (\<exists>u. RecordTrigger (a_nodeID a) (be_nowMS env) e d = Inr (u, d'))"
    using s by (auto simp: apply_event_def attempt_Inr split: sum.splits)
  show ?thesis
    unfolding b
  proof (rule moves_store [OF Some])
    show "a_store (a\<lparr>a_store := Some d', a_cache := c'\<rparr>) = Some d'" by simp
    show "agent_ok (a\<lparr>a_store := Some d', a_cache := c'\<rparr>)" if "agent_ok a"
      using apply_event_ok [OF agent_okD(2) [OF that Some] agent_okD(1) [OF that], of "be_event_ok env" "be_nowMS env" "a_nodeID a" "(i, e)"]
        that by (simp add: s agent_ok_def store_agrees_def Some)
    show "queue_ok d' \<and> pending_key ` set (db_pending d) \<subseteq> pending_key ` set (db_pending d')" if "store_ok d" "queue_ok d"
      using cases
    proof
      assume "\<exists>u. RecordTrigger (a_nodeID a) (be_nowMS env) e d = Inr (u, d')"
      then obtain u where u: "RecordTrigger (a_nodeID a) (be_nowMS env) e d = Inr (u, d')" ..
      have "set (db_pending d) \<subseteq> set (db_pending d')" by (rule RecordTrigger_pending [OF that(1) u])
      then show ?thesis using queue_ok_RecordTrigger [OF that u] by blast
    qed (use that(2) in simp)
    show "backlog f (a\<lparr>a_store := Some d', a_cache := c'\<rparr>) = backlog f a" if "agent_ok a"
      using cases RecordTrigger_backlog [OF agent_okD(2) [OF that Some]] by (auto simp: backlog_def Some)
  qed simp
qed

lemma moves_gate: "moves f [] a (open_gate resp a)"
  by (rule moves_memory) (simp_all add: open_gate_def agent_ok_def)

lemma moves_maintenance: "moves f [] a (snd (maintenance_round env a))"
proof (cases "a_store a")
  case None
  then show ?thesis by (auto simp: maintenance_round_def intro!: moves_memory)
next
  case (Some d)
  let ?d = "snd (Maintain quiet (me_live env) (me_freelist env) (me_now env) \<lparr>mo_Retention = a_dbRetention a, mo_MaxBytes = a_dbMaxBytes a\<rparr> d)"
  have st: "snd (maintenance_round env a) = a\<lparr>a_store := Some ?d\<rparr>" by (simp add: maintenance_round_def Some case_prod_beta)
  have k: "keeps d ?d" if "store_ok d" by (rule Maintain_keeps [OF that])
  show ?thesis
  proof (rule moves_store [OF Some, where d' = ?d])
    show "queue_ok ?d \<and> pending_key ` set (db_pending d) \<subseteq> pending_key ` set (db_pending ?d)" if "store_ok d" "queue_ok d"
      using k [OF that(1)] queue_ok_cong [OF that(2)] by (simp add: keeps_def)
    show "backlog f (snd (maintenance_round env a)) = backlog f a" if "agent_ok a"
      using keeps_backlog [OF agent_okD(2) [OF that Some] k [OF agent_okD(2) [OF that Some]]] by (simp add: st backlog_def Some)
  qed (simp_all add: st maintenance_ok [of a env, unfolded st])
qed

section \<open>Every overlap of the loops\<close>

lemma overlap_moves:
  assumes "node_ok (ov_agent s)"
  shows "moves f (overlap_seen (overlap_format f e) s) (ov_agent s) (ov_agent (overlap_step (overlap_format f e) s))"
proof (cases e)
  case (STick env)
  let ?e = "env\<lparr>te_format := f\<rparr>"
  show ?thesis
  proof (cases "ov_tick s")
    case Waiting
    have "\<lparr>ov_agent = ov_agent s, ov_tick = Waiting, ov_beat = ov_beat s\<rparr> = s" using Waiting by simp
    with moves_take [OF assms, of ?e "ov_beat s"] show ?thesis
      by (simp add: STick Waiting case_prod_beta del: overlap_seen.simps)
  next
    case (Taken p now)
    with moves_run [of f "ov_agent s" ?e p now] show ?thesis by (simp add: STick case_prod_beta)
  next
    case (Ran p rs)
    with moves_report [OF assms, of ?e rs] show ?thesis by (simp add: STick split: prod.split)
  next
    case (Reported p b)
    with moves_finish [of f p b "ov_agent s" ?e] show ?thesis by (simp add: STick)
  qed
next
  case (SBeat env)
  show ?thesis
  proof (cases "ov_beat s")
    case Quiet
    with moves_restore show ?thesis by (simp add: SBeat)
  next
    case Restored
    with moves_exchange [of f "ov_agent s" env] show ?thesis
      by (cases "exchange env (ov_agent s)") (auto simp: SBeat split: option.split)
  next
    case (Answered resp x y)
    with moves_sync show ?thesis by (simp add: SBeat)
  next
    case (Applying resp xs)
    with moves_event [of f "ov_agent s" env xs] moves_gate show ?thesis by (simp add: SBeat case_prod_beta)
  qed
next
  case (SMaintain env)
  with moves_maintenance show ?thesis by simp
qed

lemma run_moves:
  "node_ok (ov_agent s) \<Longrightarrow> queue_fine (ov_agent s) \<Longrightarrow>
     moves f (seen_along (\<lambda>e. overlap_seen (overlap_format f e)) (\<lambda>e. overlap_step (overlap_format f e)) es s) (ov_agent s)
       (ov_agent (fold (\<lambda>e. overlap_step (overlap_format f e)) es s))"
proof (induction es arbitrary: s)
  case Nil
  then show ?case by (simp add: moves_memory)
next
  case (Cons e es)
  note m = overlap_moves [OF Cons.prems(1), of f e]
  then have "node_ok (ov_agent (overlap_step (overlap_format f e) s))" "queue_fine (ov_agent (overlap_step (overlap_format f e) s))"
    using Cons.prems by (simp_all add: moves_def)
  from moves_trans [OF m Cons.IH [OF this]] show ?case by simp
qed

text \<open>Triggers are settled only after the report of their tick succeeded: a report is seen as a settling without triggers
  or, when it failed, as a retry without triggers.\<close>

fun reported_safely :: "bool \<Rightarrow> nodeAction list \<Rightarrow> bool" where
  "reported_safely b [] = b"
| "reported_safely b (Settle ks rs # xs) = reported_safely (if ks = [] then True else b) xs"
| "reported_safely b (Retry ks # xs) = reported_safely (if ks = [] then False else b) xs"
| "reported_safely b (x # xs) = reported_safely b xs"

fun settled_safely :: "bool \<Rightarrow> nodeAction list \<Rightarrow> bool" where
  "settled_safely b [] = True"
| "settled_safely b (Settle ks rs # xs) = (if ks = [] then settled_safely True xs else b \<and> settled_safely b xs)"
| "settled_safely b (Retry ks # xs) = settled_safely (if ks = [] then False else b) xs"
| "settled_safely b (x # xs) = settled_safely b xs"

lemma settled_safely_append: "settled_safely b (xs @ ys) \<longleftrightarrow> settled_safely b xs \<and> settled_safely (reported_safely b xs) ys"
  by (induction b xs rule: settled_safely.induct) auto

definition phase_safe :: "bool \<Rightarrow> overlap \<Rightarrow> bool" where
  "phase_safe b s = (case ov_tick s of Reported p dur \<Rightarrow> dur \<longrightarrow> b | _ \<Rightarrow> True)"

lemma report_seen_safe:
  assumes "node_ok a" "tick_report env rs a = (dur, a')"
  shows "settled_safely b (report_seen env [] rs a)" "dur \<Longrightarrow> reported_safely b (report_seen env [] rs a)"
proof -
  have "a_spool a = None" using assms(1) by (simp add: node_ok_def)
  then have direct: "reportFallback env rs a = (te_direct env rs \<noteq> None, a)" by (simp add: reportFallback_def)
  show "settled_safely b (report_seen env [] rs a)" by (simp add: report_seen_def Let_def split: option.split)
  assume dur
  with assms(2) direct show "reported_safely b (report_seen env [] rs a)"
    by (auto simp: report_seen_def tick_report_def reportResults_def attempt_def Let_def split: option.splits if_splits)
qed

lemma take_phase: "fst (tick_take env a) = Waiting \<or> (\<exists>p now. fst (tick_take env a) = Taken p now)"
  by (auto simp: tick_take_def split: prod.split)

lemma tick_run_phase: "(\<exists>rs. fst (tick_run env p now a) = Ran p rs) \<or> fst (tick_run env p now a) = Taken p now"
  by (auto simp: tick_run_def split: option.split)

lemma overlap_safe:
  assumes "node_ok (ov_agent s)" "phase_safe b s"
  shows "settled_safely b (overlap_seen e s) \<and> phase_safe (reported_safely b (overlap_seen e s)) (overlap_step e s)"
proof (cases e)
  case (STick env)
  show ?thesis
  proof (cases "ov_tick s")
    case Waiting
    with take_phase [of env "ov_agent s"] show ?thesis
      by (auto simp: STick phase_safe_def case_prod_beta split: if_splits)
  next
    case (Taken p now)
    with tick_run_phase [of env p now "ov_agent s"] show ?thesis by (auto simp: STick phase_safe_def case_prod_beta)
  next
    case (Ran p rs)
    obtain dur a' where r: "tick_report env rs (ov_agent s) = (dur, a')" by (cases "tick_report env rs (ov_agent s)")
    from report_seen_safe [OF assms(1) r] Ran show ?thesis by (simp add: STick r phase_safe_def)
  next
    case (Reported p dur)
    with assms(2) show ?thesis by (auto simp: STick phase_safe_def)
  qed
next
  case (SBeat env)
  have "ov_tick (overlap_step (SBeat env) s) = ov_tick s"
    by (auto split: beatPhase.split prod.split option.split)
  with assms(2) show ?thesis by (simp add: SBeat phase_safe_def del: overlap_step.simps)
next
  case (SMaintain env)
  with assms(2) show ?thesis by (simp add: phase_safe_def)
qed

lemma run_safe:
  "node_ok (ov_agent s) \<Longrightarrow> queue_fine (ov_agent s) \<Longrightarrow> phase_safe b s \<Longrightarrow>
     settled_safely b (seen_along (\<lambda>e. overlap_seen (overlap_format f e)) (\<lambda>e. overlap_step (overlap_format f e)) es s)"
proof (induction es arbitrary: s b)
  case (Cons e es)
  have "node_ok (ov_agent (overlap_step (overlap_format f e) s)) \<and> queue_fine (ov_agent (overlap_step (overlap_format f e) s))"
    using overlap_moves [OF Cons.prems(1), of f e] Cons.prems(1,2) by (simp add: moves_def)
  with overlap_safe [OF Cons.prems(1,3), of "overlap_format f e"] show ?case
    by (simp add: settled_safely_append Cons.IH)
qed simp

lemma booted_queue_fine:
  assumes "list_all (\<lambda>op. op \<noteq> OpRebuild) ops"
  shows "queue_fine (booted base (Database ops) load_ok read_ok now)"
proof -
  have "queue_ok (fold (store_step (a_nodeID base)) ops fresh_db)"
    by (rule queue_ok_run [OF fresh_db_ok _ assms]) (simp add: queue_ok_def fresh_db_def)
  then show ?thesis
    by (auto simp: booted_def start_agent_def restore_local_def restorePendingTriggers_def queue_fine_def Let_def
        case_prod_beta queue_ok_PendingTriggers)
qed

text \<open>C3. Nothing durable is lost however the loops overlap. The scheduler, the heartbeat and the maintenance of a node with
  a database move in any order, phase by phase, with any failures: then the node stays well formed; results delivered
  so far followed by the undelivered ones are the ones the start found followed by those recorded, in order; a
  trigger the database held as unfinished at any point is still unfinished later or was settled in between; and
  triggers are settled only after the report of their own tick succeeded.\<close>

theorem overlapping_loops_lose_nothing:
  assumes "list_all (\<lambda>op. op \<noteq> OpRebuild) ops"
  shows "let step = (\<lambda>e. overlap_step (overlap_format f e));
             s = fold step es (resting (booted base (Database ops) load_ok read_ok now));
             t = fold step es' s;
             seen = (\<lambda>es. seen_along (\<lambda>e. overlap_seen (overlap_format f e)) step es)
         in agent_ok (ov_agent t)
          \<and> delivered (seen es' s) @ backlog f (ov_agent t) = backlog f (ov_agent s) @ recorded (seen es' s)
          \<and> durable_open (ov_agent s) \<subseteq> durable_open (ov_agent t) \<union> set (settled (seen es' s))
          \<and> settled_safely False (seen (es @ es') (resting (booted base (Database ops) load_ok read_ok now)))"
proof -
  let ?step = "\<lambda>e. overlap_step (overlap_format f e)"
  let ?init = "resting (booted base (Database ops) load_ok read_ok now)"
  let ?s = "fold ?step es ?init"
  have ok: "node_ok (ov_agent ?init)" "queue_fine (ov_agent ?init)"
    using booted_node_ok [of base "Some ops" load_ok read_ok now] booted_queue_fine [OF assms]
    by (simp_all add: resting_def unspooled_def)
  have "node_ok (ov_agent ?s)" "queue_fine (ov_agent ?s)" using run_moves [OF ok, of f es] ok by (simp_all add: moves_def)
  with run_moves [OF this, of f es'] run_safe [OF ok, of False f "es @ es'"] show ?thesis
    by (auto simp: moves_def node_ok_def Let_def phase_safe_def resting_def)
qed

lemma restart_open:
  "{(''b'', ''r2''), (''a'', ''r3'')} \<subseteq> durable_open (booted plain_agent (Database restart_ops) True True demo_now)"
  by code_simp

theorem overlapping_loops_lose_nothing_witness:
  "\<forall>es. {(''b'', ''r2''), (''a'', ''r3'')} \<subseteq>
     durable_open (ov_agent (fold (\<lambda>e. overlap_step (overlap_format (\<lambda>_. ''T'') e)) es
       (resting (booted plain_agent (Database restart_ops) True True demo_now)))) \<union>
     set (settled (seen_along (\<lambda>e. overlap_seen (overlap_format (\<lambda>_. ''T'') e)) (\<lambda>e. overlap_step (overlap_format (\<lambda>_. ''T'') e)) es
       (resting (booted plain_agent (Database restart_ops) True True demo_now))))"
proof
  fix es
  have "list_all (\<lambda>op. op \<noteq> OpRebuild) restart_ops" by (simp add: restart_ops_def)
  from overlapping_loops_lose_nothing [OF this, where f = "\<lambda>_. ''T''" and es = "[]" and es' = es and base = plain_agent
      and load_ok = True and read_ok = True and now = demo_now] restart_open
  show "{(''b'', ''r2''), (''a'', ''r3'')} \<subseteq>
     durable_open (ov_agent (fold (\<lambda>e. overlap_step (overlap_format (\<lambda>_. ''T'') e)) es
       (resting (booted plain_agent (Database restart_ops) True True demo_now)))) \<union>
     set (settled (seen_along (\<lambda>e. overlap_seen (overlap_format (\<lambda>_. ''T'') e)) (\<lambda>e. overlap_step (overlap_format (\<lambda>_. ''T'') e)) es
       (resting (booted plain_agent (Database restart_ops) True True demo_now))))"
    by (simp add: Let_def resting_def) blast
qed

end
