(* ===== verification/Spec2Isabelle.thy ===== *)
theory Spec2Isabelle
  imports Agent_Guarantees Store_Rollups Pool_Sharing Pool_Reuse Poolconfig Modinstall_Guarantees Jobprobe Registry Native_Checks
    Api_Guarantees Store_Command Portalloc Sockets Node_Overlap
begin

text \<open>
  \<^bold>\<open>The program.\<close> \<^verbatim>\<open>radar-node\<close> is an agent that measures the reachability of targets. A server (\<^verbatim>\<open>radar-api\<close>)
  assigns probes to it in answers to heartbeats; a scheduler runs the due ones and the ones the server triggered,
  through checkers that are either built in or defined by YAML modules; the results are recorded in a local database
  or a spool and delivered in batches. The same binary has commands for a single probe, for installing modules and for
  looking at the database and the logs. This development models its packages over one shared prelude and proves
  what they guarantee, alone and together. The text before each claim states it in words.

  \<^bold>\<open>Which theory models what\<close> (paths under \<^verbatim>\<open>src/\<close>).
  \<^item> \<open>Prelude\<close>: Go's values, 64-bit arithmetic, times, strings and formatting. \<open>Filepath\<close>, \<open>Base64\<close> and \<open>Flags\<close>: the parts of
    \<^verbatim>\<open>path/filepath\<close>, \<^verbatim>\<open>encoding/base64\<close> and \<^verbatim>\<open>flag\<close> that are used.
  \<^item> \<open>Wire\<close>: \<^verbatim>\<open>internal/wire\<close> and \<^verbatim>\<open>internal/probe\<close>. \<open>Netbind\<close>, \<open>Netdial\<close>, \<open>Sockets\<close>: \<^verbatim>\<open>internal/netbind\<close>, the last
    with the socket option of each platform and the system calls of \<^verbatim>\<open>ListenICMP\<close>. \<open>Portalloc\<close>: \<^verbatim>\<open>internal/portalloc\<close>.
  \<^item> \<open>Cache\<close>, \<open>Cache_Selection\<close>, \<open>Cache_Triggers\<close>: \<^verbatim>\<open>internal/agent/cache.go\<close>, a record with the assignment, the schedule and the
    trigger queue, one function per method.
  \<^item> \<open>Store\<close>, \<open>Store_Maintenance\<close>: \<^verbatim>\<open>internal/store\<close>, the SQLite schema as a record of tables and each transaction as a function
    into an error or a value with the new tables. \<open>Store_Invariant\<close>, \<open>Store_Results\<close>, \<open>Store_Triggers\<close>, \<open>Store_Rollups\<close> hold what is
    proved of them.
  \<^item> \<open>Delivery\<close>, \<open>Delivery_Queue\<close>: \<^verbatim>\<open>spool.go\<close> and \<^verbatim>\<open>store_delivery.go\<close> of \<^verbatim>\<open>internal/agent\<close>. \<open>Node_Health\<close>: \<^verbatim>\<open>clock.go\<close>, \<^verbatim>\<open>pathhealth.go\<close>,
    \<^verbatim>\<open>health.go\<close>, \<^verbatim>\<open>resources.go\<close>, \<^verbatim>\<open>domain.go\<close>. \<open>Destgate\<close>: \<^verbatim>\<open>internal/destgate\<close>.
  \<^item> \<open>Dispatch\<close>, \<open>Installer\<close>, \<open>Agent\<close>, \<open>Agent_Config\<close>: \<^verbatim>\<open>internal/agent/agent.go\<close>, from jobs and results of a tick over the
    self-update script to the scheduler tick, the heartbeat, the maintenance round and the start of the process. Their
    guarantees are in \<open>Agent_Invariant\<close> and \<open>Agent_Guarantees\<close>, \<open>Node_Spec\<close> specifies the node as a whole, and \<open>Node_Overlap\<close>
    cuts the rounds into the phases in which the loops of the process overlap.
  \<^item> \<open>Api_Client\<close>, \<open>Api_Guarantees\<close>: \<^verbatim>\<open>internal/apiclient\<close>, and the agent over it.
  \<^item> \<open>Placeholder\<close>, \<open>Schema\<close>, \<open>Module_Def\<close>, \<open>Checker\<close>, \<open>Pool\<close>: \<^verbatim>\<open>internal/module\<close>, argument templates, data forms, definitions, the
    run of a single check and the pooled checker. \<open>Pool_Guarantees\<close>, \<open>Pool_Reuse\<close>, \<open>Pool_Sharing\<close> hold what is proved of the pool.
    \<open>Registry\<close>: \<^verbatim>\<open>internal/registry\<close>. \<open>Poolconfig\<close>: \<^verbatim>\<open>internal/poolconfig\<close>. \<open>Jobprobe\<close>: \<^verbatim>\<open>internal/jobprobe\<close>.
  \<^item> \<open>Modinstall\<close>, \<open>Modinstall_Guarantees\<close>: \<^verbatim>\<open>internal/moduleinstall\<close>, over a file tree and a log of requests.
  \<^item> \<open>Fetch_Check\<close>, \<open>Native_Checks\<close>: \<^verbatim>\<open>internal/checks\<close> and the table of \<^verbatim>\<open>internal/action\<close>.
  \<^item> \<open>Output\<close>: \<^verbatim>\<open>internal/output\<close>. \<open>Journal_Logs\<close>: \<^verbatim>\<open>internal/journal\<close> and \<^verbatim>\<open>cmd/radar-node/logs.go\<close>. \<open>Command_Line\<close>, \<open>Store_Command\<close>:
    the rest of \<^verbatim>\<open>cmd/radar-node\<close>.

  \<^bold>\<open>How state and effects correspond.\<close> A struct is a record with its fields in order, a map an association list whose
  order stands for the iteration order the runtime chose, a row of a table a record. What is done under one lock, in one
  transaction or in one critical section of the pool is one function on the state; a loop of the process is modelled by
  one of its rounds, and statements about histories quantify over any sequence of rounds (\<open>agent_step\<close>, \<open>store_step\<close>,
  \<open>cache_step\<close>, batches of the pool, the step relation of \<open>Pool_Sharing\<close> for callers that overlap, \<open>overlap_step\<close> for
  loops that overlap). Errors are values of
  a sum type; \<open>None\<close> as the outcome of an operation is a panic, so a statement that an operation returns \<open>Some\<close> says that
  it does not panic. Everything outside, the server, processes, the clock, files, randomness, SQL sizes, YAML, JSON,
  regular expressions, jq, SHA-256 and time formats, is an argument, most often a field of an environment record; a
  statement holds for every such environment, and what it relies on is a named hypothesis.

  \<^bold>\<open>Interfaces.\<close> \<open>invariant_machine\<close> (\<open>Cache\<close>): a state, its steps and an invariant; interpreted for the cache, the store, the
  destination gate, the agent and the agent with the trace of its confirmations. \<open>durable_queue\<close> (\<open>Delivery_Queue\<close>): what
  the agent needs of a delivery back end; interpreted for the store and for the spool. \<open>batch_prober\<close> (\<open>Pool_Guarantees\<close>): what
  the dispatcher needs of a pooled checker; interpreted for the pool. \<open>answering_checker\<close> (\<open>Command_Line\<close>): what the probe
  command needs of a checker; interpreted for all checkers of a registry. \<open>node_refinement\<close> (\<open>Node_Spec\<close>), which extends
  \<open>invariant_machine\<close>: a machine whose steps are runs of the abstract node; interpreted for the agent.

  \<^bold>\<open>What is shown.\<close>
  \<^item> The node: each round of the agent is a run of an abstract node that knows the confirmed status, the open triggers and
    the undelivered results, and what holds of all such runs, in-order delivery at most once, no trigger settled
    unless offered, no work without a confirmed active status, holds over the life of a process (\<open>Node_Spec\<close>).
    However the loops overlap, no recorded result and no durable trigger is lost (\<open>Node_Overlap\<close>).
  \<^item> The agent: nothing runs before the server confirmed the node, a trigger is retired only with durable results
    and survives a restart, a tick keeps its job budget, the reported hash is the durable one, and answers that are no
    answers change nothing (\<open>Agent_Guarantees\<close>, \<open>Api_Guarantees\<close>).
  \<^item> Delivery: both back ends are queues that deliver in order and, for the store, exactly once (\<open>Delivery_Queue\<close>).
  \<^item> The store: its invariant over every history, at-most-once triggers, rebuilding, exact rollups, what maintenance
    may never delete, and complete paging of the journal (\<open>Store_Results\<close>, \<open>Store_Triggers\<close>, \<open>Store_Rollups\<close>, \<open>Store_Command\<close>).
  \<^item> Modules: validation and substitution have the declared meaning, single checks always answer, the pool answers
    every option and leaves no engine behind, isolates bad jobs and reuses warm engines, merged configurations do not
    mix jobs, and the registry reports what it uploads.
  \<^item> Installation: writes stay below the two directories, a definition is stored last, removal undoes a fetch.
  \<^item> Checks: every built-in action gives a well-formed answer, fetch pipelines report exactly what they extracted, a
    status expectation means what it lists, a job probe keeps its time budget.
  \<^item> Sockets: a probe socket is bound as configured or closed with an error, on every path (\<open>Sockets\<close>).
  \<^item> The command line: options in any order mean the same, a probe reports each attempt once, the documented
    defaults start an agent, initialising never overwrites an edit, CSV reads back, the log filter means the log level.

  \<^bold>\<open>Bounds and fuel.\<close> Integers that the code keeps in 64 bits wrap (\<open>i64\<close>) where the code can reach the bound; elsewhere
  they are unbounded. Floating-point numbers are rationals with the infinities and NaN, without rounding. Loops with fuel:
  \<open>drain_store_loop\<close> has one unit more than the journal has rows and each settled round takes at least one row off the
  queue; \<open>rollup_loop\<close> has seven more than the rows, for the moves another process may make of the cursor. The first is
  proved to finish always, the second when no other process writes at the same time. \<open>size_loop\<close> (100) and \<open>unique_port_loop\<close> (256) carry the limits of the source. The retries of a download are five, as
  in the source. \<open>WaitForPort\<close> is a partial function, proved to return once a dial succeeds or the context ends.
  Strings are bytes, and upper case, lower case and spaces are the ASCII ones; paths are Unix paths.

  \<^bold>\<open>Not modelled.\<close> Tickers, goroutine start and shutdown, contexts except where a budget or a cancellation decides a
  result, and log output; the SQL engine, its pragmas and its file locking; what the shell and the service manager do
  with the installer's script; the attributes of child processes (\<^verbatim>\<open>detach_*.go\<close>, \<^verbatim>\<open>sysproc_*.go\<close>); the usage text. These are
  calls into the operating system or other programs, with no decision of the program's own in them.

  \<^bold>\<open>Limits of the whole-node statements.\<close> In \<open>Node_Spec\<close> a round of a loop is one step; \<open>Node_Overlap\<close> lets the phases of
  the rounds interleave, with a drain of the results and a maintenance round as one phase each. A crash is a restart
  between phases. Both are for an agent with a database (the former also for one with none); with the file spool,
  which may evict batches, delivery is stated in \<open>Delivery_Queue\<close>.
\<close>

end
